(* ===== verification/Prelude.thy ===== *)
theory Prelude
  imports Main "HOL-Library.Word" "HOL-Library.Monad_Syntax"
begin

text \<open>
  The vocabulary every component shares: the machine integers of the C code, byte strings,
  the bytes of a number and back, and guarded access to a byte buffer.

  Conventions used in every theory of the development:
  \<^item> an \<open>uintN_t\<close> of the code is an \<open>N word\<close>, a C \<open>int\<close> used as a return
    code is an \<open>int\<close>;
  \<^item> a buffer is the list of its bytes; the pointer arithmetic \<open>p += n\<close> that walks over
    it is \<open>drop n\<close>;
  \<^item> a computation whose C original may read or write outside a buffer or through a null
    pointer returns an \<open>option\<close>: \<open>None\<close> is that undefined behaviour,
    \<open>Some v\<close> is a normal return. Errors the code itself detects are ordinary values
    (negative return codes), never \<open>None\<close>.
\<close>

unbundle bit_operations_syntax

type_synonym u8 = "8 word"
type_synonym u16 = "16 word"
type_synonym u32 = "32 word"
type_synonym u64 = "64 word"
type_synonym bytes = "u8 list"

named_theorems buf_simps \<open>rewrite rules for reads from and writes to byte buffers\<close>

subsection \<open>Bytes of a number, most significant first\<close>

fun be_bytes :: "nat \<Rightarrow> nat \<Rightarrow> bytes" where
  "be_bytes 0 v = []"
| "be_bytes (Suc n) v = be_bytes n (v div 256) @ [word_of_nat v]"

fun be_nat :: "bytes \<Rightarrow> nat" where
  "be_nat [] = 0"
| "be_nat (b # bs) = unat b * 256 ^ length bs + be_nat bs"

lemma length_be_bytes [simp]: "length (be_bytes n v) = n"
  by (induction n v rule: be_bytes.induct) simp_all

lemma be_nat_append: "be_nat (xs @ ys) = be_nat xs * 256 ^ length ys + be_nat ys"
  by (induction xs) (simp_all add: algebra_simps power_add)

lemma unat_u8_less [simp]: "unat (b :: u8) < 256"
proof -
  have "unat b < 2 ^ LENGTH(8)" by (rule unsigned_less)
  then show ?thesis by simp
qed

lemma u8_of_nat_cong:
  assumes "v mod 256 = w mod 256"
  shows "(word_of_nat v :: u8) = word_of_nat w"
  by (rule word_unat_eq_iff [THEN iffD2]) (simp add: unsigned_of_nat take_bit_eq_mod assms)

lemma be_nat_less: "be_nat bs < 256 ^ length bs"
proof (induction bs)
  case Nil
  then show ?case by simp
next
  case (Cons b bs)
  have "unat b < 256" by simp
  have "unat b * 256 ^ length bs + be_nat bs < unat b * 256 ^ length bs + 256 ^ length bs"
    using Cons by simp
  also have "\<dots> = (unat b + 1) * 256 ^ length bs" by simp
  also have "\<dots> \<le> 256 * 256 ^ length bs"
    by (rule mult_right_mono) (use \<open>unat b < 256\<close> in linarith, simp)
  finally show ?case by simp
qed

lemma be_nat_be_bytes: "be_nat (be_bytes n v) = v mod 256 ^ n"
proof (induction n v rule: be_bytes.induct)
  case (1 v)
  then show ?case by simp
next
  case (2 n v)
  have "be_nat (be_bytes (Suc n) v) = (v div 256) mod 256 ^ n * 256 + v mod 256"
    using 2 by (simp add: be_nat_append unat_of_nat)
  also have "\<dots> = v mod (256 * 256 ^ n)"
    by (simp add: mod_mult2_eq mult.commute)
  finally show ?case by simp
qed

lemma be_bytes_mod: "be_bytes n (v mod 256 ^ n) = be_bytes n v"
proof (induction n v rule: be_bytes.induct)
  case (1 v)
  then show ?case by simp
next
  case (2 n v)
  have d: "v mod (256 * 256 ^ n) div 256 = (v div 256) mod 256 ^ n"
    by (simp add: mod_mult2_eq)
  have m: "(word_of_nat (v mod (256 * 256 ^ n)) :: u8) = word_of_nat v"
    by (rule u8_of_nat_cong) (simp add: mod_mod_cancel)
  show ?case using 2 by (simp add: d m)
qed

lemma be_bytes_be_nat: "be_bytes (length bs) (be_nat bs) = bs"
proof (induction bs rule: rev_induct)
  case Nil
  then show ?case by simp
next
  case (snoc b bs)
  have "(be_nat bs * 256 + unat b) div 256 = be_nat bs" by simp
  moreover have "(word_of_nat (be_nat bs * 256 + unat b) :: u8) = word_of_nat (unat b)"
    by (rule u8_of_nat_cong) simp
  ultimately show ?case using snoc by (simp add: be_nat_append)
qed

subsection \<open>Shifts and masks as bytes\<close>

lemma byte_of_shift: "(ucast (drop_bit n v AND 0xff) :: u8) = word_of_nat (unat v div 2 ^ n)"
  for v :: "'a :: len word"
proof -
  have m: "(0xff :: 'a word) = mask 8" by (simp add: mask_eq_exp_minus_1)
  have "(ucast (drop_bit n v AND 0xff) :: u8) = ucast (drop_bit n v)"
    unfolding m by (rule bit_word_eqI) (auto simp: bit_simps dest: bit_imp_le_length)
  also have "\<dots> = word_of_nat (unat (drop_bit n v))" by simp
  also have "unat (drop_bit n v) = unat v div 2 ^ n"
    unfolding unat_drop_bit_eq by (rule drop_bit_eq_div)
  finally show ?thesis .
qed

lemma byte_of_mask: "(ucast (v AND 0xff) :: u8) = word_of_nat (unat v)"
  for v :: "'a :: len word"
  using byte_of_shift [of 0 v] by simp

lemma u8_and_255 [simp]: "(v :: u8) AND 255 = v"
proof -
  have m: "(255 :: u8) = mask 8" by (simp add: mask_eq_exp_minus_1)
  show ?thesis unfolding m by (rule bit_word_eqI) (auto simp: bit_simps dest: bit_imp_le_length)
qed

lemma or_byte: "push_bit 8 w OR ucast (b :: u8) = w * 256 + ucast b"
  for w :: "'a :: len word"
proof -
  have "push_bit 8 w + ucast b = push_bit 8 w OR (ucast b :: 'a word)"
    by (rule disjunctive_add) (auto simp: bit_simps dest: bit_imp_le_length)
  then show ?thesis by (simp add: push_bit_eq_mult)
qed

lemma or_byte_of_nat:
  "push_bit 8 (word_of_nat k) OR ucast (b :: u8) = (word_of_nat (k * 256 + unat b) :: 'a :: len word)"
  by (simp add: or_byte)

lemma be_bytes_2: "be_bytes 2 v = [word_of_nat (v div 2 ^ 8), word_of_nat v]"
proof -
  have "be_bytes 2 v = be_bytes (Suc (Suc 0)) v" by (simp only: numeral_2_eq_2)
  then show ?thesis by simp
qed

lemma be_bytes_3:
  "be_bytes 3 v = [word_of_nat (v div 2 ^ 16), word_of_nat (v div 2 ^ 8), word_of_nat v]"
proof -
  have "be_bytes 3 v = be_bytes (Suc 2) v" by simp
  then show ?thesis by (simp only: be_bytes.simps be_bytes_2) (simp flip: div_mult2_eq)
qed

lemma be_bytes_4:
  "be_bytes 4 v = word_of_nat (v div 2 ^ 24) # be_bytes 3 v"
proof -
  have "be_bytes 4 v = be_bytes (Suc 3) v" by simp
  then show ?thesis by (simp only: be_bytes.simps be_bytes_3) (simp flip: div_mult2_eq)
qed

lemma be_bytes_6:
  "be_bytes 6 v = word_of_nat (v div 2 ^ 40) # word_of_nat (v div 2 ^ 32) # be_bytes 4 v"
proof -
  have "be_bytes 6 v = be_bytes (Suc (Suc 4)) v" by simp
  then show ?thesis
    by (simp only: be_bytes.simps be_bytes_4 be_bytes_3) (simp flip: div_mult2_eq)
qed

lemma be_bytes_8:
  "be_bytes 8 v = word_of_nat (v div 2 ^ 56) # word_of_nat (v div 2 ^ 48) # be_bytes 6 v"
proof -
  have "be_bytes 8 v = be_bytes (Suc (Suc 6)) v" by simp
  then show ?thesis
    by (simp only: be_bytes.simps be_bytes_6 be_bytes_4 be_bytes_3) (simp flip: div_mult2_eq)
qed

lemma drop_byte: "(ucast (drop_bit k w) :: u8) = word_of_nat (unat w div 2 ^ k)"
  for w :: "'a :: len word"
proof -
  have "(ucast (drop_bit k w) :: u8) = word_of_nat (unat (drop_bit k w))" by simp
  also have "unat (drop_bit k w) = unat w div 2 ^ k"
    unfolding unat_drop_bit_eq by (rule drop_bit_eq_div)
  finally show ?thesis .
qed

lemma no_bit: "64 \<le> k \<Longrightarrow> \<not> bit (w64 :: u64) k" "32 \<le> k \<Longrightarrow> \<not> bit (w32 :: u32) k"
  "8 \<le> k \<Longrightarrow> \<not> bit (w8 :: u8) k"
  using bit_imp_le_length [of w64 k] bit_imp_le_length [of w32 k] bit_imp_le_length [of w8 k] by auto


lemma be_nat_word32:
  "(word_of_nat (be_nat [a, b, c, d]) :: u32) =
   push_bit 24 (ucast a) OR push_bit 16 (ucast b) OR push_bit 8 (ucast c) OR ucast d"
proof -
  have "(word_of_nat (be_nat [a, b, c, d]) :: u32) =
      word_of_nat (((unat a * 256 + unat b) * 256 + unat c) * 256 + unat d)"
    by (simp add: algebra_simps)
  also have "\<dots> = push_bit 8 (push_bit 8 (push_bit 8 (ucast a) OR ucast b) OR ucast c) OR ucast d"
    using or_byte_of_nat [of "unat a" b, where 'a = 32]
      or_byte_of_nat [of "unat a * 256 + unat b" c, where 'a = 32]
      or_byte_of_nat [of "(unat a * 256 + unat b) * 256 + unat c" d, where 'a = 32]
    by simp
  finally show ?thesis by (simp add: or.assoc)
qed

subsection \<open>Bytewise exclusive or\<close>

definition xor_bytes :: "bytes \<Rightarrow> bytes \<Rightarrow> bytes" where
  "xor_bytes a b = map2 (XOR) a b"

lemma xor_bytes_simps [simp]:
  "xor_bytes (a # as) (b # bs) = (a XOR b) # xor_bytes as bs" "xor_bytes [] bs = []"
  "xor_bytes as [] = []"
  "length (xor_bytes as bs) = min (length as) (length bs)"
  by (simp_all add: xor_bytes_def)

lemma xor_bytes_append:
  "length a = length c \<Longrightarrow> xor_bytes (a @ b) (c @ d) = xor_bytes a c @ xor_bytes b d"
  by (simp add: xor_bytes_def)

lemma xor_bytes_cancel: "length s = length m \<Longrightarrow> xor_bytes (xor_bytes m s) s = m"
  unfolding xor_bytes_def by (induction s m rule: list_induct2) (simp_all add: xor.assoc)

lemma xor_bytes_commute: "xor_bytes a b = xor_bytes b a"
  unfolding xor_bytes_def
  by (induction a b rule: list_induct2') (simp_all add: xor.commute)

lemma xor_bytes_zeros: "length a = n \<Longrightarrow> xor_bytes a (replicate n 0) = a"
  by (induction a arbitrary: n) (auto simp: xor_bytes_def)

subsection \<open>Guarded buffer access\<close>

definition rd :: "bytes \<Rightarrow> nat \<Rightarrow> u8 option" where
  "rd bs i = (if i < length bs then Some (bs ! i) else None)"

definition rd_n :: "bytes \<Rightarrow> nat \<Rightarrow> nat \<Rightarrow> bytes option" where
  "rd_n bs i n = (if i + n \<le> length bs then Some (take n (drop i bs)) else None)"

definition wr_n :: "bytes \<Rightarrow> nat \<Rightarrow> bytes \<Rightarrow> bytes option" where
  "wr_n buf i src =
     (if i + length src \<le> length buf
      then Some (take i buf @ src @ drop (i + length src) buf) else None)"

lemma rd_Some [simp]: "i < length bs \<Longrightarrow> rd bs i = Some (bs ! i)"
  by (simp add: rd_def)

lemma rd_None [simp]: "length bs \<le> i \<Longrightarrow> rd bs i = None"
  by (simp add: rd_def)

lemma rd_n_Some [simp]: "i + n \<le> length bs \<Longrightarrow> rd_n bs i n = Some (take n (drop i bs))"
  by (simp add: rd_n_def)

lemma rd_n_None [simp]: "length bs < i + n \<Longrightarrow> rd_n bs i n = None"
  by (simp add: rd_n_def)

lemma rd_n_length: "rd_n bs i n = Some xs \<Longrightarrow> length xs = n"
  by (auto simp: rd_n_def split: if_splits)

lemma wr_n_Some [simp]:
  "i + length src \<le> length buf \<Longrightarrow>
   wr_n buf i src = Some (take i buf @ src @ drop (i + length src) buf)"
  by (simp add: wr_n_def)

lemma wr_n_length: "wr_n buf i src = Some b \<Longrightarrow> length b = length buf"
  by (auto simp: wr_n_def split: if_splits)

lemma wr_n_rd_n: "wr_n buf i src = Some b \<Longrightarrow> rd_n b i (length src) = Some src"
  by (auto simp: wr_n_def rd_n_def split: if_splits)

end
