(* ===== verification/Numeric.thy ===== *)
theory Numeric
  imports Prelude
begin

text \<open>
  \<open>dtls-numeric.h\<close>: the network byte order codecs of every DTLS header field, and the
  byte helpers of \<open>tinydtls.h\<close> (\<open>memxor\<close> and the constant-time comparison
  \<open>dtls_equals\<close>). A writer returns the bytes it stores at \<open>field\<close>;
  a reader is \<open>None\<close> when the field is not wholly inside the buffer.
\<close>

subsection \<open>Writers\<close>

definition dtls_int_to_uint8 :: "u8 \<Rightarrow> bytes" where
  "dtls_int_to_uint8 value = [value AND 0xff]"

definition dtls_int_to_uint16 :: "u16 \<Rightarrow> bytes" where
  "dtls_int_to_uint16 value =
     [ucast (drop_bit 8 value AND 0xff), ucast (value AND 0xff)]"

definition dtls_int_to_uint24 :: "u32 \<Rightarrow> bytes" where
  "dtls_int_to_uint24 value =
     [ucast (drop_bit 16 value AND 0xff), ucast (drop_bit 8 value AND 0xff),
      ucast (value AND 0xff)]"

definition dtls_int_to_uint32 :: "u32 \<Rightarrow> bytes" where
  "dtls_int_to_uint32 value =
     [ucast (drop_bit 24 value AND 0xff), ucast (drop_bit 16 value AND 0xff),
      ucast (drop_bit 8 value AND 0xff), ucast (value AND 0xff)]"

definition dtls_int_to_uint48 :: "u64 \<Rightarrow> bytes" where
  "dtls_int_to_uint48 value =
     [ucast (drop_bit 40 value AND 0xff), ucast (drop_bit 32 value AND 0xff),
      ucast (drop_bit 24 value AND 0xff), ucast (drop_bit 16 value AND 0xff),
      ucast (drop_bit 8 value AND 0xff), ucast (value AND 0xff)]"

definition dtls_int_to_uint64 :: "u64 \<Rightarrow> bytes" where
  "dtls_int_to_uint64 value =
     [ucast (drop_bit 56 value AND 0xff), ucast (drop_bit 48 value AND 0xff),
      ucast (drop_bit 40 value AND 0xff), ucast (drop_bit 32 value AND 0xff),
      ucast (drop_bit 24 value AND 0xff), ucast (drop_bit 16 value AND 0xff),
      ucast (drop_bit 8 value AND 0xff), ucast (value AND 0xff)]"

subsection \<open>Readers\<close>

definition dtls_uint8_to_int :: "bytes \<Rightarrow> u8 option" where
  "dtls_uint8_to_int field = rd field 0"

definition dtls_uint16_to_int :: "bytes \<Rightarrow> u16 option" where
  "dtls_uint16_to_int field = do {
     b0 \<leftarrow> rd field 0; b1 \<leftarrow> rd field 1;
     Some (push_bit 8 (ucast b0) OR ucast b1) }"

definition dtls_uint24_to_int :: "bytes \<Rightarrow> u32 option" where
  "dtls_uint24_to_int field = do {
     b0 \<leftarrow> rd field 0; b1 \<leftarrow> rd field 1; b2 \<leftarrow> rd field 2;
     Some (push_bit 16 (ucast b0) OR push_bit 8 (ucast b1) OR ucast b2) }"

definition dtls_uint32_to_int :: "bytes \<Rightarrow> u32 option" where
  "dtls_uint32_to_int field = do {
     b0 \<leftarrow> rd field 0; b1 \<leftarrow> rd field 1; b2 \<leftarrow> rd field 2; b3 \<leftarrow> rd field 3;
     Some (push_bit 24 (ucast b0) OR push_bit 16 (ucast b1) OR push_bit 8 (ucast b2) OR ucast b3) }"

definition dtls_uint48_to_int :: "bytes \<Rightarrow> u64 option" where
  "dtls_uint48_to_int field = do {
     b0 \<leftarrow> rd field 0; b1 \<leftarrow> rd field 1; b2 \<leftarrow> rd field 2; b3 \<leftarrow> rd field 3;
     b4 \<leftarrow> rd field 4; b5 \<leftarrow> rd field 5;
     Some (push_bit 40 (ucast b0) OR push_bit 32 (ucast b1) OR push_bit 24 (ucast b2) OR
           push_bit 16 (ucast b3) OR push_bit 8 (ucast b4) OR ucast b5) }"

definition dtls_uint64_to_int :: "bytes \<Rightarrow> u64 option" where
  "dtls_uint64_to_int field = do {
     b0 \<leftarrow> rd field 0; b1 \<leftarrow> rd field 1; b2 \<leftarrow> rd field 2; b3 \<leftarrow> rd field 3;
     b4 \<leftarrow> rd field 4; b5 \<leftarrow> rd field 5; b6 \<leftarrow> rd field 6; b7 \<leftarrow> rd field 7;
     Some (push_bit 56 (ucast b0) OR push_bit 48 (ucast b1) OR push_bit 40 (ucast b2) OR
           push_bit 32 (ucast b3) OR push_bit 24 (ucast b4) OR push_bit 16 (ucast b5) OR
           push_bit 8 (ucast b6) OR ucast b7) }"

subsection \<open>The writers are the big-endian encoding\<close>

lemma int_to_uint8_be [buf_simps]: "dtls_int_to_uint8 v = be_bytes 1 (unat v)"
  using byte_of_mask [of v] by (simp add: dtls_int_to_uint8_def)

lemma int_to_uint16_be [buf_simps]: "dtls_int_to_uint16 v = be_bytes 2 (unat v)"
  unfolding dtls_int_to_uint16_def byte_of_shift
  unfolding byte_of_mask be_bytes_2 by (rule refl)

lemma int_to_uint24_be [buf_simps]: "dtls_int_to_uint24 v = be_bytes 3 (unat v)"
  unfolding dtls_int_to_uint24_def byte_of_shift
  unfolding byte_of_mask be_bytes_3 by (rule refl)

lemma int_to_uint32_be [buf_simps]: "dtls_int_to_uint32 v = be_bytes 4 (unat v)"
  unfolding dtls_int_to_uint32_def byte_of_shift
  unfolding byte_of_mask be_bytes_4 be_bytes_3 by (rule refl)

lemma int_to_uint48_be [buf_simps]: "dtls_int_to_uint48 v = be_bytes 6 (unat v)"
  unfolding dtls_int_to_uint48_def byte_of_shift
  unfolding byte_of_mask be_bytes_6 be_bytes_4 be_bytes_3
  by (rule refl)

lemma int_to_uint64_be [buf_simps]: "dtls_int_to_uint64 v = be_bytes 8 (unat v)"
  unfolding dtls_int_to_uint64_def byte_of_shift
  unfolding byte_of_mask be_bytes_8 be_bytes_6 be_bytes_4
    be_bytes_3
  by (rule refl)

subsection \<open>The readers are its inverse\<close>

lemma uint16_of_be:
  "(push_bit 8 (ucast b0) OR ucast b1 :: 'a :: len word) = word_of_nat (be_nat [b0, b1])"
  for b0 b1 :: u8
  using or_byte_of_nat [of "unat b0" b1, where ?'a = 'a] by simp

lemma uint24_of_be:
  "(push_bit 16 (ucast b0) OR push_bit 8 (ucast b1) OR ucast b2 :: 'a :: len word) =
   word_of_nat (be_nat [b0, b1, b2])"
  for b0 b1 b2 :: u8
proof -
  have "(push_bit 16 (ucast b0) OR push_bit 8 (ucast b1) OR ucast b2 :: 'a word) =
      push_bit 8 (push_bit 8 (ucast b0) OR ucast b1) OR ucast b2"
    by (simp add: push_bit_or or.assoc)
  also have "\<dots> = word_of_nat (be_nat [b0, b1] * 256 + unat b2)"
    unfolding uint16_of_be or_byte_of_nat by (rule refl)
  finally show ?thesis by (simp add: algebra_simps)
qed

lemma uint32_of_be:
  "(push_bit 24 (ucast b0) OR push_bit 16 (ucast b1) OR push_bit 8 (ucast b2) OR ucast b3
     :: 'a :: len word) = word_of_nat (be_nat [b0, b1, b2, b3])"
  for b0 b1 b2 b3 :: u8
proof -
  have "(push_bit 24 (ucast b0) OR push_bit 16 (ucast b1) OR push_bit 8 (ucast b2) OR ucast b3
      :: 'a word) =
      push_bit 8 (push_bit 16 (ucast b0) OR push_bit 8 (ucast b1) OR ucast b2) OR ucast b3"
    by (simp add: push_bit_or or.assoc)
  also have "\<dots> = word_of_nat (be_nat [b0, b1, b2] * 256 + unat b3)"
    unfolding uint24_of_be or_byte_of_nat by (rule refl)
  finally show ?thesis by (simp add: algebra_simps)
qed

lemma uint48_of_be:
  "(push_bit 40 (ucast b0) OR push_bit 32 (ucast b1) OR push_bit 24 (ucast b2) OR
    push_bit 16 (ucast b3) OR push_bit 8 (ucast b4) OR ucast b5 :: 'a :: len word) =
   word_of_nat (be_nat [b0, b1, b2, b3, b4, b5])"
  for b0 b1 b2 b3 b4 b5 :: u8
proof -
  have "(push_bit 40 (ucast b0) OR push_bit 32 (ucast b1) OR push_bit 24 (ucast b2) OR
      push_bit 16 (ucast b3) OR push_bit 8 (ucast b4) OR ucast b5 :: 'a word) =
      push_bit 8 (push_bit 8 (push_bit 24 (ucast b0) OR push_bit 16 (ucast b1) OR
        push_bit 8 (ucast b2) OR ucast b3) OR ucast b4) OR ucast b5"
    by (simp add: push_bit_or or.assoc)
  also have "\<dots> = word_of_nat ((be_nat [b0, b1, b2, b3] * 256 + unat b4) * 256 + unat b5)"
    unfolding uint32_of_be or_byte_of_nat by (rule refl)
  finally show ?thesis by (simp add: algebra_simps)
qed

lemma uint64_of_be:
  "(push_bit 56 (ucast b0) OR push_bit 48 (ucast b1) OR push_bit 40 (ucast b2) OR
    push_bit 32 (ucast b3) OR push_bit 24 (ucast b4) OR push_bit 16 (ucast b5) OR
    push_bit 8 (ucast b6) OR ucast b7 :: 'a :: len word) =
   word_of_nat (be_nat [b0, b1, b2, b3, b4, b5, b6, b7])"
  for b0 b1 b2 b3 b4 b5 b6 b7 :: u8
proof -
  have "(push_bit 56 (ucast b0) OR push_bit 48 (ucast b1) OR push_bit 40 (ucast b2) OR
      push_bit 32 (ucast b3) OR push_bit 24 (ucast b4) OR push_bit 16 (ucast b5) OR
      push_bit 8 (ucast b6) OR ucast b7 :: 'a word) =
      push_bit 8 (push_bit 8 (push_bit 40 (ucast b0) OR push_bit 32 (ucast b1) OR
        push_bit 24 (ucast b2) OR push_bit 16 (ucast b3) OR push_bit 8 (ucast b4) OR
        ucast b5) OR ucast b6) OR ucast b7"
    by (simp add: push_bit_or or.assoc)
  also have "\<dots> = word_of_nat ((be_nat [b0, b1, b2, b3, b4, b5] * 256 + unat b6) * 256 + unat b7)"
    unfolding uint48_of_be or_byte_of_nat by (rule refl)
  finally show ?thesis by (simp add: algebra_simps)
qed

lemma uint8_read: "dtls_uint8_to_int f = (if f = [] then None else Some (f ! 0))"
  by (simp add: dtls_uint8_to_int_def rd_def)

lemma uint16_read [buf_simps]:
  "dtls_uint16_to_int f = (if length f < 2 then None else Some (word_of_nat (be_nat (take 2 f))))"
  unfolding dtls_uint16_to_int_def uint16_of_be
  by (cases f; cases "tl f") (auto simp: rd_def)

lemma take_as_list:
  assumes "n \<le> length f"
  shows "take n f = map ((!) f) [0..<n]"
  using assms by (intro nth_equalityI) simp_all

lemma upt_lists:
  "[0..<3] = [0, 1, 2]" "[0..<4] = [0, 1, 2, 3]" "[0..<6] = [0, 1, 2, 3, 4, 5]"
  "[0..<8] = [0, 1, 2, 3, 4, 5, 6, 7]"
  by code_simp+

lemma uint24_read [buf_simps]:
  "dtls_uint24_to_int f = (if length f < 3 then None else Some (word_of_nat (be_nat (take 3 f))))"
  unfolding dtls_uint24_to_int_def uint24_of_be
  by (simp add: rd_def take_as_list upt_lists)

lemma uint32_read [buf_simps]:
  "dtls_uint32_to_int f = (if length f < 4 then None else Some (word_of_nat (be_nat (take 4 f))))"
  unfolding dtls_uint32_to_int_def uint32_of_be
  by (simp add: rd_def take_as_list upt_lists)

lemma uint48_read [buf_simps]:
  "dtls_uint48_to_int f = (if length f < 6 then None else Some (word_of_nat (be_nat (take 6 f))))"
  unfolding dtls_uint48_to_int_def uint48_of_be
  by (simp add: rd_def take_as_list upt_lists)

lemma uint64_read [buf_simps]:
  "dtls_uint64_to_int f = (if length f < 8 then None else Some (word_of_nat (be_nat (take 8 f))))"
  unfolding dtls_uint64_to_int_def uint64_of_be
  by (simp add: rd_def take_as_list upt_lists)

subsection \<open>Round trips\<close>

lemma word_be_nat_be_bytes:
  assumes "LENGTH('a :: len) \<le> 8 * n"
  shows "(word_of_nat (be_nat (be_bytes n (unat v))) :: 'a word) = v"
proof -
  have "unat v < 2 ^ LENGTH('a)" by (rule unsigned_less)
  also have "\<dots> \<le> 2 ^ (8 * n)" using assms by (simp add: power_increasing)
  also have "(2 :: nat) ^ (8 * n) = 256 ^ n" by (simp add: power_mult)
  finally show ?thesis by (simp add: be_nat_be_bytes)
qed

lemma uint16_roundtrip [simp]: "dtls_uint16_to_int (dtls_int_to_uint16 v @ r) = Some v"
  by (simp add: buf_simps word_be_nat_be_bytes)

lemma uint24_roundtrip:
  "unat v < 2 ^ 24 \<Longrightarrow> dtls_uint24_to_int (dtls_int_to_uint24 v @ r) = Some v"
  by (simp add: buf_simps be_nat_be_bytes)

lemma uint32_roundtrip [simp]: "dtls_uint32_to_int (dtls_int_to_uint32 v @ r) = Some v"
  by (simp add: buf_simps word_be_nat_be_bytes)

lemma uint48_roundtrip:
  "unat v < 2 ^ 48 \<Longrightarrow> dtls_uint48_to_int (dtls_int_to_uint48 v @ r) = Some v"
  by (simp add: buf_simps be_nat_be_bytes)

lemma uint64_roundtrip [simp]: "dtls_uint64_to_int (dtls_int_to_uint64 v @ r) = Some v"
  by (simp add: buf_simps word_be_nat_be_bytes)

lemma uint_lengths [simp]:
  "length (dtls_int_to_uint8 a) = 1" "length (dtls_int_to_uint16 b) = 2"
  "length (dtls_int_to_uint24 c) = 3" "length (dtls_int_to_uint32 c) = 4"
  "length (dtls_int_to_uint48 d) = 6" "length (dtls_int_to_uint64 d) = 8"
  by (simp_all add: buf_simps)

lemma read_write_inverse:
  assumes "length f = n" and "256 ^ n \<le> (2 :: nat) ^ LENGTH('a :: len)"
  shows "be_bytes n (unat (word_of_nat (be_nat f) :: 'a word)) = f"
proof -
  have "be_nat f < 2 ^ LENGTH('a)"
    using be_nat_less [of f] assms by (simp add: less_le_trans)
  then have "unat (word_of_nat (be_nat f) :: 'a word) = be_nat f"
    by (simp add: unsigned_of_nat take_bit_nat_eq_self)
  then show ?thesis using be_bytes_be_nat [of f] assms(1) by simp
qed

subsection \<open>Byte helpers of tinydtls.h\<close>

text \<open>\<open>memxor(x, y, n)\<close>: the new contents of the memory at \<open>x\<close>.\<close>

fun memxor :: "bytes \<Rightarrow> bytes \<Rightarrow> nat \<Rightarrow> bytes option" where
  "memxor xs ys 0 = Some xs"
| "memxor (x # xs) (y # ys) (Suc n) = map_option ((#) (x XOR y)) (memxor xs ys n)"
| "memxor _ _ (Suc n) = None"

text \<open>\<open>dtls_equals(a, b, len)\<close> always walks the whole length, accumulating \<open>result\<close>.\<close>

fun dtls_equals_loop :: "bytes \<Rightarrow> bytes \<Rightarrow> nat \<Rightarrow> int \<Rightarrow> int option" where
  "dtls_equals_loop as bs 0 result = Some result"
| "dtls_equals_loop (a # as) (b # bs) (Suc len) result =
     dtls_equals_loop as bs len (result AND (if a = b then 1 else 0))"
| "dtls_equals_loop _ _ (Suc len) result = None"

definition dtls_equals :: "bytes \<Rightarrow> bytes \<Rightarrow> nat \<Rightarrow> int option" where
  "dtls_equals as bs len = dtls_equals_loop as bs len 1"

lemma memxor_eq:
  "n \<le> length xs \<Longrightarrow> n \<le> length ys \<Longrightarrow>
   memxor xs ys n = Some (map2 (XOR) (take n xs) (take n ys) @ drop n xs)"
  by (induction xs ys n rule: memxor.induct) auto

lemma memxor_length: "memxor xs ys n = Some zs \<Longrightarrow> length zs = length xs"
  by (induction xs ys n arbitrary: zs rule: memxor.induct) auto

lemma map2_xor_cancel:
  "length s = length m \<Longrightarrow> map2 (XOR) (map2 (XOR) m s) s = (m :: 'a :: len word list)"
  by (induction s m rule: list_induct2) (simp_all add: xor.assoc)

lemma memxor_involution:
  assumes "memxor xs ys n = Some zs"
  shows "memxor zs ys n = Some xs"
  using assms
  by (induction xs ys n arbitrary: zs rule: memxor.induct) (auto simp: xor.assoc)

lemma dtls_equals_loop_0:
  "len \<le> length as \<Longrightarrow> len \<le> length bs \<Longrightarrow> dtls_equals_loop as bs len 0 = Some 0"
  by (induction as bs len "0 :: int" rule: dtls_equals_loop.induct) auto

lemma dtls_equals_iff:
  assumes "len \<le> length as" and "len \<le> length bs"
  shows "dtls_equals as bs len = Some (if take len as = take len bs then 1 else 0)"
  using assms unfolding dtls_equals_def
proof (induction as bs len "1 :: int" rule: dtls_equals_loop.induct)
  case (2 a as b bs len)
  then show ?case by (cases "a = b") (simp_all add: dtls_equals_loop_0)
qed simp_all

subsection \<open>Properties\<close>

text \<open>reading a header field back from the bytes its writer stored yields the number
  written, for every width; the 24-bit and 48-bit codecs keep the low 24 and 48 bits of their
  32-bit and 64-bit argument. Bytes after the field do not matter.\<close>

lemma numeric_roundtrip:
  "dtls_uint8_to_int (dtls_int_to_uint8 v8 @ r) = Some v8 \<and>
   dtls_uint16_to_int (dtls_int_to_uint16 v16 @ r) = Some v16 \<and>
   dtls_uint24_to_int (dtls_int_to_uint24 v32 @ r) = Some (take_bit 24 v32) \<and>
   dtls_uint32_to_int (dtls_int_to_uint32 v32 @ r) = Some v32 \<and>
   dtls_uint48_to_int (dtls_int_to_uint48 v64 @ r) = Some (take_bit 48 v64) \<and>
   dtls_uint64_to_int (dtls_int_to_uint64 v64 @ r) = Some v64"
proof -
  have t: "word_of_nat (unat w mod 2 ^ k) = take_bit k w" for k and w :: "'a :: len word"
    by (simp flip: take_bit_eq_mod unsigned_take_bit_eq)
  have "dtls_uint24_to_int (dtls_int_to_uint24 v32 @ r) = Some (take_bit 24 v32)"
    using t [of v32 24] by (simp add: buf_simps be_nat_be_bytes)
  moreover have "dtls_uint48_to_int (dtls_int_to_uint48 v64 @ r) = Some (take_bit 48 v64)"
    using t [of v64 48] by (simp add: buf_simps be_nat_be_bytes)
  moreover have "dtls_uint8_to_int (dtls_int_to_uint8 v8 @ r) = Some v8"
    by (simp add: uint8_read dtls_int_to_uint8_def)
  ultimately show ?thesis by simp
qed

text \<open>the comparison used on MACs and verify data answers 1 exactly when the first
  \<open>len\<close> bytes of the two arguments agree, and \<open>memxor\<close> undoes itself.\<close>

lemma dtls_equals_memxor_correct:
  assumes "len \<le> length as" and "len \<le> length bs"
  shows "(dtls_equals as bs len = Some 1 \<longleftrightarrow> take len as = take len bs) \<and>
    (\<exists>xs. memxor as bs len = Some xs \<and> memxor xs bs len = Some as)"
  using memxor_eq [OF assms] memxor_involution [of as bs len] dtls_equals_iff [OF assms]
  by auto

theorem dtls_equals_memxor_correct_witness:
  "dtls_equals [1, 2, 3] [1, 2, 4] 2 = Some 1"
  using dtls_equals_memxor_correct [of 2 "[1, 2, 3]" "[1, 2, 4]"] by simp

end
