(* ===== verification/Linked.thy ===== *)
theory Linked
  imports Prelude
begin

text \<open>
  Singly linked lists in a heap, the data structure behind the peer list of a DTLS context and
  behind its packet queues. A heap maps addresses to nodes, a link is an optional address
  (\<open>None\<close> is the null pointer). \<open>chain nxt h p as\<close> says that following the links from
  \<open>p\<close> visits exactly the addresses \<open>as\<close> and ends in the null pointer.

  The locale \<open>linked\<close> is the contract of a node type with a link field. The locale
  \<open>unlinking\<close> extends it by the removal loop that \<open>netq.c\<close> and \<open>dtls.c\<close> both
  contain: it fixes a loop that satisfies the recursion equation of the C code and proves, once,
  that it unlinks one node and touches no payload. The packet queue and the peer list interpret
  it with their own loops.
\<close>

type_synonym ptr = "nat option"
type_synonym 'n heap = "nat \<rightharpoonup> 'n"

fun chain :: "('n \<Rightarrow> ptr) \<Rightarrow> 'n heap \<Rightarrow> ptr \<Rightarrow> nat list \<Rightarrow> bool" where
  "chain nxt h p [] = (p = None)"
| "chain nxt h p (a # as) =
     (p = Some a \<and> (case h a of None \<Rightarrow> False | Some n \<Rightarrow> chain nxt h (nxt n) as))"

lemma chain_Cons_iff:
  "chain nxt h p (a # as) = (p = Some a \<and> (\<exists>n. h a = Some n \<and> chain nxt h (nxt n) as))"
  by (auto split: option.splits)

declare chain.simps(2) [simp del]
declare chain_Cons_iff [simp]

lemma chain_upd_other [simp]:
  "a \<notin> set as \<Longrightarrow> chain nxt (h(a := v)) p as = chain nxt h p as"
  by (induction as arbitrary: p) auto

lemma chain_None [simp]: "chain nxt h None as = (as = [])"
  by (cases as) auto

lemma chain_unique: "chain nxt h p as \<Longrightarrow> chain nxt h p bs \<Longrightarrow> as = bs"
proof (induction as arbitrary: p bs)
  case Nil
  then show ?case by simp
next
  case (Cons a as)
  then show ?case by (cases bs) auto
qed

lemma chain_mapped: "chain nxt h p as \<Longrightarrow> a \<in> set as \<Longrightarrow> \<exists>n. h a = Some n"
  by (induction as arbitrary: p) auto

text \<open>The chain that starts at an inner node is the rest of the chain.\<close>

lemma chain_suffix: "chain nxt h p (xs @ a # ys) \<Longrightarrow> chain nxt h (Some a) (a # ys)"
  by (induction xs arbitrary: p) auto

lemma chain_distinct: "chain nxt h p as \<Longrightarrow> distinct as"
proof (induction as arbitrary: p)
  case Nil
  then show ?case by simp
next
  case (Cons a as)
  then obtain n where n: "h a = Some n" "chain nxt h (nxt n) as" by auto
  have "a \<notin> set as"
  proof
    assume "a \<in> set as"
    then obtain xs ys where xy: "as = xs @ a # ys" by (meson split_list)
    then have "chain nxt h (Some a) (a # ys)" using n(2) chain_suffix by blast
    moreover have "chain nxt h (Some a) (a # as)" using n by simp
    ultimately have "as = ys" using chain_unique by blast
    then show False using xy by simp
  qed
  then show ?case using Cons.IH [OF n(2)] by simp
qed

text \<open>The payloads along a list of addresses.\<close>

definition payloads :: "('n \<Rightarrow> 'd) \<Rightarrow> 'n heap \<Rightarrow> nat list \<Rightarrow> 'd list" where
  "payloads f h as = map (\<lambda>a. f (the (h a))) as"

lemma payloads_simps [simp]:
  "payloads f h [] = []"
  "payloads f h (a # as) = f (the (h a)) # payloads f h as"
  "payloads f h (as @ bs) = payloads f h as @ payloads f h bs"
  by (simp_all add: payloads_def)

lemma length_payloads [simp]: "length (payloads f h as) = length as"
  by (simp add: payloads_def)

lemma payloads_cong:
  "(\<And>a. a \<in> set as \<Longrightarrow> map_option f (h' a) = map_option f (h a)) \<Longrightarrow>
   (\<And>a. a \<in> set as \<Longrightarrow> h a \<noteq> None) \<Longrightarrow> payloads f h' as = payloads f h as"
  by (fastforce simp: payloads_def)

locale linked =
  fixes nxt :: "'n \<Rightarrow> ptr" and set_nxt :: "ptr \<Rightarrow> 'n \<Rightarrow> 'n" and payload :: "'n \<Rightarrow> 'd"
  assumes nxt_set: "nxt (set_nxt p n) = p"
    and payload_set: "payload (set_nxt p n) = payload n"
begin

text \<open>Relinking the last node of a prefix replaces the rest of the chain.\<close>

lemma chain_relink:
  assumes "chain nxt h p (xs @ b # ys)" and "b \<notin> set xs"
    and "h b = Some n" and "chain nxt h q zs" and "b \<notin> set zs"
  shows "chain nxt (h(b \<mapsto> set_nxt q n)) p (xs @ b # zs)"
  using assms by (induction xs arbitrary: p) (auto simp: nxt_set)

definition same_data :: "'n heap \<Rightarrow> 'n heap \<Rightarrow> bool" where
  "same_data h h' \<longleftrightarrow> (\<forall>a. map_option payload (h' a) = map_option payload (h a))"

lemma same_data_refl: "same_data h h"
  by (simp add: same_data_def)

lemma same_data_relink: "h b = Some n \<Longrightarrow> same_data h (h(b \<mapsto> set_nxt q n))"
  by (simp add: same_data_def payload_set)

lemma same_data_trans: "same_data h h' \<Longrightarrow> same_data h' h'' \<Longrightarrow> same_data h h''"
  by (simp add: same_data_def)

lemma same_data_payloads:
  "same_data h h' \<Longrightarrow> chain nxt h p as \<Longrightarrow> set bs \<subseteq> set as \<Longrightarrow>
   payloads payload h' bs = payloads payload h bs"
  by (rule payloads_cong) (use chain_mapped in \<open>force simp: same_data_def\<close>)+

end

locale unlinking = linked nxt set_nxt payload
  for nxt :: "'n \<Rightarrow> ptr" and set_nxt :: "ptr \<Rightarrow> 'n \<Rightarrow> 'n" and payload :: "'n \<Rightarrow> 'd" +
  fixes loop :: "'n heap \<Rightarrow> ptr \<Rightarrow> nat \<Rightarrow> ptr \<Rightarrow> ptr \<Rightarrow> ('n heap \<times> ptr) option"
  assumes loop_eq: "loop h q item prev cur =
    (case cur of None \<Rightarrow> Some (h, q)
     | Some c \<Rightarrow>
        (case h c of None \<Rightarrow> None
         | Some n \<Rightarrow>
            (if c = item then
               (case prev of None \<Rightarrow> Some (h(c \<mapsto> set_nxt None n), nxt n)
                | Some p \<Rightarrow>
                   (case h p of None \<Rightarrow> None
                    | Some m \<Rightarrow>
                       Some ((h(p \<mapsto> set_nxt (nxt n) m))(c \<mapsto> set_nxt None n), q)))
             else loop h q item (Some c) (nxt n))))"
begin

lemma loop_absent:
  assumes "chain nxt h c as" and "item \<notin> set as"
  shows "loop h q item prev c = Some (h, q)"
  using assms
proof (induction as arbitrary: c prev)
  case Nil
  then show ?case by (simp add: loop_eq [of h q item prev])
next
  case (Cons a as)
  then show ?case by (auto simp: loop_eq [of h q item prev])
qed

lemma loop_present:
  assumes "chain nxt h c (ys @ item # zs)" and "item \<notin> set ys"
  shows "loop h q item prev c =
    loop h q item (if ys = [] then prev else Some (last ys)) (Some item)"
  using assms
proof (induction ys arbitrary: c prev)
  case Nil
  then show ?case by simp
next
  case (Cons y ys)
  then obtain n where n: "c = Some y" "h y = Some n" "chain nxt h (nxt n) (ys @ item # zs)"
    by auto
  have "loop h q item prev c = loop h q item (Some y) (nxt n)"
    using n Cons.prems(2) by (simp add: loop_eq [of h q item prev])
  also have "\<dots> = loop h q item (if ys = [] then Some y else Some (last ys)) (Some item)"
    using Cons.IH [OF n(3)] Cons.prems(2) by simp
  finally show ?case by simp
qed

lemma loop_unlinks:
  assumes c: "chain nxt h q (ys @ item # zs)"
  shows "\<exists>h' q'. loop h q item None q = Some (h', q') \<and> chain nxt h' q' (ys @ zs) \<and>
    same_data h h' \<and> map_option nxt (h' item) = Some None"
proof -
  have d: "distinct (ys @ item # zs)" using c by (rule chain_distinct)
  obtain n where n: "h item = Some n" using c chain_mapped by fastforce
  have tl: "chain nxt h (nxt n) zs" using chain_suffix [OF c] n by simp
  have start: "loop h q item None q =
      loop h q item (if ys = [] then None else Some (last ys)) (Some item)"
    using loop_present [OF c] d by simp
  show ?thesis
  proof (cases ys rule: rev_cases)
    case Nil
    then show ?thesis
      using start n tl d
      by (simp add: loop_eq [of h q item None "Some item"] nxt_set same_data_relink)
  next
    case (snoc xs b)
    then have bm: "\<exists>m. h b = Some m" using c chain_mapped by fastforce
    then obtain m where m: "h b = Some m" by blast
    have nb: "b \<noteq> item" using d snoc by auto
    let ?h1 = "h(b \<mapsto> set_nxt (nxt n) m)"
    let ?h2 = "?h1(item \<mapsto> set_nxt None n)"
    have "loop h q item None q = Some (?h2, q)"
      using start snoc n m by (simp add: loop_eq [of h q item "Some b"])
    moreover have "chain nxt ?h1 q (xs @ b # zs)"
      by (rule chain_relink [of h q xs b "item # zs" m]) (use c d snoc m tl in auto)
    then have "chain nxt ?h2 q (ys @ zs)" using d snoc by simp
    moreover have "same_data h ?h2"
      using n m nb by (simp add: same_data_def payload_set)
    ultimately show ?thesis by (simp add: nxt_set)
  qed
qed

end

end
