(* ===== verification/Netq.thy ===== *)
theory Netq
  imports Linked "HOL-Library.Multiset"
begin

text \<open>
  The network packet queue of \<open>netq.c\<close> and \<open>netq.h\<close>: datagrams kept for retransmission,
  ordered by the time of their next transmission. The operations are those of the code, on a
  heap of nodes and a queue head; they are refined to operations on the list of the queued
  nodes: insertion behind every element that is not later (so the queue is stable), removal
  of one node, removal of the head, and the freeing of all nodes.
\<close>

subsection \<open>Nodes\<close>

record netq_t =
  nq_next :: ptr
  nq_t :: u64
  nq_timeout :: u32
  nq_peer :: ptr
  nq_epoch :: u16
  nq_type :: u8
  nq_retransmit_cnt :: u8
  nq_length :: nat
  nq_data :: bytes

type_synonym netq_heap = "netq_t heap"

definition netq_zero :: netq_t where
  "netq_zero = \<lparr>nq_next = None, nq_t = 0, nq_timeout = 0, nq_peer = None, nq_epoch = 0,
     nq_type = 0, nq_retransmit_cnt = 0, nq_length = 0, nq_data = replicate 30000 0\<rparr>"

definition nq_set_next :: "ptr \<Rightarrow> netq_t \<Rightarrow> netq_t" where
  "nq_set_next p n = n\<lparr>nq_next := p\<rparr>"

text \<open>What a node carries, without its link.\<close>

definition nq_payload :: "netq_t \<Rightarrow> netq_t" where
  "nq_payload n = n\<lparr>nq_next := None\<rparr>"

lemma nq_payload_simps [simp]:
  "nq_next (nq_set_next p n) = p"
  "nq_payload (nq_set_next p n) = nq_payload n"
  "nq_t (nq_payload n) = nq_t n"
  "nq_t (nq_set_next p n) = nq_t n"
  by (simp_all add: nq_set_next_def nq_payload_def)

subsection \<open>Operations\<close>

text \<open>\<open>memb_alloc\<close> is \<open>malloc\<close> on POSIX: the parameter \<open>alloc\<close> picks the address of the
  new node, or fails.\<close>

definition netq_malloc_node :: "(netq_heap \<Rightarrow> ptr) \<Rightarrow> netq_heap \<Rightarrow> ptr" where
  "netq_malloc_node alloc h = alloc h"

definition netq_free_node :: "netq_heap \<Rightarrow> nat \<Rightarrow> netq_heap" where
  "netq_free_node h p = h(p := None)"

definition netq_node_new :: "(netq_heap \<Rightarrow> ptr) \<Rightarrow> netq_heap \<Rightarrow> netq_heap \<times> ptr" where
  "netq_node_new alloc h =
     (case netq_malloc_node alloc h of
        None \<Rightarrow> (h, None)
      | Some a \<Rightarrow> (h(a \<mapsto> netq_zero), Some a))"

definition netq_node_free :: "netq_heap \<Rightarrow> ptr \<Rightarrow> netq_heap" where
  "netq_node_free h p = (case p of None \<Rightarrow> h | Some a \<Rightarrow> netq_free_node h a)"

definition netq_head :: "ptr option \<Rightarrow> ptr" where
  "netq_head queue = (case queue of None \<Rightarrow> None | Some q \<Rightarrow> q)"

definition netq_next :: "netq_heap \<Rightarrow> ptr \<Rightarrow> ptr option" where
  "netq_next h p =
     (case p of None \<Rightarrow> Some None | Some a \<Rightarrow> map_option nq_next (h a))"

text \<open>The search loop of \<open>netq_insert_node\<close>: the result is the pair of the first node that is
  later and its predecessor.\<close>

partial_function (option) netq_find :: "netq_heap \<Rightarrow> u64 \<Rightarrow> ptr \<Rightarrow> ptr \<Rightarrow> (ptr \<times> ptr) option" where
  "netq_find h t p op =
     (case p of
        None \<Rightarrow> Some (None, op)
      | Some a \<Rightarrow>
          (case h a of
             None \<Rightarrow> None
           | Some n \<Rightarrow> (if nq_t n \<le> t then netq_find h t (nq_next n) p else Some (p, op))))"

definition netq_insert_node ::
  "netq_heap \<Rightarrow> ptr \<Rightarrow> nat \<Rightarrow> (netq_heap \<times> ptr \<times> int) option" where
  "netq_insert_node h queue node = do {
     n \<leftarrow> h node;
     (p, op) \<leftarrow> netq_find h (nq_t n) queue None;
     let h1 = h(node \<mapsto> nq_set_next p n);
     (case op of
        None \<Rightarrow> Some (h1, Some node, 1)
      | Some b \<Rightarrow> do {
          m \<leftarrow> h1 b;
          Some (h1(b \<mapsto> nq_set_next (Some node) m), queue, 1) }) }"

partial_function (option) netq_remove_loop ::
  "netq_heap \<Rightarrow> ptr \<Rightarrow> nat \<Rightarrow> ptr \<Rightarrow> ptr \<Rightarrow> (netq_heap \<times> ptr) option" where
  "netq_remove_loop h queue item prev cur =
     (case cur of None \<Rightarrow> Some (h, queue)
     | Some c \<Rightarrow>
        (case h c of None \<Rightarrow> None
         | Some n \<Rightarrow>
            (if c = item then
               (case prev of None \<Rightarrow> Some (h(c \<mapsto> nq_set_next None n), nq_next n)
                | Some p \<Rightarrow>
                   (case h p of None \<Rightarrow> None
                    | Some m \<Rightarrow>
                       Some ((h(p \<mapsto> nq_set_next (nq_next n) m))(c \<mapsto> nq_set_next None n),
                             queue)))
             else netq_remove_loop h queue item (Some c) (nq_next n))))"

definition netq_remove :: "netq_heap \<Rightarrow> ptr \<Rightarrow> ptr \<Rightarrow> (netq_heap \<times> ptr) option" where
  "netq_remove h queue item =
     (case item of
        None \<Rightarrow> Some (h, queue)
      | Some i \<Rightarrow> (if queue = None then Some (h, queue)
                   else netq_remove_loop h queue i None queue))"

definition netq_pop_first :: "netq_heap \<Rightarrow> ptr \<Rightarrow> (netq_heap \<times> ptr \<times> ptr) option" where
  "netq_pop_first h queue =
     (case netq_head (Some queue) of
        None \<Rightarrow> Some (h, queue, None)
      | Some p \<Rightarrow> do {
          n \<leftarrow> h p;
          Some (h(p \<mapsto> nq_set_next None n), nq_next n, Some p) })"

partial_function (option) netq_delete_loop :: "netq_heap \<Rightarrow> ptr \<Rightarrow> netq_heap option" where
  "netq_delete_loop h p =
     (case p of
        None \<Rightarrow> Some h
      | Some a \<Rightarrow>
          (case h a of
             None \<Rightarrow> None
           | Some n \<Rightarrow>
               (let tmp = nq_next n; h1 = h(a \<mapsto> nq_set_next None n)
                in netq_delete_loop (netq_free_node h1 a) tmp)))"

definition netq_delete_all :: "netq_heap \<Rightarrow> ptr option \<Rightarrow> (netq_heap \<times> ptr option) option" where
  "netq_delete_all h queue =
     (case queue of
        None \<Rightarrow> Some (h, None)
      | Some q \<Rightarrow> map_option (\<lambda>h'. (h', Some None)) (netq_delete_loop h q))"

declare netq_find.simps [code] netq_remove_loop.simps [code] netq_delete_loop.simps [code]

subsection \<open>The queue as a list\<close>

text \<open>\<open>netq_chain h q as\<close>: the queue with head \<open>q\<close> consists of the nodes at \<open>as\<close>;
  \<open>netq_abs\<close> is what they carry.\<close>

abbreviation netq_chain :: "netq_heap \<Rightarrow> ptr \<Rightarrow> nat list \<Rightarrow> bool" where
  "netq_chain \<equiv> chain nq_next"

abbreviation netq_abs :: "netq_heap \<Rightarrow> nat list \<Rightarrow> netq_t list" where
  "netq_abs \<equiv> payloads nq_payload"

definition queue_insert :: "netq_t \<Rightarrow> netq_t list \<Rightarrow> netq_t list" where
  "queue_insert x xs = takeWhile (\<lambda>y. nq_t y \<le> nq_t x) xs @ x # dropWhile (\<lambda>y. nq_t y \<le> nq_t x) xs"

definition queue_sorted :: "netq_t list \<Rightarrow> bool" where
  "queue_sorted xs \<longleftrightarrow> sorted (map nq_t xs)"

interpretation nq: linked nq_next nq_set_next nq_payload
  by unfold_locales simp_all

interpretation nqu: unlinking nq_next nq_set_next nq_payload netq_remove_loop
  by unfold_locales (rule netq_remove_loop.simps)

text \<open>The early nodes, which the search loop skips, and the late ones.\<close>

definition nq_early :: "netq_heap \<Rightarrow> u64 \<Rightarrow> nat list \<Rightarrow> nat list" where
  "nq_early h t as = takeWhile (\<lambda>a. nq_t (the (h a)) \<le> t) as"

definition nq_late :: "netq_heap \<Rightarrow> u64 \<Rightarrow> nat list \<Rightarrow> nat list" where
  "nq_late h t as = dropWhile (\<lambda>a. nq_t (the (h a)) \<le> t) as"

lemma early_late [simp]: "nq_early h t as @ nq_late h t as = as"
  by (simp add: nq_early_def nq_late_def)

lemma payloads_early_late:
  "netq_abs h (nq_early h t as) = takeWhile (\<lambda>y. nq_t y \<le> t) (netq_abs h as)"
  "netq_abs h (nq_late h t as) = dropWhile (\<lambda>y. nq_t y \<le> t) (netq_abs h as)"
  by (simp_all add: nq_early_def nq_late_def payloads_def takeWhile_map dropWhile_map comp_def)

definition ptr_of :: "nat list \<Rightarrow> ptr" where
  "ptr_of as = (case as of [] \<Rightarrow> None | a # _ \<Rightarrow> Some a)"

lemma chain_head: "chain nxt h p as \<Longrightarrow> p = ptr_of as"
  by (cases as) (auto simp: ptr_of_def)

lemma netq_find_chain:
  assumes "netq_chain h p as"
  shows "netq_find h t p op =
    Some (ptr_of (nq_late h t as),
          if nq_early h t as = [] then op else Some (last (nq_early h t as)))"
  using assms
proof (induction as arbitrary: p op)
  case Nil
  then show ?case by (simp add: netq_find.simps nq_early_def nq_late_def ptr_of_def)
next
  case (Cons a as)
  then obtain n where n: "p = Some a" "h a = Some n" "netq_chain h (nq_next n) as" by auto
  show ?case
    using n Cons.IH [OF n(3), of "Some a"]
    by (simp add: netq_find.simps [of h t "Some a" op] nq_early_def nq_late_def ptr_of_def)
qed

subsection \<open>Refinement to lists\<close>

lemma netq_insert_node_chain:
  assumes c: "netq_chain h q as" and n: "h node = Some n" and f: "node \<notin> set as"
  shows "\<exists>h' q'. netq_insert_node h q node = Some (h', q', 1) \<and>
    netq_chain h' q' (nq_early h (nq_t n) as @ node # nq_late h (nq_t n) as) \<and>
    nq.same_data h h'"
proof -
  let ?e = "nq_early h (nq_t n) as" and ?l = "nq_late h (nq_t n) as"
  let ?h1 = "h(node \<mapsto> nq_set_next (ptr_of ?l) n)"
  have el: "netq_chain h q (?e @ ?l)" using c by simp
  have fe: "node \<notin> set ?e" and fl: "node \<notin> set ?l"
    using f by (metis early_late Un_iff set_append)+
  have l: "netq_chain h (ptr_of ?l) ?l"
  proof (cases ?l)
    case Nil
    then show ?thesis by (simp add: ptr_of_def)
  next
    case (Cons a ys)
    then show ?thesis using chain_suffix [of nq_next h q ?e a ys] el by (simp add: ptr_of_def)
  qed
  have nl: "netq_chain ?h1 (Some node) (node # ?l)" using l fl by simp
  have sd: "nq.same_data h ?h1" using n by (simp add: nq.same_data_def)
  show ?thesis
  proof (cases ?e rule: rev_cases)
    case Nil
    then show ?thesis
      using n nl sd by (simp add: netq_insert_node_def netq_find_chain [OF c])
  next
    case (snoc xs b)
    have bn: "b \<noteq> node" using fe snoc by auto
    have d: "distinct (?e @ ?l)" using el by (rule chain_distinct)
    obtain m where m: "h b = Some m"
      using chain_mapped [OF el, of b] snoc by auto
    let ?h2 = "?h1(b \<mapsto> nq_set_next (Some node) m)"
    have "netq_insert_node h q node = Some (?h2, q, 1)"
      using n m bn snoc by (simp add: netq_insert_node_def netq_find_chain [OF c])
    moreover have "netq_chain ?h2 q (xs @ b # node # ?l)"
      by (rule nq.chain_relink [of ?h1 q xs b ?l m])
        (use el snoc fe fl m bn d nl in auto)
    moreover have "nq.same_data h ?h2"
      using n m bn by (simp add: nq.same_data_def)
    ultimately show ?thesis using snoc by simp
  qed
qed

lemma netq_insert_node_abs:
  assumes c: "netq_chain h q as" and n: "h node = Some n" and f: "node \<notin> set as"
  shows "\<exists>h' q' as'. netq_insert_node h q node = Some (h', q', 1) \<and> netq_chain h' q' as' \<and>
    netq_abs h' as' = queue_insert (nq_payload n) (netq_abs h as) \<and>
    set as' = insert node (set as) \<and> nq.same_data h h'"
proof -
  let ?as = "nq_early h (nq_t n) as @ node # nq_late h (nq_t n) as"
  obtain h' q' where r: "netq_insert_node h q node = Some (h', q', 1)"
    "netq_chain h' q' ?as" "nq.same_data h h'"
    using netq_insert_node_chain [OF assms] by blast
  have "netq_abs h' ?as = netq_abs h ?as"
    using r(2,3) n f chain_mapped [OF c]
    by (intro payloads_cong)
      (auto simp: nq.same_data_def dest!: set_takeWhileD set_dropWhileD
            simp: nq_early_def nq_late_def)
  also have "\<dots> = queue_insert (nq_payload n) (netq_abs h as)"
    using n by (simp add: payloads_early_late queue_insert_def)
  finally have "netq_abs h' ?as = queue_insert (nq_payload n) (netq_abs h as)" .
  moreover have "set ?as = insert node (set as)"
    by (metis early_late list.set(2) set_append Un_insert_right)
  ultimately show ?thesis using r by blast
qed

lemma netq_remove_abs:
  assumes c: "netq_chain h q as"
  shows "\<exists>h' q'. netq_remove h q (Some item) = Some (h', q') \<and>
    netq_chain h' q' (remove1 item as) \<and>
    netq_abs h' (remove1 item as) = netq_abs h (remove1 item as) \<and> nq.same_data h h'"
proof (cases "item \<in> set as")
  case True
  then obtain ys zs where s: "as = ys @ item # zs" "item \<notin> set ys"
    by (meson split_list_first)
  have r: "remove1 item as = ys @ zs" using s by (simp add: remove1_append)
  have "q \<noteq> None" using c s by (cases ys) auto
  then have "netq_remove h q (Some item) = netq_remove_loop h q item None q"
    by (auto simp: netq_remove_def)
  then obtain h' q' where l: "netq_remove h q (Some item) = Some (h', q')"
    "netq_chain h' q' (ys @ zs)" "nq.same_data h h'"
    using nqu.loop_unlinks [of h q ys item zs] c s(1) by auto
  then show ?thesis
    using r s nq.same_data_payloads [OF l(3) c, of "ys @ zs"] by auto
next
  case False
  then have "netq_remove_loop h q item None q = Some (h, q)"
    by (rule nqu.loop_absent [OF c])
  then show ?thesis
    using c False by (auto simp: netq_remove_def remove1_idem nq.same_data_refl)
qed

lemma netq_pop_first_abs:
  assumes c: "netq_chain h q as"
  shows "netq_pop_first h q =
      (case as of [] \<Rightarrow> Some (h, q, None)
       | a # _ \<Rightarrow> Some (h(a \<mapsto> nq_set_next None (the (h a))), nq_next (the (h a)), Some a))"
    and "as = a # bs \<Longrightarrow>
      netq_chain (h(a \<mapsto> nq_set_next None (the (h a)))) (nq_next (the (h a))) bs"
proof -
  show "netq_pop_first h q =
      (case as of [] \<Rightarrow> Some (h, q, None)
       | a # _ \<Rightarrow> Some (h(a \<mapsto> nq_set_next None (the (h a))), nq_next (the (h a)), Some a))"
    using c by (cases as) (auto simp: netq_pop_first_def netq_head_def)
  show "as = a # bs \<Longrightarrow>
      netq_chain (h(a \<mapsto> nq_set_next None (the (h a)))) (nq_next (the (h a))) bs"
    using c chain_distinct [OF c] by auto
qed

lemma netq_delete_loop_chain:
  "netq_chain h p as \<Longrightarrow> netq_delete_loop h p = Some (h |` (- set as))"
proof (induction as arbitrary: h p)
  case Nil
  then show ?case by (simp add: netq_delete_loop.simps restrict_map_def)
next
  case (Cons a as)
  then obtain n where n: "p = Some a" "h a = Some n" "netq_chain h (nq_next n) as" by auto
  have "a \<notin> set as" using chain_distinct [OF Cons.prems] by simp
  then have "netq_chain (h(a := None)) (nq_next n) as" using n(3) by simp
  then have "netq_delete_loop (h(a := None)) (nq_next n) = Some ((h(a := None)) |` (- set as))"
    by (rule Cons.IH)
  moreover have "(h(a := None)) |` (- set as) = h |` (- set (a # as))"
    by (auto simp: restrict_map_def fun_eq_iff)
  ultimately show ?case
    using n by (simp add: netq_delete_loop.simps [of h "Some a"] netq_free_node_def)
qed

lemma netq_delete_all_frees:
  "netq_chain h q as \<Longrightarrow>
   netq_delete_all h (Some q) = Some (h |` (- set as), Some None)"
  by (simp add: netq_delete_all_def netq_delete_loop_chain)

subsection \<open>Order\<close>

lemma sorted_takeWhile_le:
  "sorted (map f xs) \<Longrightarrow> y \<in> set (dropWhile (\<lambda>z. f z \<le> t) xs) \<Longrightarrow> t < (f y :: 'b :: linorder)"
  by (induction xs) (fastforce split: if_splits)+

lemma queue_insert_sorted: "queue_sorted xs \<Longrightarrow> queue_sorted (queue_insert x xs)"
proof -
  assume s: "queue_sorted xs"
  let ?P = "\<lambda>y. nq_t y \<le> nq_t x"
  have "sorted (map nq_t (takeWhile ?P xs @ dropWhile ?P xs))"
    using s by (simp add: queue_sorted_def)
  moreover have "\<And>y. y \<in> set (dropWhile ?P xs) \<Longrightarrow> nq_t x < nq_t y"
    using s unfolding queue_sorted_def by (rule sorted_takeWhile_le)
  ultimately show ?thesis
    by (auto simp: queue_insert_def queue_sorted_def sorted_append simp del: takeWhile_dropWhile_id
        dest: set_takeWhileD intro: less_imp_le)
qed

lemma queue_insert_mset: "mset (queue_insert x xs) = add_mset x (mset xs)"
proof -
  let ?P = "\<lambda>y. nq_t y \<le> nq_t x"
  have "mset (queue_insert x xs) = add_mset x (mset (takeWhile ?P xs @ dropWhile ?P xs))"
    unfolding queue_insert_def by (simp del: takeWhile_dropWhile_id)
  then show ?thesis by simp
qed

lemma queue_insert_filter_same:
  "filter (\<lambda>y. nq_t y = nq_t x) (takeWhile (\<lambda>y. nq_t y \<le> nq_t x) xs) =
   filter (\<lambda>y. nq_t y = nq_t x) xs" if "queue_sorted xs"
proof -
  have "filter (\<lambda>y. nq_t y = nq_t x) (dropWhile (\<lambda>y. nq_t y \<le> nq_t x) xs) = []"
    using that sorted_takeWhile_le [of nq_t xs _ "nq_t x"]
    by (fastforce simp: queue_sorted_def filter_empty_conv)
  then show ?thesis
    by (metis append.right_neutral filter_append takeWhile_dropWhile_id)
qed

lemma queue_insert_stable:
  "queue_sorted xs \<Longrightarrow>
   filter (\<lambda>y. nq_t y = nq_t x) (queue_insert x xs) = filter (\<lambda>y. nq_t y = nq_t x) xs @ [x]"
proof -
  assume s: "queue_sorted xs"
  have "filter (\<lambda>y. nq_t y = nq_t x) (dropWhile (\<lambda>y. nq_t y \<le> nq_t x) xs) = []"
    using s sorted_takeWhile_le [of nq_t xs _ "nq_t x"]
    by (fastforce simp: queue_sorted_def filter_empty_conv)
  then show ?thesis using queue_insert_filter_same [OF s] by (simp add: queue_insert_def)
qed

subsection \<open>Properties\<close>

text \<open>C37: \<open>netq_insert_node\<close> on a well-formed queue, given a node that is not queued yet, returns
  1 and touches no invalid pointer; the new queue is again a well-formed chain, holds the old
  datagrams and the new one, is sorted by transmission time whenever the old one was, keeps the
  datagrams of equal time in their order of arrival, and changes no datagram's contents.\<close>

theorem netq_insert_node_correct:
  assumes "netq_chain h q as" and "h node = Some n" and "node \<notin> set as"
    and "queue_sorted (netq_abs h as)"
  shows "\<exists>h' q' as'. netq_insert_node h q node = Some (h', q', 1) \<and> netq_chain h' q' as' \<and>
    netq_abs h' as' = queue_insert (nq_payload n) (netq_abs h as) \<and>
    queue_sorted (netq_abs h' as') \<and>
    mset (netq_abs h' as') = add_mset (nq_payload n) (mset (netq_abs h as)) \<and>
    filter (\<lambda>y. nq_t y = nq_t n) (netq_abs h' as') =
      filter (\<lambda>y. nq_t y = nq_t n) (netq_abs h as) @ [nq_payload n] \<and>
    (\<forall>a. map_option nq_payload (h' a) = map_option nq_payload (h a))"
  using netq_insert_node_abs [OF assms(1-3)] queue_insert_sorted [OF assms(4)]
    queue_insert_stable [OF assms(4), of "nq_payload n"] queue_insert_mset
  unfolding nq.same_data_def by fastforce

definition netq_example :: netq_heap where
  "netq_example = [1 \<mapsto> netq_zero\<lparr>nq_next := Some 2, nq_t := 5\<rparr>, 2 \<mapsto> netq_zero\<lparr>nq_t := 7\<rparr>,
     3 \<mapsto> netq_zero\<lparr>nq_t := 5, nq_epoch := 1\<rparr>]"

lemma netq_insert_node_correct_witness:
  "\<exists>h' q' as'. netq_insert_node netq_example (Some 1) 3 = Some (h', q', 1) \<and>
     netq_chain h' q' as' \<and> queue_sorted (netq_abs h' as') \<and> length as' = 3"
proof -
  have "\<exists>h' q' as'. netq_insert_node netq_example (Some 1) 3 = Some (h', q', 1) \<and>
      netq_chain h' q' as' \<and>
      netq_abs h' as' = queue_insert (nq_payload (netq_zero\<lparr>nq_t := 5, nq_epoch := 1\<rparr>))
        (netq_abs netq_example [1, 2]) \<and>
      queue_sorted (netq_abs h' as') \<and>
      mset (netq_abs h' as') = add_mset (nq_payload (netq_zero\<lparr>nq_t := 5, nq_epoch := 1\<rparr>))
        (mset (netq_abs netq_example [1, 2])) \<and>
      filter (\<lambda>y. nq_t y = nq_t (netq_zero\<lparr>nq_t := 5, nq_epoch := 1\<rparr>)) (netq_abs h' as') =
        filter (\<lambda>y. nq_t y = nq_t (netq_zero\<lparr>nq_t := 5, nq_epoch := 1\<rparr>))
          (netq_abs netq_example [1, 2]) @ [nq_payload (netq_zero\<lparr>nq_t := 5, nq_epoch := 1\<rparr>)] \<and>
      (\<forall>a. map_option nq_payload (h' a) = map_option nq_payload (netq_example a))"
    by (rule netq_insert_node_correct)
      (simp_all add: netq_example_def netq_zero_def queue_sorted_def)
  then obtain h' q' as' where r: "netq_insert_node netq_example (Some 1) 3 = Some (h', q', 1)"
    "netq_chain h' q' as'" "queue_sorted (netq_abs h' as')"
    "mset (netq_abs h' as') = add_mset (nq_payload (netq_zero\<lparr>nq_t := 5, nq_epoch := 1\<rparr>))
        (mset (netq_abs netq_example [1, 2]))"
    by blast
  have "size (mset (netq_abs h' as')) = 3" unfolding r(4) by simp
  then have "length as' = 3" by simp
  with r show ?thesis by blast
qed

text \<open>The other queue operations implement the list operations: \<open>netq_remove\<close> unlinks exactly
  the given node and leaves all payloads and the order of the others, and does nothing for a node
  that is not queued; \<open>netq_pop_first\<close> returns the node with the smallest transmission time of a
  sorted queue and leaves the rest queued; \<open>netq_delete_all\<close> terminates, frees every queued node
  and only those, and leaves the empty queue.\<close>

lemma netq_remove_pop_delete_correct:
  assumes "netq_chain h q as" and "queue_sorted (netq_abs h as)"
  shows "(\<exists>h' q'. netq_remove h q (Some item) = Some (h', q') \<and>
            netq_chain h' q' (remove1 item as) \<and>
            netq_abs h' (remove1 item as) = netq_abs h (remove1 item as)) \<and>
         (case as of
            [] \<Rightarrow> netq_pop_first h q = Some (h, None, None)
          | a # bs \<Rightarrow> (\<exists>h' q'. netq_pop_first h q = Some (h', q', Some a) \<and> netq_chain h' q' bs \<and>
              netq_abs h' bs = netq_abs h bs \<and> map_option nq_next (h' a) = Some None \<and>
              (\<forall>x\<in>set (netq_abs h bs). nq_t (the (h a)) \<le> nq_t x))) \<and>
         netq_delete_all h (Some q) = Some (h |` (- set as), Some None)"
proof (intro conjI)
  show "\<exists>h' q'. netq_remove h q (Some item) = Some (h', q') \<and>
      netq_chain h' q' (remove1 item as) \<and>
      netq_abs h' (remove1 item as) = netq_abs h (remove1 item as)"
    using netq_remove_abs [OF assms(1)] by blast
  show "netq_delete_all h (Some q) = Some (h |` (- set as), Some None)"
    by (rule netq_delete_all_frees [OF assms(1)])
  show "case as of [] \<Rightarrow> netq_pop_first h q = Some (h, None, None)
      | a # bs \<Rightarrow> (\<exists>h' q'. netq_pop_first h q = Some (h', q', Some a) \<and> netq_chain h' q' bs \<and>
          netq_abs h' bs = netq_abs h bs \<and> map_option nq_next (h' a) = Some None \<and>
          (\<forall>x\<in>set (netq_abs h bs). nq_t (the (h a)) \<le> nq_t x))"
  proof (cases as)
    case Nil
    then show ?thesis using assms(1) netq_pop_first_abs(1) [OF assms(1)] by simp
  next
    case (Cons a bs)
    then obtain n where n: "q = Some a" "h a = Some n" using assms(1) by auto
    have "a \<notin> set bs" using chain_distinct [OF assms(1)] Cons by simp
    then have "netq_abs (h(a \<mapsto> nq_set_next None n)) bs = netq_abs h bs"
      by (auto simp: payloads_def)
    then show ?thesis
      using Cons n netq_pop_first_abs [OF assms(1)] assms(2)
      by (auto simp: queue_sorted_def)
  qed
qed

lemma netq_remove_pop_delete_correct_witness:
  "netq_pop_first netq_example (Some 1) \<noteq> None \<and>
   netq_delete_all netq_example (Some (Some 1)) = Some (netq_example |` (- {1, 2}), Some None)"
proof -
  have c: "netq_chain netq_example (Some 1) [1, 2]" "queue_sorted (netq_abs netq_example [1, 2])"
    by (simp_all add: netq_example_def netq_zero_def queue_sorted_def)
  show ?thesis using netq_remove_pop_delete_correct [OF c, of 2] by auto
qed

end
