(* ===== verification/Sha3.thy ===== *)
theory Sha3
  imports Prelude
begin

text \<open>
  The hash functions of \<open>sha3.c\<close>: the permutation on 25 words of 64 bits, the incremental interface of SHA-3 and the
  extendable output of SHAKE. The union of the context is the list of its 200 bytes; an access outside them is
  \<open>None\<close>.
\<close>

subsection \<open>The permutation\<close>

definition ROTL64 :: "u64 \<Rightarrow> nat \<Rightarrow> u64" where
  "ROTL64 x y = push_bit y x OR drop_bit (64 - y) x"

definition keccakf_rndc :: "u64 list" where
  "keccakf_rndc = [0x1, 0x8082, 0x800000000000808A, 0x8000000080008000, 0x808B, 0x80000001, 0x8000000080008081,
     0x8000000000008009, 0x8A, 0x88, 0x80008009, 0x8000000A, 0x8000808B, 0x800000000000008B, 0x8000000000008089,
     0x8000000000008003, 0x8000000000008002, 0x8000000000000080, 0x800A, 0x800000008000000A, 0x8000000080008081,
     0x8000000000008080, 0x80000001, 0x8000000080008008]"

definition keccakf_rotc :: "nat list" where
  "keccakf_rotc = [1, 3, 6, 10, 15, 21, 28, 36, 45, 55, 2, 14, 27, 41, 56, 8, 25, 43, 62, 18, 39, 61, 20, 44]"

definition keccakf_piln :: "nat list" where
  "keccakf_piln = [10, 7, 11, 17, 18, 3, 5, 16, 8, 21, 24, 4, 15, 23, 19, 13, 12, 2, 20, 14, 22, 9, 6, 1]"

definition theta :: "u64 list \<Rightarrow> u64 list" where
  "theta st =
     (let bc = map (\<lambda>i. st ! i XOR st ! (i + 5) XOR st ! (i + 10) XOR st ! (i + 15) XOR st ! (i + 20)) [0..<5]
      in fold (\<lambda>i st. let t = bc ! ((i + 4) mod 5) XOR ROTL64 (bc ! ((i + 1) mod 5)) 1
                       in fold (\<lambda>j st. st[j + i := st ! (j + i) XOR t]) [0, 5, 10, 15, 20] st) [0..<5] st)"

definition rho_pi :: "u64 list \<Rightarrow> u64 list" where
  "rho_pi st = fst (fold (\<lambda>i (st, t). let j = keccakf_piln ! i in (st[j := ROTL64 t (keccakf_rotc ! i)], st ! j)) [0..<24] (st, st ! 1))"

definition chi_row :: "nat \<Rightarrow> u64 list \<Rightarrow> u64 list" where
  "chi_row j st =
     (let bc = map (\<lambda>i. st ! (j + i)) [0..<5]
      in fold (\<lambda>i st. st[j + i := st ! (j + i) XOR (NOT (bc ! ((i + 1) mod 5)) AND bc ! ((i + 2) mod 5))]) [0..<5] st)"

definition keccak_round :: "nat \<Rightarrow> u64 list \<Rightarrow> u64 list" where
  "keccak_round r st =
     (let st = theta st; st = rho_pi st; st = fold chi_row [0, 5, 10, 15, 20] st
      in st[0 := st ! 0 XOR keccakf_rndc ! r])"

definition sha3_keccakf :: "u64 list \<Rightarrow> u64 list" where
  "sha3_keccakf st = fold keccak_round [0..<24] st"

subsection \<open>The context\<close>

record sha3_ctx_t =
  st_b :: bytes
  sc_pt :: int
  sc_rsiz :: int
  sc_mdlen :: int

text \<open>The words of the union on a little-endian machine.\<close>

definition st_q :: "bytes \<Rightarrow> u64 list" where
  "st_q b = map (\<lambda>i. word_of_nat (be_nat (rev (take 8 (drop (8 * i) b))))) [0..<25]"

definition q_bytes :: "u64 list \<Rightarrow> bytes" where
  "q_bytes q = concat (map (\<lambda>w. rev (be_bytes 8 (unat w))) q)"

definition permute_ctx :: "sha3_ctx_t \<Rightarrow> sha3_ctx_t" where
  "permute_ctx c = c\<lparr>st_b := q_bytes (sha3_keccakf (st_q (st_b c)))\<rparr>"

definition xor_st :: "int \<Rightarrow> u8 \<Rightarrow> sha3_ctx_t \<Rightarrow> sha3_ctx_t option" where
  "xor_st i v c = (if 0 \<le> i \<and> i < 200 then Some (c\<lparr>st_b := (st_b c)[nat i := st_b c ! nat i XOR v]\<rparr>) else None)"

definition sha3_init :: "int \<Rightarrow> sha3_ctx_t" where
  "sha3_init mdlen = \<lparr>st_b = replicate 200 0, sc_pt = 0, sc_rsiz = 200 - 2 * mdlen, sc_mdlen = mdlen\<rparr>"

fun sha3_update :: "sha3_ctx_t \<Rightarrow> bytes \<Rightarrow> sha3_ctx_t option" where
  "sha3_update c [] = Some c"
| "sha3_update c (d # data) = do {
     c \<leftarrow> xor_st (sc_pt c) d c;
     let j = sc_pt c + 1;
     sha3_update (if j \<ge> sc_rsiz c then (permute_ctx c)\<lparr>sc_pt := 0\<rparr> else c\<lparr>sc_pt := j\<rparr>) data
   }"

text \<open>The end of absorbing, with the suffix bits of SHA-3 or of SHAKE.\<close>

definition finish_absorb :: "u8 \<Rightarrow> sha3_ctx_t \<Rightarrow> sha3_ctx_t option" where
  "finish_absorb suffix c = do {
     c \<leftarrow> xor_st (sc_pt c) suffix c;
     c \<leftarrow> xor_st (sc_rsiz c - 1) 0x80 c;
     Some (permute_ctx c)
   }"

definition sha3_final :: "sha3_ctx_t \<Rightarrow> (bytes \<times> sha3_ctx_t) option" where
  "sha3_final c = do {
     c \<leftarrow> finish_absorb 0x06 c;
     if sc_mdlen c \<le> 200 then Some (take (nat (sc_mdlen c)) (st_b c), c) else None
   }"

definition sha3 :: "bytes \<Rightarrow> int \<Rightarrow> bytes option" where
  "sha3 input mdlen = do {
     c \<leftarrow> sha3_update (sha3_init mdlen) input;
     (md, c) \<leftarrow> sha3_final c;
     Some md
   }"

definition shake_xof :: "sha3_ctx_t \<Rightarrow> sha3_ctx_t option" where
  "shake_xof c = do {
     c \<leftarrow> finish_absorb 0x1F c;
     Some (c\<lparr>sc_pt := 0\<rparr>)
   }"

fun shake_out :: "sha3_ctx_t \<Rightarrow> nat \<Rightarrow> (bytes \<times> sha3_ctx_t) option" where
  "shake_out c 0 = Some ([], c)"
| "shake_out c (Suc len) =
     (let c = (if sc_pt c \<ge> sc_rsiz c then (permute_ctx c)\<lparr>sc_pt := 0\<rparr> else c)
      in if 0 \<le> sc_pt c \<and> sc_pt c < 200 then do {
           (out, c') \<leftarrow> shake_out (c\<lparr>sc_pt := sc_pt c + 1\<rparr>) len;
           Some (st_b c ! nat (sc_pt c) # out, c')
         } else None)"

end
