(* ===== verification/Sha3_Correct.thy ===== *)
theory Sha3_Correct
  imports Sha3
begin

text \<open>
  SHA-3 is that of FIPS 202: the permutation computes the five step mappings of the standard on the lanes of the
  state, its constants are those of the shift register, and the incremental interface pads and absorbs like the
  sponge whatever the pieces of the message are.
\<close>

subsection \<open>The permutation of the standard\<close>

text \<open>The state of lanes \<open>f x y\<close>, lane by lane.\<close>

definition lanes_of :: "(nat \<Rightarrow> nat \<Rightarrow> u64) \<Rightarrow> u64 list" where
  "lanes_of f = map (\<lambda>i. f (i mod 5) (i div 5)) [0..<25]"

definition state_lane :: "u64 list \<Rightarrow> nat \<Rightarrow> nat \<Rightarrow> u64" where
  "state_lane A x y = A ! (x mod 5 + 5 * (y mod 5))"

definition column_parity :: "u64 list \<Rightarrow> nat \<Rightarrow> u64" where
  "column_parity A x = state_lane A x 0 XOR state_lane A x 1 XOR state_lane A x 2 XOR state_lane A x 3 XOR state_lane A x 4"

definition Theta :: "u64 list \<Rightarrow> u64 list" where
  "Theta A = lanes_of (\<lambda>x y. state_lane A x y XOR (column_parity A (x + 4) XOR word_rotl 1 (column_parity A (x + 1))))"

text \<open>The offsets of rho, along the walk through the lanes.\<close>

definition rho_offsets :: "nat list" where
  "rho_offsets = snd (fold (\<lambda>t ((x, y), tab). ((y, (2 * x + 3 * y) mod 5), tab[x + 5 * y := ((t + 1) * (t + 2) div 2) mod 64])) [0..<24]
     ((1, 0), replicate 25 0))"

definition Rho :: "u64 list \<Rightarrow> u64 list" where
  "Rho A = lanes_of (\<lambda>x y. word_rotl (rho_offsets ! (x + 5 * y)) (state_lane A x y))"

definition Pi_step :: "u64 list \<Rightarrow> u64 list" where
  "Pi_step A = lanes_of (\<lambda>x y. state_lane A (x + 3 * y) x)"

definition Chi :: "u64 list \<Rightarrow> u64 list" where
  "Chi A = lanes_of (\<lambda>x y. state_lane A x y XOR (NOT (state_lane A (x + 1) y) AND state_lane A (x + 2) y))"

text \<open>The shift register of the round constants.\<close>

definition lfsr_step :: "bool list \<Rightarrow> bool list" where
  "lfsr_step R = (let c = R ! 7 in [c, R ! 0, R ! 1, R ! 2, R ! 3 \<noteq> c, R ! 4 \<noteq> c, R ! 5 \<noteq> c, R ! 6])"

definition rc_bit :: "nat \<Rightarrow> bool" where
  "rc_bit t = hd ((lfsr_step ^^ t) [True, False, False, False, False, False, False, False])"

definition round_constant :: "nat \<Rightarrow> u64" where
  "round_constant ir = (\<Sum>j\<leftarrow>[0..<7]. if rc_bit (j + 7 * ir) then 2 ^ (2 ^ j - 1) else 0)"

definition Iota :: "nat \<Rightarrow> u64 list \<Rightarrow> u64 list" where
  "Iota ir A = lanes_of (\<lambda>x y. if x = 0 \<and> y = 0 then state_lane A x y XOR round_constant ir else state_lane A x y)"

definition KECCAK_p :: "u64 list \<Rightarrow> u64 list" where
  "KECCAK_p A = fold (\<lambda>ir A. Iota ir (Chi (Pi_step (Rho (Theta A))))) [0..<24] A"

subsection \<open>The steps of the code\<close>

lemma state25:
  assumes "length (st :: u64 list) = 25"
  obtains a0 a1 a2 a3 a4 a5 a6 a7 a8 a9 a10 a11 a12 a13 a14 a15 a16 a17 a18 a19 a20 a21 a22 a23 a24
  where "st = [a0, a1, a2, a3, a4, a5, a6, a7, a8, a9, a10, a11, a12, a13, a14, a15, a16, a17, a18, a19, a20, a21, a22, a23, a24]"
  using assms by (auto simp: numeral_eq_Suc length_Suc_conv)

lemma upt25: "[0..<25] = [0, 1, 2, 3, 4, 5, 6, 7, 8, 9, 10, 11, 12, 13, 14, 15, 16, 17, 18, 19, 20, 21, 22, 23, 24]"
  "[0..<5] = [0, 1, 2, 3, 4]" "[0..<24] = [0, 1, 2, 3, 4, 5, 6, 7, 8, 9, 10, 11, 12, 13, 14, 15, 16, 17, 18, 19, 20, 21, 22, 23]"
  by (simp_all add: upt_rec)

lemma ROTL64_rotl:
  assumes "0 < n" and "n < 64"
  shows "ROTL64 w n = word_rotl n w"
proof (rule bit_word_eqI)
  fix i
  assume i: "i < LENGTH(64)"
  have m: "(i + (64 - n mod 64)) mod 64 = (if n \<le> i then i - n else i + 64 - n)"
  proof (cases "n \<le> i")
    case True
    then have "i + (64 - n mod 64) = (i - n) + 64" using assms by simp
    then have "(i + (64 - n mod 64)) mod 64 = (i - n) mod 64" by (simp only: mod_add_self2)
    then show ?thesis using True i by simp
  next
    case False
    then have "i + (64 - n mod 64) = i + 64 - n" using assms by simp
    then show ?thesis using False i by simp
  qed
  have len: "LENGTH(64) = 64" by simp
  have l: "bit (word_rotl n w) i = bit w (if n \<le> i then i - n else i + 64 - n)"
    using i unfolding bit_word_rotl_iff len m by simp
  have r: "bit (ROTL64 w n) i = (n \<le> i \<and> bit w (i - n) \<or> bit w (64 - n + i))"
    using i by (simp add: ROTL64_def bit_or_iff bit_push_bit_iff bit_drop_bit_eq)
  show "bit (ROTL64 w n) i = bit (word_rotl n w) i"
  proof (cases "n \<le> i")
    case True
    then have "\<not> bit w (64 - n + i)" using assms by (intro impossible_bit) (simp add: possible_bit_def)
    then show ?thesis unfolding l r using True by simp
  next
    case False
    moreover have "64 - n + i = i + 64 - n" using assms by simp
    ultimately show ?thesis unfolding l r by simp
  qed
qed

lemma theta_Theta: "length st = 25 \<Longrightarrow> theta st = Theta st"
  by (elim state25) (simp add: theta_def Theta_def lanes_of_def state_lane_def column_parity_def upt25 Let_def ROTL64_rotl)

lemma rho_table: "rho_offsets = [0, 1, 62, 28, 27, 36, 44, 6, 55, 20, 3, 10, 43, 25, 39, 41, 45, 15, 21, 8, 18, 2, 61, 56, 14]"
  by code_simp

lemma word_rotl_nothing: "word_rotl 0 w = w"
  by (rule bit_word_eqI) (simp add: bit_word_rotl_iff)

lemma rho_pi_steps: "length st = 25 \<Longrightarrow> rho_pi st = Pi_step (Rho st)"
  by (elim state25) (simp add: rho_pi_def Pi_step_def Rho_def lanes_of_def state_lane_def rho_table upt25 Let_def keccakf_piln_def keccakf_rotc_def ROTL64_rotl word_rotl_nothing)

lemma chi_Chi: "length st = 25 \<Longrightarrow> fold chi_row [0, 5, 10, 15, 20] st = Chi st"
  by (elim state25) (simp add: chi_row_def Chi_def lanes_of_def state_lane_def upt25 Let_def)

text \<open>The constants, from one run of the register.\<close>

fun lfsr_run :: "nat \<Rightarrow> bool list \<Rightarrow> bool list" where
  "lfsr_run 0 R = []"
| "lfsr_run (Suc n) R = hd R # lfsr_run n (lfsr_step R)"

lemma lfsr_run_bits: "t < n \<Longrightarrow> lfsr_run n R ! t = hd ((lfsr_step ^^ t) R)"
proof (induction n arbitrary: t R)
  case (Suc n)
  then show ?case by (cases t) (simp_all add: funpow_swap1)
qed simp

definition rc_table :: "bool list" where
  "rc_table = lfsr_run 168 [True, False, False, False, False, False, False, False]"

lemma constants_checked:
  "list_all (\<lambda>ir. keccakf_rndc ! ir = (\<Sum>j\<leftarrow>[0..<7]. if rc_table ! (j + 7 * ir) then 2 ^ (2 ^ j - 1) else 0)) [0..<24]"
  by code_simp

lemma round_constants: "ir < 24 \<Longrightarrow> keccakf_rndc ! ir = round_constant ir"
proof -
  assume ir: "ir < 24"
  have "rc_bit (j + 7 * ir) = rc_table ! (j + 7 * ir)" if "j < 7" for j
    using lfsr_run_bits [of "j + 7 * ir" 168] that ir by (simp add: rc_bit_def rc_table_def)
  then have "(\<Sum>j\<leftarrow>[0..<7]. if rc_table ! (j + 7 * ir) then 2 ^ (2 ^ j - 1) else 0) = round_constant ir"
    unfolding round_constant_def by (intro arg_cong [of _ _ sum_list] map_cong) simp_all
  moreover have "keccakf_rndc ! ir = (\<Sum>j\<leftarrow>[0..<7]. if rc_table ! (j + 7 * ir) then 2 ^ (2 ^ j - 1) else 0)"
    using constants_checked ir by (simp add: list_all_iff)
  ultimately show ?thesis by simp
qed

lemma length_lanes_of [simp]: "length (lanes_of f) = 25"
  by (simp add: lanes_of_def)

lemma length_steps: "length (Theta A) = 25" "length (Rho A) = 25" "length (Pi_step A) = 25" "length (Chi A) = 25" "length (Iota r A) = 25"
  by (simp_all add: Theta_def Rho_def Pi_step_def Chi_def Iota_def)

lemma iota_Iota: "length st = 25 \<Longrightarrow> r < 24 \<Longrightarrow> st[0 := st ! 0 XOR keccakf_rndc ! r] = Iota r st"
  by (elim state25) (simp add: Iota_def lanes_of_def state_lane_def upt25 round_constants)

lemma keccak_round_step: "length st = 25 \<Longrightarrow> r < 24 \<Longrightarrow> keccak_round r st = Iota r (Chi (Pi_step (Rho (Theta st))))"
  by (simp only: keccak_round_def Let_def theta_Theta rho_pi_steps chi_Chi iota_Iota length_steps)

lemma keccakf_KECCAK:
  assumes "length st = 25"
  shows "sha3_keccakf st = KECCAK_p st \<and> length (KECCAK_p st) = 25"
proof -
  have "fold keccak_round is st = fold (\<lambda>ir A. Iota ir (Chi (Pi_step (Rho (Theta A))))) is st \<and>
      length (fold (\<lambda>ir A. Iota ir (Chi (Pi_step (Rho (Theta A))))) is st) = 25" if "set is \<subseteq> {..<24}" for "is"
    using that assms
  proof (induction "is" arbitrary: st)
    case (Cons r "is")
    then show ?case using keccak_round_step [of st r] by (simp add: length_steps)
  qed simp
  moreover have "set [0..<24] \<subseteq> {..<24 :: nat}" by auto
  ultimately show ?thesis unfolding sha3_keccakf_def KECCAK_p_def by blast
qed

subsection \<open>The sponge\<close>

text \<open>The standard on byte strings, the rate being \<open>r\<close> bytes.\<close>

definition KECCAK_bytes :: "bytes \<Rightarrow> bytes" where
  "KECCAK_bytes b = q_bytes (KECCAK_p (st_q b))"

definition xor_block :: "bytes \<Rightarrow> bytes \<Rightarrow> bytes" where
  "xor_block S P = map2 (XOR) S (P @ replicate (200 - length P) 0)"

definition absorb_blocks :: "nat \<Rightarrow> nat \<Rightarrow> bytes \<Rightarrow> bytes" where
  "absorb_blocks r n P = fold (\<lambda>i S. KECCAK_bytes (xor_block S (take r (drop (r * i) P)))) [0..<n] (replicate 200 0)"

definition sponge_pad :: "nat \<Rightarrow> u8 \<Rightarrow> nat \<Rightarrow> bytes" where
  "sponge_pad r suffix n =
     (let q = r - n mod r in if q = 1 then [suffix XOR 0x80] else suffix # replicate (q - 2) 0 @ [0x80])"

definition sponge_absorb :: "nat \<Rightarrow> u8 \<Rightarrow> bytes \<Rightarrow> bytes" where
  "sponge_absorb r suffix M = (let P = M @ sponge_pad r suffix (length M) in absorb_blocks r (length P div r) P)"

definition SHA3 :: "nat \<Rightarrow> bytes \<Rightarrow> bytes" where
  "SHA3 d M = take d (sponge_absorb (200 - 2 * d) 0x06 M)"

text \<open>Byte \<open>i\<close> of the unlimited output of SHAKE with security parameter \<open>d\<close>.\<close>

definition SHAKE_byte :: "nat \<Rightarrow> bytes \<Rightarrow> nat \<Rightarrow> u8" where
  "SHAKE_byte d M i = (let r = 200 - 2 * d in (KECCAK_bytes ^^ (i div r)) (sponge_absorb r 0x1F M) ! (i mod r))"

lemma length_q_bytes: "length (q_bytes q) = 8 * length q"
  by (induction q) (simp_all add: q_bytes_def)

lemma length_KECCAK_bytes [simp]: "length (KECCAK_bytes b) = 200"
  using keccakf_KECCAK [of "st_q b"] by (simp add: KECCAK_bytes_def length_q_bytes st_q_def)

lemma permute_KECCAK: "permute_ctx c = c\<lparr>st_b := KECCAK_bytes (st_b c)\<rparr>"
  using keccakf_KECCAK [of "st_q (st_b c)"] by (simp add: permute_ctx_def KECCAK_bytes_def st_q_def)

lemma xor_block_nth:
  assumes "length S = 200" and "length P \<le> 200"
  shows "length (xor_block S P) = 200" and "i < 200 \<Longrightarrow> xor_block S P ! i = S ! i XOR (if i < length P then P ! i else 0)"
  using assms by (simp_all add: xor_block_def nth_append)

lemma xor_block_snoc:
  assumes "length S = 200" and "length P < 200"
  shows "(xor_block S P)[length P := xor_block S P ! length P XOR d] = xor_block S (P @ [d])"
  using assms by (intro nth_equalityI) (simp_all add: xor_block_nth nth_list_update nth_append)

lemma length_absorb_blocks [simp]: "length (absorb_blocks r n P) = 200"
proof (cases n)
  case (Suc m)
  then show ?thesis by (simp add: absorb_blocks_def)
qed (simp add: absorb_blocks_def)

lemma absorb_blocks_append: "r * n \<le> length P \<Longrightarrow> absorb_blocks r n (P @ Q) = absorb_blocks r n P"
proof (induction n)
  case (Suc n)
  have "take r (drop (r * n) (P @ Q)) = take r (drop (r * n) P)" using Suc.prems by simp
  then show ?case using Suc by (simp add: absorb_blocks_def)
qed (simp add: absorb_blocks_def)

lemma absorb_blocks_Suc: "absorb_blocks r (Suc n) P = KECCAK_bytes (xor_block (absorb_blocks r n P) (take r (drop (r * n) P)))"
  by (simp add: absorb_blocks_def)

text \<open>The context after absorbing \<open>M\<close>.\<close>

definition ctx_of :: "nat \<Rightarrow> bytes \<Rightarrow> sha3_ctx_t" where
  "ctx_of d M = (let r = 200 - 2 * d; n = length M div r in
     \<lparr>st_b = xor_block (absorb_blocks r n M) (drop (r * n) M), sc_pt = int (length M mod r), sc_rsiz = int r, sc_mdlen = int d\<rparr>)"

lemma tail_length: "length M - r * (length M div r) = length M mod (r :: nat)"
  by (simp add: minus_mult_div_eq_mod)

lemma xor_block_nothing: "length S = 200 \<Longrightarrow> xor_block S [] = S"
  by (intro nth_equalityI) (simp_all add: xor_block_nth)

lemma init_ctx: "d < 100 \<Longrightarrow> sha3_init (int d) = ctx_of d []"
  by (simp add: sha3_init_def ctx_of_def Let_def xor_block_nothing absorb_blocks_def)

lemma update_byte:
  assumes "d < 100"
  shows "sha3_update (ctx_of d M) [b] = Some (ctx_of d (M @ [b]))"
proof -
  define r where "r = 200 - 2 * d"
  define n where "n = length M div r"
  define S where "S = absorb_blocks r n M"
  define T where "T = drop (r * n) M"
  have r: "0 < r" "r \<le> 200" using assms by (simp_all add: r_def)
  have le: "r * n \<le> length M" by (simp add: n_def)
  have T: "length T = length M mod r" by (simp add: T_def n_def tail_length)
  then have t: "length T < r" using r by simp
  have S: "length S = 200" by (simp add: S_def)
  have c: "ctx_of d M = \<lparr>st_b = xor_block S T, sc_pt = int (length T), sc_rsiz = int r, sc_mdlen = int d\<rparr>"
    by (simp add: ctx_of_def Let_def r_def [symmetric] n_def [symmetric] S_def T_def [symmetric] T)
  have x: "xor_st (int (length T)) b (ctx_of d M) = Some (ctx_of d M\<lparr>st_b := xor_block S (T @ [b])\<rparr>)"
    using t r by (simp add: xor_st_def c xor_block_snoc [OF S])
  show ?thesis
  proof (cases "Suc (length T) = r")
    case True
    have q: "Suc (length M) div r = Suc n" "Suc (length M) mod r = 0" using True T r by (simp_all add: n_def div_Suc mod_Suc)
    have "take r (drop (r * n) (M @ [b])) = T @ [b]" using True le by (simp add: T_def)
    then have "absorb_blocks r (Suc n) (M @ [b]) = KECCAK_bytes (xor_block S (T @ [b]))"
      by (simp add: absorb_blocks_Suc absorb_blocks_append [OF le] S_def)
    moreover have "drop (r * Suc n) (M @ [b]) = []" using True T le by (simp add: T_def)
    ultimately have "ctx_of d (M @ [b]) = \<lparr>st_b = KECCAK_bytes (xor_block S (T @ [b])), sc_pt = 0, sc_rsiz = int r, sc_mdlen = int d\<rparr>"
      by (simp only: ctx_of_def Let_def r_def [symmetric] length_append list.size add_Suc_right add_0_right One_nat_def q xor_block_nothing length_KECCAK_bytes) simp
    then show ?thesis using True x by (simp add: c permute_KECCAK)
  next
    case False
    then have q: "Suc (length M) div r = n" "Suc (length M) mod r = Suc (length T)" using T r by (simp_all add: n_def div_Suc mod_Suc)
    have "drop (r * n) (M @ [b]) = T @ [b]" using le by (simp add: T_def)
    then have "ctx_of d (M @ [b]) = \<lparr>st_b = xor_block S (T @ [b]), sc_pt = int (Suc (length T)), sc_rsiz = int r, sc_mdlen = int d\<rparr>"
      by (simp add: ctx_of_def Let_def r_def [symmetric] q absorb_blocks_append [OF le] S_def)
    moreover have "\<not> int r \<le> int (length T) + 1" using False t by simp
    ultimately show ?thesis using x by (simp add: c)
  qed
qed

lemma update_ctx:
  assumes "d < 100"
  shows "sha3_update (ctx_of d M) D = Some (ctx_of d (M @ D))"
proof (induction D arbitrary: M)
  case (Cons b D)
  have "sha3_update c (b # D) = Option.bind (sha3_update c [b]) (\<lambda>c. sha3_update c D)" for c
    by (simp add: Let_def split: Option.bind_split)
  then have "sha3_update (ctx_of d M) (b # D) = Option.bind (Some (ctx_of d (M @ [b]))) (\<lambda>c. sha3_update c D)"
    by (simp only: update_byte [OF assms])
  then show ?case using Cons [of "M @ [b]"] by (simp del: sha3_update.simps)
qed simp

lemma finish_ctx:
  assumes "d < 100"
  shows "finish_absorb suffix (ctx_of d M) = Some \<lparr>st_b = sponge_absorb (200 - 2 * d) suffix M, sc_pt = int (length M mod (200 - 2 * d)),
    sc_rsiz = int (200 - 2 * d), sc_mdlen = int d\<rparr>"
proof -
  define r where "r = 200 - 2 * d"
  define n where "n = length M div r"
  define S where "S = absorb_blocks r n M"
  define T where "T = drop (r * n) M"
  define Q where "Q = sponge_pad r suffix (length M)"
  have r: "2 \<le> r" "r \<le> 200" using assms by (simp_all add: r_def)
  have le: "r * n \<le> length M" by (simp add: n_def)
  have T: "length T = length M mod r" by (simp add: T_def n_def tail_length)
  then have t: "length T < r" using r by simp
  have S: "length S = 200" by (simp add: S_def)
  have c: "ctx_of d M = \<lparr>st_b = xor_block S T, sc_pt = int (length T), sc_rsiz = int r, sc_mdlen = int d\<rparr>"
    by (simp add: ctx_of_def Let_def r_def [symmetric] n_def [symmetric] S_def T_def [symmetric] T)
  have q: "length T + length Q = r" using t r by (auto simp: Q_def sponge_pad_def Let_def T [symmetric])
  have "length (M @ Q) = r * Suc n"
  proof -
    have "length M = r * n + length T" by (simp add: T n_def)
    then show ?thesis using q by simp
  qed
  then have "length (M @ Q) div r = Suc n" using r by (simp only: nonzero_mult_div_cancel_left)
  moreover have "take r (drop (r * n) (M @ Q)) = T @ Q" using le q by (simp add: T_def)
  ultimately have a: "sponge_absorb r suffix M = KECCAK_bytes (xor_block S (T @ Q))"
    by (simp only: sponge_absorb_def Let_def Q_def [symmetric] absorb_blocks_Suc absorb_blocks_append [OF le] S_def [symmetric])
  define V where "V = (xor_block S T)[length T := xor_block S T ! length T XOR suffix]"
  have V: "length V = 200" "\<And>i. i < 200 \<Longrightarrow> V ! i = S ! i XOR (if i < length T then T ! i else if i = length T then suffix else 0)"
    using t r S by (simp_all add: V_def xor_block_nth nth_list_update)
  have "V[r - 1 := V ! (r - 1) XOR 0x80] = xor_block S (T @ Q)"
  proof (rule nth_equalityI)
    fix i
    assume "i < length (V[r - 1 := V ! (r - 1) XOR 0x80])"
    then have i: "i < 200" using V(1) by simp
    have Q: "Q ! k = (if k = 0 then suffix else 0) XOR (if k = r - 1 - length T then 0x80 else 0)" if "k < length Q" for k
    proof (cases "r - length T = 1")
      case True
      then have "Q = [suffix XOR 0x80]" by (simp add: Q_def sponge_pad_def Let_def T [symmetric])
      then show ?thesis using that True by simp
    next
      case False
      then have Q: "Q = suffix # replicate (r - length T - 2) 0 @ [0x80]" by (simp add: Q_def sponge_pad_def Let_def T [symmetric])
      show ?thesis
      proof (cases k)
        case 0
        moreover have "r - 1 - length T \<noteq> 0" using False t by linarith
        ultimately show ?thesis by (simp add: Q)
      next
        case (Suc m)
        then have "m < Suc (r - length T - 2)" using that by (simp add: Q)
        moreover have "k = r - 1 - length T \<longleftrightarrow> m = r - length T - 2" using Suc False t by linarith
        ultimately show ?thesis using Suc by (simp add: Q nth_append)
      qed
    qed
    show "V[r - 1 := V ! (r - 1) XOR 0x80] ! i = xor_block S (T @ Q) ! i"
    proof (cases "i < length T")
      case True
      then show ?thesis using i V t r S q by (simp add: nth_list_update xor_block_nth nth_append)
    next
      case False
      have x: "xor_block S (T @ Q) ! i = S ! i XOR (if i < r then Q ! (i - length T) else 0)"
        using i False S q r by (simp add: xor_block_nth nth_append)
      have y: "V[r - 1 := V ! (r - 1) XOR 0x80] ! i = S ! i XOR (if i = length T then suffix else 0) XOR (if i = r - 1 then 0x80 else 0)"
        using i False V r by (simp add: nth_list_update xor.assoc)
      show ?thesis
      proof (cases "i < r")
        case True
        then have "i - length T < length Q" "i - length T = 0 \<longleftrightarrow> i = length T" "i - length T = r - 1 - length T \<longleftrightarrow> i = r - 1"
          using False q t by linarith+
        then show ?thesis unfolding x y using True Q [of "i - length T"] by (simp add: xor.assoc)
      next
        case False
        then have "i \<noteq> length T" "i \<noteq> r - 1" using t r by linarith+
        then show ?thesis unfolding x y using False by simp
      qed
    qed
  qed (use V S q r in \<open>simp add: xor_block_nth\<close>)
  moreover have "xor_st (int (length T)) suffix (ctx_of d M) = Some (ctx_of d M\<lparr>st_b := V\<rparr>)" using t r by (simp add: xor_st_def c V_def)
  moreover have "nat (int r - 1) = r - 1" using r by simp
  ultimately show ?thesis using r a T
    by (simp add: finish_absorb_def c xor_st_def permute_KECCAK r_def [symmetric])
qed

lemma final_ctx:
  assumes "d < 100"
  shows "\<exists>c. sha3_final (ctx_of d M) = Some (SHA3 d M, c)"
  using assms by (simp add: sha3_final_def finish_ctx SHA3_def)

lemma length_sponge: "length (sponge_absorb r suffix M) = 200"
  by (simp add: sponge_absorb_def Let_def)

text \<open>The context of SHAKE after \<open>k\<close> bytes of output.\<close>

definition xof_ctx :: "nat \<Rightarrow> bytes \<Rightarrow> nat \<Rightarrow> sha3_ctx_t" where
  "xof_ctx d M k = (let r = 200 - 2 * d in
     \<lparr>st_b = (KECCAK_bytes ^^ ((k - 1) div r)) (sponge_absorb r 0x1F M), sc_pt = (if k = 0 then 0 else int ((k - 1) mod r + 1)),
      sc_rsiz = int r, sc_mdlen = int d\<rparr>)"

lemma xof_start: "d < 100 \<Longrightarrow> shake_xof (ctx_of d M) = Some (xof_ctx d M 0)"
  by (simp add: shake_xof_def finish_ctx xof_ctx_def Let_def)

lemma shake_ctx:
  assumes "d < 100"
  shows "shake_out (xof_ctx d M k) n = Some (map (SHAKE_byte d M) [k..<k + n], xof_ctx d M (k + n))"
proof (induction n arbitrary: k)
  case (Suc n)
  define r where "r = 200 - 2 * d"
  define S where "S = sponge_absorb r 0x1F M"
  define c where "c = (let c = xof_ctx d M k in if sc_pt c \<ge> sc_rsiz c then (permute_ctx c)\<lparr>sc_pt := 0\<rparr> else c)"
  have r: "0 < r" "r \<le> 200" using assms by (simp_all add: r_def)
  have c: "c = \<lparr>st_b = (KECCAK_bytes ^^ (k div r)) S, sc_pt = int (k mod r), sc_rsiz = int r, sc_mdlen = int d\<rparr>"
  proof (cases k)
    case 0
    then show ?thesis using r by (simp add: c_def xof_ctx_def Let_def r_def [symmetric] S_def)
  next
    case (Suc m)
    moreover have "int r \<le> 1 + int (m mod r) \<longleftrightarrow> Suc (m mod r) = r"
    proof -
      have "m mod r < r" using r by simp
      then show ?thesis by linarith
    qed
    ultimately show ?thesis using r
      by (auto simp: c_def xof_ctx_def Let_def r_def [symmetric] S_def permute_KECCAK div_Suc mod_Suc)
  qed
  have "c\<lparr>sc_pt := sc_pt c + 1\<rparr> = xof_ctx d M (Suc k)"
    by (simp add: c xof_ctx_def Let_def r_def [symmetric] S_def)
  moreover have "k mod r < 200" using r by (intro less_le_trans [OF mod_less_divisor])
  moreover have "st_b c ! nat (sc_pt c) = SHAKE_byte d M k" by (simp add: c SHAKE_byte_def Let_def r_def [symmetric] S_def)
  moreover have "[k..<k + Suc n] = k # [Suc k..<Suc k + n]" by (simp add: upt_conv_Cons del: upt_Suc)
  moreover have "shake_out (xof_ctx d M k) (Suc n) =
      (if 0 \<le> sc_pt c \<and> sc_pt c < 200 then do {
         (out, c') \<leftarrow> shake_out (c\<lparr>sc_pt := sc_pt c + 1\<rparr>) n;
         Some (st_b c ! nat (sc_pt c) # out, c')
       } else None)"
    unfolding shake_out.simps(2) c_def Let_def by (rule refl)
  ultimately show ?case using Suc.IH [of "Suc k"] by (simp add: c)
qed simp

text \<open>C27: \<open>sha3.c\<close> is FIPS 202. For every digest length below 100 bytes, absorbing a message in any pieces with
  \<open>sha3_update\<close> touches no memory outside the state; \<open>sha3_final\<close> then gives the digest of the sponge over the
  permutation of the standard, and \<open>shake_xof\<close> with any two calls of \<open>shake_out\<close> consecutive bytes of its unlimited
  output.\<close>

theorem sha3_is_fips202:
  assumes "d < 100"
  shows "\<exists>c. foldl (\<lambda>c D. Option.bind c (\<lambda>c. sha3_update c D)) (Some (sha3_init (int d))) Ds = Some c \<and>
    map_option fst (sha3_final c) = Some (SHA3 d (concat Ds)) \<and>
    (\<exists>c0 c1 c2. shake_xof c = Some c0 \<and> shake_out c0 m = Some (map (SHAKE_byte d (concat Ds)) [0..<m], c1) \<and>
      shake_out c1 n = Some (map (SHAKE_byte d (concat Ds)) [m..<m + n], c2))"
proof -
  have "foldl (\<lambda>c D. Option.bind c (\<lambda>c. sha3_update c D)) (Some (ctx_of d M)) Ds = Some (ctx_of d (M @ concat Ds))" for M
    by (induction Ds arbitrary: M) (simp_all add: update_ctx [OF assms])
  from this [of "[]"] have "foldl (\<lambda>c D. Option.bind c (\<lambda>c. sha3_update c D)) (Some (sha3_init (int d))) Ds = Some (ctx_of d (concat Ds))"
    by (simp only: init_ctx [OF assms] append_Nil)
  moreover have "map_option fst (sha3_final (ctx_of d M)) = Some (SHA3 d M)" for M
    using final_ctx [OF assms, of M] by auto
  moreover note xof_start [OF assms, of "concat Ds"] shake_ctx [OF assms, of "concat Ds" 0 m] shake_ctx [OF assms, of "concat Ds" m n]
  ultimately show ?thesis by (metis add_0)
qed

lemma sha3_is_fips202_witness:
  "\<exists>c. foldl (\<lambda>c D. Option.bind c (\<lambda>c. sha3_update c D)) (Some (sha3_init 32)) [[1, 2], [], [3]] = Some c \<and>
    map_option fst (sha3_final c) = Some (SHA3 32 [1, 2, 3])"
  using sha3_is_fips202 [of 32 "[[1, 2], [], [3]]" 0 0] by auto

end
