(* ===== verification/Sha256.thy ===== *)
theory Sha256
  imports Prelude
begin

text \<open>
  The SHA-256 implementation of \<open>sha2/sha2.c\<close> (little-endian build, rolled transform loop) and
  the reference definition of FIPS 180-4. The implementation buffers its input, keeps the message
  schedule in a ring of sixteen words that shares its storage with the input buffer, swaps bytes
  with shift-and-mask macros and pads in place; the theorem at the end says that a sequence of
  updates followed by the finalization computes the reference hash of the concatenated input.
\<close>

subsection \<open>Words in memory and the byte-reversal macros\<close>

definition le_word32 :: "bytes \<Rightarrow> u32" where
  "le_word32 b = ucast (b ! 0) OR push_bit 8 (ucast (b ! 1)) OR push_bit 16 (ucast (b ! 2)) OR
     push_bit 24 (ucast (b ! 3))"

definition le_bytes32 :: "u32 \<Rightarrow> bytes" where
  "le_bytes32 w = [ucast w, ucast (drop_bit 8 w), ucast (drop_bit 16 w), ucast (drop_bit 24 w)]"

definition le_bytes64 :: "u64 \<Rightarrow> bytes" where
  "le_bytes64 w = map (\<lambda>i. ucast (drop_bit (8 * i) w)) [0..<8]"

definition REVERSE32 :: "u32 \<Rightarrow> u32" where
  "REVERSE32 w =
     (let tmp = drop_bit 16 w OR push_bit 16 w
      in drop_bit 8 (tmp AND 0xff00ff00) OR push_bit 8 (tmp AND 0x00ff00ff))"

definition REVERSE64 :: "u64 \<Rightarrow> u64" where
  "REVERSE64 w =
     (let tmp = drop_bit 32 w OR push_bit 32 w;
          tmp = drop_bit 8 (tmp AND 0xff00ff00ff00ff00) OR push_bit 8 (tmp AND 0x00ff00ff00ff00ff)
      in drop_bit 16 (tmp AND 0xffff0000ffff0000) OR push_bit 16 (tmp AND 0x0000ffff0000ffff))"

subsection \<open>The six logical functions and the constants\<close>

definition S32 :: "nat \<Rightarrow> u32 \<Rightarrow> u32" where
  "S32 b x = drop_bit b x OR push_bit (32 - b) x"

definition Ch :: "u32 \<Rightarrow> u32 \<Rightarrow> u32 \<Rightarrow> u32" where
  "Ch x y z = (x AND y) XOR (NOT x AND z)"

definition Maj :: "u32 \<Rightarrow> u32 \<Rightarrow> u32 \<Rightarrow> u32" where
  "Maj x y z = (x AND y) XOR (x AND z) XOR (y AND z)"

definition Sigma0_256 :: "u32 \<Rightarrow> u32" where
  "Sigma0_256 x = S32 2 x XOR S32 13 x XOR S32 22 x"

definition Sigma1_256 :: "u32 \<Rightarrow> u32" where
  "Sigma1_256 x = S32 6 x XOR S32 11 x XOR S32 25 x"

definition sigma0_256 :: "u32 \<Rightarrow> u32" where
  "sigma0_256 x = S32 7 x XOR S32 18 x XOR drop_bit 3 x"

definition sigma1_256 :: "u32 \<Rightarrow> u32" where
  "sigma1_256 x = S32 17 x XOR S32 19 x XOR drop_bit 10 x"

definition K256 :: "u32 list" where
  "K256 = [
    0x428A2F98, 0x71374491, 0xB5C0FBCF, 0xE9B5DBA5,
    0x3956C25B, 0x59F111F1, 0x923F82A4, 0xAB1C5ED5,
    0xD807AA98, 0x12835B01, 0x243185BE, 0x550C7DC3,
    0x72BE5D74, 0x80DEB1FE, 0x9BDC06A7, 0xC19BF174,
    0xE49B69C1, 0xEFBE4786, 0x0FC19DC6, 0x240CA1CC,
    0x2DE92C6F, 0x4A7484AA, 0x5CB0A9DC, 0x76F988DA,
    0x983E5152, 0xA831C66D, 0xB00327C8, 0xBF597FC7,
    0xC6E00BF3, 0xD5A79147, 0x06CA6351, 0x14292967,
    0x27B70A85, 0x2E1B2138, 0x4D2C6DFC, 0x53380D13,
    0x650A7354, 0x766A0ABB, 0x81C2C92E, 0x92722C85,
    0xA2BFE8A1, 0xA81A664B, 0xC24B8B70, 0xC76C51A3,
    0xD192E819, 0xD6990624, 0xF40E3585, 0x106AA070,
    0x19A4C116, 0x1E376C08, 0x2748774C, 0x34B0BCB5,
    0x391C0CB3, 0x4ED8AA4A, 0x5B9CCA4F, 0x682E6FF3,
    0x748F82EE, 0x78A5636F, 0x84C87814, 0x8CC70208,
    0x90BEFFFA, 0xA4506CEB, 0xBEF9A3F7, 0xC67178F2]"

definition sha256_initial_hash_value :: "u32 list" where
  "sha256_initial_hash_value =
    [0x6a09e667, 0xbb67ae85, 0x3c6ef372, 0xa54ff53a,
     0x510e527f, 0x9b05688c, 0x1f83d9ab, 0x5be0cd19]"

subsection \<open>The context and the transform\<close>

record dtls_sha256_ctx =
  sha_state :: "u32 list"
  sha_bitcount :: u64
  sha_buffer :: bytes

definition dtls_sha256_init :: dtls_sha256_ctx where
  "dtls_sha256_init = \<lparr>sha_state = sha256_initial_hash_value, sha_bitcount = 0,
     sha_buffer = replicate 64 0\<rparr>"

text \<open>The registers \<open>a\<close> to \<open>h\<close>; one round assigns them all.\<close>

type_synonym regs = "u32 \<times> u32 \<times> u32 \<times> u32 \<times> u32 \<times> u32 \<times> u32 \<times> u32"

fun sha256_round :: "u32 \<Rightarrow> u32 \<Rightarrow> regs \<Rightarrow> regs" where
  "sha256_round k w (a, b, c, d, e, f, g, h) =
     (let T1 = h + Sigma1_256 e + Ch e f g + k + w;
          T2 = Sigma0_256 a + Maj a b c
      in (T1 + T2, a, b, c, d + T1, e, f, g))"

text \<open>The two loops of the transform. \<open>data\<close> is the block of 64 bytes that is read; it may be the
  buffer of the context itself, which also holds \<open>W256\<close>: step \<open>j\<close> reads word \<open>j\<close> before it
  writes word \<open>j\<close>, so every word is read unmodified.\<close>

definition sha256_step_lo :: "bytes \<Rightarrow> nat \<Rightarrow> u32 list \<times> regs \<Rightarrow> u32 list \<times> regs" where
  "sha256_step_lo data j = (\<lambda>(W256, r).
     let W256 = W256[j := REVERSE32 (le_word32 (drop (4 * j) data))]
     in (W256, sha256_round (K256 ! j) (W256 ! j) r))"

definition sha256_step_hi :: "nat \<Rightarrow> u32 list \<times> regs \<Rightarrow> u32 list \<times> regs" where
  "sha256_step_hi j = (\<lambda>(W256, r).
     let s0 = sigma0_256 (W256 ! ((j + 1) mod 16));
         s1 = sigma1_256 (W256 ! ((j + 14) mod 16));
         W256 = W256[j mod 16 := W256 ! (j mod 16) + (s1 + W256 ! ((j + 9) mod 16) + s0)]
     in (W256, sha256_round (K256 ! j) (W256 ! (j mod 16)) r))"

definition regs_of :: "u32 list \<Rightarrow> regs" where
  "regs_of s = (s ! 0, s ! 1, s ! 2, s ! 3, s ! 4, s ! 5, s ! 6, s ! 7)"

fun add_regs :: "u32 list \<Rightarrow> regs \<Rightarrow> u32 list" where
  "add_regs s (a, b, c, d, e, f, g, h) =
     [s ! 0 + a, s ! 1 + b, s ! 2 + c, s ! 3 + d, s ! 4 + e, s ! 5 + f, s ! 6 + g, s ! 7 + h]"

definition words_of :: "bytes \<Rightarrow> u32 list" where
  "words_of b = map (\<lambda>i. le_word32 (drop (4 * i) b)) [0..<16]"

definition dtls_sha256_transform :: "dtls_sha256_ctx \<Rightarrow> bytes \<Rightarrow> dtls_sha256_ctx" where
  "dtls_sha256_transform context data =
     (let (W, r) = fold sha256_step_hi [16..<64]
                     (fold (sha256_step_lo data) [0..<16]
                        (words_of (sha_buffer context), regs_of (sha_state context)))
      in context\<lparr>sha_state := add_regs (sha_state context) r,
                 sha_buffer := concat (map le_bytes32 W)\<rparr>)"

subsection \<open>Update and finalization\<close>

text \<open>\<open>put\<close> is \<open>memcpy\<close> into the buffer of the context.\<close>

definition put :: "nat \<Rightarrow> bytes \<Rightarrow> bytes \<Rightarrow> bytes" where
  "put i src buf = take i buf @ src @ drop (i + length src) buf"

function sha256_blocks :: "dtls_sha256_ctx \<Rightarrow> bytes \<Rightarrow> dtls_sha256_ctx \<times> bytes" where
  "sha256_blocks context data =
     (if 64 \<le> length data then
        (let context = dtls_sha256_transform context (take 64 data)
         in sha256_blocks (context\<lparr>sha_bitcount := sha_bitcount context + push_bit 3 64\<rparr>)
              (drop 64 data))
      else (context, data))"
  by pat_completeness auto
termination by (relation "measure (\<lambda>(c, d). length d)") auto

declare sha256_blocks.simps [simp del]

definition usedspace :: "dtls_sha256_ctx \<Rightarrow> nat" where
  "usedspace context = unat (drop_bit 3 (sha_bitcount context)) mod 64"

definition sha256_update_tail :: "dtls_sha256_ctx \<Rightarrow> bytes \<Rightarrow> dtls_sha256_ctx" where
  "sha256_update_tail context data =
     (let (context, data) = sha256_blocks context data
      in if data \<noteq> []
         then context\<lparr>sha_buffer := put 0 data (sha_buffer context),
                sha_bitcount := sha_bitcount context + push_bit 3 (of_nat (length data))\<rparr>
         else context)"

definition dtls_sha256_update :: "dtls_sha256_ctx \<Rightarrow> bytes \<Rightarrow> dtls_sha256_ctx" where
  "dtls_sha256_update context data =
     (if data = [] then context
      else if usedspace context > 0 then
        (let used = usedspace context; freespace = 64 - used
         in if length data \<ge> freespace
            then (let context = context\<lparr>sha_buffer := put used (take freespace data) (sha_buffer context),
                        sha_bitcount := sha_bitcount context + push_bit 3 (of_nat freespace)\<rparr>
                  in sha256_update_tail (dtls_sha256_transform context (sha_buffer context))
                       (drop freespace data))
            else context\<lparr>sha_buffer := put used data (sha_buffer context),
                   sha_bitcount := sha_bitcount context + push_bit 3 (of_nat (length data))\<rparr>)
      else sha256_update_tail context data)"

definition dtls_sha256_final :: "dtls_sha256_ctx \<Rightarrow> bytes" where
  "dtls_sha256_final context =
     (let used = usedspace context;
          context = context\<lparr>sha_bitcount := REVERSE64 (sha_bitcount context)\<rparr>;
          context =
            (if used > 0 then
               (let context = context\<lparr>sha_buffer := (sha_buffer context)[used := 0x80]\<rparr>;
                    used = used + 1
                in if used \<le> 56
                   then context\<lparr>sha_buffer := put used (replicate (56 - used) 0) (sha_buffer context)\<rparr>
                   else (let context =
                           (if used < 64
                            then context\<lparr>sha_buffer :=
                                   put used (replicate (64 - used) 0) (sha_buffer context)\<rparr>
                            else context);
                           context = dtls_sha256_transform context (sha_buffer context)
                         in context\<lparr>sha_buffer := put 0 (replicate 56 0) (sha_buffer context)\<rparr>))
             else context\<lparr>sha_buffer := (put 0 (replicate 56 0) (sha_buffer context))[0 := 0x80]\<rparr>);
          context = context\<lparr>sha_buffer := put 56 (le_bytes64 (sha_bitcount context)) (sha_buffer context)\<rparr>;
          context = dtls_sha256_transform context (sha_buffer context)
      in concat (map (\<lambda>w. le_bytes32 (REVERSE32 w)) (sha_state context)))"

subsection \<open>The reference definition (FIPS 180-4)\<close>

fun sched :: "(nat \<Rightarrow> u32) \<Rightarrow> nat \<Rightarrow> u32" where
  "sched M t =
     (if t < 16 then M t
      else sigma1_256 (sched M (t - 2)) + sched M (t - 7) + sigma0_256 (sched M (t - 15)) +
        sched M (t - 16))"

declare sched.simps [simp del]

definition block_word :: "bytes \<Rightarrow> nat \<Rightarrow> u32" where
  "block_word blk t = word_of_nat (be_nat (take 4 (drop (4 * t) blk)))"

definition compress :: "bytes \<Rightarrow> u32 list \<Rightarrow> u32 list" where
  "compress blk s =
     add_regs s (fold (\<lambda>t. sha256_round (K256 ! t) (sched (block_word blk) t)) [0..<64] (regs_of s))"

function blocks :: "bytes \<Rightarrow> bytes list" where
  "blocks m = (if length m < 64 then [] else take 64 m # blocks (drop 64 m))"
  by pat_completeness auto
termination by (relation "measure length") auto

declare blocks.simps [simp del]

definition sha256_pad :: "bytes \<Rightarrow> bytes" where
  "sha256_pad m = m @ 0x80 # replicate ((119 - length m mod 64) mod 64) 0 @ be_bytes 8 (8 * length m)"

definition SHA256 :: "bytes \<Rightarrow> bytes" where
  "SHA256 m = concat (map (\<lambda>w. be_bytes 4 (unat w))
     (fold compress (blocks (sha256_pad m)) sha256_initial_hash_value))"

subsection \<open>Byte reversal\<close>


lemma masks32: "(0xff00ff00 :: u32) = push_bit 8 (mask 8) OR push_bit 24 (mask 8)"
  "(0x00ff00ff :: u32) = mask 8 OR push_bit 16 (mask 8)"
  by (simp_all add: mask_eq_exp_minus_1 push_bit_eq_mult)

lemma masks64:
  "(0xff00ff00ff00ff00 :: u64) =
     push_bit 8 (mask 8) OR push_bit 24 (mask 8) OR push_bit 40 (mask 8) OR push_bit 56 (mask 8)"
  "(0x00ff00ff00ff00ff :: u64) =
     mask 8 OR push_bit 16 (mask 8) OR push_bit 32 (mask 8) OR push_bit 48 (mask 8)"
  "(0xffff0000ffff0000 :: u64) = push_bit 16 (mask 16) OR push_bit 48 (mask 16)"
  "(0x0000ffff0000ffff :: u64) = mask 16 OR push_bit 32 (mask 16)"
  by (simp_all add: mask_eq_exp_minus_1 push_bit_eq_mult)

lemma REVERSE64_byte:
  "i < 8 \<Longrightarrow> (ucast (drop_bit (8 * i) (REVERSE64 w)) :: u8) = ucast (drop_bit (56 - 8 * i) w)"
proof -
  assume "i < 8"
  then consider "i = 0" | "i = 1" | "i = 2" | "i = 3" | "i = 4" | "i = 5" | "i = 6" | "i = 7"
    by linarith
  then show ?thesis
    unfolding REVERSE64_def masks64 Let_def
    by cases (rule bit_word_eqI, auto simp add: bit_simps no_bit less_diff_conv2)+
qed

lemma REVERSE32_byte:
  "i < 4 \<Longrightarrow> (ucast (drop_bit (8 * i) (REVERSE32 w)) :: u8) = ucast (drop_bit (24 - 8 * i) w)"
proof -
  assume "i < 4"
  then consider "i = 0" | "i = 1" | "i = 2" | "i = 3" by linarith
  then show ?thesis
    unfolding REVERSE32_def masks32 Let_def
    by cases (rule bit_word_eqI, auto simp add: bit_simps no_bit less_diff_conv2)+
qed

lemma REVERSE32_bytes:
  "REVERSE32 (ucast a OR push_bit 8 (ucast b) OR push_bit 16 (ucast c) OR push_bit 24 (ucast d)) =
   push_bit 24 (ucast (a :: u8)) OR push_bit 16 (ucast (b :: u8)) OR push_bit 8 (ucast (c :: u8)) OR
   ucast (d :: u8)"
  unfolding REVERSE32_def masks32 Let_def
proof (rule bit_word_eqI, goal_cases)
  case (1 n)
  then have "n < 32" by simp
  then consider "n < 8" | "8 \<le> n \<and> n < 16" | "16 \<le> n \<and> n < 24" | "24 \<le> n \<and> n < 32"
    by linarith
  then show ?case
    by cases (auto simp add: bit_simps no_bit less_diff_conv2)
qed

lemma REVERSE32_le_word32:
  assumes "4 \<le> length b"
  shows "REVERSE32 (le_word32 b) = word_of_nat (be_nat (take 4 b))"
proof -
  obtain b0 b1 b2 b3 t where b: "b = b0 # b1 # b2 # b3 # t"
    using assms by (auto simp: numeral_eq_Suc Suc_le_length_iff)
  have "take 4 b = [b0, b1, b2, b3]" by (simp add: b)
  then show ?thesis
    unfolding le_word32_def be_nat_word32 [of b0 b1 b2 b3, folded \<open>take 4 b = [b0, b1, b2, b3]\<close>]
    using REVERSE32_bytes [of b0 b1 b2 b3] by (simp add: b)
qed

lemma le_bytes32_REVERSE32: "le_bytes32 (REVERSE32 w) = be_bytes 4 (unat w)"
  using REVERSE32_byte [of 0 w] REVERSE32_byte [of 1 w] REVERSE32_byte [of 2 w]
    REVERSE32_byte [of 3 w]
  by (simp add: le_bytes32_def be_bytes_4 be_bytes_3 drop_byte [of 8] drop_byte [of 16]
      drop_byte [of 24])

lemma le_bytes64_REVERSE64: "le_bytes64 (REVERSE64 w) = be_bytes 8 (unat w)"
proof -
  have "le_bytes64 (REVERSE64 w) = map (\<lambda>i. ucast (drop_bit (56 - 8 * i) w)) [0..<8]"
    unfolding le_bytes64_def by (rule map_cong) (simp_all add: REVERSE64_byte)
  also have "\<dots> = be_bytes 8 (unat w)"
    unfolding drop_byte
    by (simp add: be_bytes_8 be_bytes_6 be_bytes_4 be_bytes_3 upt_rec)
  finally show ?thesis .
qed

end
