(* ===== verification/Sha256_Correct.thy ===== *)
theory Sha256_Correct
  imports Sha256
begin

text \<open>
  Correctness of the SHA-256 implementation: the ring of sixteen schedule words computes the
  message schedule of the standard, the buffering of \<open>dtls_sha256_update\<close> is invisible, and the
  finalization pads as the standard says.
\<close>

subsection \<open>The transform\<close>

lemma step_lo_loop:
  assumes "n \<le> 16" and "length W = 16" and "64 \<le> length data"
  shows "case fold (sha256_step_lo data) [0..<n] (W, r) of (W', r') \<Rightarrow>
    length W' = 16 \<and> (\<forall>k<n. W' ! k = block_word data k) \<and>
    r' = fold (\<lambda>t. sha256_round (K256 ! t) (sched (block_word data) t)) [0..<n] r"
  using assms
proof (induction n)
  case 0
  then show ?case by simp
next
  case (Suc n)
  obtain W' r' where f: "fold (sha256_step_lo data) [0..<n] (W, r) = (W', r')" by (rule prod.exhaust)
  have "REVERSE32 (le_word32 (drop (4 * n) data)) = block_word data n"
    using Suc.prems by (simp add: REVERSE32_le_word32 block_word_def)
  moreover have "sched (block_word data) n = block_word data n"
    using Suc.prems by (simp add: sched.simps)
  ultimately show ?case
    using Suc f by (auto simp: sha256_step_lo_def nth_list_update less_Suc_eq)
qed

lemma step_hi_loop:
  assumes "length W = 16" and "\<forall>k<16. W ! k = block_word data k"
    and "r = fold (\<lambda>t. sha256_round (K256 ! t) (sched (block_word data) t)) [0..<16] r0"
  shows "case fold sha256_step_hi [16..<16 + n] (W, r) of (W', r') \<Rightarrow>
    length W' = 16 \<and> (\<forall>k. n \<le> k \<longrightarrow> k < n + 16 \<longrightarrow> W' ! (k mod 16) = sched (block_word data) k) \<and>
    r' = fold (\<lambda>t. sha256_round (K256 ! t) (sched (block_word data) t)) [0..<16 + n] r0"
proof (induction n)
  case 0
  then show ?case using assms by (auto simp: sched.simps)
next
  case (Suc n)
  let ?s = "sched (block_word data)"
  obtain W' r' where f: "fold sha256_step_hi [16..<16 + n] (W, r) = (W', r')" by (rule prod.exhaust)
  have len: "length W' = 16"
    and sc: "\<And>k. n \<le> k \<Longrightarrow> k < n + 16 \<Longrightarrow> W' ! (k mod 16) = ?s k"
    and rr: "r' = fold (\<lambda>t. sha256_round (K256 ! t) (?s t)) [0..<16 + n] r0"
    using Suc f by auto
  have m: "(16 + n + 1) mod 16 = (n + 1) mod 16" "(16 + n + 14) mod 16 = (n + 14) mod 16"
    "(16 + n + 9) mod 16 = (n + 9) mod 16" "(16 + n) mod 16 = n mod 16"
    using mod_add_self1 [of 16 "n + 1"] mod_add_self1 [of 16 "n + 14"]
      mod_add_self1 [of 16 "n + 9"] mod_add_self1 [of 16 n]
    by (simp_all only: add.assoc)
  have new: "W' ! (n mod 16) + (sigma1_256 (W' ! ((n + 14) mod 16)) + W' ! ((n + 9) mod 16) +
      sigma0_256 (W' ! ((n + 1) mod 16))) = ?s (16 + n)"
    using sc [of n] sc [of "n + 14"] sc [of "n + 9"] sc [of "n + 1"]
    by (subst sched.simps) (simp add: add.commute add.left_commute)
  let ?W = "W'[n mod 16 := ?s (16 + n)]"
  have st: "sha256_step_hi (16 + n) (W', r') =
      (?W, sha256_round (K256 ! (16 + n)) (?s (16 + n)) r')"
    using len by (simp only: sha256_step_hi_def m Let_def split new) simp
  have "?W ! (k mod 16) = ?s k" if k: "Suc n \<le> k" "k < Suc n + 16" for k
  proof (cases "k = n + 16")
    case True
    then show ?thesis using len by (simp add: add.commute)
  next
    case False
    then have "n < k" "k < n + 16" using k by auto
    then have "\<not> 16 dvd k - n" by (intro nat_dvd_not_less) auto
    then have "k mod 16 \<noteq> n mod 16" using \<open>n < k\<close> by (simp add: mod_eq_dvd_iff_nat)
    then show ?thesis using sc [of k] \<open>n < k\<close> \<open>k < n + 16\<close> by simp
  qed
  moreover have "[16..<16 + Suc n] = [16..<16 + n] @ [16 + n]"
    "[0..<16 + Suc n] = [0..<16 + n] @ [16 + n]"
    unfolding add_Suc_right by (rule upt_Suc_append, simp)+
  ultimately show ?case
    using f st len rr by (simp only: fold_append) (simp add: comp_def)
qed

lemma transform_state:
  assumes "64 \<le> length data" and "length (sha_buffer c) = 64"
  shows "sha_state (dtls_sha256_transform c data) = compress data (sha_state c)"
proof -
  let ?r0 = "regs_of (sha_state c)"
  obtain W r where lo: "fold (sha256_step_lo data) [0..<16] (words_of (sha_buffer c), ?r0) = (W, r)"
    by (rule prod.exhaust)
  have l: "length W = 16" "\<forall>k<16. W ! k = block_word data k"
    "r = fold (\<lambda>t. sha256_round (K256 ! t) (sched (block_word data) t)) [0..<16] ?r0"
    using step_lo_loop [of 16 "words_of (sha_buffer c)" data ?r0] assms(1) lo
    by (auto simp: words_of_def)
  obtain W' r' where hi: "fold sha256_step_hi [16..<64] (W, r) = (W', r')" by (rule prod.exhaust)
  have "r' = fold (\<lambda>t. sha256_round (K256 ! t) (sched (block_word data) t)) [0..<64] ?r0"
    using step_hi_loop [OF l, of 48] hi by simp
  then show ?thesis
    using lo hi by (simp add: dtls_sha256_transform_def compress_def)
qed

lemma transform_length:
  assumes "64 \<le> length data"
  shows "length (sha_buffer (dtls_sha256_transform c data)) = 64"
proof -
  let ?r0 = "regs_of (sha_state c)"
  obtain W r where lo: "fold (sha256_step_lo data) [0..<16] (words_of (sha_buffer c), ?r0) = (W, r)"
    by (rule prod.exhaust)
  have l: "length W = 16" "\<forall>k<16. W ! k = block_word data k"
    "r = fold (\<lambda>t. sha256_round (K256 ! t) (sched (block_word data) t)) [0..<16] ?r0"
    using step_lo_loop [of 16 "words_of (sha_buffer c)" data ?r0] assms lo
    by (auto simp: words_of_def)
  obtain W' r' where hi: "fold sha256_step_hi [16..<64] (W, r) = (W', r')" by (rule prod.exhaust)
  have "length W' = 16" using step_hi_loop [OF l, of 48] hi by simp
  then have "length (concat (map le_bytes32 W')) = 64"
    by (simp add: length_concat le_bytes32_def comp_def sum_list_triv)
  then show ?thesis using lo hi by (simp add: dtls_sha256_transform_def)
qed

lemma transform_bitcount [simp]:
  "sha_bitcount (dtls_sha256_transform c data) = sha_bitcount c"
  by (simp add: dtls_sha256_transform_def split: prod.split)

subsection \<open>Blocks\<close>

lemma blocks_append:
  "length a mod 64 = 0 \<Longrightarrow> blocks (a @ b) = blocks a @ blocks b"
proof (induction a rule: blocks.induct)
  case (1 a)
  show ?case
  proof (cases "length a < 64")
    case True
    then have "a = []" using 1(2) by simp
    then show ?thesis by (simp add: blocks.simps [of "[]"])
  next
    case False
    then have "length (drop 64 a) mod 64 = 0" using 1(2) by (simp add: le_mod_geq)
    then show ?thesis
      using 1(1) False by (simp add: blocks.simps [of "a @ b"] blocks.simps [of a])
  qed
qed

lemma blocks_short [simp]: "length m < 64 \<Longrightarrow> blocks m = []"
  by (simp add: blocks.simps [of m])

lemma blocks_one [simp]: "length m = 64 \<Longrightarrow> blocks m = [m]"
  by (simp add: blocks.simps [of m])

text \<open>The unprocessed rest of a message.\<close>

definition rest :: "bytes \<Rightarrow> bytes" where
  "rest m = drop (length m - length m mod 64) m"

lemma rest_append_whole: "length a mod 64 = 0 \<Longrightarrow> length b < 64 \<Longrightarrow> rest (a @ b) = b"
proof -
  assume a: "length a mod 64 = 0" "length b < 64"
  then have "(length a + length b) mod 64 = length b" by (metis add_0 mod_add_left_eq mod_less)
  then show ?thesis by (simp add: rest_def)
qed

lemma rest_cases:
  obtains a b where "m = a @ b" and "length a mod 64 = 0" and "length b = length m mod 64"
    and "rest m = b"
proof -
  let ?k = "length m - length m mod 64"
  have k: "?k \<le> length m" "?k mod 64 = 0" by (simp_all add: minus_mod_eq_mult_div)
  have "length m - ?k = length m mod 64" using mod_less_eq_dividend [of "length m" 64] by linarith
  then show ?thesis
    using k by (intro that [of "take ?k m" "drop ?k m"]) (simp_all add: rest_def min_absorb2)
qed

lemma length_rest: "length (rest m) = length m mod 64"
  by (rule rest_cases [of m]) simp

lemma blocks_rest: "blocks (m @ d) = blocks m @ blocks (rest m @ d)"
proof (rule rest_cases [of m])
  fix a b
  assume m: "m = a @ b" "length a mod 64 = 0" "length b = length m mod 64" "rest m = b"
  have "length b < 64" using m(3) by simp
  then have "blocks m = blocks a" using blocks_append [OF m(2), of b] m(1) by simp
  moreover have "blocks (a @ b @ d) = blocks a @ blocks (b @ d)" using m(2) by (rule blocks_append)
  ultimately show ?thesis using m(1,4) by simp
qed

lemma rest_shift: "length a mod 64 = 0 \<Longrightarrow> rest (a @ x) = rest x"
proof -
  assume a: "length a mod 64 = 0"
  then have l: "(length a + length x) mod 64 = length x mod 64" by (metis add_0 mod_add_left_eq)
  have le: "length x mod 64 \<le> length x" by simp
  have "length a + length x - length x mod 64 = length a + (length x - length x mod 64)"
    using le by linarith
  then show ?thesis by (simp add: rest_def l)
qed

lemma rest_append: "rest (m @ d) = rest (rest m @ d)"
proof (rule rest_cases [of m])
  fix a b
  assume m: "m = a @ b" "length a mod 64 = 0" "length b = length m mod 64" "rest m = b"
  have "rest (a @ b @ d) = rest (b @ d)" using m(2) by (rule rest_shift)
  then show ?thesis using m(1,4) by simp
qed

lemma rest_short [simp]: "length m < 64 \<Longrightarrow> rest m = m"
  by (simp add: rest_def)

lemma rest_whole [simp]: "length m mod 64 = 0 \<Longrightarrow> rest m = []"
  by (simp add: rest_def)

subsection \<open>The context represents the message absorbed so far\<close>

definition sha_repr :: "dtls_sha256_ctx \<Rightarrow> bytes \<Rightarrow> bool" where
  "sha_repr c m \<longleftrightarrow>
     length (sha_buffer c) = 64 \<and> sha_bitcount c = of_nat (8 * length m) \<and>
     sha_state c = fold compress (blocks m) sha256_initial_hash_value \<and>
     take (length m mod 64) (sha_buffer c) = rest m"

lemma repr_init: "sha_repr dtls_sha256_init []"
  by (simp add: sha_repr_def dtls_sha256_init_def)

lemma usedspace_repr: "sha_repr c m \<Longrightarrow> usedspace c = length m mod 64"
proof -
  assume "sha_repr c m"
  then have "unat (sha_bitcount c) = (8 * length m) mod 2 ^ 64"
    by (simp add: sha_repr_def unsigned_of_nat take_bit_eq_mod del: of_nat_mult)
  then have "unat (drop_bit 3 (sha_bitcount c)) = (8 * length m) mod (8 * 2 ^ 61) div 8"
    unfolding unat_drop_bit_eq by (simp add: drop_bit_eq_div)
  also have "\<dots> = length m mod 2 ^ 61"
  proof -
    have "8 * x mod (8 * k) div 8 = x mod k" for x k :: nat
      by (simp only: mod_mult_mult1 nonzero_mult_div_cancel_left)
    then show ?thesis .
  qed
  finally have "usedspace c = length m mod 2 ^ 61 mod 64" by (simp add: usedspace_def)
  moreover have "(64 :: nat) dvd 2 ^ 61" by simp
  ultimately show ?thesis by (simp add: mod_mod_cancel)
qed

lemma put_length: "i + length src \<le> length buf \<Longrightarrow> length (put i src buf) = length buf"
  by (simp add: put_def)

lemma repr_block:
  assumes c: "sha_repr c m" and b: "length (rest m @ blk) = 64"
    and buf: "length (sha_buffer c') = 64"
    and st: "sha_state c' = sha_state c"
  shows "sha_state (dtls_sha256_transform c' (rest m @ blk)) =
      fold compress (blocks (m @ blk)) sha256_initial_hash_value"
    and "length (m @ blk) mod 64 = 0"
proof -
  have "blocks (m @ blk) = blocks m @ [rest m @ blk]" using blocks_rest [of m blk] b by simp
  then show "sha_state (dtls_sha256_transform c' (rest m @ blk)) =
      fold compress (blocks (m @ blk)) sha256_initial_hash_value"
    using transform_state [of "rest m @ blk" c'] b buf st c by (simp add: sha_repr_def)
  have "length blk = 64 - length m mod 64" using b by (simp add: length_rest)
  then have "length m + length blk = (length m - length m mod 64) + 64"
    using mod_less_divisor [of 64 "length m"] mod_less_eq_dividend [of "length m" 64]
    by linarith
  then show "length (m @ blk) mod 64 = 0" by (simp add: minus_mod_eq_mult_div)
qed

lemma repr_blocks:
  "sha_repr c m \<Longrightarrow> length m mod 64 = 0 \<Longrightarrow> sha256_blocks c d = (c', d') \<Longrightarrow>
   \<exists>a. d = a @ d' \<and> sha_repr c' (m @ a) \<and> length (m @ a) mod 64 = 0 \<and> length d' < 64"
proof (induction c d arbitrary: m rule: sha256_blocks.induct)
  case (1 c d)
  show ?case
  proof (cases "64 \<le> length d")
    case False
    then have "c' = c" "d' = d" using 1(4) by (simp_all add: sha256_blocks.simps [of c d])
    then show ?thesis using 1(2,3) False by simp
  next
    case True
    let ?c = "dtls_sha256_transform c (take 64 d)"
    let ?c1 = "?c\<lparr>sha_bitcount := sha_bitcount ?c + push_bit 3 64\<rparr>"
    have r: "rest m @ take 64 d = take 64 d" "length (take 64 d) = 64"
      using 1(3) True by simp_all
    have c: "length (sha_buffer c) = 64" using 1(2) by (simp add: sha_repr_def)
    have st: "sha_state ?c = fold compress (blocks (m @ take 64 d)) sha256_initial_hash_value"
      and l: "length (m @ take 64 d) mod 64 = 0"
      using repr_block [OF 1(2), of "take 64 d" c] r c by simp_all
    have "sha_bitcount ?c + push_bit 3 64 = of_nat (8 * length (m @ take 64 d))"
      using 1(2) r(2) by (simp add: sha_repr_def push_bit_eq_mult algebra_simps)
    then have "sha_repr ?c1 (m @ take 64 d)"
      using st l transform_length [of "take 64 d" c] r(2) by (simp add: sha_repr_def)
    moreover have "sha256_blocks ?c1 (drop 64 d) = (c', d')"
      using 1(4) True by (simp add: sha256_blocks.simps [of c d])
    ultimately obtain a where a: "drop 64 d = a @ d'" "sha_repr c' ((m @ take 64 d) @ a)"
      "length ((m @ take 64 d) @ a) mod 64 = 0" "length d' < 64"
      using 1(1) [OF True refl, of "m @ take 64 d"] l by auto
    then have "d = (take 64 d @ a) @ d'" using append_take_drop_id [of 64 d] by simp
    with a show ?thesis by (intro exI [of _ "take 64 d @ a"]) simp
  qed
qed

lemma repr_store:
  assumes c: "sha_repr c m" and m: "length m mod 64 = 0" and d: "length d < 64"
  shows "sha_repr (c\<lparr>sha_buffer := put 0 d (sha_buffer c),
      sha_bitcount := sha_bitcount c + push_bit 3 (of_nat (length d))\<rparr>) (m @ d)"
proof -
  have r: "rest (m @ d) = d" using rest_append_whole [OF m d] .
  have b: "blocks (m @ d) = blocks m" using blocks_append [OF m, of d] d by simp
  have l: "length (m @ d) mod 64 = length d" using length_rest [of "m @ d"] r by simp
  have "sha_bitcount c + push_bit 3 (of_nat (length d)) = of_nat (8 * length (m @ d))"
    using c by (simp add: sha_repr_def push_bit_eq_mult algebra_simps)
  moreover have "length (put 0 d (sha_buffer c)) = 64"
    using c d by (simp add: sha_repr_def put_def)
  moreover have "take (length d) (put 0 d (sha_buffer c)) = d" by (simp add: put_def)
  ultimately show ?thesis
    using c unfolding sha_repr_def l r b by simp
qed

lemma repr_tail:
  assumes "sha_repr c m" and "length m mod 64 = 0"
  shows "sha_repr (sha256_update_tail c d) (m @ d)"
proof -
  obtain c' d' where s: "sha256_blocks c d = (c', d')" by (rule prod.exhaust)
  obtain a where a: "d = a @ d'" "sha_repr c' (m @ a)" "length (m @ a) mod 64 = 0" "length d' < 64"
    using repr_blocks [OF assms s] by (elim exE conjE) (rule that)
  show ?thesis
  proof (cases "d' = []")
    case True
    then show ?thesis using a(1,2) s by (simp add: sha256_update_tail_def)
  next
    case False
    then show ?thesis
      using a(1) repr_store [OF a(2,3,4)] s by (simp add: sha256_update_tail_def)
  qed
qed

lemma repr_update:
  assumes c: "sha_repr c m"
  shows "sha_repr (dtls_sha256_update c d) (m @ d)"
proof -
  let ?u = "length m mod 64"
  have buf: "length (sha_buffer c) = 64" "take ?u (sha_buffer c) = rest m" "?u < 64"
    using c by (simp_all add: sha_repr_def)
  consider "d = []" | "d \<noteq> []" "?u = 0" | "d \<noteq> []" "0 < ?u" "length d < 64 - ?u"
    | "d \<noteq> []" "0 < ?u" "64 - ?u \<le> length d" by linarith
  then show ?thesis
  proof cases
    case 1
    then show ?thesis using c by (simp add: dtls_sha256_update_def)
  next
    case 2
    then show ?thesis
      using repr_tail [OF c] usedspace_repr [OF c] by (simp add: dtls_sha256_update_def)
  next
    case 3
    then have s: "length (rest m @ d) < 64" by (simp add: length_rest)
    have r: "rest (m @ d) = rest m @ d" "blocks (m @ d) = blocks m"
      using rest_append [of m d] blocks_rest [of m d] s by simp_all
    have l: "length (m @ d) mod 64 = ?u + length d"
      using length_rest [of "m @ d"] r(1) by (simp add: length_rest)
    have "sha_bitcount c + push_bit 3 (of_nat (length d)) = of_nat (8 * length (m @ d))"
      using c by (simp add: sha_repr_def push_bit_eq_mult algebra_simps)
    then show ?thesis
      using 3 c r l buf usedspace_repr [OF c] length_rest [of m]
      by (simp add: dtls_sha256_update_def sha_repr_def put_def min_def)
  next
    case 4
    let ?f = "64 - ?u"
    let ?blk = "take ?f d"
    let ?c = "c\<lparr>sha_buffer := put ?u ?blk (sha_buffer c),
        sha_bitcount := sha_bitcount c + push_bit 3 (of_nat ?f)\<rparr>"
    have lb: "length ?blk = ?f" using 4 by simp
    have pb: "put ?u ?blk (sha_buffer c) = rest m @ ?blk"
      using buf lb by (simp add: put_def)
    have l64: "length (rest m @ ?blk) = 64" using lb buf(3) by (simp add: length_rest)
    let ?t = "dtls_sha256_transform ?c (sha_buffer ?c)"
    have st: "sha_state ?t = fold compress (blocks (m @ ?blk)) sha256_initial_hash_value"
      and lm: "length (m @ ?blk) mod 64 = 0"
      using repr_block [OF c l64, of ?c] pb l64 by simp_all
    have "sha_bitcount ?t = of_nat (8 * length (m @ ?blk))"
      using c lb by (simp add: sha_repr_def push_bit_eq_mult algebra_simps)
    moreover have "length (sha_buffer ?t) = 64"
      using transform_length [of "sha_buffer ?c" ?c] pb l64 by simp
    ultimately have "sha_repr ?t (m @ ?blk)" using st lm by (simp add: sha_repr_def)
    then have "sha_repr (sha256_update_tail ?t (drop ?f d)) ((m @ ?blk) @ drop ?f d)"
      using lm by (rule repr_tail)
    moreover have "dtls_sha256_update c d = sha256_update_tail ?t (drop ?f d)"
      using 4 usedspace_repr [OF c] by (simp add: dtls_sha256_update_def Let_def)
    ultimately show ?thesis by simp
  qed
qed

subsection \<open>Finalization\<close>

lemma length_bytes_of_bitcount:
  "sha_repr c m \<Longrightarrow> le_bytes64 (REVERSE64 (sha_bitcount c)) = be_bytes 8 (8 * length m)"
proof -
  assume "sha_repr c m"
  then have "unat (sha_bitcount c) = (8 * length m) mod 256 ^ 8"
    by (simp add: sha_repr_def unsigned_of_nat take_bit_eq_mod del: of_nat_mult)
  then show ?thesis by (simp only: le_bytes64_REVERSE64 be_bytes_mod)
qed

lemma pad_blocks:
  "blocks (sha256_pad m) = blocks m @ blocks (rest m @ 0x80 #
     replicate ((119 - length m mod 64) mod 64) 0 @ be_bytes 8 (8 * length m))"
  unfolding sha256_pad_def by (rule blocks_rest)

lemma blocks_two: "length a = 64 \<Longrightarrow> length b = 64 \<Longrightarrow> blocks (a @ b) = [a, b]"
  using blocks_append [of a b] by simp

text \<open>What the three ways to prepare the last block leave in the buffer.\<close>

lemma put_last_block:
  assumes "length r < 56" and "length buf = 64" and "take (length r) buf = r" and "length L = 8"
  shows "put 56 L (put (length r + 1) (replicate (55 - length r) 0) (buf[length r := 0x80])) =
    r @ 0x80 # replicate (55 - length r) 0 @ L"
proof -
  have "buf = r @ buf ! length r # drop (Suc (length r)) buf"
    using id_take_nth_drop [of "length r" buf] assms by simp
  then obtain x t where b: "buf = r @ x # t" by blast
  have "56 - length r = Suc (55 - length r)" using assms(1) by simp
  then show ?thesis using assms b by (simp add: put_def)
qed

lemma put_full_block:
  assumes "56 \<le> length r" and "length r < 64" and "length buf = 64" and "take (length r) buf = r"
  shows "(if length r + 1 < 64
          then put (length r + 1) (replicate (64 - (length r + 1)) 0) (buf[length r := 0x80])
          else buf[length r := 0x80]) = r @ 0x80 # replicate (63 - length r) 0"
proof -
  have "buf = r @ buf ! length r # drop (Suc (length r)) buf"
    using id_take_nth_drop [of "length r" buf] assms by simp
  then obtain x t where b: "buf = r @ x # t" by blast
  have e: "buf[length r := 0x80] = r @ 0x80 # t" by (simp add: b)
  have "length t = 63 - length r" using assms(2,3) by (simp add: b)
  then show ?thesis unfolding e using assms(1,2) by (cases t) (auto simp: put_def)
qed

lemma put_empty_block:
  assumes "length buf = 64" and "length L = 8"
  shows "put 56 L ((put 0 (replicate 56 0) buf)[0 := 0x80]) = 0x80 # replicate 55 0 @ L"
    and "put 56 L (put 0 (replicate 56 0) buf) = replicate 56 0 @ L"
  using assms by (simp_all add: put_def numeral_eq_Suc)

lemma final_two_blocks:
  assumes "usedspace c = u" and "56 \<le> u"
    and B: "B = (if u + 1 < 64
      then put (u + 1) (replicate (64 - (u + 1)) 0) ((sha_buffer c)[u := 0x80])
      else (sha_buffer c)[u := 0x80])"
    and c1: "c1 = dtls_sha256_transform
      (c\<lparr>sha_bitcount := REVERSE64 (sha_bitcount c), sha_buffer := B\<rparr>) B"
    and C: "C = put 56 (le_bytes64 (REVERSE64 (sha_bitcount c)))
      (put 0 (replicate 56 0) (sha_buffer c1))"
  shows "dtls_sha256_final c = concat (map (\<lambda>w. le_bytes32 (REVERSE32 w))
    (sha_state (dtls_sha256_transform (c1\<lparr>sha_buffer := C\<rparr>) C)))"
  using assms(1,2) unfolding C c1 B dtls_sha256_final_def Let_def
  by (cases "u + 1 < 64") simp_all

lemma repr_final:
  assumes c: "sha_repr c m"
  shows "dtls_sha256_final c = SHA256 m"
proof -
  let ?u = "length m mod 64" and ?L = "be_bytes 8 (8 * length m)" and ?r = "rest m"
  let ?d = "\<lambda>s. concat (map (\<lambda>w. le_bytes32 (REVERSE32 w)) s)"
  have buf: "length (sha_buffer c) = 64" "take (length ?r) (sha_buffer c) = ?r"
    "length ?r = ?u" "?u < 64"
    using c by (simp_all add: sha_repr_def length_rest)
  have st: "sha_state c = fold compress (blocks m) sha256_initial_hash_value"
    using c by (simp add: sha_repr_def)
  have u: "usedspace c = length ?r" using usedspace_repr [OF c] buf by simp
  note L = length_bytes_of_bitcount [OF c]
  note fin = dtls_sha256_final_def Let_def
  let ?c0 = "c\<lparr>sha_bitcount := REVERSE64 (sha_bitcount c)\<rparr>"
  have out: "?d (fold compress (blocks (sha256_pad m)) sha256_initial_hash_value) = SHA256 m"
    by (simp add: SHA256_def le_bytes32_REVERSE32)
  consider "?u = 0" | "0 < ?u" "?u < 56" | "56 \<le> ?u" by linarith
  then show ?thesis
  proof cases
    case 1
    let ?B = "0x80 # replicate 55 0 @ ?L"
    have "blocks (sha256_pad m) = blocks m @ [?B]"
      using 1 by (simp add: pad_blocks)
    moreover have "dtls_sha256_final c = ?d (compress ?B (sha_state c))"
      using 1 u buf L put_empty_block(1) [of "sha_buffer c" ?L]
        transform_state [of ?B "?c0\<lparr>sha_buffer := ?B\<rparr>"]
      by (simp add: fin)
    ultimately show ?thesis using out st by simp
  next
    case 2
    let ?B = "?r @ 0x80 # replicate (55 - length ?r) 0 @ ?L"
    have z: "(119 - ?u) mod 64 = 55 - ?u"
      using 2 by (simp add: le_mod_geq)
    have len: "length ?B = 64" using 2 buf by simp
    have "blocks (sha256_pad m) = blocks m @ [?B]"
      using blocks_one [OF len] z buf(3) by (simp add: pad_blocks)
    moreover have "dtls_sha256_final c = ?d (compress ?B (sha_state c))"
      using 2 u buf L put_last_block [of ?r "sha_buffer c" ?L]
        transform_state [of ?B "?c0\<lparr>sha_buffer := ?B\<rparr>"] len
      by (simp add: fin)
    ultimately show ?thesis using out st by simp
  next
    case 3
    let ?B = "?r @ 0x80 # replicate (63 - length ?r) 0" and ?C = "replicate 56 0 @ ?L"
    have z: "(119 - ?u) mod 64 = 119 - ?u" using 3 buf(4) by simp
    have len: "length ?B = 64" using 3 buf by simp
    have s: "replicate (119 - ?u) (0 :: u8) = replicate (63 - ?u) 0 @ replicate 56 0"
      using 3 buf(4) by (simp flip: replicate_add)
    have "blocks (?B @ ?C) = [?B, ?C]" by (rule blocks_two) (use len in simp_all)
    then have "blocks (sha256_pad m) = blocks m @ [?B, ?C]"
      using z s buf(3) by (simp add: pad_blocks)
    moreover have "dtls_sha256_final c = ?d (compress ?C (compress ?B (sha_state c)))"
    proof -
      let ?c1 = "dtls_sha256_transform (?c0\<lparr>sha_buffer := ?B\<rparr>) ?B"
      have b1: "length (sha_buffer ?c1) = 64" using transform_length [of ?B] len by simp
      have s1: "sha_state ?c1 = compress ?B (sha_state c)"
        using transform_state [of ?B "?c0\<lparr>sha_buffer := ?B\<rparr>"] len by simp
      let ?c2 = "?c1\<lparr>sha_buffer := ?C\<rparr>"
      have "?C = put 56 (le_bytes64 (REVERSE64 (sha_bitcount c)))
          (put 0 (replicate 56 0) (sha_buffer ?c1))"
        using put_empty_block(2) [OF b1, of ?L] L by simp
      moreover have "?B = (if length ?r + 1 < 64
          then put (length ?r + 1) (replicate (64 - (length ?r + 1)) 0) ((sha_buffer c)[length ?r := 0x80])
          else (sha_buffer c)[length ?r := 0x80])"
        using put_full_block [of ?r "sha_buffer c"] 3 buf by simp
      ultimately have "dtls_sha256_final c = ?d (sha_state (dtls_sha256_transform ?c2 ?C))"
        using 3 buf(3) by (intro final_two_blocks [OF u]) simp_all
      then show ?thesis using transform_state [of ?C ?c2] s1 by simp
    qed
    ultimately show ?thesis using out st by simp
  qed
qed

lemma repr_updates: "sha_repr c m \<Longrightarrow> sha_repr (fold (\<lambda>d c. dtls_sha256_update c d) ds c) (m @ concat ds)"
proof (induction ds arbitrary: c m)
  case Nil
  then show ?case by simp
next
  case (Cons d ds)
  show ?case using Cons.IH [OF repr_update [OF Cons.prems, of d]] by simp
qed

lemma length_SHA256 [simp]: "length (SHA256 m) = 32"
proof -
  have "length (add_regs s r) = 8" for s r
    by (cases "(s, r)" rule: add_regs.cases) simp
  then have "length (fold compress bs s) = 8" if "length s = 8" for bs s
    using that by (induction bs arbitrary: s) (simp_all add: compress_def)
  then have "length (fold compress (blocks (sha256_pad m)) sha256_initial_hash_value) = 8"
    by (simp add: sha256_initial_hash_value_def)
  then show ?thesis by (simp add: SHA256_def length_concat comp_def sum_list_triv)
qed

text \<open>C25: However a message is cut into pieces (empty pieces and pieces that straddle block
  boundaries included), initializing a SHA-256 context, absorbing the pieces one by one and
  finalizing gives the FIPS 180-4 hash of the whole message: the sixteen-word schedule ring, the
  byte-swapping macros, the input buffering and the in-place padding of \<open>sha2.c\<close> are correct.\<close>

theorem sha256_incremental_correct:
  "dtls_sha256_final (fold (\<lambda>d c. dtls_sha256_update c d) ds dtls_sha256_init) = SHA256 (concat ds)"
  using repr_final [OF repr_updates [OF repr_init, of ds]] by simp

end
