(* ===== verification/Hmac.thy ===== *)
theory Hmac
  imports Sha256_Correct
begin

text \<open>
  The hash interface of \<open>dtls-hmac.h\<close>, the HMAC of \<open>dtls-hmac.c\<close> and its specification
  (FIPS 198). The locale \<open>incremental_hash\<close> is the contract both the hash and the HMAC offer to
  their clients: a context that represents the input absorbed so far, an update that extends it,
  and a finalization that returns a function of it. It is interpreted by SHA-256 and, for every
  key, by the HMAC built on it.
\<close>

locale incremental_hash =
  fixes repr :: "'c \<Rightarrow> bytes \<Rightarrow> bool" and init :: 'c and update :: "'c \<Rightarrow> bytes \<Rightarrow> 'c"
    and final :: "'c \<Rightarrow> bytes" and H :: "bytes \<Rightarrow> bytes" and dlen :: nat
  assumes repr_init: "repr init []"
    and repr_update: "repr c m \<Longrightarrow> repr (update c d) (m @ d)"
    and repr_final: "repr c m \<Longrightarrow> final c = H m"
    and digest_length: "length (H m) = dlen"
begin

lemma repr_pieces: "repr c m \<Longrightarrow> repr (fold (\<lambda>d c. update c d) ds c) (m @ concat ds)"
proof (induction ds arbitrary: c m)
  case Nil
  then show ?case by simp
next
  case (Cons d ds)
  show ?case using Cons.IH [OF repr_update [OF Cons.prems, of d]] by simp
qed

lemma digest_pieces: "final (fold (\<lambda>d c. update c d) ds init) = H (concat ds)"
  using repr_final [OF repr_pieces [OF repr_init, of ds]] by simp

lemma digest_one: "final (update init a) = H a"
  using digest_pieces [of "[a]"] by simp

lemma digest_two: "final (update (update init a) b) = H (a @ b)"
  using digest_pieces [of "[a, b]"] by simp

end

subsection \<open>The hash interface\<close>

definition sha256_wiped :: dtls_sha256_ctx where
  "sha256_wiped = \<lparr>sha_state = replicate 8 0, sha_bitcount = 0, sha_buffer = replicate 64 0\<rparr>"

definition dtls_hash_init :: dtls_sha256_ctx where
  "dtls_hash_init = dtls_sha256_init"

definition dtls_hash_update :: "dtls_sha256_ctx \<Rightarrow> bytes \<Rightarrow> dtls_sha256_ctx" where
  "dtls_hash_update ctx input = dtls_sha256_update ctx input"

text \<open>The finalization returns the digest, its length, and the context it has wiped.\<close>

definition dtls_hash_finalize :: "dtls_sha256_ctx \<Rightarrow> bytes \<times> nat \<times> dtls_sha256_ctx" where
  "dtls_hash_finalize ctx = (dtls_sha256_final ctx, 32, sha256_wiped)"

abbreviation digest :: "dtls_sha256_ctx \<Rightarrow> bytes" where
  "digest ctx \<equiv> fst (dtls_hash_finalize ctx)"

interpretation hash: incremental_hash sha_repr dtls_hash_init dtls_hash_update digest SHA256 32
  by unfold_locales
    (simp_all add: dtls_hash_init_def dtls_hash_update_def dtls_hash_finalize_def
      Sha256_Correct.repr_init Sha256_Correct.repr_update Sha256_Correct.repr_final)

subsection \<open>HMAC\<close>

record dtls_hmac_context_t =
  hmac_pad :: bytes
  hmac_data :: dtls_sha256_ctx

definition dtls_hmac_update :: "dtls_hmac_context_t \<Rightarrow> bytes \<Rightarrow> dtls_hmac_context_t" where
  "dtls_hmac_update ctx input = ctx\<lparr>hmac_data := dtls_hash_update (hmac_data ctx) input\<rparr>"

definition xor_all :: "u8 \<Rightarrow> bytes \<Rightarrow> bytes" where
  "xor_all x bs = map (\<lambda>b. b XOR x) bs"

definition dtls_hmac_init :: "bytes \<Rightarrow> dtls_hmac_context_t" where
  "dtls_hmac_init key =
     (let pad = replicate 64 0;
          pad = (if length key > 64
                 then put 0 (digest (dtls_hash_update dtls_hash_init key)) pad
                 else put 0 key pad);
          pad = xor_all 0x36 pad;
          ctx = dtls_hmac_update \<lparr>hmac_pad = pad, hmac_data = dtls_hash_init\<rparr> pad
      in ctx\<lparr>hmac_pad := xor_all 0x6A pad\<rparr>)"

text \<open>Storage for a context comes from \<open>malloc\<close>; \<open>ok\<close> says whether it succeeds.\<close>

definition dtls_hmac_new :: "bool \<Rightarrow> bytes \<Rightarrow> dtls_hmac_context_t option" where
  "dtls_hmac_new ok key = (if ok then Some (dtls_hmac_init key) else None)"

definition dtls_hmac_finalize :: "dtls_hmac_context_t \<Rightarrow> bytes \<times> nat \<times> dtls_hmac_context_t" where
  "dtls_hmac_finalize ctx =
     (let (buf, len, data) = dtls_hash_finalize (hmac_data ctx);
          data = dtls_hash_init;
          data = dtls_hash_update data (hmac_pad ctx);
          data = dtls_hash_update data (take len buf);
          (result, len, data) = dtls_hash_finalize data
      in (result, len, ctx\<lparr>hmac_data := data\<rparr>))"

abbreviation hmac_digest :: "dtls_hmac_context_t \<Rightarrow> bytes" where
  "hmac_digest ctx \<equiv> fst (dtls_hmac_finalize ctx)"

subsection \<open>Specification\<close>

definition hmac_key :: "bytes \<Rightarrow> bytes" where
  "hmac_key key = (let k = (if length key > 64 then SHA256 key else key)
                   in k @ replicate (64 - length k) 0)"

definition HMAC :: "bytes \<Rightarrow> bytes \<Rightarrow> bytes" where
  "HMAC key m = SHA256 (xor_all 0x5C (hmac_key key) @ SHA256 (xor_all 0x36 (hmac_key key) @ m))"

definition hmac_repr :: "bytes \<Rightarrow> dtls_hmac_context_t \<Rightarrow> bytes \<Rightarrow> bool" where
  "hmac_repr key ctx m \<longleftrightarrow>
     hmac_pad ctx = xor_all 0x5C (hmac_key key) \<and>
     sha_repr (hmac_data ctx) (xor_all 0x36 (hmac_key key) @ m)"

lemma xor_all_twice: "xor_all 0x6A (xor_all 0x36 bs) = xor_all 0x5C bs"
  by (simp add: xor_all_def comp_def xor.assoc)

lemma hmac_init_pad:
  "(if length key > 64 then put 0 (SHA256 key) (replicate 64 0) else put 0 key (replicate 64 0)) =
   hmac_key key"
  by (simp add: put_def hmac_key_def)

lemma hmac_repr_init: "hmac_repr key (dtls_hmac_init key) []"
  using hash.repr_update [OF hash.repr_init, of "xor_all 0x36 (hmac_key key)"]
  by (simp add: dtls_hmac_init_def Let_def hash.digest_one hmac_init_pad hmac_repr_def
      dtls_hmac_update_def xor_all_twice cong: if_cong)

interpretation hmac: incremental_hash "hmac_repr key" "dtls_hmac_init key" dtls_hmac_update
  hmac_digest "HMAC key" 32 for key
proof unfold_locales
  show "hmac_repr key (dtls_hmac_init key) []" by (rule hmac_repr_init)
  show "hmac_repr key c m \<Longrightarrow> hmac_repr key (dtls_hmac_update c d) (m @ d)" for c m d
    using hash.repr_update [of "hmac_data c" _ d]
    by (simp add: hmac_repr_def dtls_hmac_update_def flip: append_assoc)
  show "hmac_repr key c m \<Longrightarrow> hmac_digest c = HMAC key m" for c m
    using hash.repr_final [of "hmac_data c" "xor_all 0x36 (hmac_key key) @ m"] hash.digest_two
    by (simp add: hmac_repr_def dtls_hmac_finalize_def HMAC_def dtls_hash_finalize_def)
  show "length (HMAC key m) = 32" for m by (simp add: HMAC_def)
qed

text \<open>C26: The incremental HMAC of \<open>dtls-hmac.c\<close> (contexts fed piece by piece, keys longer than a
  block hashed first, the inner pad turned into the outer pad in place) computes the FIPS 198
  HMAC-SHA-256 of the concatenated pieces, and returns the digest length 32.\<close>

theorem hmac_incremental_correct:
  "fst (dtls_hmac_finalize (fold (\<lambda>d c. dtls_hmac_update c d) ds (dtls_hmac_init key))) =
     HMAC key (concat ds) \<and>
   fst (snd (dtls_hmac_finalize (fold (\<lambda>d c. dtls_hmac_update c d) ds (dtls_hmac_init key)))) = 32 \<and>
   length (HMAC key (concat ds)) = 32"
  using hmac.digest_pieces [of ds key] hmac.digest_length [of key]
  by (simp add: dtls_hmac_finalize_def dtls_hash_finalize_def)

end
