(* ===== verification/Crypto.thy ===== *)
theory Crypto
  imports Hmac Numeric
begin

text \<open>
  The key derivation and key handling of \<open>dtls-crypto.c\<close>: the pseudorandom function of TLS 1.2,
  the pre-master secret of a pre-shared key, the layout of the key block, the record MAC input,
  and the conversions between key octets and the little-endian word arrays of the elliptic-curve
  code. The specification of the PRF is the one of RFC 5246, section 5.
\<close>

subsection \<open>P_hash and PRF\<close>

text \<open>A seed is an optional buffer: the macro \<open>HMAC_UPDATE_SEED\<close> skips null pointers.\<close>

definition HMAC_UPDATE_SEED :: "bytes option \<Rightarrow> dtls_hmac_context_t \<Rightarrow> dtls_hmac_context_t" where
  "HMAC_UPDATE_SEED seed ctx = (case seed of None \<Rightarrow> ctx | Some s \<Rightarrow> dtls_hmac_update ctx s)"

definition update_seeds ::
  "bytes option \<Rightarrow> bytes option \<Rightarrow> bytes option \<Rightarrow> dtls_hmac_context_t \<Rightarrow> dtls_hmac_context_t" where
  "update_seeds label random1 random2 ctx =
     HMAC_UPDATE_SEED random2 (HMAC_UPDATE_SEED random1 (HMAC_UPDATE_SEED label ctx))"

text \<open>The loop of \<open>dtls_p_hash\<close>: \<open>out\<close> is what has been written to the buffer so far.\<close>

function p_hash_loop ::
  "bytes \<Rightarrow> bytes option \<Rightarrow> bytes option \<Rightarrow> bytes option \<Rightarrow> nat \<Rightarrow> bytes \<Rightarrow> nat \<Rightarrow> bytes \<Rightarrow>
   bytes \<times> nat \<times> bytes" where
  "p_hash_loop key label random1 random2 buflen A len out =
     (if len + 32 < buflen then
        (let hmac_p = update_seeds label random1 random2 (dtls_hmac_update (dtls_hmac_init key) A);
             (tmp, n, _) = dtls_hmac_finalize hmac_p;
             A' = hmac_digest (dtls_hmac_update (dtls_hmac_init key) A)
         in p_hash_loop key label random1 random2 buflen A' (len + n) (out @ take 32 tmp))
      else (A, len, out))"
  by pat_completeness auto
termination
  by (relation "measure (\<lambda>(key, label, r1, r2, buflen, A, len, out). buflen - len)")
    (auto simp: dtls_hmac_finalize_def dtls_hash_finalize_def)

declare p_hash_loop.simps [simp del]

text \<open>\<open>ok_a\<close> and \<open>ok_p\<close> say whether the two HMAC contexts can be allocated. The result is the
  return value and the contents of the result buffer, which was \<open>buf\<close> before.\<close>

definition dtls_p_hash ::
  "bool \<Rightarrow> bool \<Rightarrow> bytes \<Rightarrow> bytes option \<Rightarrow> bytes option \<Rightarrow> bytes option \<Rightarrow> bytes \<Rightarrow> nat \<times> bytes" where
  "dtls_p_hash ok_a ok_p key label random1 random2 buf =
     (let buflen = length buf in
      case dtls_hmac_new ok_a key of
        None \<Rightarrow> (0, buf)
      | Some hmac_a \<Rightarrow>
          (let A = hmac_digest (update_seeds label random1 random2 hmac_a) in
           case dtls_hmac_new ok_p key of
             None \<Rightarrow> (buflen, buf)
           | Some _ \<Rightarrow>
               (let (A, len, out) = p_hash_loop key label random1 random2 buflen A 0 [];
                    hmac_p = update_seeds label random1 random2
                               (dtls_hmac_update (dtls_hmac_init key) A);
                    tmp = hmac_digest hmac_p
                in (buflen, out @ take (buflen - len) tmp))))"

definition dtls_prf ::
  "bool \<Rightarrow> bool \<Rightarrow> bytes \<Rightarrow> bytes option \<Rightarrow> bytes option \<Rightarrow> bytes option \<Rightarrow> nat \<Rightarrow> nat \<times> bytes" where
  "dtls_prf ok_a ok_p key label random1 random2 buflen =
     dtls_p_hash ok_a ok_p key label random1 random2 (replicate buflen 0)"

text \<open>The specification: \<open>A(0) = seed\<close>, \<open>A(i+1) = HMAC(secret, A(i))\<close> and
  \<open>P_hash = HMAC(secret, A(1) + seed) + HMAC(secret, A(2) + seed) + ...\<close>, truncated.\<close>

fun P_A :: "bytes \<Rightarrow> bytes \<Rightarrow> nat \<Rightarrow> bytes" where
  "P_A key seed 0 = seed"
| "P_A key seed (Suc i) = HMAC key (P_A key seed i)"

definition P_block :: "bytes \<Rightarrow> bytes \<Rightarrow> nat \<Rightarrow> bytes" where
  "P_block key seed i = HMAC key (P_A key seed (Suc i) @ seed)"

definition P_hash :: "bytes \<Rightarrow> bytes \<Rightarrow> nat \<Rightarrow> bytes" where
  "P_hash key seed n = take n (concat (map (P_block key seed) [0..<Suc (n div 32)]))"

definition seed_bytes :: "bytes option \<Rightarrow> bytes" where
  "seed_bytes s = (case s of None \<Rightarrow> [] | Some x \<Rightarrow> x)"

lemma repr_seed: "hmac_repr key c m \<Longrightarrow> hmac_repr key (HMAC_UPDATE_SEED s c) (m @ seed_bytes s)"
  by (auto simp: HMAC_UPDATE_SEED_def seed_bytes_def hmac.repr_update split: option.split)

lemma repr_seeds:
  "hmac_repr key c m \<Longrightarrow>
   hmac_repr key (update_seeds l r1 r2 c) (m @ seed_bytes l @ seed_bytes r1 @ seed_bytes r2)"
  unfolding update_seeds_def
  using repr_seed [OF repr_seed [OF repr_seed], of key c m r2 r1 l] by simp

lemma digest_seeds:
  "hmac_digest (update_seeds l r1 r2 (dtls_hmac_init key)) =
   HMAC key (seed_bytes l @ seed_bytes r1 @ seed_bytes r2)"
  using hmac.repr_final [OF repr_seeds [OF hmac.repr_init]] by simp

lemma digest_A_seeds:
  "hmac_digest (update_seeds l r1 r2 (dtls_hmac_update (dtls_hmac_init key) A)) =
   HMAC key (A @ seed_bytes l @ seed_bytes r1 @ seed_bytes r2)"
  using hmac.repr_final [OF repr_seeds [OF hmac.repr_update [OF hmac.repr_init]]] by simp

lemma length_P_block [simp]: "length (P_block key seed i) = 32"
  by (simp add: P_block_def hmac.digest_length)

lemma length_P_blocks: "length (concat (map (P_block key seed) xs)) = 32 * length xs"
  by (induction xs) simp_all

lemma finalize_pair: "dtls_hmac_finalize c = (hmac_digest c, 32, snd (snd (dtls_hmac_finalize c)))"
  by (simp add: dtls_hmac_finalize_def dtls_hash_finalize_def)

lemma p_hash_loop_spec:
  fixes l r1 r2 key
  defines "seed \<equiv> seed_bytes l @ seed_bytes r1 @ seed_bytes r2"
  shows "\<exists>k. p_hash_loop key l r1 r2 n (P_A key seed (Suc i)) (32 * i)
        (concat (map (P_block key seed) [0..<i])) =
      (P_A key seed (Suc k), 32 * k, concat (map (P_block key seed) [0..<k])) \<and>
    n \<le> 32 * k + 32 \<and> (k = i \<or> 32 * k < n)"
proof (induction "n - 32 * i" arbitrary: i rule: less_induct)
  case less
  let ?A = "P_A key seed (Suc i)" and ?out = "concat (map (P_block key seed) [0..<i])"
  show ?case
  proof (cases "32 * i + 32 < n")
    case False
    then show ?thesis
      by (intro exI [of _ i]) (simp add: p_hash_loop.simps [of key l r1 r2])
  next
    case True
    let ?c = "update_seeds l r1 r2 (dtls_hmac_update (dtls_hmac_init key) ?A)"
    have d: "hmac_digest ?c = P_block key seed i"
      unfolding digest_A_seeds P_block_def seed_def ..
    have A: "hmac_digest (dtls_hmac_update (dtls_hmac_init key) ?A) = P_A key seed (Suc (Suc i))"
      by (simp add: hmac.digest_one)
    have "p_hash_loop key l r1 r2 n ?A (32 * i) ?out =
        p_hash_loop key l r1 r2 n (P_A key seed (Suc (Suc i))) (32 * i + 32)
          (?out @ P_block key seed i)"
    proof -
      obtain z where z: "dtls_hmac_finalize ?c = (P_block key seed i, 32, z)"
        using finalize_pair [of ?c] unfolding d by blast
      show ?thesis
        using True A by (subst p_hash_loop.simps) (simp add: z del: P_A.simps)
    qed
    moreover have "32 * i + 32 = 32 * Suc i"
      "?out @ P_block key seed i = concat (map (P_block key seed) [0..<Suc i])"
      by simp_all
    ultimately have step: "p_hash_loop key l r1 r2 n ?A (32 * i) ?out =
        p_hash_loop key l r1 r2 n (P_A key seed (Suc (Suc i))) (32 * Suc i)
          (concat (map (P_block key seed) [0..<Suc i]))"
      by (simp only:)
    have "n - 32 * Suc i < n - 32 * i" using True by simp
    from less [OF this] obtain k where k: "p_hash_loop key l r1 r2 n ?A (32 * i) ?out =
        (P_A key seed (Suc k), 32 * k, concat (map (P_block key seed) [0..<k]))"
      "n \<le> 32 * k + 32" "k = Suc i \<or> 32 * k < n"
      unfolding step by blast
    moreover have "32 * k < n" using k(3) True by auto
    ultimately show ?thesis by blast
  qed
qed

lemma P_hash_prefix:
  assumes "n \<le> 32 * k + 32" and "k = 0 \<or> 32 * k < n"
  shows "concat (map (P_block key seed) [0..<k]) @ take (n - 32 * k) (P_block key seed k) =
    P_hash key seed n"
proof -
  let ?f = "\<lambda>xs. concat (map (P_block key seed) xs)"
  have le: "Suc k \<le> Suc (n div 32)" using assms by auto
  have "[0..<Suc (n div 32)] = [0..<Suc k] @ [Suc k..<Suc (n div 32)]"
    using le by (metis upt_add_eq_append le_add_diff_inverse zero_le)
  then have "P_hash key seed n = take n (?f [0..<Suc k] @ ?f [Suc k..<Suc (n div 32)])"
    by (simp only: P_hash_def map_append concat_append)
  also have "\<dots> = take n (?f [0..<Suc k])"
    using assms(1) length_P_blocks [of key seed "[0..<Suc k]"] by simp
  also have "\<dots> = ?f [0..<k] @ take (n - 32 * k) (P_block key seed k)"
    using assms(2) length_P_blocks [of key seed "[0..<k]"] by auto
  finally show ?thesis by simp
qed

lemma p_hash_correct:
  "dtls_p_hash True True key l r1 r2 buf =
     (length buf, P_hash key (seed_bytes l @ seed_bytes r1 @ seed_bytes r2) (length buf))"
proof -
  let ?seed = "seed_bytes l @ seed_bytes r1 @ seed_bytes r2" and ?n = "length buf"
  obtain k where k: "p_hash_loop key l r1 r2 ?n (P_A key ?seed 1) 0 [] =
      (P_A key ?seed (Suc k), 32 * k, concat (map (P_block key ?seed) [0..<k]))"
    "?n \<le> 32 * k + 32" "k = 0 \<or> 32 * k < ?n"
    using p_hash_loop_spec [of key l r1 r2 ?n 0] by auto
  have A1: "hmac_digest (update_seeds l r1 r2 (dtls_hmac_init key)) = P_A key ?seed 1"
    by (simp add: digest_seeds)
  have d: "hmac_digest (update_seeds l r1 r2 (dtls_hmac_update (dtls_hmac_init key)
      (P_A key ?seed (Suc k)))) = P_block key ?seed k"
    unfolding digest_A_seeds P_block_def ..
  show ?thesis
    using k(1) d P_hash_prefix [OF k(2,3), of key ?seed]
    unfolding dtls_p_hash_def dtls_hmac_new_def Let_def
    by (simp only: A1 if_True option.case prod.case)
qed

text \<open>C28: The key-derivation loop of \<open>dtls_p_hash\<close> terminates and, when its HMAC contexts can be
  allocated, \<open>dtls_prf\<close> fills exactly the requested number of bytes with the TLS 1.2 PRF
  (RFC 5246 section 5) of label and randoms, for every requested length; null seeds are skipped.
  If the second context cannot be allocated it still reports success and leaves the buffer zeroed.\<close>

theorem dtls_prf_correct:
  "dtls_prf True True key label random1 random2 n =
     (n, P_hash key (seed_bytes label @ seed_bytes random1 @ seed_bytes random2) n) \<and>
   dtls_prf True False key label random1 random2 n = (n, replicate n 0) \<and>
   dtls_prf False ok key label random1 random2 n = (0, replicate n 0)"
  using p_hash_correct [of key label random1 random2 "replicate n 0"]
  by (simp add: dtls_prf_def dtls_p_hash_def dtls_hmac_new_def)

subsection \<open>Pre-master secret of a pre-shared key\<close>

definition dtls_psk_pre_master_secret :: "bytes \<Rightarrow> bytes \<Rightarrow> int \<times> bytes" where
  "dtls_psk_pre_master_secret key result =
     (let keylen = length key in
      if length result < 2 * (2 + keylen) then (-1, result)
      else (let result = put 0 (dtls_int_to_uint16 (word_of_nat keylen)) result;
                result = put 2 (replicate keylen 0) result;
                result = put (2 + keylen) (take 2 result) result;
                result = put (4 + keylen) key result
            in (int (2 * (2 + keylen)), result)))"

definition psk_pms :: "bytes \<Rightarrow> bytes" where
  "psk_pms key = be_bytes 2 (length key) @ replicate (length key) 0 @ be_bytes 2 (length key) @ key"

lemma psk_pre_master_secret_value:
  "dtls_psk_pre_master_secret key result =
     (if length (psk_pms key) \<le> length result
      then (int (length (psk_pms key)), psk_pms key @ drop (length (psk_pms key)) result)
      else (-1, result))"
proof -
  have L: "dtls_int_to_uint16 (word_of_nat (length key)) = be_bytes 2 (length key)"
    using be_bytes_mod [of 2 "length key"]
    by (simp add: int_to_uint16_be unsigned_of_nat take_bit_eq_mod)
  show ?thesis
  proof (cases "length result < 2 * (2 + length key)")
    case True
    then show ?thesis by (simp add: dtls_psk_pre_master_secret_def psk_pms_def)
  next
    case False
    then show ?thesis
      by (simp add: dtls_psk_pre_master_secret_def psk_pms_def L Let_def put_def min_def add.commute)
  qed
qed

text \<open>The plain-PSK pre-master secret (RFC 4279 section 2) is the length, as many zero octets,
  the length again and the key; the function reports its length, writes nothing beyond it, and
  returns -1 and leaves the buffer alone exactly when the secret does not fit.\<close>

lemma psk_pre_master_secret_correct:
  "dtls_psk_pre_master_secret key result =
     (let L = be_bytes 2 (length key); pms = L @ replicate (length key) 0 @ L @ key in
      if length pms \<le> length result then (int (length pms), pms @ drop (length pms) result)
      else (-1, result))"
  by (simp add: psk_pre_master_secret_value psk_pms_def Let_def)

subsection \<open>Key octets and word arrays\<close>

definition dtls_ec_key_to_uint32 :: "bytes \<Rightarrow> nat \<Rightarrow> u32 list option" where
  "dtls_ec_key_to_uint32 key key_size =
     those (map (\<lambda>i. dtls_uint32_to_int (drop (i * 4) key)) (rev [0..<key_size div 4]))"

definition dtls_ec_key_from_uint32 :: "u32 list \<Rightarrow> nat \<Rightarrow> bytes option" where
  "dtls_ec_key_from_uint32 key key_size =
     (if length key < key_size div 4 then None
      else Some (concat (map (\<lambda>i. dtls_int_to_uint32 (key ! i)) (rev [0..<key_size div 4]))))"

text \<open>The value of a little-endian word array.\<close>

fun words_value :: "u32 list \<Rightarrow> nat" where
  "words_value [] = 0"
| "words_value (w # ws) = unat w + 2 ^ 32 * words_value ws"

lemma words_value_append:
  "words_value (xs @ ys) = words_value xs + (2 ^ 32) ^ length xs * words_value ys"
  by (induction xs) (simp_all add: algebra_simps)

lemma from_words_rev: "map (\<lambda>i. f (key ! i)) (rev [0..<length key]) = map f (rev key)"
proof -
  have "map (\<lambda>i. f (key ! i)) [0..<length key] = map f key"
    by (metis map_nth map_map comp_apply map_cong)
  then show ?thesis by (metis rev_map)
qed

lemma concat_uint32_value:
  "be_nat (concat (map dtls_int_to_uint32 ws)) = words_value (rev ws)"
proof (induction ws)
  case Nil
  then show ?case by simp
next
  case (Cons w ws)
  have l: "length (concat (map dtls_int_to_uint32 ws)) = 4 * length ws"
    by (induction ws) simp_all
  have "unat w < 2 ^ LENGTH(32)" by (rule unsigned_less)
  then have "be_nat (dtls_int_to_uint32 w) = unat w"
    by (simp add: int_to_uint32_be be_nat_be_bytes)
  moreover have "(256 :: nat) ^ (4 * length ws) = (2 ^ 32) ^ length ws"
    by (simp add: power_mult)
  ultimately show ?case
    using Cons l by (simp add: be_nat_append words_value_append)
qed

lemma those_snoc: "those (xs @ [x]) =
    (case those xs of None \<Rightarrow> None | Some ys \<Rightarrow> map_option (\<lambda>y. ys @ [y]) x)"
  by (induction xs) (auto simp: option.map_comp comp_def split: option.splits)

lemma ec_key_to_concat:
  "those (map (\<lambda>i. dtls_uint32_to_int (drop (i * 4) (concat (map dtls_int_to_uint32 ws))))
      [0..<length ws]) = Some ws"
proof (induction ws rule: rev_induct)
  case Nil
  then show ?case by simp
next
  case (snoc w ws)
  let ?c = "\<lambda>ws. concat (map dtls_int_to_uint32 ws)"
  have l: "length (?c ws) = 4 * length ws" for ws by (induction ws) simp_all
  have "dtls_uint32_to_int (drop (i * 4) (?c (ws @ [w]))) =
      dtls_uint32_to_int (drop (i * 4) (?c ws))" if "i < length ws" for i
    using that l [of ws] by (simp add: uint32_read)
  then have e: "map (\<lambda>i. dtls_uint32_to_int (drop (i * 4) (?c (ws @ [w])))) [0..<length ws] =
      map (\<lambda>i. dtls_uint32_to_int (drop (i * 4) (?c ws))) [0..<length ws]"
    by (intro map_cong) auto
  have f: "dtls_uint32_to_int (drop (length ws * 4) (?c (ws @ [w]))) = Some w"
    using l [of ws] uint32_roundtrip [of w "[]"] by simp
  have u: "[0..<length (ws @ [w])] = [0..<length ws] @ [length ws]" by simp
  show ?case
    unfolding u map_append [of _ "[0..<length ws]"] list.map e f those_snoc snoc by simp
qed

lemma those_rev: "those (rev xs) = map_option rev (those xs)"
proof (induction xs)
  case Nil
  then show ?case by simp
next
  case (Cons x xs)
  then show ?case by (cases x) (auto simp: those_snoc split: option.splits)
qed

lemma ec_octets:
  "dtls_ec_key_from_uint32 key (4 * length key) = Some (concat (map dtls_int_to_uint32 (rev key)))"
  "dtls_ec_key_to_uint32 (concat (map dtls_int_to_uint32 (rev key))) (4 * length key) = Some key"
  using from_words_rev [of dtls_int_to_uint32 key] ec_key_to_concat [of "rev key"]
  by (simp_all add: dtls_ec_key_from_uint32_def dtls_ec_key_to_uint32_def those_rev flip: rev_map)

text \<open>The conversion of a word array to key octets and back is the identity (for keys of any
  number of words), and the octets are the big-endian representation of the number the array
  stores least significant word first.\<close>

lemma ec_key_roundtrip:
  "\<exists>buf. dtls_ec_key_from_uint32 key (4 * length key) = Some buf \<and>
     length buf = 4 * length key \<and> be_nat buf = words_value key \<and>
     dtls_ec_key_to_uint32 buf (4 * length key) = Some key"
proof -
  have l: "length (concat (map dtls_int_to_uint32 ws)) = 4 * length ws" for ws
    by (induction ws) simp_all
  show ?thesis
    using ec_octets [of key] l [of "rev key"] concat_uint32_value [of "rev key"] by simp
qed

subsection \<open>ASN.1 encoding of signature numbers\<close>

text \<open>The loop of \<open>dtls_ec_key_from_uint32_asn1\<close> over the words, most significant first.\<close>

fun asn1_words :: "bool \<Rightarrow> u32 list \<Rightarrow> bytes" where
  "asn1_words first [] = []"
| "asn1_words first (k # ks) =
     (if k = 0 then asn1_words first ks
      else (if first \<and> k AND 0x80000000 \<noteq> 0 then 0 # dtls_int_to_uint32 k
            else if first \<and> k AND 0xFF800000 = 0 then
              [ucast (drop_bit 16 k AND 0xff), ucast (drop_bit 8 k AND 0xff), ucast (k AND 0xff)]
            else if first \<and> k AND 0xFFFF8000 = 0 then
              [ucast (drop_bit 8 k AND 0xff), ucast (k AND 0xff)]
            else if first \<and> k AND 0xFFFFFF80 = 0 then [ucast (k AND 0xff)]
            else dtls_int_to_uint32 k) @ asn1_words False ks)"

definition dtls_ec_key_from_uint32_asn1 :: "u32 list \<Rightarrow> nat \<Rightarrow> (nat \<times> bytes) option" where
  "dtls_ec_key_from_uint32_asn1 key key_size =
     (if length key < key_size div 4 then None
      else (let out = asn1_words True (map (\<lambda>i. key ! i) (rev [0..<key_size div 4]))
            in Some (length out, out)))"


lemma and_high_mask:
  assumes "k AND push_bit n (mask m) = 0" and "32 \<le> n + m"
  shows "unat (k :: u32) < 2 ^ n"
proof -
  have h: "\<not> bit k j" if "n \<le> j" for j
  proof
    assume b: "bit k j"
    then have "j < 32" using bit_imp_le_length by fastforce
    then have "bit (k AND push_bit n (mask m)) j"
      using b that assms(2) by (auto simp: bit_simps less_diff_conv2)
    then show False using assms(1) by simp
  qed
  then have "take_bit n k = k" by (intro bit_eqI) (use h in \<open>auto simp: bit_take_bit_iff not_le [symmetric]\<close>)
  then have "unat k = take_bit n (unat k)" by (metis unsigned_take_bit_eq)
  then show ?thesis by (metis take_bit_nat_less_exp)
qed

lemma asn1_masks:
  "(0x80000000 :: u32) = push_bit 31 (mask 1)" "(0xFF800000 :: u32) = push_bit 23 (mask 9)"
  by (simp_all add: mask_eq_exp_minus_1 push_bit_eq_mult)

definition asn1_word :: "u32 \<Rightarrow> bytes" where
  "asn1_word k =
     (if k AND 0x80000000 \<noteq> 0 then 0 # be_bytes 4 (unat k)
      else if k AND 0xFF800000 = 0 then be_bytes 3 (unat k) else be_bytes 4 (unat k))"

text \<open>The branches for two bytes and for one byte are never taken: a word that passes their test
  has already passed the one for three bytes.\<close>

lemma asn1_words_first:
  "k \<noteq> 0 \<Longrightarrow> asn1_words True (k # ks) = asn1_word k @ asn1_words False ks"
proof -
  assume k: "k \<noteq> 0"
  have sub: "k AND 0xFF800000 = 0" if "k AND m = 0" "m AND 0xFF800000 = 0xFF800000" for m
  proof -
    have "k AND 0xFF800000 = k AND (m AND 0xFF800000)" unfolding that(2) ..
    also have "\<dots> = (k AND m) AND 0xFF800000" by (simp only: and.assoc)
    also have "\<dots> = 0" unfolding that(1) by (rule zero_and_eq)
    finally show ?thesis .
  qed
  have "(0xFFFF8000 :: u32) AND 0xFF800000 = 0xFF800000" "(0xFFFFFF80 :: u32) AND 0xFF800000 = 0xFF800000"
    by simp_all
  then have n: "k AND 0xFF800000 \<noteq> 0 \<Longrightarrow> k AND 0xFFFF8000 \<noteq> 0 \<and> k AND 0xFFFFFF80 \<noteq> 0"
    using sub by blast
  have b3: "[ucast (drop_bit 16 k AND 0xff), ucast (drop_bit 8 k AND 0xff), ucast (k AND 0xff)] =
      be_bytes 3 (unat k)"
    using int_to_uint24_be [of k] by (simp add: dtls_int_to_uint24_def)
  show ?thesis
    unfolding asn1_words.simps(2) b3 asn1_word_def int_to_uint32_be
    by (cases "k AND 0x80000000 = 0"; cases "k AND 0xFF800000 = 0")
      (use k n in \<open>simp_all only: if_True if_False simp_thms not_False_eq_True append_Cons\<close>)
qed

lemma asn1_words_rest: "0 \<notin> set ks \<Longrightarrow> asn1_words False ks = concat (map dtls_int_to_uint32 ks)"
  by (induction ks) auto

lemma asn1_word_value: "be_nat (asn1_word k) = unat k"
proof -
  have "unat k < 2 ^ LENGTH(32)" by (rule unsigned_less)
  then have k: "unat k < 256 ^ 4" by simp
  have "unat k < 256 ^ 3" if "k AND 0xFF800000 = 0"
    using and_high_mask [of k 23 9] that unfolding asn1_masks by simp
  then show ?thesis using k by (simp add: asn1_word_def be_nat_be_bytes)
qed

lemma asn1_word_positive: "asn1_word k \<noteq> [] \<and> hd (asn1_word k) < 128"
proof -
  have s: "(word_of_nat x :: u8) < 128" if "x < 128" for x
    using that by (simp add: word_less_nat_alt unsigned_of_nat take_bit_eq_mod)
  have "unat k div 2 ^ 16 < 128" if "k AND 0xFF800000 = 0"
    using and_high_mask [of k 23 9] that unfolding asn1_masks by simp
  then have c3: "k AND 0xFF800000 = 0 \<Longrightarrow> (word_of_nat (unat k div 2 ^ 16) :: u8) < 128"
    using s by blast
  have "unat k div 2 ^ 24 < 128" if "k AND 0x80000000 = 0"
    using and_high_mask [of k 31 1] that unfolding asn1_masks by simp
  then have c4: "k AND 0x80000000 = 0 \<Longrightarrow> (word_of_nat (unat k div 2 ^ 24) :: u8) < 128"
    using s by blast
  show ?thesis
    using c3 c4 by (simp add: asn1_word_def be_bytes_4 be_bytes_3)
qed

lemma asn1_words_value:
  assumes "0 \<notin> set (dropWhile (\<lambda>w. w = 0) ws)"
  shows "be_nat (asn1_words True ws) = words_value (rev ws) \<and>
    (asn1_words True ws = [] \<or> hd (asn1_words True ws) < 128) \<and>
    length (asn1_words True ws) \<le> 4 * length ws + 1"
  using assms
proof (induction ws)
  case Nil
  then show ?case by simp
next
  case (Cons k ks)
  show ?case
  proof (cases "k = 0")
    case True
    then show ?thesis using Cons by (simp add: words_value_append)
  next
    case False
    then have z: "0 \<notin> set ks" using Cons.prems by simp
    have l: "length (concat (map dtls_int_to_uint32 xs)) = 4 * length xs" for xs
      by (induction xs) simp_all
    have p: "(256 :: nat) ^ (4 * length ks) = (2 ^ 32) ^ length ks" by (simp add: power_mult)
    have "length (asn1_word k) \<le> 5" by (simp add: asn1_word_def)
    then show ?thesis
      using asn1_word_value [of k] asn1_word_positive [of k] concat_uint32_value [of ks] l [of ks] p
      unfolding asn1_words_first [OF False] asn1_words_rest [OF z]
      by (simp add: be_nat_append words_value_append)
  qed
qed

text \<open>The ASN.1 integer that \<open>dtls_ec_key_from_uint32_asn1\<close> writes for a signature number is
  its big-endian value, has a clear sign bit and is at most one byte longer than the number,
  provided that no word below the most significant non-zero one is zero.\<close>

lemma ec_key_asn1_correct:
  assumes "0 \<notin> set (dropWhile (\<lambda>w. w = 0) (rev key))"
  shows "\<exists>out. dtls_ec_key_from_uint32_asn1 key (4 * length key) = Some (length out, out) \<and>
    be_nat out = words_value key \<and> (out = [] \<or> hd out < 128) \<and> length out \<le> 4 * length key + 1"
  using asn1_words_value [OF assms] from_words_rev [of "\<lambda>x. x" key]
  by (simp add: dtls_ec_key_from_uint32_asn1_def Let_def)

lemma ec_key_asn1_correct_witness:
  "\<exists>out. dtls_ec_key_from_uint32_asn1 [7, 0x80000001, 0] 12 = Some (length out, out) \<and>
    be_nat out = words_value [7, 0x80000001, 0]"
  using ec_key_asn1_correct [of "[7, 0x80000001, 0]"] by auto

text \<open>A zero word below the most significant one is dropped from the ASN.1 integer, so the
  encoded number is not the signature number: here 2^64 + 1 becomes 2^32 + 1.\<close>

lemma ec_key_asn1_drops_zero_words:
  "\<exists>out. dtls_ec_key_from_uint32_asn1 [1, 0, 1] 12 = Some (7, out) \<and>
     be_nat out = 2 ^ 32 + 1 \<and> words_value [1, 0, 1] = 2 ^ 64 + 1"
proof -
  have "(1 :: u32) AND 0x80000000 = 0" "(1 :: u32) AND 0xFF800000 = 0"
    by simp_all
  then show ?thesis
    by (simp add: dtls_ec_key_from_uint32_asn1_def dtls_int_to_uint32_def upt_rec)
qed

subsection \<open>The key block\<close>

datatype dtls_peer_type = DTLS_CLIENT | DTLS_SERVER

text \<open>The macros give offsets into the key block; the MAC keys of the CCM suites are empty.\<close>

definition dtls_kb_client_mac_secret :: nat where "dtls_kb_client_mac_secret = 0"

definition dtls_kb_server_mac_secret :: nat where
  "dtls_kb_server_mac_secret = dtls_kb_client_mac_secret + 0"

definition dtls_kb_client_write_key :: nat where
  "dtls_kb_client_write_key = dtls_kb_server_mac_secret + 0"

definition dtls_kb_server_write_key :: nat where
  "dtls_kb_server_write_key = dtls_kb_client_write_key + 16"

definition dtls_kb_remote_write_key :: "dtls_peer_type \<Rightarrow> nat" where
  "dtls_kb_remote_write_key role =
     (if role = DTLS_SERVER then dtls_kb_client_write_key else dtls_kb_server_write_key)"

definition dtls_kb_local_write_key :: "dtls_peer_type \<Rightarrow> nat" where
  "dtls_kb_local_write_key role =
     (if role = DTLS_CLIENT then dtls_kb_client_write_key else dtls_kb_server_write_key)"

definition dtls_kb_client_iv :: nat where
  "dtls_kb_client_iv = dtls_kb_server_write_key + 16"

definition dtls_kb_server_iv :: nat where
  "dtls_kb_server_iv = dtls_kb_client_iv + 4"

definition dtls_kb_remote_iv :: "dtls_peer_type \<Rightarrow> nat" where
  "dtls_kb_remote_iv role = (if role = DTLS_SERVER then dtls_kb_client_iv else dtls_kb_server_iv)"

definition dtls_kb_local_iv :: "dtls_peer_type \<Rightarrow> nat" where
  "dtls_kb_local_iv role = (if role = DTLS_CLIENT then dtls_kb_client_iv else dtls_kb_server_iv)"

definition dtls_kb_size :: nat where
  "dtls_kb_size = 2 * (0 + 16 + 4)"

lemmas kb_defs = dtls_kb_client_mac_secret_def dtls_kb_server_mac_secret_def
  dtls_kb_client_write_key_def dtls_kb_server_write_key_def dtls_kb_remote_write_key_def
  dtls_kb_local_write_key_def dtls_kb_client_iv_def dtls_kb_server_iv_def dtls_kb_remote_iv_def
  dtls_kb_local_iv_def dtls_kb_size_def

definition opposite :: "dtls_peer_type \<Rightarrow> dtls_peer_type" where
  "opposite role = (case role of DTLS_CLIENT \<Rightarrow> DTLS_SERVER | DTLS_SERVER \<Rightarrow> DTLS_CLIENT)"

lemma kb_agree:
  "dtls_kb_local_write_key (opposite r) = dtls_kb_remote_write_key r"
  "dtls_kb_remote_write_key (opposite r) = dtls_kb_local_write_key r"
  "dtls_kb_local_iv (opposite r) = dtls_kb_remote_iv r"
  "dtls_kb_remote_iv (opposite r) = dtls_kb_local_iv r"
  by (cases r; simp add: opposite_def kb_defs)+

lemma kb_in_bounds:
  "dtls_kb_local_write_key r + 16 \<le> 40" "dtls_kb_remote_write_key r + 16 \<le> 40"
  "dtls_kb_local_iv r + 4 \<le> 40" "dtls_kb_remote_iv r + 4 \<le> 40"
  by (cases r; simp add: kb_defs)+

subsection \<open>The record MAC\<close>

definition dtls_mac :: "dtls_hmac_context_t \<Rightarrow> bytes \<Rightarrow> bytes \<Rightarrow> bytes option" where
  "dtls_mac hmac_ctx record packet = do {
     r1 \<leftarrow> rd_n record 3 8;
     r2 \<leftarrow> rd_n record 0 3;
     let L = dtls_int_to_uint16 (word_of_nat (length packet));
     let c = dtls_hmac_update hmac_ctx r1;
     let c = dtls_hmac_update c r2;
     let c = dtls_hmac_update c L;
     let c = dtls_hmac_update c packet;
     Some (hmac_digest c) }"

lemma dtls_mac_value:
  "11 \<le> length record \<Longrightarrow>
   dtls_mac (dtls_hmac_init key) record packet =
     Some (HMAC key (take 8 (drop 3 record) @ take 3 record @
       be_bytes 2 (unat (word_of_nat (length packet) :: u16)) @ packet))"
  using hmac.digest_pieces
    [of "[take 8 (drop 3 record), take 3 record,
          dtls_int_to_uint16 (word_of_nat (length packet)), packet]" key]
  by (simp add: dtls_mac_def int_to_uint16_be)

end
