(* ===== verification/Peer.thy ===== *)
theory Peer
  imports Crypto Netq
begin

text \<open>
  Sessions, peers and the peer list: \<open>dtls-peer.c\<close>, \<open>dtls-peer.h\<close>, the session functions of
  \<open>posix/dtls-support.c\<close>, the structures of \<open>dtls-crypto.h\<close> and the peer-list functions of
  \<open>dtls.c\<close>. A peer owns two slots of security parameters, the current and the pending or
  previous one; the slots are pointers that are never shared, so a slot is an optional value.
\<close>

subsection \<open>Sessions\<close>

text \<open>The union of socket addresses, tagged by its family: the port, and the address octets.\<close>

datatype sockaddr = AF_INET u16 bytes | AF_INET6 u16 bytes | AF_OTHER u16 bytes

record session_t =
  ss_size :: u32
  ss_addr :: sockaddr
  ss_ifindex :: u8

definition dtls_session_equals :: "session_t \<Rightarrow> session_t \<Rightarrow> bool" where
  "dtls_session_equals a b =
     (if ss_ifindex a \<noteq> ss_ifindex b \<or> ss_size a \<noteq> ss_size b then False
      else case (ss_addr a, ss_addr b) of
        (AF_INET p x, AF_INET q y) \<Rightarrow> p = q \<and> take 4 x = take 4 y
      | (AF_INET6 p x, AF_INET6 q y) \<Rightarrow> p = q \<and> take 16 x = take 16 y
      | _ \<Rightarrow> False)"

subsection \<open>Security parameters\<close>

record dtls_security_parameters_t =
  sp_compression :: u8
  sp_cipher :: u16
  sp_epoch :: u16
  sp_rseq :: u64
  sp_key_block :: bytes

definition TLS_NULL_WITH_NULL_NULL :: u16 where "TLS_NULL_WITH_NULL_NULL = 0x0000"

definition TLS_PSK_WITH_AES_128_CCM_8 :: u16 where "TLS_PSK_WITH_AES_128_CCM_8 = 0xC0A8"

definition TLS_ECDHE_ECDSA_WITH_AES_128_CCM_8 :: u16 where
  "TLS_ECDHE_ECDSA_WITH_AES_128_CCM_8 = 0xC0AE"

definition TLS_COMPRESSION_NULL :: u8 where "TLS_COMPRESSION_NULL = 0"

lemmas cipher_defs = TLS_NULL_WITH_NULL_NULL_def TLS_PSK_WITH_AES_128_CCM_8_def
  TLS_ECDHE_ECDSA_WITH_AES_128_CCM_8_def TLS_COMPRESSION_NULL_def

text \<open>\<open>ok\<close> says whether the storage can be allocated.\<close>

definition dtls_security_new :: "bool \<Rightarrow> dtls_security_parameters_t option" where
  "dtls_security_new ok =
     (if ok then Some \<lparr>sp_compression = TLS_COMPRESSION_NULL, sp_cipher = TLS_NULL_WITH_NULL_NULL,
        sp_epoch = 0, sp_rseq = 0, sp_key_block = replicate 40 0\<rparr> else None)"

subsection \<open>Handshake parameters\<close>

record dtls_hs_state_t =
  hs_mseq_s :: u16
  hs_mseq_r :: u16
  hs_hash :: dtls_sha256_ctx

record dtls_hs_reassemble_t =
  ra_mseq_r :: u16
  ra_last_offset :: nat
  ra_packet_length :: nat
  ra_data :: bytes

record dtls_handshake_parameters_ecdsa_t =
  ec_own_eph_priv :: bytes
  ec_other_eph_pub_x :: bytes
  ec_other_eph_pub_y :: bytes
  ec_other_pub_x :: bytes
  ec_other_pub_y :: bytes

record dtls_handshake_parameters_psk_t =
  psk_id_length :: u16
  psk_identity :: bytes

text \<open>\<open>hp_tmp\<close> is the union of the two randoms and the master secret: 64 bytes, the first 32 are
  the client random, the last 32 the server random, the first 48 the master secret. The two
  members of \<open>keyx\<close> are used by different cipher suites and are kept apart.\<close>

record dtls_handshake_parameters_t =
  hp_tmp :: bytes
  hp_reorder_queue :: ptr
  hp_reassemble_buf :: "dtls_hs_reassemble_t option"
  hp_hs_state :: dtls_hs_state_t
  hp_compression :: u8
  hp_cipher :: u16
  hp_do_client_auth :: bool
  hp_ecdsa :: dtls_handshake_parameters_ecdsa_t
  hp_psk :: dtls_handshake_parameters_psk_t

definition hp_client_random :: "dtls_handshake_parameters_t \<Rightarrow> bytes" where
  "hp_client_random h = take 32 (hp_tmp h)"

definition hp_server_random :: "dtls_handshake_parameters_t \<Rightarrow> bytes" where
  "hp_server_random h = take 32 (drop 32 (hp_tmp h))"

definition hp_master_secret :: "dtls_handshake_parameters_t \<Rightarrow> bytes" where
  "hp_master_secret h = take 48 (hp_tmp h)"

definition dtls_handshake_new :: "bool \<Rightarrow> dtls_handshake_parameters_t option" where
  "dtls_handshake_new ok =
     (if ok then Some
        \<lparr>hp_tmp = replicate 64 0, hp_reorder_queue = None, hp_reassemble_buf = None,
         hp_hs_state = \<lparr>hs_mseq_s = 0, hs_mseq_r = 0, hs_hash = dtls_hash_init\<rparr>,
         hp_compression = 0, hp_cipher = 0, hp_do_client_auth = False,
         hp_ecdsa = \<lparr>ec_own_eph_priv = replicate 32 0, ec_other_eph_pub_x = replicate 32 0,
           ec_other_eph_pub_y = replicate 32 0, ec_other_pub_x = replicate 32 0,
           ec_other_pub_y = replicate 32 0\<rparr>,
         hp_psk = \<lparr>psk_id_length = 0, psk_identity = replicate 32 0\<rparr>\<rparr>
      else None)"

text \<open>Freeing the handshake parameters frees the packets of the reorder queue.\<close>

definition dtls_handshake_free ::
  "netq_heap \<Rightarrow> dtls_handshake_parameters_t option \<Rightarrow> netq_heap option" where
  "dtls_handshake_free nh handshake =
     (case handshake of
        None \<Rightarrow> Some nh
      | Some h \<Rightarrow> map_option fst (netq_delete_all nh (Some (hp_reorder_queue h))))"

subsection \<open>Peers\<close>

datatype dtls_state_t =
    DTLS_STATE_INIT | DTLS_STATE_WAIT_CLIENTHELLO | DTLS_STATE_WAIT_CLIENTCERTIFICATE
  | DTLS_STATE_WAIT_CLIENTKEYEXCHANGE | DTLS_STATE_WAIT_CERTIFICATEVERIFY
  | DTLS_STATE_WAIT_CHANGECIPHERSPEC | DTLS_STATE_WAIT_FINISHED | DTLS_STATE_FINISHED
  | DTLS_STATE_CLIENTHELLO | DTLS_STATE_WAIT_SERVERCERTIFICATE
  | DTLS_STATE_WAIT_SERVERKEYEXCHANGE | DTLS_STATE_WAIT_SERVERHELLODONE
  | DTLS_STATE_CONNECTED | DTLS_STATE_CLOSING | DTLS_STATE_CLOSED

record packet_store =
  ps_t_id :: u32
  ps_t_msg :: bytes
  ps_reveal_key :: bytes
  ps_packet_mac :: bytes

record dtls_peer_t =
  pr_next :: ptr
  pr_session :: session_t
  pr_role :: dtls_peer_type
  pr_state :: dtls_state_t
  pr_security0 :: "dtls_security_parameters_t option"
  pr_security1 :: "dtls_security_parameters_t option"
  pr_handshake :: "dtls_handshake_parameters_t option"
  pr_int_index :: u32
  pr_K :: "bytes list"
  pr_tesla_mac :: bytes
  pr_tesla_ps :: packet_store

text \<open>A new peer is zeroed but for its session and its first security parameters: the role is
  \<open>DTLS_CLIENT\<close> and the state \<open>DTLS_STATE_INIT\<close>, the zeros of their enumerations. \<open>ok1\<close> and
  \<open>ok2\<close> say whether the two allocations succeed.\<close>

definition dtls_new_peer :: "bool \<Rightarrow> bool \<Rightarrow> session_t \<Rightarrow> dtls_peer_t option" where
  "dtls_new_peer ok1 ok2 session =
     (if \<not> ok1 then None
      else case dtls_security_new ok2 of
        None \<Rightarrow> None
      | Some s \<Rightarrow> Some \<lparr>pr_next = None, pr_session = session, pr_role = DTLS_CLIENT,
          pr_state = DTLS_STATE_INIT, pr_security0 = Some s, pr_security1 = None,
          pr_handshake = None, pr_int_index = 0, pr_K = replicate 1000 (replicate 32 0),
          pr_tesla_mac = replicate 32 0,
          pr_tesla_ps = \<lparr>ps_t_id = 0, ps_t_msg = replicate 10000 0,
            ps_reveal_key = replicate 32 0, ps_packet_mac = replicate 32 0\<rparr>\<rparr>)"

text \<open>The security parameters of an epoch: the number of the slot that holds them.\<close>

definition dtls_security_params_epoch :: "dtls_peer_t \<Rightarrow> u16 \<Rightarrow> nat option" where
  "dtls_security_params_epoch peer epoch =
     (if (case pr_security0 peer of None \<Rightarrow> False | Some s \<Rightarrow> sp_epoch s = epoch) then Some 0
      else if (case pr_security1 peer of None \<Rightarrow> False | Some s \<Rightarrow> sp_epoch s = epoch) then Some 1
      else None)"

definition security_slot :: "dtls_peer_t \<Rightarrow> nat \<Rightarrow> dtls_security_parameters_t option" where
  "security_slot peer i = (if i = 0 then pr_security0 peer else pr_security1 peer)"

definition dtls_security_params :: "dtls_peer_t \<Rightarrow> dtls_security_parameters_t option" where
  "dtls_security_params peer = pr_security0 peer"

text \<open>\<open>dtls_security_params_next\<close> reads the epoch of slot 0 without a check (\<open>None\<close> if it is
  empty); the flag of the result says whether it returned the new parameters.\<close>

definition dtls_security_params_next :: "bool \<Rightarrow> dtls_peer_t \<Rightarrow> (dtls_peer_t \<times> bool) option" where
  "dtls_security_params_next ok peer =
     (case dtls_security_new ok of
        None \<Rightarrow> Some (peer\<lparr>pr_security1 := None\<rparr>, False)
      | Some s \<Rightarrow> do {
          s0 \<leftarrow> pr_security0 peer;
          Some (peer\<lparr>pr_security1 := Some (s\<lparr>sp_epoch := sp_epoch s0 + 1\<rparr>)\<rparr>, True) })"

definition dtls_security_params_free_other :: "dtls_peer_t \<Rightarrow> dtls_peer_t" where
  "dtls_security_params_free_other peer =
     (case (pr_security0 peer, pr_security1 peer) of
        (Some s0, Some s1) \<Rightarrow>
          (if sp_epoch s0 < sp_epoch s1 then peer else peer\<lparr>pr_security1 := None\<rparr>)
      | _ \<Rightarrow> peer)"

definition dtls_security_params_switch :: "dtls_peer_t \<Rightarrow> dtls_peer_t" where
  "dtls_security_params_switch peer =
     peer\<lparr>pr_security1 := pr_security0 peer, pr_security0 := pr_security1 peer\<rparr>"

definition dtls_peer_is_connected :: "dtls_peer_t \<Rightarrow> bool" where
  "dtls_peer_is_connected peer = (pr_state peer = DTLS_STATE_CONNECTED)"

subsection \<open>The peer list\<close>

type_synonym peer_heap = "dtls_peer_t heap"

definition pr_set_next :: "ptr \<Rightarrow> dtls_peer_t \<Rightarrow> dtls_peer_t" where
  "pr_set_next p n = n\<lparr>pr_next := p\<rparr>"

definition pr_payload :: "dtls_peer_t \<Rightarrow> dtls_peer_t" where
  "pr_payload n = n\<lparr>pr_next := None\<rparr>"

lemma pr_payload_simps [simp]:
  "pr_next (pr_set_next p n) = p"
  "pr_payload (pr_set_next p n) = pr_payload n"
  "pr_session (pr_set_next p n) = pr_session n"
  "pr_session (pr_payload n) = pr_session n"
  by (simp_all add: pr_set_next_def pr_payload_def)

partial_function (option) delete_peer_loop ::
  "peer_heap \<Rightarrow> ptr \<Rightarrow> nat \<Rightarrow> ptr \<Rightarrow> ptr \<Rightarrow> (peer_heap \<times> ptr) option" where
  "delete_peer_loop h peers peer r l =
     (case l of None \<Rightarrow> Some (h, peers)
     | Some c \<Rightarrow>
        (case h c of None \<Rightarrow> None
         | Some n \<Rightarrow>
            (if c = peer then
               (case r of None \<Rightarrow> Some (h(c \<mapsto> pr_set_next None n), pr_next n)
                | Some p \<Rightarrow>
                   (case h p of None \<Rightarrow> None
                    | Some m \<Rightarrow>
                       Some ((h(p \<mapsto> pr_set_next (pr_next n) m))(c \<mapsto> pr_set_next None n),
                             peers)))
             else delete_peer_loop h peers peer (Some c) (pr_next n))))"

definition delete_peer :: "peer_heap \<Rightarrow> ptr \<Rightarrow> ptr \<Rightarrow> (peer_heap \<times> ptr) option" where
  "delete_peer h peers peer =
     (case peer of
        None \<Rightarrow> Some (h, peers)
      | Some p \<Rightarrow> (if peers = None then Some (h, peers) else delete_peer_loop h peers p None peers))"

definition add_peer :: "peer_heap \<Rightarrow> ptr \<Rightarrow> nat \<Rightarrow> (peer_heap \<times> ptr) option" where
  "add_peer h peers peer = do {
     n \<leftarrow> h peer;
     Some (h(peer \<mapsto> pr_set_next peers n), Some peer) }"

definition dtls_add_peer :: "peer_heap \<Rightarrow> ptr \<Rightarrow> ptr \<Rightarrow> (peer_heap \<times> ptr \<times> int) option" where
  "dtls_add_peer h peers peer =
     (case peer of
        None \<Rightarrow> Some (h, peers, 0)
      | Some p \<Rightarrow> map_option (\<lambda>(h', q). (h', q, 0)) (add_peer h peers p))"

partial_function (option) dtls_get_peer :: "peer_heap \<Rightarrow> session_t \<Rightarrow> ptr \<Rightarrow> ptr option" where
  "dtls_get_peer h session p =
     (case p of
        None \<Rightarrow> Some None
      | Some a \<Rightarrow>
          (case h a of
             None \<Rightarrow> None
           | Some n \<Rightarrow> (if dtls_session_equals (pr_session n) session then Some (Some a)
                        else dtls_get_peer h session (pr_next n))))"

declare delete_peer_loop.simps [code] dtls_get_peer.simps [code]

text \<open>\<open>dtls_free_peer\<close> frees the handshake parameters, both slots and the peer.\<close>

definition dtls_free_peer ::
  "netq_heap \<Rightarrow> peer_heap \<Rightarrow> nat \<Rightarrow> (netq_heap \<times> peer_heap) option" where
  "dtls_free_peer nh h peer = do {
     p \<leftarrow> h peer;
     nh' \<leftarrow> dtls_handshake_free nh (pr_handshake p);
     Some (nh', h(peer := None)) }"

interpretation pr: linked pr_next pr_set_next pr_payload
  by unfold_locales simp_all

interpretation pru: unlinking pr_next pr_set_next pr_payload delete_peer_loop
  by unfold_locales (rule delete_peer_loop.simps)

abbreviation peer_chain :: "peer_heap \<Rightarrow> ptr \<Rightarrow> nat list \<Rightarrow> bool" where
  "peer_chain \<equiv> chain pr_next"

definition has_session :: "peer_heap \<Rightarrow> session_t \<Rightarrow> nat \<Rightarrow> bool" where
  "has_session h s a \<longleftrightarrow> dtls_session_equals (pr_session (the (h a))) s"

lemma get_peer_find:
  "peer_chain h p as \<Longrightarrow> dtls_get_peer h s p = Some (find (has_session h s) as)"
proof (induction as arbitrary: p)
  case Nil
  then show ?case by (simp add: dtls_get_peer.simps)
next
  case (Cons a as)
  then show ?case
    by (auto simp: dtls_get_peer.simps [of h s "Some a"] has_session_def)
qed

lemma add_peer_chain:
  "peer_chain h q as \<Longrightarrow> h a = Some n \<Longrightarrow> a \<notin> set as \<Longrightarrow>
   peer_chain (h(a \<mapsto> pr_set_next q n)) (Some a) (a # as)"
  by simp

lemma delete_peer_chain:
  assumes c: "peer_chain h q as"
  shows "\<exists>h' q'. delete_peer h q (Some a) = Some (h', q') \<and> peer_chain h' q' (remove1 a as) \<and>
    pr.same_data h h'"
proof (cases "a \<in> set as")
  case True
  then obtain ys zs where s: "as = ys @ a # zs" "a \<notin> set ys" by (meson split_list_first)
  have "q \<noteq> None" using c s by (cases ys) auto
  then have "delete_peer h q (Some a) = delete_peer_loop h q a None q"
    by (auto simp: delete_peer_def)
  moreover have "remove1 a as = ys @ zs" using s by (simp add: remove1_append)
  ultimately show ?thesis using pru.loop_unlinks [of h q ys a zs] c s(1) by auto
next
  case False
  then show ?thesis
    using c pru.loop_absent [OF c False, of q None]
    by (auto simp: delete_peer_def remove1_idem pr.same_data_refl)
qed

lemma same_data_session:
  "pr.same_data h h' \<Longrightarrow> h a = Some n \<Longrightarrow> \<exists>n'. h' a = Some n' \<and> pr_session n' = pr_session n"
  unfolding pr.same_data_def
  by (metis (no_types, lifting) map_option_eq_Some pr_payload_simps(4))

text \<open>The peer list is a map from sessions: after \<open>dtls_add_peer\<close>, looking up a session that
  equals the new peer's finds the new peer and any other lookup gives what it gave before;
  \<open>delete_peer\<close> unlinks exactly the given peer, keeps all other peers and their order, and a
  lookup finds the first remaining peer with an equal session.\<close>

lemma peer_list_correct:
  assumes "peer_chain h q as" and "h a = Some n" and "a \<notin> set as"
  shows "(\<exists>h' q'. dtls_add_peer h q (Some a) = Some (h', q', 0) \<and> peer_chain h' q' (a # as) \<and>
            (\<forall>s. dtls_get_peer h' s q' =
               (if dtls_session_equals (pr_session n) s then Some (Some a)
                else dtls_get_peer h s q))) \<and>
         (\<exists>h' q'. delete_peer h q (Some b) = Some (h', q') \<and> peer_chain h' q' (remove1 b as) \<and>
            (\<forall>s. dtls_get_peer h' s q' = Some (find (has_session h s) (remove1 b as))))"
proof
  let ?h = "h(a \<mapsto> pr_set_next q n)"
  have c: "peer_chain ?h (Some a) (a # as)" by (rule add_peer_chain [OF assms])
  have "find (has_session ?h s) as = find (has_session h s) as" for s
    by (rule find_cong) (use assms(3) in \<open>auto simp: has_session_def\<close>)
  then have "dtls_get_peer ?h s (Some a) =
      (if dtls_session_equals (pr_session n) s then Some (Some a) else dtls_get_peer h s q)" for s
    using get_peer_find [OF c] get_peer_find [OF assms(1)] by (simp add: has_session_def)
  moreover have "dtls_add_peer h q (Some a) = Some (?h, Some a, 0)"
    using assms(2) by (simp add: dtls_add_peer_def add_peer_def)
  ultimately show "\<exists>h' q'. dtls_add_peer h q (Some a) = Some (h', q', 0) \<and>
      peer_chain h' q' (a # as) \<and>
      (\<forall>s. dtls_get_peer h' s q' =
         (if dtls_session_equals (pr_session n) s then Some (Some a) else dtls_get_peer h s q))"
    using c by blast
next
  obtain h' q' where d: "delete_peer h q (Some b) = Some (h', q')"
    "peer_chain h' q' (remove1 b as)" "pr.same_data h h'"
    using delete_peer_chain [OF assms(1)] by blast
  have "has_session h' s x = has_session h s x" if "x \<in> set (remove1 b as)" for s x
    using that chain_mapped [OF assms(1), of x] same_data_session [OF d(3)] set_remove1_subset [of b as]
    by (fastforce simp: has_session_def)
  then have "find (has_session h' s) (remove1 b as) = find (has_session h s) (remove1 b as)" for s
    by (intro find_cong) auto
  then show "\<exists>h' q'. delete_peer h q (Some b) = Some (h', q') \<and>
      peer_chain h' q' (remove1 b as) \<and>
      (\<forall>s. dtls_get_peer h' s q' = Some (find (has_session h s) (remove1 b as)))"
    using d get_peer_find [OF d(2)] by auto
qed

definition peer_example :: "u16 \<Rightarrow> dtls_peer_t" where
  "peer_example port = the (dtls_new_peer True True
     \<lparr>ss_size = 16, ss_addr = AF_INET port [127, 0, 0, 1], ss_ifindex = 0\<rparr>)"

lemma peer_list_correct_witness:
  "\<exists>h' q'. dtls_add_peer [1 \<mapsto> peer_example 1, 2 \<mapsto> peer_example 2] (Some 1) (Some 2) =
      Some (h', q', 0) \<and> peer_chain h' q' [2, 1] \<and>
      dtls_get_peer h' (pr_session (peer_example 1)) q' = Some (Some 1)"
proof -
  let ?h = "[1 \<mapsto> peer_example 1, 2 \<mapsto> peer_example 2]"
  have ex: "pr_next (peer_example p) = None" "pr_session (peer_example p) =
      \<lparr>ss_size = 16, ss_addr = AF_INET p [127, 0, 0, 1], ss_ifindex = 0\<rparr>" for p
    by (simp_all add: peer_example_def dtls_new_peer_def dtls_security_new_def)
  have c: "peer_chain ?h (Some 1) [1]" "?h 2 = Some (peer_example 2)" "2 \<notin> set [1 :: nat]"
    by (simp_all add: ex)
  have g: "dtls_get_peer ?h (pr_session (peer_example 1)) (Some 1) = Some (Some 1)"
    using get_peer_find [OF c(1)] by (simp add: has_session_def ex dtls_session_equals_def)
  have "\<not> dtls_session_equals (pr_session (peer_example 2)) (pr_session (peer_example 1))"
    by (simp add: ex dtls_session_equals_def)
  moreover obtain h' q' where "dtls_add_peer ?h (Some 1) (Some 2) = Some (h', q', 0)"
    "peer_chain h' q' [2, 1]"
    "\<forall>s. dtls_get_peer h' s q' = (if dtls_session_equals (pr_session (peer_example 2)) s
       then Some (Some 2) else dtls_get_peer ?h s (Some 1))"
    using peer_list_correct [OF c, of 1, THEN conjunct1] by blast
  ultimately show ?thesis using g by (intro exI [of _ h'] exI [of _ q']) simp
qed

text \<open>Session equality is symmetric and transitive, and reflexive exactly for the internet
  address families: a session of another family never equals any session, itself included, so a
  peer with such a session can never be found.\<close>

lemma session_equals_per:
  "(dtls_session_equals a b = dtls_session_equals b a) \<and>
   (dtls_session_equals a b \<longrightarrow> dtls_session_equals b c \<longrightarrow> dtls_session_equals a c) \<and>
   (dtls_session_equals a a \<longleftrightarrow> (case ss_addr a of AF_OTHER _ _ \<Rightarrow> False | _ \<Rightarrow> True))"
  by (auto simp: dtls_session_equals_def split: sockaddr.splits if_splits)

lemma session_equals_per_witness:
  "dtls_session_equals (pr_session (peer_example 1)) (pr_session (peer_example 1))"
  using session_equals_per [of "pr_session (peer_example 1)" "pr_session (peer_example 1)"
      "pr_session (peer_example 1)"]
  by (simp add: peer_example_def dtls_new_peer_def dtls_security_new_def)

text \<open>C31: The two slots of security parameters through a rekeying: \<open>dtls_security_params_next\<close>
  prepares fresh null-cipher parameters for the following epoch in the spare slot,
  \<open>dtls_security_params_switch\<close> makes them current and keeps the old ones findable by their epoch,
  and \<open>dtls_security_params_free_other\<close> then drops exactly the old ones; before the switch it
  would drop nothing, unless the epoch counter has wrapped around.\<close>

theorem rekey_epochs:
  assumes "pr_security0 peer = Some s0" and "sp_epoch s0 = e"
  shows "\<exists>p1. dtls_security_params_next True peer = Some (p1, True) \<and>
    (let p2 = dtls_security_params_switch p1; p3 = dtls_security_params_free_other p2 in
     pr_security0 p1 = Some s0 \<and> dtls_security_params_epoch p1 (e + 1) = Some 1 \<and>
     dtls_security_params_epoch p2 (e + 1) = Some 0 \<and> dtls_security_params_epoch p2 e = Some 1 \<and>
     security_slot p2 1 = Some s0 \<and>
     map_option sp_cipher (dtls_security_params p2) = Some TLS_NULL_WITH_NULL_NULL \<and>
     (e \<noteq> - 1 \<longrightarrow> dtls_security_params_free_other p1 = p1 \<and> dtls_security_params_epoch p3 e = None \<and>
        dtls_security_params_epoch p3 (e + 1) = Some 0))"
proof -
  have ne: "e + 1 \<noteq> e" by simp
  have lt: "e < e + 1" if "e \<noteq> - 1"
  proof -
    have "1 + e \<noteq> 0" using that by (metis add.commute add_eq_0_iff)
    then have "unat (e + 1) = Suc (unat e)" by (metis unatSuc add.commute)
    then show ?thesis by (simp add: word_less_nat_alt)
  qed
  then have "\<not> e + 1 < e" if "e \<noteq> - 1" using that by (metis less_asym)
  then show ?thesis
    using assms ne lt
    by (auto simp: dtls_security_params_next_def dtls_security_new_def Let_def
        dtls_security_params_switch_def dtls_security_params_free_other_def security_slot_def
        dtls_security_params_epoch_def dtls_security_params_def)
qed

lemma rekey_epochs_witness:
  "\<exists>p1. dtls_security_params_next True (peer_example 1) = Some (p1, True) \<and>
     dtls_security_params_epoch (dtls_security_params_switch p1) 1 = Some 0"
proof -
  have p: "pr_security0 (peer_example 1) = Some (the (dtls_security_new True))"
    "sp_epoch (the (dtls_security_new True)) = 0"
    by (simp_all add: peer_example_def dtls_new_peer_def dtls_security_new_def)
  show ?thesis using rekey_epochs [OF p] by (auto simp: Let_def)
qed

end
