(* ===== verification/Rijndael.thy ===== *)
theory Rijndael
  imports Rijndael_Tables
begin

text \<open>
  The AES encryption of \<open>aes/rijndael.c\<close> (built without \<open>WITH_AES_DECRYPT\<close> and without
  \<open>FULL_UNROLL\<close>): key setup and table-driven encryption, and the byte-level cipher and key
  expansion of FIPS 197 that they implement for 128-bit keys. The context has room for the key
  schedule of ten rounds only; key setup writes past it for the longer keys it also accepts.
\<close>

subsection \<open>The code\<close>

definition GETU32 :: "bytes \<Rightarrow> nat \<Rightarrow> u32 option" where
  "GETU32 pt i = do {
     b0 \<leftarrow> rd pt i; b1 \<leftarrow> rd pt (i + 1); b2 \<leftarrow> rd pt (i + 2); b3 \<leftarrow> rd pt (i + 3);
     Some (push_bit 24 (ucast b0) XOR push_bit 16 (ucast b1) XOR push_bit 8 (ucast b2) XOR ucast b3) }"

definition PUTU32 :: "u32 \<Rightarrow> bytes" where
  "PUTU32 st = [ucast (drop_bit 24 st), ucast (drop_bit 16 st), ucast (drop_bit 8 st), ucast st]"

definition rcon :: "u32 list" where
  "rcon = [0x01000000, 0x02000000, 0x04000000, 0x08000000, 0x10000000, 0x20000000, 0x40000000,
    0x80000000, 0x1B000000, 0x36000000]"

text \<open>Guarded access to an array of words.\<close>

definition rw :: "u32 list \<Rightarrow> nat \<Rightarrow> u32 option" where
  "rw a i = (if i < length a then Some (a ! i) else None)"

definition ww :: "u32 list \<Rightarrow> nat \<Rightarrow> u32 \<Rightarrow> u32 list option" where
  "ww a i v = (if i < length a then Some (a[i := v]) else None)"

lemma rw_Some [simp]: "i < length a \<Longrightarrow> rw a i = Some (a ! i)"
  by (simp add: rw_def)

lemma ww_Some [simp]: "i < length a \<Longrightarrow> ww a i v = Some (a[i := v])"
  by (simp add: ww_def)

lemma ww_None [simp]: "length a \<le> i \<Longrightarrow> ww a i v = None"
  by (simp add: ww_def)

definition byte3 :: "u32 \<Rightarrow> nat" where "byte3 s = unat (drop_bit 24 s)"

definition byte2 :: "u32 \<Rightarrow> nat" where "byte2 s = unat (drop_bit 16 s AND 0xff)"

definition byte1 :: "u32 \<Rightarrow> nat" where "byte1 s = unat (drop_bit 8 s AND 0xff)"

definition byte0 :: "u32 \<Rightarrow> nat" where "byte0 s = unat (s AND 0xff)"

text \<open>Four lookups in \<open>Te4\<close>, one per byte of the result.\<close>

definition te4_word :: "nat \<Rightarrow> nat \<Rightarrow> nat \<Rightarrow> nat \<Rightarrow> u32" where
  "te4_word a b c d =
     (Te4 ! a AND 0xff000000) XOR (Te4 ! b AND 0x00ff0000) XOR (Te4 ! c AND 0x0000ff00) XOR
     (Te4 ! d AND 0x000000ff)"

definition key_core :: "u32 \<Rightarrow> nat \<Rightarrow> u32 option" where
  "key_core temp i = do {
     c \<leftarrow> rw rcon i;
     Some (te4_word (byte2 temp) (byte1 temp) (byte0 temp) (byte3 temp) XOR c) }"

text \<open>\<open>rk[k] = rk[i] ^ rk[j]\<close>, relative to the moving pointer \<open>b\<close>.\<close>

definition xw :: "u32 list \<Rightarrow> nat \<Rightarrow> nat \<Rightarrow> nat \<Rightarrow> nat \<Rightarrow> u32 list option" where
  "xw rk b k i j = do { u \<leftarrow> rw rk (b + i); v \<leftarrow> rw rk (b + j); ww rk (b + k) (u XOR v) }"

partial_function (option) setup128 :: "u32 list \<Rightarrow> nat \<Rightarrow> nat \<Rightarrow> (u32 list \<times> nat) option" where
  "setup128 rk b i = do {
     temp \<leftarrow> rw rk (b + 3);
     c \<leftarrow> key_core temp i;
     r0 \<leftarrow> rw rk b;
     rk \<leftarrow> ww rk (b + 4) (r0 XOR c);
     rk \<leftarrow> xw rk b 5 1 4;
     rk \<leftarrow> xw rk b 6 2 5;
     rk \<leftarrow> xw rk b 7 3 6;
     if i + 1 = 10 then Some (rk, 10) else setup128 rk (b + 4) (i + 1) }"

partial_function (option) setup192 :: "u32 list \<Rightarrow> nat \<Rightarrow> nat \<Rightarrow> (u32 list \<times> nat) option" where
  "setup192 rk b i = do {
     temp \<leftarrow> rw rk (b + 5);
     c \<leftarrow> key_core temp i;
     r0 \<leftarrow> rw rk b;
     rk \<leftarrow> ww rk (b + 6) (r0 XOR c);
     rk \<leftarrow> xw rk b 7 1 6;
     rk \<leftarrow> xw rk b 8 2 7;
     rk \<leftarrow> xw rk b 9 3 8;
     if i + 1 = 8 then Some (rk, 12) else do {
       rk \<leftarrow> xw rk b 10 4 9;
       rk \<leftarrow> xw rk b 11 5 10;
       setup192 rk (b + 6) (i + 1) } }"

partial_function (option) setup256 :: "u32 list \<Rightarrow> nat \<Rightarrow> nat \<Rightarrow> (u32 list \<times> nat) option" where
  "setup256 rk b i = do {
     temp \<leftarrow> rw rk (b + 7);
     c \<leftarrow> key_core temp i;
     r0 \<leftarrow> rw rk b;
     rk \<leftarrow> ww rk (b + 8) (r0 XOR c);
     rk \<leftarrow> xw rk b 9 1 8;
     rk \<leftarrow> xw rk b 10 2 9;
     rk \<leftarrow> xw rk b 11 3 10;
     if i + 1 = 7 then Some (rk, 14) else do {
       temp \<leftarrow> rw rk (b + 11);
       r4 \<leftarrow> rw rk (b + 4);
       rk \<leftarrow> ww rk (b + 12)
               (r4 XOR te4_word (byte3 temp) (byte2 temp) (byte1 temp) (byte0 temp));
       rk \<leftarrow> xw rk b 13 5 12;
       rk \<leftarrow> xw rk b 14 6 13;
       rk \<leftarrow> xw rk b 15 7 14;
       setup256 rk (b + 8) (i + 1) } }"

declare setup128.simps [code] setup192.simps [code] setup256.simps [code]

definition rijndaelKeySetupEnc :: "u32 list \<Rightarrow> bytes \<Rightarrow> nat \<Rightarrow> (u32 list \<times> nat) option" where
  "rijndaelKeySetupEnc rk cipherKey keyBits = do {
     k \<leftarrow> GETU32 cipherKey 0; rk \<leftarrow> ww rk 0 k;
     k \<leftarrow> GETU32 cipherKey 4; rk \<leftarrow> ww rk 1 k;
     k \<leftarrow> GETU32 cipherKey 8; rk \<leftarrow> ww rk 2 k;
     k \<leftarrow> GETU32 cipherKey 12; rk \<leftarrow> ww rk 3 k;
     if keyBits = 128 then setup128 rk 0 0 else do {
       k \<leftarrow> GETU32 cipherKey 16; rk \<leftarrow> ww rk 4 k;
       k \<leftarrow> GETU32 cipherKey 20; rk \<leftarrow> ww rk 5 k;
       if keyBits = 192 then setup192 rk 0 0 else do {
         k \<leftarrow> GETU32 cipherKey 24; rk \<leftarrow> ww rk 6 k;
         k \<leftarrow> GETU32 cipherKey 28; rk \<leftarrow> ww rk 7 k;
         if keyBits = 256 then setup256 rk 0 0 else Some (rk, 0) } } }"

record rijndael_ctx =
  aes_Nr :: nat
  aes_ek :: "u32 list"

definition rijndael_set_key_enc_only :: "rijndael_ctx \<Rightarrow> bytes \<Rightarrow> nat \<Rightarrow> (rijndael_ctx \<times> int) option" where
  "rijndael_set_key_enc_only ctx key bits = do {
     (ek, rounds) \<leftarrow> rijndaelKeySetupEnc (aes_ek ctx) key bits;
     if rounds = 0 then Some (ctx\<lparr>aes_ek := ek\<rparr>, -1)
     else Some (ctx\<lparr>aes_ek := ek, aes_Nr := rounds\<rparr>, 0) }"

definition te_word :: "u32 \<Rightarrow> u32 \<Rightarrow> u32 \<Rightarrow> u32 \<Rightarrow> u32 \<Rightarrow> u32" where
  "te_word a b c d k =
     Te0 ! byte3 a XOR Te1 ! byte2 b XOR Te2 ! byte1 c XOR Te3 ! byte0 d XOR k"

type_synonym cols = "u32 \<times> u32 \<times> u32 \<times> u32"

text \<open>One full round with the round key at \<open>rk[o .. o + 3]\<close>.\<close>

definition te_round :: "u32 list \<Rightarrow> nat \<Rightarrow> cols \<Rightarrow> cols option" where
  "te_round rk i = (\<lambda>(s0, s1, s2, s3). do {
     k0 \<leftarrow> rw rk i; k1 \<leftarrow> rw rk (i + 1); k2 \<leftarrow> rw rk (i + 2); k3 \<leftarrow> rw rk (i + 3);
     Some (te_word s0 s1 s2 s3 k0, te_word s1 s2 s3 s0 k1,
           te_word s2 s3 s0 s1 k2, te_word s3 s0 s1 s2 k3) })"

text \<open>The loop over pairs of rounds; the result is the state and the pointer to the last round
  key. With a round count below two the decrement of \<open>r\<close> passes zero and the loop leaves the key
  schedule.\<close>

fun enc_loop :: "u32 list \<Rightarrow> nat \<Rightarrow> nat \<Rightarrow> cols \<Rightarrow> (cols \<times> nat) option" where
  "enc_loop rk b 0 s = None"
| "enc_loop rk b (Suc r) s = do {
     t \<leftarrow> te_round rk (b + 4) s;
     if r = 0 then Some (t, b + 8)
     else do { s \<leftarrow> te_round rk (b + 8) t; enc_loop rk (b + 8) r s } }"

definition last_word :: "u32 \<Rightarrow> u32 \<Rightarrow> u32 \<Rightarrow> u32 \<Rightarrow> u32 \<Rightarrow> u32" where
  "last_word a b c d k = te4_word (byte3 a) (byte2 b) (byte1 c) (byte0 d) XOR k"

definition rijndaelEncrypt :: "u32 list \<Rightarrow> nat \<Rightarrow> bytes \<Rightarrow> bytes option" where
  "rijndaelEncrypt rk Nr pt = do {
     p0 \<leftarrow> GETU32 pt 0; p1 \<leftarrow> GETU32 pt 4; p2 \<leftarrow> GETU32 pt 8; p3 \<leftarrow> GETU32 pt 12;
     k0 \<leftarrow> rw rk 0; k1 \<leftarrow> rw rk 1; k2 \<leftarrow> rw rk 2; k3 \<leftarrow> rw rk 3;
     ((t0, t1, t2, t3), b) \<leftarrow> enc_loop rk 0 (Nr div 2)
        (p0 XOR k0, p1 XOR k1, p2 XOR k2, p3 XOR k3);
     k0 \<leftarrow> rw rk b; k1 \<leftarrow> rw rk (b + 1); k2 \<leftarrow> rw rk (b + 2); k3 \<leftarrow> rw rk (b + 3);
     Some (PUTU32 (last_word t0 t1 t2 t3 k0) @ PUTU32 (last_word t1 t2 t3 t0 k1) @
           PUTU32 (last_word t2 t3 t0 t1 k2) @ PUTU32 (last_word t3 t0 t1 t2 k3)) }"

definition rijndael_encrypt :: "rijndael_ctx \<Rightarrow> bytes \<Rightarrow> bytes option" where
  "rijndael_encrypt ctx src = rijndaelEncrypt (aes_ek ctx) (aes_Nr ctx) src"

subsection \<open>FIPS 197\<close>

text \<open>The state as four columns of four bytes.\<close>

definition SubBytes :: "bytes \<Rightarrow> bytes" where
  "SubBytes st = map (\<lambda>b. sbox ! unat b) st"

definition ShiftRows :: "bytes \<Rightarrow> bytes" where
  "ShiftRows st = map (\<lambda>i. st ! (4 * ((i div 4 + i mod 4) mod 4) + i mod 4)) [0..<16]"

fun MixColumn :: "bytes \<Rightarrow> bytes" where
  "MixColumn [a, b, c, d] =
     [xtime a XOR (xtime b XOR b) XOR c XOR d, a XOR xtime b XOR (xtime c XOR c) XOR d,
      a XOR b XOR xtime c XOR (xtime d XOR d), (xtime a XOR a) XOR b XOR c XOR xtime d]"
| "MixColumn xs = xs"

definition MixColumns :: "bytes \<Rightarrow> bytes" where
  "MixColumns st = concat (map (\<lambda>c. MixColumn (take 4 (drop (4 * c) st))) [0..<4])"

definition RoundKey :: "(nat \<Rightarrow> u32) \<Rightarrow> nat \<Rightarrow> bytes" where
  "RoundKey w r = be_bytes 4 (unat (w (4 * r))) @ be_bytes 4 (unat (w (4 * r + 1))) @
     be_bytes 4 (unat (w (4 * r + 2))) @ be_bytes 4 (unat (w (4 * r + 3)))"

definition aes_round :: "(nat \<Rightarrow> u32) \<Rightarrow> nat \<Rightarrow> bytes \<Rightarrow> bytes" where
  "aes_round w r st = xor_bytes (MixColumns (ShiftRows (SubBytes st))) (RoundKey w r)"

definition Cipher :: "(nat \<Rightarrow> u32) \<Rightarrow> nat \<Rightarrow> bytes \<Rightarrow> bytes" where
  "Cipher w Nr input =
     (let st = xor_bytes input (RoundKey w 0);
          st = fold (aes_round w) [1..<Nr] st
      in xor_bytes (ShiftRows (SubBytes st)) (RoundKey w Nr))"

definition SubWord :: "u32 \<Rightarrow> u32" where
  "SubWord w = word_of_nat (be_nat (SubBytes (be_bytes 4 (unat w))))"

definition RotWord :: "u32 \<Rightarrow> u32" where
  "RotWord w = word_of_nat (be_nat (rotate1 (be_bytes 4 (unat w))))"

fun KeyExpansion :: "bytes \<Rightarrow> nat \<Rightarrow> u32" where
  "KeyExpansion key i =
     (if i < 4 then word_of_nat (be_nat (take 4 (drop (4 * i) key)))
      else KeyExpansion key (i - 4) XOR
        (if i mod 4 = 0 then SubWord (RotWord (KeyExpansion key (i - 1))) XOR rcon ! (i div 4 - 1)
         else KeyExpansion key (i - 1)))"

declare KeyExpansion.simps [simp del]

definition AES128 :: "bytes \<Rightarrow> bytes \<Rightarrow> bytes" where
  "AES128 key input = Cipher (KeyExpansion key) 10 input"

end
