(* ===== verification/Rijndael_Correct.thy ===== *)
theory Rijndael_Correct
  imports Rijndael
begin

text \<open>
  The table-driven cipher implements FIPS 197 for 128-bit keys: one round of table lookups is
  SubBytes, ShiftRows, MixColumns and AddRoundKey, and the key setup is the key expansion.
\<close>

subsection \<open>Words and columns\<close>

lemma PUTU32_be: "PUTU32 w = be_bytes 4 (unat w)"
  using drop_byte [of 24 w] drop_byte [of 16 w] drop_byte [of 8 w] drop_byte [of 0 w]
  by (simp add: PUTU32_def be_bytes_4 be_bytes_3)

lemma word_of_bytes_be: "word_of_bytes a b c d = word_of_nat (be_nat [a, b, c, d])"
  unfolding be_nat_word32 word_of_bytes_def ..

lemma PUTU32_word_of_bytes [simp]: "PUTU32 (word_of_bytes a b c d) = [a, b, c, d]"
proof -
  have "unat (word_of_nat (be_nat [a, b, c, d]) :: u32) = be_nat [a, b, c, d] mod 256 ^ 4"
    by (simp add: unsigned_of_nat take_bit_eq_mod del: be_nat.simps)
  then have "be_bytes 4 (unat (word_of_nat (be_nat [a, b, c, d]) :: u32)) =
      be_bytes 4 (be_nat [a, b, c, d])"
    by (simp only: be_bytes_mod)
  moreover have "be_bytes (length [a, b, c, d]) (be_nat [a, b, c, d]) = [a, b, c, d]"
    by (rule be_bytes_be_nat)
  moreover have "length [a, b, c, d] = 4" by simp
  ultimately show ?thesis
    unfolding PUTU32_be word_of_bytes_be by (simp only:)
qed

lemma PUTU32_inj: "PUTU32 x = PUTU32 y \<Longrightarrow> x = y"
proof -
  assume "PUTU32 x = PUTU32 y"
  then have "be_nat (be_bytes 4 (unat x)) = be_nat (be_bytes 4 (unat y))"
    by (simp only: PUTU32_be)
  moreover have "unat x < 2 ^ LENGTH(32)" "unat y < 2 ^ LENGTH(32)" by (rule unsigned_less)+
  ultimately show "x = y" by (simp add: be_nat_be_bytes word_unat_eq_iff)
qed

lemma PUTU32_bytes: "\<exists>a b c d. w = word_of_bytes a b c d"
proof -
  obtain a b c d where "PUTU32 w = [a, b, c, d]" by (simp add: PUTU32_def)
  then have "PUTU32 w = PUTU32 (word_of_bytes a b c d)" by simp
  then show ?thesis using PUTU32_inj by blast
qed

lemma length_PUTU32 [simp]: "length (PUTU32 w) = 4"
  by (simp add: PUTU32_def)

lemma PUTU32_xor: "PUTU32 (x XOR y) = xor_bytes (PUTU32 x) (PUTU32 y)"
proof -
  have u: "(ucast (p XOR q) :: u8) = ucast p XOR ucast q" for p q :: u32
    by (rule bit_word_eqI) (auto simp: bit_simps)
  show ?thesis by (simp add: PUTU32_def drop_bit_xor u)
qed

lemma byte_masks:
  "(0xff :: u32) = mask 8" "(0xff000000 :: u32) = push_bit 24 (mask 8)"
  "(0x00ff0000 :: u32) = push_bit 16 (mask 8)" "(0x0000ff00 :: u32) = push_bit 8 (mask 8)"
  by (simp_all add: mask_eq_exp_minus_1 push_bit_eq_mult)

lemma unat_word_of_bytes:
  "unat (word_of_bytes a b c d) = ((unat a * 256 + unat b) * 256 + unat c) * 256 + unat d"
proof -
  have "be_nat [a, b, c, d] < 256 ^ 4" using be_nat_less [of "[a, b, c, d]"] by simp
  then have "unat (word_of_bytes a b c d) = be_nat [a, b, c, d]"
    unfolding word_of_bytes_be by (simp add: unsigned_of_nat take_bit_eq_mod del: be_nat.simps)
  then show ?thesis by simp
qed

lemma unat_byte: "unat (drop_bit n w AND 0xff) = unat w div 2 ^ n mod 256" for w :: u32
proof -
  have "drop_bit n w AND 0xff = take_bit 8 (drop_bit n w)"
    unfolding byte_masks(1) by (simp add: take_bit_eq_mask)
  then have "unat (drop_bit n w AND 0xff) = take_bit 8 (unat (drop_bit n w))"
    by (simp only: unsigned_take_bit_eq)
  then show ?thesis unfolding unat_drop_bit_eq by (simp add: drop_bit_eq_div take_bit_eq_mod)
qed

lemma byte_of_word [simp]:
  "byte3 (word_of_bytes a b c d) = unat a" "byte2 (word_of_bytes a b c d) = unat b"
  "byte1 (word_of_bytes a b c d) = unat c" "byte0 (word_of_bytes a b c d) = unat d"
proof -
  have l: "unat a < 256" "unat b < 256" "unat c < 256" "unat d < 256" by simp_all
  have d: "(x * 256 + y) div 256 = x" "(x * 256 + y) mod 256 = y" if "y < 256" for x y :: nat
    using that by simp_all
  let ?w = "word_of_bytes a b c d"
  have dd: "n div 2 ^ 8 = n div 256" "n div 2 ^ 16 = n div 256 div 256"
    "n div 2 ^ 24 = n div 256 div 256 div 256" for n :: nat
    by (simp_all flip: div_mult2_eq)
  have "unat (drop_bit 24 ?w) = unat ?w div 2 ^ 24"
    unfolding unat_drop_bit_eq by (rule drop_bit_eq_div)
  also have "\<dots> = unat a" unfolding dd unat_word_of_bytes using l by (simp only: d)
  finally show "byte3 ?w = unat a" by (simp only: byte3_def)
  show "byte2 ?w = unat b"
    unfolding byte2_def unat_byte dd unat_word_of_bytes using l by (simp only: d)
  show "byte1 ?w = unat c"
    unfolding byte1_def unat_byte dd unat_word_of_bytes using l by (simp only: d)
  show "byte0 ?w = unat d"
  proof -
    have "unat (?w AND 0xff) = unat ?w mod 256" using unat_byte [of 0 ?w] by simp
    then show ?thesis using l unfolding byte0_def unat_word_of_bytes by (simp only: d)
  qed
qed

subsection \<open>Rounds\<close>

lemma Te_nth [simp]:
  "i < 256 \<Longrightarrow> Te0 ! i = word_of_bytes (xtime (sbox ! i)) (sbox ! i) (sbox ! i) (xtime (sbox ! i) XOR sbox ! i)"
  "i < 256 \<Longrightarrow> Te1 ! i = word_of_bytes (xtime (sbox ! i) XOR sbox ! i) (xtime (sbox ! i)) (sbox ! i) (sbox ! i)"
  "i < 256 \<Longrightarrow> Te2 ! i = word_of_bytes (sbox ! i) (xtime (sbox ! i) XOR sbox ! i) (xtime (sbox ! i)) (sbox ! i)"
  "i < 256 \<Longrightarrow> Te3 ! i = word_of_bytes (sbox ! i) (sbox ! i) (xtime (sbox ! i) XOR sbox ! i) (xtime (sbox ! i))"
  "i < 256 \<Longrightarrow> Te4 ! i = word_of_bytes (sbox ! i) (sbox ! i) (sbox ! i) (sbox ! i)"
  by (simp_all add: Te0_sbox Te1_sbox Te2_sbox Te3_sbox Te4_sbox)

lemma word_of_bytes_mask:
  "word_of_bytes a b c d AND 0xff000000 = word_of_bytes a 0 0 0"
  "word_of_bytes a b c d AND 0x00ff0000 = word_of_bytes 0 b 0 0"
  "word_of_bytes a b c d AND 0x0000ff00 = word_of_bytes 0 0 c 0"
  "word_of_bytes a b c d AND 0x000000ff = word_of_bytes 0 0 0 d"
proof -
  have P: "PUTU32 (x AND y) = map2 (AND) (PUTU32 x) (PUTU32 y)" for x y
  proof -
    have u: "(ucast (p AND q) :: u8) = ucast p AND ucast q" for p q :: u32
      by (rule bit_word_eqI) (auto simp: bit_simps)
    show ?thesis by (simp add: PUTU32_def u)
  qed
  have M: "PUTU32 0xff000000 = [255, 0, 0, 0]" "PUTU32 0x00ff0000 = [0, 255, 0, 0]"
    "PUTU32 0x0000ff00 = [0, 0, 255, 0]" "PUTU32 0x000000ff = [0, 0, 0, 255]"
    by (simp_all add: PUTU32_def)
  show "word_of_bytes a b c d AND 0xff000000 = word_of_bytes a 0 0 0"
    "word_of_bytes a b c d AND 0x00ff0000 = word_of_bytes 0 b 0 0"
    "word_of_bytes a b c d AND 0x0000ff00 = word_of_bytes 0 0 c 0"
    "word_of_bytes a b c d AND 0x000000ff = word_of_bytes 0 0 0 d"
    by (rule PUTU32_inj, simp add: P M)+
qed

lemma te4_word_PUTU32:
  "a < 256 \<Longrightarrow> b < 256 \<Longrightarrow> c < 256 \<Longrightarrow> d < 256 \<Longrightarrow>
   PUTU32 (te4_word a b c d) = [sbox ! a, sbox ! b, sbox ! c, sbox ! d]"
  by (simp add: te4_word_def word_of_bytes_mask PUTU32_xor)

definition col_bytes :: "cols \<Rightarrow> bytes" where
  "col_bytes = (\<lambda>(s0, s1, s2, s3). PUTU32 s0 @ PUTU32 s1 @ PUTU32 s2 @ PUTU32 s3)"

lemma length_col_bytes [simp]: "length (col_bytes s) = 16"
  by (simp add: col_bytes_def split: prod.split)

lemma col_bytes_cases: "\<exists>a0 b0 c0 d0 a1 b1 c1 d1 a2 b2 c2 d2 a3 b3 c3 d3.
  s = (word_of_bytes a0 b0 c0 d0, word_of_bytes a1 b1 c1 d1, word_of_bytes a2 b2 c2 d2,
       word_of_bytes a3 b3 c3 d3)"
  using PUTU32_bytes by (metis prod_cases4)

lemma upt_16: "[0..<16] = [0, 1, 2, 3, 4, 5, 6, 7, 8, 9, 10, 11, 12, 13, 14, 15 :: nat]"
  by (simp add: upt_rec)

lemma te_word_mix:
  "PUTU32 (te_word (word_of_bytes a0 b0 c0 d0) (word_of_bytes a1 b1 c1 d1)
      (word_of_bytes a2 b2 c2 d2) (word_of_bytes a3 b3 c3 d3) k) =
   xor_bytes (MixColumn [sbox ! unat a0, sbox ! unat b1, sbox ! unat c2, sbox ! unat d3]) (PUTU32 k)"
  unfolding te_word_def PUTU32_xor byte_of_word
  by (simp add: PUTU32_def [of k] xor.assoc xor.left_commute)

lemma length_MixColumn4: "length (MixColumn [a, b, c, d]) = 4"
  by simp

lemma te_round_spec:
  assumes "te_round rk (4 * r) s = Some t" and "\<And>i. i < 4 \<Longrightarrow> rk ! (4 * r + i) = w (4 * r + i)"
  shows "col_bytes t = aes_round w r (col_bytes s)"
proof -
  obtain a0 b0 c0 d0 a1 b1 c1 d1 a2 b2 c2 d2 a3 b3 c3 d3 where
    s: "s = (word_of_bytes a0 b0 c0 d0, word_of_bytes a1 b1 c1 d1, word_of_bytes a2 b2 c2 d2,
       word_of_bytes a3 b3 c3 d3)"
    using col_bytes_cases [of s] by (elim exE) (rule that)
  have "4 * r + 3 < length rk"
    using assms(1) by (auto simp: te_round_def rw_def split: prod.splits if_splits option.splits)
  then have t: "t = (te_word (word_of_bytes a0 b0 c0 d0) (word_of_bytes a1 b1 c1 d1)
        (word_of_bytes a2 b2 c2 d2) (word_of_bytes a3 b3 c3 d3) (w (4 * r)),
      te_word (word_of_bytes a1 b1 c1 d1) (word_of_bytes a2 b2 c2 d2)
        (word_of_bytes a3 b3 c3 d3) (word_of_bytes a0 b0 c0 d0) (w (4 * r + 1)),
      te_word (word_of_bytes a2 b2 c2 d2) (word_of_bytes a3 b3 c3 d3)
        (word_of_bytes a0 b0 c0 d0) (word_of_bytes a1 b1 c1 d1) (w (4 * r + 2)),
      te_word (word_of_bytes a3 b3 c3 d3) (word_of_bytes a0 b0 c0 d0)
        (word_of_bytes a1 b1 c1 d1) (word_of_bytes a2 b2 c2 d2) (w (4 * r + 3)))"
    using assms(1) assms(2) [of 0] assms(2) [of 1] assms(2) [of 2] assms(2) [of 3]
    by (simp add: te_round_def s)
  have "ShiftRows (SubBytes (col_bytes s)) =
      [sbox ! unat a0, sbox ! unat b1, sbox ! unat c2, sbox ! unat d3,
       sbox ! unat a1, sbox ! unat b2, sbox ! unat c3, sbox ! unat d0,
       sbox ! unat a2, sbox ! unat b3, sbox ! unat c0, sbox ! unat d1,
       sbox ! unat a3, sbox ! unat b0, sbox ! unat c1, sbox ! unat d2]"
    by (simp add: s col_bytes_def SubBytes_def ShiftRows_def upt_16)
  moreover have "[0..<4] = [0, 1, 2, 3 :: nat]" by (simp add: upt_rec)
  ultimately have "MixColumns (ShiftRows (SubBytes (col_bytes s))) =
      MixColumn [sbox ! unat a0, sbox ! unat b1, sbox ! unat c2, sbox ! unat d3] @
      MixColumn [sbox ! unat a1, sbox ! unat b2, sbox ! unat c3, sbox ! unat d0] @
      MixColumn [sbox ! unat a2, sbox ! unat b3, sbox ! unat c0, sbox ! unat d1] @
      MixColumn [sbox ! unat a3, sbox ! unat b0, sbox ! unat c1, sbox ! unat d2]"
    by (simp add: MixColumns_def del: MixColumn.simps)
  then show ?thesis
    unfolding aes_round_def RoundKey_def t PUTU32_be [symmetric]
    by (simp add: col_bytes_def te_word_mix xor_bytes_append length_MixColumn4 del: MixColumn.simps)
qed

subsection \<open>Encryption\<close>

lemma te_round_Some: "4 * r + 3 < length rk \<Longrightarrow> \<exists>t. te_round rk (4 * r) s = Some t"
  by (auto simp: te_round_def split: prod.split)

lemma enc_loop_spec:
  assumes "\<And>i. i < length rk \<Longrightarrow> rk ! i = w i" and "0 < n" and "8 * n + 4 * b \<le> length rk"
  shows "\<exists>t. enc_loop rk (4 * b) n s = Some (t, 4 * b + 8 * n) \<and>
    col_bytes t = fold (aes_round w) [b + 1..<b + 2 * n] (col_bytes s)"
  using assms(2,3)
proof (induction n arbitrary: b s)
  case 0
  then show ?case by simp
next
  case (Suc n)
  obtain t where t: "te_round rk (4 * (b + 1)) s = Some t"
    using te_round_Some [of "b + 1" rk s] Suc.prems by auto
  have ct: "col_bytes t = aes_round w (b + 1) (col_bytes s)"
    by (rule te_round_spec [OF t]) (rule assms(1), use Suc.prems in simp)
  show ?case
  proof (cases "n = 0")
    case True
    then show ?thesis using t ct by (simp add: algebra_simps)
  next
    case False
    obtain u where u: "te_round rk (4 * (b + 2)) t = Some u"
      using te_round_Some [of "b + 2" rk t] Suc.prems False by auto
    have cu: "col_bytes u = aes_round w (b + 2) (col_bytes t)"
      by (rule te_round_spec [OF u]) (rule assms(1), use Suc.prems False in simp)
    obtain v where v: "enc_loop rk (4 * (b + 2)) n u = Some (v, 4 * (b + 2) + 8 * n)"
      "col_bytes v = fold (aes_round w) [b + 2 + 1..<b + 2 + 2 * n] (col_bytes u)"
      using Suc.IH [of "b + 2" u] Suc.prems False by auto
    have "[b + 1..<b + 2 * Suc n] = (b + 1) # (b + 2) # [b + 2 + 1..<b + 2 + 2 * n]"
      using False upt_conv_Cons [of "b + 1" "b + 2 * Suc n"] upt_conv_Cons [of "b + 2" "b + 2 * Suc n"]
      by (simp add: eval_nat_numeral)
    then show ?thesis using t u v ct cu False by (simp add: algebra_simps)
  qed
qed

lemma GETU32_word: "i + 4 \<le> length pt \<Longrightarrow>
  GETU32 pt i = Some (word_of_bytes (pt ! i) (pt ! (i + 1)) (pt ! (i + 2)) (pt ! (i + 3)))"
proof -
  assume l: "i + 4 \<le> length pt"
  have x: "push_bit 24 (ucast a) XOR push_bit 16 (ucast b) XOR push_bit 8 (ucast c) XOR ucast d =
      word_of_bytes a b c d" for a b c d :: u8
    unfolding word_of_bytes_def
  proof (rule bit_word_eqI, goal_cases)
    case (1 n)
    then have "n < 32" by simp
    then consider "n < 8" | "8 \<le> n \<and> n < 16" | "16 \<le> n \<and> n < 24" | "24 \<le> n \<and> n < 32"
      by linarith
    then show ?case by cases (auto simp add: bit_simps no_bit less_diff_conv2)
  qed
  show ?thesis using l by (simp add: GETU32_def x)
qed

lemma last_word_bytes:
  "PUTU32 (last_word (word_of_bytes a0 b0 c0 d0) (word_of_bytes a1 b1 c1 d1)
      (word_of_bytes a2 b2 c2 d2) (word_of_bytes a3 b3 c3 d3) k) =
   xor_bytes [sbox ! unat a0, sbox ! unat b1, sbox ! unat c2, sbox ! unat d3] (PUTU32 k)"
  by (simp add: last_word_def PUTU32_xor te4_word_PUTU32 del: xor_bytes_simps)

lemma list16: "length pt = 16 \<Longrightarrow> \<exists>p0 p1 p2 p3. pt = col_bytes (p0, p1, p2, p3) \<and>
    GETU32 pt 0 = Some p0 \<and> GETU32 pt 4 = Some p1 \<and> GETU32 pt 8 = Some p2 \<and>
    GETU32 pt 12 = Some p3"
proof -
  assume l: "length pt = 16"
  have "pt = map ((!) pt) [0..<16]" using map_nth [of pt] l by simp
  then have "pt = [pt ! 0, pt ! 1, pt ! 2, pt ! 3, pt ! 4, pt ! 5, pt ! 6, pt ! 7, pt ! 8,
      pt ! 9, pt ! 10, pt ! 11, pt ! 12, pt ! 13, pt ! 14, pt ! 15]"
    unfolding upt_16 by simp
  then show ?thesis
    using l GETU32_word [of 0 pt] GETU32_word [of 4 pt] GETU32_word [of 8 pt] GETU32_word [of 12 pt]
    by (simp add: col_bytes_def flip: numeral_2_eq_2)
qed

lemma xor_round_key:
  assumes "length A = 4" "length B = 4" "length C = 4" "length D = 4"
  shows "xor_bytes (A @ B @ C @ D) (RoundKey w r) =
    xor_bytes A (PUTU32 (w (4 * r))) @ xor_bytes B (PUTU32 (w (4 * r + 1))) @
    xor_bytes C (PUTU32 (w (4 * r + 2))) @ xor_bytes D (PUTU32 (w (4 * r + 3)))"
  using assms by (simp add: RoundKey_def xor_bytes_append del: xor_bytes_simps(1) flip: PUTU32_be)

lemma rijndaelEncrypt_spec:
  assumes "\<And>i. i < 44 \<Longrightarrow> rk ! i = w i" and "length rk = 44" and "length pt = 16"
  shows "rijndaelEncrypt rk 10 pt = Some (Cipher w 10 pt)"
proof -
  obtain p0 p1 p2 p3 where p: "pt = col_bytes (p0, p1, p2, p3)" "GETU32 pt 0 = Some p0"
    "GETU32 pt 4 = Some p1" "GETU32 pt 8 = Some p2" "GETU32 pt 12 = Some p3"
    using list16 [OF assms(3)] by blast
  let ?s = "(p0 XOR w 0, p1 XOR w 1, p2 XOR w 2, p3 XOR w 3)"
  have s: "col_bytes ?s = xor_bytes pt (RoundKey w 0)"
    by (simp add: p(1) col_bytes_def RoundKey_def PUTU32_xor xor_bytes_append
        flip: PUTU32_be numeral_2_eq_2)
  obtain t where t: "enc_loop rk 0 5 ?s = Some (t, 40)"
    "col_bytes t = fold (aes_round w) [1..<10] (col_bytes ?s)"
    using enc_loop_spec [of rk w 5 0 ?s] assms(1,2) by auto
  obtain a0 b0 c0 d0 a1 b1 c1 d1 a2 b2 c2 d2 a3 b3 c3 d3 where
    c: "t = (word_of_bytes a0 b0 c0 d0, word_of_bytes a1 b1 c1 d1, word_of_bytes a2 b2 c2 d2,
       word_of_bytes a3 b3 c3 d3)"
    using col_bytes_cases [of t] by (elim exE) (rule that)
  have sr: "ShiftRows (SubBytes (col_bytes t)) =
      [sbox ! unat a0, sbox ! unat b1, sbox ! unat c2, sbox ! unat d3] @
      [sbox ! unat a1, sbox ! unat b2, sbox ! unat c3, sbox ! unat d0] @
      [sbox ! unat a2, sbox ! unat b3, sbox ! unat c0, sbox ! unat d1] @
      [sbox ! unat a3, sbox ! unat b0, sbox ! unat c1, sbox ! unat d2]"
    by (simp add: c col_bytes_def SubBytes_def ShiftRows_def upt_16)
  have "Cipher w 10 pt = xor_bytes (ShiftRows (SubBytes (col_bytes t))) (RoundKey w 10)"
    unfolding Cipher_def Let_def t(2) s ..
  moreover have "rijndaelEncrypt rk 10 pt = Some (xor_bytes (ShiftRows (SubBytes (col_bytes t))) (RoundKey w 10))"
    using t(1) assms unfolding sr
    by (subst xor_round_key) (simp_all add: rijndaelEncrypt_def p(2-5) c last_word_bytes
        del: xor_bytes_simps flip: numeral_2_eq_2)
  ultimately show ?thesis by simp
qed

subsection \<open>Key expansion\<close>

lemma SubWord_word: "SubWord (word_of_bytes a b c d) =
    word_of_bytes (sbox ! unat a) (sbox ! unat b) (sbox ! unat c) (sbox ! unat d)"
  unfolding SubWord_def PUTU32_be [symmetric] PUTU32_word_of_bytes
  by (simp add: SubBytes_def word_of_bytes_be del: be_nat.simps)

lemma RotWord_word: "RotWord (word_of_bytes a b c d) = word_of_bytes b c d a"
  unfolding RotWord_def PUTU32_be [symmetric] PUTU32_word_of_bytes
  by (simp add: word_of_bytes_be del: be_nat.simps)

lemma key_core_spec: "i < 10 \<Longrightarrow> key_core t i = Some (SubWord (RotWord t) XOR rcon ! i)"
proof -
  assume i: "i < 10"
  obtain a b c d where t: "t = word_of_bytes a b c d" using PUTU32_bytes by blast
  have "PUTU32 (te4_word (byte2 t) (byte1 t) (byte0 t) (byte3 t)) = PUTU32 (SubWord (RotWord t))"
    by (simp add: t te4_word_PUTU32 RotWord_word SubWord_word)
  then have "te4_word (byte2 t) (byte1 t) (byte0 t) (byte3 t) = SubWord (RotWord t)"
    by (rule PUTU32_inj)
  then show ?thesis using i by (simp add: key_core_def rcon_def)
qed

lemma KeyExpansion_step:
  "KeyExpansion key (4 * i + 4) =
     KeyExpansion key (4 * i) XOR (SubWord (RotWord (KeyExpansion key (4 * i + 3))) XOR rcon ! i)"
  "KeyExpansion key (4 * i + 5) = KeyExpansion key (4 * i + 1) XOR KeyExpansion key (4 * i + 4)"
  "KeyExpansion key (4 * i + 6) = KeyExpansion key (4 * i + 2) XOR KeyExpansion key (4 * i + 5)"
  "KeyExpansion key (4 * i + 7) = KeyExpansion key (4 * i + 3) XOR KeyExpansion key (4 * i + 6)"
proof -
  have m: "(4 * i + 4) mod 4 = 0" "(4 * i + 5) mod 4 = 1" "(4 * i + 6) mod 4 = 2"
    "(4 * i + 7) mod 4 = 3" "(4 * i + 4) div 4 - 1 = i"
    by presburger+
  show "KeyExpansion key (4 * i + 4) =
     KeyExpansion key (4 * i) XOR (SubWord (RotWord (KeyExpansion key (4 * i + 3))) XOR rcon ! i)"
    by (subst KeyExpansion.simps) (simp add: m add.commute)
  show "KeyExpansion key (4 * i + 5) = KeyExpansion key (4 * i + 1) XOR KeyExpansion key (4 * i + 4)"
    by (subst KeyExpansion.simps) (simp add: m add.commute)
  show "KeyExpansion key (4 * i + 6) = KeyExpansion key (4 * i + 2) XOR KeyExpansion key (4 * i + 5)"
    by (subst KeyExpansion.simps) (simp add: m add.commute)
  show "KeyExpansion key (4 * i + 7) = KeyExpansion key (4 * i + 3) XOR KeyExpansion key (4 * i + 6)"
    by (subst KeyExpansion.simps) (simp add: m add.commute)
qed

definition schedule_step :: "(nat \<Rightarrow> u32) \<Rightarrow> nat \<Rightarrow> u32 list \<Rightarrow> u32 list" where
  "schedule_step W b rk =
     rk[b + 4 := W (b + 4), b + 5 := W (b + 5), b + 6 := W (b + 6), b + 7 := W (b + 7)]"

lemma schedule_step_inv:
  assumes "length rk = 44" and "b + 8 \<le> 44" and "\<And>k. k < b + 4 \<Longrightarrow> rk ! k = W k"
  shows "length (schedule_step W b rk) = 44" and "k < b + 8 \<Longrightarrow> schedule_step W b rk ! k = W k"
  using assms by (auto simp: schedule_step_def nth_list_update)

lemma setup128_step:
  assumes l: "length rk = 44" and i: "i < 10" and inv: "\<And>k. k < 4 * i + 4 \<Longrightarrow> rk ! k = W k"
    and W: "W = KeyExpansion key"
  shows "setup128 rk (4 * i) i =
    (if i + 1 = 10 then Some (schedule_step W (4 * i) rk, 10)
     else setup128 (schedule_step W (4 * i) rk) (4 * i + 4) (i + 1))"
proof -
  have b: "4 * i + 7 < 44" using i by simp
  note K = KeyExpansion_step [of key i, folded W]
  have "xw (rk[4 * i + 4 := W (4 * i + 4)]) (4 * i) 5 1 4 =
      Some (rk[4 * i + 4 := W (4 * i + 4), 4 * i + 5 := W (4 * i + 5)])" (is "xw ?r1 _ _ _ _ = Some ?r2")
    using l b inv K(2-4) by (simp add: xw_def)
  moreover have "xw ?r2 (4 * i) 6 2 5 = Some (?r2[4 * i + 6 := W (4 * i + 6)])"
    (is "_ = Some ?r3")
    using l b inv K(2-4) by (simp add: xw_def)
  moreover have "xw ?r3 (4 * i) 7 3 6 = Some (?r3[4 * i + 7 := W (4 * i + 7)])"
    using l b inv K(2-4) by (simp add: xw_def)
  moreover obtain c where "key_core (rk ! (4 * i + 3)) i = Some c" "rk ! (4 * i) XOR c = W (4 * i + 4)"
    using K(1) inv i by (simp add: key_core_spec)
  ultimately show ?thesis
    using l b by (subst setup128.simps) (simp add: schedule_step_def)
qed

lemma setup128_spec:
  assumes "length rk = 44" and "n + i = 9" and "\<And>k. k < 4 * i + 4 \<Longrightarrow> rk ! k = W k"
    and W: "W = KeyExpansion key"
  shows "\<exists>rk'. setup128 rk (4 * i) i = Some (rk', 10) \<and> length rk' = 44 \<and>
    (\<forall>k<44. rk' ! k = W k)"
  using assms(1-3)
proof (induction n arbitrary: i rk)
  case (0 i rk)
  then show ?case
    using setup128_step [of rk i W key] schedule_step_inv [of rk "4 * i" W] W by auto
next
  case (Suc n i rk)
  let ?rk = "schedule_step W (4 * i) rk"
  have "length ?rk = 44" "\<And>k. k < 4 * (i + 1) + 4 \<Longrightarrow> ?rk ! k = W k"
    using schedule_step_inv [of rk "4 * i" W] Suc.prems by auto
  then show ?case
    using Suc.IH [where i = "i + 1" and rk = ?rk] setup128_step [of rk i W key] Suc.prems W
    by (simp add: add.commute)
qed

lemma GETU32_KeyExpansion:
  assumes "length key = 16" and "i < 4"
  shows "GETU32 key (4 * i) = Some (KeyExpansion key i)"
proof -
  have "take 4 (drop (4 * i) key) = [key ! (4 * i), key ! (4 * i + 1), key ! (4 * i + 2), key ! (4 * i + 3)]"
    using assms by (intro nth_equalityI) (auto simp: less_Suc_eq numeral_eq_Suc)
  then show ?thesis
    using assms GETU32_word [of "4 * i" key]
    by (simp add: KeyExpansion.simps [of key i] word_of_bytes_be del: be_nat.simps)
qed

lemma set_key_spec:
  assumes "length key = 16" and "length (aes_ek ctx) = 44"
  shows "\<exists>ctx'. rijndael_set_key_enc_only ctx key 128 = Some (ctx', 0) \<and> aes_Nr ctx' = 10 \<and>
    length (aes_ek ctx') = 44 \<and> (\<forall>k<44. aes_ek ctx' ! k = KeyExpansion key k)"
proof -
  let ?W = "KeyExpansion key" and ?ek = "aes_ek ctx"
  let ?rk = "?ek[0 := ?W 0, 1 := ?W 1, 2 := ?W 2, 3 := ?W 3]"
  have "\<exists>rk'. setup128 ?rk (4 * 0) 0 = Some (rk', 10) \<and> length rk' = 44 \<and> (\<forall>k<44. rk' ! k = ?W k)"
    by (rule setup128_spec [where n = 9])
      (use assms in \<open>auto simp: nth_list_update less_Suc_eq numeral_eq_Suc\<close>)
  then obtain rk' where rk: "setup128 ?rk 0 0 = Some (rk', 10)" "length rk' = 44"
    "\<forall>k<44. rk' ! k = ?W k" by auto
  have "rijndaelKeySetupEnc ?ek key 128 = Some (rk', 10)"
    using assms GETU32_KeyExpansion [OF assms(1), of 0] GETU32_KeyExpansion [OF assms(1), of 1]
      GETU32_KeyExpansion [OF assms(1), of 2] GETU32_KeyExpansion [OF assms(1), of 3] rk(1)
    by (simp add: rijndaelKeySetupEnc_def)
  then show ?thesis using rk by (simp add: rijndael_set_key_enc_only_def)
qed

text \<open>C24: With a 128-bit key, key setup succeeds whatever the context held before and the
  table-driven \<open>rijndael_encrypt\<close> computes the AES-128 cipher of FIPS 197 (key expansion, SubBytes,
  ShiftRows, MixColumns, AddRoundKey) of every 16-byte block; the S-box behind the tables is the
  field inverse followed by the affine map. No access leaves the key schedule.\<close>

theorem rijndael_is_AES128:
  assumes "length key = 16" and "length (aes_ek ctx) = 44"
  shows "sbox_from 0 sbox \<and>
    (\<exists>ctx'. rijndael_set_key_enc_only ctx key 128 = Some (ctx', 0) \<and>
      (\<forall>src. length src = 16 \<longrightarrow> rijndael_encrypt ctx' src = Some (AES128 key src)))"
proof -
  obtain ctx' where c: "rijndael_set_key_enc_only ctx key 128 = Some (ctx', 0)" "aes_Nr ctx' = 10"
    "length (aes_ek ctx') = 44" "\<forall>k<44. aes_ek ctx' ! k = KeyExpansion key k"
    using set_key_spec [OF assms] by blast
  then have "rijndael_encrypt ctx' src = Some (AES128 key src)" if "length src = 16" for src
    using rijndaelEncrypt_spec [of "aes_ek ctx'" "KeyExpansion key" src] that
    by (simp add: rijndael_encrypt_def AES128_def)
  then show ?thesis using c(1) sbox_algebraic by blast
qed

lemma rijndael_is_AES128_witness:
  "\<exists>ctx'. rijndael_set_key_enc_only \<lparr>aes_Nr = 0, aes_ek = replicate 44 0\<rparr> (replicate 16 1) 128 =
      Some (ctx', 0) \<and>
    rijndael_encrypt ctx' (replicate 16 2) = Some (AES128 (replicate 16 1) (replicate 16 2))"
  using rijndael_is_AES128 [of "replicate 16 1" "\<lparr>aes_Nr = 0, aes_ek = replicate 44 0\<rparr>"] by auto

subsection \<open>Longer keys\<close>

lemma key_core_some: "i < 10 \<Longrightarrow> \<exists>c. key_core t i = Some c"
  by (simp add: key_core_spec)

lemma setup192_overflow: "length rk = 44 \<Longrightarrow> n + i = 6 \<Longrightarrow> setup192 rk (6 * i) i = None"
proof (induction n arbitrary: i rk)
  case (0 i rk)
  then show ?case
    using key_core_some [of 6 "rk ! 41"] by (subst setup192.simps) (auto simp: xw_def)
next
  case (Suc n i rk)
  obtain c where c: "key_core (rk ! (6 * i + 5)) i = Some c" using key_core_some Suc.prems by fastforce
  have IH: "\<And>rk. length rk = 44 \<Longrightarrow> setup192 rk (6 * i + 6) (Suc i) = None"
    using Suc.IH [where i = "Suc i"] Suc.prems by (simp add: algebra_simps)
  show ?case
    using Suc.prems c by (subst setup192.simps) (simp add: xw_def IH)
qed

lemma setup256_overflow: "length rk = 44 \<Longrightarrow> n + i = 4 \<Longrightarrow> setup256 rk (8 * i) i = None"
proof (induction n arbitrary: i rk)
  case (0 i rk)
  then show ?case
    using key_core_some [of 4 "rk ! 39"] by (subst setup256.simps) (auto simp: xw_def)
next
  case (Suc n i rk)
  obtain c where c: "key_core (rk ! (8 * i + 7)) i = Some c" using key_core_some Suc.prems by fastforce
  have IH: "\<And>rk. length rk = 44 \<Longrightarrow> setup256 rk (8 * i + 8) (Suc i) = None"
    using Suc.IH [where i = "Suc i"] Suc.prems by (simp add: algebra_simps)
  show ?case
    using Suc.prems c by (subst setup256.simps) (simp add: xw_def IH)
qed

text \<open>For the 192- and 256-bit keys that the key setup also accepts, it writes past the end of
  the context's key schedule, which has room for the ten rounds of 128-bit keys only.\<close>

lemma rijndael_long_key_overflow:
  assumes "length (aes_ek ctx) = 44" and "bits = 192 \<and> length key = 24 \<or> bits = 256 \<and> length key = 32"
  shows "rijndael_set_key_enc_only ctx key bits = None"
  using assms(2)
proof
  assume k: "bits = 192 \<and> length key = 24"
  then have "\<And>rk. length rk = 44 \<Longrightarrow> setup192 rk 0 0 = None"
    using setup192_overflow [of _ 6 0] by simp
  then have "rijndaelKeySetupEnc (aes_ek ctx) key bits = None"
    using k assms(1) by (simp add: rijndaelKeySetupEnc_def GETU32_word)
  then show ?thesis by (simp add: rijndael_set_key_enc_only_def)
next
  assume k: "bits = 256 \<and> length key = 32"
  then have "\<And>rk. length rk = 44 \<Longrightarrow> setup256 rk 0 0 = None"
    using setup256_overflow [of _ 4 0] by simp
  then have "rijndaelKeySetupEnc (aes_ek ctx) key bits = None"
    using k assms(1) by (simp add: rijndaelKeySetupEnc_def GETU32_word)
  then show ?thesis by (simp add: rijndael_set_key_enc_only_def)
qed

lemma rijndael_long_key_overflow_witness:
  "rijndael_set_key_enc_only \<lparr>aes_Nr = 0, aes_ek = replicate 44 0\<rparr> (replicate 24 1) 192 = None"
  using rijndael_long_key_overflow [of "\<lparr>aes_Nr = 0, aes_ek = replicate 44 0\<rparr>" 192 "replicate 24 1"]
  by simp

end
