(* ===== verification/Ccm.thy ===== *)
theory Ccm
  imports Rijndael_Correct Numeric
begin

text \<open>
  Counter with CBC-MAC (RFC 3610): \<open>dtls-ccm.c\<close>, and its use by \<open>dtls_encrypt\<close> and
  \<open>dtls_decrypt\<close> of \<open>dtls-crypto.c\<close> with an 8-byte tag and a 12-byte nonce. The message buffer is
  the list of its bytes; encryption appends the tag, decryption leaves the decrypted message and
  the unmasked tag in it. The macro \<open>MASK_L\<close> shifts an \<open>int\<close> and is meaningful for length fields
  of at most three bytes, which is what the callers use.
\<close>

subsection \<open>The code\<close>

definition CCM_FLAGS :: "nat \<Rightarrow> nat \<Rightarrow> nat \<Rightarrow> u8" where
  "CCM_FLAGS A M L =
     push_bit 6 (if A > 0 then 1 else 0) OR push_bit 3 (word_of_nat ((M - 2) div 2)) OR
     word_of_nat (L - 1)"

definition MASK_L :: "nat \<Rightarrow> nat" where
  "MASK_L L = 2 ^ (8 * L) - 1"

text \<open>The loop of \<open>SET_COUNTER\<close>, from the last byte of the block upwards.\<close>

fun set_counter_loop :: "nat \<Rightarrow> nat \<Rightarrow> nat \<Rightarrow> bytes \<Rightarrow> bytes" where
  "set_counter_loop L C 0 A = A"
| "set_counter_loop L C (Suc i) A =
     (if C \<noteq> 0 \<and> Suc i > L
      then set_counter_loop L (C div 256) i (A[Suc i := A ! Suc i OR word_of_nat (C mod 256)])
      else A)"

definition SET_COUNTER :: "bytes \<Rightarrow> nat \<Rightarrow> nat \<Rightarrow> bytes" where
  "SET_COUNTER A L cnt =
     set_counter_loop L (cnt AND MASK_L L) 15 (take (16 - L) A @ replicate L 0)"

text \<open>The loop that stores the message length runs from the last byte upwards and stores
  \<open>lm & 0xff\<close>, which is what \<open>be_bytes\<close> does.\<close>

definition block0 :: "nat \<Rightarrow> nat \<Rightarrow> nat \<Rightarrow> nat \<Rightarrow> bytes \<Rightarrow> bytes option" where
  "block0 M L la lm nonce = do {
     n \<leftarrow> rd_n nonce 0 (15 - L);
     Some (CCM_FLAGS la M L # n @ be_bytes L lm) }"

definition aad_prefix :: "nat \<Rightarrow> bytes" where
  "aad_prefix la =
     (if la < 0xFF00 then dtls_int_to_uint16 (word_of_nat la)
      else if la \<le> 0xFFFFFFFF then dtls_int_to_uint16 0xFFFE @ dtls_int_to_uint32 (word_of_nat la)
      else dtls_int_to_uint16 0xFFFF @ dtls_int_to_uint64 (word_of_nat la))"

function aad_loop :: "rijndael_ctx \<Rightarrow> bytes \<Rightarrow> bytes \<Rightarrow> bytes \<Rightarrow> (bytes \<times> bytes \<times> bytes) option" where
  "aad_loop ctx msg B X =
     (if length msg > 16 then
        (let B = xor_bytes X (take 16 msg) in
         case rijndael_encrypt ctx B of None \<Rightarrow> None
         | Some X \<Rightarrow> aad_loop ctx (drop 16 msg) B X)
      else Some (msg, B, X))"
  by pat_completeness auto
termination by (relation "measure (\<lambda>(ctx, msg, B, X). length msg)") auto

declare aad_loop.simps [simp del]

text \<open>The result is the pair of the blocks \<open>B\<close> and \<open>X\<close>.\<close>

definition add_auth_data :: "rijndael_ctx \<Rightarrow> bytes \<Rightarrow> bytes \<Rightarrow> (bytes \<times> bytes) option" where
  "add_auth_data ctx msg B = do {
     X \<leftarrow> rijndael_encrypt ctx B;
     let la = length msg;
     let B = replicate 16 0;
     if la = 0 then Some (B, X)
     else do {
       let P = aad_prefix la;
       let i = min (16 - length P) la;
       let B = P @ take i msg @ replicate (16 - length P - i) 0;
       B \<leftarrow> memxor B X 16;
       X \<leftarrow> rijndael_encrypt ctx B;
       (msg, B, X) \<leftarrow> aad_loop ctx (drop i msg) B X;
       if msg \<noteq> [] then do {
         B \<leftarrow> memxor (msg @ replicate (16 - length msg) 0) X 16;
         X \<leftarrow> rijndael_encrypt ctx B;
         Some (B, X) }
       else Some (B, X) } }"

text \<open>\<open>encrypt\<close>: the block template and the masked message.\<close>

definition ccm_crypt :: "rijndael_ctx \<Rightarrow> nat \<Rightarrow> nat \<Rightarrow> bytes \<Rightarrow> bytes \<Rightarrow> (bytes \<times> bytes) option" where
  "ccm_crypt ctx L counter msg A = do {
     let A = SET_COUNTER A L counter;
     S \<leftarrow> rijndael_encrypt ctx A;
     msg \<leftarrow> memxor msg S (length msg);
     Some (A, msg) }"

definition ccm_mac :: "rijndael_ctx \<Rightarrow> bytes \<Rightarrow> bytes \<Rightarrow> bytes \<Rightarrow> (bytes \<times> bytes) option" where
  "ccm_mac ctx msg B X = do {
     let B = xor_bytes (take (length msg) X) msg @ drop (length msg) B;
     X \<leftarrow> rijndael_encrypt ctx B;
     Some (B, X) }"

text \<open>The loops over whole blocks. \<open>out\<close> is the part of the buffer that is done.\<close>

function ccm_encrypt_loop ::
  "rijndael_ctx \<Rightarrow> nat \<Rightarrow> nat \<Rightarrow> bytes \<Rightarrow> bytes \<Rightarrow> bytes \<Rightarrow> bytes \<Rightarrow> bytes \<Rightarrow>
   (nat \<times> bytes \<times> bytes \<times> bytes \<times> bytes \<times> bytes) option" where
  "ccm_encrypt_loop ctx L counter msg A B X out =
     (if length msg \<ge> 16 then
        (case ccm_mac ctx (take 16 msg) B X of None \<Rightarrow> None
         | Some (B, X) \<Rightarrow>
           (case ccm_crypt ctx L counter (take 16 msg) A of None \<Rightarrow> None
            | Some (A, c) \<Rightarrow>
                ccm_encrypt_loop ctx L (counter + 1) (drop 16 msg) A B X (out @ c)))
      else Some (counter, msg, A, B, X, out))"
  by pat_completeness auto
termination by (relation "measure (\<lambda>(ctx, L, counter, msg, A, B, X, out). length msg)") auto

declare ccm_encrypt_loop.simps [simp del]

function ccm_decrypt_loop ::
  "rijndael_ctx \<Rightarrow> nat \<Rightarrow> nat \<Rightarrow> bytes \<Rightarrow> bytes \<Rightarrow> bytes \<Rightarrow> bytes \<Rightarrow> bytes \<Rightarrow>
   (nat \<times> bytes \<times> bytes \<times> bytes \<times> bytes \<times> bytes) option" where
  "ccm_decrypt_loop ctx L counter msg A B X out =
     (if length msg \<ge> 16 then
        (case ccm_crypt ctx L counter (take 16 msg) A of None \<Rightarrow> None
         | Some (A, c) \<Rightarrow>
           (case ccm_mac ctx c B X of None \<Rightarrow> None
            | Some (B, X) \<Rightarrow>
                ccm_decrypt_loop ctx L (counter + 1) (drop 16 msg) A B X (out @ c)))
      else Some (counter, msg, A, B, X, out))"
  by pat_completeness auto
termination by (relation "measure (\<lambda>(ctx, L, counter, msg, A, B, X, out). length msg)") auto

declare ccm_decrypt_loop.simps [simp del]

text \<open>The result: the return value and the contents of the buffer.\<close>

definition dtls_ccm_encrypt_message ::
  "rijndael_ctx \<Rightarrow> nat \<Rightarrow> nat \<Rightarrow> bytes \<Rightarrow> bytes \<Rightarrow> bytes \<Rightarrow> (int \<times> bytes) option" where
  "dtls_ccm_encrypt_message ctx M L nonce msg aad = do {
     B \<leftarrow> block0 M L (length aad) (length msg) nonce;
     (B, X) \<leftarrow> add_auth_data ctx aad B;
     n \<leftarrow> rd_n nonce 0 (15 - L);
     let A = word_of_nat (L - 1) # n @ replicate L 0;
     (counter, rst, A, B, X, out) \<leftarrow> ccm_encrypt_loop ctx L 1 msg A B X [];
     (A, X, out) \<leftarrow> (if rst \<noteq> [] then do {
         let B = take (length rst) B @ drop (length rst) X;
         (B, X) \<leftarrow> ccm_mac ctx rst B X;
         (A, c) \<leftarrow> ccm_crypt ctx L counter rst A;
         Some (A, X, out @ c) }
       else Some (A, X, out));
     S \<leftarrow> rijndael_encrypt ctx (SET_COUNTER A L 0);
     Some (int (length msg + M), out @ xor_bytes (take M X) (take M S)) }"

definition dtls_ccm_decrypt_message ::
  "rijndael_ctx \<Rightarrow> nat \<Rightarrow> nat \<Rightarrow> bytes \<Rightarrow> bytes \<Rightarrow> bytes \<Rightarrow> (int \<times> bytes) option" where
  "dtls_ccm_decrypt_message ctx M L nonce msg aad =
     (if length msg < M then Some (-1, msg)
      else do {
        let lm = length msg - M;
        B \<leftarrow> block0 M L (length aad) lm nonce;
        (B, X) \<leftarrow> add_auth_data ctx aad B;
        n \<leftarrow> rd_n nonce 0 (15 - L);
        let A = word_of_nat (L - 1) # n @ replicate L 0;
        (counter, rst, A, B, X, out) \<leftarrow> ccm_decrypt_loop ctx L 1 (take lm msg) A B X [];
        (A, X, out) \<leftarrow> (if rst \<noteq> [] then do {
            (A, c) \<leftarrow> ccm_crypt ctx L counter rst A;
            let B = take (length rst) B @ drop (length rst) X;
            (B, X) \<leftarrow> ccm_mac ctx c B X;
            Some (A, X, out @ c) }
          else Some (A, X, out));
        S \<leftarrow> rijndael_encrypt ctx (SET_COUNTER A L 0);
        tag \<leftarrow> memxor (drop lm msg) S M;
        eq \<leftarrow> dtls_equals X tag M;
        Some (if eq \<noteq> 0 then int lm else -1, out @ tag) })"

subsection \<open>RFC 3610\<close>

fun chunks :: "bytes \<Rightarrow> bytes list" where
  "chunks m = (if m = [] then [] else take 16 m # chunks (drop 16 m))"

declare chunks.simps [simp del]

definition pad16 :: "bytes \<Rightarrow> bytes" where
  "pad16 c = c @ replicate (16 - length c) 0"

definition cbc :: "(bytes \<Rightarrow> bytes) \<Rightarrow> bytes list \<Rightarrow> bytes \<Rightarrow> bytes" where
  "cbc E bs X = fold (\<lambda>b X. E (xor_bytes X (pad16 b))) bs X"

definition ctr_block :: "nat \<Rightarrow> bytes \<Rightarrow> nat \<Rightarrow> bytes" where
  "ctr_block L nonce i = word_of_nat (L - 1) # take (15 - L) nonce @ be_bytes L i"

fun ctr :: "(bytes \<Rightarrow> bytes) \<Rightarrow> nat \<Rightarrow> bytes \<Rightarrow> nat \<Rightarrow> bytes list \<Rightarrow> bytes" where
  "ctr E L nonce i [] = []"
| "ctr E L nonce i (c # cs) =
     xor_bytes c (take (length c) (E (ctr_block L nonce i))) @ ctr E L nonce (Suc i) cs"

definition first_block :: "nat \<Rightarrow> nat \<Rightarrow> bytes \<Rightarrow> bytes \<Rightarrow> nat \<Rightarrow> bytes" where
  "first_block M L nonce aad lm = CCM_FLAGS (length aad) M L # take (15 - L) nonce @ be_bytes L lm"

definition ccm_tag ::
  "(bytes \<Rightarrow> bytes) \<Rightarrow> nat \<Rightarrow> nat \<Rightarrow> bytes \<Rightarrow> bytes \<Rightarrow> bytes \<Rightarrow> bytes" where
  "ccm_tag E M L nonce aad m =
     (let X = E (first_block M L nonce aad (length m));
          X = (if aad = [] then X else cbc E (chunks (aad_prefix (length aad) @ aad)) X);
          X = cbc E (chunks m) X
      in xor_bytes (take M X) (take M (E (ctr_block L nonce 0))))"

definition ccm_seal ::
  "(bytes \<Rightarrow> bytes) \<Rightarrow> nat \<Rightarrow> nat \<Rightarrow> bytes \<Rightarrow> bytes \<Rightarrow> bytes \<Rightarrow> bytes" where
  "ccm_seal E M L nonce aad m = ctr E L nonce 1 (chunks m) @ ccm_tag E M L nonce aad m"

end
