(* ===== verification/Ccm_Correct.thy ===== *)
theory Ccm_Correct
  imports Ccm
begin

text \<open>
  The CCM code computes the CCM of RFC 3610, decryption inverts encryption, and decryption
  accepts a message exactly when it carries the tag of what it decrypts to. The locale
  \<open>keyed_ctx\<close> is what the mode needs of the block cipher: a context whose encryption is a total
  function from blocks to blocks; it is interpreted by the AES contexts of 128-bit keys.
\<close>

locale keyed_ctx =
  fixes ctx :: rijndael_ctx and E :: "bytes \<Rightarrow> bytes"
  assumes block: "length b = 16 \<Longrightarrow> rijndael_encrypt ctx b = Some (E b)"
    and block_length: "length b = 16 \<Longrightarrow> length (E b) = 16"

subsection \<open>The counter\<close>

lemma be_bytes_0: "be_bytes n 0 = replicate n 0"
  by (induction n) (simp_all add: replicate_append_same)

lemma set_counter_loop_spec:
  assumes "C < 256 ^ n" and "n + L \<le> i" and "i < length A"
    and "\<And>k. i < k + n \<Longrightarrow> k \<le> i \<Longrightarrow> A ! k = 0"
  shows "set_counter_loop L C i A = take (Suc i - n) A @ be_bytes n C @ drop (Suc i) A"
  using assms
proof (induction n arbitrary: C i A)
  case 0
  then show ?case by (cases i) simp_all
next
  case (Suc n)
  then obtain j where i: "i = Suc j" by (cases i) auto
  have at: "take (Suc i - Suc n) A @ replicate (Suc n) 0 @ drop (Suc i) A = A"
  proof (rule nth_equalityI)
    show "length (take (Suc i - Suc n) A @ replicate (Suc n) 0 @ drop (Suc i) A) = length A"
      using Suc.prems by simp
  next
    fix k assume "k < length (take (Suc i - Suc n) A @ replicate (Suc n) 0 @ drop (Suc i) A)"
    then show "(take (Suc i - Suc n) A @ replicate (Suc n) 0 @ drop (Suc i) A) ! k = A ! k"
      using Suc.prems(2,3) Suc.prems(4) [of k]
      by (auto simp: nth_append not_less simp del: replicate.simps)
  qed
  show ?case
  proof (cases "C = 0")
    case True
    then show ?thesis using at i by (simp add: be_bytes_0 del: be_bytes.simps replicate.simps)
  next
    case False
    let ?A = "A[Suc j := A ! Suc j OR word_of_nat (C mod 256)]"
    have z: "A ! Suc j = 0" using Suc.prems(4) [of "Suc j"] i by simp
    have m: "(word_of_nat (C mod 256) :: u8) = word_of_nat C" by (rule u8_of_nat_cong) simp
    have "set_counter_loop L (C div 256) j ?A =
        take (Suc j - n) ?A @ be_bytes n (C div 256) @ drop (Suc j) ?A"
    proof (rule Suc.IH)
      show "C div 256 < 256 ^ n" using Suc.prems(1) by (simp add: less_mult_imp_div_less mult.commute)
      show "n + L \<le> j" using Suc.prems(2) i by simp
      show "j < length ?A" using Suc.prems(3) i by simp
      show "\<And>k. j < k + n \<Longrightarrow> k \<le> j \<Longrightarrow> ?A ! k = 0" using Suc.prems(4) i by auto
    qed
    moreover have "drop (Suc j) ?A = word_of_nat C # drop (Suc (Suc j)) A"
      using Suc.prems(3) i z m by (simp add: Cons_nth_drop_Suc [symmetric] drop_update_cancel)
    moreover have "take (Suc j - n) ?A = take (Suc i - Suc n) A" using i by simp
    ultimately show ?thesis using False Suc.prems(2) i by simp
  qed
qed

lemma SET_COUNTER_spec:
  assumes "length A = 16" and "L \<le> 7"
  shows "SET_COUNTER A L cnt = take (16 - L) A @ be_bytes L cnt"
proof -
  let ?A = "take (16 - L) A @ replicate L 0"
  have "(2 :: nat) ^ (8 * L) = 256 ^ L" by (simp add: power_mult)
  then have m: "cnt AND MASK_L L = cnt mod 256 ^ L"
    unfolding MASK_L_def mask_eq_exp_minus_1 [symmetric] take_bit_eq_mask [symmetric] take_bit_eq_mod
    by (rule arg_cong)
  have "set_counter_loop L (cnt mod 256 ^ L) 15 ?A =
      take (Suc 15 - L) ?A @ be_bytes L (cnt mod 256 ^ L) @ drop (Suc 15) ?A"
    by (rule set_counter_loop_spec) (use assms in \<open>auto simp: nth_append\<close>)
  then show ?thesis using assms by (simp add: SET_COUNTER_def m be_bytes_mod)
qed

lemma aad_prefix_length: "length (aad_prefix n) \<le> 10"
  by (simp add: aad_prefix_def)

lemma length_pad16: "length c \<le> 16 \<Longrightarrow> length (pad16 c) = 16"
  by (simp add: pad16_def)

lemma chunks_simps:
  "chunks [] = []" "m \<noteq> [] \<Longrightarrow> length m \<le> 16 \<Longrightarrow> chunks m = [m]"
  "16 \<le> length m \<Longrightarrow> chunks m = take 16 m # chunks (drop 16 m)"
  by (auto simp: chunks.simps [of m] chunks.simps [of "[]"])

lemma chunks_length: "\<forall>b\<in>set (chunks x). length b \<le> 16"
proof (induction x rule: chunks.induct)
  case (1 m)
  then show ?case by (cases "m = []") (simp_all add: chunks.simps [of m] chunks_simps(1))
qed

lemma concat_chunks: "concat (chunks x) = x"
proof (induction x rule: chunks.induct)
  case (1 m)
  then show ?case by (cases "m = []") (simp_all add: chunks.simps [of m] chunks_simps(1))
qed

lemma cbc_simps [simp]:
  "cbc E [] X = X" "cbc E (b # bs) X = cbc E bs (E (xor_bytes X (pad16 b)))"
  by (simp_all add: cbc_def)

lemma length_ctr: "length (ctr E L nonce i cs) = length (concat cs)"
  if "\<And>j. length (E (ctr_block L nonce j)) = 16" "\<forall>c\<in>set cs. length c \<le> 16"
  using that by (induction cs arbitrary: i) auto

context keyed_ctx
begin

lemma partial_xor:
  assumes "length c \<le> 16" and "length X = 16"
  shows "xor_bytes (take (length c) X) c @ drop (length c) X = xor_bytes X (pad16 c)"
proof -
  have "xor_bytes X (pad16 c) =
      xor_bytes (take (length c) X @ drop (length c) X) (c @ replicate (16 - length c) 0)"
    by (simp add: pad16_def)
  also have "\<dots> = xor_bytes (take (length c) X) c @ drop (length c) X"
    using assms by (subst xor_bytes_append) (simp_all add: xor_bytes_zeros)
  finally show ?thesis ..
qed

lemma cbc_length: "length X = 16 \<Longrightarrow> \<forall>b\<in>set bs. length b \<le> 16 \<Longrightarrow> length (cbc E bs X) = 16"
  by (induction bs arbitrary: X) (simp_all add: block_length length_pad16)

lemma aad_loop_spec:
  "length X = 16 \<Longrightarrow> length B = 16 \<Longrightarrow>
   \<exists>m' B' X'. aad_loop ctx msg B X = Some (m', B', X') \<and> length m' \<le> 16 \<and> length X' = 16 \<and>
     length B' = 16 \<and> cbc E (chunks msg) X = cbc E (chunks m') X'"
proof (induction "length msg" arbitrary: msg B X rule: less_induct)
  case less
  show ?case
  proof (cases "16 < length msg")
    case False
    then show ?thesis using less.prems by (simp add: aad_loop.simps [of ctx msg])
  next
    case True
    let ?B = "xor_bytes X (take 16 msg)"
    have lB: "length ?B = 16" using True less.prems by simp
    have "aad_loop ctx msg B X = aad_loop ctx (drop 16 msg) ?B (E ?B)"
      using True block [OF lB] by (simp add: aad_loop.simps [of ctx msg] Let_def)
    moreover have "cbc E (chunks msg) X = cbc E (chunks (drop 16 msg)) (E ?B)"
      using True by (simp add: chunks_simps(3) pad16_def)
    ultimately show ?thesis
      using less.hyps [of "drop 16 msg" "E ?B" ?B] block_length [OF lB] lB True by simp
  qed
qed

lemma add_auth_data_spec:
  assumes "length B = 16"
  shows "\<exists>B'. add_auth_data ctx aad B = Some (B',
      if aad = [] then E B else cbc E (chunks (aad_prefix (length aad) @ aad)) (E B)) \<and> length B' = 16"
proof (cases "aad = []")
  case True
  then show ?thesis using block [OF assms] by (simp add: add_auth_data_def)
next
  case False
  let ?P = "aad_prefix (length aad)" and ?i = "min (16 - length (aad_prefix (length aad))) (length aad)"
  let ?c = "?P @ take ?i aad"
  have P: "length ?P \<le> 10" by (rule aad_prefix_length)
  have c16: "length ?c \<le> 16" using P by simp
  have B: "?P @ take ?i aad @ replicate (16 - length ?P - ?i) 0 = pad16 ?c"
    using P by (simp add: pad16_def)
  have EB: "rijndael_encrypt ctx B = Some (E B)" "length (E B) = 16"
    using block block_length assms by auto
  let ?B1 = "xor_bytes (E B) (pad16 ?c)"
  have l1: "length ?B1 = 16" using EB c16 by (simp add: length_pad16)
  have mx: "memxor (pad16 ?c) (E B) 16 = Some ?B1"
    using EB c16 xor_bytes_commute [of "E B" "pad16 ?c"]
    by (simp add: memxor_eq length_pad16 xor_bytes_def)
  have chunk: "cbc E (chunks (?P @ aad)) (E B) = cbc E (chunks (drop ?i aad)) (E ?B1)"
  proof (cases "length aad \<le> 16 - length ?P")
    case True
    then show ?thesis using False P by (simp add: chunks_simps min_absorb2)
  next
    case big: False
    then have i: "?i = 16 - length ?P" by simp
    have "chunks (?P @ aad) = take 16 (?P @ aad) # chunks (drop 16 (?P @ aad))"
      using big by (intro chunks_simps(3)) simp
    then show ?thesis using P unfolding i by simp
  qed
  obtain m' B' X' where al: "aad_loop ctx (drop ?i aad) ?B1 (E ?B1) = Some (m', B', X')"
    "length m' \<le> 16" "length X' = 16" "length B' = 16"
    "cbc E (chunks (drop ?i aad)) (E ?B1) = cbc E (chunks m') X'"
    using aad_loop_spec [OF block_length [OF l1] l1, of "drop ?i aad"] by blast
  have "length aad \<noteq> 0" using False by simp
  then have step: "add_auth_data ctx aad B =
      (if m' \<noteq> [] then do {
         B \<leftarrow> memxor (m' @ replicate (16 - length m') 0) X' 16;
         X \<leftarrow> rijndael_encrypt ctx B;
         Some (B, X) }
       else Some (B', X'))"
    unfolding add_auth_data_def Let_def EB(1) Option.bind.bind_lunit
    by (simp only: if_False B mx block [OF l1] al(1) Option.bind.bind_lunit prod.case)
  show ?thesis
  proof (cases "m' = []")
    case True
    then show ?thesis using False al chunk step by (simp add: chunks_simps)
  next
    case ne: False
    let ?B2 = "xor_bytes X' (pad16 m')"
    have l2: "length ?B2 = 16" using al by (simp add: length_pad16)
    have mx2: "memxor (m' @ replicate (16 - length m') 0) X' 16 = Some ?B2"
      using al xor_bytes_commute [of X' "pad16 m'"]
      unfolding pad16_def [symmetric] by (simp add: memxor_eq length_pad16 xor_bytes_def)
    show ?thesis
      using False al chunk step ne mx2 block [OF l2] l2 by (simp add: chunks_simps)
  qed
qed

lemma ctr_block_length: "L \<le> 15 \<Longrightarrow> 15 - L \<le> length nonce \<Longrightarrow> length (ctr_block L nonce i) = 16"
  by (simp add: ctr_block_def)

definition template :: "nat \<Rightarrow> bytes \<Rightarrow> bytes \<Rightarrow> bool" where
  "template L nonce A \<longleftrightarrow>
     length A = 16 \<and> take (16 - L) A = word_of_nat (L - 1) # take (15 - L) nonce"

lemma template_counter:
  assumes "template L nonce A" and "L \<le> 7"
  shows "SET_COUNTER A L i = ctr_block L nonce i" and "15 - L \<le> length nonce \<Longrightarrow> template L nonce (ctr_block L nonce i)"
proof -
  show "SET_COUNTER A L i = ctr_block L nonce i"
    using assms SET_COUNTER_spec [of A L i] by (simp add: template_def ctr_block_def)
  have "Suc (15 - L) = 16 - L" using assms(2) by simp
  then show "15 - L \<le> length nonce \<Longrightarrow> template L nonce (ctr_block L nonce i)"
    using assms(2) ctr_block_length [of L nonce i]
    by (simp add: template_def) (simp add: ctr_block_def take_Cons')
qed

lemma crypt_spec:
  assumes "template L nonce A" and "L \<le> 7" and "15 - L \<le> length nonce" and "length c \<le> 16"
  shows "\<exists>A'. ccm_crypt ctx L i c A = Some (A', ctr E L nonce i [c]) \<and> template L nonce A'"
proof -
  have l: "length (ctr_block L nonce i) = 16" using assms(2,3) by (intro ctr_block_length) auto
  then have "memxor c (E (ctr_block L nonce i)) (length c) =
      Some (xor_bytes c (take (length c) (E (ctr_block L nonce i))))"
    using assms(4) block_length [OF l] by (simp add: memxor_eq xor_bytes_def)
  then show ?thesis
    using template_counter [OF assms(1,2)] assms(3) block [OF l]
    by (simp add: ccm_crypt_def Let_def)
qed

lemma mac_spec:
  assumes "length X = 16" and "length B = 16" and "length c \<le> 16"
    and "drop (length c) B = drop (length c) X"
  shows "\<exists>B'. ccm_mac ctx c B X = Some (B', cbc E [c] X) \<and> length B' = 16"
proof -
  let ?B = "xor_bytes (take (length c) X) c @ drop (length c) B"
  have b: "?B = xor_bytes X (pad16 c)" using partial_xor [OF assms(3,1)] assms(4) by simp
  have l: "length ?B = 16" using assms by simp
  show ?thesis
    using block [OF l] l unfolding ccm_mac_def Let_def by (simp add: b)
qed

lemma encrypt_loop_spec:
  assumes "L \<le> 7" and "15 - L \<le> length nonce"
  shows "template L nonce A \<Longrightarrow> length B = 16 \<Longrightarrow> length X = 16 \<Longrightarrow>
    \<exists>i' r A' B' X' out'. ccm_encrypt_loop ctx L i msg A B X out = Some (i', r, A', B', X', out') \<and>
      length r < 16 \<and> template L nonce A' \<and> length B' = 16 \<and> length X' = 16 \<and>
      cbc E (chunks msg) X = cbc E (chunks r) X' \<and>
      out @ ctr E L nonce i (chunks msg) = out' @ ctr E L nonce i' (chunks r)"
proof (induction "length msg" arbitrary: i msg A B X out rule: less_induct)
  case less
  show ?case
  proof (cases "16 \<le> length msg")
    case False
    then show ?thesis using less.prems by (simp add: ccm_encrypt_loop.simps [of ctx L i msg])
  next
    case True
    let ?c = "take 16 msg"
    have c: "length ?c = 16" using True by simp
    obtain B1 where m: "ccm_mac ctx ?c B X = Some (B1, cbc E [?c] X)" "length B1 = 16"
      using mac_spec [OF less.prems(3,2), of ?c] less.prems c by auto
    obtain A1 where e: "ccm_crypt ctx L i ?c A = Some (A1, ctr E L nonce i [?c])" "template L nonce A1"
      using crypt_spec [OF less.prems(1) assms, of ?c i] c by auto
    have lX: "length (cbc E [?c] X) = 16" using c less.prems(3) by (intro cbc_length) auto
    have step: "ccm_encrypt_loop ctx L i msg A B X out =
        ccm_encrypt_loop ctx L (i + 1) (drop 16 msg) A1 B1 (cbc E [?c] X) (out @ ctr E L nonce i [?c])"
      using True m e by (subst ccm_encrypt_loop.simps) simp
    have ch: "chunks msg = ?c # chunks (drop 16 msg)" using True by (rule chunks_simps(3))
    show ?thesis
      using less.hyps [of "drop 16 msg" A1 B1 "cbc E [?c] X" "i + 1" "out @ ctr E L nonce i [?c]"]
        m(2) e(2) lX True
      unfolding step ch by simp
  qed
qed

lemma decrypt_loop_spec:
  assumes "L \<le> 7" and "15 - L \<le> length nonce"
  shows "template L nonce A \<Longrightarrow> length B = 16 \<Longrightarrow> length X = 16 \<Longrightarrow>
    \<exists>i' r A' B' X' out'. ccm_decrypt_loop ctx L i msg A B X out = Some (i', r, A', B', X', out') \<and>
      length r < 16 \<and> template L nonce A' \<and> length B' = 16 \<and> length X' = 16 \<and>
      cbc E (chunks (ctr E L nonce i (chunks msg))) X =
        cbc E (chunks (ctr E L nonce i' (chunks r))) X' \<and>
      out @ ctr E L nonce i (chunks msg) = out' @ ctr E L nonce i' (chunks r)"
proof (induction "length msg" arbitrary: i msg A B X out rule: less_induct)
  case less
  show ?case
  proof (cases "16 \<le> length msg")
    case False
    then show ?thesis using less.prems by (simp add: ccm_decrypt_loop.simps [of ctx L i msg])
  next
    case True
    let ?c = "ctr E L nonce i [take 16 msg]"
    have "length (ctr_block L nonce i) = 16" using assms by (intro ctr_block_length) auto
    then have c: "length ?c = 16" using True block_length by simp
    obtain A1 where e: "ccm_crypt ctx L i (take 16 msg) A = Some (A1, ?c)" "template L nonce A1"
      using crypt_spec [OF less.prems(1) assms, of "take 16 msg" i] True by auto
    obtain B1 where m: "ccm_mac ctx ?c B X = Some (B1, cbc E [?c] X)" "length B1 = 16"
      using mac_spec [OF less.prems(3,2), of ?c] less.prems c by auto
    have lX: "length (cbc E [?c] X) = 16" using c less.prems(3) by (intro cbc_length) auto
    have step: "ccm_decrypt_loop ctx L i msg A B X out =
        ccm_decrypt_loop ctx L (i + 1) (drop 16 msg) A1 B1 (cbc E [?c] X) (out @ ?c)"
      using True m e by (subst ccm_decrypt_loop.simps) simp
    have ch: "chunks msg = take 16 msg # chunks (drop 16 msg)" using True by (rule chunks_simps(3))
    have d: "ctr E L nonce i (chunks msg) = ?c @ ctr E L nonce (i + 1) (chunks (drop 16 msg))"
      unfolding ch by simp
    have ch2: "chunks (?c @ x) = ?c # chunks x" for x
      using chunks_simps(3) [of "?c @ x"] c by simp
    show ?thesis
      using less.hyps [of "drop 16 msg" A1 B1 "cbc E [?c] X" "i + 1" "out @ ?c"] m(2) e(2) lX True
      unfolding step d ch2 by (simp del: ctr.simps)
  qed
qed

lemma block0_spec:
  "15 - L \<le> length nonce \<Longrightarrow> L \<le> 15 \<Longrightarrow>
   block0 M L (length aad) lm nonce = Some (first_block M L nonce aad lm) \<and>
   length (first_block M L nonce aad lm) = 16"
  by (simp add: block0_def first_block_def)

lemma template_init:
  "15 - L \<le> length nonce \<Longrightarrow> L \<le> 7 \<Longrightarrow>
   template L nonce (word_of_nat (L - 1) # take (15 - L) nonce @ replicate L 0)"
  by (simp add: template_def take_Cons' Suc_diff_le)

lemma encrypt_message_spec:
  assumes L: "L \<le> 7" and n: "15 - L \<le> length nonce" and M: "M \<le> 16"
  shows "dtls_ccm_encrypt_message ctx M L nonce msg aad =
    Some (int (length msg + M), ccm_seal E M L nonce aad msg)"
proof -
  let ?B0 = "first_block M L nonce aad (length msg)"
  let ?X0 = "if aad = [] then E ?B0 else cbc E (chunks (aad_prefix (length aad) @ aad)) (E ?B0)"
  let ?A = "word_of_nat (L - 1) # take (15 - L) nonce @ replicate L 0"
  let ?S = "E (ctr_block L nonce 0)"
  have L15: "L \<le> 15" using L by simp
  note b0 = block0_spec [OF n L15, of M aad "length msg"]
  obtain B1 where a: "add_auth_data ctx aad ?B0 = Some (B1, ?X0)" "length B1 = 16"
    using add_auth_data_spec b0 by blast
  note chl = chunks_length
  have lX0: "length ?X0 = 16" using b0 chl by (auto intro!: cbc_length simp: block_length)
  obtain i' r A' B' X' out' where l:
    "ccm_encrypt_loop ctx L 1 msg ?A B1 ?X0 [] = Some (i', r, A', B', X', out')" "length r < 16"
    "template L nonce A'" "length B' = 16" "length X' = 16"
    "cbc E (chunks msg) ?X0 = cbc E (chunks r) X'"
    "ctr E L nonce 1 (chunks msg) = out' @ ctr E L nonce i' (chunks r)"
    using encrypt_loop_spec [OF L n template_init [OF n L] a(2) lX0, of 1 msg "[]"] by auto
  let ?tail = "if r \<noteq> [] then do {
         let B = take (length r) B' @ drop (length r) X';
         (B, X) \<leftarrow> ccm_mac ctx r B X';
         (A, c) \<leftarrow> ccm_crypt ctx L i' r A';
         Some (A, X, out' @ c) }
       else Some (A', X', out')"
  have tail: "\<exists>A2. ?tail = Some (A2, cbc E (chunks msg) ?X0, ctr E L nonce 1 (chunks msg)) \<and>
      template L nonce A2"
  proof (cases "r = []")
    case True
    then show ?thesis using l by (simp add: chunks_simps)
  next
    case False
    then have ch: "chunks r = [r]" using l(2) by (simp add: chunks_simps)
    let ?B = "take (length r) B' @ drop (length r) X'"
    have "length ?B = 16" "drop (length r) ?B = drop (length r) X'" using l by simp_all
    then obtain B2 where "ccm_mac ctx r ?B X' = Some (B2, cbc E [r] X')"
      using mac_spec [OF l(5), of ?B r] l(2) by auto
    moreover obtain A2 where "ccm_crypt ctx L i' r A' = Some (A2, ctr E L nonce i' [r])"
      "template L nonce A2"
      using crypt_spec [OF l(3) L n, of r i'] l(2) by auto
    ultimately show ?thesis using False l(6,7) unfolding ch Let_def by simp
  qed
  then obtain A2 where t: "?tail = Some (A2, cbc E (chunks msg) ?X0, ctr E L nonce 1 (chunks msg))"
    "template L nonce A2" by blast
  have S: "rijndael_encrypt ctx (SET_COUNTER A2 L 0) = Some ?S"
    using template_counter(1) [OF t(2) L] block [OF ctr_block_length [OF L15 n, of 0]] by simp
  have nn: "rd_n nonce 0 (15 - L) = Some (take (15 - L) nonce)" using n by simp
  show ?thesis
    unfolding dtls_ccm_encrypt_message_def b0 [THEN conjunct1] Option.bind.bind_lunit a(1) prod.case
      nn Let_def [of "_ # _"] l(1) t(1) S
    by (simp add: ccm_seal_def ccm_tag_def Let_def)
qed

lemma decrypt_message_spec:
  assumes L: "L \<le> 7" and n: "15 - L \<le> length nonce" and M: "M \<le> 16" and len: "M \<le> length c"
  defines "lm \<equiv> length c - M"
  defines "m \<equiv> ctr E L nonce 1 (chunks (take lm c))"
  shows "dtls_ccm_decrypt_message ctx M L nonce c aad =
    Some (if drop lm c = ccm_tag E M L nonce aad m then int lm else -1,
          m @ xor_bytes (drop lm c) (take M (E (ctr_block L nonce 0))))"
proof -
  let ?B0 = "first_block M L nonce aad lm"
  let ?X0 = "if aad = [] then E ?B0 else cbc E (chunks (aad_prefix (length aad) @ aad)) (E ?B0)"
  let ?A = "word_of_nat (L - 1) # take (15 - L) nonce @ replicate L 0"
  let ?S = "E (ctr_block L nonce 0)"
  have L15: "L \<le> 15" using L by simp
  note b0 = block0_spec [OF n L15, of M aad lm]
  obtain B1 where a: "add_auth_data ctx aad ?B0 = Some (B1, ?X0)" "length B1 = 16"
    using add_auth_data_spec b0 by blast
  note chl = chunks_length
  have lX0: "length ?X0 = 16" using b0 chl by (auto intro!: cbc_length simp: block_length)
  have lS: "length ?S = 16" using block_length [OF ctr_block_length [OF L15 n]] .
  have lm: "length (take lm c) = lm" "length (drop lm c) = M" using len by (auto simp: lm_def)
  have lenm: "length m = lm"
    unfolding m_def using length_ctr [of E L nonce "chunks (take lm c)" 1]
      block_length ctr_block_length [OF L15 n] chl lm(1) by (simp add: concat_chunks)
  obtain i' r A' B' X' out' where l:
    "ccm_decrypt_loop ctx L 1 (take lm c) ?A B1 ?X0 [] = Some (i', r, A', B', X', out')"
    "length r < 16" "template L nonce A'" "length B' = 16" "length X' = 16"
    "cbc E (chunks m) ?X0 = cbc E (chunks (ctr E L nonce i' (chunks r))) X'"
    "m = out' @ ctr E L nonce i' (chunks r)"
    using decrypt_loop_spec [OF L n template_init [OF n L] a(2) lX0, of 1 "take lm c" "[]"]
    unfolding m_def by auto
  let ?tail = "if r \<noteq> [] then do {
         (A, c) \<leftarrow> ccm_crypt ctx L i' r A';
         let B = take (length r) B' @ drop (length r) X';
         (B, X) \<leftarrow> ccm_mac ctx c B X';
         Some (A, X, out' @ c) }
       else Some (A', X', out')"
  have "\<exists>A2. ?tail = Some (A2, cbc E (chunks m) ?X0, m) \<and> template L nonce A2"
  proof (cases "r = []")
    case True
    then show ?thesis using l by (simp add: chunks_simps)
  next
    case False
    let ?d = "ctr E L nonce i' [r]"
    have ch: "chunks r = [r]" using False l(2) by (simp add: chunks_simps)
    have ld: "length ?d = length r"
      using l(2) block_length [OF ctr_block_length [OF L15 n]] by simp
    moreover have "?d \<noteq> []" using ld False by (metis length_0_conv)
    ultimately have chd: "chunks ?d = [?d]" using l(2) by (intro chunks_simps(2)) (simp_all del: ctr.simps)
    let ?B = "take (length r) B' @ drop (length r) X'"
    have "length ?B = 16" "drop (length ?d) ?B = drop (length ?d) X'" "length ?d \<le> 16"
      using l ld by (simp_all del: ctr.simps)
    then obtain B2 where "ccm_mac ctx ?d ?B X' = Some (B2, cbc E [?d] X')"
      using mac_spec [OF l(5), of ?B ?d] by blast
    moreover obtain A2 where "ccm_crypt ctx L i' r A' = Some (A2, ?d)" "template L nonce A2"
      using crypt_spec [OF l(3) L n, of r i'] l(2) by auto
    ultimately show ?thesis using False l(6,7) chd unfolding ch Let_def by (simp del: ctr.simps)
  qed
  then obtain A2 where t: "?tail = Some (A2, cbc E (chunks m) ?X0, m)" "template L nonce A2" by blast
  let ?X = "cbc E (chunks m) ?X0"
  have lX: "length ?X = 16" using lX0 chl by (intro cbc_length) auto
  have S: "rijndael_encrypt ctx (SET_COUNTER A2 L 0) = Some ?S"
    using template_counter(1) [OF t(2) L] block [OF ctr_block_length [OF L15 n, of 0]] by simp
  have nn: "rd_n nonce 0 (15 - L) = Some (take (15 - L) nonce)" using n by simp
  let ?T = "xor_bytes (drop lm c) (take M ?S)"
  have mx: "memxor (drop lm c) ?S M = Some ?T"
    using lm(2) lS M by (simp add: memxor_eq xor_bytes_def)
  have lT: "length ?T = M" using lm(2) lS M by simp
  have eq: "dtls_equals ?X ?T M = Some (if take M ?X = ?T then 1 else 0)"
  proof -
    have "M \<le> length ?X" using lX M by linarith
    moreover have "M \<le> length ?T" using lT by linarith
    moreover have "take M ?T = ?T" by (rule take_all) (use lT in linarith)
    ultimately show ?thesis using dtls_equals_iff [of M ?X ?T] by (simp only:)
  qed
  have tag: "ccm_tag E M L nonce aad m = xor_bytes (take M ?X) (take M ?S)"
    by (simp add: ccm_tag_def lenm)
  have lens: "length (take M ?S) = length (drop lm c)" "length (take M ?S) = length (take M ?X)"
    using lm(2) lS lX M by simp_all
  have iff: "take M ?X = ?T \<longleftrightarrow> drop lm c = ccm_tag E M L nonce aad m"
    unfolding tag using xor_bytes_cancel [OF lens(1)] xor_bytes_cancel [OF lens(2)] by metis
  have nlt: "\<not> length c < M" using len by simp
  show ?thesis
    unfolding dtls_ccm_decrypt_message_def if_not_P [OF nlt] Let_def [of lm]
      lm_def [symmetric] b0 [THEN conjunct1] Option.bind.bind_lunit a(1) prod.case
      nn Let_def [of "_ # _"] l(1) t(1) S mx eq iff
    by simp
qed

lemma ctr_involution:
  assumes "L \<le> 15" and "15 - L \<le> length nonce"
  shows "ctr E L nonce i (chunks (ctr E L nonce i (chunks m))) = m"
proof (induction "length m" arbitrary: i m rule: less_induct)
  case less
  have lS: "length (E (ctr_block L nonce j)) = 16" for j
    using block_length [OF ctr_block_length [OF assms]] .
  show ?case
  proof (cases "16 \<le> length m")
    case True
    let ?c = "take 16 m" and ?S = "E (ctr_block L nonce i)"
    let ?d = "xor_bytes ?c (take 16 ?S)"
    have ch: "chunks m = ?c # chunks (drop 16 m)" using True by (rule chunks_simps(3))
    have d: "length ?d = 16" using True lS by simp
    have e: "ctr E L nonce i (chunks m) = ?d @ ctr E L nonce (Suc i) (chunks (drop 16 m))"
      unfolding ch using True by (simp add: min_absorb2)
    have "xor_bytes ?d (take 16 ?S) = ?c" using True lS by (intro xor_bytes_cancel) simp
    moreover have "chunks (?d @ x) = ?d # chunks x" for x
      using chunks_simps(3) [of "?d @ x"] d by simp
    ultimately show ?thesis
      using less.hyps [of "drop 16 m" "Suc i"] True d unfolding e by simp
  next
    case False
    show ?thesis
    proof (cases "m = []")
      case True
      then show ?thesis by (simp add: chunks_simps)
    next
      case ne: False
      then have ch: "chunks m = [m]" using False by (intro chunks_simps(2)) auto
      let ?d = "xor_bytes m (take (length m) (E (ctr_block L nonce i)))"
      have d: "length ?d = length m" using False lS by simp
      then have "?d \<noteq> []" using ne by (metis length_0_conv)
      then have "chunks ?d = [?d]" using d False by (intro chunks_simps(2)) auto
      moreover have "xor_bytes ?d (take (length m) (E (ctr_block L nonce i))) = m"
        using False lS by (intro xor_bytes_cancel) simp
      ultimately show ?thesis using ch d by simp
    qed
  qed
qed

lemma length_tag: "M \<le> 16 \<Longrightarrow> L \<le> 15 \<Longrightarrow> 15 - L \<le> length nonce \<Longrightarrow> length (ccm_tag E M L nonce aad m) = M"
proof -
  assume M: "M \<le> 16" and L: "L \<le> 15" "15 - L \<le> length nonce"
  note chl = chunks_length
  let ?B0 = "first_block M L nonce aad (length m)"
  have "length ?B0 = 16" using block0_spec [OF L(2,1)] by blast
  then have "length (if aad = [] then E ?B0 else cbc E (chunks (aad_prefix (length aad) @ aad)) (E ?B0)) = 16"
    using chl by (auto intro!: cbc_length simp: block_length)
  then have "length (cbc E (chunks m) (if aad = [] then E ?B0
      else cbc E (chunks (aad_prefix (length aad) @ aad)) (E ?B0))) = 16"
    using chl by (intro cbc_length) auto
  then show ?thesis
    using M block_length [OF ctr_block_length [OF L]] by (simp add: ccm_tag_def Let_def)
qed

end

end
