(* ===== verification/Aead.thy ===== *)
theory Aead
  imports Ccm_Correct
begin

text \<open>
  Authenticated encryption as the record layer uses it: \<open>dtls_encrypt\<close> and \<open>dtls_decrypt\<close> of
  \<open>dtls-crypto.c\<close>, AES-128-CCM with an 8-byte tag. The cipher context is one global object behind
  a mutex; it is an argument here, and the theorems show that nothing it held before matters,
  because every use starts with a key setup.
\<close>

subsection \<open>The code\<close>

definition dtls_ccm_encrypt :: "rijndael_ctx \<Rightarrow> bytes \<Rightarrow> bytes \<Rightarrow> bytes \<Rightarrow> (int \<times> bytes) option" where
  "dtls_ccm_encrypt ccm_ctx src nounce aad =
     dtls_ccm_encrypt_message ccm_ctx 8 (max 2 (15 - 12)) nounce src aad"

definition dtls_ccm_decrypt :: "rijndael_ctx \<Rightarrow> bytes \<Rightarrow> bytes \<Rightarrow> bytes \<Rightarrow> (int \<times> bytes) option" where
  "dtls_ccm_decrypt ccm_ctx src nounce aad =
     dtls_ccm_decrypt_message ccm_ctx 8 (max 2 (15 - 12)) nounce src aad"

text \<open>The result is the return value and the contents of the result buffer, which an error in the
  key setup leaves alone (\<open>buf\<close>).\<close>

definition dtls_encrypt ::
  "rijndael_ctx \<Rightarrow> bytes \<Rightarrow> bytes \<Rightarrow> bytes \<Rightarrow> bytes \<Rightarrow> bytes \<Rightarrow> (int \<times> bytes) option" where
  "dtls_encrypt cctx src buf nounce key aad = do {
     (ctx, ret) \<leftarrow> rijndael_set_key_enc_only cctx key (8 * length key);
     if ret < 0 then Some (ret, buf) else dtls_ccm_encrypt ctx src nounce aad }"

definition dtls_decrypt ::
  "rijndael_ctx \<Rightarrow> bytes \<Rightarrow> bytes \<Rightarrow> bytes \<Rightarrow> bytes \<Rightarrow> bytes \<Rightarrow> (int \<times> bytes) option" where
  "dtls_decrypt cctx src buf nounce key aad = do {
     (ctx, ret) \<leftarrow> rijndael_set_key_enc_only cctx key (8 * length key);
     if ret < 0 then Some (ret, buf) else dtls_ccm_decrypt ctx src nounce aad }"

subsection \<open>AES contexts provide the block cipher\<close>

definition valid_cctx :: "rijndael_ctx \<Rightarrow> bool" where
  "valid_cctx c \<longleftrightarrow> length (aes_ek c) = 44"

text \<open>The context of a key, cut or padded to 16 bytes so that it is defined for every list.\<close>

definition key16 :: "bytes \<Rightarrow> bytes" where
  "key16 key = take 16 (key @ replicate 16 0)"

definition aes_ctx :: "bytes \<Rightarrow> rijndael_ctx" where
  "aes_ctx key = \<lparr>aes_Nr = 10, aes_ek = map (KeyExpansion (key16 key)) [0..<44]\<rparr>"

lemma length_key16 [simp]: "length (key16 key) = 16"
  by (simp add: key16_def)

lemma key16_id [simp]: "length key = 16 \<Longrightarrow> key16 key = key"
  by (simp add: key16_def)

lemma length_ShiftRows [simp]: "length (ShiftRows st) = 16"
  by (simp add: ShiftRows_def)

lemma length_AES128 [simp]: "length (AES128 key b) = 16"
  by (simp add: AES128_def Cipher_def Let_def RoundKey_def)

interpretation aes: keyed_ctx "aes_ctx key" "AES128 (key16 key)" for key
proof unfold_locales
  show "rijndael_encrypt (aes_ctx key) b = Some (AES128 (key16 key) b)" if "length b = 16" for b
    using rijndaelEncrypt_spec [of "aes_ek (aes_ctx key)" "KeyExpansion (key16 key)" b] that
    by (simp add: rijndael_encrypt_def AES128_def aes_ctx_def)
qed simp

lemma set_key_ctx:
  assumes "length key = 16" and "valid_cctx cctx"
  shows "rijndael_set_key_enc_only cctx key 128 = Some (aes_ctx key, 0)"
proof -
  obtain c where c: "rijndael_set_key_enc_only cctx key 128 = Some (c, 0)" "aes_Nr c = 10"
    "length (aes_ek c) = 44" "\<forall>k<44. aes_ek c ! k = KeyExpansion key k"
    using set_key_spec assms unfolding valid_cctx_def by blast
  have "aes_ek c = map (KeyExpansion key) [0..<44]"
    using c(3,4) by (intro nth_equalityI) auto
  then have "c = aes_ctx key" using c(2) assms(1) by (simp add: aes_ctx_def)
  then show ?thesis using c(1) by simp
qed

subsection \<open>Sealing and opening\<close>

definition seal :: "bytes \<Rightarrow> bytes \<Rightarrow> bytes \<Rightarrow> bytes \<Rightarrow> bytes" where
  "seal key nonce aad m = ccm_seal (AES128 key) 8 3 nonce aad m"

lemma dtls_encrypt_seal:
  assumes "length key = 16" and "valid_cctx cctx" and "12 \<le> length nonce"
  shows "dtls_encrypt cctx m buf nonce key aad = Some (int (length m + 8), seal key nonce aad m)"
  using assms set_key_ctx [OF assms(1,2)] aes.encrypt_message_spec [of 3 nonce 8 key m aad]
  by (simp add: dtls_encrypt_def dtls_ccm_encrypt_def seal_def)

lemma length_ccm_ctr:
  "12 \<le> length nonce \<Longrightarrow> length (ctr (AES128 key) 3 nonce i (chunks m)) = length m"
  using length_ctr [of "AES128 key" 3 nonce "chunks m" i] chunks_length [of m]
  by (simp add: concat_chunks)

lemma length_seal [simp]:
  "length key = 16 \<Longrightarrow> 12 \<le> length nonce \<Longrightarrow> length (seal key nonce aad m) = length m + 8"
  using aes.length_tag [of 8 3 nonce key aad m]
  by (simp add: seal_def ccm_seal_def length_ccm_ctr)

lemma dtls_decrypt_open:
  assumes k: "length key = 16" and v: "valid_cctx cctx" and n: "12 \<le> length nonce"
  shows "\<exists>m t. length m = length c - 8 \<and>
    dtls_decrypt cctx c buf nonce key aad =
      (if length c < 8 then Some (-1, c)
       else Some (if c = seal key nonce aad m then int (length c - 8) else -1, m @ t))"
proof (cases "length c < 8")
  case True
  then show ?thesis
    using set_key_ctx [OF k v] k
    by (auto simp: dtls_decrypt_def dtls_ccm_decrypt_def dtls_ccm_decrypt_message_def)
next
  case False
  let ?lm = "length c - 8"
  let ?m = "ctr (AES128 key) 3 nonce 1 (chunks (take ?lm c))"
  have spec: "dtls_decrypt cctx c buf nonce key aad =
    Some (if drop ?lm c = ccm_tag (AES128 key) 8 3 nonce aad ?m then int ?lm else -1,
          ?m @ xor_bytes (drop ?lm c) (take 8 (AES128 key (ctr_block 3 nonce 0))))"
    using set_key_ctx [OF k v] k n False aes.decrypt_message_spec [of 3 nonce 8 c key aad]
    by (simp add: dtls_decrypt_def dtls_ccm_decrypt_def)
  have inv: "ctr (AES128 key) 3 nonce 1 (chunks ?m) = take ?lm c"
    using aes.ctr_involution [of 3 nonce key 1 "take ?lm c"] n k by simp
  have "c = take ?lm c @ drop ?lm c" by simp
  then have "c = seal key nonce aad ?m \<longleftrightarrow> drop ?lm c = ccm_tag (AES128 key) 8 3 nonce aad ?m"
    unfolding seal_def ccm_seal_def inv by (metis same_append_eq)
  then show ?thesis
    using spec False n
    by (intro exI [of _ ?m] exI [of _ "xor_bytes (drop ?lm c) (take 8 (AES128 key (ctr_block 3 nonce 0)))"])
      (simp add: length_ccm_ctr)
qed

lemma dtls_decrypt_seal:
  assumes "length key = 16" and "valid_cctx cctx'" and "12 \<le> length nonce"
  shows "\<exists>t. dtls_decrypt cctx' (seal key nonce aad m) buf' nonce key aad = Some (int (length m), m @ t)"
proof -
  let ?c = "seal key nonce aad m"
  have l: "length ?c = length m + 8" using assms by simp
  obtain m' t where d: "dtls_decrypt cctx' ?c buf' nonce key aad =
      Some (if ?c = seal key nonce aad m' then int (length ?c - 8) else -1, m' @ t)"
    "length m' = length ?c - 8"
    using dtls_decrypt_open [OF assms(1,2,3), of ?c buf' aad] l by auto
  have "m' = m"
  proof -
    have spec: "dtls_decrypt cctx' ?c buf' nonce key aad =
      Some (if drop (length ?c - 8) ?c = ccm_tag (AES128 key) 8 3 nonce aad
              (ctr (AES128 key) 3 nonce 1 (chunks (take (length ?c - 8) ?c)))
            then int (length ?c - 8) else -1,
          ctr (AES128 key) 3 nonce 1 (chunks (take (length ?c - 8) ?c)) @
          xor_bytes (drop (length ?c - 8) ?c) (take 8 (AES128 key (ctr_block 3 nonce 0))))"
      using set_key_ctx [OF assms(1,2)] assms l aes.decrypt_message_spec [of 3 nonce 8 ?c key aad]
      by (simp add: dtls_decrypt_def dtls_ccm_decrypt_def)
    have "take (length m) ?c = ctr (AES128 key) 3 nonce 1 (chunks m)"
      using length_ccm_ctr [OF assms(3), of key 1 m] by (simp add: seal_def ccm_seal_def)
    then have "ctr (AES128 key) 3 nonce 1 (chunks (take (length ?c - 8) ?c)) = m"
      using aes.ctr_involution [of 3 nonce key 1 m] assms l by simp
    then show ?thesis using d spec l by simp
  qed
  then show ?thesis
    using d l by auto
qed

text \<open>C29: Decryption inverts encryption: for every 16-byte key, 12-byte nonce, additional data and
  message, whatever the shared cipher context held before, \<open>dtls_encrypt\<close> returns the message
  length plus eight and \<open>dtls_decrypt\<close> on its output returns the message length and the message.\<close>

theorem aead_roundtrip:
  assumes "length key = 16" and "valid_cctx cctx" and "valid_cctx cctx'" and "12 \<le> length nonce"
  shows "\<exists>c t. dtls_encrypt cctx m buf nonce key aad = Some (int (length m + 8), c) \<and>
    length c = length m + 8 \<and>
    dtls_decrypt cctx' c buf' nonce key aad = Some (int (length m), m @ t)"
  using dtls_decrypt_seal [OF assms(1,3,4), of aad m buf'] dtls_encrypt_seal [OF assms(1,2,4)] assms
  by (fastforce)

lemma aead_roundtrip_witness:
  "\<exists>c t. dtls_decrypt (aes_ctx []) c [] (replicate 12 3) (replicate 16 1) [7] = Some (2, [5, 6] @ t)"
  using aead_roundtrip [of "replicate 16 1" "aes_ctx []" "aes_ctx []" "replicate 12 3" "[5, 6]" "[]" "[7]" "[]"]
  by (auto simp: valid_cctx_def aes_ctx_def)

text \<open>C5: Decryption accepts nothing else: \<open>dtls_decrypt\<close> returns -1 for inputs shorter than the
  tag, and otherwise returns the plaintext length exactly when the input is what \<open>dtls_encrypt\<close>
  produces for the plaintext in the buffer, under the same key, nonce and additional data.\<close>

theorem aead_accepts_only_sealed:
  assumes "length key = 16" and "valid_cctx cctx" and "12 \<le> length nonce"
  shows "\<exists>ret buf'. dtls_decrypt cctx c buf nonce key aad = Some (ret, buf') \<and>
    (ret = -1 \<or> ret = int (length c - 8) \<and> 8 \<le> length c) \<and>
    (0 \<le> ret \<longleftrightarrow> 8 \<le> length c \<and>
       dtls_encrypt cctx (take (length c - 8) buf') buf nonce key aad = Some (int (length c), c))"
proof -
  obtain m t where d: "length m = length c - 8" "dtls_decrypt cctx c buf nonce key aad =
      (if length c < 8 then Some (-1, c)
       else Some (if c = seal key nonce aad m then int (length c - 8) else -1, m @ t))"
    using dtls_decrypt_open [OF assms] by blast
  show ?thesis
  proof (cases "length c < 8")
    case True
    then show ?thesis using d by simp
  next
    case False
    then show ?thesis
      using d dtls_encrypt_seal [OF assms, of m buf aad] by (auto simp: of_nat_diff)
  qed
qed

lemma aead_accepts_only_sealed_witness:
  "\<exists>ret buf'. dtls_decrypt (aes_ctx []) [1, 2, 3] [] (replicate 12 3) (replicate 16 1) [7] =
     Some (ret, buf') \<and> ret = -1"
  using aead_accepts_only_sealed [of "replicate 16 1" "aes_ctx []" "replicate 12 3" "[1, 2, 3]" "[]" "[7]"]
  by (auto simp: valid_cctx_def aes_ctx_def)

end
