(* ===== verification/RecordLayer.thy ===== *)
theory RecordLayer
  imports Peer Aead
begin

text \<open>
  The record layer of \<open>dtls.c\<close> and the alert codes of \<open>dtls-alert.h\<close>: recognising a record,
  writing record and handshake headers, building (and encrypting) an outgoing record, and
  decrypting an incoming one.
\<close>

subsection \<open>Alert codes\<close>

definition dtls_alert_create :: "nat \<Rightarrow> nat \<Rightarrow> int" where
  "dtls_alert_create level desc = - int (push_bit 8 level OR desc)"

definition dtls_alert_fatal_create :: "nat \<Rightarrow> int" where
  "dtls_alert_fatal_create desc = dtls_alert_create 2 desc"

definition DTLS_ALERT_UNEXPECTED_MESSAGE :: nat where "DTLS_ALERT_UNEXPECTED_MESSAGE = 10"
definition DTLS_ALERT_HANDSHAKE_FAILURE :: nat where "DTLS_ALERT_HANDSHAKE_FAILURE = 40"
definition DTLS_ALERT_DECODE_ERROR :: nat where "DTLS_ALERT_DECODE_ERROR = 50"
definition DTLS_ALERT_DECRYPT_ERROR :: nat where "DTLS_ALERT_DECRYPT_ERROR = 51"
definition DTLS_ALERT_PROTOCOL_VERSION :: nat where "DTLS_ALERT_PROTOCOL_VERSION = 70"
definition DTLS_ALERT_INSUFFICIENT_SECURITY :: nat where "DTLS_ALERT_INSUFFICIENT_SECURITY = 71"
definition DTLS_ALERT_INTERNAL_ERROR :: nat where "DTLS_ALERT_INTERNAL_ERROR = 80"
definition DTLS_ALERT_NO_RENEGOTIATION :: nat where "DTLS_ALERT_NO_RENEGOTIATION = 100"
definition DTLS_ALERT_CLOSE_NOTIFY :: nat where "DTLS_ALERT_CLOSE_NOTIFY = 0"

lemmas alert_defs = dtls_alert_create_def dtls_alert_fatal_create_def
  DTLS_ALERT_UNEXPECTED_MESSAGE_def DTLS_ALERT_HANDSHAKE_FAILURE_def DTLS_ALERT_DECODE_ERROR_def
  DTLS_ALERT_DECRYPT_ERROR_def DTLS_ALERT_PROTOCOL_VERSION_def
  DTLS_ALERT_INSUFFICIENT_SECURITY_def DTLS_ALERT_INTERNAL_ERROR_def
  DTLS_ALERT_NO_RENEGOTIATION_def DTLS_ALERT_CLOSE_NOTIFY_def

subsection \<open>Headers\<close>

definition DTLS_VERSION :: u16 where "DTLS_VERSION = 0xfefd"

text \<open>The list of content types is a C string: \<open>strchr\<close> also finds its terminating zero.\<close>

definition content_types :: bytes where
  "content_types = [20, 21, 22, 23, 0]"

definition is_record :: "bytes \<Rightarrow> nat option" where
  "is_record msg =
     (if length msg \<ge> 13 \<and> msg ! 0 \<in> set content_types \<and>
         msg ! 1 = ucast (drop_bit 8 DTLS_VERSION AND 0xff) \<and> msg ! 2 = ucast (DTLS_VERSION AND 0xff)
      then do {
        len \<leftarrow> dtls_uint16_to_int (drop 11 msg);
        let rlen = 13 + unat len;
        Some (if rlen > length msg then 0 else rlen) }
      else Some 0)"

text \<open>The 13 bytes of the header and the security parameters, whose sequence number advances.\<close>

definition dtls_set_record_header ::
  "u8 \<Rightarrow> dtls_security_parameters_t option \<Rightarrow> bytes \<times> dtls_security_parameters_t option" where
  "dtls_set_record_header type security =
     (let b = dtls_int_to_uint8 type @ dtls_int_to_uint16 DTLS_VERSION in
      case security of
        Some s \<Rightarrow> (b @ dtls_int_to_uint16 (sp_epoch s) @ dtls_int_to_uint48 (sp_rseq s) @ [0, 0],
                   Some (s\<lparr>sp_rseq := sp_rseq s + 1\<rparr>))
      | None \<Rightarrow> (b @ replicate 8 0 @ [0, 0], None))"

text \<open>The 12 bytes of a handshake header; \<open>seq_nr_inc\<close> advances the message sequence number of
  the handshake.\<close>

definition dtls_set_handshake_header ::
  "u8 \<Rightarrow> dtls_handshake_parameters_t option \<Rightarrow> nat \<Rightarrow> nat \<Rightarrow> nat \<Rightarrow> bool \<Rightarrow>
   bytes \<times> dtls_handshake_parameters_t option" where
  "dtls_set_handshake_header type hs len frag_offset frag_length seq_nr_inc =
     (let b = dtls_int_to_uint8 type @ dtls_int_to_uint24 (word_of_nat len);
          e = dtls_int_to_uint24 (word_of_nat frag_offset) @ dtls_int_to_uint24 (word_of_nat frag_length)
      in case hs of
        Some h \<Rightarrow>
          (let st = hp_hs_state h in
           (b @ dtls_int_to_uint16 (hs_mseq_s st) @ e,
            Some (if seq_nr_inc
                  then h\<lparr>hp_hs_state := st\<lparr>hs_mseq_s := hs_mseq_s st + 1\<rparr>\<rparr> else h)))
      | None \<Rightarrow> (b @ [0, 0] @ e, None))"

subsection \<open>Outgoing records\<close>

text \<open>The loop that copies the payloads behind each other, with its size check.\<close>

fun gather :: "nat \<Rightarrow> nat \<Rightarrow> bytes list \<Rightarrow> bytes option" where
  "gather rlen res [] = Some []"
| "gather rlen res (d # ds) =
     (if rlen < res + 13 + length d then None
      else map_option (\<lambda>r. d @ r) (gather rlen (res + length d) ds))"

definition nonce_of :: "bytes \<Rightarrow> nat \<Rightarrow> bytes \<Rightarrow> bytes" where
  "nonce_of key_block iv explicit = take 4 (drop iv key_block) @ explicit @ replicate 4 0"

text \<open>The result: the return value, the record that is left in the send buffer if the value is 0,
  and the security parameters. \<open>rlen\<close> is the size of the send buffer; the size check does not
  count the eight bytes of the tag, so the encryption may write past the buffer (\<open>None\<close>).\<close>

definition dtls_prepare_record ::
  "rijndael_ctx \<Rightarrow> dtls_peer_type option \<Rightarrow> dtls_security_parameters_t option \<Rightarrow> u8 \<Rightarrow>
   bytes list \<Rightarrow> nat \<Rightarrow> (int \<times> bytes \<times> dtls_security_parameters_t option) option" where
  "dtls_prepare_record cctx role security type data_array rlen =
     (if rlen < 13 then Some (dtls_alert_fatal_create DTLS_ALERT_INTERNAL_ERROR, [], security)
      else
       (let (hdr, security') = dtls_set_record_header type security in
        case security of
          None \<Rightarrow>
            (case gather rlen 0 data_array of
               None \<Rightarrow> Some (dtls_alert_fatal_create DTLS_ALERT_INTERNAL_ERROR, [], security')
             | Some p \<Rightarrow> Some (0, put 11 (dtls_int_to_uint16 (word_of_nat (length p))) hdr @ p, security'))
        | Some s \<Rightarrow>
            (if sp_cipher s = TLS_NULL_WITH_NULL_NULL then
               (case gather rlen 0 data_array of
                  None \<Rightarrow> Some (dtls_alert_fatal_create DTLS_ALERT_INTERNAL_ERROR, [], security')
                | Some p \<Rightarrow> Some (0, put 11 (dtls_int_to_uint16 (word_of_nat (length p))) hdr @ p, security'))
             else case role of
               None \<Rightarrow> Some (dtls_alert_fatal_create DTLS_ALERT_INTERNAL_ERROR, [], security')
             | Some r \<Rightarrow>
                 (case gather rlen 8 data_array of
                    None \<Rightarrow> Some (dtls_alert_fatal_create DTLS_ALERT_INTERNAL_ERROR, [], security')
                  | Some p \<Rightarrow>
                     (let start = take 8 (drop 3 hdr);
                          nonce = nonce_of (sp_key_block s) (dtls_kb_local_iv r) start;
                          key = take 16 (drop (dtls_kb_local_write_key r) (sp_key_block s));
                          A_DATA = start @ take 3 hdr @ dtls_int_to_uint16 (word_of_nat (length p))
                      in if rlen < 13 + 8 + length p + 8 then None
                         else (case dtls_encrypt cctx p p nonce key A_DATA of
                            None \<Rightarrow> None
                          | Some (res, buf) \<Rightarrow>
                              (if res < 0 then Some (res, [], security')
                               else Some (0, put 11 (dtls_int_to_uint16 (word_of_int (res + 8))) hdr @
                                    start @ buf, security'))))))))"

subsection \<open>Incoming records\<close>

definition dtls_get_epoch :: "bytes \<Rightarrow> u16 option" where
  "dtls_get_epoch header = dtls_uint16_to_int (drop 3 header)"

text \<open>The result: the return value, the buffer from \<open>cleartext\<close> on, and the peer.\<close>

definition decrypt_verify ::
  "rijndael_ctx \<Rightarrow> dtls_peer_t option \<Rightarrow> bytes \<Rightarrow> (int \<times> bytes \<times> dtls_peer_t option) option" where
  "decrypt_verify cctx peer packet =
     (case peer of
        None \<Rightarrow> Some (dtls_alert_fatal_create DTLS_ALERT_INTERNAL_ERROR, [], None)
      | Some p \<Rightarrow> do {
          epoch \<leftarrow> dtls_get_epoch packet;
          let cleartext = drop 13 packet;
          let clen = int (length packet) - 13;
          (case dtls_security_params_epoch p epoch of
             None \<Rightarrow> Some (-1, cleartext, peer)
           | Some slot \<Rightarrow> do {
               s \<leftarrow> security_slot p slot;
               if sp_cipher s = TLS_NULL_WITH_NULL_NULL then Some (clen, cleartext, peer)
               else if clen < 16 then Some (-1, cleartext, peer)
               else do {
                 let r = pr_role p;
                 let nonce = nonce_of (sp_key_block s) (dtls_kb_remote_iv r) (take 8 cleartext);
                 let key = take 16 (drop (dtls_kb_remote_write_key r) (sp_key_block s));
                 let cleartext = drop 8 cleartext;
                 let clen = clen - 8;
                 let A_DATA = take 8 (drop 3 packet) @ take 3 packet @
                       dtls_int_to_uint16 (word_of_int (clen - 8));
                 (ret, buf) \<leftarrow> dtls_decrypt cctx cleartext cleartext nonce key A_DATA;
                 Some (ret, buf,
                   Some (if ret < 0 then p else dtls_security_params_free_other p)) } }) })"

subsection \<open>Lemmas\<close>

lemma gather_fits: "res + 13 + length (concat ds) \<le> rlen \<Longrightarrow> gather rlen res ds = Some (concat ds)"
  by (induction ds arbitrary: res) auto

lemma gather_Some: "gather rlen res ds = Some p \<Longrightarrow> p = concat ds \<and> (ds = [] \<or> res + 13 + length p \<le> rlen)"
  by (induction ds arbitrary: res p) (auto split: if_splits, force)

lemma set_record_header_bytes:
  "dtls_set_record_header type (Some s) =
     (type # be_bytes 2 0xfefd @ be_bytes 2 (unat (sp_epoch s)) @ be_bytes 6 (unat (sp_rseq s)) @ [0, 0],
      Some (s\<lparr>sp_rseq := sp_rseq s + 1\<rparr>))"
  by (simp add: dtls_set_record_header_def DTLS_VERSION_def dtls_int_to_uint8_def int_to_uint16_be
      int_to_uint48_be)

lemma version_bytes: "be_bytes 2 0xfefd = [0xfe, 0xfd]"
  by (simp add: be_bytes_2)

lemma header_fields:
  fixes e s l :: bytes and t0 :: u8
  assumes "length e = 2" and "length s = 6" and "length l = 2"
  defines "h \<equiv> t0 # be_bytes 2 0xfefd @ e @ s @ l"
  shows "length h = 13" and "take 8 (drop 3 (h @ p)) = e @ s" and "take 3 (h @ p) = t0 # be_bytes 2 0xfefd"
    and "drop 13 (h @ p) = p" and "drop 11 (h @ p) = l @ p" and "put 11 l' h = t0 # be_bytes 2 0xfefd @ e @ s @ l' @ drop (11 + length l') h"
  using assms by (simp_all add: put_def)

lemma is_record_header:
  assumes "type \<in> {20, 21, 22, 23}" and "length e = 2" and "length s = 6" and "length p < 2 ^ 16"
  shows "is_record (type # be_bytes 2 0xfefd @ e @ s @ be_bytes 2 (length p) @ p @ r) =
    Some (13 + length p)"
proof -
  let ?h = "type # be_bytes 2 0xfefd @ e @ s @ be_bytes 2 (length p)"
  have d: "drop 11 (?h @ p @ r) = be_bytes 2 (length p) @ p @ r"
    using header_fields(5) [of e s "be_bytes 2 (length p)" type "p @ r"] assms by simp
  have u: "unat (word_of_nat (length p) :: u16) = length p"
    using assms(4) by (simp add: unsigned_of_nat take_bit_eq_mod)
  have "dtls_int_to_uint16 (word_of_nat (length p)) = be_bytes 2 (length p)"
    by (simp add: int_to_uint16_be u)
  then have "dtls_uint16_to_int (be_bytes 2 (length p) @ p @ r) = Some (word_of_nat (length p))"
    using uint16_roundtrip [of "word_of_nat (length p)" "p @ r"] by simp
  then have "dtls_uint16_to_int (drop 11 (?h @ p @ r)) = Some (word_of_nat (length p))"
    unfolding d .
  moreover have "ucast (drop_bit 8 DTLS_VERSION AND 0xff) = (0xfe :: u8)"
    "ucast (DTLS_VERSION AND 0xff) = (0xfd :: u8)"
    by (simp_all add: DTLS_VERSION_def)
  moreover have "(?h @ p @ r) ! 0 \<in> set content_types" "(?h @ p @ r) ! 1 = 0xfe" "(?h @ p @ r) ! 2 = 0xfd"
    using assms(1) by (auto simp: content_types_def version_bytes)
  moreover have "length (?h @ p @ r) = 13 + length p + length r" using assms by simp
  ultimately have "is_record (?h @ p @ r) = Some (13 + length p)"
    using u by (simp add: is_record_def del: append.simps append_assoc)
  then show ?thesis by simp
qed

text \<open>Keys, nonces and additional data of the two directions.\<close>

definition write_key :: "dtls_security_parameters_t \<Rightarrow> dtls_peer_type \<Rightarrow> bytes" where
  "write_key s r = take 16 (drop (dtls_kb_local_write_key r) (sp_key_block s))"

definition write_nonce :: "dtls_security_parameters_t \<Rightarrow> dtls_peer_type \<Rightarrow> bytes \<Rightarrow> bytes" where
  "write_nonce s r explicit = nonce_of (sp_key_block s) (dtls_kb_local_iv r) explicit"

definition record_aad :: "u8 \<Rightarrow> bytes \<Rightarrow> nat \<Rightarrow> bytes" where
  "record_aad type es n = es @ (type # be_bytes 2 0xfefd) @ be_bytes 2 n"

definition record_es :: "dtls_security_parameters_t \<Rightarrow> bytes" where
  "record_es s = be_bytes 2 (unat (sp_epoch s)) @ be_bytes 6 (unat (sp_rseq s))"

lemma write_lengths:
  assumes "length (sp_key_block s) = 40"
  shows "length (write_key s r) = 16" and "length x = 8 \<Longrightarrow> length (write_nonce s r x) = 16"
  using kb_in_bounds [of r] assms
  by (simp_all add: write_key_def write_nonce_def nonce_of_def)

lemma length_record_es [simp]: "length (record_es s) = 8"
  by (simp add: record_es_def)

lemma uint16_of_nat: "n < 2 ^ 16 \<Longrightarrow> dtls_int_to_uint16 (word_of_nat n) = be_bytes 2 n"
  by (simp add: int_to_uint16_be unsigned_of_nat take_bit_eq_mod)

lemma prepare_encrypted:
  assumes c: "valid_cctx cctx" and kb: "length (sp_key_block s) = 40"
    and ci: "sp_cipher s \<noteq> TLS_NULL_WITH_NULL_NULL"
    and fit: "29 + length (concat ds) \<le> rlen" and short: "length (concat ds) + 16 < 2 ^ 16"
  shows "dtls_prepare_record cctx (Some r) (Some s) type ds rlen =
    (let m = concat ds;
         b = record_es s @ seal (write_key s r) (write_nonce s r (record_es s))
               (record_aad type (record_es s) (length m)) m
     in Some (0, type # be_bytes 2 0xfefd @ record_es s @ be_bytes 2 (length b) @ b,
              Some (s\<lparr>sp_rseq := sp_rseq s + 1\<rparr>)) )"
proof -
  let ?m = "concat ds" and ?es = "record_es s"
  let ?E = "be_bytes 2 (unat (sp_epoch s))" and ?S = "be_bytes 6 (unat (sp_rseq s))"
  let ?hdr = "type # be_bytes 2 0xfefd @ ?E @ ?S @ [0, 0]"
  let ?A = "record_aad type ?es (length ?m)"
  let ?c = "seal (write_key s r) (write_nonce s r ?es) ?A ?m"
  have g: "gather rlen 8 ds = Some ?m" using fit by (intro gather_fits) simp
  have st: "take 8 (drop 3 ?hdr) = ?es" "take 3 ?hdr = type # be_bytes 2 0xfefd"
    using header_fields(2,3) [of ?E ?S "[0, 0]" type "[]"] by (simp_all add: record_es_def)
  have lc: "length ?c = length ?m + 8"
    using write_lengths [OF kb] by simp
  have A: "?es @ (type # be_bytes 2 0xfefd) @ dtls_int_to_uint16 (word_of_nat (length ?m)) = ?A"
    using short by (simp add: record_aad_def uint16_of_nat)
  have enc: "dtls_encrypt cctx ?m ?m (nonce_of (sp_key_block s) (dtls_kb_local_iv r) ?es)
      (take 16 (drop (dtls_kb_local_write_key r) (sp_key_block s))) ?A = Some (int (length ?m + 8), ?c)"
    using dtls_encrypt_seal [of "write_key s r" cctx "write_nonce s r ?es" ?m ?m ?A]
      write_lengths [OF kb] c
    by (simp add: write_key_def write_nonce_def)
  have len: "dtls_int_to_uint16 (word_of_int (int (length ?m + 8) + 8)) = be_bytes 2 (length (?es @ ?c))"
  proof -
    have "(word_of_int (int (length ?m + 8) + 8) :: u16) = word_of_nat (length ?m + 16)"
      by simp
    then show ?thesis using short lc uint16_of_nat [of "length ?m + 16"]
      by (simp add: add.commute)
  qed
  have pt: "put 11 (be_bytes 2 n) ?hdr = type # be_bytes 2 0xfefd @ ?es @ be_bytes 2 n" for n
    using header_fields(6) [of ?E ?S "[0, 0]" "be_bytes 2 n" type] by (simp add: record_es_def)
  have nlt: "\<not> rlen < 13" "\<not> rlen < 13 + 8 + length ?m + 8" using fit by simp_all
  show ?thesis
    unfolding dtls_prepare_record_def set_record_header_bytes Let_def prod.case option.case
      if_not_P [OF nlt(1)] if_not_P [OF ci] g st A if_not_P [OF nlt(2)] enc len pt
    by simp
qed

lemma decrypt_encrypted:
  assumes v: "valid_cctx cctx" and es: "length es = 8"
    and slot: "dtls_security_params_epoch q epoch = Some k" "security_slot q k = Some s2"
    and ep: "take 2 es = be_bytes 2 (unat epoch)"
    and kb: "length (sp_key_block s2) = 40" and ci: "sp_cipher s2 \<noteq> TLS_NULL_WITH_NULL_NULL"
    and l: "length l = 2" and x: "length x = 8" and big: "8 \<le> length c"
  shows "decrypt_verify cctx (Some q) (type # be_bytes 2 0xfefd @ es @ l @ x @ c) =
    map_option (\<lambda>(ret, buf). (ret, buf, Some (if ret < 0 then q else dtls_security_params_free_other q)))
      (dtls_decrypt cctx c c (write_nonce s2 (opposite (pr_role q)) x)
        (write_key s2 (opposite (pr_role q)))
        (es @ (type # be_bytes 2 0xfefd) @ dtls_int_to_uint16 (word_of_nat (length c - 8))))"
proof -
  let ?E = "take 2 es" and ?S = "drop 2 es"
  let ?p = "type # be_bytes 2 0xfefd @ es @ l @ x @ c"
  have p: "?p = (type # be_bytes 2 0xfefd @ ?E @ ?S @ l) @ x @ c" by simp
  have lE: "length ?E = 2" "length ?S = 6" using es by simp_all
  have h: "take 8 (drop 3 ?p) = es" "take 3 ?p = type # be_bytes 2 0xfefd" "drop 13 ?p = x @ c"
    using header_fields(2-4) [OF lE l, of type "x @ c"] unfolding p [symmetric] by simp_all
  have "drop 3 ?p = es @ l @ x @ c"
    by (simp add: numeral_3_eq_3 version_bytes)
  also have "\<dots> = be_bytes 2 (unat epoch) @ ?S @ l @ x @ c"
    unfolding ep [symmetric] by simp
  finally have "drop 3 ?p = be_bytes 2 (unat epoch) @ ?S @ l @ x @ c" .
  then have epo: "dtls_get_epoch ?p = Some epoch"
    unfolding dtls_get_epoch_def
    by (simp only: uint16_roundtrip [of epoch "?S @ l @ x @ c", unfolded int_to_uint16_be])
  have len: "length ?p = 21 + length c" using es l x by simp
  have cl: "int (21 + length c) - 13 - 8 = int (length c)"
    "\<not> int (21 + length c) - 13 < 16" using big by simp_all
  have A: "(word_of_int (int (length c) - 8) :: u16) = word_of_nat (length c - 8)"
    using big by (simp add: of_nat_diff)
  have xs: "take 8 (x @ c) = x" "drop 8 (x @ c) = c" using x by simp_all
  show ?thesis
    unfolding decrypt_verify_def option.case epo Option.bind.bind_lunit slot Let_def len h xs cl(1) A
      if_not_P [OF ci] if_not_P [OF cl(2)] write_nonce_def write_key_def kb_agree
    by (cases "dtls_decrypt cctx c c (nonce_of (sp_key_block s2) (dtls_kb_remote_iv (pr_role q)) x)
        (take 16 (drop (dtls_kb_remote_write_key (pr_role q)) (sp_key_block s2)))
        (es @ (type # be_bytes 2 0xfefd) @ dtls_int_to_uint16 (word_of_nat (length c - 8)))") auto
qed

text \<open>The shape of a record.\<close>

lemma is_record_shape:
  assumes r: "is_record p = Some (length p)" and n: "0 < length p"
  shows "\<exists>type. p = type # be_bytes 2 0xfefd @ take 8 (drop 3 p) @ take 2 (drop 11 p) @ drop 13 p"
    and "13 \<le> length p"
proof -
  have c: "13 \<le> length p" "p ! 1 = 0xfe" "p ! 2 = 0xfd"
    using r n by (auto simp: is_record_def DTLS_VERSION_def split: if_splits)
  then show "13 \<le> length p" by simp
  have "p = take 3 p @ take 8 (drop 3 p) @ take 2 (drop 8 (drop 3 p)) @ drop 2 (drop 8 (drop 3 p))"
    by (simp only: append_take_drop_id)
  moreover have "take 3 p = p ! 0 # [p ! 1, p ! 2]"
    using c(1) by (intro nth_equalityI) (auto simp: less_Suc_eq numeral_3_eq_3 numeral_2_eq_2)
  ultimately show "\<exists>type. p = type # be_bytes 2 0xfefd @ take 8 (drop 3 p) @ take 2 (drop 11 p) @ drop 13 p"
    using c by (intro exI [of _ "p ! 0"]) (simp add: version_bytes)
qed

lemma decrypt_shape:
  assumes v: "valid_cctx cctx" and r: "is_record packet = Some (length packet)" and n: "29 \<le> length packet"
    and e: "dtls_get_epoch packet = Some epoch"
    and slot: "dtls_security_params_epoch q epoch = Some k" "security_slot q k = Some s2"
    and kb: "length (sp_key_block s2) = 40" and ci: "sp_cipher s2 \<noteq> TLS_NULL_WITH_NULL_NULL"
  shows "decrypt_verify cctx (Some q) packet =
    map_option (\<lambda>(ret, buf). (ret, buf, Some (if ret < 0 then q else dtls_security_params_free_other q)))
      (dtls_decrypt cctx (drop 21 packet) (drop 21 packet)
        (write_nonce s2 (opposite (pr_role q)) (take 8 (drop 13 packet)))
        (write_key s2 (opposite (pr_role q)))
        (take 8 (drop 3 packet) @ take 3 packet @ dtls_int_to_uint16 (word_of_nat (length packet - 29))))"
proof -
  let ?es = "take 8 (drop 3 packet)" and ?l = "take 2 (drop 11 packet)"
  let ?x = "take 8 (drop 13 packet)" and ?c = "drop 21 packet"
  have n0: "0 < length packet" using n by linarith
  obtain type where p: "packet = type # be_bytes 2 0xfefd @ ?es @ ?l @ drop 13 packet"
    using is_record_shape(1) [OF r n0] by blast
  have xc: "drop 13 packet = ?x @ ?c"
    using append_take_drop_id [of 8 "drop 13 packet"] by (simp only: drop_drop) simp
  have t3: "take 3 packet = type # be_bytes 2 0xfefd"
    using arg_cong [OF p, of "take 3"] by (simp add: version_bytes)
  have lens: "length ?es = 8" "length ?l = 2" "length ?x = 8" "8 \<le> length ?c" using n by simp_all
  have "take 2 ?es = be_bytes 2 (unat epoch)"
  proof -
    have "epoch = word_of_nat (be_nat (take 2 (drop 3 packet)))"
      using e n by (simp add: dtls_get_epoch_def uint16_read split: if_splits)
    then show ?thesis
      using read_write_inverse [of "take 2 (drop 3 packet)" 2, where 'a = 16] n by simp
  qed
  note eq = decrypt_encrypted [OF v lens(1) slot this kb ci lens(2-4), of type]
  have pp: "type # be_bytes 2 0xfefd @ ?es @ ?l @ ?x @ ?c = packet"
    unfolding xc [symmetric] by (rule p [symmetric])
  have lc: "length ?c - 8 = length packet - 29" by simp
  show ?thesis using eq unfolding pp t3 lc .
qed

subsection \<open>Properties\<close>

text \<open>C4: A protected record reaches the other side: what \<open>dtls_prepare_record\<close> builds is a single
  record for \<open>is_record\<close>, whatever bytes follow it, and \<open>decrypt_verify\<close> of a peer in the opposite
  role that has the same key block under the record's epoch returns the payloads in order, and
  drops the parameters of the older epoch.\<close>

theorem record_roundtrip:
  assumes "valid_cctx cctx" and "valid_cctx cctx'"
    and "length (sp_key_block s) = 40" and "sp_cipher s \<noteq> TLS_NULL_WITH_NULL_NULL"
    and "29 + length (concat ds) \<le> rlen" and "length (concat ds) + 16 < 2 ^ 16"
    and "type \<in> {20, 21, 22, 23}"
    and "pr_role q = opposite r"
    and "dtls_security_params_epoch q (sp_epoch s) = Some k" and "security_slot q k = Some s2"
    and "sp_key_block s2 = sp_key_block s" and "sp_cipher s2 \<noteq> TLS_NULL_WITH_NULL_NULL"
  shows "\<exists>rec t. dtls_prepare_record cctx (Some r) (Some s) type ds rlen =
      Some (0, rec, Some (s\<lparr>sp_rseq := sp_rseq s + 1\<rparr>)) \<and>
    length rec = 29 + length (concat ds) \<and>
    is_record (rec @ trail) = Some (length rec) \<and>
    decrypt_verify cctx' (Some q) rec =
      Some (int (length (concat ds)), concat ds @ t, Some (dtls_security_params_free_other q))"
proof -
  let ?m = "concat ds" and ?es = "record_es s"
  let ?A = "record_aad type ?es (length ?m)"
  let ?c = "seal (write_key s r) (write_nonce s r ?es) ?A ?m"
  let ?b = "?es @ ?c"
  let ?rec = "type # be_bytes 2 0xfefd @ ?es @ be_bytes 2 (length ?b) @ ?b"
  have lk: "length (write_key s r) = 16" "length (write_nonce s r ?es) = 16"
    using write_lengths [OF assms(3)] by simp_all
  have lc: "length ?c = length ?m + 8" using lk by simp
  have prep: "dtls_prepare_record cctx (Some r) (Some s) type ds rlen =
      Some (0, ?rec, Some (s\<lparr>sp_rseq := sp_rseq s + 1\<rparr>))"
    using prepare_encrypted [OF assms(1,3,4,5,6)] by (simp add: Let_def)
  have oo: "opposite (pr_role q) = r"
    using assms(8) by (cases r) (simp_all add: opposite_def)
  have same: "write_key s2 r = write_key s r" "write_nonce s2 r x = write_nonce s r x" for x
    using assms(11) by (simp_all add: write_key_def write_nonce_def)
  have A: "?es @ (type # be_bytes 2 0xfefd) @ dtls_int_to_uint16 (word_of_nat (length ?c - 8)) = ?A"
    using assms(6) lc by (simp add: record_aad_def uint16_of_nat)
  obtain t where ct: "dtls_decrypt cctx' ?c ?c (write_nonce s r ?es) (write_key s r) ?A =
      Some (int (length ?m), ?m @ t)"
    using dtls_decrypt_seal [OF lk(1) assms(2), of "write_nonce s r ?es" ?A ?m ?c] lk(2) by auto
  have "decrypt_verify cctx' (Some q) ?rec =
      Some (int (length ?m), ?m @ t, Some (dtls_security_params_free_other q))"
    using decrypt_encrypted [OF assms(2) length_record_es [of s] assms(9,10) _ _ assms(12),
        where l = "be_bytes 2 (length ?b)" and x = ?es and c = ?c and type = type]
      ct assms(3,11) lc A
    by (simp add: oo same record_es_def)
  moreover have "is_record (?rec @ trail) = Some (length ?rec)"
    using is_record_header [of type "take 2 ?es" "drop 2 ?es" ?b trail] assms(6,7) lc
    by (simp add: record_es_def)
  ultimately show ?thesis using prep lc by (intro exI [of _ ?rec] exI [of _ t]) simp
qed

text \<open>Witness: an application record from client to server, with a 13-byte payload.\<close>

definition sec_example :: "u16 \<Rightarrow> dtls_security_parameters_t" where
  "sec_example e = \<lparr>sp_compression = 0, sp_cipher = TLS_PSK_WITH_AES_128_CCM_8, sp_epoch = e,
     sp_rseq = 5, sp_key_block = replicate 40 7\<rparr>"

definition peer_with_sec :: "dtls_peer_t" where
  "peer_with_sec = (peer_example 1)\<lparr>pr_role := DTLS_SERVER, pr_security0 := Some (sec_example 1)\<rparr>"

lemma record_roundtrip_witness:
  "\<exists>rec t. dtls_prepare_record (aes_ctx []) (Some DTLS_CLIENT) (Some (sec_example 1)) 23 [[1, 2], [3]] 100 =
     Some (0, rec, Some (sec_example 1\<lparr>sp_rseq := 6\<rparr>)) \<and>
   decrypt_verify (aes_ctx []) (Some peer_with_sec) rec =
     Some (3, [1, 2, 3] @ t, Some (dtls_security_params_free_other peer_with_sec))"
proof -
  have "sp_rseq (sec_example 1) + 1 = 6" by (simp add: sec_example_def)
  then show ?thesis
    using record_roundtrip [of "aes_ctx []" "aes_ctx []" "sec_example 1" "[[1, 2], [3]]" 100 23 peer_with_sec
      DTLS_CLIENT 0 "sec_example 1" "[]"]
    by (auto simp: valid_cctx_def aes_ctx_def sec_example_def peer_with_sec_def opposite_def
        dtls_security_params_epoch_def security_slot_def cipher_defs)
qed

text \<open>C1: Only sealed records are delivered: of the records of an epoch with a cipher,
  \<open>decrypt_verify\<close> rejects those shorter than header, explicit nonce and tag, and accepts a longer
  one exactly when its ciphertext is the encryption of the plaintext in the buffer under the write
  key of the other role, the nonce of the record, and additional data made of the epoch, sequence
  number, type, version and length of its header. A rejected record leaves the peer unchanged.\<close>

theorem record_authentic:
  assumes "valid_cctx cctx" and "is_record packet = Some (length packet)" and "13 \<le> length packet"
    and "dtls_get_epoch packet = Some epoch"
    and "dtls_security_params_epoch q epoch = Some k" and "security_slot q k = Some s2"
    and "length (sp_key_block s2) = 40" and "sp_cipher s2 \<noteq> TLS_NULL_WITH_NULL_NULL"
  shows "\<exists>ret buf q'. decrypt_verify cctx (Some q) packet = Some (ret, buf, Some q') \<and>
    (0 \<le> ret \<longleftrightarrow> 29 \<le> length packet \<and>
       dtls_encrypt cctx (take (length packet - 29) buf) []
         (write_nonce s2 (opposite (pr_role q)) (take 8 (drop 13 packet)))
         (write_key s2 (opposite (pr_role q)))
         (take 8 (drop 3 packet) @ take 3 packet @ dtls_int_to_uint16 (word_of_nat (length packet - 29)))
       = Some (int (length packet) - 21, drop 21 packet)) \<and>
    q' = (if ret < 0 then q else dtls_security_params_free_other q)"
proof (cases "length packet < 29")
  case True
  have "decrypt_verify cctx (Some q) packet = Some (-1, drop 13 packet, Some q)"
    using assms True by (simp add: decrypt_verify_def)
  then show ?thesis using True by (intro exI [of _ "-1"]) simp
next
  case False
  define c where "c = drop 21 packet"
  define nonce where "nonce = write_nonce s2 (opposite (pr_role q)) (take 8 (drop 13 packet))"
  define key where "key = write_key s2 (opposite (pr_role q))"
  define aad where "aad = take 8 (drop 3 packet) @ take 3 packet @
    dtls_int_to_uint16 (word_of_nat (length packet - 29))"
  have l: "length key = 16" "12 \<le> length nonce" "length c = length packet - 21"
    using write_lengths [OF assms(7)] False by (simp_all add: key_def nonce_def c_def)
  obtain m t where m: "length m = length c - 8"
    "dtls_decrypt cctx c c nonce key aad =
      (if length c < 8 then Some (-1, c)
       else Some (if c = seal key nonce aad m then int (length c - 8) else -1, m @ t))"
    using dtls_decrypt_open [OF l(1) assms(1) l(2), of c c aad] by blast
  have "decrypt_verify cctx (Some q) packet =
    map_option (\<lambda>(ret, buf). (ret, buf, Some (if ret < 0 then q else dtls_security_params_free_other q)))
      (dtls_decrypt cctx c c nonce key aad)"
    using decrypt_shape [OF assms(1,2) _ assms(4-8)] False
    by (simp add: c_def nonce_def key_def aad_def)
  then have d: "decrypt_verify cctx (Some q) packet =
    Some (if c = seal key nonce aad m then (int (length c - 8), m @ t, Some (dtls_security_params_free_other q))
          else (-1, m @ t, Some q))"
    using m l False by auto
  have "length packet - 29 = length m" using m l by simp
  then have "dtls_encrypt cctx (take (length packet - 29) (m @ t)) [] nonce key aad =
      Some (int (length packet) - 21, seal key nonce aad m)"
    using dtls_encrypt_seal [OF l(1) assms(1) l(2), of m "[]" aad] False by simp
  then show ?thesis
    using d False unfolding c_def [symmetric] nonce_def [symmetric] key_def [symmetric] aad_def [symmetric]
    by (cases "c = seal key nonce aad m") auto
qed

lemma record_authentic_witness:
  "\<exists>ret buf q'. decrypt_verify (aes_ctx []) (Some peer_with_sec)
     ([23, 0xfe, 0xfd, 0, 1, 0, 0, 0, 0, 0, 9, 0, 15] @ replicate 15 0) = Some (ret, buf, Some q') \<and> ret < 0"
  using record_authentic [of "aes_ctx []" "[23, 0xfe, 0xfd, 0, 1, 0, 0, 0, 0, 0, 9, 0, 15] @ replicate 15 0"
      1 peer_with_sec 0 "sec_example 1"]
  by (fastforce simp: valid_cctx_def aes_ctx_def sec_example_def peer_with_sec_def dtls_security_params_epoch_def
      security_slot_def cipher_defs is_record_def content_types_def DTLS_VERSION_def dtls_get_epoch_def
      dtls_uint16_to_int_def rd_def)

text \<open>C34: The explicit nonce of a protected record (bytes 13 to 20) is the epoch and the low 48 bits
  of the sequence counter: two records of one epoch carry the same nonce exactly when their
  counters agree modulo \<open>2 ^ 48\<close>. The 64-bit counter is not stopped there, so the nonces repeat
  after \<open>2 ^ 48\<close> records.\<close>

theorem record_nonce_unique:
  assumes "valid_cctx cctx"
    and "length (sp_key_block s) = 40" and "sp_cipher s \<noteq> TLS_NULL_WITH_NULL_NULL"
    and "29 + length (concat ds1) \<le> rlen" and "length (concat ds1) + 16 < 2 ^ 16"
    and "29 + length (concat ds2) \<le> rlen" and "length (concat ds2) + 16 < 2 ^ 16"
    and "dtls_prepare_record cctx (Some r) (Some (s\<lparr>sp_rseq := a\<rparr>)) t1 ds1 rlen = Some (0, rec1, s1)"
    and "dtls_prepare_record cctx (Some r) (Some (s\<lparr>sp_rseq := b\<rparr>)) t2 ds2 rlen = Some (0, rec2, s2)"
  shows "(take 8 (drop 13 rec1) = take 8 (drop 13 rec2) \<longleftrightarrow> unat a mod 2 ^ 48 = unat b mod 2 ^ 48) \<and>
    map_option sp_rseq s1 = Some (a + 1)"
proof -
  have ex: "take 8 (drop 13 (type # be_bytes 2 0xfefd @ record_es v @ be_bytes 2 n @ record_es v @ c)) = record_es v"
    for type v n c
    using header_fields(4) [of "take 2 (record_es v)" "drop 2 (record_es v)" "be_bytes 2 n" type "record_es v @ c"]
    by (simp add: record_es_def)
  have 1: "take 8 (drop 13 rec1) = record_es (s\<lparr>sp_rseq := a\<rparr>)" "map_option sp_rseq s1 = Some (a + 1)"
    using prepare_encrypted [of cctx "s\<lparr>sp_rseq := a\<rparr>" ds1 rlen r t1] assms ex by (auto simp: Let_def)
  have 2: "take 8 (drop 13 rec2) = record_es (s\<lparr>sp_rseq := b\<rparr>)"
    using prepare_encrypted [of cctx "s\<lparr>sp_rseq := b\<rparr>" ds2 rlen r t2] assms ex by (auto simp: Let_def)
  have "be_bytes 6 m = be_bytes 6 n \<longleftrightarrow> m mod 2 ^ 48 = n mod 2 ^ 48" for m n
  proof -
    have "(256 :: nat) ^ 6 = 2 ^ 48" by simp
    then show ?thesis
      using be_nat_be_bytes [of 6 m] be_nat_be_bytes [of 6 n] be_bytes_mod [of 6 m] be_bytes_mod [of 6 n]
      by metis
  qed
  then have "take 8 (drop 13 rec1) = take 8 (drop 13 rec2) \<longleftrightarrow> unat a mod 2 ^ 48 = unat b mod 2 ^ 48"
    unfolding 1 2 by (simp add: record_es_def)
  then show ?thesis using 1(2) by blast
qed

lemma record_nonce_unique_witness:
  "\<exists>rec1 rec2 s1 s2. dtls_prepare_record (aes_ctx []) (Some DTLS_CLIENT) (Some (sec_example 1)) 23 [[1, 2]] 100 =
     Some (0, rec1, s1) \<and>
   dtls_prepare_record (aes_ctx []) (Some DTLS_CLIENT) (Some (sec_example 1\<lparr>sp_rseq := 6\<rparr>)) 23 [[3]] 100 =
     Some (0, rec2, s2) \<and> take 8 (drop 13 rec1) \<noteq> take 8 (drop 13 rec2)"
proof -
  have v: "valid_cctx (aes_ctx [])" "length (sp_key_block (sec_example 1)) = 40"
    "sp_cipher (sec_example 1) \<noteq> TLS_NULL_WITH_NULL_NULL"
    by (simp_all add: valid_cctx_def aes_ctx_def sec_example_def cipher_defs)
  have s5: "sec_example 1\<lparr>sp_rseq := 5\<rparr> = sec_example 1" by (simp add: sec_example_def)
  obtain rec1 s1 where 1: "dtls_prepare_record (aes_ctx []) (Some DTLS_CLIENT)
      (Some (sec_example 1\<lparr>sp_rseq := 5\<rparr>)) 23 [[1, 2]] 100 = Some (0, rec1, s1)"
    using prepare_encrypted [of "aes_ctx []" "sec_example 1" "[[1, 2]]" 100] v s5 by (simp add: Let_def)
  obtain rec2 s2 where 2: "dtls_prepare_record (aes_ctx []) (Some DTLS_CLIENT)
      (Some (sec_example 1\<lparr>sp_rseq := 6\<rparr>)) 23 [[3]] 100 = Some (0, rec2, s2)"
    using prepare_encrypted [of "aes_ctx []" "sec_example 1\<lparr>sp_rseq := 6\<rparr>" "[[3]]" 100] v by (simp add: Let_def)
  have "take 8 (drop 13 rec1) \<noteq> take 8 (drop 13 rec2)"
    using record_nonce_unique [OF v _ _ _ _ 1 2] by simp
  then show ?thesis using 1 2 unfolding s5 by blast
qed

text \<open>The size check of \<open>dtls_prepare_record\<close> forgets the tag: when the payloads fill the send
  buffer up to its last eight bytes, the check passes and the encryption writes its tag past the
  end of the buffer.\<close>

lemma prepare_record_overflow:
  assumes "sp_cipher s \<noteq> TLS_NULL_WITH_NULL_NULL"
    and "21 + length (concat ds) \<le> rlen" and "rlen < 29 + length (concat ds)"
  shows "dtls_prepare_record cctx (Some r) (Some s) type ds rlen = None"
proof -
  have "gather rlen 8 ds = Some (concat ds)" using assms(2) by (intro gather_fits) simp
  then show ?thesis
    using assms by (simp add: dtls_prepare_record_def set_record_header_bytes Let_def)
qed

lemma prepare_record_overflow_witness:
  "dtls_prepare_record (aes_ctx []) (Some DTLS_CLIENT) (Some (sec_example 1)) 23 [replicate 71 0] 92 = None"
  by (rule prepare_record_overflow) (simp_all add: sec_example_def cipher_defs)

end
