(* ===== verification/Cookie.thy ===== *)
theory Cookie
  imports RecordLayer
begin

text \<open>
  The stateless cookie exchange of \<open>dtls.c\<close>: reading the cookie of a ClientHello and creating
  the cookie it must carry. A message is the list of its bytes, a pointer into it an offset; a read
  past the end of the message is undefined.
\<close>

definition HS_ERROR :: int where
  "HS_ERROR = dtls_alert_fatal_create DTLS_ALERT_HANDSHAKE_FAILURE"

lemma HS_ERROR_value [simp]: "HS_ERROR = -552"
  by (simp add: HS_ERROR_def alert_defs)

text \<open>\<open>SKIP_VAR_FIELD(P, L)\<close>: step over a field with a length byte; the inner \<open>None\<close> is the jump
  to the error label.\<close>

definition SKIP_VAR_FIELD :: "bytes \<Rightarrow> nat \<Rightarrow> nat \<Rightarrow> (nat \<times> nat) option option" where
  "SKIP_VAR_FIELD msg p l = do {
     n \<leftarrow> dtls_uint8_to_int (drop p msg);
     Some (if l < unat n + 1 then None else Some (p + (unat n + 1), l - (unat n + 1))) }"

text \<open>The result is the return value and the offset of the cookie.\<close>

definition dtls_get_cookie :: "bytes \<Rightarrow> (int \<times> nat) option" where
  "dtls_get_cookie msg =
     (if length msg < 12 + 34 + 1 then Some (HS_ERROR, 0)
      else do {
        v \<leftarrow> dtls_uint16_to_int (drop 12 msg);
        if v \<noteq> DTLS_VERSION then Some (dtls_alert_fatal_create DTLS_ALERT_PROTOCOL_VERSION, 0)
        else do {
          sk \<leftarrow> SKIP_VAR_FIELD msg (12 + 34) (length msg - (12 + 34));
          (case sk of
             None \<Rightarrow> Some (HS_ERROR, 0)
           | Some (p, l) \<Rightarrow> do {
               n \<leftarrow> rd msg p;
               if l < unat (n AND 0xff) + 1 then Some (HS_ERROR, 0)
               else Some (uint n, p + 1) }) } })"

text \<open>\<open>addr\<close> is the memory of the session structure (\<open>dtls_session_get_address\<close> and its size).
  The cookie buffer has 16 bytes, the digest 32. A fragment length smaller than the part of the
  hello already absorbed wraps the length of the last piece around.\<close>

definition dtls_create_cookie :: "bytes \<Rightarrow> bytes \<Rightarrow> bytes \<Rightarrow> (int \<times> bytes) option" where
  "dtls_create_cookie secret addr msg = do {
     let hmac = dtls_hmac_init secret;
     let hmac = dtls_hmac_update hmac addr;
     n \<leftarrow> rd msg (12 + 34);
     let e = 34 + (unat (n AND 0xff) + 1);
     if e + 12 > length msg then Some (HS_ERROR, [])
     else do {
       let hmac = dtls_hmac_update hmac (take e (drop 12 msg));
       n \<leftarrow> rd msg (12 + e);
       let e = e + unat (n AND 0xff) + 1;
       if e + 12 > length msg then Some (HS_ERROR, [])
       else do {
         fl \<leftarrow> dtls_uint24_to_int (drop 9 msg);
         if unat fl < e then None
         else do {
           d \<leftarrow> rd_n msg (12 + e) (unat fl - e);
           let hmac = dtls_hmac_update hmac d;
           let (buf, len, _) = dtls_hmac_finalize hmac;
           Some (0, take 16 buf) } } } }"

subsection \<open>A ClientHello\<close>

text \<open>\<open>pre\<close> holds the nine header bytes before the fragment length.\<close>

definition hello :: "bytes \<Rightarrow> bytes \<Rightarrow> bytes \<Rightarrow> bytes \<Rightarrow> bytes \<Rightarrow> bytes" where
  "hello pre random sid cookie suf =
     (let body = be_bytes 2 0xfefd @ random @ word_of_nat (length sid) # sid @
            word_of_nat (length cookie) # cookie @ suf
      in pre @ be_bytes 3 (length body) @ body)"

definition hello_ok :: "bytes \<Rightarrow> bytes \<Rightarrow> bytes \<Rightarrow> bytes \<Rightarrow> bytes \<Rightarrow> bool" where
  "hello_ok pre random sid cookie suf \<longleftrightarrow> length pre = 9 \<and> length random = 32 \<and>
     length sid < 256 \<and> length cookie < 256 \<and> length suf < 2 ^ 16"

text \<open>The parts of the hello that the cookie protects.\<close>

definition hello_core :: "bytes \<Rightarrow> bytes \<Rightarrow> bytes \<Rightarrow> bytes" where
  "hello_core random sid suf = be_bytes 2 0xfefd @ random @ word_of_nat (length sid) # sid @ suf"

lemma hello_reads:
  assumes "hello_ok pre random sid cookie suf"
  defines "m \<equiv> hello pre random sid cookie suf"
  shows "length m = 12 + 36 + length sid + length cookie + length suf"
    and "drop 12 m = be_bytes 2 0xfefd @ random @ word_of_nat (length sid) # sid @
            word_of_nat (length cookie) # cookie @ suf"
    and "drop 46 m = word_of_nat (length sid) # sid @ word_of_nat (length cookie) # cookie @ suf"
    and "drop (47 + length sid) m = word_of_nat (length cookie) # cookie @ suf"
    and "drop (48 + length sid) m = cookie @ suf"
    and "drop (48 + length sid + length cookie) m = suf"
    and "drop 9 m = be_bytes 3 (36 + length sid + length cookie + length suf) @ drop 12 m"
proof -
  have l: "length pre = 9" "length random = 32" using assms by (simp_all add: hello_ok_def)
  show d: "drop 12 m = be_bytes 2 0xfefd @ random @ word_of_nat (length sid) # sid @
            word_of_nat (length cookie) # cookie @ suf"
    using l by (simp add: m_def hello_def Let_def)
  show "length m = 12 + 36 + length sid + length cookie + length suf"
    using l by (simp add: m_def hello_def Let_def)
  have "drop 46 m = drop 34 (drop 12 m)" by simp
  then show s: "drop 46 m = word_of_nat (length sid) # sid @ word_of_nat (length cookie) # cookie @ suf"
    unfolding d using l by simp
  have "drop (47 + length sid) m = drop (1 + length sid) (drop 46 m)" by (simp add: add.commute)
  then show c: "drop (47 + length sid) m = word_of_nat (length cookie) # cookie @ suf" unfolding s by simp
  have "drop (48 + length sid) m = drop 1 (drop (47 + length sid) m)" by (simp add: add.commute)
  then show t: "drop (48 + length sid) m = cookie @ suf" unfolding c by simp
  have "drop (48 + length sid + length cookie) m = drop (length cookie) (drop (48 + length sid) m)"
    by (simp add: add.commute)
  then show "drop (48 + length sid + length cookie) m = suf" unfolding t by simp
  show "drop 9 m = be_bytes 3 (36 + length sid + length cookie + length suf) @ drop 12 m"
    using l unfolding d by (simp add: m_def hello_def Let_def ac_simps)
qed

lemma rd_drop: "drop i m = b # r \<Longrightarrow> rd m i = Some b"
  by (metis drop_eq_Nil list.discI linorder_not_le hd_drop_conv_nth list.sel(1) rd_def)

lemma byte_of_length: "n < 256 \<Longrightarrow> unat (word_of_nat n :: u8) = n"
  by (simp add: unsigned_of_nat take_bit_eq_mod)

lemma uint_byte_of_length: "n < 256 \<Longrightarrow> uint (word_of_nat n :: u8) = int n"
  by (simp add: unsigned_of_nat take_bit_eq_mod)

lemma skip_field:
  assumes "drop p m = word_of_nat (length f) # f @ r" and "length f < 256" and "length f + 1 \<le> l"
  shows "SKIP_VAR_FIELD m p l = Some (Some (p + (length f + 1), l - (length f + 1)))"
  using assms by (simp add: SKIP_VAR_FIELD_def dtls_uint8_to_int_def rd_def byte_of_length)

lemma get_cookie_hello:
  assumes "hello_ok pre random sid cookie suf"
  shows "dtls_get_cookie (hello pre random sid cookie suf) = Some (int (length cookie), 48 + length sid)"
proof -
  let ?m = "hello pre random sid cookie suf"
  note r = hello_reads [OF assms]
  have l: "length sid < 256" "length cookie < 256" using assms by (simp_all add: hello_ok_def)
  have v: "dtls_uint16_to_int (drop 12 ?m) = Some DTLS_VERSION"
    unfolding r(2) using uint16_roundtrip [of DTLS_VERSION] by (simp add: int_to_uint16_be DTLS_VERSION_def)
  have sk: "SKIP_VAR_FIELD ?m (12 + 34) (length ?m - (12 + 34)) =
      Some (Some (47 + length sid, length ?m - (12 + 34) - (length sid + 1)))"
    using skip_field [of "12 + 34" ?m sid _ "length ?m - (12 + 34)"] r(1,3) l(1) by simp
  have c: "rd ?m (47 + length sid) = Some (word_of_nat (length cookie))"
    using r(4) by (rule rd_drop)
  have n: "\<not> length ?m < 12 + 34 + 1" using r(1) by simp
  have k: "\<not> length ?m - (12 + 34) - (length sid + 1) < unat (word_of_nat (length cookie) AND 0xff :: u8) + 1"
    using r(1) l by (simp add: byte_of_length)
  show ?thesis
    unfolding dtls_get_cookie_def if_not_P [OF n] v Option.bind.bind_lunit sk option.case prod.case c if_not_P [OF k]
    using l by (simp add: uint_byte_of_length)
qed

lemma create_cookie_hello:
  assumes ok: "hello_ok pre random sid cookie suf"
  shows "dtls_create_cookie secret addr (hello pre random sid cookie suf) =
    Some (0, take 16 (HMAC secret (addr @ hello_core random sid suf)))"
proof -
  let ?m = "hello pre random sid cookie suf"
  note r = hello_reads [OF ok]
  have l: "length sid < 256" "length cookie < 256" "length random = 32" "length suf < 2 ^ 16"
    using ok by (simp_all add: hello_ok_def)
  have n1: "rd ?m 46 = Some (word_of_nat (length sid))" using r(3) by (rule rd_drop)
  have n2: "rd ?m (47 + length sid) = Some (word_of_nat (length cookie))" using r(4) by (rule rd_drop)
  have fl: "dtls_uint24_to_int (drop 9 ?m) = Some (word_of_nat (36 + length sid + length cookie + length suf))"
    (is "_ = Some (word_of_nat ?n)")
  proof -
    have u: "unat (word_of_nat ?n :: u32) = ?n"
      using l by (simp add: unsigned_of_nat take_bit_eq_mod del: of_nat_add)
    show ?thesis
      unfolding r(7) using uint24_roundtrip [of "word_of_nat ?n" "drop 12 ?m"] u l
      by (simp add: int_to_uint24_be del: of_nat_add)
  qed
  have u: "unat (word_of_nat ?n :: u32) = ?n"
    using l by (simp add: unsigned_of_nat take_bit_eq_mod del: of_nat_add)
  have d1: "take (35 + length sid) (drop 12 ?m) = be_bytes 2 0xfefd @ random @ word_of_nat (length sid) # sid"
    unfolding r(2) using l by simp
  have d2: "rd_n ?m (48 + length sid + length cookie) (length suf) = Some suf"
    using r(1,6) by (simp add: rd_n_def)
  have H: "hmac_digest (dtls_hmac_update (dtls_hmac_update (dtls_hmac_update (dtls_hmac_init secret) a) b) c) =
      HMAC secret (a @ b @ c)" for a b c
    using hmac.digest_pieces [of "[a, b, c]" secret] by simp
  have e1: "34 + (unat (word_of_nat (length sid) AND 0xff :: u8) + 1) = 35 + length sid"
    using l by (simp add: byte_of_length)
  have e2: "35 + length sid + unat (word_of_nat (length cookie) AND 0xff :: u8) + 1 =
      36 + length sid + length cookie"
    using l by (simp add: byte_of_length)
  have o: "12 + 34 = (46 :: nat)" "12 + (35 + length sid) = 47 + length sid"
    "12 + (36 + length sid + length cookie) = 48 + length sid + length cookie" by simp_all
  have g: "\<not> 35 + length sid + 12 > length ?m" "\<not> 36 + length sid + length cookie + 12 > length ?m"
    "\<not> ?n < 36 + length sid + length cookie" using r(1) by simp_all
  have df: "?n - (36 + length sid + length cookie) = length suf" by simp
  have core: "(be_bytes 2 0xfefd @ random @ word_of_nat (length sid) # sid) @ suf = hello_core random sid suf"
    by (simp add: hello_core_def)
  have fin: "(case dtls_hmac_finalize c of (buf, len, x) \<Rightarrow> Some (0, take 16 buf)) =
      Some (0 :: int, take 16 (hmac_digest c))" for c
    by (cases "dtls_hmac_finalize c") auto
  show ?thesis
    unfolding dtls_create_cookie_def Let_def o n1 Option.bind.bind_lunit e1 if_not_P [OF g(1)] o n2 e2
      if_not_P [OF g(2)] fl u if_not_P [OF g(3)] df d2 d1
    unfolding fin H core ..
qed

subsection \<open>Properties\<close>

text \<open>The cookie exchange is stateless: for a ClientHello of any contents, \<open>dtls_get_cookie\<close>
  finds the cookie it carries, and \<open>dtls_create_cookie\<close> returns the first 16 bytes of the HMAC,
  under the server's secret, of the client address and every field of the hello except the cookie.
  So whatever cookie the first hello had, the second hello that echoes the cookie the server
  computed carries exactly the cookie the server computes again.\<close>

lemma cookie_exchange:
  assumes "hello_ok pre random sid c suf"
  shows "\<exists>mac. mac = take 16 (HMAC secret (addr @ hello_core random sid suf)) \<and> length mac = 16 \<and>
    dtls_create_cookie secret addr (hello pre random sid c suf) = Some (0, mac) \<and>
    dtls_create_cookie secret addr (hello pre random sid mac suf) = Some (0, mac) \<and>
    dtls_get_cookie (hello pre random sid mac suf) = Some (16, 48 + length sid) \<and>
    take 16 (drop (48 + length sid) (hello pre random sid mac suf)) = mac"
proof -
  let ?mac = "take 16 (HMAC secret (addr @ hello_core random sid suf))"
  have l: "length ?mac = 16" using hmac.digest_length [of secret] by simp
  have ok: "hello_ok pre random sid ?mac suf"
    using assms l unfolding hello_ok_def by simp
  have "take 16 (drop (48 + length sid) (hello pre random sid ?mac suf)) = ?mac"
    unfolding hello_reads(5) [OF ok] using l by simp
  then show ?thesis
    using create_cookie_hello [OF assms, of secret addr] create_cookie_hello [OF ok, of secret addr]
      get_cookie_hello [OF ok] l
    by (intro exI [of _ ?mac]) simp
qed

lemma cookie_exchange_witness:
  "\<exists>mac. length mac = 16 \<and>
     dtls_create_cookie [1, 2] [3] (hello (replicate 9 0) (replicate 32 7) [] [] [0, 2, 0xc0, 0xa8, 1, 0]) = Some (0, mac)"
  using cookie_exchange [of "replicate 9 0" "replicate 32 7" "[]" "[]" "[0, 2, 0xc0, 0xa8, 1, 0]" "[1, 2]" "[3]"]
  by (auto simp: hello_ok_def)

end
