(* ===== verification/Hello.thy ===== *)
theory Hello
  imports Cookie
begin

text \<open>
  Parsing a ClientHello: the supported cipher suites, the TLS extensions and
  \<open>dtls_update_parameters\<close> of \<open>dtls.c\<close>. What the application is configured for is a record of
  the callbacks it registered.
\<close>

subsection \<open>Cipher suites\<close>

record dtls_caps =
  cap_get_psk_info :: bool
  cap_get_ecdsa_key :: bool
  cap_verify_ecdsa_key :: bool

definition is_tls_ecdhe_ecdsa_with_aes_128_ccm_8 :: "u16 \<Rightarrow> bool" where
  "is_tls_ecdhe_ecdsa_with_aes_128_ccm_8 cipher = (cipher = TLS_ECDHE_ECDSA_WITH_AES_128_CCM_8)"

definition is_tls_psk_with_aes_128_ccm_8 :: "u16 \<Rightarrow> bool" where
  "is_tls_psk_with_aes_128_ccm_8 cipher = (cipher = TLS_PSK_WITH_AES_128_CCM_8)"

definition is_psk_supported :: "dtls_caps \<Rightarrow> bool" where
  "is_psk_supported ctx = cap_get_psk_info ctx"

definition is_ecdsa_supported :: "dtls_caps \<Rightarrow> bool \<Rightarrow> bool" where
  "is_ecdsa_supported ctx is_client =
     (\<not> is_client \<and> cap_get_ecdsa_key ctx \<or> is_client \<and> cap_verify_ecdsa_key ctx)"

definition is_ecdsa_client_auth_supported :: "dtls_caps \<Rightarrow> bool" where
  "is_ecdsa_client_auth_supported ctx = (cap_get_ecdsa_key ctx \<and> cap_verify_ecdsa_key ctx)"

definition known_cipher :: "dtls_caps \<Rightarrow> u16 \<Rightarrow> bool \<Rightarrow> bool" where
  "known_cipher ctx code is_client =
     (let psk = is_psk_supported ctx; ecdsa = is_ecdsa_supported ctx is_client in
      psk \<and> is_tls_psk_with_aes_128_ccm_8 code \<or> ecdsa \<and> is_tls_ecdhe_ecdsa_with_aes_128_ccm_8 code)"

text \<open>A record of epoch 0 with a ClientHello or HelloRequest on an established session.\<close>

definition hs_attempt_with_existing_peer :: "bytes \<Rightarrow> dtls_peer_t option \<Rightarrow> bool option" where
  "hs_attempt_with_existing_peer msg peer =
     (case peer of
        None \<Rightarrow> Some False
      | Some p \<Rightarrow>
          (if pr_state p = DTLS_STATE_CONNECTED then do {
             t \<leftarrow> rd msg 0;
             if t = 22 then do {
               e \<leftarrow> dtls_get_epoch msg;
               if e = 0 then do {
                 ht \<leftarrow> rd msg 13;
                 Some (ht = 1 \<or> ht = 0) }
               else Some False }
             else Some False }
           else Some False))"

subsection \<open>Extensions\<close>

text \<open>\<open>data\<close> is the rest of the message from the pointer on, \<open>data_length\<close> the length of the
  extension.\<close>

function curve_list_loop :: "bytes \<Rightarrow> int \<Rightarrow> int option" where
  "curve_list_loop data i =
     (if i > 0 then
        (case dtls_uint16_to_int data of
           None \<Rightarrow> None
         | Some curve_name \<Rightarrow>
             (if curve_name = 23 then Some 0 else curve_list_loop (drop 2 data) (i - 2)))
      else Some HS_ERROR)"
  by pat_completeness auto
termination by (relation "measure (\<lambda>(d, i). nat i)") auto

definition verify_ext_eliptic_curves :: "bytes \<Rightarrow> nat \<Rightarrow> int option" where
  "verify_ext_eliptic_curves data data_length = do {
     i \<leftarrow> dtls_uint16_to_int data;
     if unat i + 2 \<noteq> data_length then Some HS_ERROR
     else curve_list_loop (drop 2 data) (int data_length - 2) }"

function byte_list_loop :: "u8 \<Rightarrow> bytes \<Rightarrow> int \<Rightarrow> int option" where
  "byte_list_loop v data i =
     (if i > 0 then
        (case dtls_uint8_to_int data of
           None \<Rightarrow> None
         | Some b \<Rightarrow> (if b = v then Some 0 else byte_list_loop v (drop 1 data) (i - 1)))
      else Some HS_ERROR)"
  by pat_completeness auto
termination by (relation "measure (\<lambda>(v, d, i). nat i)") auto

declare curve_list_loop.simps [simp del] byte_list_loop.simps [simp del]

definition verify_ext_cert_type :: "bytes \<Rightarrow> nat \<Rightarrow> int option" where
  "verify_ext_cert_type data data_length = do {
     i \<leftarrow> dtls_uint8_to_int data;
     if unat i + 1 \<noteq> data_length then Some HS_ERROR
     else byte_list_loop 2 (drop 1 data) (int data_length - 1) }"

definition verify_ext_ec_point_formats :: "bytes \<Rightarrow> nat \<Rightarrow> int option" where
  "verify_ext_ec_point_formats data data_length = do {
     i \<leftarrow> dtls_uint8_to_int data;
     if unat i + 1 \<noteq> data_length then Some HS_ERROR
     else byte_list_loop 0 (drop 1 data) (int data_length - 1) }"

text \<open>The extensions that have been seen.\<close>

record ext_seen =
  ext_elliptic_curve :: bool
  ext_client_cert_type :: bool
  ext_server_cert_type :: bool
  ext_ec_point_formats :: bool

definition ext_none :: ext_seen where
  "ext_none = \<lparr>ext_elliptic_curve = False, ext_client_cert_type = False,
     ext_server_cert_type = False, ext_ec_point_formats = False\<rparr>"

definition check_cert_type_ext :: "bytes \<Rightarrow> nat \<Rightarrow> bool \<Rightarrow> bool option" where
  "check_cert_type_ext data j client_hello =
     (if client_hello then map_option (\<lambda>r. r = 0) (verify_ext_cert_type data j)
      else map_option (\<lambda>b. b = 2) (dtls_uint8_to_int data))"

text \<open>The body of one extension: the flags and whether it is acceptable.\<close>

definition check_ext_body :: "u16 \<Rightarrow> bytes \<Rightarrow> nat \<Rightarrow> bool \<Rightarrow> ext_seen \<Rightarrow> (ext_seen \<times> bool) option" where
  "check_ext_body i data j client_hello seen =
     (if i = 10 then
        map_option (\<lambda>r. (seen\<lparr>ext_elliptic_curve := True\<rparr>, r = 0)) (verify_ext_eliptic_curves data j)
      else if i = 19 then
        map_option (\<lambda>ok. (seen\<lparr>ext_client_cert_type := True\<rparr>, ok)) (check_cert_type_ext data j client_hello)
      else if i = 20 then
        map_option (\<lambda>ok. (seen\<lparr>ext_server_cert_type := True\<rparr>, ok)) (check_cert_type_ext data j client_hello)
      else if i = 11 then
        map_option (\<lambda>r. (seen\<lparr>ext_ec_point_formats := True\<rparr>, r = 0)) (verify_ext_ec_point_formats data j)
      else Some (seen, True))"

text \<open>The loop over the extensions: the flags, or \<open>Some None\<close> for the jump to the error label.\<close>

function ext_loop :: "bytes \<Rightarrow> nat \<Rightarrow> bool \<Rightarrow> ext_seen \<Rightarrow> ext_seen option option" where
  "ext_loop data data_length client_hello seen =
     (if data_length = 0 then Some (Some seen)
      else if data_length < 4 then Some None
      else case (dtls_uint16_to_int data, dtls_uint16_to_int (drop 2 data)) of
        (Some i, Some j) \<Rightarrow>
          (if data_length - 4 < unat j then Some None
           else (case check_ext_body i (drop 4 data) (unat j) client_hello seen of
                   None \<Rightarrow> None
                 | Some (seen', ok) \<Rightarrow>
                     (if ok then ext_loop (drop (4 + unat j) data) (data_length - 4 - unat j)
                                   client_hello seen'
                      else Some None)))
      | _ \<Rightarrow> None)"
  by pat_completeness auto
termination by (relation "measure (\<lambda>(d, l, c, s). l)") auto

declare ext_loop.simps [simp del]

definition hello_error :: "dtls_peer_t \<Rightarrow> bool \<Rightarrow> int" where
  "hello_error peer client_hello =
     (if client_hello \<and> pr_state peer = DTLS_STATE_CONNECTED
      then dtls_alert_create 1 DTLS_ALERT_NO_RENEGOTIATION
      else dtls_alert_fatal_create DTLS_ALERT_HANDSHAKE_FAILURE)"

definition dtls_check_tls_extension :: "dtls_peer_t option \<Rightarrow> bytes \<Rightarrow> nat \<Rightarrow> bool \<Rightarrow> int option" where
  "dtls_check_tls_extension peer data data_length client_hello =
     (case peer of
        None \<Rightarrow> Some (dtls_alert_fatal_create DTLS_ALERT_INTERNAL_ERROR)
      | Some p \<Rightarrow>
     (case pr_handshake p of
        None \<Rightarrow> Some (dtls_alert_fatal_create DTLS_ALERT_INTERNAL_ERROR)
      | Some handshake \<Rightarrow>
          (let ecdsa = is_tls_ecdhe_ecdsa_with_aes_128_ccm_8 (hp_cipher handshake);
               error = Some (hello_error p client_hello) in
           if data_length < 2 then (if ecdsa then error else Some 0)
           else do {
             j \<leftarrow> dtls_uint16_to_int data;
             if data_length - 2 < unat j then error
             else do {
               r \<leftarrow> ext_loop (drop 2 data) (data_length - 2) client_hello ext_none;
               (case r of
                  None \<Rightarrow> error
                | Some seen \<Rightarrow>
                    (if ecdsa \<and> client_hello \<and>
                        (\<not> ext_elliptic_curve seen \<or> \<not> ext_client_cert_type seen \<or>
                         \<not> ext_server_cert_type seen \<or> \<not> ext_ec_point_formats seen) then error
                     else if ecdsa \<and> \<not> client_hello \<and>
                        (\<not> ext_client_cert_type seen \<or> \<not> ext_server_cert_type seen) then error
                     else Some 0)) } })))"

subsection \<open>The parameters of a ClientHello\<close>

text \<open>The search for a cipher: whether one is known, the last cipher read, and the pointer and
  counter after it. The counter steps by two and only stops at zero, so an odd length ends it below
  zero, or runs off the message.\<close>

function find_cipher :: "dtls_caps \<Rightarrow> bytes \<Rightarrow> nat \<Rightarrow> int \<Rightarrow> u16 \<Rightarrow> (bool \<times> u16 \<times> nat \<times> int) option" where
  "find_cipher ctx msg p i c =
     (if i = 0 then Some (False, c, p, i)
      else case dtls_uint16_to_int (drop p msg) of
        None \<Rightarrow> None
      | Some c' \<Rightarrow>
          (if known_cipher ctx c' False then Some (True, c', p + 2, i - 2)
           else find_cipher ctx msg (p + 2) (i - 2) c'))"
  by pat_completeness auto
termination
  by (relation "measure (\<lambda>(ctx, msg, p, i, c). length msg - p)")
    (auto simp: dtls_uint16_to_int_def rd_def bind_eq_Some_conv split: if_splits)

function find_compression :: "bytes \<Rightarrow> nat \<Rightarrow> nat \<Rightarrow> (bool \<times> nat) option" where
  "find_compression msg p i =
     (if i = 0 then Some (False, p)
      else case dtls_uint8_to_int (drop p msg) of
        None \<Rightarrow> None
      | Some b \<Rightarrow> (if b = TLS_COMPRESSION_NULL then Some (True, p + 1)
                  else find_compression msg (p + 1) (i - 1)))"
  by pat_completeness auto
termination by (relation "measure (\<lambda>(msg, p, i). i)") auto

declare find_cipher.simps [simp del] find_compression.simps [simp del]

definition set_client_random :: "bytes \<Rightarrow> dtls_handshake_parameters_t \<Rightarrow> dtls_handshake_parameters_t" where
  "set_client_random r h = h\<lparr>hp_tmp := r @ drop 32 (hp_tmp h)\<rparr>"

definition set_server_random :: "bytes \<Rightarrow> dtls_handshake_parameters_t \<Rightarrow> dtls_handshake_parameters_t" where
  "set_server_random r h = h\<lparr>hp_tmp := take 32 (hp_tmp h) @ r\<rparr>"

text \<open>The part after the ciphers: compression methods and extensions. After a match the code does
  not skip the remaining compression methods.\<close>

definition update_compression ::
  "dtls_peer_t \<Rightarrow> dtls_handshake_parameters_t \<Rightarrow> bytes \<Rightarrow> nat \<Rightarrow> nat \<Rightarrow> (int \<times> dtls_peer_t) option" where
  "update_compression peer config msg p l =
     (let store = (\<lambda>h. peer\<lparr>pr_handshake := Some h\<rparr>);
          error = Some (hello_error peer True, store config) in
      if l < 1 then
        Some (0, store (config\<lparr>hp_compression :=
                   (case dtls_security_params peer of Some s \<Rightarrow> sp_compression s
                    | None \<Rightarrow> TLS_COMPRESSION_NULL)\<rparr>))
      else do {
        i \<leftarrow> dtls_uint8_to_int (drop p msg);
        if l < unat i + 1 then error
        else do {
          (ok, p') \<leftarrow> find_compression msg (p + 1) (unat i);
          if \<not> ok then error
          else do {
            let peer' = store (config\<lparr>hp_compression := TLS_COMPRESSION_NULL\<rparr>);
            r \<leftarrow> dtls_check_tls_extension (Some peer') (drop p' msg) (l - (1 + unat i)) True;
            Some (r, peer') } } })"

definition update_ciphers ::
  "dtls_caps \<Rightarrow> dtls_peer_t \<Rightarrow> dtls_handshake_parameters_t \<Rightarrow> bytes \<Rightarrow> nat \<Rightarrow> nat \<Rightarrow>
   (int \<times> dtls_peer_t) option" where
  "update_ciphers ctx peer config msg p l = do {
     i \<leftarrow> dtls_uint16_to_int (drop p msg);
     if l < unat i + 2 then
       (case dtls_security_params peer of
          Some s \<Rightarrow>
            (if sp_cipher s = TLS_NULL_WITH_NULL_NULL
             then Some (hello_error peer True, peer\<lparr>pr_handshake := Some config\<rparr>)
             else Some (0, peer\<lparr>pr_handshake :=
                Some (config\<lparr>hp_cipher := sp_cipher s, hp_compression := sp_compression s\<rparr>)\<rparr>))
        | None \<Rightarrow> Some (hello_error peer True, peer\<lparr>pr_handshake := Some config\<rparr>))
     else do {
       (ok, c, p', i') \<leftarrow> find_cipher ctx msg (p + 2) (int (unat i)) (hp_cipher config);
       if \<not> ok then
         Some (hello_error peer True,
           peer\<lparr>pr_handshake := Some (config\<lparr>hp_cipher := TLS_NULL_WITH_NULL_NULL\<rparr>)\<rparr>)
       else update_compression peer (config\<lparr>hp_cipher := c\<rparr>) msg (nat (int p' + i')) (l - (2 + unat i)) } }"

definition dtls_update_parameters ::
  "dtls_caps \<Rightarrow> dtls_peer_t option \<Rightarrow> bytes \<Rightarrow> (int \<times> dtls_peer_t option) option" where
  "dtls_update_parameters ctx peer msg =
     (case peer of
        None \<Rightarrow> Some (dtls_alert_fatal_create DTLS_ALERT_INTERNAL_ERROR, None)
      | Some q \<Rightarrow>
     (case pr_handshake q of
        None \<Rightarrow> Some (hello_error q True, peer)
      | Some config \<Rightarrow>
          (if \<not> length msg > 12 + 34 then None
           else do {
             random \<leftarrow> rd_n msg (12 + 2) 32;
             let config = set_client_random random config;
             let error = Some (hello_error q True, Some (q\<lparr>pr_handshake := Some config\<rparr>));
             s1 \<leftarrow> SKIP_VAR_FIELD msg (12 + 34) (length msg - (12 + 34));
             (case s1 of None \<Rightarrow> error
              | Some (p, l) \<Rightarrow> do {
                  s2 \<leftarrow> SKIP_VAR_FIELD msg p l;
                  (case s2 of None \<Rightarrow> error
                   | Some (p, l) \<Rightarrow>
                       map_option (\<lambda>(r, q'). (r, Some q')) (update_ciphers ctx q config msg p l)) }) })))"

subsection \<open>The extensions of a hello\<close>

datatype hello_ext =
    Curves "u16 list" | ClientCertTypes bytes | ServerCertTypes bytes | PointFormats bytes
  | OtherExt u16 bytes

definition enc16 :: "u16 list \<Rightarrow> bytes" where
  "enc16 xs = concat (map dtls_int_to_uint16 xs)"

fun ext_type :: "hello_ext \<Rightarrow> u16" where
  "ext_type (Curves cs) = 10" | "ext_type (ClientCertTypes ts) = 19"
| "ext_type (ServerCertTypes ts) = 20" | "ext_type (PointFormats fs) = 11"
| "ext_type (OtherExt t b) = t"

fun ext_body :: "hello_ext \<Rightarrow> bytes" where
  "ext_body (Curves cs) = dtls_int_to_uint16 (word_of_nat (2 * length cs)) @ enc16 cs"
| "ext_body (ClientCertTypes ts) = word_of_nat (length ts) # ts"
| "ext_body (ServerCertTypes ts) = word_of_nat (length ts) # ts"
| "ext_body (PointFormats fs) = word_of_nat (length fs) # fs"
| "ext_body (OtherExt t b) = b"

definition ext_bytes :: "hello_ext \<Rightarrow> bytes" where
  "ext_bytes e = dtls_int_to_uint16 (ext_type e) @
     dtls_int_to_uint16 (word_of_nat (length (ext_body e))) @ ext_body e"

fun ext_wf :: "hello_ext \<Rightarrow> bool" where
  "ext_wf (Curves cs) \<longleftrightarrow> length cs < 2 ^ 14"
| "ext_wf (ClientCertTypes ts) \<longleftrightarrow> length ts < 256"
| "ext_wf (ServerCertTypes ts) \<longleftrightarrow> length ts < 256"
| "ext_wf (PointFormats fs) \<longleftrightarrow> length fs < 256"
| "ext_wf (OtherExt t b) \<longleftrightarrow> t \<notin> {10, 11, 19, 20} \<and> length b < 2 ^ 16"

text \<open>What the code demands: the P-256 curve, raw public keys, uncompressed points.\<close>

fun ext_good :: "hello_ext \<Rightarrow> bool" where
  "ext_good (Curves cs) \<longleftrightarrow> 23 \<in> set cs"
| "ext_good (ClientCertTypes ts) \<longleftrightarrow> 2 \<in> set ts"
| "ext_good (ServerCertTypes ts) \<longleftrightarrow> 2 \<in> set ts"
| "ext_good (PointFormats fs) \<longleftrightarrow> 0 \<in> set fs"
| "ext_good (OtherExt t b) \<longleftrightarrow> True"

definition ext_marks :: "hello_ext list \<Rightarrow> ext_seen" where
  "ext_marks es = \<lparr>ext_elliptic_curve = (10 \<in> ext_type ` set es),
     ext_client_cert_type = (19 \<in> ext_type ` set es),
     ext_server_cert_type = (20 \<in> ext_type ` set es),
     ext_ec_point_formats = (11 \<in> ext_type ` set es)\<rparr>"

lemma length_enc16 [simp]: "length (enc16 xs) = 2 * length xs"
  by (induction xs) (simp_all add: enc16_def)

lemma unat_u16_of_nat: "n < 2 ^ 16 \<Longrightarrow> unat (word_of_nat n :: u16) = n"
  by (simp add: unsigned_of_nat take_bit_eq_mod)

lemma drop_uint16 [simp]: "drop 2 (dtls_int_to_uint16 v @ r) = r"
  by (simp add: int_to_uint16_be)

lemma curve_list_loop_enc:
  "curve_list_loop (enc16 cs @ r) (2 * int (length cs)) = Some (if 23 \<in> set cs then 0 else HS_ERROR)"
proof (induction cs)
  case Nil
  then show ?case by (simp add: curve_list_loop.simps)
next
  case (Cons c cs)
  have e: "enc16 (c # cs) @ r = dtls_int_to_uint16 c @ enc16 cs @ r" by (simp add: enc16_def)
  show ?case
    unfolding e by (subst curve_list_loop.simps) (simp add: Cons)
qed

lemma byte_list_loop_list:
  "byte_list_loop v (bs @ r) (int (length bs)) = Some (if v \<in> set bs then 0 else HS_ERROR)"
proof (induction bs)
  case Nil
  then show ?case by (simp add: byte_list_loop.simps)
next
  case (Cons b bs)
  then show ?case
    by (simp add: byte_list_loop.simps [of v "b # bs @ r"] dtls_uint8_to_int_def rd_def)
qed

lemma verify_curves:
  assumes "length cs < 2 ^ 14"
  shows "verify_ext_eliptic_curves (ext_body (Curves cs) @ r) (length (ext_body (Curves cs))) =
    Some (if 23 \<in> set cs then 0 else HS_ERROR)"
proof -
  have u: "unat (word_of_nat (2 * length cs) :: u16) = 2 * length cs"
    using assms by (intro unat_u16_of_nat) simp
  have n: "length (ext_body (Curves cs)) = 2 * length cs + 2"
    "int (2 * length cs + 2) - 2 = 2 * int (length cs)" by simp_all
  show ?thesis
    unfolding n verify_ext_eliptic_curves_def ext_body.simps append_assoc uint16_roundtrip
      Option.bind.bind_lunit u drop_uint16
    by (simp add: curve_list_loop_enc)
qed

lemma verify_byte_lists:
  assumes "length ts < 256"
  shows "verify_ext_cert_type (word_of_nat (length ts) # ts @ r) (Suc (length ts)) =
      Some (if 2 \<in> set ts then 0 else HS_ERROR)"
    and "verify_ext_ec_point_formats (word_of_nat (length ts) # ts @ r) (Suc (length ts)) =
      Some (if 0 \<in> set ts then 0 else HS_ERROR)"
  using assms byte_list_loop_list [of _ ts r]
  by (simp_all add: verify_ext_cert_type_def verify_ext_ec_point_formats_def dtls_uint8_to_int_def
      rd_def byte_of_length)

lemma check_ext_body_enc:
  assumes "ext_wf e"
  shows "\<exists>seen'. check_ext_body (ext_type e) (ext_body e @ r) (length (ext_body e)) True seen = Some (seen', ext_good e) \<and>
    seen' = \<lparr>ext_elliptic_curve = (ext_type e = 10 \<or> ext_elliptic_curve seen),
     ext_client_cert_type = (ext_type e = 19 \<or> ext_client_cert_type seen),
     ext_server_cert_type = (ext_type e = 20 \<or> ext_server_cert_type seen),
     ext_ec_point_formats = (ext_type e = 11 \<or> ext_ec_point_formats seen)\<rparr>"
proof (cases e)
  case (Curves cs)
  then show ?thesis using verify_curves [of cs r] assms by (simp add: check_ext_body_def)
next
  case (ClientCertTypes ts)
  then show ?thesis
    using verify_byte_lists [of ts r] assms by (simp add: check_ext_body_def check_cert_type_ext_def)
next
  case (ServerCertTypes ts)
  then show ?thesis
    using verify_byte_lists [of ts r] assms by (simp add: check_ext_body_def check_cert_type_ext_def)
next
  case (PointFormats ts)
  then show ?thesis
    using verify_byte_lists [of ts r] assms by (simp add: check_ext_body_def)
next
  case (OtherExt t b)
  then show ?thesis using assms by (simp add: check_ext_body_def)
qed

lemma ext_wf_length: "ext_wf e \<Longrightarrow> length (ext_body e) < 2 ^ 16"
  by (cases e) auto

lemma ext_loop_enc:
  assumes "list_all ext_wf es"
  shows "ext_loop (concat (map ext_bytes es) @ r) (length (concat (map ext_bytes es))) True seen =
    Some (if list_all ext_good es then Some
      \<lparr>ext_elliptic_curve = (10 \<in> ext_type ` set es \<or> ext_elliptic_curve seen),
       ext_client_cert_type = (19 \<in> ext_type ` set es \<or> ext_client_cert_type seen),
       ext_server_cert_type = (20 \<in> ext_type ` set es \<or> ext_server_cert_type seen),
       ext_ec_point_formats = (11 \<in> ext_type ` set es \<or> ext_ec_point_formats seen)\<rparr> else None)"
  using assms
proof (induction es arbitrary: seen)
  case Nil
  then show ?case by (simp add: ext_loop.simps)
next
  case (Cons e es)
  let ?d = "concat (map ext_bytes es) @ r" and ?n = "length (concat (map ext_bytes es))"
  have w: "ext_wf e" "length (ext_body e) < 2 ^ 16" using Cons.prems ext_wf_length by simp_all
  have d: "concat (map ext_bytes (e # es)) @ r = dtls_int_to_uint16 (ext_type e) @
      dtls_int_to_uint16 (word_of_nat (length (ext_body e))) @ ext_body e @ ?d"
    by (simp add: ext_bytes_def)
  have n: "length (concat (map ext_bytes (e # es))) = 4 + length (ext_body e) + ?n"
    by (simp add: ext_bytes_def)
  have u: "unat (word_of_nat (length (ext_body e)) :: u16) = length (ext_body e)"
    using w(2) by (rule unat_u16_of_nat)
  have d4: "drop 4 (dtls_int_to_uint16 a @ dtls_int_to_uint16 b @ x) = x"
    "drop (4 + length y) (dtls_int_to_uint16 a @ dtls_int_to_uint16 b @ y @ x) = x" for a b x y
    by (simp_all add: int_to_uint16_be)
  obtain seen' where c: "check_ext_body (ext_type e) (ext_body e @ ?d) (length (ext_body e)) True seen = Some (seen', ext_good e)"
    and s: "seen' = \<lparr>ext_elliptic_curve = (ext_type e = 10 \<or> ext_elliptic_curve seen),
     ext_client_cert_type = (ext_type e = 19 \<or> ext_client_cert_type seen),
     ext_server_cert_type = (ext_type e = 20 \<or> ext_server_cert_type seen),
     ext_ec_point_formats = (ext_type e = 11 \<or> ext_ec_point_formats seen)\<rparr>"
    using check_ext_body_enc [OF w(1), of ?d seen] by blast
  have "ext_loop (concat (map ext_bytes (e # es)) @ r) (length (concat (map ext_bytes (e # es)))) True seen =
    (if ext_good e then ext_loop ?d ?n True seen' else Some None)"
    unfolding d n by (subst ext_loop.simps) (simp add: d4 u c)
  then show ?case
    using Cons.IH [of seen'] Cons.prems by (auto simp: s)
qed

lemma check_extensions_enc:
  assumes "pr_handshake q = Some h" and "list_all ext_wf es"
    and "length (concat (map ext_bytes es)) < 2 ^ 16"
  shows "dtls_check_tls_extension (Some q)
      (dtls_int_to_uint16 (word_of_nat (length (concat (map ext_bytes es)))) @ concat (map ext_bytes es) @ r)
      (2 + length (concat (map ext_bytes es))) True =
    Some (if list_all ext_good es \<and>
             (hp_cipher h = TLS_ECDHE_ECDSA_WITH_AES_128_CCM_8 \<longrightarrow> {10, 11, 19, 20} \<subseteq> ext_type ` set es)
          then 0 else hello_error q True)"
proof -
  let ?n = "length (concat (map ext_bytes es))"
  have u: "unat (word_of_nat ?n :: u16) = ?n" using assms(3) by (rule unat_u16_of_nat)
  have n: "2 + ?n - 2 = ?n" "\<not> 2 + ?n < 2" "\<not> ?n < ?n" by simp_all
  show ?thesis
    unfolding dtls_check_tls_extension_def option.case assms(1) Let_def if_not_P [OF n(2)] uint16_roundtrip
      Option.bind.bind_lunit u n(1) if_not_P [OF n(3)] drop_uint16 ext_loop_enc [OF assms(2)]
    by (auto simp: is_tls_ecdhe_ecdsa_with_aes_128_ccm_8_def ext_none_def)
qed

text \<open>C30: The extensions of a ClientHello: for a well-formed extension block, any extensions in any
  order with repetitions, \<open>dtls_check_tls_extension\<close> succeeds exactly when every curve list names
  P-256, every certificate-type list names raw public keys, every point-format list names
  uncompressed points, and, for the ECDSA suite, all four kinds occur; otherwise it returns the
  handshake failure (or the no-renegotiation warning on an established session).\<close>

theorem tls_extensions_checked:
  assumes "pr_handshake q = Some h" and "list_all ext_wf es"
    and "length (concat (map ext_bytes es)) < 2 ^ 16"
  shows "dtls_check_tls_extension (Some q)
      (dtls_int_to_uint16 (word_of_nat (length (concat (map ext_bytes es)))) @ concat (map ext_bytes es) @ r)
      (2 + length (concat (map ext_bytes es))) True =
    Some (if list_all ext_good es \<and>
             (hp_cipher h = TLS_ECDHE_ECDSA_WITH_AES_128_CCM_8 \<longrightarrow> {10, 11, 19, 20} \<subseteq> ext_type ` set es)
          then 0 else hello_error q True)"
  using assms by (rule check_extensions_enc)

lemma tls_extensions_checked_witness:
  "dtls_check_tls_extension (Some (peer_example 1\<lparr>pr_handshake := dtls_handshake_new True\<rparr>))
     (dtls_int_to_uint16 (word_of_nat (length (concat (map ext_bytes [Curves [24, 23], OtherExt 22 []])))) @
      concat (map ext_bytes [Curves [24, 23], OtherExt 22 []]) @ [])
     (2 + length (concat (map ext_bytes [Curves [24, 23], OtherExt 22 []]))) True = Some 0"
proof -
  have h: "pr_handshake (peer_example 1\<lparr>pr_handshake := dtls_handshake_new True\<rparr>) =
      Some (the (dtls_handshake_new True))" by (simp add: dtls_handshake_new_def)
  have w: "list_all ext_wf [Curves [24, 23], OtherExt 22 []]" by simp
  have l: "length (concat (map ext_bytes [Curves [24, 23], OtherExt 22 []])) < 2 ^ 16"
    by (simp add: ext_bytes_def)
  show ?thesis
    unfolding tls_extensions_checked [OF h w l]
    by (simp add: dtls_handshake_new_def cipher_defs)
qed

subsection \<open>Negotiation\<close>

lemma find_cipher_enc:
  assumes "drop p msg = enc16 cs @ r"
  shows "\<exists>c' p' i'. find_cipher ctx msg p (2 * int (length cs)) c0 =
      Some (\<exists>c\<in>set cs. known_cipher ctx c False, c', p', i') \<and>
    int p' + i' = int p + 2 * int (length cs) \<and>
    ((\<exists>c\<in>set cs. known_cipher ctx c False) \<longrightarrow>
       find (\<lambda>c. known_cipher ctx c False) cs = Some c')"
  using assms
proof (induction cs arbitrary: p c0)
  case Nil
  then show ?case by (simp add: find_cipher.simps)
next
  case (Cons c cs)
  have d: "drop p msg = dtls_int_to_uint16 c @ enc16 cs @ r"
    using Cons.prems by (simp add: enc16_def)
  have "drop (p + 2) msg = drop 2 (drop p msg)" by (simp add: add.commute)
  then have d2: "drop (p + 2) msg = enc16 cs @ r" unfolding d by simp
  have s: "find_cipher ctx msg p (2 * int (length (c # cs))) c0 =
    (if known_cipher ctx c False then Some (True, c, p + 2, 2 * int (length cs))
     else find_cipher ctx msg (p + 2) (2 * int (length cs)) c)"
    by (subst find_cipher.simps) (simp add: d)
  show ?case
  proof (cases "known_cipher ctx c False")
    case True
    then show ?thesis unfolding s by simp
  next
    case False
    then have e: "(\<exists>x\<in>set (c # cs). known_cipher ctx x False) \<longleftrightarrow> (\<exists>x\<in>set cs. known_cipher ctx x False)"
      by simp
    have f: "find (\<lambda>x. known_cipher ctx x False) (c # cs) = find (\<lambda>x. known_cipher ctx x False) cs"
      using False by simp
    have n: "int (p + 2) + 2 * int (length cs) = int p + 2 * int (length (c # cs))" by simp
    show ?thesis
      unfolding s if_not_P [OF False] e f n [symmetric] by (rule Cons.IH [OF d2])
  qed
qed

lemma find_compression_enc:
  assumes "drop p msg = ms @ r"
  shows "find_compression msg p (length ms) =
    Some (0 \<in> set ms, p + (if 0 \<in> set ms then Suc (length (takeWhile (\<lambda>b. b \<noteq> 0) ms)) else length ms))"
  using assms
proof (induction ms arbitrary: p)
  case Nil
  then show ?case by (simp add: find_compression.simps)
next
  case (Cons b ms)
  have d: "drop (p + 1) msg = ms @ r" using Cons.prems by (metis One_nat_def add.commute append_Cons drop_Suc_Cons drop_drop drop0)
  show ?case
    using Cons.IH [OF d] Cons.prems
    by (subst find_compression.simps) (simp add: dtls_uint8_to_int_def rd_def TLS_COMPRESSION_NULL_def)
qed

text \<open>The offer of a ClientHello after its cookie: ciphers, compression methods, extension block.\<close>

definition hello_offer :: "u16 list \<Rightarrow> bytes \<Rightarrow> bytes \<Rightarrow> bytes" where
  "hello_offer cs ms ex = dtls_int_to_uint16 (word_of_nat (2 * length cs)) @ enc16 cs @
     word_of_nat (length ms) # ms @ ex"

lemma update_compression_offer:
  assumes d: "drop p msg = word_of_nat (length ms) # ms @ ex" and m: "length ms < 256"
    and l: "l = 1 + length ms + length ex"
  shows "update_compression q config msg p l =
    (let q' = q\<lparr>pr_handshake := Some (config\<lparr>hp_compression := TLS_COMPRESSION_NULL\<rparr>)\<rparr> in
     if 0 \<in> set ms
     then map_option (\<lambda>r. (r, q'))
       (dtls_check_tls_extension (Some q') (tl (dropWhile (\<lambda>b. b \<noteq> 0) ms) @ ex) (length ex) True)
     else Some (hello_error q True, q\<lparr>pr_handshake := Some config\<rparr>))"
proof -
  have d1: "drop (p + 1) msg = ms @ ex"
    using d by (metis One_nat_def add.commute drop_Suc_Cons drop_drop drop0)
  have i: "dtls_uint8_to_int (drop p msg) = Some (word_of_nat (length ms))"
    unfolding d by (simp add: dtls_uint8_to_int_def rd_def)
  have u: "unat (word_of_nat (length ms) :: u8) = length ms" using m by (rule byte_of_length)
  have lx: "l - (1 + length ms) = length ex" "\<not> l < length ms + 1" "\<not> l < 1" using l by simp_all
  have rest: "drop (p + 1 + Suc (length (takeWhile (\<lambda>b. b \<noteq> 0) ms))) msg =
      tl (dropWhile (\<lambda>b. b \<noteq> 0) ms) @ ex" if "0 \<in> set ms"
  proof -
    have ne: "dropWhile (\<lambda>b. b \<noteq> 0) ms \<noteq> []" using that by (simp add: dropWhile_eq_Nil_conv)
    have "drop (p + 1 + k) msg = drop k (drop (p + 1) msg)" for k by (simp add: add.commute)
    then have "drop (p + 1 + Suc (length (takeWhile (\<lambda>b. b \<noteq> 0) ms))) msg =
        drop (Suc (length (takeWhile (\<lambda>b. b \<noteq> 0) ms))) ((takeWhile (\<lambda>b. b \<noteq> 0) ms @ dropWhile (\<lambda>b. b \<noteq> 0) ms) @ ex)"
      unfolding d1 takeWhile_dropWhile_id by (rule arg_cong)
    also have "\<dots> = drop 1 (dropWhile (\<lambda>b. b \<noteq> 0) ms @ ex)"
      by (simp only: append_assoc drop_append) simp
    also have "\<dots> = tl (dropWhile (\<lambda>b. b \<noteq> 0) ms) @ ex" using ne by (cases "dropWhile (\<lambda>b. b \<noteq> 0) ms") auto
    finally show ?thesis .
  qed
  show ?thesis
    unfolding update_compression_def Let_def if_not_P [OF lx(3)] i Option.bind.bind_lunit u if_not_P [OF lx(2)]
      find_compression_enc [OF d1] prod.case lx(1)
    using rest by (auto simp: bind_map_option map_conv_bind_option comp_def)
qed

lemma update_parameters_offer:
  assumes "pr_handshake q = Some h"
    and "hello_ok pre random sid cookie (hello_offer cs ms ex)" and "length cs < 2 ^ 14" and "length ms < 256"
  shows "dtls_update_parameters ctx (Some q) (hello pre random sid cookie (hello_offer cs ms ex)) =
    (let config = set_client_random random h in
     case find (\<lambda>c. known_cipher ctx c False) cs of
       None \<Rightarrow> Some (hello_error q True,
         Some (q\<lparr>pr_handshake := Some (config\<lparr>hp_cipher := TLS_NULL_WITH_NULL_NULL\<rparr>)\<rparr>))
     | Some c \<Rightarrow>
         (let q' = q\<lparr>pr_handshake := Some (config\<lparr>hp_cipher := c, hp_compression := TLS_COMPRESSION_NULL\<rparr>)\<rparr> in
          if 0 \<in> set ms
          then map_option (\<lambda>r. (r, Some q'))
            (dtls_check_tls_extension (Some q') (tl (dropWhile (\<lambda>b. b \<noteq> 0) ms) @ ex) (length ex) True)
          else Some (hello_error q True, Some (q\<lparr>pr_handshake := Some (config\<lparr>hp_cipher := c\<rparr>)\<rparr>))))"
proof -
  let ?m = "hello pre random sid cookie (hello_offer cs ms ex)"
  let ?p = "48 + length sid + length cookie"
  note r = hello_reads [OF assms(2)]
  have l: "length sid < 256" "length cookie < 256" "length random = 32"
    using assms(2) by (simp_all add: hello_ok_def)
  have lo: "length (hello_offer cs ms ex) = 3 + 2 * length cs + length ms + length ex"
    by (simp add: hello_offer_def)
  have rnd: "rd_n ?m (12 + 2) 32 = Some random"
  proof -
    have "drop (12 + 2) ?m = drop 2 (drop 12 ?m)" by simp
    then show ?thesis unfolding rd_n_def r(2) using l r(1) by simp
  qed
  have s1: "SKIP_VAR_FIELD ?m (12 + 34) (length ?m - (12 + 34)) =
      Some (Some (47 + length sid, length ?m - (12 + 34) - (length sid + 1)))"
    using skip_field [of "12 + 34" ?m sid _ "length ?m - (12 + 34)"] r(1,3) l(1) by simp
  have s2: "SKIP_VAR_FIELD ?m (47 + length sid) (length ?m - (12 + 34) - (length sid + 1)) =
      Some (Some (?p, length (hello_offer cs ms ex)))"
    using skip_field [OF r(4) l(2), of "length ?m - (12 + 34) - (length sid + 1)"] r(1) by simp
  have dp: "drop ?p ?m = dtls_int_to_uint16 (word_of_nat (2 * length cs)) @ enc16 cs @
      word_of_nat (length ms) # ms @ ex"
    using r(6) unfolding hello_offer_def .
  have dpk: "drop (?p + 2) ?m = enc16 cs @ word_of_nat (length ms) # ms @ ex"
  proof -
    have "drop (?p + 2) ?m = drop 2 (drop ?p ?m)" by (simp add: ac_simps)
    then show ?thesis unfolding dp by simp
  qed
  have u: "unat (word_of_nat (2 * length cs) :: u16) = 2 * length cs"
    using assms(3) by (intro unat_u16_of_nat) simp
  have nl: "\<not> length (hello_offer cs ms ex) < 2 * length cs + 2" "length ?m > 12 + 34"
    using r(1) by (simp_all add: lo)
  let ?config = "set_client_random random h"
  obtain c' p' i' where f: "find_cipher ctx ?m (?p + 2) (2 * int (length cs)) (hp_cipher ?config) =
      Some (\<exists>c\<in>set cs. known_cipher ctx c False, c', p', i')"
    "int p' + i' = int (?p + 2) + 2 * int (length cs)"
    "(\<exists>c\<in>set cs. known_cipher ctx c False) \<longrightarrow> find (\<lambda>c. known_cipher ctx c False) cs = Some c'"
    using find_cipher_enc [OF dpk, of ctx "hp_cipher ?config"] by blast
  have q: "nat (int p' + i') = ?p + 2 + 2 * length cs" unfolding f(2) by simp
  have dq: "drop (?p + 2 + 2 * length cs) ?m = word_of_nat (length ms) # ms @ ex"
  proof -
    have "drop (?p + 2 + 2 * length cs) ?m = drop (2 * length cs) (drop (?p + 2) ?m)" by (simp add: ac_simps)
    then show ?thesis unfolding dpk by simp
  qed
  have lx: "length (hello_offer cs ms ex) - (2 + 2 * length cs) = 1 + length ms + length ex"
    by (simp add: lo)
  have nf: "find (\<lambda>c. known_cipher ctx c False) cs = None" if "\<not> (\<exists>c\<in>set cs. known_cipher ctx c False)"
    using that by (auto simp: find_None_iff)
  have uc: "update_ciphers ctx q ?config ?m ?p (length (hello_offer cs ms ex)) =
    (if \<exists>c\<in>set cs. known_cipher ctx c False
     then update_compression q (?config\<lparr>hp_cipher := c'\<rparr>) ?m (?p + 2 + 2 * length cs) (1 + length ms + length ex)
     else Some (hello_error q True,
       q\<lparr>pr_handshake := Some (?config\<lparr>hp_cipher := TLS_NULL_WITH_NULL_NULL\<rparr>)\<rparr>))"
    unfolding update_ciphers_def dp uint16_roundtrip Option.bind.bind_lunit u if_not_P [OF nl(1)] lx
    using f(1) by (simp add: q)
  show ?thesis
    unfolding dtls_update_parameters_def option.case assms(1) if_not_P [OF not_not [THEN iffD2, OF nl(2)]]
      rnd Option.bind.bind_lunit Let_def s1 prod.case s2 uc
    using f(3) nf update_compression_offer [OF dq assms(4) refl, of q "?config\<lparr>hp_cipher := c'\<rparr>"]
    by (cases "\<exists>c\<in>set cs. known_cipher ctx c False") (auto simp: Let_def option.map_comp comp_def)
qed

text \<open>Negotiation: from a well-formed ClientHello, \<open>dtls_update_parameters\<close> stores the client
  random and selects the first offered cipher suite the application is configured for; with none it
  fails and resets the suite. Then it demands the null compression and checks the extensions, but
  starting at the compression methods behind the null method, which it does not skip: the extension
  block is read from its beginning only if the null method is the last one.\<close>

lemma hello_negotiation:
  assumes "pr_handshake q = Some h"
    and "hello_ok pre random sid cookie (hello_offer cs ms ex)" and "length cs < 2 ^ 14" and "length ms < 256"
  shows "dtls_update_parameters ctx (Some q) (hello pre random sid cookie (hello_offer cs ms ex)) =
    (let config = set_client_random random h in
     case find (\<lambda>c. known_cipher ctx c False) cs of
       None \<Rightarrow> Some (hello_error q True,
         Some (q\<lparr>pr_handshake := Some (config\<lparr>hp_cipher := TLS_NULL_WITH_NULL_NULL\<rparr>)\<rparr>))
     | Some c \<Rightarrow>
         (let q' = q\<lparr>pr_handshake := Some (config\<lparr>hp_cipher := c, hp_compression := TLS_COMPRESSION_NULL\<rparr>)\<rparr> in
          if 0 \<in> set ms
          then map_option (\<lambda>r. (r, Some q'))
            (dtls_check_tls_extension (Some q') (tl (dropWhile (\<lambda>b. b \<noteq> 0) ms) @ ex) (length ex) True)
          else Some (hello_error q True, Some (q\<lparr>pr_handshake := Some (config\<lparr>hp_cipher := c\<rparr>)\<rparr>))))"
  using assms by (rule update_parameters_offer)

text \<open>Witness: a server with both suites, offered an unknown suite, then PSK, then ECDSA.\<close>

lemma hello_negotiation_witness:
  "\<exists>q'. dtls_update_parameters \<lparr>cap_get_psk_info = True, cap_get_ecdsa_key = True, cap_verify_ecdsa_key = False\<rparr>
     (Some (peer_example 1\<lparr>pr_handshake := dtls_handshake_new True\<rparr>))
     (hello (replicate 9 0) (replicate 32 7) [] [] (hello_offer [0xFF, 0xC0A8, 0xC0AE] [0] [])) = Some (0, Some q') \<and>
   map_option hp_cipher (pr_handshake q') = Some TLS_PSK_WITH_AES_128_CCM_8"
proof -
  let ?q = "peer_example 1\<lparr>pr_handshake := dtls_handshake_new True\<rparr>"
  have h: "pr_handshake ?q = Some (the (dtls_handshake_new True))" by (simp add: dtls_handshake_new_def)
  have ok: "hello_ok (replicate 9 0) (replicate 32 7) [] [] (hello_offer [0xFF, 0xC0A8, 0xC0AE] [0] [])"
    by (simp add: hello_ok_def hello_offer_def)
  show ?thesis
    using hello_negotiation [OF h ok, of "\<lparr>cap_get_psk_info = True, cap_get_ecdsa_key = True, cap_verify_ecdsa_key = False\<rparr>"]
    by (simp add: known_cipher_def is_psk_supported_def is_ecdsa_supported_def is_tls_psk_with_aes_128_ccm_8_def
        is_tls_ecdhe_ecdsa_with_aes_128_ccm_8_def cipher_defs dtls_check_tls_extension_def)
qed

end
