(* ===== verification/U256.thy ===== *)
theory U256
  imports Prelude
begin

text \<open>
  The multi-precision integers of \<open>k2sn/1cff.c\<close>: \<open>u256\<close> is an array of five 64-bit words, least
  significant first. Addition keeps its carries in 128-bit words, subtraction adds its borrows to the
  words of the subtrahend.
\<close>

type_synonym u128 = "128 word"
type_synonym u256 = "u64 list"

definition m64 :: u64 where
  "m64 = 0xffffffffffffffff"

definition zero256 :: u256 where
  "zero256 = [0, 0, 0, 0, 0]"

definition one256 :: u256 where
  "one256 = [1, 0, 0, 0, 0]"

subsection \<open>Operations\<close>

definition add256 :: "u256 \<Rightarrow> u256 \<Rightarrow> u256" where
  "add256 a b =
     (let t0 = ucast (a ! 0) + ucast (b ! 0) :: u128;
          t1 = ucast (a ! 1) + ucast (b ! 1) :: u128;
          t2 = ucast (a ! 2) + ucast (b ! 2) :: u128;
          t3 = ucast (a ! 3) + ucast (b ! 3) :: u128;
          t4 = ucast (a ! 4) + ucast (b ! 4) :: u128;
          temp = (if t0 > ucast m64 then 1 else 0); c0 = ucast (t0 AND ucast m64); t1 = t1 + temp;
          temp = (if t1 > ucast m64 then 1 else 0); c1 = ucast (t1 AND ucast m64); t2 = t2 + temp;
          temp = (if t2 > ucast m64 then 1 else 0); c2 = ucast (t2 AND ucast m64); t3 = t3 + temp;
          temp = (if t3 > ucast m64 then 1 else 0); c3 = ucast (t3 AND ucast m64); t4 = t4 + temp;
          c4 = ucast t4
      in [c0, c1, c2, c3, c4])"

text \<open>One word of the subtraction: the difference, and the next word of the subtrahend with the borrow.\<close>

definition sub_word :: "u64 \<Rightarrow> u64 \<Rightarrow> u64 \<Rightarrow> u64 \<times> u64" where
  "sub_word a b b_next =
     (if a \<ge> b then (a - b, b_next) else (m64 - b + a + 1, b_next + 1))"

definition sub256 :: "u256 \<Rightarrow> u256 \<Rightarrow> u256" where
  "sub256 a b =
     (let (c0, b1) = sub_word (a ! 0) (b ! 0) (b ! 1);
          (c1, b2) = sub_word (a ! 1) b1 (b ! 2);
          (c2, b3) = sub_word (a ! 2) b2 (b ! 3);
          (c3, b4) = sub_word (a ! 3) b3 (b ! 4)
      in [c0, c1, c2, c3, a ! 4 - b4])"

text \<open>The loop of \<open>isgteq\<close>, with \<open>i\<close> words to go. Of equal numbers the code also compares the words in
  front of the two arrays; whatever they are, it returns 1.\<close>

fun isgteq_loop :: "u256 \<Rightarrow> u256 \<Rightarrow> nat \<Rightarrow> bool" where
  "isgteq_loop a b 0 = True"
| "isgteq_loop a b (Suc i) = (if a ! i = b ! i then isgteq_loop a b i else a ! i > b ! i)"

definition isgteq :: "u256 \<Rightarrow> u256 \<Rightarrow> bool" where
  "isgteq a b = isgteq_loop a b 5"

text \<open>32 bytes, least significant first.\<close>

definition le_word64 :: "bytes \<Rightarrow> u64" where
  "le_word64 ms =
     ucast (ms ! 0) OR push_bit 8 (ucast (ms ! 1)) OR push_bit 16 (ucast (ms ! 2)) OR push_bit 24 (ucast (ms ! 3)) OR
     push_bit 32 (ucast (ms ! 4)) OR push_bit 40 (ucast (ms ! 5)) OR push_bit 48 (ucast (ms ! 6)) OR push_bit 56 (ucast (ms ! 7))"

definition convert_u82u256 :: "bytes \<Rightarrow> u256" where
  "convert_u82u256 ms =
     [le_word64 ms, le_word64 (drop 8 ms), le_word64 (drop 16 ms), le_word64 (drop 24 ms), 0]"

subsection \<open>Their meaning\<close>

fun num256 :: "u256 \<Rightarrow> nat" where
  "num256 [] = 0"
| "num256 (x # xs) = unat x + 2 ^ 64 * num256 xs"

lemma num256_less: "num256 xs < 2 ^ (64 * length xs)"
proof (induction xs)
  case (Cons x xs)
  have "unat x < 2 ^ LENGTH(64)" by (rule unsigned_less)
  then have "num256 (x # xs) < 2 ^ 64 + 2 ^ 64 * num256 xs" by simp
  also have "\<dots> = 2 ^ 64 * (num256 xs + 1)" by simp
  also have "\<dots> \<le> 2 ^ 64 * 2 ^ (64 * length xs)" using Cons by (intro mult_left_mono) simp_all
  finally show ?case by (simp add: power_add algebra_simps)
qed simp

lemma unat_u64_less: "unat (x :: u64) < 2 ^ 64"
  using unsigned_less [of x] by simp

lemma length_5_cases:
  assumes "length xs = 5" obtains a b c d e where "xs = [a, b, c, d, e]"
  using assms by (auto simp: numeral_eq_Suc length_Suc_conv)

text \<open>A word of a sum and the carry out of it.\<close>

lemma unat_sum128: "unat (ucast x + ucast y :: u128) = unat x + unat y" for x y :: u64
  using unat_u64_less [of x] unat_u64_less [of y]
  by (simp add: unat_word_ariths unsigned_ucast_eq take_bit_eq_mod)

lemma carry_word:
  fixes t :: u128
  assumes "unat t < 2 ^ 65"
  shows "unat (ucast (t AND ucast m64) :: u64) = unat t mod 2 ^ 64"
    and "unat (if t > ucast m64 then 1 else 0 :: u128) = unat t div 2 ^ 64"
proof -
  have "(ucast m64 :: u128) = mask 64" by (simp add: m64_def mask_eq_exp_minus_1)
  then have "unat (t AND ucast m64) = unat t mod 2 ^ 64"
    by (simp add: take_bit_eq_mask [symmetric] unsigned_take_bit_eq take_bit_eq_mod unat_mod)
  then show "unat (ucast (t AND ucast m64) :: u64) = unat t mod 2 ^ 64"
    by (simp add: unsigned_ucast_eq take_bit_eq_mod)
  have m: "unat (ucast m64 :: u128) = 2 ^ 64 - 1" by (simp add: m64_def)
  show "unat (if t > ucast m64 then 1 else 0 :: u128) = unat t div 2 ^ 64"
    using assms m by (auto simp: word_less_nat_alt div_eq_0_iff le_div_geq not_less)
qed


lemma u256_carry: "(x + 2 ^ 64 * y) mod 2 ^ (64 + n) = x mod 2 ^ 64 + 2 ^ 64 * ((y + x div 2 ^ 64) mod 2 ^ n)" for x y :: nat
proof -
  have "x + 2 ^ 64 * y = x mod 2 ^ 64 + 2 ^ 64 * (y + x div 2 ^ 64)" by (simp add: algebra_simps)
  moreover have "(x mod 2 ^ 64 + 2 ^ 64 * z) mod 2 ^ (64 + n) = x mod 2 ^ 64 + 2 ^ 64 * (z mod 2 ^ n)" for z
    by (simp add: power_add mod_mult2_eq)
  ultimately show ?thesis by metis
qed

lemma num256_add:
  assumes "length a = 5" and "length b = 5"
  shows "num256 (add256 a b) = (num256 a + num256 b) mod 2 ^ 320" and "length (add256 a b) = 5"
proof -
  obtain a0 a1 a2 a3 a4 where a: "a = [a0, a1, a2, a3, a4]" using assms(1) by (rule length_5_cases)
  obtain b0 b1 b2 b3 b4 where b: "b = [b0, b1, b2, b3, b4]" using assms(2) by (rule length_5_cases)
  let ?t = "\<lambda>x y. ucast x + ucast y :: u128" and ?c = "\<lambda>t :: u128. if t > ucast m64 then 1 else 0 :: u128"
  define t0 where "t0 = ?t a0 b0"
  define t1 where "t1 = ?t a1 b1 + ?c t0"
  define t2 where "t2 = ?t a2 b2 + ?c t1"
  define t3 where "t3 = ?t a3 b3 + ?c t2"
  define t4 where "t4 = ?t a4 b4 + ?c t3"
  have s: "unat (?t x y + ?c t) = unat x + unat y + unat t div 2 ^ 64 \<and> unat (?t x y + ?c t) < 2 ^ 65"
    if "unat t < 2 ^ 65" for x y :: u64 and t :: u128
  proof -
    have d: "unat t div 2 ^ 64 < 2" using that by (intro less_mult_imp_div_less) simp
    have "unat x + unat y + unat t div 2 ^ 64 < 2 ^ 65"
      using d unat_u64_less [of x] unat_u64_less [of y] by simp
    then show ?thesis
      using carry_word(2) [OF that] unat_sum128 [of x y] by (simp add: unat_word_ariths)
  qed
  have u0: "unat t0 = unat a0 + unat b0 \<and> unat t0 < 2 ^ 65"
    using unat_sum128 [of a0 b0] unat_u64_less [of a0] unat_u64_less [of b0] by (simp add: t0_def)
  note u1 = s [of t0 a1 b1, folded t1_def, OF u0 [THEN conjunct2]]
  note u2 = s [of t1 a2 b2, folded t2_def, OF u1 [THEN conjunct2]]
  note u3 = s [of t2 a3 b3, folded t3_def, OF u2 [THEN conjunct2]]
  note u4 = s [of t3 a4 b4, folded t4_def, OF u3 [THEN conjunct2]]
  let ?w = "\<lambda>t :: u128. ucast (t AND ucast m64) :: u64"
  have r: "add256 a b = [?w t0, ?w t1, ?w t2, ?w t3, ucast t4]"
    unfolding add256_def a b t0_def t1_def t2_def t3_def t4_def Let_def by simp
  show "length (add256 a b) = 5" by (simp add: r)
  have w4: "unat (ucast t4 :: u64) = unat t4 mod 2 ^ 64" by (simp add: unsigned_ucast_eq take_bit_eq_mod)
  have e: "num256 a + num256 b = (unat a0 + unat b0) + 2 ^ 64 * ((unat a1 + unat b1) + 2 ^ 64 * ((unat a2 + unat b2) +
      2 ^ 64 * ((unat a3 + unat b3) + 2 ^ 64 * (unat a4 + unat b4))))"
    by (simp add: a b algebra_simps)
  have "num256 (add256 a b) = unat t0 mod 2 ^ 64 + 2 ^ 64 * (unat t1 mod 2 ^ 64 + 2 ^ 64 * (unat t2 mod 2 ^ 64 +
      2 ^ 64 * (unat t3 mod 2 ^ 64 + 2 ^ 64 * (unat t4 mod 2 ^ 64))))"
    unfolding r num256.simps carry_word(1) [OF u0 [THEN conjunct2]] carry_word(1) [OF u1 [THEN conjunct2]]
      carry_word(1) [OF u2 [THEN conjunct2]] carry_word(1) [OF u3 [THEN conjunct2]] w4 by simp
  also have "\<dots> = (num256 a + num256 b) mod 2 ^ 320"
  proof -
    let ?B = "2 ^ 64 :: nat" and ?s = "\<lambda>x y :: u64. unat x + unat y"
    have st: "(?s x y + ?B * z + unat t div ?B) = unat t' + ?B * z" if "unat t' = ?s x y + unat t div ?B" for x y z and t t' :: u128
      using that by simp
    have "(unat t3 + ?B * ?s a4 b4) mod 2 ^ 128 = unat t3 mod ?B + ?B * (unat t4 mod ?B)"
      using u256_carry [of "unat t3" "?s a4 b4" 64] u4 by simp
    moreover have "(unat t2 + ?B * (?s a3 b3 + ?B * ?s a4 b4)) mod 2 ^ 192 =
        unat t2 mod ?B + ?B * ((unat t3 + ?B * ?s a4 b4) mod 2 ^ 128)"
      using u256_carry [of "unat t2" "?s a3 b3 + ?B * ?s a4 b4" 128] st [of t3 a3 b3 t2] u3 by (simp add: ac_simps)
    moreover have "(unat t1 + ?B * (?s a2 b2 + ?B * (?s a3 b3 + ?B * ?s a4 b4))) mod 2 ^ 256 =
        unat t1 mod ?B + ?B * ((unat t2 + ?B * (?s a3 b3 + ?B * ?s a4 b4)) mod 2 ^ 192)"
      using u256_carry [of "unat t1" "?s a2 b2 + ?B * (?s a3 b3 + ?B * ?s a4 b4)" 192] st [of t2 a2 b2 t1] u2 by (simp add: ac_simps)
    moreover have "(unat t0 + ?B * (?s a1 b1 + ?B * (?s a2 b2 + ?B * (?s a3 b3 + ?B * ?s a4 b4)))) mod 2 ^ 320 =
        unat t0 mod ?B + ?B * ((unat t1 + ?B * (?s a2 b2 + ?B * (?s a3 b3 + ?B * ?s a4 b4))) mod 2 ^ 256)"
      using u256_carry [of "unat t0" "?s a1 b1 + ?B * (?s a2 b2 + ?B * (?s a3 b3 + ?B * ?s a4 b4))" 256] st [of t1 a1 b1 t0] u1
      by (simp add: ac_simps)
    ultimately show ?thesis unfolding e using u0 by simp
  qed
  finally show "num256 (add256 a b) = (num256 a + num256 b) mod 2 ^ 320" .
qed


text \<open>A word of the difference: what is borrowed is handed on, unless the next word of the subtrahend is
  full.\<close>

lemma sub_word_borrow:
  assumes "sub_word a b n = (c, n')" and "n \<noteq> m64"
  shows "\<exists>k \<le> 1. unat c + unat b = unat a + 2 ^ 64 * k \<and> unat n' = unat n + k"
proof (cases "a \<ge> b")
  case True
  then have "unat (a - b) + unat b = unat a" by (simp add: unat_sub_if' word_le_nat_alt)
  then show ?thesis using assms(1) True by (intro exI [of _ 0]) (simp add: sub_word_def)
next
  case False
  have m: "m64 - b + a + 1 = a - b" by (simp add: m64_def)
  have c: "c = a - b" "n' = n + 1" using assms(1) False unfolding sub_word_def m by simp_all
  have "unat (a - b) + unat b = unat a + 2 ^ 64" using False unat_u64_less [of b] by (simp add: unat_sub_if' word_le_nat_alt)
  moreover have "unat (n + 1) = unat n + 1"
  proof -
    have "unat n \<noteq> 2 ^ 64 - 1"
    proof
      assume "unat n = 2 ^ 64 - 1"
      then have "unat n = unat m64" by (simp add: m64_def)
      then show False using assms(2) by (simp only: word_unat_eq_iff)
    qed
    then show ?thesis using unat_u64_less [of n] by (simp add: unat_word_ariths)
  qed
  ultimately show ?thesis using c by (intro exI [of _ 1]) simp
qed

lemma sub_word_last: "sub_word a b n = (c, n') \<Longrightarrow> \<exists>k \<le> 1. unat c + unat b = unat a + 2 ^ 64 * k \<and> n' = n + word_of_nat k"
  using sub_word_borrow [of a b 0 c] by (cases "a \<ge> b") (auto simp: sub_word_def m64_def)

definition no_full :: "u256 \<Rightarrow> bool" where
  "no_full b \<longleftrightarrow> b ! 1 \<noteq> m64 \<and> b ! 2 \<noteq> m64 \<and> b ! 3 \<noteq> m64"

lemma num256_sub:
  assumes "length a = 5" and "length b = 5" and "no_full b" and "num256 b \<le> num256 a"
  shows "num256 (sub256 a b) = num256 a - num256 b" and "length (sub256 a b) = 5"
proof -
  obtain a0 a1 a2 a3 a4 where a: "a = [a0, a1, a2, a3, a4]" using assms(1) by (rule length_5_cases)
  obtain b0 b1 b2 b3 b4 where b: "b = [b0, b1, b2, b3, b4]" using assms(2) by (rule length_5_cases)
  have f: "b1 \<noteq> m64" "b2 \<noteq> m64" "b3 \<noteq> m64" using assms(3) by (simp_all add: no_full_def b)
  obtain c0 d1 where s0: "sub_word a0 b0 b1 = (c0, d1)" by fastforce
  obtain c1 d2 where s1: "sub_word a1 d1 b2 = (c1, d2)" by fastforce
  obtain c2 d3 where s2: "sub_word a2 d2 b3 = (c2, d3)" by fastforce
  obtain c3 d4 where s3: "sub_word a3 d3 b4 = (c3, d4)" by fastforce
  obtain k0 where k0: "unat c0 + unat b0 = unat a0 + 2 ^ 64 * k0" "unat d1 = unat b1 + k0"
    using sub_word_borrow [OF s0 f(1)] by blast
  obtain k1 where k1: "unat c1 + unat d1 = unat a1 + 2 ^ 64 * k1" "unat d2 = unat b2 + k1"
    using sub_word_borrow [OF s1 f(2)] by blast
  obtain k2 where k2: "unat c2 + unat d2 = unat a2 + 2 ^ 64 * k2" "unat d3 = unat b3 + k2"
    using sub_word_borrow [OF s2 f(3)] by blast
  obtain k3 where k3: "unat c3 + unat d3 = unat a3 + 2 ^ 64 * k3" "d4 = b4 + word_of_nat k3" "k3 \<le> 1"
    using sub_word_last [OF s3] by blast
  have r: "sub256 a b = [c0, c1, c2, c3, a4 - d4]"
    by (simp add: sub256_def a b s0 s1 s2 s3)
  show "length (sub256 a b) = 5" by (simp add: r)
  define L where "L = num256 [c0, c1, c2, c3]"
  have L: "L < 2 ^ 256" using num256_less [of "[c0, c1, c2, c3]"] by (simp add: L_def)
  have ab: "L + num256 b + 2 ^ 256 * unat a4 = num256 a + 2 ^ 256 * (unat b4 + k3)"
    using k0 k1 k2 k3(1) unfolding L_def a b num256.simps by (simp add: algebra_simps)
  then have le: "unat b4 + k3 \<le> unat a4"
  proof (rule_tac ccontr)
    assume "\<not> unat b4 + k3 \<le> unat a4"
    then have "2 ^ 256 * (unat a4 + 1) \<le> 2 ^ 256 * (unat b4 + k3)" by (intro mult_left_mono) simp_all
    then show False using ab L assms(4) by (simp add: algebra_simps)
  qed
  have u: "unat d4 = unat b4 + k3"
    using le unat_u64_less [of a4] k3(2,3) by (simp add: unat_word_ariths unsigned_of_nat take_bit_eq_mod)
  have "unat (a4 - d4) = unat a4 - (unat b4 + k3)" using le u by (simp add: unat_sub_if' word_le_nat_alt)
  then have "num256 (sub256 a b) = L + 2 ^ 256 * (unat a4 - (unat b4 + k3))"
    unfolding r L_def by simp
  also have "\<dots> = L + (2 ^ 256 * unat a4 - 2 ^ 256 * (unat b4 + k3))" by (simp only: diff_mult_distrib2)
  also have "\<dots> = num256 a - num256 b"
    using ab mult_left_mono [OF le, of "2 ^ 256"] by simp
  finally show "num256 (sub256 a b) = num256 a - num256 b" .
qed


lemma isgteq_loop_num:
  "length a = n \<Longrightarrow> length b = n \<Longrightarrow> isgteq_loop a b n \<longleftrightarrow> num256 b \<le> num256 a"
proof -
  have app: "num256 (xs @ [x]) = num256 xs + 2 ^ (64 * length xs) * unat x" for xs x
    by (induction xs) (simp_all add: power_add algebra_simps)
  have pre: "isgteq_loop (a @ x) (b @ y) n = isgteq_loop a b n" if "length a = n" "length b = n" for a b x y n
  proof -
    have "i \<le> n \<Longrightarrow> isgteq_loop (a @ x) (b @ y) i = isgteq_loop a b i" for i
      using that by (induction i) (simp_all add: nth_append)
    then show ?thesis by simp
  qed
  show "length a = n \<Longrightarrow> length b = n \<Longrightarrow> isgteq_loop a b n \<longleftrightarrow> num256 b \<le> num256 a"
  proof (induction n arbitrary: a b)
    case (Suc n)
    obtain a' x where a: "a = a' @ [x]" "length a' = n" using Suc.prems(1) by (cases a rule: rev_cases) auto
    obtain b' y where b: "b = b' @ [y]" "length b' = n" using Suc.prems(2) by (cases b rule: rev_cases) auto
    let ?B = "2 ^ (64 * n) :: nat"
    have l: "num256 a' < ?B" "num256 b' < ?B" using num256_less [of a'] num256_less [of b'] a b by simp_all
    have s: "num256 b' + ?B * unat y \<le> num256 a' + ?B * unat x \<longleftrightarrow> unat y < unat x \<or> unat y = unat x \<and> num256 b' \<le> num256 a'"
    proof (cases "unat x" "unat y" rule: linorder_cases)
      case less
      then have "?B * (unat x + 1) \<le> ?B * unat y" by (intro mult_left_mono) simp_all
      then show ?thesis using less l by (simp add: algebra_simps)
    next
      case greater
      then have "?B * (unat y + 1) \<le> ?B * unat x" by (intro mult_left_mono) simp_all
      then show ?thesis using greater l by (simp add: algebra_simps)
    qed simp
    have "isgteq_loop a b (Suc n) \<longleftrightarrow> (if x = y then num256 b' \<le> num256 a' else y < x)"
      using Suc.IH [OF a(2) b(2)] a b pre [of a' n b' "[x]" "[y]"] by (auto simp: nth_append)
    also have "\<dots> \<longleftrightarrow> num256 b \<le> num256 a"
      unfolding a b app a(2) b(2) s by (auto simp: word_less_nat_alt word_unat_eq_iff)
    finally show ?case .
  qed simp
qed

lemma isgteq_num: "length a = 5 \<Longrightarrow> length b = 5 \<Longrightarrow> isgteq a b \<longleftrightarrow> num256 b \<le> num256 a"
  by (simp add: isgteq_def isgteq_loop_num)


lemma le_word64_eq:
  "le_word64 (b0 # b1 # b2 # b3 # b4 # b5 # b6 # b7 # r) = word_of_nat (be_nat [b7, b6, b5, b4, b3, b2, b1, b0])"
proof -
  have "(word_of_nat (be_nat [b7, b6, b5, b4, b3, b2, b1, b0]) :: u64) = word_of_nat
      (((((((unat b7 * 256 + unat b6) * 256 + unat b5) * 256 + unat b4) * 256 + unat b3) * 256 + unat b2) * 256 + unat b1) * 256 + unat b0)"
    by (simp add: algebra_simps)
  also have "\<dots> = push_bit 8 (push_bit 8 (push_bit 8 (push_bit 8 (push_bit 8 (push_bit 8 (push_bit 8 (ucast b7)
      OR ucast b6) OR ucast b5) OR ucast b4) OR ucast b3) OR ucast b2) OR ucast b1) OR ucast b0"
    unfolding or_byte_of_nat [symmetric] by simp
  also have "\<dots> = le_word64 (b0 # b1 # b2 # b3 # b4 # b5 # b6 # b7 # r)"
    by (simp add: le_word64_def ac_simps)
  finally show ?thesis by simp
qed

lemma le_word64_num:
  assumes "8 \<le> length ms"
  shows "unat (le_word64 ms) = be_nat (rev (take 8 ms))"
proof -
  obtain b0 b1 b2 b3 b4 b5 b6 b7 r where ms: "ms = b0 # b1 # b2 # b3 # b4 # b5 # b6 # b7 # r"
    using assms by (auto simp: numeral_eq_Suc Suc_le_length_iff)
  have "be_nat [b7, b6, b5, b4, b3, b2, b1, b0] < 256 ^ length [b7, b6, b5, b4, b3, b2, b1, b0]" by (rule be_nat_less)
  then have "be_nat [b7, b6, b5, b4, b3, b2, b1, b0] < 2 ^ 64" by simp
  then have "unat (word_of_nat (be_nat [b7, b6, b5, b4, b3, b2, b1, b0]) :: u64) = be_nat [b7, b6, b5, b4, b3, b2, b1, b0]"
    by (simp add: unsigned_of_nat take_bit_eq_mod del: be_nat.simps)
  then show ?thesis unfolding ms le_word64_eq by (simp del: be_nat.simps)
qed

lemma num256_convert:
  assumes "length ms = 32"
  shows "num256 (convert_u82u256 ms) = be_nat (rev ms)"
proof -
  have t: "ms = take 8 ms @ drop 8 ms" "drop 8 ms = take 8 (drop 8 ms) @ drop 16 ms"
    "drop 16 ms = take 8 (drop 16 ms) @ drop 24 ms" "drop 24 ms = take 8 (drop 24 ms)"
    using append_take_drop_id [of 8 "drop 8 ms"] append_take_drop_id [of 8 "drop 16 ms"] assms by simp_all
  have "rev ms = rev (take 8 ms @ take 8 (drop 8 ms) @ take 8 (drop 16 ms) @ take 8 (drop 24 ms))"
    using t by metis
  then have r: "rev ms = rev (take 8 (drop 24 ms)) @ rev (take 8 (drop 16 ms)) @ rev (take 8 (drop 8 ms)) @ rev (take 8 ms)"
    by simp
  show ?thesis
    unfolding convert_u82u256_def num256.simps r be_nat_append using assms
    by (simp add: le_word64_num)
qed

end
