(* ===== verification/Binomial_Table.thy ===== *)
theory Binomial_Table
  imports U256
begin

text \<open>
  The table of binomial coefficients of \<open>k2sn/1cff.c\<close>: what \<open>set_binotable\<close> fills in, and a property of
  the coefficients that the subtraction of \<open>1cff.c\<close> needs. A borrow is lost when it meets a word of
  the subtrahend with all bits set. No coefficient that \<open>cff\<close> can subtract has such a word; this is
  computed, in base 4 with the coefficients as lists of digits.
\<close>

subsection \<open>Filling the table\<close>

definition tab_set :: "u256 list list \<Rightarrow> nat \<Rightarrow> nat \<Rightarrow> u256 \<Rightarrow> u256 list list" where
  "tab_set tab n m x = tab[n := (tab ! n)[m := x]]"

definition tab_add :: "nat \<Rightarrow> nat \<Rightarrow> u256 list list \<Rightarrow> u256 list list" where
  "tab_add n m tab = tab_set tab n m (add256 (tab ! (n - 1) ! (m - 1)) (tab ! (n - 1) ! m))"

definition set_binotable :: "u256 list list \<Rightarrow> u256 list list" where
  "set_binotable tab =
     (let tab = fold (\<lambda>n t. tab_set t n 0 one256) [0..<262] tab;
          tab = fold (\<lambda>n t. tab_set t n n one256) [0..<132] tab;
          tab = fold (\<lambda>n t. fold (tab_add n) [1..<n] t) [1..<132] tab
      in fold (\<lambda>n t. fold (tab_add n) [1..<132] t) [132..<262] tab)"

text \<open>The static array before.\<close>

definition binotab_zero :: "u256 list list" where
  "binotab_zero = replicate 262 (replicate 132 zero256)"

subsection \<open>Rows\<close>

text \<open>The rows below \<open>n\<close> are done, the others have the ones of the first two loops.\<close>

definition entry_ok :: "nat \<Rightarrow> nat \<Rightarrow> u256 \<Rightarrow> bool" where
  "entry_ok n m x \<longleftrightarrow> length x = 5 \<and> num256 x = n choose m"

definition rows_done :: "nat \<Rightarrow> nat \<Rightarrow> u256 list list \<Rightarrow> bool" where
  "rows_done n k tab \<longleftrightarrow> length tab = 262 \<and> (\<forall>i<262. length (tab ! i) = 132) \<and>
     (\<forall>i<262. \<forall>m<132. (i < n \<or> i = n \<and> m < k \<or> m = 0 \<or> m = i \<or> i < m) \<longrightarrow> entry_ok i m (tab ! i ! m))"

lemma num256_const: "num256 zero256 = 0" "num256 one256 = 1" "length zero256 = 5" "length one256 = 5"
  by (simp_all add: zero256_def one256_def)

lemma choose_small: "n \<le> 261 \<Longrightarrow> n choose m < 2 ^ 319"
proof -
  assume "n \<le> 261"
  have "n choose m \<le> 2 ^ n" by (rule binomial_le_pow2)
  also have "\<dots> < 2 ^ 319" using \<open>n \<le> 261\<close> by (intro power_strict_increasing) simp_all
  finally show ?thesis .
qed

lemma tab_set_nth:
  "n < length tab \<Longrightarrow> m < length (tab ! n) \<Longrightarrow> i < length tab \<Longrightarrow>
   tab_set tab n m x ! i ! j = (if i = n \<and> j = m then x else tab ! i ! j)"
  by (auto simp: tab_set_def nth_list_update)

lemma tab_set_lengths:
  "length (tab_set tab n m x) = length tab"
  "i < length tab \<Longrightarrow> length (tab_set tab n m x ! i) = length (tab ! i)"
  by (cases "n < length tab"; auto simp: tab_set_def nth_list_update)+

lemma tab_add_row:
  assumes "rows_done n m tab" and "0 < m" and "0 < n" and "n < 262" and "m < 132"
  shows "rows_done n (Suc m) (tab_add n m tab)"
proof -
  have l: "length tab = 262" "\<And>i. i < 262 \<Longrightarrow> length (tab ! i) = 132"
    and e: "\<And>i k. i < 262 \<Longrightarrow> k < 132 \<Longrightarrow> i < n \<or> i = n \<and> k < m \<or> k = 0 \<or> k = i \<or> i < k \<Longrightarrow> entry_ok i k (tab ! i ! k)"
    using assms(1) by (auto simp: rows_done_def)
  have a: "entry_ok (n - 1) (m - 1) (tab ! (n - 1) ! (m - 1))" and b: "entry_ok (n - 1) m (tab ! (n - 1) ! m)"
    using assms by (intro e; simp)+
  have c: "((n - 1) choose (m - 1)) + ((n - 1) choose m) = (n choose m)"
    using assms(2,3) choose_reduce_nat [of n m] by simp
  have "n choose m < 2 ^ 320" using choose_small [of n m] assms(4) by simp
  then have x: "entry_ok n m (add256 (tab ! (n - 1) ! (m - 1)) (tab ! (n - 1) ! m))"
    using a b num256_add [of "tab ! (n - 1) ! (m - 1)" "tab ! (n - 1) ! m"] c by (simp add: entry_ok_def)
  show ?thesis
    unfolding rows_done_def tab_add_def
    using l x assms(4,5) e by (auto simp: tab_set_lengths tab_set_nth less_Suc_eq)
qed

lemma tab_add_fold:
  assumes "rows_done n 1 tab" and "0 < n" and "n < 262" and "k \<le> 132" and "1 \<le> k"
  shows "rows_done n k (fold (tab_add n) [1..<k] tab)"
  using assms(4,5)
proof (induction k)
  case (Suc k)
  show ?case
  proof (cases "k = 0")
    case True
    then show ?thesis using assms(1) by simp
  next
    case False
    then show ?thesis using Suc assms(2,3) by (simp add: tab_add_row)
  qed
qed simp

lemma rows_done_next: "rows_done n k tab \<Longrightarrow> k = n \<and> n < 132 \<or> k = 132 \<Longrightarrow> rows_done (Suc n) 1 tab"
  unfolding rows_done_def less_Suc_eq using linorder_neqE_nat by blast

lemma set_binotable_rows: "rows_done 262 1 (set_binotable binotab_zero)"
proof -
  define t1 where "t1 = fold (\<lambda>n t. tab_set t n 0 one256) [0..<262] binotab_zero"
  define t2 where "t2 = fold (\<lambda>n t. tab_set t n n one256) [0..<132] t1"
  have z: "length binotab_zero = 262" "\<And>i. i < 262 \<Longrightarrow> length (binotab_zero ! i) = 132"
    "\<And>i j. i < 262 \<Longrightarrow> j < 132 \<Longrightarrow> binotab_zero ! i ! j = zero256"
    by (simp_all add: binotab_zero_def)
  have t1: "k \<le> 262 \<Longrightarrow> length (fold (\<lambda>n t. tab_set t n 0 one256) [0..<k] binotab_zero) = 262 \<and>
      (\<forall>i<262. length (fold (\<lambda>n t. tab_set t n 0 one256) [0..<k] binotab_zero ! i) = 132 \<and>
        (\<forall>j<132. fold (\<lambda>n t. tab_set t n 0 one256) [0..<k] binotab_zero ! i ! j =
          (if j = 0 \<and> i < k then one256 else zero256)))" for k
    by (induction k) (auto simp: z tab_set_lengths tab_set_nth)
  have t1': "length t1 = 262" "\<And>i. i < 262 \<Longrightarrow> length (t1 ! i) = 132"
    "\<And>i j. i < 262 \<Longrightarrow> j < 132 \<Longrightarrow> t1 ! i ! j = (if j = 0 then one256 else zero256)"
    using t1 [of 262] by (simp_all add: t1_def del: upt_rec_numeral)
  have t2: "k \<le> 132 \<Longrightarrow> length (fold (\<lambda>n t. tab_set t n n one256) [0..<k] t1) = 262 \<and>
      (\<forall>i<262. length (fold (\<lambda>n t. tab_set t n n one256) [0..<k] t1 ! i) = 132 \<and>
        (\<forall>j<132. fold (\<lambda>n t. tab_set t n n one256) [0..<k] t1 ! i ! j =
          (if j = 0 \<or> j = i \<and> i < k then one256 else zero256)))" for k
    by (induction k) (auto simp: t1' tab_set_lengths tab_set_nth)
  have t2': "length t2 = 262" "\<And>i. i < 262 \<Longrightarrow> length (t2 ! i) = 132"
    "\<And>i j. i < 262 \<Longrightarrow> j < 132 \<Longrightarrow> t2 ! i ! j = (if j = 0 \<or> j = i then one256 else zero256)"
    using t2 [of 132] by (simp_all add: t2_def del: upt_rec_numeral)
  have r1: "rows_done 1 1 t2"
    using t2' by (auto simp: rows_done_def entry_ok_def num256_const)
  have r2: "1 \<le> k \<Longrightarrow> k \<le> 132 \<Longrightarrow> rows_done k 1 (fold (\<lambda>n t. fold (tab_add n) [1..<n] t) [1..<k] t2)" for k
  proof (induction k)
    case (Suc k)
    show ?case
    proof (cases "k = 0")
      case True
      then show ?thesis using r1 by simp
    next
      case False
      then have "rows_done k k (fold (tab_add k) [1..<k] (fold (\<lambda>n t. fold (tab_add n) [1..<n] t) [1..<k] t2))"
        using Suc by (intro tab_add_fold) simp_all
      then show ?thesis using False Suc.prems rows_done_next [of k k] by simp
    qed
  qed simp
  define t3 where "t3 = fold (\<lambda>n t. fold (tab_add n) [1..<n] t) [1..<132] t2"
  have r3: "132 \<le> k \<Longrightarrow> k \<le> 262 \<Longrightarrow> rows_done k 1 (fold (\<lambda>n t. fold (tab_add n) [1..<132] t) [132..<k] t3)" for k
  proof (induction k)
    case (Suc k)
    show ?case
    proof (cases "k < 132")
      case True
      then have "Suc k = 132" using Suc.prems by simp
      then show ?thesis using r2 [of 132] by (simp add: t3_def del: upt_rec_numeral)
    next
      case False
      then have "rows_done k 132 (fold (tab_add k) [1..<132] (fold (\<lambda>n t. fold (tab_add n) [1..<132] t) [132..<k] t3))"
        using Suc by (intro tab_add_fold) simp_all
      then show ?thesis using False Suc.prems rows_done_next [of k 132] by (simp del: upt_rec_numeral)
    qed
  qed simp
  show ?thesis
    using r3 [of 262] unfolding set_binotable_def Let_def t1_def [symmetric] t2_def [symmetric] t3_def [symmetric]
    by (simp del: upt_rec_numeral)
qed

lemma binotable_entry:
  assumes "n < 262" and "m < 132"
  shows "num256 (set_binotable binotab_zero ! n ! m) = n choose m" and "length (set_binotable binotab_zero ! n ! m) = 5"
  using set_binotable_rows assms by (auto simp: rows_done_def entry_ok_def)

subsection \<open>Numbers in base 4\<close>

text \<open>Least significant digit first.\<close>

datatype quad = QE | Q0 quad | Q1 quad | Q2 quad | Q3 quad

fun quad_num :: "quad \<Rightarrow> nat" where
  "quad_num QE = 0" | "quad_num (Q0 x) = 4 * quad_num x" | "quad_num (Q1 x) = 4 * quad_num x + 1"
| "quad_num (Q2 x) = 4 * quad_num x + 2" | "quad_num (Q3 x) = 4 * quad_num x + 3"

fun qinc :: "quad \<Rightarrow> quad" where
  "qinc QE = Q1 QE" | "qinc (Q0 x) = Q1 x" | "qinc (Q1 x) = Q2 x" | "qinc (Q2 x) = Q3 x" | "qinc (Q3 x) = Q0 (qinc x)"

text \<open>Addition without and with a carry.\<close>

fun qadd :: "quad \<Rightarrow> quad \<Rightarrow> quad" and qadc :: "quad \<Rightarrow> quad \<Rightarrow> quad" where
  "qadd QE y = y" | "qadd (Q0 x) QE = Q0 x" | "qadd (Q0 x) (Q0 y) = Q0 (qadd x y)"
| "qadd (Q0 x) (Q1 y) = Q1 (qadd x y)" | "qadd (Q0 x) (Q2 y) = Q2 (qadd x y)"
| "qadd (Q0 x) (Q3 y) = Q3 (qadd x y)" | "qadd (Q1 x) QE = Q1 x" | "qadd (Q1 x) (Q0 y) = Q1 (qadd x y)"
| "qadd (Q1 x) (Q1 y) = Q2 (qadd x y)" | "qadd (Q1 x) (Q2 y) = Q3 (qadd x y)"
| "qadd (Q1 x) (Q3 y) = Q0 (qadc x y)" | "qadd (Q2 x) QE = Q2 x" | "qadd (Q2 x) (Q0 y) = Q2 (qadd x y)"
| "qadd (Q2 x) (Q1 y) = Q3 (qadd x y)" | "qadd (Q2 x) (Q2 y) = Q0 (qadc x y)"
| "qadd (Q2 x) (Q3 y) = Q1 (qadc x y)" | "qadd (Q3 x) QE = Q3 x" | "qadd (Q3 x) (Q0 y) = Q3 (qadd x y)"
| "qadd (Q3 x) (Q1 y) = Q0 (qadc x y)" | "qadd (Q3 x) (Q2 y) = Q1 (qadc x y)"
| "qadd (Q3 x) (Q3 y) = Q2 (qadc x y)" | "qadc QE y = qinc y" | "qadc (Q0 x) QE = qinc (Q0 x)"
| "qadc (Q0 x) (Q0 y) = Q1 (qadd x y)" | "qadc (Q0 x) (Q1 y) = Q2 (qadd x y)"
| "qadc (Q0 x) (Q2 y) = Q3 (qadd x y)" | "qadc (Q0 x) (Q3 y) = Q0 (qadc x y)" | "qadc (Q1 x) QE = qinc (Q1 x)"
| "qadc (Q1 x) (Q0 y) = Q2 (qadd x y)" | "qadc (Q1 x) (Q1 y) = Q3 (qadd x y)"
| "qadc (Q1 x) (Q2 y) = Q0 (qadc x y)" | "qadc (Q1 x) (Q3 y) = Q1 (qadc x y)" | "qadc (Q2 x) QE = qinc (Q2 x)"
| "qadc (Q2 x) (Q0 y) = Q3 (qadd x y)" | "qadc (Q2 x) (Q1 y) = Q0 (qadc x y)"
| "qadc (Q2 x) (Q2 y) = Q1 (qadc x y)" | "qadc (Q2 x) (Q3 y) = Q2 (qadc x y)" | "qadc (Q3 x) QE = qinc (Q3 x)"
| "qadc (Q3 x) (Q0 y) = Q0 (qadc x y)" | "qadc (Q3 x) (Q1 y) = Q1 (qadc x y)"
| "qadc (Q3 x) (Q2 y) = Q2 (qadc x y)" | "qadc (Q3 x) (Q3 y) = Q3 (qadc x y)"

lemma quad_num_inc [simp]: "quad_num (qinc x) = quad_num x + 1"
  by (induction x) simp_all

lemma quad_num_add [simp]:
  "quad_num (qadd x y) = quad_num x + quad_num y"
  "quad_num (qadc x y) = quad_num x + quad_num y + 1"
  by (induction x y and x y rule: qadd_qadc.induct) simp_all

text \<open>No run of \<open>l + 1\<close> digits 3; \<open>c\<close> counts what is left of the current run.\<close>

fun no_run :: "nat \<Rightarrow> nat \<Rightarrow> quad \<Rightarrow> bool" where
  "no_run l c QE = True" | "no_run l c (Q0 x) = no_run l l x" | "no_run l c (Q1 x) = no_run l l x"
| "no_run l c (Q2 x) = no_run l l x" | "no_run l 0 (Q3 x) = False" | "no_run l (Suc c) (Q3 x) = no_run l c x"

lemma quad_digit:
  "quad_num (Q0 x) div 4 = quad_num x" "quad_num (Q1 x) div 4 = quad_num x" "quad_num (Q2 x) div 4 = quad_num x"
  "quad_num (Q3 x) div 4 = quad_num x" "quad_num (Q0 x) mod 4 = 0" "quad_num (Q1 x) mod 4 = 1"
  "quad_num (Q2 x) mod 4 = 2" "quad_num (Q3 x) mod 4 = 3" "quad_num QE = 0"
  by (simp_all; presburger)+

lemma no_run_digit: "no_run l c x \<Longrightarrow> \<exists>j\<le>c. (quad_num x div 4 ^ j) mod 4 \<noteq> 3"
proof (induction l c x rule: no_run.induct)
  case (6 l c x)
  then obtain j where "j \<le> c" "(quad_num x div 4 ^ j) mod 4 \<noteq> 3" by auto
  then show ?case by (intro exI [of _ "Suc j"]) (simp add: div_mult2_eq quad_digit del: quad_num.simps(2-5))
qed (auto intro!: exI [of _ 0] simp: quad_digit simp del: quad_num.simps(2-5))

lemma no_run_mono: "no_run l c x \<Longrightarrow> c \<le> d \<Longrightarrow> no_run l d x"
proof (induction l c x arbitrary: d rule: no_run.induct)
  case (6 l c x)
  then show ?case by (cases d) auto
qed auto

lemma no_run_drop: "no_run l c x \<Longrightarrow> c \<le> l \<Longrightarrow> \<exists>y. quad_num y = quad_num x div 4 ^ k \<and> no_run l l y"
proof (induction k arbitrary: x c)
  case 0
  then show ?case using no_run_mono by (intro exI [of _ x]) auto
next
  case (Suc k)
  have "\<exists>y d. quad_num y = quad_num x div 4 \<and> no_run l d y \<and> d \<le> l"
  proof (cases x)
    case QE
    then show ?thesis by (intro exI [of _ QE] exI [of _ l]) simp
  next
    case (Q3 y)
    then obtain d where "c = Suc d" using Suc.prems(1) by (cases c) simp_all
    then show ?thesis
      using Suc.prems Q3 by (intro exI [of _ y] exI [of _ d]) (simp add: quad_digit del: quad_num.simps(2-5))
  qed (use Suc.prems in \<open>auto simp: quad_digit simp del: quad_num.simps(2-5)\<close>)
  then obtain y d where "quad_num y = quad_num x div 4" "no_run l d y" "d \<le> l" by blast
  then show ?case using Suc.IH [of d y] by (auto simp: div_mult2_eq)
qed


subsection \<open>The coefficients, row by row\<close>

text \<open>The numbers \<open>(j + m) choose j\<close> for \<open>m\<close> from \<open>j\<close> to 131 are the \<open>j\<close>-th row; every row follows from the
  one before.\<close>

fun quad_sums :: "quad \<Rightarrow> quad list \<Rightarrow> quad list" where
  "quad_sums a [] = []"
| "quad_sums a (z # zs) = (let b = qadd a z in b # quad_sums b zs)"

fun next_row :: "quad list \<Rightarrow> quad list" where
  "next_row (x # y # ys) = (let a = qadd y y in a # quad_sums a ys)"
| "next_row xs = []"

fun rows_ok :: "nat \<Rightarrow> nat \<Rightarrow> quad list \<Rightarrow> bool" where
  "rows_ok 0 n r = True"
| "rows_ok (Suc k) n r = ((if n = 0 then list_all (no_run 30 30) r else True) \<and> rows_ok k (n - 1) (next_row r))"

text \<open>All the coefficients with \<open>j\<close> and \<open>m\<close> below 132, computed.\<close>

lemma coefficients_checked: "rows_ok 132 0 (replicate 132 (Q1 QE))"
  by code_simp
end
