(* ===== verification/Binomial_Full.thy ===== *)
theory Binomial_Full
  imports Binomial_Table
begin

text \<open>
  No binomial coefficient that \<open>cff\<close> subtracts has a word with all bits set above its lowest word: the computed check of
  the coefficients carried over to the table.
\<close>

definition row_is :: "nat \<Rightarrow> quad list \<Rightarrow> bool" where
  "row_is j r \<longleftrightarrow> (\<forall>i < length r. quad_num (r ! i) = (2 * j + i) choose j)"

lemma length_quad_sums [simp]: "length (quad_sums a zs) = length zs"
  by (induction zs arbitrary: a) (simp_all add: Let_def)

lemma quad_sums_nth:
  "i < length zs \<Longrightarrow> quad_num (quad_sums a zs ! i) = quad_num a + (\<Sum>j\<le>i. quad_num (zs ! j))"
proof (induction zs arbitrary: a i)
  case (Cons z zs)
  show ?case
  proof (cases i)
    case (Suc k)
    then show ?thesis using Cons by (simp add: Let_def sum.atMost_shift lessThan_Suc_atMost [symmetric] sum.lessThan_Suc_shift del: sum.lessThan_Suc)
  qed (simp add: Let_def)
qed simp

lemma next_row_is:
  assumes "row_is j r"
  shows "row_is (Suc j) (next_row r)" and "length (next_row r) = length r - 1"
proof -
  show "length (next_row r) = length r - 1" by (cases r rule: next_row.cases) (simp_all add: Let_def)
  show "row_is (Suc j) (next_row r)"
  proof (cases r rule: next_row.cases)
    case (1 x y ys)
    have y: "quad_num y = (2 * j + 1) choose j" using assms 1 by (auto simp: row_is_def dest: spec [of _ 1])
    have ys: "quad_num (ys ! i) = (2 * j + i + 2) choose j" if "i < length ys" for i
      using assms 1 that by (auto simp: row_is_def dest!: spec [of _ "i + 2"])
    have c: "(2 * j + 1) choose (Suc j) = (2 * j + 1) choose j"
      using binomial_symmetric [of "Suc j" "2 * j + 1"] by simp
    have d: "2 * quad_num y = (2 * j + 2) choose (Suc j)" using y c by simp
    have s: "i < length ys \<Longrightarrow> 2 * quad_num y + (\<Sum>k\<le>i. quad_num (ys ! k)) = (2 * j + i + 3) choose (Suc j)" for i
    proof (induction i)
      case 0
      then show ?case using d ys [of 0] binomial_Suc_Suc [of "2 * j + 2" j] by (simp add: eval_nat_numeral)
    next
      case (Suc i)
      then show ?case using ys [of "Suc i"] binomial_Suc_Suc [of "2 * j + i + 3" j] by (simp add: eval_nat_numeral)
    qed
    show ?thesis
      unfolding row_is_def
    proof (intro allI impI)
      fix i assume i: "i < length (next_row r)"
      show "quad_num (next_row r ! i) = (2 * Suc j + i) choose Suc j"
      proof (cases i)
        case 0
        then show ?thesis using 1 d by (simp add: Let_def)
      next
        case (Suc k)
        then show ?thesis using 1 i s [of k] quad_sums_nth [of k ys "qadd y y"]
          by (simp add: Let_def eval_nat_numeral)
      qed
    qed
  qed (simp_all add: row_is_def)
qed

lemma rows_ok_run:
  assumes "rows_ok k 0 r" and "row_is j r" and "length r = 132 - j" and "j + d < 132" and "d < k" and "i < 132 - (j + d)"
  shows "\<exists>x. quad_num x = ((2 * (j + d) + i) choose (j + d)) \<and> no_run 30 30 x"
  using assms
proof (induction k arbitrary: j d r)
  case (Suc k)
  show ?case
  proof (cases d)
    case 0
    then have "no_run 30 30 (r ! i)" using Suc.prems by (simp add: list_all_length)
    then show ?thesis using Suc.prems 0 by (intro exI [of _ "r ! i"]) (simp add: row_is_def)
  next
    case (Suc e)
    then show ?thesis using Suc.IH [of "next_row r" "Suc j" e] Suc.prems next_row_is [of j r] by simp
  qed
qed simp

lemma coefficient_run:
  assumes "a < 132" and "b < 132"
  shows "\<exists>x. quad_num x = ((a + b) choose a) \<and> no_run 30 30 x"
proof -
  have s: "\<exists>x. quad_num x = ((a + b) choose a) \<and> no_run 30 30 x" if "a \<le> b" "b < 132" for a b
  proof -
    have r: "row_is 0 (replicate 132 (Q1 QE))" by (simp add: row_is_def)
    have "2 * a + (b - a) = a + b" using that by simp
    then show ?thesis using rows_ok_run [OF coefficients_checked r, of a "b - a"] that by (simp)
  qed
  show ?thesis
  proof (cases "a \<le> b")
    case False
    then show ?thesis using s [of b a] assms binomial_symmetric [of a "a + b"] by (simp add: add.commute)
  qed (use s assms in blast)
qed

lemma full_digits: "(n::nat) mod 4 ^ 32 = 4 ^ 32 - 1 \<Longrightarrow> j < 32 \<Longrightarrow> n div 4 ^ j mod 4 = 3"
proof -
  assume n: "n mod 4 ^ 32 = 4 ^ 32 - 1" and j: "j < 32"
  have ones: "(4 ^ (j + Suc k) - 1) div 4 ^ j mod 4 = (3 :: nat)" for k
  proof -
    have "(4::nat) ^ (j + Suc k) - 1 = 4 ^ j * (4 ^ Suc k - 1) + (4 ^ j - 1)"
      by (simp add: power_add diff_mult_distrib2)
    moreover have "4 ^ j - 1 < (4::nat) ^ j" by simp
    ultimately have "((4::nat) ^ (j + Suc k) - 1) div 4 ^ j = 4 ^ Suc k - 1"
      by (metis div_less div_mult_self4 add.right_neutral add.commute power_not_zero zero_neq_numeral)
    moreover have "4 ^ Suc k - 1 = 4 * (4 ^ k - 1) + (3::nat)" by (simp add: diff_mult_distrib2)
    ultimately show ?thesis by simp
  qed
  obtain k where k: "32 = j + Suc k" using j by (metis less_iff_Suc_add add_Suc_right)
  have "n mod 4 ^ 32 div 4 ^ j mod 4 = n div 4 ^ j mod 4"
  proof -
    have "(4::nat) ^ 32 = 4 ^ j * 4 ^ Suc k" by (simp only: k power_add)
    then have "n mod 4 ^ 32 div 4 ^ j = n div 4 ^ j mod 4 ^ Suc k"
      by (simp only: mod_mult2_eq) simp
    then show ?thesis by (simp only: mod_mod_cancel dvd_power) (simp add: mod_mod_cancel)
  qed
  then show ?thesis using n ones [of k] k by simp
qed

lemma num256_word: "i < length xs \<Longrightarrow> num256 xs div 2 ^ (64 * i) mod 2 ^ 64 = unat (xs ! i)"
proof (induction xs arbitrary: i)
  case (Cons x xs)
  show ?case
  proof (cases i)
    case (Suc k)
    then show ?thesis using Cons unat_u64_less [of x] by (simp add: power_add div_mult2_eq)
  qed (use unat_u64_less [of x] in simp)
qed simp

lemma no_run_no_full:
  assumes "quad_num q = num256 x" and "no_run 30 30 q" and "length x = 5"
  shows "no_full x"
proof -
  have "x ! i \<noteq> m64" if i: "i < 5" for i
  proof
    assume "x ! i = m64"
    then have "num256 x div 2 ^ (64 * i) mod 2 ^ 64 = 2 ^ 64 - 1" using num256_word [of i x] assms(3) i by (simp add: m64_def)
    moreover have "(2::nat) ^ (64 * i) = 4 ^ (32 * i)" using power_mult [of "2::nat" 2 "32 * i"] by simp
    ultimately have f: "num256 x div 4 ^ (32 * i) mod 4 ^ 32 = 4 ^ 32 - 1" by simp
    obtain y where y: "quad_num y = num256 x div 4 ^ (32 * i)" "no_run 30 30 y"
      using no_run_drop [OF assms(2), of "32 * i"] assms(1) by auto
    obtain j where "j \<le> 30" "quad_num y div 4 ^ j mod 4 \<noteq> 3" using no_run_digit [OF y(2)] by blast
    then show False using full_digits [OF f, of j] y(1) by simp
  qed
  then show ?thesis by (simp add: no_full_def)
qed

text \<open>The entries of the table that the loop of \<open>cff\<close> subtracts.\<close>

lemma binotable_no_full:
  assumes "n < 262" and "m < 132" and "n \<le> m + 131" and "m \<le> n"
  shows "no_full (set_binotable binotab_zero ! n ! m)"
proof -
  obtain q where "quad_num q = n choose m" "no_run 30 30 q"
    using coefficient_run [of m "n - m"] assms by (auto simp: less_diff_conv2)
  then show ?thesis using binotable_entry [OF assms(1,2)] by (intro no_run_no_full [of q]) simp_all
qed

end
