(* ===== verification/Cff.thy ===== *)
theory Cff
  imports Binomial_Full
begin

text \<open>
  \<open>cff\<close> of \<open>k2sn/1cff.c\<close>: the 131 component keys, out of 262, that sign a message. The message is read as a
  number and unranked into a subset. The subsets of different messages do not contain each other (the
  family is 1-cover-free), which is what the one-time signature rests on.
\<close>

subsection \<open>The loops\<close>

text \<open>The inner loop. \<open>None\<close> is an access in front of the table.\<close>

function cff_while :: "u256 list list \<Rightarrow> nat \<Rightarrow> u256 \<Rightarrow> nat \<Rightarrow> (u256 \<times> nat) option" where
  "cff_while tab k msg q =
     (if 262 < q then None
      else if isgteq msg (tab ! (262 - q) ! k) then cff_while tab k (sub256 msg (tab ! (262 - q) ! k)) (q + 1)
      else Some (msg, q))"
  by pat_completeness auto
termination by (relation "measure (\<lambda>(tab, k, msg, q). 263 - q)") auto

declare cff_while.simps [simp del]

primrec cff_loop :: "u256 list list \<Rightarrow> nat list \<Rightarrow> u256 \<Rightarrow> nat \<Rightarrow> nat list \<Rightarrow> (u256 \<times> nat list) option" where
  "cff_loop tab [] msg q component_key = Some (msg, component_key)"
| "cff_loop tab (i # is) msg q component_key = do {
     (msg, q) \<leftarrow> cff_while tab (131 - i) msg q;
     cff_loop tab is msg (q + 1) (component_key[i - 1 := q - 1])
   }"

definition cff :: "u256 list list \<Rightarrow> u256 \<Rightarrow> nat list \<Rightarrow> (u256 \<times> nat list) option" where
  "cff tab msg component_key = cff_loop tab [1..<132] msg 1 component_key"

text \<open>The keys of a message, with the table filled and the array of the last call.\<close>

definition message_keys :: "bytes \<Rightarrow> nat list \<Rightarrow> nat list option" where
  "message_keys ms component_key = map_option snd (cff (set_binotable binotab_zero) (convert_u82u256 ms) component_key)"

subsection \<open>The number of a list of keys\<close>

text \<open>The coefficients of the elements left out, from element \<open>q - 1\<close> on; \<open>k\<close> elements follow the next one.\<close>

fun keys_number :: "nat \<Rightarrow> nat \<Rightarrow> nat list \<Rightarrow> nat" where
  "keys_number k q [] = 0"
| "keys_number k q (c # cs) = (\<Sum>j = q..<c + 1. (262 - j) choose k) + keys_number (k - 1) (c + 2) cs"

lemma cff_while_step:
  assumes "q \<le> 262" and "1 \<le> q" and "k \<le> 130" and "262 - q \<le> k + 131" and "length msg = 5"
    and "num256 msg < (263 - q) choose (k + 1)"
  shows "\<exists>msg' q'. cff_while (set_binotable binotab_zero) k msg q = Some (msg', q') \<and> q \<le> q' \<and> q' \<le> 262 \<and>
    length msg' = 5 \<and> num256 msg' < (262 - q') choose k \<and>
    num256 msg = (\<Sum>j = q..<q'. (262 - j) choose k) + num256 msg'"
  using assms
proof (induction "263 - q" arbitrary: q msg rule: less_induct)
  case less
  let ?b = "set_binotable binotab_zero ! (262 - q) ! k"
  have q: "263 - q = Suc (262 - q)" using less.prems by simp
  have b: "num256 ?b = (262 - q) choose k" "length ?b = 5" using binotable_entry [of "262 - q" k] less.prems by simp_all
  have g: "isgteq msg ?b \<longleftrightarrow> (262 - q) choose k \<le> num256 msg" using isgteq_num [of msg ?b] less.prems b by simp
  show ?case
  proof (cases "isgteq msg ?b")
    case True
    then have m: "num256 msg - ((262 - q) choose k) < (262 - q) choose (k + 1)" using g less.prems(6) by (simp add: q)
    then have n: "k + 1 \<le> 262 - q" using binomial_eq_0 [of "262 - q" "k + 1"] by (metis not_le not_less_zero)
    have "no_full ?b" using less.prems n by (intro binotable_no_full) simp_all
    then have s: "num256 (sub256 msg ?b) = num256 msg - ((262 - q) choose k)" "length (sub256 msg ?b) = 5"
      using num256_sub [of msg ?b] less.prems(5) b g True by simp_all
    have i: "263 - (q + 1) < 263 - q" "q + 1 \<le> 262" "1 \<le> q + 1" "262 - (q + 1) \<le> k + 131" using less.prems n by simp_all
    have "num256 (sub256 msg ?b) < (263 - (q + 1)) choose (k + 1)" using m s(1) by simp
    then obtain msg' q' where r: "cff_while (set_binotable binotab_zero) k (sub256 msg ?b) (q + 1) = Some (msg', q')"
      "q + 1 \<le> q'" "q' \<le> 262" "length msg' = 5" "num256 msg' < (262 - q') choose k"
      "num256 (sub256 msg ?b) = (\<Sum>j = q + 1..<q'. (262 - j) choose k) + num256 msg'"
      using less.hyps [OF i(1,2,3) less.prems(3) i(4) s(2)] by blast
    have "num256 msg = (\<Sum>j = q..<q'. (262 - j) choose k) + num256 msg'"
      using r(2,6) s(1) g True by (simp add: sum.atLeast_Suc_lessThan)
    then show ?thesis using r True less.prems(1) by (subst cff_while.simps) simp
  next
    case False
    then show ?thesis using g less.prems by (subst cff_while.simps) simp
  qed
qed

lemma cff_loop_step:
  assumes "length component_key = 131" and "1 \<le> i" and "i \<le> 132" and "i \<le> q" and "length msg = 5"
    and "q + (132 - i) \<le> 263" and "num256 msg < (263 - q) choose (132 - i)"
  shows "\<exists>cs. map_option snd (cff_loop (set_binotable binotab_zero) [i..<132] msg q component_key) = Some (take (i - 1) component_key @ cs) \<and>
    length cs = 132 - i \<and> sorted_wrt (<) cs \<and> set cs \<subseteq> {q - 1..<262} \<and> keys_number (131 - i) q cs = num256 msg"
  using assms
proof (induction "132 - i" arbitrary: i q msg component_key)
  case 0
  then show ?case by simp
next
  case (Suc d)
  have i: "[i..<132] = i # [Suc i..<132]" "132 - i = Suc (131 - i)" using Suc.hyps(2) by (simp_all add: upt_conv_Cons)
  have "q \<le> 262" "262 - q \<le> (131 - i) + 131" "131 - i \<le> 130" using Suc.prems Suc.hyps(2) by linarith+
  then obtain msg' q' where w: "cff_while (set_binotable binotab_zero) (131 - i) msg q = Some (msg', q')" "q \<le> q'" "q' \<le> 262"
    "length msg' = 5" "num256 msg' < (262 - q') choose (131 - i)"
    "num256 msg = (\<Sum>j = q..<q'. (262 - j) choose (131 - i)) + num256 msg'"
    using cff_while_step [of q "131 - i" msg] Suc.prems i(2) by auto
  have n: "131 - i \<le> 262 - q'" using w(5) binomial_eq_0 [of "262 - q'" "131 - i"] by (metis not_le not_less_zero)
  have d: "d = 132 - Suc i" "263 - (q' + 1) = 262 - q'" "132 - Suc i = 131 - i" "131 - Suc i = 130 - i" using Suc.hyps(2) by simp_all
  have j: "1 \<le> Suc i" "Suc i \<le> 132" "Suc i \<le> q' + 1" "q' + 1 + (132 - Suc i) \<le> 263"
    using Suc.prems Suc.hyps(2) w(2,3) n by linarith+
  then obtain cs where c: "map_option snd (cff_loop (set_binotable binotab_zero) [Suc i..<132] msg' (q' + 1) (component_key[i - 1 := q' - 1])) =
      Some (take i (component_key[i - 1 := q' - 1]) @ cs)"
    "length cs = 131 - i" "sorted_wrt (<) cs" "set cs \<subseteq> {q'..<262}" "keys_number (130 - i) (q' + 1) cs = num256 msg'"
    using Suc.hyps(1) [OF d(1) _ j(1-3) w(4) j(4), of "component_key[i - 1 := q' - 1]"] w(5) Suc.prems(1)
    unfolding d(2-4) diff_Suc_1 add_diff_cancel_right' by auto
  have t: "take i (component_key[i - 1 := q' - 1]) = take (i - 1) component_key @ [q' - 1]"
  proof -
    obtain k where k: "i = Suc k" using Suc.prems(2) by (cases i) simp_all
    then have "k < length component_key" using Suc.prems Suc.hyps(2) by simp
    then show ?thesis by (simp add: k take_Suc_conv_app_nth)
  qed
  have q1: "q' - 1 + 1 = q'" "q' - 1 + 2 = q' + 1" "130 - i = 131 - i - 1" using Suc.prems w(2) by simp_all
  show ?case
  proof (intro exI [of _ "(q' - 1) # cs"] conjI)
    show "map_option snd (cff_loop (set_binotable binotab_zero) [i..<132] msg q component_key) = Some (take (i - 1) component_key @ (q' - 1) # cs)"
      using c(1) t by (simp add: i(1) w(1))
    show "length ((q' - 1) # cs) = 132 - i" using c(2) i(2) by simp
    have r: "q - 1 \<le> q' - 1" "q' - 1 < q'" "q' \<le> 262" using Suc.prems w(2,3) by linarith+
    show "sorted_wrt (<) ((q' - 1) # cs)" using c(3,4) r by fastforce
    show "set ((q' - 1) # cs) \<subseteq> {q - 1..<262}" using c(4) r by fastforce
    show "keys_number (131 - i) q ((q' - 1) # cs) = num256 msg" by (simp only: keys_number.simps q1 c(5) [unfolded q1(3)] w(6))
  qed
qed

subsection \<open>Enough subsets\<close>

lemma central_binomial_square: "16 ^ n \<le> 4 * n * ((2 * n) choose n)\<^sup>2" if "1 \<le> n"
  using that
proof (induction n)
  case (Suc n)
  show ?case
  proof (cases "n = 0")
    case True
    then show ?thesis by (simp add: numeral_2_eq_2)
  next
    case False
    define c where "c = (2 * n) choose n"
    define c' where "c' = (2 * Suc n) choose (Suc n)"
    have "Suc n * c' = (2 * Suc n) * ((2 * n + 1) choose n)"
      using Suc_times_binomial_eq [of "2 * n + 1" n] by (simp add: c'_def)
    moreover have "Suc n * ((2 * n + 1) choose n) = (2 * n + 1) * c"
      using Suc_times_binomial_eq [of "2 * n" n] binomial_symmetric [of n "2 * n + 1"] by (simp add: c_def)
    ultimately have s: "Suc n * c' = 2 * ((2 * n + 1) * c)" by simp
    have "Suc n * 16 ^ Suc n \<le> Suc n * (16 * (4 * n * c\<^sup>2))"
      using Suc.IH False by (intro mult_left_mono) (simp_all add: c_def)
    also have "\<dots> \<le> 4 * (2 * ((2 * n + 1) * c))\<^sup>2" by (simp add: power2_eq_square algebra_simps)
    also have "\<dots> = Suc n * (4 * Suc n * c'\<^sup>2)" unfolding s [symmetric] by (simp only: power2_eq_square ac_simps)
    finally have "16 ^ Suc n \<le> 4 * Suc n * c'\<^sup>2" by (rule mult_le_cancel1 [THEN iffD1, rule_format]) simp
    then show ?thesis by (simp only: c'_def)
  qed
qed simp

lemma subsets_enough: "2 ^ 256 < 262 choose 131"
proof (rule ccontr)
  assume "\<not> ?thesis"
  then have "(262 choose 131)\<^sup>2 \<le> (2 ^ 256)\<^sup>2" by (intro power_mono) simp_all
  then show False using central_binomial_square [of 131] by simp
qed

subsection \<open>The keys of a message\<close>

lemma message_keys_number:
  assumes "length ms = 32" and "length component_key = 131"
  obtains cs where "message_keys ms component_key = Some cs" and "length cs = 131" and "sorted_wrt (<) cs"
    and "set cs \<subseteq> {..<262}" and "keys_number 130 1 cs = be_nat (rev ms)"
proof -
  have "num256 (convert_u82u256 ms) < 2 ^ 256"
    using num256_convert [OF assms(1)] be_nat_less [of "rev ms"] assms(1) by simp
  then have n: "num256 (convert_u82u256 ms) < 262 choose 131" using subsets_enough by (rule less_trans)
  have l: "length (convert_u82u256 ms) = 5" by (simp add: convert_u82u256_def)
  show ?thesis
    using cff_loop_step [of component_key 1 1 "convert_u82u256 ms"] n l assms(2) num256_convert [OF assms(1)] that
    by (auto simp: message_keys_def cff_def lessThan_atLeast0 simp del: upt_rec_numeral)
qed

text \<open>whatever the 32 bytes of the message and the old contents of the array, \<open>cff\<close> stays inside the
  table, stops, and selects 131 of the 262 component keys in increasing order; the message can be computed
  back from the selection.\<close>

lemma cff_selects:
  assumes "length ms = 32" and "length component_key = 131"
  shows "\<exists>cs. message_keys ms component_key = Some cs \<and> length cs = 131 \<and> sorted_wrt (<) cs \<and> set cs \<subseteq> {..<262} \<and>
    be_bytes 32 (keys_number 130 1 cs) = rev ms"
proof -
  obtain cs where c: "message_keys ms component_key = Some cs" "length cs = 131" "sorted_wrt (<) cs" "set cs \<subseteq> {..<262}"
    "keys_number 130 1 cs = be_nat (rev ms)" using message_keys_number [OF assms] .
  moreover have "be_bytes 32 (be_nat (rev ms)) = rev ms" using be_bytes_be_nat [of "rev ms"] assms(1) by simp
  ultimately show ?thesis by auto
qed

text \<open>C14: the selections are 1-cover-free: of different messages, none has all its component keys among
  those of the other. So the keys that the signature of one message reveals never include all the keys
  of another message.\<close>

theorem cff_cover_free:
  assumes "length ms = 32" and "length ms' = 32" and "length ck = 131" and "length ck' = 131" and "ms \<noteq> ms'"
    and "message_keys ms ck = Some cs" and "message_keys ms' ck' = Some cs'"
  shows "\<not> set cs \<subseteq> set cs'"
proof
  assume s: "set cs \<subseteq> set cs'"
  obtain ds where d: "message_keys ms ck = Some ds" "length ds = 131" "sorted_wrt (<) ds" "keys_number 130 1 ds = be_nat (rev ms)"
    using message_keys_number [OF assms(1,3)] by blast
  obtain ds' where d': "message_keys ms' ck' = Some ds'" "length ds' = 131" "sorted_wrt (<) ds'" "keys_number 130 1 ds' = be_nat (rev ms')"
    using message_keys_number [OF assms(2,4)] by blast
  have e: "ds = cs" "ds' = cs'" using d(1) d'(1) assms(6,7) by simp_all
  have "distinct cs" "distinct cs'" using d(3) d'(3) e by (simp_all add: strict_sorted_iff)
  then have "set cs = set cs'"
    using s d(2) d'(2) e by (metis List.finite_set card_subset_eq distinct_card)
  then have "cs = cs'" using d(3) d'(3) e strict_sorted_equal by blast
  then have "be_nat (rev ms) = be_nat (rev ms')" using d(4) d'(4) e by simp
  then have "rev ms = rev ms'" using be_bytes_be_nat [of "rev ms"] be_bytes_be_nat [of "rev ms'"] assms(1,2) by simp
  then show False using assms(5) by simp
qed

subsection \<open>Witnesses\<close>

lemma cff_selects_witness:
  "\<exists>cs. message_keys (replicate 32 7) (replicate 131 0) = Some cs \<and> length cs = 131 \<and> sorted_wrt (<) cs \<and> set cs \<subseteq> {..<262} \<and>
    be_bytes 32 (keys_number 130 1 cs) = rev (replicate 32 7)"
  by (rule cff_selects) simp_all

lemma cff_cover_free_witness:
  "\<exists>cs cs'. message_keys (replicate 32 0) (replicate 131 0) = Some cs \<and>
    message_keys (1 # replicate 31 0) (replicate 131 5) = Some cs' \<and> \<not> set cs \<subseteq> set cs'"
proof -
  obtain cs where c: "message_keys (replicate 32 0) (replicate 131 0) = Some cs"
    by (rule message_keys_number [of "replicate 32 0" "replicate 131 0"]) simp_all
  obtain cs' where c': "message_keys (1 # replicate 31 0) (replicate 131 5) = Some cs'"
    by (rule message_keys_number [of "1 # replicate 31 0" "replicate 131 5"]) simp_all
  have "replicate 32 0 \<noteq> (1 # replicate 31 0 :: bytes)" by (simp add: eval_nat_numeral)
  then have "\<not> set cs \<subseteq> set cs'" by (intro cff_cover_free [OF _ _ _ _ _ c c']) simp_all
  then show ?thesis using c c' by blast
qed

end
