(* ===== verification/ChaCha.thy ===== *)
theory ChaCha
  imports Prelude
begin

text \<open>
  The stream cipher of \<open>k2sn/ChaCha20\<close>: \<open>chacha.c\<close> with the vector loops of \<open>u8.h\<close> (eight blocks at a time),
  \<open>u4.h\<close> (four) and \<open>u1.h\<close> (one), which the build with \<open>-mavx2\<close> compiles in. A register is the list of its words,
  least significant first. The loops of \<open>u16.h\<close> and \<open>u16mask.h\<close> for AVX-512 are left out by that build and not
  modelled. That all this adds one key stream is proved in \<open>ChaCha_Stream\<close>.
\<close>

subsection \<open>Scalar code\<close>

definition U8TO32_LITTLE :: "bytes \<Rightarrow> u32" where
  "U8TO32_LITTLE p = ucast (p ! 0) OR push_bit 8 (ucast (p ! 1)) OR push_bit 16 (ucast (p ! 2)) OR push_bit 24 (ucast (p ! 3))"

definition U32TO8_LITTLE :: "u32 \<Rightarrow> bytes" where
  "U32TO8_LITTLE v = [ucast v, ucast (drop_bit 8 v), ucast (drop_bit 16 v), ucast (drop_bit 24 v)]"

definition ROTL32 :: "u32 \<Rightarrow> nat \<Rightarrow> u32" where
  "ROTL32 v n = push_bit n v OR drop_bit (32 - n) v"

definition quarterround :: "nat \<Rightarrow> nat \<Rightarrow> nat \<Rightarrow> nat \<Rightarrow> u32 list \<Rightarrow> u32 list" where
  "quarterround a b c d x =
     (let x = x[a := x ! a + x ! b]; x = x[d := ROTL32 (x ! d XOR x ! a) 16];
          x = x[c := x ! c + x ! d]; x = x[b := ROTL32 (x ! b XOR x ! c) 12];
          x = x[a := x ! a + x ! b]; x = x[d := ROTL32 (x ! d XOR x ! a) 8];
          x = x[c := x ! c + x ! d]; x = x[b := ROTL32 (x ! b XOR x ! c) 7] in x)"

definition double_round :: "u32 list \<Rightarrow> u32 list" where
  "double_round x =
     (let x = quarterround 0 4 8 12 x; x = quarterround 1 5 9 13 x;
          x = quarterround 2 6 10 14 x; x = quarterround 3 7 11 15 x;
          x = quarterround 0 5 10 15 x; x = quarterround 1 6 11 12 x;
          x = quarterround 2 7 8 13 x; x = quarterround 3 4 9 14 x in x)"

definition salsa20_wordtobyte :: "u32 list \<Rightarrow> bytes" where
  "salsa20_wordtobyte input =
     (let x = (double_round ^^ 10) input
      in concat (map2 (\<lambda>x i. U32TO8_LITTLE (x + i)) x input))"

subsection \<open>Set-up\<close>

definition sigma_const :: bytes where
  "sigma_const = map (\<lambda>c. of_nat (of_char c)) ''expand 32-byte k''"

definition tau_const :: bytes where
  "tau_const = map (\<lambda>c. of_nat (of_char c)) ''expand 16-byte k''"

definition ECRYPT_keysetup :: "u32 list \<Rightarrow> bytes \<Rightarrow> nat \<Rightarrow> u32 list" where
  "ECRYPT_keysetup x k kbits =
     (let x = x[4 := U8TO32_LITTLE k, 5 := U8TO32_LITTLE (drop 4 k), 6 := U8TO32_LITTLE (drop 8 k), 7 := U8TO32_LITTLE (drop 12 k)];
          (k, constants) = (if kbits = 256 then (drop 16 k, sigma_const) else (k, tau_const));
          x = x[8 := U8TO32_LITTLE k, 9 := U8TO32_LITTLE (drop 4 k), 10 := U8TO32_LITTLE (drop 8 k), 11 := U8TO32_LITTLE (drop 12 k)]
      in x[0 := U8TO32_LITTLE constants, 1 := U8TO32_LITTLE (drop 4 constants),
           2 := U8TO32_LITTLE (drop 8 constants), 3 := U8TO32_LITTLE (drop 12 constants)])"

definition ECRYPT_ivsetup :: "u32 list \<Rightarrow> bytes \<Rightarrow> u32 list" where
  "ECRYPT_ivsetup x iv = x[12 := 0, 13 := 0, 14 := U8TO32_LITTLE iv, 15 := U8TO32_LITTLE (drop 4 iv)]"

definition next_block :: "u32 list \<Rightarrow> u32 list" where
  "next_block x = (let x = x[12 := x ! 12 + 1] in if x ! 12 = 0 then x[13 := x ! 13 + 1] else x)"

text \<open>The loop at the end of \<open>ECRYPT_encrypt_bytes\<close>, for at least one byte.\<close>

function scalar_loop :: "u32 list \<Rightarrow> bytes \<Rightarrow> u32 list \<times> bytes" where
  "scalar_loop x m =
     (let output = salsa20_wordtobyte x; x' = next_block x in
      if length m \<le> 64 then (x', xor_bytes m (take (length m) output))
      else let (x'', out) = scalar_loop x' (drop 64 m) in (x'', xor_bytes (take 64 m) output @ out))"
  by pat_completeness auto
termination by (relation "measure (length \<circ> snd)") auto

declare scalar_loop.simps [simp del]

subsection \<open>The vector loop\<close>

definition add_epi32 :: "u32 list \<Rightarrow> u32 list \<Rightarrow> u32 list" where "add_epi32 a b = map2 (+) a b"
definition xor_si128 :: "u32 list \<Rightarrow> u32 list \<Rightarrow> u32 list" where "xor_si128 a b = map2 (XOR) a b"
definition slli_epi32 :: "u32 list \<Rightarrow> nat \<Rightarrow> u32 list" where "slli_epi32 a n = map (push_bit n) a"
definition srli_epi32 :: "u32 list \<Rightarrow> nat \<Rightarrow> u32 list" where "srli_epi32 a n = map (drop_bit n) a"

text \<open>Word \<open>i\<close> of the result is the word of \<open>a\<close> that bits \<open>2 i\<close> and \<open>2 i + 1\<close> of the mask select.\<close>

definition shuffle_epi32 :: "u32 list \<Rightarrow> nat \<Rightarrow> u32 list" where
  "shuffle_epi32 a imm = map (\<lambda>i. a ! (imm div 4 ^ i mod 4)) [0..<4]"

text \<open>Byte \<open>i\<close> of the result is byte \<open>idx ! i\<close> of \<open>a\<close>.\<close>

definition shuffle_epi8 :: "u32 list \<Rightarrow> nat list \<Rightarrow> u32 list" where
  "shuffle_epi8 a idx =
     (let bs = concat (map U32TO8_LITTLE a)
      in map (\<lambda>i. U8TO32_LITTLE (map (\<lambda>j. bs ! (idx ! (4 * i + j))) [0..<4])) [0..<4])"

definition rot16 :: "nat list" where
  "rot16 = rev [13, 12, 15, 14, 9, 8, 11, 10, 5, 4, 7, 6, 1, 0, 3, 2]"

definition rot8 :: "nat list" where
  "rot8 = rev [14, 13, 12, 15, 10, 9, 8, 11, 6, 5, 4, 7, 2, 1, 0, 3]"

definition u1_rounds :: "u32 list \<times> u32 list \<times> u32 list \<times> u32 list \<Rightarrow> u32 list \<times> u32 list \<times> u32 list \<times> u32 list" where
  "u1_rounds = (\<lambda>(x_0, x_1, x_2, x_3).
     let x_0 = add_epi32 x_0 x_1; x_3 = xor_si128 x_3 x_0; x_3 = shuffle_epi8 x_3 rot16;
         x_2 = add_epi32 x_2 x_3; x_1 = xor_si128 x_1 x_2;
         t_1 = x_1; x_1 = slli_epi32 x_1 12; t_1 = srli_epi32 t_1 20; x_1 = xor_si128 x_1 t_1;
         x_0 = add_epi32 x_0 x_1; x_3 = xor_si128 x_3 x_0; x_0 = shuffle_epi32 x_0 0x93; x_3 = shuffle_epi8 x_3 rot8;
         x_2 = add_epi32 x_2 x_3; x_3 = shuffle_epi32 x_3 0x4e; x_1 = xor_si128 x_1 x_2; x_2 = shuffle_epi32 x_2 0x39;
         t_1 = x_1; x_1 = slli_epi32 x_1 7; t_1 = srli_epi32 t_1 25; x_1 = xor_si128 x_1 t_1;
         x_0 = add_epi32 x_0 x_1; x_3 = xor_si128 x_3 x_0; x_3 = shuffle_epi8 x_3 rot16;
         x_2 = add_epi32 x_2 x_3; x_1 = xor_si128 x_1 x_2;
         t_1 = x_1; x_1 = slli_epi32 x_1 12; t_1 = srli_epi32 t_1 20; x_1 = xor_si128 x_1 t_1;
         x_0 = add_epi32 x_0 x_1; x_3 = xor_si128 x_3 x_0; x_0 = shuffle_epi32 x_0 0x39; x_3 = shuffle_epi8 x_3 rot8;
         x_2 = add_epi32 x_2 x_3; x_3 = shuffle_epi32 x_3 0x4e; x_1 = xor_si128 x_1 x_2; x_2 = shuffle_epi32 x_2 0x93;
         t_1 = x_1; x_1 = slli_epi32 x_1 7; t_1 = srli_epi32 t_1 25; x_1 = xor_si128 x_1 t_1
     in (x_0, x_1, x_2, x_3))"

definition loadu_si128 :: "bytes \<Rightarrow> u32 list" where
  "loadu_si128 p = map (\<lambda>i. U8TO32_LITTLE (drop (4 * i) p)) [0..<4]"

definition storeu_si128 :: "u32 list \<Rightarrow> bytes" where
  "storeu_si128 x = concat (map U32TO8_LITTLE x)"

definition u1_block :: "u32 list \<Rightarrow> bytes \<Rightarrow> bytes" where
  "u1_block x m =
     (let r0 = take 4 x; r1 = take 4 (drop 4 x); r2 = take 4 (drop 8 x); r3 = take 4 (drop 12 x);
          (x_0, x_1, x_2, x_3) = (u1_rounds ^^ 10) (r0, r1, r2, r3);
          x_0 = add_epi32 x_0 r0; x_1 = add_epi32 x_1 r1; x_2 = add_epi32 x_2 r2; x_3 = add_epi32 x_3 r3;
          x_0 = xor_si128 x_0 (loadu_si128 m); x_1 = xor_si128 x_1 (loadu_si128 (drop 16 m));
          x_2 = xor_si128 x_2 (loadu_si128 (drop 32 m)); x_3 = xor_si128 x_3 (loadu_si128 (drop 48 m))
      in storeu_si128 x_0 @ storeu_si128 x_1 @ storeu_si128 x_2 @ storeu_si128 x_3)"

text \<open>The while loop of \<open>u1.h\<close>: the state, what is written, and the bytes left over.\<close>

function u1_loop :: "u32 list \<Rightarrow> bytes \<Rightarrow> u32 list \<times> bytes \<times> bytes" where
  "u1_loop x m =
     (if 64 \<le> length m then
        let (x', out, rest) = u1_loop (next_block x) (drop 64 m) in (x', u1_block x m @ out, rest)
      else (x, [], m))"
  by pat_completeness auto
termination by (relation "measure (length \<circ> snd)") auto

declare u1_loop.simps [simp del]

subsection \<open>Four blocks at a time\<close>

definition unpacklo_epi32 :: "u32 list \<Rightarrow> u32 list \<Rightarrow> u32 list" where "unpacklo_epi32 a b = [a ! 0, b ! 0, a ! 1, b ! 1]"
definition unpackhi_epi32 :: "u32 list \<Rightarrow> u32 list \<Rightarrow> u32 list" where "unpackhi_epi32 a b = [a ! 2, b ! 2, a ! 3, b ! 3]"
definition unpacklo_epi64 :: "u32 list \<Rightarrow> u32 list \<Rightarrow> u32 list" where "unpacklo_epi64 a b = [a ! 0, a ! 1, b ! 0, b ! 1]"
definition unpackhi_epi64 :: "u32 list \<Rightarrow> u32 list \<Rightarrow> u32 list" where "unpackhi_epi64 a b = [a ! 2, a ! 3, b ! 2, b ! 3]"
definition or_si128 :: "u32 list \<Rightarrow> u32 list \<Rightarrow> u32 list" where "or_si128 a b = map2 (OR) a b"

text \<open>The two 64-bit halves of a register.\<close>

definition set_epi64x :: "u64 \<Rightarrow> u64 \<Rightarrow> u32 list" where
  "set_epi64x e1 e0 = [ucast e0, ucast (drop_bit 32 e0), ucast e1, ucast (drop_bit 32 e1)]"

definition add_epi64 :: "u32 list \<Rightarrow> u32 list \<Rightarrow> u32 list" where
  "add_epi64 a b =
     (let half = (\<lambda>v i. ucast (v ! i) OR push_bit 32 (ucast (v ! (i + 1))) :: u64)
      in set_epi64x (half a 2 + half b 2) (half a 0 + half b 0))"

definition vec4_rot :: "u32 list \<Rightarrow> nat \<Rightarrow> u32 list" where
  "vec4_rot a imm = or_si128 (slli_epi32 a imm) (srli_epi32 a (32 - imm))"

definition vec4_quarterround :: "nat \<Rightarrow> nat \<Rightarrow> nat \<Rightarrow> nat \<Rightarrow> u32 list list \<Rightarrow> u32 list list" where
  "vec4_quarterround a b c d x =
     (let x = x[a := add_epi32 (x ! a) (x ! b)]; t = xor_si128 (x ! d) (x ! a); x = x[d := shuffle_epi8 t rot16];
          x = x[c := add_epi32 (x ! c) (x ! d)]; t = xor_si128 (x ! b) (x ! c); x = x[b := vec4_rot t 12];
          x = x[a := add_epi32 (x ! a) (x ! b)]; t = xor_si128 (x ! d) (x ! a); x = x[d := shuffle_epi8 t rot8];
          x = x[c := add_epi32 (x ! c) (x ! d)]; t = xor_si128 (x ! b) (x ! c); x = x[b := vec4_rot t 7] in x)"

definition vec4_double_round :: "u32 list list \<Rightarrow> u32 list list" where
  "vec4_double_round x =
     (let x = vec4_quarterround 0 4 8 12 x; x = vec4_quarterround 1 5 9 13 x;
          x = vec4_quarterround 2 6 10 14 x; x = vec4_quarterround 3 7 11 15 x;
          x = vec4_quarterround 0 5 10 15 x; x = vec4_quarterround 1 6 11 12 x;
          x = vec4_quarterround 2 7 8 13 x; x = vec4_quarterround 3 4 9 14 x in x)"

definition counter64 :: "u32 list \<Rightarrow> u64" where
  "counter64 x = ucast (x ! 12) OR push_bit 32 (ucast (x ! 13))"

text \<open>Every register holds one word of the four states; the counters of the four states follow each other.\<close>

definition u4_orig :: "u32 list \<Rightarrow> u32 list list" where
  "u4_orig x =
     (let in1213 = counter64 x;
          t = set_epi64x in1213 in1213;
          x_12 = add_epi64 (set_epi64x 1 0) t; x_13 = add_epi64 (set_epi64x 3 2) t;
          t12 = unpacklo_epi32 x_12 x_13; t13 = unpackhi_epi32 x_12 x_13
      in (map (\<lambda>w. [w, w, w, w]) x)[12 := unpacklo_epi32 t12 t13, 13 := unpackhi_epi32 t12 t13])"

text \<open>\<open>ONEQUAD\<close>: the 16 bytes it writes into each of the four blocks.\<close>

definition onequad :: "u32 list list \<Rightarrow> u32 list list \<Rightarrow> nat \<Rightarrow> bytes \<Rightarrow> bytes list" where
  "onequad x orig a m =
     (let x_a = add_epi32 (x ! a) (orig ! a); x_b = add_epi32 (x ! (a + 1)) (orig ! (a + 1));
          x_c = add_epi32 (x ! (a + 2)) (orig ! (a + 2)); x_d = add_epi32 (x ! (a + 3)) (orig ! (a + 3));
          t_a = unpacklo_epi32 x_a x_b; t_b = unpacklo_epi32 x_c x_d;
          t_c = unpackhi_epi32 x_a x_b; t_d = unpackhi_epi32 x_c x_d
      in [storeu_si128 (xor_si128 (unpacklo_epi64 t_a t_b) (loadu_si128 m)),
          storeu_si128 (xor_si128 (unpackhi_epi64 t_a t_b) (loadu_si128 (drop 64 m))),
          storeu_si128 (xor_si128 (unpacklo_epi64 t_c t_d) (loadu_si128 (drop 128 m))),
          storeu_si128 (xor_si128 (unpackhi_epi64 t_c t_d) (loadu_si128 (drop 192 m)))])"

definition u4_block :: "u32 list \<Rightarrow> bytes \<Rightarrow> bytes" where
  "u4_block x m =
     (let orig = u4_orig x; v = (vec4_double_round ^^ 10) orig;
          q0 = onequad v orig 0 m; q1 = onequad v orig 4 (drop 16 m);
          q2 = onequad v orig 8 (drop 32 m); q3 = onequad v orig 12 (drop 48 m)
      in concat (map (\<lambda>j. q0 ! j @ q1 ! j @ q2 ! j @ q3 ! j) [0..<4]))"

definition u4_next :: "u32 list \<Rightarrow> u32 list" where
  "u4_next x = (let in1213 = counter64 x + 4 in x[12 := ucast in1213, 13 := ucast (drop_bit 32 in1213)])"

function u4_loop :: "u32 list \<Rightarrow> bytes \<Rightarrow> u32 list \<times> bytes \<times> bytes" where
  "u4_loop x m =
     (if 256 \<le> length m then
        let (x', out, rest) = u4_loop (u4_next x) (drop 256 m) in (x', u4_block x m @ out, rest)
      else (x, [], m))"
  by pat_completeness auto
termination by (relation "measure (length \<circ> snd)") auto

declare u4_loop.simps [simp del]

subsection \<open>The wide vector loop\<close>

text \<open>A 256-bit register is the list of its eight words; several instructions work on its two halves separately.\<close>

definition halfwise :: "(u32 list \<Rightarrow> u32 list \<Rightarrow> u32 list) \<Rightarrow> u32 list \<Rightarrow> u32 list \<Rightarrow> u32 list" where
  "halfwise f a b = f (take 4 a) (take 4 b) @ f (drop 4 a) (drop 4 b)"

definition mm256_shuffle_epi8 :: "u32 list \<Rightarrow> nat list \<Rightarrow> u32 list" where
  "mm256_shuffle_epi8 a idx = shuffle_epi8 (take 4 a) (take 16 idx) @ shuffle_epi8 (drop 4 a) (drop 16 idx)"

definition permute2x128 :: "u32 list \<Rightarrow> u32 list \<Rightarrow> nat \<Rightarrow> u32 list" where
  "permute2x128 a b imm =
     (let part = (\<lambda>k. [take 4 a, drop 4 a, take 4 b, drop 4 b] ! (k mod 4)) in part imm @ part (imm div 16))"

definition permutevar8x32 :: "u32 list \<Rightarrow> nat list \<Rightarrow> u32 list" where
  "permutevar8x32 a idx = map (\<lambda>i. a ! i) idx"

definition set4_epi64x :: "u64 \<Rightarrow> u64 \<Rightarrow> u64 \<Rightarrow> u64 \<Rightarrow> u32 list" where
  "set4_epi64x d c b a = set_epi64x b a @ set_epi64x d c"

definition loadu_si256 :: "bytes \<Rightarrow> u32 list" where
  "loadu_si256 p = map (\<lambda>i. U8TO32_LITTLE (drop (4 * i) p)) [0..<8]"

definition rot16_wide :: "nat list" where
  "rot16_wide = rev [13, 12, 15, 14, 9, 8, 11, 10, 5, 4, 7, 6, 1, 0, 3, 2, 13, 12, 15, 14, 9, 8, 11, 10, 5, 4, 7, 6, 1, 0, 3, 2]"

definition rot8_wide :: "nat list" where
  "rot8_wide = rev [14, 13, 12, 15, 10, 9, 8, 11, 6, 5, 4, 7, 2, 1, 0, 3, 14, 13, 12, 15, 10, 9, 8, 11, 6, 5, 4, 7, 2, 1, 0, 3]"

text \<open>\<open>VEC8_ROT\<close> and the four lines of a quarter round.\<close>

definition vec8_rot :: "u32 list \<Rightarrow> nat \<Rightarrow> u32 list" where
  "vec8_rot a imm = or_si128 (slli_epi32 a imm) (srli_epi32 a (32 - imm))"

fun vec8_line1 :: "nat \<times> nat \<times> nat \<times> nat \<Rightarrow> u32 list list \<Rightarrow> u32 list list" where
  "vec8_line1 (a, b, c, d) x =
     (let x = x[a := add_epi32 (x ! a) (x ! b)] in x[d := mm256_shuffle_epi8 (xor_si128 (x ! d) (x ! a)) rot16_wide])"

fun vec8_line2 :: "nat \<times> nat \<times> nat \<times> nat \<Rightarrow> u32 list list \<Rightarrow> u32 list list" where
  "vec8_line2 (a, b, c, d) x =
     (let x = x[c := add_epi32 (x ! c) (x ! d)] in x[b := vec8_rot (xor_si128 (x ! b) (x ! c)) 12])"

fun vec8_line3 :: "nat \<times> nat \<times> nat \<times> nat \<Rightarrow> u32 list list \<Rightarrow> u32 list list" where
  "vec8_line3 (a, b, c, d) x =
     (let x = x[a := add_epi32 (x ! a) (x ! b)] in x[d := mm256_shuffle_epi8 (xor_si128 (x ! d) (x ! a)) rot8_wide])"

fun vec8_line4 :: "nat \<times> nat \<times> nat \<times> nat \<Rightarrow> u32 list list \<Rightarrow> u32 list list" where
  "vec8_line4 (a, b, c, d) x =
     (let x = x[c := add_epi32 (x ! c) (x ! d)] in x[b := vec8_rot (xor_si128 (x ! b) (x ! c)) 7])"

text \<open>\<open>VEC8_ROUND_SEQ\<close>: each line for all four quarter rounds.\<close>

definition vec8_round :: "(nat \<times> nat \<times> nat \<times> nat) list \<Rightarrow> u32 list list \<Rightarrow> u32 list list" where
  "vec8_round qs x = fold vec8_line4 qs (fold vec8_line3 qs (fold vec8_line2 qs (fold vec8_line1 qs x)))"

definition vec8_double_round :: "u32 list list \<Rightarrow> u32 list list" where
  "vec8_double_round x =
     (let x = vec8_round [(0, 4, 8, 12), (1, 5, 9, 13), (2, 6, 10, 14), (3, 7, 11, 15)] x
      in vec8_round [(0, 5, 10, 15), (1, 6, 11, 12), (2, 7, 8, 13), (3, 4, 9, 14)] x)"

definition u8_orig :: "u32 list \<Rightarrow> u32 list list" where
  "u8_orig x =
     (let in1213 = counter64 x;
          t = set4_epi64x in1213 in1213 in1213 in1213;
          t12 = halfwise add_epi64 (set4_epi64x 3 2 1 0) t; t13 = halfwise add_epi64 (set4_epi64x 7 6 5 4) t;
          x_12 = halfwise unpacklo_epi32 t12 t13; x_13 = halfwise unpackhi_epi32 t12 t13;
          t12 = halfwise unpacklo_epi32 x_12 x_13; t13 = halfwise unpackhi_epi32 x_12 x_13;
          permute = rev [7, 6, 3, 2, 5, 4, 1, 0]
      in (map (replicate 8) x)[12 := permutevar8x32 t12 permute, 13 := permutevar8x32 t13 permute])"

text \<open>\<open>ONEQUAD_UNPCK\<close>: the registers \<open>x_a\<close> to \<open>x_d\<close>.\<close>

definition onequad_unpck :: "u32 list list \<Rightarrow> u32 list list \<Rightarrow> nat \<Rightarrow> u32 list list" where
  "onequad_unpck x orig a =
     (let x_a = add_epi32 (x ! a) (orig ! a); x_b = add_epi32 (x ! (a + 1)) (orig ! (a + 1));
          x_c = add_epi32 (x ! (a + 2)) (orig ! (a + 2)); x_d = add_epi32 (x ! (a + 3)) (orig ! (a + 3));
          t_a = halfwise unpacklo_epi32 x_a x_b; t_b = halfwise unpacklo_epi32 x_c x_d;
          t_c = halfwise unpackhi_epi32 x_a x_b; t_d = halfwise unpackhi_epi32 x_c x_d
      in [halfwise unpacklo_epi64 t_a t_b, halfwise unpackhi_epi64 t_a t_b,
          halfwise unpacklo_epi64 t_c t_d, halfwise unpackhi_epi64 t_c t_d])"

text \<open>\<open>ONEOCTO\<close>: the 32 bytes it writes into each of the eight blocks.\<close>

definition oneocto :: "u32 list list \<Rightarrow> u32 list list \<Rightarrow> nat \<Rightarrow> bytes \<Rightarrow> bytes list" where
  "oneocto x orig a m =
     (let p = onequad_unpck x orig a; q = onequad_unpck x orig (a + 4)
      in map (\<lambda>i. storeu_si128 (xor_si128 (permute2x128 (p ! i) (q ! i) 0x20) (loadu_si256 (drop (64 * i) m)))) [0..<4] @
         map (\<lambda>i. storeu_si128 (xor_si128 (permute2x128 (p ! i) (q ! i) 0x31) (loadu_si256 (drop (64 * i + 256) m)))) [0..<4])"

definition u8_block :: "u32 list \<Rightarrow> bytes \<Rightarrow> bytes" where
  "u8_block x m =
     (let orig = u8_orig x; v = (vec8_double_round ^^ 10) orig;
          o0 = oneocto v orig 0 m; o1 = oneocto v orig 8 (drop 32 m)
      in concat (map (\<lambda>j. o0 ! j @ o1 ! j) [0..<8]))"

definition u8_next :: "u32 list \<Rightarrow> u32 list" where
  "u8_next x = (let in1213 = counter64 x + 8 in x[12 := ucast in1213, 13 := ucast (drop_bit 32 in1213)])"

function u8_loop :: "u32 list \<Rightarrow> bytes \<Rightarrow> u32 list \<times> bytes \<times> bytes" where
  "u8_loop x m =
     (if 512 \<le> length m then
        let (x', out, rest) = u8_loop (u8_next x) (drop 512 m) in (x', u8_block x m @ out, rest)
      else (x, [], m))"
  by pat_completeness auto
termination by (relation "measure (length \<circ> snd)") auto

declare u8_loop.simps [simp del]

subsection \<open>Encryption\<close>

definition ECRYPT_encrypt_bytes :: "u32 list \<Rightarrow> bytes \<Rightarrow> u32 list \<times> bytes" where
  "ECRYPT_encrypt_bytes x m =
     (if m = [] then (x, [])
      else let (x, out8, m) = u8_loop x m
           in if m = [] then (x, out8)
              else let (x, out4, m) = u4_loop x m
                   in if m = [] then (x, out8 @ out4)
                      else let (x, out1, m) = u1_loop x m
                           in if m = [] then (x, out8 @ out4 @ out1)
                              else let (x, out) = scalar_loop x m in (x, out8 @ out4 @ out1 @ out))"

definition ECRYPT_decrypt_bytes :: "u32 list \<Rightarrow> bytes \<Rightarrow> u32 list \<times> bytes" where
  "ECRYPT_decrypt_bytes x c = ECRYPT_encrypt_bytes x c"

definition ECRYPT_keystream_bytes :: "u32 list \<Rightarrow> nat \<Rightarrow> u32 list \<times> bytes" where
  "ECRYPT_keystream_bytes x n = ECRYPT_encrypt_bytes x (replicate n 0)"

end
