(* ===== verification/ChaCha_Stream.thy ===== *)
theory ChaCha_Stream
  imports ChaCha
begin

text \<open>
  What the stream cipher computes: the vector loops make the same blocks as the scalar code, with the block
  counter counted up by one from block to block, and encryption adds the blocks to the message.
\<close>

subsection \<open>Words and bytes\<close>

lemma bytes_word: "U8TO32_LITTLE (U32TO8_LITTLE w) = w"
proof (rule bit_word_eqI)
  fix n assume "n < LENGTH(32)"
  then have "n < 8 \<or> 8 \<le> n \<and> n < 16 \<or> 16 \<le> n \<and> n < 24 \<or> 24 \<le> n \<and> n < 32" by auto
  then show "bit (U8TO32_LITTLE (U32TO8_LITTLE w)) n = bit w n"
    by (auto simp: U8TO32_LITTLE_def U32TO8_LITTLE_def bit_simps no_bit)
qed

lemma shuffled_word:
  "U8TO32_LITTLE [ucast (drop_bit 16 w), ucast (drop_bit 24 w), ucast w, ucast (drop_bit 8 w)] = ROTL32 w 16"
  "U8TO32_LITTLE [ucast (drop_bit 24 w), ucast w, ucast (drop_bit 8 w), ucast (drop_bit 16 w)] = ROTL32 w 8"
proof -
  have c: "n < 8 \<or> 8 \<le> n \<and> n < 16 \<or> 16 \<le> n \<and> n < 24 \<or> 24 \<le> n \<and> n < 32" if "n < LENGTH(32)" for n
    using that by auto
  show "U8TO32_LITTLE [ucast (drop_bit 16 w), ucast (drop_bit 24 w), ucast w, ucast (drop_bit 8 w)] = ROTL32 w 16"
  proof (rule bit_word_eqI)
    fix n assume "n < LENGTH(32)"
    then show "bit (U8TO32_LITTLE [ucast (drop_bit 16 w), ucast (drop_bit 24 w), ucast w, ucast (drop_bit 8 w)]) n = bit (ROTL32 w 16) n"
      using c [of n] by (auto simp: U8TO32_LITTLE_def ROTL32_def bit_simps no_bit)
  qed
  show "U8TO32_LITTLE [ucast (drop_bit 24 w), ucast w, ucast (drop_bit 8 w), ucast (drop_bit 16 w)] = ROTL32 w 8"
  proof (rule bit_word_eqI)
    fix n assume "n < LENGTH(32)"
    then show "bit (U8TO32_LITTLE [ucast (drop_bit 24 w), ucast w, ucast (drop_bit 8 w), ucast (drop_bit 16 w)]) n = bit (ROTL32 w 8) n"
      using c [of n] by (auto simp: U8TO32_LITTLE_def ROTL32_def bit_simps no_bit)
  qed
qed

lemma rot_xor: "push_bit 12 w XOR drop_bit 20 w = ROTL32 w 12" "push_bit 7 w XOR drop_bit 25 w = ROTL32 w 7"
  unfolding ROTL32_def by (rule bit_word_eqI, auto simp: bit_simps no_bit)+

lemma xor_word_bytes: "U32TO8_LITTLE (v XOR U8TO32_LITTLE [a, b, c, d]) = xor_bytes [a, b, c, d] (U32TO8_LITTLE v)"
proof -
  have "ucast (v XOR U8TO32_LITTLE [a, b, c, d]) = a XOR ucast v"
    "ucast (drop_bit 8 (v XOR U8TO32_LITTLE [a, b, c, d])) = b XOR ucast (drop_bit 8 v)"
    "ucast (drop_bit 16 (v XOR U8TO32_LITTLE [a, b, c, d])) = c XOR ucast (drop_bit 16 v)"
    "ucast (drop_bit 24 (v XOR U8TO32_LITTLE [a, b, c, d])) = d XOR ucast (drop_bit 24 v)"
    by (rule bit_word_eqI, auto simp: U8TO32_LITTLE_def bit_simps no_bit)+
  then show ?thesis by (simp add: U32TO8_LITTLE_def)
qed

subsection \<open>Lanes\<close>

text \<open>The quarter round on four words.\<close>

definition qr :: "u32 \<times> u32 \<times> u32 \<times> u32 \<Rightarrow> u32 \<times> u32 \<times> u32 \<times> u32" where
  "qr = (\<lambda>(a, b, c, d).
     let a = a + b; d = ROTL32 (d XOR a) 16; c = c + d; b = ROTL32 (b XOR c) 12;
         a = a + b; d = ROTL32 (d XOR a) 8; c = c + d; b = ROTL32 (b XOR c) 7 in (a, b, c, d))"

lemma upt4: "[0..<4] = [0, 1, 2, 3]" by (simp add: upt_rec)

lemma shuffles:
  "shuffle_epi8 [a, b, c, d] rot16 = [ROTL32 a 16, ROTL32 b 16, ROTL32 c 16, ROTL32 d 16]"
  "shuffle_epi8 [a, b, c, d] rot8 = [ROTL32 a 8, ROTL32 b 8, ROTL32 c 8, ROTL32 d 8]"
  "shuffle_epi32 [a, b, c, d] 0x93 = [d, a, b, c]"
  "shuffle_epi32 [a, b, c, d] 0x4e = [c, d, a, b]"
  "shuffle_epi32 [a, b, c, d] 0x39 = [b, c, d, a]"
  by (simp_all add: shuffle_epi8_def shuffle_epi32_def rot16_def rot8_def upt4 U32TO8_LITTLE_def shuffled_word)

lemma quarterround_qr:
  assumes "qr (x ! a, x ! b, x ! c, x ! d) = (a', b', c', d')" and "distinct [a, b, c, d]"
    and "a < length x" and "b < length x" and "c < length x" and "d < length x"
  shows "quarterround a b c d x = x[a := a', b := b', c := c', d := d']"
proof -
  have n: "a \<noteq> b" "a \<noteq> c" "a \<noteq> d" "b \<noteq> c" "b \<noteq> d" "c \<noteq> d" using assms(2) by auto
  define U where "U p q r s = x[a := p, b := q, c := r, d := s]" for p q r s
  have get: "U p q r s ! a = p" "U p q r s ! b = q" "U p q r s ! c = r" "U p q r s ! d = s" for p q r s
    using n n [symmetric] assms(3-6) by (simp_all add: U_def)
  have put: "(U p q r s)[a := p'] = U p' q r s" "(U p q r s)[b := p'] = U p p' r s" "(U p q r s)[c := p'] = U p q p' s"
    "(U p q r s)[d := p'] = U p q r p'" for p q r s p'
  proof -
    show "(U p q r s)[a := p'] = U p' q r s" using n by (simp add: U_def list_update_swap [of a])
    show "(U p q r s)[b := p'] = U p p' r s" using n by (simp add: U_def list_update_swap [of b])
    show "(U p q r s)[c := p'] = U p q p' s" using n by (simp add: U_def list_update_swap [of c])
  qed (simp add: U_def)
  have x: "x = U (x ! a) (x ! b) (x ! c) (x ! d)" by (simp add: U_def)
  have "quarterround a b c d (U p q r s) = (case qr (p, q, r, s) of (p, q, r, s) \<Rightarrow> U p q r s)" for p q r s
    unfolding quarterround_def qr_def Let_def case_prod_conv get put by (rule refl)
  then show ?thesis using assms(1) x unfolding U_def by (metis (no_types, lifting) case_prod_conv)
qed

lemma double_round_words:
  assumes "qr (x0, x4, x8, x12) = (y0, y4, y8, y12)"
    and "qr (x1, x5, x9, x13) = (y1, y5, y9, y13)"
    and "qr (x2, x6, x10, x14) = (y2, y6, y10, y14)"
    and "qr (x3, x7, x11, x15) = (y3, y7, y11, y15)"
    and "qr (y0, y5, y10, y15) = (z0, z5, z10, z15)"
    and "qr (y1, y6, y11, y12) = (z1, z6, z11, z12)"
    and "qr (y2, y7, y8, y13) = (z2, z7, z8, z13)"
    and "qr (y3, y4, y9, y14) = (z3, z4, z9, z14)"
  shows "double_round [x0, x1, x2, x3, x4, x5, x6, x7, x8, x9, x10, x11, x12, x13, x14, x15] =
    [z0, z1, z2, z3, z4, z5, z6, z7, z8, z9, z10, z11, z12, z13, z14, z15]"
  using assms unfolding double_round_def Let_def by (simp add: quarterround_qr)

text \<open>Four quarter rounds at once.\<close>

definition vq :: "u32 list \<times> u32 list \<times> u32 list \<times> u32 list \<Rightarrow> u32 list \<times> u32 list \<times> u32 list \<times> u32 list" where
  "vq = (\<lambda>(a, b, c, d).
     let a = add_epi32 a b; d = shuffle_epi8 (xor_si128 d a) rot16; c = add_epi32 c d; b = xor_si128 b c;
         b = xor_si128 (slli_epi32 b 12) (srli_epi32 b 20);
         a = add_epi32 a b; d = shuffle_epi8 (xor_si128 d a) rot8; c = add_epi32 c d; b = xor_si128 b c;
         b = xor_si128 (slli_epi32 b 7) (srli_epi32 b 25) in (a, b, c, d))"

lemma u1_rounds_vq:
  "u1_rounds (a, b, c, d) =
     (let (a, b, c, d) = vq (a, b, c, d);
          (a, b, c, d) = vq (shuffle_epi32 a 0x93, b, shuffle_epi32 c 0x39, shuffle_epi32 d 0x4e)
      in (shuffle_epi32 a 0x39, b, shuffle_epi32 c 0x93, shuffle_epi32 d 0x4e))"
  unfolding u1_rounds_def vq_def Let_def case_prod_conv by (rule refl)

lemma add_4: "add_epi32 [a, b, c, d] [a', b', c', d'] = [a + a', b + b', c + c', d + d']"
  by (simp add: add_epi32_def)

lemma xor_4: "xor_si128 [a, b, c, d] [a', b', c', d'] = [a XOR a', b XOR b', c XOR c', d XOR d']"
  by (simp add: xor_si128_def)

lemma rot_4:
  "xor_si128 (slli_epi32 [a, b, c, d] 12) (srli_epi32 [a, b, c, d] 20) = [ROTL32 a 12, ROTL32 b 12, ROTL32 c 12, ROTL32 d 12]"
  "xor_si128 (slli_epi32 [a, b, c, d] 7) (srli_epi32 [a, b, c, d] 25) = [ROTL32 a 7, ROTL32 b 7, ROTL32 c 7, ROTL32 d 7]"
  by (simp_all add: xor_si128_def slli_epi32_def srli_epi32_def rot_xor)

lemma vq_qr:
  assumes "qr (a0, b0, c0, d0) = (a0', b0', c0', d0')" and "qr (a1, b1, c1, d1) = (a1', b1', c1', d1')"
    and "qr (a2, b2, c2, d2) = (a2', b2', c2', d2')" and "qr (a3, b3, c3, d3) = (a3', b3', c3', d3')"
  shows "vq ([a0, a1, a2, a3], [b0, b1, b2, b3], [c0, c1, c2, c3], [d0, d1, d2, d3]) =
    ([a0', a1', a2', a3'], [b0', b1', b2', b3'], [c0', c1', c2', c3'], [d0', d1', d2', d3'])"
  using assms unfolding vq_def qr_def Let_def case_prod_conv add_4 xor_4 rot_4 shuffles prod.inject
  by (elim conjE, hypsubst, intro conjI refl)

lemma u1_rounds_words:
  assumes "qr (x0, x4, x8, x12) = (y0, y4, y8, y12)"
    and "qr (x1, x5, x9, x13) = (y1, y5, y9, y13)"
    and "qr (x2, x6, x10, x14) = (y2, y6, y10, y14)"
    and "qr (x3, x7, x11, x15) = (y3, y7, y11, y15)"
    and "qr (y0, y5, y10, y15) = (z0, z5, z10, z15)"
    and "qr (y1, y6, y11, y12) = (z1, z6, z11, z12)"
    and "qr (y2, y7, y8, y13) = (z2, z7, z8, z13)"
    and "qr (y3, y4, y9, y14) = (z3, z4, z9, z14)"
  shows "u1_rounds ([x0, x1, x2, x3], [x4, x5, x6, x7], [x8, x9, x10, x11], [x12, x13, x14, x15]) =
    ([z0, z1, z2, z3], [z4, z5, z6, z7], [z8, z9, z10, z11], [z12, z13, z14, z15])"
  using assms by (simp add: u1_rounds_vq vq_qr shuffles Let_def)

subsection \<open>Blocks\<close>

lemma sixteen_words: "length x = 16 \<Longrightarrow> \<exists>x0 x1 x2 x3 x4 x5 x6 x7 x8 x9 x10 x11 x12 x13 x14 x15.
    x = [x0, x1, x2, x3, x4, x5, x6, x7, x8, x9, x10, x11, x12, x13, x14, x15]"
  by (simp add: numeral_eq_Suc length_Suc_conv) blast

definition rows :: "u32 list \<Rightarrow> u32 list \<times> u32 list \<times> u32 list \<times> u32 list" where
  "rows x = (take 4 x, take 4 (drop 4 x), take 4 (drop 8 x), take 4 (drop 12 x))"

lemma rounds_step:
  assumes "length x = 16"
  shows "length (double_round x) = 16 \<and> u1_rounds (rows x) = rows (double_round x)"
proof -
  obtain x0 x1 x2 x3 x4 x5 x6 x7 x8 x9 x10 x11 x12 x13 x14 x15
    where x: "x = [x0, x1, x2, x3, x4, x5, x6, x7, x8, x9, x10, x11, x12, x13, x14, x15]" using sixteen_words [OF assms] by blast
  obtain y0 y4 y8 y12 where 1: "qr (x0, x4, x8, x12) = (y0, y4, y8, y12)" using prod_cases4 by blast
  obtain y1 y5 y9 y13 where 2: "qr (x1, x5, x9, x13) = (y1, y5, y9, y13)" using prod_cases4 by blast
  obtain y2 y6 y10 y14 where 3: "qr (x2, x6, x10, x14) = (y2, y6, y10, y14)" using prod_cases4 by blast
  obtain y3 y7 y11 y15 where 4: "qr (x3, x7, x11, x15) = (y3, y7, y11, y15)" using prod_cases4 by blast
  obtain z0 z5 z10 z15 where 5: "qr (y0, y5, y10, y15) = (z0, z5, z10, z15)" using prod_cases4 by blast
  obtain z1 z6 z11 z12 where 6: "qr (y1, y6, y11, y12) = (z1, z6, z11, z12)" using prod_cases4 by blast
  obtain z2 z7 z8 z13 where 7: "qr (y2, y7, y8, y13) = (z2, z7, z8, z13)" using prod_cases4 by blast
  obtain z3 z4 z9 z14 where 8: "qr (y3, y4, y9, y14) = (z3, z4, z9, z14)" using prod_cases4 by blast
  show ?thesis
    using u1_rounds_words [OF 1 2 3 4 5 6 7 8] double_round_words [OF 1 2 3 4 5 6 7 8] by (simp add: x rows_def)
qed

lemma rounds_steps:
  assumes "length x = 16"
  shows "length ((double_round ^^ n) x) = 16 \<and> (u1_rounds ^^ n) (rows x) = rows ((double_round ^^ n) x)"
  using assms by (induction n) (simp_all add: rounds_step)

lemma length_U32TO8 [simp]: "length (U32TO8_LITTLE w) = 4" by (simp add: U32TO8_LITTLE_def)

lemma store_xor_load:
  assumes "length r = 4" and "16 \<le> length p"
  shows "storeu_si128 (xor_si128 r (loadu_si128 p)) = xor_bytes (take 16 p) (storeu_si128 r)"
proof -
  obtain a b c d where r: "r = [a, b, c, d]" using assms(1) by (auto simp: numeral_eq_Suc length_Suc_conv)
  have w: "4 \<le> length q \<Longrightarrow> U32TO8_LITTLE (v XOR U8TO32_LITTLE q) = xor_bytes (take 4 q) (U32TO8_LITTLE v)" for v q
  proof -
    assume q: "4 \<le> length q"
    then obtain q0 q1 q2 q3 q' where q: "q = q0 # q1 # q2 # q3 # q'" by (auto simp: numeral_eq_Suc Suc_le_length_iff)
    then have "U8TO32_LITTLE q = U8TO32_LITTLE [q0, q1, q2, q3]" by (simp add: U8TO32_LITTLE_def)
    then show ?thesis using q by (simp add: xor_word_bytes)
  qed
  have "take 16 p = take 4 p @ take 4 (drop 4 p) @ take 4 (drop 8 p) @ take 4 (drop 12 p)"
    using take_add [of 4 12 p] take_add [of 4 8 "drop 4 p"] take_add [of 4 4 "drop 8 p"] by simp
  then show ?thesis
    using assms(2) by (simp add: r storeu_si128_def loadu_si128_def upt4 xor_4 w xor_bytes_append)
qed

lemma length_store: "length (storeu_si128 r) = 4 * length r"
  by (induction r) (simp_all add: storeu_si128_def)

lemma length_wordtobyte: "length x = 16 \<Longrightarrow> length (salsa20_wordtobyte x) = 64"
proof -
  assume "length x = 16"
  then have "length (map2 (\<lambda>x i. U32TO8_LITTLE (x + i)) ((double_round ^^ 10) x) x) = 16"
    using rounds_steps [of x 10] by simp
  moreover have "length (concat (map2 (\<lambda>x i. U32TO8_LITTLE (x + i)) xs ys)) = 4 * length (zip xs ys)" for xs ys
    by (induction xs ys rule: list_induct2') simp_all
  ultimately show ?thesis by (simp add: salsa20_wordtobyte_def Let_def)
qed

lemma u1_block_scalar:
  assumes "length x = 16" and "64 \<le> length m"
  shows "u1_block x m = xor_bytes (take 64 m) (salsa20_wordtobyte x)"
proof -
  define y where "y = (double_round ^^ 10) x"
  have y: "length y = 16" "(u1_rounds ^^ 10) (rows x) = rows y" using rounds_steps [OF assms(1), of 10] by (simp_all add: y_def)
  have s: "storeu_si128 (add_epi32 a b) = concat (map2 (\<lambda>x i. U32TO8_LITTLE (x + i)) a b)" for a b
    by (induction a b rule: list_induct2') (simp_all add: storeu_si128_def add_epi32_def)
  have l: "length (add_epi32 a b) = 4" "length (storeu_si128 (add_epi32 a b)) = 16" if "length a = 4" "length b = 4" for a b
    using that length_store [of "add_epi32 a b"] by (simp_all add: add_epi32_def)
  have t: "take 64 m = take 16 m @ take 16 (drop 16 m) @ take 16 (drop 32 m) @ take 16 (drop 48 m)"
    using take_add [of 16 48 m] take_add [of 16 32 "drop 16 m"] take_add [of 16 16 "drop 32 m"] by simp
  have q: "z = take 4 z @ take 4 (drop 4 z) @ take 4 (drop 8 z) @ take 4 (drop 12 z)" if "length z = 16" for z :: "u32 list"
    using that by (auto dest!: sixteen_words)
  have "salsa20_wordtobyte x = storeu_si128 (add_epi32 (take 4 y) (take 4 x)) @ storeu_si128 (add_epi32 (take 4 (drop 4 y)) (take 4 (drop 4 x)))
    @ storeu_si128 (add_epi32 (take 4 (drop 8 y)) (take 4 (drop 8 x))) @ storeu_si128 (add_epi32 (take 4 (drop 12 y)) (take 4 (drop 12 x)))"
    unfolding s salsa20_wordtobyte_def Let_def y_def [symmetric] using sixteen_words [OF assms(1)] sixteen_words [OF y(1)] by auto
  then show ?thesis
    using assms y unfolding t u1_block_def Let_def rows_def [symmetric] y(2)
    by (simp add: rows_def store_xor_load l xor_bytes_append)
qed

text \<open>The key stream: one block for every value of the block counter.\<close>

definition key_stream :: "u32 list \<Rightarrow> nat \<Rightarrow> bytes" where
  "key_stream x n = concat (map (\<lambda>i. salsa20_wordtobyte ((next_block ^^ i) x)) [0..<n])"

lemma length_next_block: "length (next_block x) = length x" by (simp add: next_block_def Let_def)

lemma key_stream_Suc: "key_stream x (Suc n) = salsa20_wordtobyte x @ key_stream (next_block x) n"
  unfolding key_stream_def upt_conv_Cons [OF zero_less_Suc] map_Suc_upt [symmetric]
  by (simp add: funpow_Suc_right comp_def del: funpow.simps)

lemma u1_loop_stream:
  assumes "length x = 16"
  shows "u1_loop x m = ((next_block ^^ (length m div 64)) x, xor_bytes (take (64 * (length m div 64)) m) (key_stream x (length m div 64)),
    drop (64 * (length m div 64)) m)"
  using assms
proof (induction x m rule: u1_loop.induct)
  case (1 x m)
  show ?case
  proof (cases "64 \<le> length m")
    case True
    then obtain k where k: "length m div 64 = Suc k" "length (drop 64 m) div 64 = k" by (simp add: le_div_geq)
    have "xor_bytes (take (64 * Suc k) m) (key_stream x (Suc k)) =
      xor_bytes (take 64 m) (salsa20_wordtobyte x) @ xor_bytes (take (64 * k) (drop 64 m)) (key_stream (next_block x) k)"
      using take_add [of 64 "64 * k" m] length_wordtobyte [OF 1(2)] True by (simp add: key_stream_Suc xor_bytes_append)
    then show ?thesis
      using 1 True k u1_block_scalar [OF 1(2) True]
      by (subst u1_loop.simps) (simp add: length_next_block funpow_swap1 ac_simps)
  next
    case False
    then show ?thesis by (subst u1_loop.simps) (simp add: key_stream_def)
  qed
qed

lemma key_stream_add: "key_stream x (a + b) = key_stream x a @ key_stream ((next_block ^^ a) x) b"
proof (induction a arbitrary: x)
  case (Suc a)
  then show ?case by (simp add: key_stream_Suc funpow_swap1)
qed (simp add: key_stream_def)

subsection \<open>Four states in sixteen registers\<close>

definition lane :: "nat \<Rightarrow> u32 list list \<Rightarrow> u32 list" where
  "lane l v = map (\<lambda>r. r ! l) v"

definition quads :: "u32 list list \<Rightarrow> bool" where
  "quads v \<longleftrightarrow> length v = 16 \<and> list_all (\<lambda>r. length r = 4) v"

lemma list4: "length r = 4 \<Longrightarrow> \<exists>a b c d. r = [a, b, c, d]"
  by (auto simp: numeral_eq_Suc length_Suc_conv)

lemma lane_ops:
  assumes "length r = 4" and "length s = 4" and "l < 4"
  shows "add_epi32 r s ! l = r ! l + s ! l" "xor_si128 r s ! l = r ! l XOR s ! l"
    "shuffle_epi8 r rot16 ! l = ROTL32 (r ! l) 16" "shuffle_epi8 r rot8 ! l = ROTL32 (r ! l) 8"
    "vec4_rot r n ! l = ROTL32 (r ! l) n"
    "length (add_epi32 r s) = 4" "length (xor_si128 r s) = 4" "length (shuffle_epi8 r rot16) = 4"
    "length (shuffle_epi8 r rot8) = 4" "length (vec4_rot r n) = 4"
proof -
  obtain a b c d where r: "r = [a, b, c, d]" using list4 [OF assms(1)] by blast
  have "l = 0 \<or> l = 1 \<or> l = 2 \<or> l = 3" using assms(3) by auto
  then show "shuffle_epi8 r rot16 ! l = ROTL32 (r ! l) 16" "shuffle_epi8 r rot8 ! l = ROTL32 (r ! l) 8"
    by (auto simp: r shuffles)
  show "add_epi32 r s ! l = r ! l + s ! l" "xor_si128 r s ! l = r ! l XOR s ! l" "vec4_rot r n ! l = ROTL32 (r ! l) n"
    "length (add_epi32 r s) = 4" "length (xor_si128 r s) = 4" "length (vec4_rot r n) = 4"
    using assms by (simp_all add: add_epi32_def xor_si128_def vec4_rot_def or_si128_def slli_epi32_def srli_epi32_def ROTL32_def)
  show "length (shuffle_epi8 r rot16) = 4" "length (shuffle_epi8 r rot8) = 4" by (simp_all add: shuffle_epi8_def)
qed

lemma lane_get: "quads v \<Longrightarrow> i < 16 \<Longrightarrow> v ! i ! l = lane l v ! i" "quads v \<Longrightarrow> i < 16 \<Longrightarrow> length (v ! i) = 4"
  by (auto simp: quads_def lane_def list_all_length)

lemma lane_put: "lane l (v[i := r]) = (lane l v)[i := r ! l]" "quads v \<Longrightarrow> length r = 4 \<Longrightarrow> quads (v[i := r])"
  by (auto simp: quads_def lane_def map_update list_all_iff dest: set_update_subset_insert [THEN subsetD])

lemma lane_quarterround:
  assumes "quads v" and "l < 4" and "a < 16" and "b < 16" and "c < 16" and "d < 16"
  shows "quads (vec4_quarterround a b c d v) \<and> lane l (vec4_quarterround a b c d v) = quarterround a b c d (lane l v)"
proof -
  define A where "A p q v = v[p := add_epi32 (v ! p) (v ! q)]" for p q v
  define B where "B p q f v = v[p := f (xor_si128 (v ! p) (v ! q))]" for p q v and f :: "u32 list \<Rightarrow> u32 list"
  define A' where "A' p q v = v[p := v ! p + v ! q]" for p q and v :: "u32 list"
  define B' where "B' p q n v = v[p := ROTL32 (v ! p XOR v ! q) n]" for p q n v
  have v: "vec4_quarterround a b c d v = B b c (\<lambda>t. vec4_rot t 7) (A c d (B d a (\<lambda>t. shuffle_epi8 t rot8) (A a b
      (B b c (\<lambda>t. vec4_rot t 12) (A c d (B d a (\<lambda>t. shuffle_epi8 t rot16) (A a b v)))))))"
    unfolding vec4_quarterround_def Let_def A_def B_def by (rule refl)
  have q: "quarterround a b c d x = B' b c 7 (A' c d (B' d a 8 (A' a b (B' b c 12 (A' c d (B' d a 16 (A' a b x)))))))" for x
    unfolding quarterround_def Let_def A'_def B'_def by (rule refl)
  have 1: "quads v \<Longrightarrow> p < 16 \<Longrightarrow> q < 16 \<Longrightarrow> quads (A p q v) \<and> lane l (A p q v) = A' p q (lane l v)" for p q v
    using lane_ops [OF lane_get(2) [of v p] lane_get(2) [of v q] assms(2)]
    by (simp add: A_def A'_def lane_put lane_get(1))
  have 2: "quads v \<Longrightarrow> p < 16 \<Longrightarrow> q < 16 \<Longrightarrow> (\<And>t. length t = 4 \<Longrightarrow> length (f t) = 4 \<and> f t ! l = ROTL32 (t ! l) n) \<Longrightarrow>
      quads (B p q f v) \<and> lane l (B p q f v) = B' p q n (lane l v)" for p q v f n
    using lane_ops [OF lane_get(2) [of v p] lane_get(2) [of v q] assms(2)]
    by (simp add: B_def B'_def lane_put lane_get(1))
  have f: "length t = 4 \<Longrightarrow> length (vec4_rot t n) = 4 \<and> vec4_rot t n ! l = ROTL32 (t ! l) n"
    "length t = 4 \<Longrightarrow> length (shuffle_epi8 t rot16) = 4 \<and> shuffle_epi8 t rot16 ! l = ROTL32 (t ! l) 16"
    "length t = 4 \<Longrightarrow> length (shuffle_epi8 t rot8) = 4 \<and> shuffle_epi8 t rot8 ! l = ROTL32 (t ! l) 8" for t n
    using lane_ops [of t t] assms(2) by simp_all
  show ?thesis unfolding v q using assms 1 2 [OF _ _ _ f(1)] 2 [OF _ _ _ f(2)] 2 [OF _ _ _ f(3)] by simp
qed

lemma lane_rounds:
  assumes "quads v" and "l < 4"
  shows "quads ((vec4_double_round ^^ n) v) \<and> lane l ((vec4_double_round ^^ n) v) = (double_round ^^ n) (lane l v)"
proof -
  have "quads v \<Longrightarrow> quads (vec4_double_round v) \<and> lane l (vec4_double_round v) = double_round (lane l v)" for v
    unfolding vec4_double_round_def double_round_def Let_def using lane_quarterround [OF _ assms(2)] by simp
  then show ?thesis using assms(1) by (induction n) simp_all
qed

subsection \<open>The block counter\<close>

abbreviation lo :: "u64 \<Rightarrow> u32" where "lo c \<equiv> ucast c"
abbreviation hi :: "u64 \<Rightarrow> u32" where "hi c \<equiv> ucast (drop_bit 32 c)"

lemma halves: "lo (ucast a OR push_bit 32 (ucast b)) = a" "hi (ucast a OR push_bit 32 (ucast b)) = b"
  "ucast (lo c) OR push_bit 32 (ucast (hi c)) = c"
  by (rule bit_word_eqI, auto simp: bit_simps no_bit)+

lemma unat_halves: "unat (lo c) = unat c mod 2 ^ 32" "unat (hi c) = unat c div 2 ^ 32"
proof -
  show "unat (lo c) = unat c mod 2 ^ 32" by (simp add: unsigned_ucast_eq take_bit_eq_mod)
  have "unat c < 2 ^ 64" using unsigned_less [of c] by simp
  then have "unat c div 2 ^ 32 < 2 ^ 32" by (simp add: div_less_iff_less_mult)
  then show "unat (hi c) = unat c div 2 ^ 32"
    unfolding unsigned_ucast_eq unat_drop_bit_eq by (simp add: take_bit_eq_mod drop_bit_eq_div)
qed

lemma halves_Suc: "lo (c + 1) = lo c + 1" "hi (c + 1) = (if lo c + 1 = 0 then hi c + 1 else hi c)"
proof -
  have c: "unat c < 2 ^ 64" using unsigned_less [of c] by simp
  have u: "unat (c + 1) = (unat c + 1) mod 2 ^ 64" by (simp add: unat_word_ariths)
  have l: "unat (lo c + 1) = (unat c mod 2 ^ 32 + 1) mod 2 ^ 32" by (simp add: unat_word_ariths unat_halves)
  show "lo (c + 1) = lo c + 1" unfolding word_unat_eq_iff l unat_halves u by (simp add: mod_mod_cancel mod_simps)
  have z: "lo c + 1 = 0 \<longleftrightarrow> (unat c + 1) mod 2 ^ 32 = 0"
    unfolding word_unat_eq_iff l by (simp add: mod_simps)
  show "hi (c + 1) = (if lo c + 1 = 0 then hi c + 1 else hi c)"
  proof (cases "unat c + 1 = 2 ^ 64")
    case True
    then have n: "unat c = 2 ^ 64 - 1" by simp
    then have "hi (c + 1) = 0" unfolding word_unat_eq_iff unat_halves(2) u by simp
    moreover have "hi c + 1 = 0" unfolding word_unat_eq_iff unat_word_ariths unat_halves(2) n by simp
    ultimately show ?thesis using z n by simp
  next
    case False
    then have n: "unat c + 1 < 2 ^ 64" using c by simp
    have d: "(unat c + 1) div 2 ^ 32 = (if (unat c + 1) mod 2 ^ 32 = 0 then unat c div 2 ^ 32 + 1 else unat c div 2 ^ 32)"
      by (simp add: div_Suc mod_eq_0_iff_dvd)
    show ?thesis
    proof (cases "(unat c + 1) mod 2 ^ 32 = 0")
      case True
      then have e: "lo c + 1 = 0" using z by (simp only:)
      have "(unat c + 1) div 2 ^ 32 < 2 ^ 32" using n by (simp add: div_less_iff_less_mult)
      then have "unat (hi c + 1) = unat c div 2 ^ 32 + 1" using True d unfolding unat_word_ariths unat_halves(2) by simp
      then have "unat (hi (c + 1)) = unat (hi c + 1)" using True n d unfolding unat_halves(2) u by simp
      then show ?thesis unfolding word_unat_eq_iff [symmetric] if_P [OF e] .
    next
      case False
      then have e: "lo c + 1 \<noteq> 0" using z by (simp only: not_False_eq_True)
      have "unat (hi (c + 1)) = unat (hi c)" using False n d unfolding unat_halves(2) u by simp
      then show ?thesis unfolding word_unat_eq_iff [symmetric] if_not_P [OF e] .
    qed
  qed
qed

lemma counter64_halves: "lo (counter64 x) = x ! 12" "hi (counter64 x) = x ! 13"
  unfolding counter64_def halves by (rule refl)+

definition set_counter64 :: "u32 list \<Rightarrow> u64 \<Rightarrow> u32 list" where
  "set_counter64 x c = x[12 := lo c, 13 := hi c]"

lemma next_block_counter:
  assumes "length x = 16"
  shows "(next_block ^^ n) x = set_counter64 x (counter64 x + of_nat n)"
proof (induction n)
  case 0
  then show ?case using assms by (simp add: set_counter64_def counter64_halves list_update_id)
next
  case (Suc n)
  have "next_block (set_counter64 x c) = set_counter64 x (c + 1)" for c
    using assms unfolding next_block_def set_counter64_def Let_def
    by (simp add: halves_Suc list_update_swap [of 13 12])
  then show ?case using Suc by (simp add: ac_simps)
qed

lemma counter64_set: "length x = 16 \<Longrightarrow> counter64 (set_counter64 x c) = c"
  unfolding counter64_def set_counter64_def by (simp add: halves(3))

lemma u4_next_blocks: "length x = 16 \<Longrightarrow> u4_next x = (next_block ^^ 4) x"
  using next_block_counter [of x 4] by (simp add: u4_next_def set_counter64_def Let_def)

lemma u4_orig_lanes:
  assumes "length x = 16" and "l < 4"
  shows "quads (u4_orig x) \<and> lane l (u4_orig x) = (next_block ^^ l) x"
proof -
  define c where "c = counter64 x"
  have a: "add_epi64 (set_epi64x p q) (set_epi64x r s) = set_epi64x (p + r) (q + s)" for p q r s
    unfolding add_epi64_def Let_def set_epi64x_def by (simp add: halves(3))
  have o: "u4_orig x = (map (\<lambda>w. [w, w, w, w]) x)[12 := [lo c, lo (1 + c), lo (2 + c), lo (3 + c)], 13 := [hi c, hi (1 + c), hi (2 + c), hi (3 + c)]]"
    unfolding u4_orig_def Let_def a c_def [symmetric] by (simp add: set_epi64x_def unpacklo_epi32_def unpackhi_epi32_def)
  have q: "quads (map (\<lambda>w. [w, w, w, w]) x)" using assms(1) by (simp add: quads_def list_all_iff)
  have m: "lane l (map (\<lambda>w. [w, w, w, w]) x) = x" unfolding lane_def map_map
    by (rule map_idI) (use assms(2) in \<open>auto simp: nth_Cons' less_Suc_eq numeral_eq_Suc\<close>)
  have "l = 0 \<or> l = 1 \<or> l = 2 \<or> l = 3" using assms(2) by auto
  then have "lane l (u4_orig x) = set_counter64 x (c + of_nat l)"
    unfolding o lane_put(1) m set_counter64_def by (auto simp: ac_simps)
  then show ?thesis using next_block_counter [OF assms(1), of l] lane_put(2) [OF lane_put(2) [OF q]] unfolding o c_def by simp
qed

lemma onequad_words:
  assumes "quads x" and "quads orig" and "a \<le> 12" and "j < 4" and "w = map2 add_epi32 x orig"
  shows "onequad x orig a m ! j =
    storeu_si128 (xor_si128 (take 4 (drop a (lane j w))) (loadu_si128 (drop (64 * j) m)))"
proof -
  have l: "length x = 16" "length orig = 16" "length w = 16" using assms(1,2,5) by (simp_all add: quads_def)
  have w: "w ! i = add_epi32 (x ! i) (orig ! i)" "length (w ! i) = 4" if "i < 16" for i
    using that l assms(5) lane_ops(6) [OF lane_get(2) [OF assms(1) that] lane_get(2) [OF assms(2) that], of 0] by simp_all
  obtain p0 p1 p2 p3 where p: "w ! a = [p0, p1, p2, p3]" using list4 [OF w(2)] assms(3) by force
  obtain q0 q1 q2 q3 where q: "w ! (a + 1) = [q0, q1, q2, q3]" using list4 [OF w(2)] assms(3) by force
  obtain r0 r1 r2 r3 where r: "w ! (a + 2) = [r0, r1, r2, r3]" using list4 [OF w(2)] assms(3) by force
  obtain s0 s1 s2 s3 where s: "w ! (a + 3) = [s0, s1, s2, s3]" using list4 [OF w(2)] assms(3) by force
  have t: "take 4 (drop a (lane j w)) = [w ! a ! j, w ! (a + 1) ! j, w ! (a + 2) ! j, w ! (a + 3) ! j]"
    using l(3) assms(3) by (simp add: lane_def take_map drop_map numeral_eq_Suc Cons_nth_drop_Suc [symmetric] take_Suc_conv_app_nth)
  have e: "onequad x orig a m = (let x_a = w ! a; x_b = w ! (a + 1); x_c = w ! (a + 2); x_d = w ! (a + 3);
      t_a = unpacklo_epi32 x_a x_b; t_b = unpacklo_epi32 x_c x_d; t_c = unpackhi_epi32 x_a x_b; t_d = unpackhi_epi32 x_c x_d
    in [storeu_si128 (xor_si128 (unpacklo_epi64 t_a t_b) (loadu_si128 m)),
        storeu_si128 (xor_si128 (unpackhi_epi64 t_a t_b) (loadu_si128 (drop 64 m))),
        storeu_si128 (xor_si128 (unpacklo_epi64 t_c t_d) (loadu_si128 (drop 128 m))),
        storeu_si128 (xor_si128 (unpackhi_epi64 t_c t_d) (loadu_si128 (drop 192 m)))])"
    unfolding onequad_def using w(1) assms(3) by simp
  have "j = 0 \<or> j = 1 \<or> j = 2 \<or> j = 3" using assms(4) by auto
  then show ?thesis unfolding e Let_def t p q r s
    by (auto simp: unpacklo_epi32_def unpackhi_epi32_def unpacklo_epi64_def unpackhi_epi64_def)
qed

lemma u4_block_scalar:
  assumes "length x = 16" and "256 \<le> length m"
  shows "u4_block x m = xor_bytes (take 256 m) (key_stream x 4)"
proof -
  define orig where "orig = u4_orig x"
  define v where "v = (vec4_double_round ^^ 10) orig"
  define w where "w = map2 add_epi32 v orig"
  have q: "quads orig" "quads v" using u4_orig_lanes [OF assms(1), of 0] lane_rounds [of orig 0 10] by (simp_all add: orig_def v_def)
  have block: "concat (map (\<lambda>a. onequad v orig a (drop (4 * a) m) ! j) [0, 4, 8, 12]) =
      xor_bytes (take 64 (drop (64 * j) m)) (salsa20_wordtobyte ((next_block ^^ j) x))" if j: "j < 4" for j
  proof -
    define z where "z = lane j w"
    have "lane j v = (double_round ^^ 10) (lane j orig)" using lane_rounds [OF q(1) j, of 10] by (simp add: v_def)
    moreover have "lane j orig = (next_block ^^ j) x" using u4_orig_lanes [OF assms(1) j] by (simp add: orig_def)
    moreover have z: "z = map2 (+) (lane j v) (lane j orig)" "length z = 16"
    proof -
      show "z = map2 (+) (lane j v) (lane j orig)" unfolding z_def w_def
        using q lane_ops(1) [OF _ _ j] by (intro nth_equalityI) (auto simp: lane_def quads_def list_all_length)
      show "length z = 16" using q by (simp add: z_def w_def lane_def quads_def)
    qed
    ultimately have b: "salsa20_wordtobyte ((next_block ^^ j) x) = storeu_si128 z"
      unfolding salsa20_wordtobyte_def Let_def storeu_si128_def z(1) by (simp add: comp_def split_def)
    define n where "n = drop (64 * j) m"
    have n: "64 \<le> length n" using assms(2) j by (simp add: n_def)
    have o: "onequad v orig a (drop (4 * a) m) ! j = xor_bytes (take 16 (drop (4 * a) n)) (storeu_si128 (take 4 (drop a z)))"
      if "a \<le> 12" for a
      using onequad_words [OF q(2,1) that j w_def, of "drop (4 * a) m"] z(2) that n
      by (simp add: store_xor_load z_def [symmetric] n_def ac_simps)
    have t: "take 64 n = take 16 n @ take 16 (drop 16 n) @ take 16 (drop 32 n) @ take 16 (drop 48 n)"
      using take_add [of 16 48 n] take_add [of 16 32 "drop 16 n"] take_add [of 16 16 "drop 32 n"] by simp
    have "z = take 4 z @ take 4 (drop 4 z) @ take 4 (drop 8 z) @ take 4 (drop 12 z)" using z(2) by (auto dest!: sixteen_words)
    moreover have "storeu_si128 (a @ b) = storeu_si128 a @ storeu_si128 b" for a b by (simp add: storeu_si128_def)
    ultimately have "storeu_si128 z = storeu_si128 (take 4 z) @ storeu_si128 (take 4 (drop 4 z)) @ storeu_si128 (take 4 (drop 8 z)) @ storeu_si128 (take 4 (drop 12 z))"
      by metis
    then show ?thesis unfolding b n_def [symmetric] t using n z(2) o [of 0] o [of 4] o [of 8] o [of 12] by (simp add: xor_bytes_append length_store)
  qed
  have t: "take 256 m = take 64 m @ take 64 (drop 64 m) @ take 64 (drop 128 m) @ take 64 (drop 192 m)"
    using take_add [of 64 192 m] take_add [of 64 128 "drop 64 m"] take_add [of 64 64 "drop 128 m"] by simp
  have "length ((next_block ^^ j) x) = 16" for j using assms(1) by (induction j) (simp_all add: length_next_block)
  then have k: "length (salsa20_wordtobyte ((next_block ^^ j) x)) = 64" for j by (rule length_wordtobyte)
  have "u4_block x m = concat (map (\<lambda>j. concat (map (\<lambda>a. onequad v orig a (drop (4 * a) m) ! j) [0, 4, 8, 12])) [0..<4])"
    unfolding u4_block_def Let_def orig_def [symmetric] v_def [symmetric] by simp
  also have "\<dots> = concat (map (\<lambda>j. xor_bytes (take 64 (drop (64 * j) m)) (salsa20_wordtobyte ((next_block ^^ j) x))) [0..<4])"
    using block by (intro arg_cong [where f = concat] map_cong) auto
  also have "\<dots> = xor_bytes (take 256 m) (key_stream x 4)"
    unfolding t key_stream_def upt4 using k [of 0] k [of 1] k [of 2] k [of 3] assms(2) by (simp add: xor_bytes_append)
  finally show ?thesis .
qed

lemma length_blocks: "length x = 16 \<Longrightarrow> length ((next_block ^^ i) x) = 16"
  by (induction i) (simp_all add: length_next_block)

lemma length_key_stream: "length x = 16 \<Longrightarrow> length (key_stream x n) = 64 * n"
  by (induction n) (simp_all add: key_stream_def length_wordtobyte length_blocks)

lemma u4_loop_stream:
  assumes "length x = 16"
  shows "u4_loop x m = ((next_block ^^ (4 * (length m div 256))) x,
    xor_bytes (take (256 * (length m div 256)) m) (key_stream x (4 * (length m div 256))), drop (256 * (length m div 256)) m)"
  using assms
proof (induction x m rule: u4_loop.induct)
  case (1 x m)
  show ?case
  proof (cases "256 \<le> length m")
    case True
    then obtain k where k: "length m div 256 = Suc k" "length (drop 256 m) div 256 = k" by (simp add: le_div_geq)
    have x: "length ((next_block ^^ i) x) = 16" for i using 1(2) by (induction i) (simp_all add: length_next_block)
    have l: "length (key_stream x 4) = 256" using length_key_stream [OF 1(2), of 4] by simp
    have "xor_bytes (take (256 * Suc k) m) (key_stream x (4 * Suc k)) =
      xor_bytes (take 256 m) (key_stream x 4) @ xor_bytes (take (256 * k) (drop 256 m)) (key_stream ((next_block ^^ 4) x) (4 * k))"
      using take_add [of 256 "256 * k" m] key_stream_add [of x 4 "4 * k"] True l by (simp add: xor_bytes_append)
    moreover have "(next_block ^^ (4 * Suc k)) x = (next_block ^^ (4 * k)) ((next_block ^^ 4) x)"
      by (simp only: mult_Suc_right add.commute [of 4] funpow_add o_apply)
    ultimately show ?thesis
      using 1 True k u4_block_scalar [OF 1(2) True] x [of 4]
      by (subst u4_loop.simps) (simp add: u4_next_blocks add.commute [of "256 * k"] del: funpow.simps)
  next
    case False
    then show ?thesis by (subst u4_loop.simps) (simp add: key_stream_def)
  qed
qed

text \<open>The two loops for what is left over, together.\<close>

lemma short_stream:
  assumes "length x = 16"
  shows "(let (x, out1, m) = u1_loop x m in if m = [] then (x, out1) else let (x, out) = scalar_loop x m in (x, out1 @ out)) =
    ((next_block ^^ ((length m + 63) div 64)) x, xor_bytes m (take (length m) (key_stream x ((length m + 63) div 64))))"
proof -
  define k where "k = length m div 64"
  define r where "r = drop (64 * k) m"
  have u: "u1_loop x m = ((next_block ^^ k) x, xor_bytes (take (64 * k) m) (key_stream x k), r)"
    using u1_loop_stream [OF assms, of m] by (simp add: k_def r_def)
  have lm: "length m = 64 * k + length r" "length r < 64" by (simp_all add: r_def k_def)
  have m: "m = take (64 * k) m @ r" by (simp add: r_def)
  note lk = length_key_stream [OF assms]
  show ?thesis
  proof (cases "r = []")
    case True
    then have n: "(length m + 63) div 64 = k" using lm by simp
    have t: "take (64 * k) m = m" "take (length m) (key_stream x k) = key_stream x k" using lm True lk [of k] by simp_all
    show ?thesis unfolding n u t using True by simp
  next
    case False
    then obtain a where a: "length r = Suc a" by (cases r) simp_all
    have n: "(length m + 63) div 64 = Suc k" using lm by (intro div_nat_eqI) (simp_all add: a)
    have s: "scalar_loop ((next_block ^^ k) x) r = ((next_block ^^ Suc k) x, xor_bytes r (take (length r) (salsa20_wordtobyte ((next_block ^^ k) x))))"
      using lm by (subst scalar_loop.simps) simp
    have "key_stream x (Suc k) = key_stream x k @ salsa20_wordtobyte ((next_block ^^ k) x)" by (simp add: key_stream_def)
    then have "xor_bytes m (take (length m) (key_stream x (Suc k))) =
      xor_bytes (take (64 * k) m) (key_stream x k) @ xor_bytes r (take (length r) (salsa20_wordtobyte ((next_block ^^ k) x)))"
      using lk [of k] lm xor_bytes_append [of "take (64 * k) m" "key_stream x k" r "take (length r) (salsa20_wordtobyte ((next_block ^^ k) x))"] m
      by simp
    then show ?thesis using u s False unfolding n by simp
  qed
qed

text \<open>All loops but the widest, as the code runs them one after the other.\<close>

lemma narrow_stream:
  assumes "length x = 16" and "m \<noteq> []"
  shows "(let (x, out4, m) = u4_loop x m
     in if m = [] then (x, out4)
        else let (x, out1, m) = u1_loop x m
             in if m = [] then (x, out4 @ out1) else let (x, out) = scalar_loop x m in (x, out4 @ out1 @ out)) =
    ((next_block ^^ ((length m + 63) div 64)) x, xor_bytes m (take (length m) (key_stream x ((length m + 63) div 64))))"
proof -
  define k where "k = length m div 256"
  define r where "r = drop (256 * k) m"
  define y where "y = (next_block ^^ (4 * k)) x"
  define j where "j = (length r + 63) div 64"
  have u: "u4_loop x m = (y, xor_bytes (take (256 * k) m) (key_stream x (4 * k)), r)"
    using u4_loop_stream [OF assms(1), of m] by (simp add: k_def r_def y_def)
  have lm: "length m = 256 * k + length r" by (simp add: r_def k_def)
  have "(length m + 63) div 64 = 4 * k + j" unfolding lm j_def by simp
  moreover have "key_stream x (4 * k + j) = key_stream x (4 * k) @ key_stream y j" by (simp add: key_stream_add y_def)
  moreover have "xor_bytes (take (256 * k) m @ r) (key_stream x (4 * k) @ take (length r) (key_stream y j)) =
      xor_bytes (take (256 * k) m) (key_stream x (4 * k)) @ xor_bytes r (take (length r) (key_stream y j))"
    using length_key_stream [OF assms(1), of "4 * k"] lm by (intro xor_bytes_append) simp
  moreover have "m = take (256 * k) m @ r" by (simp add: r_def)
  moreover have "(next_block ^^ (4 * k + j)) x = (next_block ^^ j) y"
    by (simp add: y_def funpow_add add.commute [of "4 * k"])
  ultimately have g: "((next_block ^^ ((length m + 63) div 64)) x, xor_bytes m (take (length m) (key_stream x ((length m + 63) div 64)))) =
      ((next_block ^^ j) y, xor_bytes (take (256 * k) m) (key_stream x (4 * k)) @ xor_bytes r (take (length r) (key_stream y j)))"
    using length_key_stream [OF assms(1), of "4 * k"] lm by simp
  have s: "(let (x, out1, m) = u1_loop y r in if m = [] then (x, out1) else let (x, out) = scalar_loop x m in (x, out1 @ out)) =
      ((next_block ^^ j) y, xor_bytes r (take (length r) (key_stream y j)))"
    using short_stream [of y r] length_blocks [OF assms(1)] by (simp add: y_def j_def)
  show ?thesis
  proof (cases "r = []")
    case True
    then have "j = 0" by (simp add: j_def)
    then show ?thesis unfolding g using True u lm by (auto simp: key_stream_def y_def)
  next
    case False
    then show ?thesis unfolding g using u s by (auto simp: Let_def split: prod.splits if_splits)
  qed
qed

end
