(* ===== verification/ChaCha_Wide.thy ===== *)
theory ChaCha_Wide
  imports ChaCha_Stream
begin

text \<open>
  The widest loop of the stream cipher, eight states in sixteen registers of eight words, and what all loops
  together compute.
\<close>

subsection \<open>Rounds\<close>

definition octs :: "u32 list list \<Rightarrow> bool" where
  "octs v \<longleftrightarrow> length v = 16 \<and> list_all (\<lambda>r. length r = 8) v"

lemma list8: "length r = 8 \<Longrightarrow> \<exists>a b c d e f g h. r = [a, b, c, d, e, f, g, h]"
  by (auto simp: numeral_eq_Suc length_Suc_conv)

lemma list8_halves: "length (r :: u32 list) = 8 \<Longrightarrow> length (take 4 r) = 4 \<and> length (drop 4 r) = 4"
  by simp

lemma wide_ops:
  assumes "length r = 8" and "length s = 8" and "l < 8"
  shows "add_epi32 r s ! l = r ! l + s ! l" "xor_si128 r s ! l = r ! l XOR s ! l"
    "mm256_shuffle_epi8 r rot16_wide ! l = ROTL32 (r ! l) 16" "mm256_shuffle_epi8 r rot8_wide ! l = ROTL32 (r ! l) 8"
    "vec8_rot r n ! l = ROTL32 (r ! l) n"
    "length (add_epi32 r s) = 8" "length (xor_si128 r s) = 8" "length (mm256_shuffle_epi8 r rot16_wide) = 8"
    "length (mm256_shuffle_epi8 r rot8_wide) = 8" "length (vec8_rot r n) = 8"
proof -
  have t: "take 16 rot16_wide = rot16" "drop 16 rot16_wide = rot16" "take 16 rot8_wide = rot8" "drop 16 rot8_wide = rot8"
    by (simp_all add: rot16_wide_def rot16_def rot8_wide_def rot8_def)
  obtain a b c d e f g h where r: "r = [a, b, c, d, e, f, g, h]" using list8 [OF assms(1)] by blast
  have "l = 0 \<or> l = 1 \<or> l = 2 \<or> l = 3 \<or> l = 4 \<or> l = 5 \<or> l = 6 \<or> l = 7" using assms(3) by auto
  then show "mm256_shuffle_epi8 r rot16_wide ! l = ROTL32 (r ! l) 16" "mm256_shuffle_epi8 r rot8_wide ! l = ROTL32 (r ! l) 8"
    unfolding mm256_shuffle_epi8_def t by (auto simp: r shuffles)
  show "add_epi32 r s ! l = r ! l + s ! l" "xor_si128 r s ! l = r ! l XOR s ! l" "vec8_rot r n ! l = ROTL32 (r ! l) n"
    "length (add_epi32 r s) = 8" "length (xor_si128 r s) = 8" "length (vec8_rot r n) = 8"
    using assms by (simp_all add: add_epi32_def xor_si128_def vec8_rot_def or_si128_def slli_epi32_def srli_epi32_def ROTL32_def)
  show "length (mm256_shuffle_epi8 r rot16_wide) = 8" "length (mm256_shuffle_epi8 r rot8_wide) = 8"
    by (simp_all add: mm256_shuffle_epi8_def shuffle_epi8_def)
qed

lemma oct_get: "octs v \<Longrightarrow> i < 16 \<Longrightarrow> v ! i ! l = lane l v ! i" "octs v \<Longrightarrow> i < 16 \<Longrightarrow> length (v ! i) = 8"
  by (auto simp: octs_def lane_def list_all_length)

lemma oct_put: "octs v \<Longrightarrow> length r = 8 \<Longrightarrow> octs (v[i := r])"
  by (auto simp: octs_def list_all_iff dest: set_update_subset_insert [THEN subsetD])

text \<open>The same lines on one state.\<close>

fun line1 :: "nat \<times> nat \<times> nat \<times> nat \<Rightarrow> u32 list \<Rightarrow> u32 list" where
  "line1 (a, b, c, d) x = (let x = x[a := x ! a + x ! b] in x[d := ROTL32 (x ! d XOR x ! a) 16])"
fun line2 :: "nat \<times> nat \<times> nat \<times> nat \<Rightarrow> u32 list \<Rightarrow> u32 list" where
  "line2 (a, b, c, d) x = (let x = x[c := x ! c + x ! d] in x[b := ROTL32 (x ! b XOR x ! c) 12])"
fun line3 :: "nat \<times> nat \<times> nat \<times> nat \<Rightarrow> u32 list \<Rightarrow> u32 list" where
  "line3 (a, b, c, d) x = (let x = x[a := x ! a + x ! b] in x[d := ROTL32 (x ! d XOR x ! a) 8])"
fun line4 :: "nat \<times> nat \<times> nat \<times> nat \<Rightarrow> u32 list \<Rightarrow> u32 list" where
  "line4 (a, b, c, d) x = (let x = x[c := x ! c + x ! d] in x[b := ROTL32 (x ! b XOR x ! c) 7])"

definition small :: "nat \<times> nat \<times> nat \<times> nat \<Rightarrow> bool" where
  "small = (\<lambda>(a, b, c, d). a < 16 \<and> b < 16 \<and> c < 16 \<and> d < 16)"

lemma lane_lines:
  assumes "octs v" and "small q" and "l < 8"
  shows "octs (vec8_line1 q v) \<and> lane l (vec8_line1 q v) = line1 q (lane l v)"
    "octs (vec8_line2 q v) \<and> lane l (vec8_line2 q v) = line2 q (lane l v)"
    "octs (vec8_line3 q v) \<and> lane l (vec8_line3 q v) = line3 q (lane l v)"
    "octs (vec8_line4 q v) \<and> lane l (vec8_line4 q v) = line4 q (lane l v)"
proof -
  obtain a b c d where q: "q = (a, b, c, d)" "a < 16" "b < 16" "c < 16" "d < 16" using assms(2) by (cases q) (auto simp: small_def)
  have "octs (v[i := add_epi32 (v ! i) (v ! j)]) \<and> lane l (v[i := add_epi32 (v ! i) (v ! j)]) = (lane l v)[i := lane l v ! i + lane l v ! j]"
    if "octs v" "i < 16" "j < 16" for v i j
    using wide_ops [OF oct_get(2) oct_get(2) assms(3), of v i v j] that oct_put by (simp add: lane_put(1) oct_get(1))
  note add = this
  have "octs (v[i := f (xor_si128 (v ! i) (v ! j))]) \<and> lane l (v[i := f (xor_si128 (v ! i) (v ! j))]) = (lane l v)[i := ROTL32 (lane l v ! i XOR lane l v ! j) n]"
    if "octs v" "i < 16" "j < 16" "\<And>t. length t = 8 \<Longrightarrow> length (f t) = 8 \<and> f t ! l = ROTL32 (t ! l) n" for v i j f n
    using wide_ops [OF oct_get(2) oct_get(2) assms(3), of v i v j] that oct_put by (simp add: lane_put(1) oct_get(1))
  note rot = this
  have f: "length t = 8 \<Longrightarrow> length (vec8_rot t n) = 8 \<and> vec8_rot t n ! l = ROTL32 (t ! l) n"
    "length t = 8 \<Longrightarrow> length (mm256_shuffle_epi8 t rot16_wide) = 8 \<and> mm256_shuffle_epi8 t rot16_wide ! l = ROTL32 (t ! l) 16"
    "length t = 8 \<Longrightarrow> length (mm256_shuffle_epi8 t rot8_wide) = 8 \<and> mm256_shuffle_epi8 t rot8_wide ! l = ROTL32 (t ! l) 8" for t n
    using wide_ops [of t t] assms(3) by simp_all
  show "octs (vec8_line1 q v) \<and> lane l (vec8_line1 q v) = line1 q (lane l v)"
    "octs (vec8_line2 q v) \<and> lane l (vec8_line2 q v) = line2 q (lane l v)"
    "octs (vec8_line3 q v) \<and> lane l (vec8_line3 q v) = line3 q (lane l v)"
    "octs (vec8_line4 q v) \<and> lane l (vec8_line4 q v) = line4 q (lane l v)"
    using add [OF assms(1)] rot [OF _ _ _ f(2)] rot [OF _ _ _ f(1)] rot [OF _ _ _ f(3)] q unfolding q(1)
    by (simp_all only: vec8_line1.simps vec8_line2.simps vec8_line3.simps vec8_line4.simps line1.simps line2.simps line3.simps line4.simps Let_def)
qed

definition lines_round :: "(nat \<times> nat \<times> nat \<times> nat) list \<Rightarrow> u32 list \<Rightarrow> u32 list" where
  "lines_round qs x = fold line4 qs (fold line3 qs (fold line2 qs (fold line1 qs x)))"

lemma lane_fold:
  assumes "octs v" and "list_all small qs" and "\<And>q v. small q \<Longrightarrow> octs v \<Longrightarrow> octs (f q v) \<and> lane l (f q v) = g q (lane l v)"
  shows "octs (fold f qs v) \<and> lane l (fold f qs v) = fold g qs (lane l v)"
  using assms(1,2) by (induction qs arbitrary: v) (simp_all add: assms(3))

lemma lane_round:
  assumes "octs v" and "list_all small qs" and "l < 8"
  shows "octs (vec8_round qs v) \<and> lane l (vec8_round qs v) = lines_round qs (lane l v)"
proof -
  note f = lane_fold [OF _ assms(2)]
  have 1: "octs (fold vec8_line1 qs v) \<and> lane l (fold vec8_line1 qs v) = fold line1 qs (lane l v)" if "octs v" for v
    using that lane_lines(1) assms(3) by (intro f) blast+
  have 2: "octs (fold vec8_line2 qs v) \<and> lane l (fold vec8_line2 qs v) = fold line2 qs (lane l v)" if "octs v" for v
    using that lane_lines(2) assms(3) by (intro f) blast+
  have 3: "octs (fold vec8_line3 qs v) \<and> lane l (fold vec8_line3 qs v) = fold line3 qs (lane l v)" if "octs v" for v
    using that lane_lines(3) assms(3) by (intro f) blast+
  have 4: "octs (fold vec8_line4 qs v) \<and> lane l (fold vec8_line4 qs v) = fold line4 qs (lane l v)" if "octs v" for v
    using that lane_lines(4) assms(3) by (intro f) blast+
  show ?thesis using 1 2 3 4 assms(1) by (simp add: vec8_round_def lines_round_def)
qed

lemma columns_round:
  assumes "qr (x0, x4, x8, x12) = (y0, y4, y8, y12)" and "qr (x1, x5, x9, x13) = (y1, y5, y9, y13)"
    and "qr (x2, x6, x10, x14) = (y2, y6, y10, y14)" and "qr (x3, x7, x11, x15) = (y3, y7, y11, y15)"
  shows "lines_round [(0, 4, 8, 12), (1, 5, 9, 13), (2, 6, 10, 14), (3, 7, 11, 15)] [x0, x1, x2, x3, x4, x5, x6, x7, x8, x9, x10, x11, x12, x13, x14, x15] =
    [y0, y1, y2, y3, y4, y5, y6, y7, y8, y9, y10, y11, y12, y13, y14, y15]"
  using assms unfolding qr_def Let_def case_prod_conv prod.inject
  by (elim conjE, hypsubst) (simp add: lines_round_def Let_def)

lemma diagonals_round:
  assumes "qr (x0, x5, x10, x15) = (y0, y5, y10, y15)" and "qr (x1, x6, x11, x12) = (y1, y6, y11, y12)"
    and "qr (x2, x7, x8, x13) = (y2, y7, y8, y13)" and "qr (x3, x4, x9, x14) = (y3, y4, y9, y14)"
  shows "lines_round [(0, 5, 10, 15), (1, 6, 11, 12), (2, 7, 8, 13), (3, 4, 9, 14)] [x0, x1, x2, x3, x4, x5, x6, x7, x8, x9, x10, x11, x12, x13, x14, x15] =
    [y0, y1, y2, y3, y4, y5, y6, y7, y8, y9, y10, y11, y12, y13, y14, y15]"
  using assms unfolding qr_def Let_def case_prod_conv prod.inject
  by (elim conjE, hypsubst) (simp add: lines_round_def Let_def)

lemma lines_double_round:
  assumes "length x = 16"
  shows "lines_round [(0, 5, 10, 15), (1, 6, 11, 12), (2, 7, 8, 13), (3, 4, 9, 14)]
    (lines_round [(0, 4, 8, 12), (1, 5, 9, 13), (2, 6, 10, 14), (3, 7, 11, 15)] x) = double_round x"
proof -
  obtain x0 x1 x2 x3 x4 x5 x6 x7 x8 x9 x10 x11 x12 x13 x14 x15
    where x: "x = [x0, x1, x2, x3, x4, x5, x6, x7, x8, x9, x10, x11, x12, x13, x14, x15]" using sixteen_words [OF assms] by blast
  obtain y0 y4 y8 y12 where 1: "qr (x0, x4, x8, x12) = (y0, y4, y8, y12)" using prod_cases4 by blast
  obtain y1 y5 y9 y13 where 2: "qr (x1, x5, x9, x13) = (y1, y5, y9, y13)" using prod_cases4 by blast
  obtain y2 y6 y10 y14 where 3: "qr (x2, x6, x10, x14) = (y2, y6, y10, y14)" using prod_cases4 by blast
  obtain y3 y7 y11 y15 where 4: "qr (x3, x7, x11, x15) = (y3, y7, y11, y15)" using prod_cases4 by blast
  obtain z0 z5 z10 z15 where 5: "qr (y0, y5, y10, y15) = (z0, z5, z10, z15)" using prod_cases4 by blast
  obtain z1 z6 z11 z12 where 6: "qr (y1, y6, y11, y12) = (z1, z6, z11, z12)" using prod_cases4 by blast
  obtain z2 z7 z8 z13 where 7: "qr (y2, y7, y8, y13) = (z2, z7, z8, z13)" using prod_cases4 by blast
  obtain z3 z4 z9 z14 where 8: "qr (y3, y4, y9, y14) = (z3, z4, z9, z14)" using prod_cases4 by blast
  show ?thesis unfolding x columns_round [OF 1 2 3 4] diagonals_round [OF 5 6 7 8] double_round_words [OF 1 2 3 4 5 6 7 8] ..
qed

lemma wide_rounds:
  assumes "octs v" and "l < 8"
  shows "octs ((vec8_double_round ^^ n) v) \<and> lane l ((vec8_double_round ^^ n) v) = (double_round ^^ n) (lane l v)"
proof -
  have "octs v \<Longrightarrow> octs (vec8_double_round v) \<and> lane l (vec8_double_round v) = double_round (lane l v)" for v
  proof -
    assume v: "octs v"
    then have len: "length (lane l v) = 16" by (simp add: lane_def octs_def)
    have s: "list_all small [(0, 4, 8, 12), (1, 5, 9, 13), (2, 6, 10, 14), (3, 7, 11, 15)]"
      "list_all small [(0, 5, 10, 15), (1, 6, 11, 12), (2, 7, 8, 13), (3, 4, 9, 14)]" by (simp_all add: small_def)
    show ?thesis
      using lane_round [OF v s(1) assms(2)] lane_round [OF _ s(2) assms(2)] lines_double_round [OF len]
      by (simp add: vec8_double_round_def Let_def)
  qed
  then show ?thesis using assms(1) by (induction n) simp_all
qed

subsection \<open>Blocks\<close>

lemma u8_next_blocks: "length x = 16 \<Longrightarrow> u8_next x = (next_block ^^ 8) x"
  using next_block_counter [of x 8] by (simp add: u8_next_def set_counter64_def Let_def)

lemma transposed_counters:
  fixes l0 l1 l2 l3 l4 l5 l6 l7 h0 h1 h2 h3 h4 h5 h6 h7 :: u32
  defines "x_12 \<equiv> halfwise unpacklo_epi32 [l0, h0, l1, h1, l2, h2, l3, h3] [l4, h4, l5, h5, l6, h6, l7, h7]"
    and "x_13 \<equiv> halfwise unpackhi_epi32 [l0, h0, l1, h1, l2, h2, l3, h3] [l4, h4, l5, h5, l6, h6, l7, h7]"
  shows "permutevar8x32 (halfwise unpacklo_epi32 x_12 x_13) (rev [7, 6, 3, 2, 5, 4, 1, 0]) = [l0, l1, l2, l3, l4, l5, l6, l7]"
    and "permutevar8x32 (halfwise unpackhi_epi32 x_12 x_13) (rev [7, 6, 3, 2, 5, 4, 1, 0]) = [h0, h1, h2, h3, h4, h5, h6, h7]"
  by (simp_all add: x_12_def x_13_def halfwise_def unpacklo_epi32_def unpackhi_epi32_def permutevar8x32_def)

lemma u8_orig_lanes:
  assumes "length x = 16" and "l < 8"
  shows "octs (u8_orig x) \<and> lane l (u8_orig x) = (next_block ^^ l) x"
proof -
  define c where "c = counter64 x"
  have a: "add_epi64 (set_epi64x p q) (set_epi64x r s) = set_epi64x (p + r) (q + s)" for p q r s
    unfolding add_epi64_def Let_def set_epi64x_def by (simp add: halves(3))
  have w: "halfwise add_epi64 (set4_epi64x d e f g) (set4_epi64x c c c c) = [lo (g + c), hi (g + c), lo (f + c), hi (f + c), lo (e + c), hi (e + c), lo (d + c), hi (d + c)]" for d e f g
  proof -
    have "length (set_epi64x p q) = 4" for p q by (simp add: set_epi64x_def)
    then have "halfwise add_epi64 (set4_epi64x d e f g) (set4_epi64x c c c c) = set4_epi64x (d + c) (e + c) (f + c) (g + c)"
      by (simp add: halfwise_def set4_epi64x_def a)
    then show ?thesis by (simp only: set4_epi64x_def set_epi64x_def append.simps)
  qed
  have o: "u8_orig x = (map (replicate 8) x)[12 := [lo (0 + c), lo (1 + c), lo (2 + c), lo (3 + c), lo (4 + c), lo (5 + c), lo (6 + c), lo (7 + c)],
      13 := [hi (0 + c), hi (1 + c), hi (2 + c), hi (3 + c), hi (4 + c), hi (5 + c), hi (6 + c), hi (7 + c)]]"
    unfolding u8_orig_def Let_def c_def [symmetric] w transposed_counters ..
  have q: "octs (map (replicate 8) x)" using assms(1) by (simp add: octs_def list_all_iff)
  have m: "lane l (map (replicate 8) x) = x" using assms(2) by (simp add: lane_def map_idI)
  have "l = 0 \<or> l = 1 \<or> l = 2 \<or> l = 3 \<or> l = 4 \<or> l = 5 \<or> l = 6 \<or> l = 7" using assms(2) by auto
  then have "lane l (u8_orig x) = set_counter64 x (c + of_nat l)"
    unfolding o lane_put(1) m set_counter64_def by (elim disjE) (simp_all add: add.commute [of c])
  then show ?thesis using next_block_counter [OF assms(1), of l] oct_put [OF oct_put [OF q]] unfolding o c_def by simp
qed

lemma octo_words:
  assumes "octs x" and "octs orig" and "a = 0 \<or> a = 8" and "j < 8" and "w = map2 add_epi32 x orig"
  shows "oneocto x orig a m ! j =
    storeu_si128 (xor_si128 (take 8 (drop a (lane j w))) (loadu_si256 (drop (64 * j) m)))"
proof -
  have l: "length x = 16" "length orig = 16" "length w = 16" using assms(1,2,5) by (simp_all add: octs_def)
  have w: "w ! i = add_epi32 (x ! i) (orig ! i)" "length (w ! i) = 8" if "i < 16" for i
    using that l assms(5) wide_ops(6) [OF oct_get(2) [OF assms(1) that] oct_get(2) [OF assms(2) that], of 0] by simp_all
  define part where "part b = (\<lambda>j. [w ! b ! j, w ! (b + 1) ! j, w ! (b + 2) ! j, w ! (b + 3) ! j])" for b
  have u: "onequad_unpck x orig b = map (\<lambda>i. part b i @ part b (i + 4)) [0, 1, 2, 3]" if "b \<le> 12" for b
  proof -
    have wl: "length (w ! (b + k)) = 8" if "k < 4" for k using w(2) [of "b + k"] that \<open>b \<le> 12\<close> by simp
    obtain p0 p1 p2 p3 p4 p5 p6 p7 where p: "w ! b = [p0, p1, p2, p3, p4, p5, p6, p7]" using list8 [OF wl [of "0"]] by auto
    obtain q0 q1 q2 q3 q4 q5 q6 q7 where q: "w ! (b + 1) = [q0, q1, q2, q3, q4, q5, q6, q7]" using list8 [OF wl [of "1"]] by auto
    obtain r0 r1 r2 r3 r4 r5 r6 r7 where r: "w ! (b + 2) = [r0, r1, r2, r3, r4, r5, r6, r7]" using list8 [OF wl [of "2"]] by auto
    obtain s0 s1 s2 s3 s4 s5 s6 s7 where s: "w ! (b + 3) = [s0, s1, s2, s3, s4, s5, s6, s7]" using list8 [OF wl [of "3"]] by auto
    have e: "onequad_unpck x orig b = (let x_a = w ! b; x_b = w ! (b + 1); x_c = w ! (b + 2); x_d = w ! (b + 3);
        t_a = halfwise unpacklo_epi32 x_a x_b; t_b = halfwise unpacklo_epi32 x_c x_d;
        t_c = halfwise unpackhi_epi32 x_a x_b; t_d = halfwise unpackhi_epi32 x_c x_d
      in [halfwise unpacklo_epi64 t_a t_b, halfwise unpackhi_epi64 t_a t_b, halfwise unpacklo_epi64 t_c t_d, halfwise unpackhi_epi64 t_c t_d])"
      unfolding onequad_unpck_def using w(1) that by simp
    show ?thesis unfolding e Let_def part_def p q r s
      by (simp add: halfwise_def unpacklo_epi32_def unpackhi_epi32_def unpacklo_epi64_def unpackhi_epi64_def)
  qed
  have lp: "length (part b i) = 4" for b i by (simp add: part_def)
  have t: "take 8 (drop a (lane j w)) = part a j @ part (a + 4) j"
    using l(3) assms(3) by (auto simp: part_def lane_def take_map drop_map numeral_eq_Suc Cons_nth_drop_Suc [symmetric] take_Suc_conv_app_nth)
  have perm: "permute2x128 (p @ p') (q @ q') 0x20 = p @ q" "permute2x128 (p @ p') (q @ q') 0x31 = p' @ q'"
    if "length p = 4" "length q = 4" for p p' q q' using that by (simp_all add: permute2x128_def Let_def)
  have "a \<le> 12" "a + 4 \<le> 12" using assms(3) by auto
  note uu = u [OF this(1)] u [OF this(2)]
  have "j = 0 \<or> j = 1 \<or> j = 2 \<or> j = 3 \<or> j = 4 \<or> j = 5 \<or> j = 6 \<or> j = 7" using assms(4) by auto
  then show ?thesis unfolding t oneocto_def Let_def uu upt4
    by (elim disjE) (simp_all add: perm lp ac_simps)
qed

lemma store_xor_wide:
  assumes "length r = 8" and "32 \<le> length p"
  shows "storeu_si128 (xor_si128 r (loadu_si256 p)) = xor_bytes (take 32 p) (storeu_si128 r)"
proof -
  have app: "storeu_si128 (a @ b) = storeu_si128 a @ storeu_si128 b" for a b by (simp add: storeu_si128_def)
  have "[0..<8] = [0..<4] @ map (\<lambda>i. i + 4) [0..<4]" by (simp add: upt_rec)
  then have p: "loadu_si256 p = loadu_si128 p @ loadu_si128 (drop 16 p)"
    by (simp add: loadu_si256_def loadu_si128_def upt4 add.commute)
  have l: "length (loadu_si128 q) = 4" for q by (simp add: loadu_si128_def)
  have "xor_si128 r (loadu_si256 p) = xor_si128 (take 4 r) (loadu_si128 p) @ xor_si128 (drop 4 r) (loadu_si128 (drop 16 p))"
  proof -
    have "xor_si128 (a @ b) (c @ d) = xor_si128 a c @ xor_si128 b d" if "length a = length c" for a b c d
      using that by (simp add: xor_si128_def)
    from this [of "take 4 r" "loadu_si128 p" "drop 4 r" "loadu_si128 (drop 16 p)"] show ?thesis using assms(1) l by (simp add: p)
  qed
  moreover have "take 32 p = take 16 p @ take 16 (drop 16 p)" using take_add [of 16 16 p] by simp
  moreover have "storeu_si128 r = storeu_si128 (take 4 r) @ storeu_si128 (drop 4 r)" unfolding app [symmetric] by simp
  ultimately show ?thesis using assms by (simp add: app store_xor_load xor_bytes_append length_store)
qed

lemma u8_block_scalar:
  assumes "length x = 16" and "512 \<le> length m"
  shows "u8_block x m = xor_bytes (take 512 m) (key_stream x 8)"
proof -
  define orig where "orig = u8_orig x"
  define v where "v = (vec8_double_round ^^ 10) orig"
  define w where "w = map2 add_epi32 v orig"
  have q: "octs orig" "octs v" using u8_orig_lanes [OF assms(1), of 0] wide_rounds [of orig 0 10] by (simp_all add: orig_def v_def)
  have block: "oneocto v orig 0 m ! j @ oneocto v orig 8 (drop 32 m) ! j =
      xor_bytes (take 64 (drop (64 * j) m)) (salsa20_wordtobyte ((next_block ^^ j) x))" if j: "j < 8" for j
  proof -
    define z where "z = lane j w"
    have "lane j v = (double_round ^^ 10) (lane j orig)" using wide_rounds [OF q(1) j, of 10] by (simp add: v_def)
    moreover have "lane j orig = (next_block ^^ j) x" using u8_orig_lanes [OF assms(1) j] by (simp add: orig_def)
    moreover have z: "z = map2 (+) (lane j v) (lane j orig)" "length z = 16"
    proof -
      show "z = map2 (+) (lane j v) (lane j orig)" unfolding z_def w_def
        using q wide_ops(1) [OF _ _ j] by (intro nth_equalityI) (auto simp: lane_def octs_def list_all_length)
      show "length z = 16" using q by (simp add: z_def w_def lane_def octs_def)
    qed
    ultimately have b: "salsa20_wordtobyte ((next_block ^^ j) x) = storeu_si128 z"
      unfolding salsa20_wordtobyte_def Let_def storeu_si128_def z(1) by (simp add: comp_def split_def)
    define n where "n = drop (64 * j) m"
    have n: "64 \<le> length n" using assms(2) j by (simp add: n_def)
    have o: "oneocto v orig 0 m ! j = xor_bytes (take 32 n) (storeu_si128 (take 8 z))"
      "oneocto v orig 8 (drop 32 m) ! j = xor_bytes (take 32 (drop 32 n)) (storeu_si128 (drop 8 z))"
      using octo_words [OF q(2,1) _ j w_def, of 0 m] octo_words [OF q(2,1) _ j w_def, of 8 "drop 32 m"] z(2) n
      by (simp_all add: store_xor_wide z_def [symmetric] n_def ac_simps)
    have t: "take 64 n = take 32 n @ take 32 (drop 32 n)" using take_add [of 32 32 n] by simp
    have "storeu_si128 z = storeu_si128 (take 8 z) @ storeu_si128 (drop 8 z)" by (simp add: storeu_si128_def flip: concat_append map_append)
    then show ?thesis unfolding b n_def [symmetric] t o using n z(2) by (simp add: xor_bytes_append length_store)
  qed
  have k: "length (salsa20_wordtobyte ((next_block ^^ j) x)) = 64" for j using assms(1) by (intro length_wordtobyte length_blocks)
  have u: "u8_block x m = concat (map (\<lambda>j. xor_bytes (take 64 (drop (64 * j) m)) (salsa20_wordtobyte ((next_block ^^ j) x))) [0..<8])"
    unfolding u8_block_def Let_def orig_def [symmetric] v_def [symmetric]
    using block by (intro arg_cong [where f = concat] map_cong) auto
  have "concat (map (\<lambda>j. xor_bytes (take 64 (drop (64 * j) m)) (salsa20_wordtobyte ((next_block ^^ j) x))) [0..<n]) =
      xor_bytes (take (64 * n) m) (key_stream x n)" if "64 * n \<le> length m" for n
    using that
  proof (induction n)
    case (Suc n)
    have "take (64 * Suc n) m = take (64 * n) m @ take 64 (drop (64 * n) m)" using take_add [of "64 * n" 64 m] by (simp add: add.commute)
    moreover have "key_stream x (Suc n) = key_stream x n @ salsa20_wordtobyte ((next_block ^^ n) x)" by (simp add: key_stream_def)
    ultimately show ?case using Suc length_key_stream [OF assms(1), of n] by (simp add: xor_bytes_append)
  qed (simp add: key_stream_def)
  from this [of 8] show ?thesis using assms(2) unfolding u by simp
qed

lemma u8_loop_stream:
  assumes "length x = 16"
  shows "u8_loop x m = ((next_block ^^ (8 * (length m div 512))) x,
    xor_bytes (take (512 * (length m div 512)) m) (key_stream x (8 * (length m div 512))), drop (512 * (length m div 512)) m)"
  using assms
proof (induction x m rule: u8_loop.induct)
  case (1 x m)
  show ?case
  proof (cases "512 \<le> length m")
    case True
    then obtain k where k: "length m div 512 = Suc k" "length (drop 512 m) div 512 = k" by (simp add: le_div_geq)
    have l: "length (key_stream x 8) = 512" using length_key_stream [OF 1(2), of 8] by simp
    have "xor_bytes (take (512 * Suc k) m) (key_stream x (8 * Suc k)) =
      xor_bytes (take 512 m) (key_stream x 8) @ xor_bytes (take (512 * k) (drop 512 m)) (key_stream ((next_block ^^ 8) x) (8 * k))"
      using take_add [of 512 "512 * k" m] key_stream_add [of x 8 "8 * k"] True l by (simp add: xor_bytes_append)
    moreover have "(next_block ^^ (8 * Suc k)) x = (next_block ^^ (8 * k)) ((next_block ^^ 8) x)"
      by (simp only: mult_Suc_right add.commute [of 8] funpow_add o_apply)
    ultimately show ?thesis
      using 1 True k u8_block_scalar [OF 1(2) True] length_blocks [OF 1(2), of 8]
      by (subst u8_loop.simps) (simp add: u8_next_blocks add.commute [of "512 * k"] del: funpow.simps)
  next
    case False
    then show ?thesis by (subst u8_loop.simps) (simp add: key_stream_def)
  qed
qed

subsection \<open>Encryption\<close>

lemma encrypt_stream:
  assumes "length x = 16"
  shows "ECRYPT_encrypt_bytes x m = ((next_block ^^ ((length m + 63) div 64)) x,
    xor_bytes m (take (length m) (key_stream x ((length m + 63) div 64))))"
proof -
  define k where "k = length m div 512"
  define r where "r = drop (512 * k) m"
  define y where "y = (next_block ^^ (8 * k)) x"
  define j where "j = (length r + 63) div 64"
  have u: "u8_loop x m = (y, xor_bytes (take (512 * k) m) (key_stream x (8 * k)), r)"
    using u8_loop_stream [OF assms, of m] by (simp add: k_def r_def y_def)
  have lm: "length m = 512 * k + length r" by (simp add: r_def k_def)
  have n: "(length m + 63) div 64 = 8 * k + j" unfolding lm j_def by simp
  have m: "m = take (512 * k) m @ r" by (simp add: r_def)
  have lt: "length (take (512 * k) m) = length (key_stream x (8 * k))" using length_key_stream [OF assms, of "8 * k"] lm by simp
  have "take (length m) (key_stream x (8 * k + j)) = key_stream x (8 * k) @ take (length r) (key_stream y j)"
    using lt lm by (simp add: key_stream_add y_def)
  then have x: "xor_bytes m (take (length m) (key_stream x (8 * k + j))) =
      xor_bytes (take (512 * k) m) (key_stream x (8 * k)) @ xor_bytes r (take (length r) (key_stream y j))"
    using xor_bytes_append [OF lt, of r "take (length r) (key_stream y j)"] m by simp
  have b: "(next_block ^^ (8 * k + j)) x = (next_block ^^ j) y" by (simp add: y_def funpow_add add.commute [of "8 * k"])
  show ?thesis unfolding n x b
  proof (cases "r = []")
    case True
    then have "j = 0" by (simp add: j_def)
    then show "ECRYPT_encrypt_bytes x m = ((next_block ^^ j) y, xor_bytes (take (512 * k) m) (key_stream x (8 * k)) @ xor_bytes r (take (length r) (key_stream y j)))"
      using True u lm by (cases "m = []") (auto simp: ECRYPT_encrypt_bytes_def key_stream_def y_def)
  next
    case False
    then have "m \<noteq> []" by (auto simp: r_def)
    then show "ECRYPT_encrypt_bytes x m = ((next_block ^^ j) y, xor_bytes (take (512 * k) m) (key_stream x (8 * k)) @ xor_bytes r (take (length r) (key_stream y j)))"
      using False u narrow_stream [OF length_blocks [OF assms] False, of "8 * k"]
      by (auto simp: ECRYPT_encrypt_bytes_def Let_def y_def [symmetric] j_def [symmetric] split: prod.splits if_splits)
  qed
qed

text \<open>C15: \<open>ECRYPT_encrypt_bytes\<close> adds a key stream to the message: the 64-byte blocks that the scalar code
  \<open>salsa20_wordtobyte\<close> computes for successive values of the 64-bit block counter, whether a block is made
  by the vector loop or by the scalar loop; and it leaves the counter behind the last block used.\<close>

theorem chacha_key_stream:
  assumes "length x = 16"
  shows "ECRYPT_encrypt_bytes x m = ((next_block ^^ ((length m + 63) div 64)) x,
    xor_bytes m (take (length m) (concat (map (\<lambda>i. salsa20_wordtobyte ((next_block ^^ i) x)) [0..<(length m + 63) div 64]))))"
  using encrypt_stream [OF assms] by (simp add: key_stream_def)

lemma chacha_key_stream_witness:
  "fst (ECRYPT_encrypt_bytes (replicate 16 0) (replicate 300 7)) = (next_block ^^ 5) (replicate 16 0) \<and>
   snd (ECRYPT_encrypt_bytes (replicate 16 0) (replicate 300 7)) = xor_bytes (replicate 300 7)
     (take 300 (concat (map (\<lambda>i. salsa20_wordtobyte ((next_block ^^ i) (replicate 16 0))) [0..<5])))"
  using chacha_key_stream [of "replicate 16 0" "replicate 300 7"] by (simp del: funpow.simps)

text \<open>Decryption with the state that encryption started from returns the message.\<close>

lemma chacha_roundtrip:
  assumes "length x = 16"
  shows "snd (ECRYPT_decrypt_bytes x (snd (ECRYPT_encrypt_bytes x m))) = m"
proof -
  have "length ((next_block ^^ i) x) = 16" for i using assms by (induction i) (simp_all add: length_next_block)
  then have l: "length (key_stream x n) = 64 * n" for n
    by (induction n) (simp_all add: key_stream_def length_wordtobyte)
  have "length m \<le> 64 * ((length m + 63) div 64)" by simp
  then show ?thesis
    using l [of "(length m + 63) div 64"]
    by (simp add: ECRYPT_decrypt_bytes_def encrypt_stream [OF assms] xor_bytes_cancel)
qed


end
