(* ===== verification/Ksnmss.thy ===== *)
theory Ksnmss
  imports ChaCha Cff
begin

text \<open>
  The K2SN-MSS signature scheme of \<open>k2sn/ksnmss.c\<close>: keys of the one-time instances, the L tree over the
  component keys of an instance, generation of the Merkle tree, signing with the traversal of the tree, and
  verification. The hash function SWIFFT (\<open>swifft16/swifft-avx2-16.c\<close>) is a parameter, because its tables
  are not part of the repository: \<open>mss_env\<close> holds \<open>set_Key\<close>, which makes a SWIFFT key from an index
  and a height, SWIFFT on 128 bytes and its generalisation to 1024 small coefficients.
\<close>

type_synonym node = bytes
type_synonym sk_node = bytes

record 'k mss_env =
  set_Key :: "u32 \<Rightarrow> u32 \<Rightarrow> 'k"
  SWIFFT :: "'k \<Rightarrow> sk_node \<Rightarrow> node"
  gSWIFFT :: "'k \<Rightarrow> u8 list \<Rightarrow> u32 list"
  system_seed :: bytes
  system_iv :: bytes
  randompad_seed :: bytes
  randompad_iv :: bytes

text \<open>\<open>mssnode\<close> is a node with its height and its index among the nodes of that height.\<close>

type_synonym mssnode = "node \<times> nat \<times> nat"

text \<open>One of the treehash instances; the part of the stack array up to \<open>top\<close> is a list, its head on top.\<close>

record treehash =
  th_v :: node
  th_treestack :: "mssnode list"
  th_finalized :: nat
  th_startleaf :: nat
  th_lowheight :: nat

text \<open>The global variables.\<close>

record mss_state =
  ms_auth :: "node list"
  ms_keep :: "node list"
  ms_retain :: node
  ms_MSSPK :: node
  ms_instance :: "treehash list"
  ms_component_key :: "nat list"

definition infy :: nat where
  "infy = 999999"

definition updateiter :: nat where
  "updateiter = 20 div 2 - 1"

subsection \<open>Hashing two nodes into one\<close>

definition set_random_pad :: "'k mss_env \<Rightarrow> u32 \<Rightarrow> u32 \<Rightarrow> bytes" where
  "set_random_pad env indx height =
     (let seed_ctx = ECRYPT_keysetup (replicate 16 0) (randompad_seed env) 256;
          seed_ctx = ECRYPT_ivsetup seed_ctx (randompad_iv env);
          ina = replicate 128 0;
          ina = ina[0 := ucast (indx AND 255), 1 := ucast (drop_bit 8 indx AND 255), 2 := ucast (drop_bit 16 indx AND 255),
                    3 := ucast (drop_bit 24 indx AND 255), 64 := ucast height]
      in snd (ECRYPT_encrypt_bytes seed_ctx ina))"

text \<open>144 bytes are folded into 128: the last 16 bytes of the left node meet the first 16 of the right.\<close>

definition merge_nodes :: "node \<Rightarrow> node \<Rightarrow> sk_node" where
  "merge_nodes left right = take 56 left @ xor_bytes (take 16 (drop 56 left)) (take 16 right) @ take 56 (drop 16 right)"

definition hash_pair :: "'k mss_env \<Rightarrow> u32 \<Rightarrow> u32 \<Rightarrow> node \<Rightarrow> node \<Rightarrow> node" where
  "hash_pair env indx height left right =
     (let rdp = set_random_pad env indx height;
          temp = xor_bytes (merge_nodes left right) rdp
      in SWIFFT env (set_Key env indx height) temp)"

subsection \<open>A one-time instance\<close>

definition id_bytes :: "u32 \<Rightarrow> bytes" where
  "id_bytes id_t =
     [ucast (id_t AND 0xFF), ucast (drop_bit 8 id_t AND 0xFF), ucast (drop_bit 16 id_t AND 0xFF), ucast (drop_bit 24 id_t AND 0xFF)]
     @ replicate 28 0"

text \<open>The loops encrypt the index of the component with the running state of the stream cipher.\<close>

primrec component_loop :: "nat \<Rightarrow> u32 list \<times> sk_node list \<times> bytes \<Rightarrow> u32 list \<times> sk_node list \<times> bytes" where
  "component_loop 0 = (\<lambda>(ctx, sk, component_id). (ctx, sk, component_id))"
| "component_loop (Suc n) = (\<lambda>(ctx, sk, component_id).
     let (ctx, key) = ECRYPT_encrypt_bytes ctx component_id
     in component_loop n (ctx, sk @ [key], component_id[0 := component_id ! 0 + 1]))"

definition generate_secret_key_OTS :: "u32 list \<Rightarrow> bytes \<Rightarrow> sk_node list" where
  "generate_secret_key_OTS seed_ctx idu8 =
     (let OTS_seed = snd (ECRYPT_encrypt_bytes seed_ctx idu8);
          ctx = ECRYPT_keysetup (replicate 16 0) OTS_seed 256;
          ctx = ECRYPT_ivsetup ctx OTS_seed;
          component_id = (replicate 128 0)[0 := 1];
          (ctx, sk, component_id) = component_loop 255 (ctx, [], component_id);
          component_id = component_id[0 := 0, 1 := 1];
          (ctx, sk, component_id) = component_loop 7 (ctx, sk, component_id)
      in sk)"

definition generate_public_key_OTS :: "'k mss_env \<Rightarrow> sk_node list \<Rightarrow> 'k \<Rightarrow> node list" where
  "generate_public_key_OTS env sk A = map (SWIFFT env A) sk"

text \<open>The start of \<open>key_generation\<close>, of \<open>ksnmss_sign\<close> and of an update: both keys of instance \<open>idx\<close>.\<close>

definition ots_secret :: "'k mss_env \<Rightarrow> u32 \<Rightarrow> sk_node list" where
  "ots_secret env idx =
     (let seed_ctx = ECRYPT_keysetup (replicate 16 0) (system_seed env) 256;
          seed_ctx = ECRYPT_ivsetup seed_ctx (system_iv env)
      in generate_secret_key_OTS seed_ctx (id_bytes idx))"

definition ots_public :: "'k mss_env \<Rightarrow> u32 \<Rightarrow> node list" where
  "ots_public env idx = generate_public_key_OTS env (ots_secret env idx) (set_Key env idx 0)"

subsection \<open>The L tree\<close>

text \<open>One layer, computed in place from the front: node \<open>i\<close> from nodes \<open>2 i\<close> and \<open>2 i + 1\<close>.\<close>

definition l_layer :: "'k mss_env \<Rightarrow> u32 \<Rightarrow> u32 \<Rightarrow> nat \<Rightarrow> node list \<Rightarrow> node list" where
  "l_layer env id_t height w internal_node =
     fold (\<lambda>i nodes. nodes[i := hash_pair env (id_t + of_nat i) height (nodes ! (2 * i)) (nodes ! (2 * i + 1))]) [0..<w] internal_node"

text \<open>The loop over the upper layers, for \<open>k\<close> more of them.\<close>

fun l_layers :: "'k mss_env \<Rightarrow> nat \<Rightarrow> u32 \<Rightarrow> nat \<Rightarrow> u32 \<Rightarrow> node list \<Rightarrow> node list" where
  "l_layers env 0 id_t w l1 internal_node = internal_node"
| "l_layers env (Suc k) id_t w l1 internal_node =
     (let id_t = id_t div 2 in l_layers env k id_t (w div 2) (l1 + 1) (l_layer env id_t l1 w internal_node))"

definition create_L_tree :: "'k mss_env \<Rightarrow> node list \<Rightarrow> u32 \<Rightarrow> node" where
  "create_L_tree env pk idx =
     (let id_t = push_bit 9 idx;
          internal_node = map (\<lambda>i. hash_pair env (id_t + of_nat i) 0 (pk ! (2 * i)) (pk ! (2 * i + 1))) [0..<6] @ replicate 125 [];
          id_t = id_t div 2;
          internal_node = l_layer env id_t 1 3 internal_node;
          internal_node = fold (\<lambda>i nodes. nodes[i - 3 := hash_pair env (id_t + of_nat i) 1 (pk ! (2 * i)) (pk ! (2 * i + 1))]) [6..<131] internal_node;
          internal_node = l_layers env 7 id_t 64 2 internal_node
      in internal_node ! 0)"

definition leaf_node :: "'k mss_env \<Rightarrow> nat \<Rightarrow> node" where
  "leaf_node env i = create_L_tree env (ots_public env (of_nat i)) (of_nat i)"

subsection \<open>Key generation\<close>

text \<open>What the loop of \<open>key_generation\<close> keeps of the nodes it passes: those of index 1 are the first
  authentication path, those of index 3 are what the treehash instances start with.\<close>

definition keep_node :: "mssnode \<Rightarrow> mss_state \<Rightarrow> mss_state" where
  "keep_node n s = (case n of (key, height, indx) \<Rightarrow>
     let s = (if indx = 1 then s\<lparr>ms_auth := (ms_auth s)[height := key]\<rparr> else s)
     in if indx = 3 then
          if height < 18 then
            s\<lparr>ms_instance := (ms_instance s)[height :=
              (ms_instance s ! height)\<lparr>th_v := key, th_finalized := 1, th_lowheight := infy, th_treestack := []\<rparr>]\<rparr>
          else if height = 18 then s\<lparr>ms_retain := key\<rparr> else s
        else s)"

fun keygen_push :: "'k mss_env \<Rightarrow> mssnode list \<Rightarrow> mssnode \<Rightarrow> mss_state \<Rightarrow> mssnode list \<times> mss_state" where
  "keygen_push env [] node s = ([node], s)"
| "keygen_push env ((top_key, top_height, top_indx) # stack) (key, height, indx) s =
     (if top_height = height then
        keygen_push env stack (hash_pair env (of_nat (indx div 2)) (of_nat (height + 10)) top_key key, height + 1, indx div 2)
          (keep_node (key, height, indx) s)
      else ((key, height, indx) # (top_key, top_height, top_indx) # stack, s))"

definition keygen_loop :: "'k mss_env \<Rightarrow> nat \<Rightarrow> mssnode list \<times> mss_state \<Rightarrow> mssnode list \<times> mss_state" where
  "keygen_loop env n = fold (\<lambda>i (stack, s). keygen_push env stack (leaf_node env i, 0, i) s) [0..<n]"

definition key_generation :: "'k mss_env \<Rightarrow> mss_state \<Rightarrow> mss_state" where
  "key_generation env s =
     (let (stack, s) = keygen_loop env (2 ^ 20) ([], s) in s\<lparr>ms_MSSPK := fst (hd stack)\<rparr>)"

subsection \<open>Signing\<close>

record ksnmss_sig =
  sig_id :: u32
  sig_message :: bytes
  sig_sksum :: "u8 list"
  sig_pk :: "node list"
  sig_auth :: "node list"

definition sk_bits :: "sk_node \<Rightarrow> u8 list" where
  "sk_bits key = concat (map (\<lambda>b. map (\<lambda>j. drop_bit j (b AND push_bit j 1)) [0..<8]) key)"

definition sum_secrets :: "sk_node list \<Rightarrow> nat list \<Rightarrow> u8 list" where
  "sum_secrets sk component_key =
     fold (\<lambda>le sksum. map2 (+) sksum (sk_bits (sk ! (component_key ! le)))) [1..<131] (sk_bits (sk ! (component_key ! 0)))"

text \<open>The number of zeros at the end of \<open>id_t\<close>, which is not 0.\<close>

function tau_loop :: "nat \<Rightarrow> nat" where
  "tau_loop id_t = (if id_t = 0 \<or> odd id_t then 0 else Suc (tau_loop (id_t div 2)))"
  by pat_completeness auto
termination by (relation "measure id") auto

declare tau_loop.simps [simp del]

definition sign_tau :: "nat \<Rightarrow> nat" where
  "sign_tau n = (if even n then 0 else tau_loop (n + 1))"

text \<open>Steps 2 to 4 of \<open>ksnmss_sign\<close>: the authentication path of the next instance. \<open>None\<close> is the write behind
  \<open>auth\<close> for the last instance.\<close>

definition restart_instance :: "nat \<Rightarrow> nat \<Rightarrow> treehash list \<Rightarrow> treehash list" where
  "restart_instance n i insts =
     (let tempp = n + 1 + 3 * 2 ^ i
      in if tempp < 2 ^ 20 then
           insts[i := (insts ! i)\<lparr>th_finalized := 0, th_startleaf := tempp,
             th_lowheight := (if th_treestack (insts ! i) = [] then 0 else th_lowheight (insts ! i))\<rparr>]
         else insts)"

definition copy_auth :: "mss_state \<Rightarrow> nat \<Rightarrow> node list \<Rightarrow> node list" where
  "copy_auth s i auth =
     (if i < 18 then auth[i := th_v (ms_instance s ! i)] else if i = 18 then auth[i := ms_retain s] else auth)"

definition next_auth :: "'k mss_env \<Rightarrow> nat \<Rightarrow> node list \<Rightarrow> mss_state \<Rightarrow> mss_state option" where
  "next_auth env n pk s =
     (let tau = sign_tau n;
          s = (if even (n div 2 ^ (tau + 1)) \<and> tau < 19 then s\<lparr>ms_keep := (ms_keep s)[tau := ms_auth s ! tau]\<rparr> else s);
          s = (if even n then s\<lparr>ms_auth := (ms_auth s)[0 := create_L_tree env pk (of_nat n)]\<rparr> else s)
      in if tau = 0 then Some s
         else if 20 \<le> tau then None
         else
           let auth = (ms_auth s)[tau := hash_pair env (of_nat (n div 2 ^ tau)) (of_nat (tau + 9)) (ms_auth s ! (tau - 1)) (ms_keep s ! (tau - 1))];
               auth = fold (copy_auth s) [0..<tau] auth;
               insts = fold (restart_instance n) [0..<tau] (ms_instance s)
           in Some (s\<lparr>ms_auth := auth, ms_instance := insts\<rparr>))"

text \<open>One update: the unfinished instance of the least height gets one more leaf.\<close>

definition pick_instance :: "treehash list \<Rightarrow> (nat \<times> nat) option" where
  "pick_instance insts =
     fold (\<lambda>j best. if th_lowheight (insts ! j) \<noteq> infy \<and> th_finalized (insts ! j) \<noteq> 1 \<and>
            (case best of None \<Rightarrow> th_lowheight (insts ! j) < infy | Some (minh, minindx) \<Rightarrow> th_lowheight (insts ! j) < minh)
          then Some (th_lowheight (insts ! j), j) else best) [0..<18] None"

fun treehash_push :: "'k mss_env \<Rightarrow> mssnode list \<Rightarrow> mssnode \<Rightarrow> mssnode list \<times> mssnode" where
  "treehash_push env [] node = ([], node)"
| "treehash_push env ((top_key, top_height, top_indx) # stack) (key, height, indx) =
     (if height = top_height then
        treehash_push env stack (hash_pair env (of_nat (indx div 2)) (of_nat (height + 10)) top_key key, height + 1, indx div 2)
      else ((top_key, top_height, top_indx) # stack, (key, height, indx)))"

definition update_instance :: "'k mss_env \<Rightarrow> nat \<Rightarrow> treehash \<Rightarrow> treehash" where
  "update_instance env minindx t =
     (let leaf = leaf_node env (th_startleaf t)
      in if minindx = 0 then t\<lparr>th_v := leaf, th_finalized := 1, th_lowheight := infy\<rparr>
         else if th_treestack t = [] then
           t\<lparr>th_treestack := [(leaf, 0, th_startleaf t)], th_startleaf := th_startleaf t + 1\<rparr>
         else case treehash_push env (th_treestack t) (leaf, 0, th_startleaf t) of (stack, key, height, indx) \<Rightarrow>
           if height = minindx then
             t\<lparr>th_v := key, th_finalized := 1, th_lowheight := infy, th_treestack := []\<rparr>
           else
             t\<lparr>th_treestack := (key, height, indx) # stack, th_startleaf := th_startleaf t + 1,
               th_lowheight := (if stack = [] then height else th_lowheight t)\<rparr>)"

primrec update_loop :: "'k mss_env \<Rightarrow> nat \<Rightarrow> treehash list \<Rightarrow> treehash list" where
  "update_loop env 0 insts = insts"
| "update_loop env (Suc k) insts =
     (case pick_instance insts of
        None \<Rightarrow> insts
      | Some (minh, minindx) \<Rightarrow> update_loop env k (insts[minindx := update_instance env minindx (insts ! minindx)]))"

definition ksnmss_sign :: "'k mss_env \<Rightarrow> u32 \<Rightarrow> bytes \<Rightarrow> mss_state \<Rightarrow> (ksnmss_sig \<times> mss_state) option" where
  "ksnmss_sign env idx ms s = do {
     let sk = ots_secret env idx;
     let pk = ots_public env idx;
     component_key \<leftarrow> message_keys ms (ms_component_key s);
     let s = s\<lparr>ms_component_key := component_key\<rparr>;
     let sig = \<lparr>sig_id = idx, sig_message = take 32 ms, sig_sksum = sum_secrets sk component_key, sig_pk = pk, sig_auth = ms_auth s\<rparr>;
     if unat idx < 2 ^ 20 then do {
       s \<leftarrow> next_auth env (unat idx) pk s;
       Some (sig, s\<lparr>ms_instance := update_loop env updateiter (ms_instance s)\<rparr>)
     } else Some (sig, s) }"

subsection \<open>Verification\<close>

text \<open>Nine bytes hold eight numbers of nine bits.\<close>

definition ring_group :: "bytes \<Rightarrow> u32 list" where
  "ring_group r =
     [ucast (r ! 0) OR push_bit 8 (ucast (r ! 1 AND 0x1)),
      drop_bit 1 (ucast (r ! 1)) OR push_bit 7 (ucast (r ! 2 AND 0x3)),
      drop_bit 2 (ucast (r ! 2)) OR push_bit 6 (ucast (r ! 3 AND 0x7)),
      drop_bit 3 (ucast (r ! 3)) OR push_bit 5 (ucast (r ! 4 AND 0xF)),
      drop_bit 4 (ucast (r ! 4)) OR push_bit 4 (ucast (r ! 5 AND 0x1F)),
      drop_bit 5 (ucast (r ! 5)) OR push_bit 3 (ucast (r ! 6 AND 0x3F)),
      drop_bit 6 (ucast (r ! 6)) OR push_bit 2 (ucast (r ! 7 AND 0x7F)),
      drop_bit 7 (ucast (r ! 7)) OR push_bit 1 (ucast (r ! 8))]"

definition convert_ring :: "bytes \<Rightarrow> u32 list" where
  "convert_ring rg8 = concat (map (\<lambda>i. ring_group (drop (9 * i) rg8)) [0..<8])"

definition sum_publics :: "node list \<Rightarrow> nat list \<Rightarrow> u32 list" where
  "sum_publics pk component_key =
     map (\<lambda>x. x mod 257) (fold (\<lambda>le sum. map2 (+) sum (convert_ring (pk ! (component_key ! le)))) [1..<131]
       (convert_ring (pk ! (component_key ! 0))))"

text \<open>The climb along the authentication path.\<close>

primrec climb :: "'k mss_env \<Rightarrow> nat list \<Rightarrow> node list \<Rightarrow> u32 \<Rightarrow> node \<Rightarrow> node" where
  "climb env [] auth idx present = present"
| "climb env (i # is) auth idx present =
     (let (left, right) = (if idx mod 2 = 0 then (present, auth ! i) else (auth ! i, present))
      in climb env is auth (idx div 2) (hash_pair env (idx div 2) (of_nat (i + 10)) left right))"

definition ksnmss_verify :: "'k mss_env \<Rightarrow> u32 \<Rightarrow> bytes \<Rightarrow> ksnmss_sig \<Rightarrow> mss_state \<Rightarrow> (int \<times> mss_state) option" where
  "ksnmss_verify env idx ms sig s =
     (if list_ex (\<lambda>c. c > 131) (take 1024 (sig_sksum sig)) then Some (3, s)
      else do {
        component_key \<leftarrow> message_keys ms (ms_component_key s);
        let s = s\<lparr>ms_component_key := component_key\<rparr>;
        let pksum = gSWIFFT env (set_Key env idx 0) (take 1024 (sig_sksum sig));
        let sum = sum_publics (sig_pk sig) component_key;
        let verified = fold (\<lambda>i v. v + (pksum ! i - sum ! i)) [0..<64] (0 :: u32);
        if verified \<noteq> 0 then Some (2, s)
        else
          let present = climb env [0..<20] (sig_auth sig) idx (create_L_tree env (sig_pk sig) idx);
              verified = fold (\<lambda>i v. v + (ucast (ms_MSSPK s ! i) - ucast (present ! i))) [0..<72] (0 :: u32)
          in Some (if verified = 0 then 0 else 1, s) })"

end
