(* ===== verification/Ksnmss_Tree.thy ===== *)
theory Ksnmss_Tree
  imports Ksnmss
begin

text \<open>
  The Merkle tree of K2SN-MSS as a specification, and the stack algorithm that builds it: pushing a leaf and
  folding nodes of equal height keeps a stack that covers a range of leaves. Key generation leaves the
  root, the authentication path of instance 0 and the nodes that the traversal starts with.
\<close>

subsection \<open>The tree\<close>

fun tnode :: "'k mss_env \<Rightarrow> nat \<Rightarrow> nat \<Rightarrow> node" where
  "tnode env 0 i = leaf_node env i"
| "tnode env (Suc h) i = hash_pair env (of_nat i) (of_nat (h + 10)) (tnode env h (2 * i)) (tnode env h (2 * i + 1))"

text \<open>The stack covers the leaves from \<open>base\<close> on, up to \<open>n\<close>: nodes of the tree side by side, higher ones below.\<close>

fun stack_ok :: "'k mss_env \<Rightarrow> nat \<Rightarrow> nat \<Rightarrow> mssnode list \<Rightarrow> bool" where
  "stack_ok env base n [] \<longleftrightarrow> n = base"
| "stack_ok env base n ((v, h, i) # s) \<longleftrightarrow> v = tnode env h i \<and> even i \<and> n = (i + 1) * 2 ^ h \<and>
     (\<forall>(v', h', i') \<in> set s. h < h') \<and> stack_ok env base (i * 2 ^ h) s"

abbreviation above :: "nat \<Rightarrow> mssnode list \<Rightarrow> bool" where
  "above h s \<equiv> \<forall>(v, h', i) \<in> set s. h \<le> h'"

abbreviation below :: "nat \<Rightarrow> mssnode list \<Rightarrow> bool" where
  "below j s \<equiv> \<forall>(v, h, i) \<in> set s. h < j"

lemma pow2_odd:
  assumes "(a :: nat) * 2 ^ k = b * 2 ^ l" and "odd b" and "k \<le> l"
  shows "a = b * 2 ^ (l - k)"
proof -
  have "a * 2 ^ k = (b * 2 ^ (l - k)) * 2 ^ k" using assms(1,3) by (simp add: mult.assoc flip: power_add)
  then show ?thesis by simp
qed

text \<open>Whether the next node meets one of its height is the parity of its index.\<close>

lemma stack_top:
  assumes "stack_ok env base (i * 2 ^ h) s" and "above h s" and "below j s" and "2 ^ j dvd base" and "h < j"
  shows "even i \<Longrightarrow> \<forall>(v, h', i') \<in> set s. h < h'"
    and "odd i \<Longrightarrow> \<exists>s'. s = (tnode env h (i - 1), h, i - 1) # s'"
proof -
  have e: "even i" if "s = []"
  proof -
    have "2 ^ j dvd i * 2 ^ h" using assms(1,4) that by simp
    moreover have "2 ^ Suc h dvd (2 :: nat) ^ j" using assms(5) by (intro le_imp_power_dvd) simp
    ultimately have "2 * 2 ^ h dvd i * 2 ^ h" by (metis dvd_trans power_Suc)
    then show ?thesis by simp
  qed
  have c: "(h' = h \<and> i = i' + 1) \<or> (h < h' \<and> even i)" if "s = (v, h', i') # s'" for v h' i' s'
  proof -
    have s: "even i'" "i * 2 ^ h = (i' + 1) * 2 ^ h'" "h \<le> h'" using assms(1,2) that by auto
    then have "i = (i' + 1) * 2 ^ (h' - h)" using pow2_odd [of i h "i' + 1" h'] by simp
    then show ?thesis using s(3) by (cases "h' = h") auto
  qed
  show "even i \<Longrightarrow> \<forall>(v, h', i') \<in> set s. h < h'"
  proof (cases s)
    case (Cons a s')
    then obtain v h' i' where s: "s = (v, h', i') # s'" by (cases a) simp
    assume "even i"
    then have "h < h'" using c [OF s] assms(1) s by auto
    then show ?thesis using assms(1) s by fastforce
  qed simp
  assume o: "odd i"
  then obtain v h' i' s' where s: "s = (v, h', i') # s'" using e by (cases s) auto
  then show "\<exists>s'. s = (tnode env h (i - 1), h, i - 1) # s'" using c [OF s] o assms(1) by auto
qed

lemma stack_bound:
  assumes "stack_ok env base n ((v, h, i) # s)" and "below j ((v, h, i) # s)"
  shows "n + 2 ^ h \<le> base + 2 ^ j"
  using assms
proof (induction s arbitrary: n v h i)
  case Nil
  then have "(2 :: nat) ^ Suc h \<le> 2 ^ j" by (intro power_increasing) auto
  then show ?case using Nil by simp
next
  case (Cons a s)
  obtain v' h' i' where a: "a = (v', h', i')" by (cases a) simp
  have "i * 2 ^ h + 2 ^ h' \<le> base + 2 ^ j" using Cons.prems unfolding a by (intro Cons.IH [of _ v' h' i']) auto
  moreover have "(2 :: nat) ^ Suc h \<le> 2 ^ h'" using Cons.prems by (intro power_increasing) (auto simp: a)
  ultimately show ?case using Cons.prems by (simp add: a)
qed

lemma stack_base: "stack_ok env base n s \<Longrightarrow> base \<le> n"
  by (induction s arbitrary: n) (force simp: algebra_simps)+

text \<open>The range is not less than the lowest node of the stack, the highest, and less than twice of it.\<close>

lemma stack_last:
  assumes "stack_ok env base n (x # s)" and "last (x # s) = (v, H, i)"
  shows "base + 2 ^ H \<le> n" and "n < base + 2 ^ Suc H" and "s \<noteq> [] \<Longrightarrow> base + 2 ^ H < n"
proof -
  have "base + 2 ^ H \<le> n \<and> (s \<noteq> [] \<longrightarrow> base + 2 ^ H < n) \<and> below (Suc H) (x # s)"
    using assms
  proof (induction s arbitrary: n x)
    case Nil
    then show ?case by (cases x) auto
  next
    case (Cons a s)
    obtain v' h' i' where x: "x = (v', h', i')" by (cases x) simp
    have "base + 2 ^ H \<le> i' * 2 ^ h' \<and> below (Suc H) (a # s)" using Cons.IH [of "i' * 2 ^ h'" a] Cons.prems by (auto simp: x)
    moreover have "i' * 2 ^ h' < n" using Cons.prems by (simp add: x)
    ultimately have "base + 2 ^ H < n" "below (Suc H) (a # s)" by simp_all
    then show ?case using Cons.prems by (auto simp: x)
  qed
  then have b: "base + 2 ^ H \<le> n" "s \<noteq> [] \<Longrightarrow> base + 2 ^ H < n" "below (Suc H) (x # s)" by simp_all
  obtain w h k where x: "x = (w, h, k)" by (cases x) simp
  have "n + 2 ^ h \<le> base + 2 ^ Suc H" using stack_bound [of env base n w h k s "Suc H"] assms(1) b(3) unfolding x by blast
  moreover have "(0 :: nat) < 2 ^ h" by simp
  ultimately show "n < base + 2 ^ Suc H" by linarith
  show "base + 2 ^ H \<le> n" "s \<noteq> [] \<Longrightarrow> base + 2 ^ H < n" using b by blast+
qed

subsection \<open>Pushing a node\<close>

lemma treehash_push_ok:
  assumes "stack_ok env base (i * 2 ^ h) s" and "above h s" and "below j s" and "2 ^ j dvd base" and "h \<le> j"
    and "treehash_push env s (tnode env h i, h, i) = (s', v', h', i')"
  shows "v' = tnode env h' i' \<and> (i' + 1) * 2 ^ h' = (i + 1) * 2 ^ h \<and> h \<le> h' \<and> h' \<le> j \<and>
    stack_ok env base (i' * 2 ^ h') s' \<and> (\<forall>(v, k, l) \<in> set s'. h' < k) \<and> below j s' \<and> (h' < j \<longrightarrow> even i')"
  using assms
proof (induction s arbitrary: h i)
  case Nil
  then show ?case using stack_top(2) [of env base i h "[]" j] by auto
next
  case (Cons a s)
  obtain v k l where a: "a = (v, k, l)" by (cases a) simp
  have k: "h \<le> k" "k < j" using Cons.prems(2,3) by (auto simp: a)
  note top = stack_top [OF Cons.prems(1-4)]
  show ?case
  proof (cases "even i")
    case True
    then have "h < k" "\<forall>(v, h', i') \<in> set (a # s). h < h'" using top(1) k by (auto simp: a)
    then show ?thesis using Cons.prems True k by (auto simp: a)
  next
    case False
    then have e: "v = tnode env h (i - 1)" "k = h" "l = i - 1" using top(2) k by (auto simp: a)
    obtain m where m: "i = 2 * m + 1" using False by (elim oddE)
    have "treehash_push env s (tnode env (Suc h) m, Suc h, m) = (s', v', h', i')"
      using Cons.prems(6) by (simp add: a e m)
    moreover have "stack_ok env base (m * 2 ^ Suc h) s" "above (Suc h) s" using Cons.prems(1) by (auto simp: a e m ac_simps)
    moreover have "below j s" "Suc h \<le> j" using Cons.prems(3) k e by (auto simp: a)
    ultimately have "v' = tnode env h' i' \<and> (i' + 1) * 2 ^ h' = (m + 1) * 2 ^ Suc h \<and> Suc h \<le> h' \<and> h' \<le> j \<and>
      stack_ok env base (i' * 2 ^ h') s' \<and> (\<forall>(v, k, l) \<in> set s'. h' < k) \<and> below j s' \<and> (h' < j \<longrightarrow> even i')"
      using Cons.prems(4) by (intro Cons.IH) auto
    then show ?thesis by (auto simp: m)
  qed
qed

subsection \<open>Key generation\<close>

lemma keygen_push_stack:
  "fst (keygen_push env s n st) = (case treehash_push env s n of (s', n') \<Rightarrow> n' # s')"
proof (induction s arbitrary: n st)
  case (Cons a s)
  then show ?case by (cases a; cases n) auto
qed simp

definition started :: "'k mss_env \<Rightarrow> nat \<Rightarrow> treehash \<Rightarrow> bool" where
  "started env h t \<longleftrightarrow> th_v t = tnode env h 3 \<and> th_finalized t = 1 \<and> th_treestack t = []"

text \<open>What has been kept when the nodes below height \<open>h\<close> that end with leaf \<open>m - 1\<close> have been passed.\<close>

definition kept :: "'k mss_env \<Rightarrow> nat \<Rightarrow> nat \<Rightarrow> mss_state \<Rightarrow> bool" where
  "kept env m h s \<longleftrightarrow> length (ms_auth s) = 20 \<and> length (ms_instance s) = 18 \<and>
     (\<forall>k<20. 2 * 2 ^ k < m \<or> 2 * 2 ^ k = m \<and> k < h \<longrightarrow> ms_auth s ! k = tnode env k 1) \<and>
     (\<forall>k<18. 4 * 2 ^ k < m \<or> 4 * 2 ^ k = m \<and> k < h \<longrightarrow> started env k (ms_instance s ! k)) \<and>
     (4 * 2 ^ 18 < m \<or> 4 * 2 ^ 18 = m \<and> 18 < h \<longrightarrow> ms_retain s = tnode env 18 3)"

lemma keep_node_kept:
  assumes "kept env m h s" and "m = (i + 1) * 2 ^ h"
  shows "kept env m (Suc h) (keep_node (tnode env h i, h, i) s)"
proof -
  have e: "2 * 2 ^ h = m \<longleftrightarrow> i = 1" "4 * 2 ^ h = m \<longleftrightarrow> i = 3" using assms(2) by auto
  have a: "length (ms_auth s) = 20" "length (ms_instance s) = 18" using assms(1) by (simp_all add: kept_def)
  define s' where "s' = keep_node (tnode env h i, h, i) s"
  have auth: "ms_auth s' = (if i = 1 then (ms_auth s)[h := tnode env h i] else ms_auth s)"
    by (simp add: s'_def keep_node_def Let_def)
  have inst: "ms_instance s' = (if i = 3 \<and> h < 18 then (ms_instance s)[h := (ms_instance s ! h)\<lparr>th_v := tnode env h 3, th_finalized := 1, th_lowheight := infy, th_treestack := []\<rparr>] else ms_instance s)"
    by (simp add: s'_def keep_node_def Let_def)
  have ret: "ms_retain s' = (if i = 3 \<and> h = 18 then tnode env h i else ms_retain s)"
    by (simp add: s'_def keep_node_def Let_def)
  have "ms_auth s' ! k = tnode env k 1" if "k < 20" "2 * 2 ^ k < m \<or> 2 * 2 ^ k = m \<and> k < Suc h" for k
    using that assms(1) e(1) a unfolding auth kept_def by (cases "k = h") (auto simp: less_Suc_eq)
  moreover have "started env k (ms_instance s' ! k)" if "k < 18" "4 * 2 ^ k < m \<or> 4 * 2 ^ k = m \<and> k < Suc h" for k
    using that assms(1) e(2) a unfolding inst kept_def by (cases "k = h") (auto simp: less_Suc_eq started_def)
  moreover have "ms_retain s' = tnode env 18 3" if "4 * 2 ^ 18 < m \<or> 4 * 2 ^ 18 = m \<and> 18 < Suc h"
    using that assms(1) e(2) unfolding ret kept_def by (cases "h = 18") (auto simp: less_Suc_eq)
  moreover have "length (ms_auth s') = 20" "length (ms_instance s') = 18" using a by (simp_all add: auth inst)
  ultimately show ?thesis unfolding kept_def s'_def [symmetric] by blast
qed

lemma kept_end:
  assumes "kept env m h s" and "m = (i + 1) * 2 ^ h" and "even i"
  shows "kept env (Suc m) 0 s"
proof -
  have p: "k < h" if "2 * 2 ^ k = m" for k
  proof (rule ccontr)
    assume "\<not> k < h"
    moreover have "(i + 1) * 2 ^ h = 1 * 2 ^ Suc k" using that assms(2) by simp
    ultimately have "i + 1 = 1 * 2 ^ (Suc k - h)" by (intro pow2_odd) auto
    moreover have "even ((2 :: nat) ^ (Suc k - h))" using \<open>\<not> k < h\<close> by simp
    ultimately show False using assms(3) by (metis even_plus_one_iff mult_1)
  qed
  have q: "k < h" if "4 * 2 ^ k = m" for k using p [of "Suc k"] that by simp
  show ?thesis using assms(1) p q unfolding kept_def by (simp add: less_Suc_eq)
qed

lemma keygen_push_kept:
  assumes "stack_ok env 0 (i * 2 ^ h) s" and "above h s" and "below 21 s" and "h \<le> 20"
    and "kept env m h st" and "m = (i + 1) * 2 ^ h" and "m \<le> 2 ^ 20"
  shows "kept env (Suc m) 0 (snd (keygen_push env s (tnode env h i, h, i) st))"
  using assms
proof (induction s arbitrary: h i st)
  case Nil
  then show ?case using stack_top(2) [of env 0 i h "[]" 21] kept_end [of env m h st i] by auto
next
  case (Cons a s)
  obtain v k l where a: "a = (v, k, l)" by (cases a) simp
  have h: "h < 21" "h \<le> k" using Cons.prems(2,4) by (auto simp: a)
  note top = stack_top [OF Cons.prems(1-3) _ h(1)]
  show ?case
  proof (cases "even i")
    case True
    then have "h < k" using top(1) by (auto simp: a)
    then show ?thesis using kept_end [OF Cons.prems(5,6) True] by (simp add: a)
  next
    case False
    then have e: "v = tnode env h (i - 1)" "k = h" "l = i - 1" using top(2) by (auto simp: a)
    obtain n where n: "i = 2 * n + 1" using False by (elim oddE)
    have "kept env m (Suc h) (keep_node (tnode env h i, h, i) st)" by (rule keep_node_kept [OF Cons.prems(5,6)])
    moreover have "stack_ok env 0 (n * 2 ^ Suc h) s" "above (Suc h) s" "below 21 s"
      using Cons.prems(1,3) by (auto simp: a e n ac_simps)
    moreover have m: "m = (n + 1) * 2 ^ Suc h" using Cons.prems(6) by (simp add: n)
    moreover have "Suc h \<le> 20"
    proof (rule ccontr)
      assume "\<not> Suc h \<le> 20"
      then have "(2 :: nat) ^ 21 \<le> 2 ^ Suc h" by (intro power_increasing) simp_all
      also have "\<dots> \<le> m" by (simp add: m)
      finally show False using Cons.prems(7) by simp
    qed
    ultimately have "kept env (Suc m) 0 (snd (keygen_push env s (tnode env (Suc h) n, Suc h, n) (keep_node (tnode env h i, h, i) st)))"
      using Cons.prems(7) by (intro Cons.IH) auto
    then show ?thesis by (simp add: a e n)
  qed
qed

lemma keygen_loop_Suc: "keygen_loop env (Suc n) p =
    (case keygen_loop env n p of (stack, s) \<Rightarrow> keygen_push env stack (leaf_node env n, 0, n) s)"
  by (simp add: keygen_loop_def)

lemma keygen_loop_ok:
  assumes "n \<le> 2 ^ 20" and "length (ms_auth s) = 20" and "length (ms_instance s) = 18"
  shows "case keygen_loop env n ([], s) of (stack, s') \<Rightarrow> stack_ok env 0 n stack \<and> below 21 stack \<and> kept env (Suc n) 0 s'"
  using assms(1)
proof (induction n)
  case 0
  then show ?case using assms(2,3) by (simp add: keygen_loop_def kept_def)
next
  case (Suc n)
  obtain stack s' where s: "keygen_loop env n ([], s) = (stack, s')" by fastforce
  then have i: "stack_ok env 0 (n * 2 ^ 0) stack" "below 21 stack" "kept env (n + 1) 0 s'" using Suc by simp_all
  obtain t v h k where t: "treehash_push env stack (tnode env 0 n, 0, n) = (t, v, h, k)" by (metis prod_cases4)
  then have o: "v = tnode env h k" "(k + 1) * 2 ^ h = Suc n" "h \<le> 21" "stack_ok env 0 (k * 2 ^ h) t" "\<forall>(v, h', k) \<in> set t. h < h'"
      "below 21 t" "h < 21 \<longrightarrow> even k"
    using treehash_push_ok [OF i(1) _ i(2), of t v h k] by auto
  have "h < 21"
  proof (rule ccontr)
    assume "\<not> h < 21"
    then have "(2 :: nat) ^ 21 \<le> 2 ^ h" by (intro power_increasing) simp_all
    also have "\<dots> \<le> Suc n" using o(2) by (metis le_add2 mult.commute mult_le_mono1 mult_1 Suc_eq_plus1 One_nat_def add_leE le_refl)
    finally show False using Suc.prems by simp
  qed
  have f: "fst (keygen_push env stack (tnode env 0 n, 0, n) s') = (v, h, k) # t" using t by (simp add: keygen_push_stack del: tnode.simps)
  have "kept env (Suc (n + 1)) 0 (snd (keygen_push env stack (tnode env 0 n, 0, n) s'))"
    using i Suc.prems by (intro keygen_push_kept) auto
  then show ?case using o \<open>h < 21\<close> f s unfolding keygen_loop_Suc by (auto simp: case_prod_unfold)
qed

text \<open>The stack array has 21 entries.\<close>

lemma stack_depth: "stack_ok env base n s \<Longrightarrow> below j s \<Longrightarrow> length s \<le> j"
proof -
  assume s: "stack_ok env base n s" "below j s"
  have "sorted_wrt (<) (map (\<lambda>(v, h, i). h) s)"
    using s(1) by (induction s arbitrary: n) (fastforce simp: case_prod_unfold)+
  then have "distinct (map (\<lambda>(v, h, i). h) s)" by (simp add: strict_sorted_iff)
  moreover have "set (map (\<lambda>(v, h, i). h) s) \<subseteq> {..<j}" using s(2) by auto
  ultimately show "length s \<le> j" by (metis card_mono distinct_card finite_lessThan length_map card_lessThan)
qed

lemma key_generation_ok:
  assumes "length (ms_auth s) = 20" and "length (ms_instance s) = 18" and "s' = key_generation env s"
  shows "ms_MSSPK s' = tnode env 20 0" and "length (ms_auth s') = 20" and "length (ms_instance s') = 18"
    and "k < 20 \<Longrightarrow> ms_auth s' ! k = tnode env k 1" and "k < 18 \<Longrightarrow> started env k (ms_instance s' ! k)"
    and "ms_retain s' = tnode env 18 3"
proof -
  obtain stack t where t: "keygen_loop env (2 ^ 20) ([], s) = (stack, t)" by fastforce
  then have o: "stack_ok env 0 (2 ^ 20) stack" "below 21 stack" "kept env (Suc (2 ^ 20)) 0 t"
    using keygen_loop_ok [of "2 ^ 20" s env] assms(1,2) by simp_all
  obtain v h i r where st: "stack = (v, h, i) # r" using o(1) by (cases stack) auto
  then have i: "even i" "(i + 1) * 2 ^ h = 1 * 2 ^ 20" "h \<le> 20" "v = tnode env h i" using o(1,2) by auto
  have k: "i + 1 = 2 ^ (20 - h)" using pow2_odd [OF i(2) _ i(3)] by simp
  have "h = 20"
  proof (rule ccontr)
    assume "h \<noteq> 20"
    then have "even ((2 :: nat) ^ (20 - h))" using i(3) by simp
    then show False using k i(1) by (metis even_plus_one_iff)
  qed
  then have "i = 0 \<and> h = 20" using k by simp
  then have v: "v = tnode env 20 0" using i(4) by simp
  have s': "s' = t\<lparr>ms_MSSPK := v\<rparr>" using t by (simp add: assms(3) key_generation_def st)
  show "ms_MSSPK s' = tnode env 20 0" by (simp add: s' v)
  have p: "2 * (2 :: nat) ^ k < Suc (2 ^ 20)" if "k < 20" for k
  proof -
    have "(2 :: nat) ^ Suc k \<le> 2 ^ 20" using that by (intro power_increasing) simp_all
    then show ?thesis by simp
  qed
  show "length (ms_auth s') = 20" "length (ms_instance s') = 18" "k < 20 \<Longrightarrow> ms_auth s' ! k = tnode env k 1"
    using o(3) p by (simp_all add: s' kept_def)
  show "k < 18 \<Longrightarrow> started env k (ms_instance s' ! k)" "ms_retain s' = tnode env 18 3"
    using o(3) p [of "Suc k"] by (simp_all add: s' kept_def)
qed

end
