(* ===== verification/Ksnmss_Schedule.thy ===== *)
theory Ksnmss_Schedule
  imports Ksnmss_Tree
begin

text \<open>
  The treehash instances of K2SN-MSS: what an instance that is under construction holds, and that the nine
  updates of a signature, always given to the instance of the least height, finish every instance in time.
  The amount of work below a height evolves independently of the rest: every update takes one leaf off it, every
  restart adds to it; a budget over aligned windows of signatures shows that it is used up at their ends.
\<close>

subsection \<open>One instance\<close>

fun prio :: "nat \<Rightarrow> nat" where
  "prio c = (if c < 2 then 0 else Suc (prio (c div 2)))"

declare prio.simps [simp del]

lemma prio_le: "prio c \<le> k \<longleftrightarrow> c < 2 ^ Suc k"
proof (induction k arbitrary: c)
  case 0
  then show ?case by (subst prio.simps) auto
next
  case (Suc k)
  show ?case
  proof (cases "c < 2")
    case True
    moreover have "(2 :: nat) ^ 1 \<le> 2 ^ Suc (Suc k)" by (intro power_increasing) simp_all
    ultimately have "c < 2 ^ Suc (Suc k)" by (metis less_le_trans power_one_right)
    moreover have "prio c = 0" using True by (subst prio.simps) simp
    ultimately show ?thesis by simp
  next
    case False
    then have "prio c = Suc (prio (c div 2))" by (subst prio.simps) simp
    then show ?thesis using Suc [of "c div 2"] by (simp add: div_less_iff_less_mult ac_simps)
  qed
qed

lemma prio_eq: "2 ^ k \<le> c \<Longrightarrow> c < 2 ^ Suc k \<Longrightarrow> prio c = k"
  using prio_le [of c k] prio_le [of c "k - 1"] by (cases k) auto

text \<open>The instance for height \<open>j\<close> computes the node of index \<open>tgt\<close>.\<close>

definition treehash_ok :: "'k mss_env \<Rightarrow> nat \<Rightarrow> nat \<Rightarrow> treehash \<Rightarrow> bool" where
  "treehash_ok env tgt j t \<longleftrightarrow>
     (if th_finalized t = 1 then th_v t = tnode env j tgt \<and> th_treestack t = []
      else stack_ok env (tgt * 2 ^ j) (th_startleaf t) (th_treestack t) \<and> below j (th_treestack t) \<and>
        th_startleaf t < (tgt + 1) * 2 ^ j \<and> th_lowheight t = prio (th_startleaf t - tgt * 2 ^ j))"

definition leaves_done :: "nat \<Rightarrow> nat \<Rightarrow> treehash \<Rightarrow> nat" where
  "leaves_done tgt j t = (if th_finalized t = 1 then 2 ^ j else th_startleaf t - tgt * 2 ^ j)"

lemma update_instance_ok:
  assumes "treehash_ok env tgt j t" and "th_finalized t \<noteq> 1"
  shows "treehash_ok env tgt j (update_instance env j t) \<and>
    leaves_done tgt j (update_instance env j t) = Suc (leaves_done tgt j t) \<and> (j = 0 \<longrightarrow> th_finalized (update_instance env j t) = 1)"
proof -
  define base where "base = tgt * 2 ^ j"
  define n where "n = th_startleaf t"
  define s where "s = th_treestack t"
  have ok: "stack_ok env base n s" "below j s" "n < base + 2 ^ j" "th_lowheight t = prio (n - base)"
    using assms by (simp_all add: treehash_ok_def base_def n_def s_def)
  have bn: "base \<le> n" by (rule stack_base [OF ok(1)])
  consider "j = 0" | "j \<noteq> 0" "s = []" | "j \<noteq> 0" "s \<noteq> []" by blast
  then show ?thesis
  proof cases
    case 1
    then have "s = []" using ok(2) by (cases s) auto
    then have "n = tgt" using ok(1) 1 by (simp add: base_def)
    then show ?thesis using assms(2) 1 \<open>s = []\<close>
      by (simp add: update_instance_def treehash_ok_def leaves_done_def n_def s_def Let_def)
  next
    case 2
    then have n: "n = base" using ok(1) by simp
    have "even base" using 2(1) by (simp add: base_def)
    moreover have "(1 :: nat) < 2 ^ j" using 2(1) by (intro one_less_power) simp_all
    moreover have "prio 1 = prio 0" by (simp add: prio.simps)
    ultimately show ?thesis using 2 n ok assms(2) unfolding treehash_ok_def leaves_done_def
      by (simp add: update_instance_def Let_def s_def [symmetric] n_def [symmetric] base_def [symmetric])
  next
    case 3
    obtain s' v h i where p: "treehash_push env s (tnode env 0 n, 0, n) = (s', v, h, i)" by (metis prod_cases4)
    have o: "v = tnode env h i" "(i + 1) * 2 ^ h = n + 1" "h \<le> j" "stack_ok env base (i * 2 ^ h) s'"
        "\<forall>(v, k, l) \<in> set s'. h < k" "below j s'" "h < j \<longrightarrow> even i"
      using treehash_push_ok [of env base n 0 s j s' v h i] ok(1,2) p by (simp_all add: base_def)
    have u: "update_instance env j t =
      (if h = j then t\<lparr>th_v := v, th_finalized := 1, th_lowheight := infy, th_treestack := []\<rparr>
       else t\<lparr>th_treestack := (v, h, i) # s', th_startleaf := n + 1, th_lowheight := (if s' = [] then h else th_lowheight t)\<rparr>)"
      using 3 p by (simp add: update_instance_def Let_def s_def [symmetric] n_def [symmetric])
    show ?thesis
    proof (cases "h = j")
      case True
      have "s' = []" using o(5,6) True by (cases s') auto
      then have "i = tgt" using o(4) True by (simp add: base_def)
      moreover from this have "Suc (n - base) = 2 ^ j" using o(2) True bn by (simp add: base_def)
      ultimately show ?thesis using True o(1) u assms(2) 3(1) by (simp add: treehash_ok_def leaves_done_def n_def base_def)
    next
      case False
      then have h: "h < j" using o(3) by simp
      have st: "stack_ok env base (n + 1) ((v, h, i) # s')" "below j ((v, h, i) # s')" using o h by auto
      then have "n + 1 + 2 ^ h \<le> base + 2 ^ j" by (rule stack_bound)
      moreover have "(0 :: nat) < 2 ^ h" by simp
      ultimately have "n + 1 < base + 2 ^ j" by linarith
      moreover have "(if s' = [] then h else th_lowheight t) = prio (n + 1 - base)"
      proof (cases "s' = []")
        case True
        then have "2 ^ h \<le> n + 1 - base" "n + 1 - base < 2 ^ Suc h" using stack_last(1,2) [OF st(1), of v h i] by auto
        then show ?thesis using True prio_eq by simp
      next
        case False
        obtain w H l where l: "last ((v, h, i) # s') = (w, H, l)" by (metis prod_cases3)
        have "base + 2 ^ H < n + 1" "n + 1 < base + 2 ^ Suc H" using stack_last [OF st(1) l] False by simp_all
        then have "prio (n + 1 - base) = H" "prio (n - base) = H" by (intro prio_eq; simp)+
        then show ?thesis using False ok(4) by simp
      qed
      moreover define S where "S = (v, h, i) # s'"
      moreover define n' where "n' = n + 1"
      moreover have "n + 1 - base = Suc (n - base)" using bn by simp
      ultimately have "n' < base + 2 ^ j" "stack_ok env base n' S" "below j S" "n' - base = Suc (n - base)"
          "update_instance env j t = t\<lparr>th_treestack := S, th_startleaf := n', th_lowheight := prio (n' - base)\<rparr>"
        using st u False by (simp_all only: if_False)
      then show ?thesis using assms(2) 3(1) unfolding treehash_ok_def leaves_done_def
        by (simp add: n_def [symmetric] base_def [symmetric])
    qed
  qed
qed

subsection \<open>Picking an instance\<close>

definition waiting :: "treehash \<Rightarrow> bool" where
  "waiting t \<longleftrightarrow> th_lowheight t \<noteq> infy \<and> th_finalized t \<noteq> 1"

lemma pick_instance_min:
  "case pick_instance insts of
     None \<Rightarrow> \<forall>j<18. waiting (insts ! j) \<longrightarrow> infy \<le> th_lowheight (insts ! j)
   | Some (m, i) \<Rightarrow> i < 18 \<and> waiting (insts ! i) \<and> th_lowheight (insts ! i) = m \<and>
       (\<forall>j<18. waiting (insts ! j) \<longrightarrow> m \<le> th_lowheight (insts ! j)) \<and>
       (\<forall>j<i. waiting (insts ! j) \<longrightarrow> m < th_lowheight (insts ! j))"
proof -
  define f where "f = (\<lambda>j best. if th_lowheight (insts ! j) \<noteq> infy \<and> th_finalized (insts ! j) \<noteq> 1 \<and>
            (case best of None \<Rightarrow> th_lowheight (insts ! j) < infy | Some (minh, minindx) \<Rightarrow> th_lowheight (insts ! j) < minh)
          then Some (th_lowheight (insts ! j), j) else best)"
  have "case fold f [0..<n] None of
     None \<Rightarrow> \<forall>j<n. waiting (insts ! j) \<longrightarrow> infy \<le> th_lowheight (insts ! j)
   | Some (m, i) \<Rightarrow> i < n \<and> m < infy \<and> waiting (insts ! i) \<and> th_lowheight (insts ! i) = m \<and>
       (\<forall>j<n. waiting (insts ! j) \<longrightarrow> m \<le> th_lowheight (insts ! j)) \<and>
       (\<forall>j<i. waiting (insts ! j) \<longrightarrow> m < th_lowheight (insts ! j))" for n
  proof (induction n)
    case (Suc n)
    then show ?case
      by (cases "fold f [0..<n] None") (fastforce simp: f_def waiting_def less_Suc_eq split: if_splits)+
  qed simp
  from this [of 18] show ?thesis unfolding pick_instance_def f_def [symmetric] by (auto split: option.splits)
qed

subsection \<open>Work\<close>

text \<open>The instances compute nodes \<open>T j\<close>; those outside \<open>E\<close> have nothing to do any more.\<close>

definition insts_ok :: "'k mss_env \<Rightarrow> (nat \<Rightarrow> nat) \<Rightarrow> nat set \<Rightarrow> treehash list \<Rightarrow> bool" where
  "insts_ok env T E insts \<longleftrightarrow> length insts = 18 \<and>
     (\<forall>j<18. if j \<in> E then treehash_ok env (T j) j (insts ! j) else th_finalized (insts ! j) = 1)"

text \<open>The leaves that are still to be done at priorities up to \<open>k\<close>.\<close>

definition work_left :: "(nat \<Rightarrow> nat) \<Rightarrow> treehash list \<Rightarrow> nat \<Rightarrow> nat \<Rightarrow> nat" where
  "work_left T insts k j = min (2 ^ j) (2 ^ Suc k) - leaves_done (T j) j (insts ! j)"

definition work :: "(nat \<Rightarrow> nat) \<Rightarrow> treehash list \<Rightarrow> nat \<Rightarrow> nat" where
  "work T insts k = (\<Sum>j<18. work_left T insts k j)"

lemma leaves_done_le:
  assumes "insts_ok env T E insts" and "j < 18"
  shows "leaves_done (T j) j (insts ! j) \<le> 2 ^ j"
    and "th_finalized (insts ! j) \<noteq> 1 \<Longrightarrow> j \<in> E \<and> treehash_ok env (T j) j (insts ! j) \<and> leaves_done (T j) j (insts ! j) < 2 ^ j \<and>
      th_lowheight (insts ! j) = prio (leaves_done (T j) j (insts ! j)) \<and> waiting (insts ! j) \<and> th_lowheight (insts ! j) < infy"
proof -
  have o: "if j \<in> E then treehash_ok env (T j) j (insts ! j) else th_finalized (insts ! j) = 1" using assms by (simp add: insts_ok_def)
  have f: "leaves_done (T j) j (insts ! j) < 2 ^ j" "th_lowheight (insts ! j) = prio (leaves_done (T j) j (insts ! j))" "j \<in> E"
      "treehash_ok env (T j) j (insts ! j)" if "th_finalized (insts ! j) \<noteq> 1"
  proof -
    show E: "j \<in> E" "treehash_ok env (T j) j (insts ! j)" using o that by (auto split: if_splits)
    then have "T j * 2 ^ j \<le> th_startleaf (insts ! j)" using that by (auto simp: treehash_ok_def dest: stack_base)
    then show "leaves_done (T j) j (insts ! j) < 2 ^ j" using E that by (auto simp: treehash_ok_def leaves_done_def)
    show "th_lowheight (insts ! j) = prio (leaves_done (T j) j (insts ! j))" using E that by (simp add: treehash_ok_def leaves_done_def)
  qed
  show "leaves_done (T j) j (insts ! j) \<le> 2 ^ j" using f(1) by (cases "th_finalized (insts ! j) = 1") (simp_all add: leaves_done_def)
  assume u: "th_finalized (insts ! j) \<noteq> 1"
  have "(2 :: nat) ^ j \<le> 2 ^ Suc 17" using assms(2) by (intro power_increasing) simp_all
  then have "leaves_done (T j) j (insts ! j) < 2 ^ Suc 17" using f(1) [OF u] by linarith
  then have "prio (leaves_done (T j) j (insts ! j)) \<le> 17" using prio_le by blast
  then have "th_lowheight (insts ! j) < infy" using f(2) [OF u] by (simp add: infy_def)
  then show "j \<in> E \<and> treehash_ok env (T j) j (insts ! j) \<and> leaves_done (T j) j (insts ! j) < 2 ^ j \<and>
      th_lowheight (insts ! j) = prio (leaves_done (T j) j (insts ! j)) \<and> waiting (insts ! j) \<and> th_lowheight (insts ! j) < infy"
    using f u by (auto simp: waiting_def)
qed

lemma no_pick:
  assumes "insts_ok env T E insts" and "pick_instance insts = None" and "j < 18"
  shows "th_finalized (insts ! j) = 1"
  using pick_instance_min [of insts] leaves_done_le(2) [OF assms(1,3)] assms(2,3) by fastforce

lemma pick_step:
  assumes "insts_ok env T E insts" and "pick_instance insts = Some (m, i)"
  defines "insts' \<equiv> insts[i := update_instance env i (insts ! i)]"
  shows "insts_ok env T E insts'" and "work T insts' k = work T insts k - 1"
    and "th_finalized (insts ! 0) = 1 \<or> i = 0 \<Longrightarrow> th_finalized (insts' ! 0) = 1"
    and "th_finalized (insts ! 0) = 1 \<or> i = 0"
proof -
  have p: "i < 18" "waiting (insts ! i)" "th_lowheight (insts ! i) = m" "\<And>j. j < 18 \<Longrightarrow> waiting (insts ! j) \<Longrightarrow> m \<le> th_lowheight (insts ! j)"
      "\<And>j. j < i \<Longrightarrow> waiting (insts ! j) \<Longrightarrow> m < th_lowheight (insts ! j)"
    using pick_instance_min [of insts] assms(2) by simp_all
  have len: "length insts = 18" using assms(1) by (simp add: insts_ok_def)
  have u: "th_finalized (insts ! i) \<noteq> 1" using p(2) by (simp add: waiting_def)
  have f: "i \<in> E" "treehash_ok env (T i) i (insts ! i)" "leaves_done (T i) i (insts ! i) < 2 ^ i" "m = prio (leaves_done (T i) i (insts ! i))"
    using leaves_done_le(2) [OF assms(1) p(1) u] p(3) by simp_all
  note up = update_instance_ok [OF f(2) u]
  have "if j \<in> E then treehash_ok env (T j) j (insts' ! j) else th_finalized (insts' ! j) = 1" if "j < 18" for j
    using assms(1) that up f(1) len p(1) by (cases "j = i") (auto simp: insts_ok_def insts'_def)
  moreover have "length insts' = 18" using len by (simp add: insts'_def)
  ultimately show "insts_ok env T E insts'" by (simp add: insts_ok_def)
  show "th_finalized (insts ! 0) = 1 \<or> i = 0 \<Longrightarrow> th_finalized (insts' ! 0) = 1"
    using up len p(1) by (cases "i = 0") (auto simp: insts'_def)
  show "th_finalized (insts ! 0) = 1 \<or> i = 0"
  proof (rule ccontr)
    assume n: "\<not> (th_finalized (insts ! 0) = 1 \<or> i = 0)"
    then have "leaves_done (T 0) 0 (insts ! 0) < 1" "th_lowheight (insts ! 0) = prio (leaves_done (T 0) 0 (insts ! 0))" "waiting (insts ! 0)"
      using leaves_done_le(2) [OF assms(1), of 0] by simp_all
    then have "th_lowheight (insts ! 0) = 0" by (simp add: prio.simps)
    then show False using p(5) [of 0] n \<open>waiting (insts ! 0)\<close> by simp
  qed
  have same: "work_left T insts' k j = work_left T insts k j" if "j \<noteq> i" for j
    using that by (simp add: work_left_def insts'_def)
  have d: "work_left T insts' k i = min (2 ^ i) (2 ^ Suc k) - Suc (leaves_done (T i) i (insts ! i))"
    using up len p(1) by (simp add: work_left_def insts'_def)
  show "work T insts' k = work T insts k - 1"
  proof (cases "prio (leaves_done (T i) i (insts ! i)) \<le> k")
    case True
    then have "leaves_done (T i) i (insts ! i) < min (2 ^ i) (2 ^ Suc k)" using f(3) prio_le by simp
    then have e: "work_left T insts k i = Suc (work_left T insts' k i)" unfolding d unfolding work_left_def by (rule Suc_diff_Suc [symmetric])
    have i: "i \<in> {..<18}" using p(1) by simp
    have "work T insts k = work_left T insts k i + (\<Sum>j\<in>{..<18} - {i}. work_left T insts k j)"
      unfolding work_def by (rule sum.remove [OF _ i]) simp
    moreover have "work T insts' k = work_left T insts' k i + (\<Sum>j\<in>{..<18} - {i}. work_left T insts' k j)"
      unfolding work_def by (rule sum.remove [OF _ i]) simp
    moreover have "(\<Sum>j\<in>{..<18} - {i}. work_left T insts' k j) = (\<Sum>j\<in>{..<18} - {i}. work_left T insts k j)"
      using same by (intro sum.cong) simp_all
    ultimately show ?thesis using e by simp
  next
    case False
    have z: "work_left T insts k j = 0" if "j < 18" for j
    proof (cases "th_finalized (insts ! j) = 1")
      case True
      then show ?thesis by (simp add: work_left_def leaves_done_def)
    next
      case uj: False
      have "m \<le> prio (leaves_done (T j) j (insts ! j))" using p(4) [OF that] leaves_done_le(2) [OF assms(1) that uj] by simp
      then have "\<not> prio (leaves_done (T j) j (insts ! j)) \<le> k" using False f(4) by simp
      then have "2 ^ Suc k \<le> leaves_done (T j) j (insts ! j)" using prio_le by simp
      then show ?thesis by (simp add: work_left_def)
    qed
    have "work_left T insts' k j = 0" if "j < 18" for j
      using z [OF that] same [of j] d by (cases "j = i") (auto simp: work_left_def)
    then show ?thesis using z by (simp add: work_def)
  qed
qed

lemma update_loop_ok:
  assumes "insts_ok env T E insts"
  shows "insts_ok env T E (update_loop env u insts) \<and> (\<forall>k. work T (update_loop env u insts) k = work T insts k - u) \<and>
    (0 < u \<or> th_finalized (insts ! 0) = 1 \<longrightarrow> th_finalized (update_loop env u insts ! 0) = 1)"
  using assms
proof (induction u arbitrary: insts)
  case (Suc u)
  show ?case
  proof (cases "pick_instance insts")
    case None
    have "th_finalized (insts ! j) = 1" if "j < 18" for j using no_pick [OF Suc.prems None that] .
    moreover from this have "work T insts k = 0" for k by (simp add: work_def work_left_def leaves_done_def)
    ultimately show ?thesis using None Suc.prems by simp
  next
    case (Some p)
    obtain m i where p: "p = (m, i)" by (cases p) simp
    note st = pick_step [OF Suc.prems Some [unfolded p]]
    show ?thesis using Suc.IH [OF st(1)] st(2) st(3) [OF st(4)] Some by (simp add: p)
  qed
qed simp

end
