(* ===== verification/Ksnmss_Budget.thy ===== *)
theory Ksnmss_Budget
  imports Ksnmss_Schedule
begin

text \<open>
  The budget of the updates: instance \<open>h\<close> of the traversal is restarted by every signature whose number, counted from
  1, is a multiple of \<open>2 ^ (h + 1)\<close>, and its \<open>2 ^ h\<close> leaves are done before its next restart.
\<close>

subsection \<open>Arrivals\<close>

text \<open>The leaves that restarts below height \<open>k\<close> add in the next \<open>u\<close> signatures, when the signature after them is the last
  one of a window.\<close>

definition arrivals :: "nat \<Rightarrow> nat \<Rightarrow> nat" where
  "arrivals k u = (\<Sum>j\<le>k. 2 ^ j * (u div 2 ^ Suc j))"

lemma arrivals_le: "2 * arrivals k u \<le> Suc k * u"
proof -
  have "2 * arrivals k u = (\<Sum>j\<le>k. 2 ^ Suc j * (u div 2 ^ Suc j))" by (simp add: arrivals_def sum_distrib_left mult.assoc)
  also have "\<dots> \<le> (\<Sum>j\<le>k. u)" by (intro sum_mono) (metis div_times_less_eq_dividend mult.commute)
  finally show ?thesis by simp
qed

lemma div_Suc_eq: "0 < (d :: nat) \<Longrightarrow> Suc u div d = u div d + (if d dvd Suc u then 1 else 0)"
  by (simp add: div_Suc dvd_eq_mod_eq_0)

lemma arrivals_Suc: "arrivals k (Suc u) = arrivals k u + (\<Sum>j\<le>k. if 2 ^ Suc j dvd Suc u then 2 ^ j else 0)"
  unfolding arrivals_def sum.distrib [symmetric]
  by (intro sum.cong refl) (simp add: div_Suc_eq distrib_left del: power_Suc)

lemma last_div: "j < m \<Longrightarrow> (2 ^ m - 1) div 2 ^ j = 2 ^ (m - j) - (1 :: nat)"
proof -
  assume "j < m"
  then have "(2 :: nat) ^ m = 2 ^ (m - j) * 2 ^ j" by (simp flip: power_add)
  moreover obtain a where "(2 :: nat) ^ (m - j) = Suc a" by (metis Suc_pred zero_less_numeral zero_less_power)
  moreover obtain b where "(2 :: nat) ^ j = Suc b" by (metis Suc_pred zero_less_numeral zero_less_power)
  ultimately have "(2 :: nat) ^ m - 1 = b + Suc b * a" "(2 :: nat) ^ (m - j) - 1 = a" "(2 :: nat) ^ j = Suc b" by simp_all
  moreover have "(b + Suc b * a) div Suc b = a" using div_mult_self2 [of "Suc b" b a] by simp
  ultimately show "(2 ^ m - 1) div 2 ^ j = 2 ^ (m - j) - (1 :: nat)" by simp
qed

lemma arrivals_window:
  assumes "k < 17"
  shows "arrivals k (2 ^ (k + 2) - 1) + (\<Sum>h<18. min (2 ^ h) (2 ^ Suc k)) = 9 * 2 ^ (k + 2)"
proof -
  have "2 ^ j * ((2 ^ (k + 2) - 1) div 2 ^ Suc j) + 2 ^ j = (2 :: nat) ^ Suc k" if "j \<le> k" for j
  proof -
    have "(2 ^ (k + 2) - 1) div 2 ^ Suc j + 1 = (2 :: nat) ^ (Suc k - j)" using that last_div [of "Suc j" "k + 2"] by simp
    then have "2 ^ j * ((2 ^ (k + 2) - 1) div 2 ^ Suc j + 1) = (2 :: nat) ^ j * 2 ^ (Suc k - j)" by simp
    then show ?thesis using that unfolding power_add [symmetric] distrib_left by simp
  qed
  then have "arrivals k (2 ^ (k + 2) - 1) + (\<Sum>j\<le>k. 2 ^ j) = (\<Sum>j\<le>k. 2 ^ Suc k)"
    unfolding arrivals_def sum.distrib [symmetric] by (intro sum.cong refl) simp
  moreover have "(\<Sum>h<18. min (2 ^ h) (2 ^ Suc k)) = (\<Sum>j\<le>k. (2 :: nat) ^ j) + (\<Sum>h = Suc k..<18. 2 ^ Suc k)"
  proof -
    have "{..<18} = {..k} \<union> {Suc k..<18}" using assms by auto
    then have "(\<Sum>h<18. min (2 ^ h) (2 ^ Suc k)) = (\<Sum>h\<le>k. min (2 ^ h) (2 ^ Suc k)) + (\<Sum>h = Suc k..<18. min ((2 :: nat) ^ h) (2 ^ Suc k))"
      by (simp add: sum.union_disjoint disjoint_iff)
    moreover have "(\<Sum>h\<le>k. min (2 ^ h) (2 ^ Suc k)) = (\<Sum>h\<le>k. (2 :: nat) ^ h)"
      using power_increasing [of _ "Suc k" "2 :: nat"] by (intro sum.cong refl) simp
    moreover have "(\<Sum>h = Suc k..<18. min (2 ^ h) (2 ^ Suc k)) = (\<Sum>h = Suc k..<18. (2 :: nat) ^ Suc k)"
      using power_increasing [of "Suc k" _ "2 :: nat"] by (intro sum.cong refl) simp
    ultimately show ?thesis by (simp only:)
  qed
  moreover obtain d where d: "17 = k + d" using assms by (metis less_imp_add_positive)
  moreover have "d * 2 ^ k + k * 2 ^ k = 17 * (2 :: nat) ^ k" by (simp add: d flip: add_mult_distrib)
  ultimately show ?thesis by (simp add: algebra_simps)
qed

lemma low_multiples:
  assumes "m + Suc u = l * L" and "2 ^ Suc j dvd L"
  shows "2 ^ Suc j dvd m \<longleftrightarrow> (2 :: nat) ^ Suc j dvd Suc u"
proof -
  have "2 ^ Suc j dvd m + Suc u" using assms by simp
  then show ?thesis by (metis dvd_add_left_iff dvd_add_right_iff)
qed

subsection \<open>Restarts\<close>

lemma tau_loop_dvd: "0 < n \<Longrightarrow> h < tau_loop n \<longleftrightarrow> 2 ^ Suc h dvd n"
proof (induction n arbitrary: h rule: tau_loop.induct)
  case (1 n)
  show ?case
  proof (cases "odd n")
    case True
    then have "\<not> 2 * 2 ^ h dvd n" by (metis dvd_mult_left)
    then show ?thesis using True by (simp add: tau_loop.simps)
  next
    case False
    then obtain m where m: "n = 2 * m" by blast
    then have t: "tau_loop n = Suc (tau_loop m)" using 1(2) by (subst tau_loop.simps) simp
    show ?thesis
    proof (cases h)
      case (Suc l)
      then show ?thesis using 1(1) [of l] 1(2) False m t by simp
    qed (use m t in simp)
  qed
qed

lemma sign_tau_dvd: "h < sign_tau n \<longleftrightarrow> 2 ^ Suc h dvd Suc n"
proof (cases "even n")
  case True
  then have "\<not> 2 * 2 ^ h dvd Suc n" by (metis dvd_mult_left even_Suc)
  then show ?thesis using True by (simp add: sign_tau_def)
qed (use tau_loop_dvd [of "Suc n" h] in \<open>simp add: sign_tau_def\<close>)

text \<open>The node that instance \<open>h\<close> computes before signature \<open>n\<close>; beyond the last leaf it computes none.\<close>

definition target :: "nat \<Rightarrow> nat \<Rightarrow> nat" where
  "target n h = 2 * (n div 2 ^ Suc h) + 3"

definition running :: "nat \<Rightarrow> nat set" where
  "running n = {h. target n h * 2 ^ h < 2 ^ 20}"

lemma target_Suc:
  "2 ^ Suc h dvd Suc n \<Longrightarrow> target (Suc n) h * 2 ^ h = n + 1 + 3 * 2 ^ h"
  "2 ^ Suc h dvd Suc n \<Longrightarrow> target n h * 2 ^ h = n + 1 + 2 ^ h"
  "\<not> 2 ^ Suc h dvd Suc n \<Longrightarrow> target (Suc n) h = target n h"
proof -
  assume "2 ^ Suc h dvd Suc n"
  then obtain m where m: "Suc n = 2 ^ Suc h * m" by blast
  then have d: "Suc n div 2 ^ Suc h = m" by simp
  then have "m = Suc (n div 2 ^ Suc h)" using m by (subst (asm) div_Suc_eq) simp_all
  then show "target (Suc n) h * 2 ^ h = n + 1 + 3 * 2 ^ h" "target n h * 2 ^ h = n + 1 + 2 ^ h"
    using m d by (simp_all add: target_def algebra_simps)
qed (simp add: target_def div_Suc_eq del: power_Suc)

lemma restart_nth:
  assumes "length insts = 18"
  shows "length (fold (restart_instance n) [0..<m] insts) = 18 \<and>
    (\<forall>h<18. fold (restart_instance n) [0..<m] insts ! h =
      (if h < m \<and> n + 1 + 3 * 2 ^ h < 2 ^ 20 then (insts ! h)\<lparr>th_finalized := 0, th_startleaf := n + 1 + 3 * 2 ^ h,
         th_lowheight := (if th_treestack (insts ! h) = [] then 0 else th_lowheight (insts ! h))\<rparr> else insts ! h))"
proof (induction m)
  case (Suc m)
  then show ?case by (simp add: restart_instance_def Let_def nth_list_update less_Suc_eq)
qed (simp add: assms)

text \<open>The state of the schedule before signature \<open>n\<close>.\<close>

definition schedule_ok :: "'k mss_env \<Rightarrow> nat \<Rightarrow> treehash list \<Rightarrow> bool" where
  "schedule_ok env n insts \<longleftrightarrow> insts_ok env (target n) (running n) insts \<and> th_finalized (insts ! 0) = 1 \<and>
     (\<forall>k<17. \<forall>u. n mod 2 ^ (k + 2) + Suc u = 2 ^ (k + 2) \<longrightarrow> work (target n) insts k + arrivals k u \<le> 9 * u)"

lemma schedule_finished:
  assumes "schedule_ok env n insts" and "2 ^ Suc h dvd Suc n" and "h < 18"
  shows "th_finalized (insts ! h) = 1"
proof (cases h)
  case (Suc k)
  then have k: "k < 17" "2 ^ (k + 2) dvd Suc n" using assms(2,3) by simp_all
  have "(n mod 2 ^ (k + 2) + 1) mod 2 ^ (k + 2) = 0" using k(2) by (simp add: mod_simps flip: dvd_eq_mod_eq_0)
  moreover have "n mod 2 ^ (k + 2) < 2 ^ (k + 2)" by simp
  ultimately have "n mod 2 ^ (k + 2) + Suc 0 = 2 ^ (k + 2)"
    by (metis Suc_eq_plus1 add_0_right add_Suc_right less_Suc_eq mod_less nat.distinct(1) not_less_eq)
  then have "work (target n) insts k = 0" using assms(1) k(1) unfolding schedule_ok_def by fastforce
  then have "work_left (target n) insts k h = 0" using assms(3) by (simp add: work_def)
  moreover have i: "insts_ok env (target n) (running n) insts" using assms(1) by (simp add: schedule_ok_def)
  ultimately show ?thesis using leaves_done_le(2) [OF i assms(3)] Suc by (force simp: work_left_def)
qed (use assms(1) in \<open>simp add: schedule_ok_def\<close>)

lemma restart_ok:
  assumes "schedule_ok env n insts"
  defines "insts' \<equiv> fold (restart_instance n) [0..<sign_tau n] insts"
  shows "insts_ok env (target (Suc n)) (running (Suc n)) insts'"
    and "work (target (Suc n)) insts' k \<le> work (target n) insts k + (\<Sum>h<18. if h < sign_tau n then min (2 ^ h) (2 ^ Suc k) else 0)"
    and "h < 18 \<Longrightarrow> sign_tau n \<le> h \<Longrightarrow> insts' ! h = insts ! h"
proof -
  have i: "insts_ok env (target n) (running n) insts" using assms(1) by (simp add: schedule_ok_def)
  then have l: "length insts = 18" by (simp add: insts_ok_def)
  note r = restart_nth [OF l, of n "sign_tau n", folded insts'_def]
  show "h < 18 \<Longrightarrow> sign_tau n \<le> h \<Longrightarrow> insts' ! h = insts ! h" for h using r by simp
  have base: "n + 1 + 3 * 2 ^ h = target (Suc n) h * 2 ^ h" if "h < sign_tau n" for h
    using target_Suc(1) [of h n] that by (simp add: sign_tau_dvd)
  have one: "(if h \<in> running (Suc n) then treehash_ok env (target (Suc n) h) h (insts' ! h) else th_finalized (insts' ! h) = 1) \<and>
      work_left (target (Suc n)) insts' k h \<le> work_left (target n) insts k h + (if h < sign_tau n then min (2 ^ h) (2 ^ Suc k) else 0)"
    if h: "h < 18" for h k
  proof (cases "h < sign_tau n")
    case True
    have f: "th_finalized (insts ! h) = 1" using schedule_finished [OF assms(1) _ h] True by (simp add: sign_tau_dvd)
    show ?thesis
    proof (cases "h \<in> running (Suc n)")
      case run: True
      then have e: "insts' ! h = (insts ! h)\<lparr>th_finalized := 0, th_startleaf := target (Suc n) h * 2 ^ h,
          th_lowheight := (if th_treestack (insts ! h) = [] then 0 else th_lowheight (insts ! h))\<rparr>"
        using r h True base [OF True] by (simp add: running_def)
      have "target n h * 2 ^ h \<le> target (Suc n) h * 2 ^ h" using target_Suc(1,2) [of h n] True by (simp add: sign_tau_dvd)
      then have "h \<in> running n" using run unfolding running_def mem_Collect_eq by (rule le_less_trans)
      then have "treehash_ok env (target n h) h (insts ! h)" using i h by (auto simp: insts_ok_def)
      then have "th_treestack (insts ! h) = []" using f by (simp add: treehash_ok_def)
      moreover have "prio 0 = 0" by (simp add: prio.simps)
      ultimately have "treehash_ok env (target (Suc n) h) h (insts' ! h)" by (simp add: e treehash_ok_def)
      then show ?thesis using run True by (simp add: work_left_def)
    next
      case False
      then have "insts' ! h = insts ! h" using r h True base [OF True] by (simp add: running_def)
      then show ?thesis using False f by (simp add: work_left_def leaves_done_def)
    qed
  next
    case False
    then have "target (Suc n) h = target n h" by (intro target_Suc(3)) (simp add: sign_tau_dvd)
    moreover have "insts' ! h = insts ! h" using r h False by simp
    ultimately show ?thesis using i h False by (auto simp: insts_ok_def running_def work_left_def)
  qed
  moreover have "length insts' = 18" using r by blast
  ultimately show "insts_ok env (target (Suc n)) (running (Suc n)) insts'" unfolding insts_ok_def by blast
  show "work (target (Suc n)) insts' k \<le> work (target n) insts k + (\<Sum>h<18. if h < sign_tau n then min (2 ^ h) (2 ^ Suc k) else 0)"
    using one [of _ k] unfolding work_def sum.distrib [symmetric] by (intro sum_mono) simp
qed

text \<open>One signature keeps the budget.\<close>

lemma budget_step:
  assumes "k < 17" and "Suc n mod 2 ^ (k + 2) + Suc u = 2 ^ (k + 2)"
    and "\<And>u. n mod 2 ^ (k + 2) + Suc u = 2 ^ (k + 2) \<Longrightarrow> w + arrivals k u \<le> 9 * u"
    and "w' \<le> w + (\<Sum>h<18. if h < sign_tau n then min (2 ^ h) (2 ^ Suc k) else 0)"
  shows "w' - 9 + arrivals k u \<le> 9 * u"
proof -
  define L :: nat where "L = 2 ^ (k + 2)"
  have L: "0 < L" by (simp add: L_def)
  show ?thesis
  proof (cases "Suc n mod L = 0")
    case True
    then have "n mod L + Suc 0 = L" using L by (simp add: mod_Suc split: if_splits)
    then have "w = 0" using assms(3) [of 0] by (simp add: L_def)
    moreover have "(\<Sum>h<18. if h < sign_tau n then min (2 ^ h) (2 ^ Suc k) else 0) \<le> (\<Sum>h<18. min ((2 :: nat) ^ h) (2 ^ Suc k))"
      by (intro sum_mono) simp
    moreover have u: "u = 2 ^ (k + 2) - 1" using assms(2) True by (simp add: L_def)
    ultimately have "w' + arrivals k u \<le> 9 * 2 ^ (k + 2)" using arrivals_window [OF assms(1)] assms(4) by simp
    moreover have "arrivals k u \<le> 9 * u" using arrivals_le [of k u] assms(1) mult_le_mono1 [of "Suc k" 18 u] by linarith
    ultimately show ?thesis using u L by (simp add: L_def)
  next
    case False
    then have m: "Suc n mod L = Suc (n mod L)" by (simp add: mod_Suc split: if_splits)
    have "n mod L + Suc (Suc u) = L" using m assms(2) by (simp add: L_def)
    then have old: "w + arrivals k (Suc u) \<le> 9 * Suc u" unfolding L_def by (rule assms(3))
    have "(\<Sum>h<18. if h < sign_tau n then min ((2 :: nat) ^ h) (2 ^ Suc k) else 0) \<le> (\<Sum>j\<le>k. if 2 ^ Suc j dvd Suc u then 2 ^ j else 0)"
    proof -
      have t: "j < sign_tau n \<Longrightarrow> j \<le> k \<and> 2 ^ Suc j dvd Suc u" for j
      proof -
        assume j: "j < sign_tau n"
        have "j \<le> k"
        proof (rule ccontr)
          assume "\<not> j \<le> k"
          then have "Suc k < sign_tau n" using j by simp
          then have "L dvd Suc n" by (simp add: sign_tau_dvd L_def)
          then show False using False by simp
        qed
        moreover have "2 ^ Suc j dvd L" using \<open>j \<le> k\<close> unfolding L_def by (intro le_imp_power_dvd) simp
        moreover have "2 ^ Suc j dvd Suc n" using j by (simp add: sign_tau_dvd)
        moreover have "Suc n mod L + Suc u = 1 * L" using assms(2) by (simp add: L_def)
        moreover from this have "Suc n + Suc u = (Suc n div L + 1) * L" using div_mult_mod_eq [of "Suc n" L] by (simp only: add_mult_distrib)
        ultimately show ?thesis using low_multiples [of "Suc n" u "Suc n div L + 1" L j] by blast
      qed
      have "(\<Sum>h<18. if h < sign_tau n then min ((2 :: nat) ^ h) (2 ^ Suc k) else 0) \<le> (\<Sum>h \<in> {..<18} \<inter> {..k}. if 2 ^ Suc h dvd Suc u then 2 ^ h else 0)"
        unfolding sum.inter_restrict [OF finite_lessThan] using t by (intro sum_mono) auto
      also have "\<dots> \<le> (\<Sum>j\<le>k. if 2 ^ Suc j dvd Suc u then 2 ^ j else 0)" by (intro sum_mono2) auto
      finally show ?thesis .
    qed
    then have "w' + arrivals k u \<le> 9 * u + 9" using old assms(4) arrivals_Suc [of k u] by simp
    moreover have "arrivals k u \<le> 9 * u" using arrivals_le [of k u] assms(1) mult_le_mono1 [of "Suc k" 18 u] by linarith
    ultimately show ?thesis by linarith
  qed
qed

lemma schedule_step:
  assumes "schedule_ok env n insts"
  shows "schedule_ok env (Suc n) (update_loop env updateiter (fold (restart_instance n) [0..<sign_tau n] insts))"
proof -
  note r = restart_ok [OF assms]
  have u: "updateiter = 9" by (simp add: updateiter_def)
  note up = update_loop_ok [OF r(1), of 9]
  have "work (target (Suc n)) (update_loop env 9 (fold (restart_instance n) [0..<sign_tau n] insts)) k + arrivals k u \<le> 9 * u"
    if "k < 17" "Suc n mod 2 ^ (k + 2) + Suc u = 2 ^ (k + 2)" for k u
    using budget_step [OF that _ r(2)] assms that(1) up by (simp add: schedule_ok_def)
  then show ?thesis using up by (simp add: schedule_ok_def u)
qed

lemma schedule_start:
  assumes "length insts = 18" and "\<And>h. h < 18 \<Longrightarrow> started env h (insts ! h)"
  shows "schedule_ok env 0 insts"
proof -
  have f: "th_finalized (insts ! h) = 1 \<and> treehash_ok env (target 0 h) h (insts ! h)" if "h < 18" for h
    using assms(2) [OF that] by (simp add: started_def treehash_ok_def target_def)
  then have "work (target 0) insts k = 0" for k by (simp add: work_def work_left_def leaves_done_def)
  moreover have "arrivals k u \<le> 9 * u" if "k < 17" for k u
    using arrivals_le [of k u] that mult_le_mono1 [of "Suc k" 18 u] by linarith
  ultimately show ?thesis using f assms(1) by (simp add: schedule_ok_def insts_ok_def)
qed

end
