(* ===== verification/Ksnmss_Traversal.thy ===== *)
theory Ksnmss_Traversal
  imports Ksnmss_Budget
begin

text \<open>
  The traversal of the Merkle tree: before signature \<open>n\<close> the authentication path is that of leaf \<open>n\<close>, and
  the instances of the schedule hold the nodes that the next paths need.
\<close>

definition sibling :: "nat \<Rightarrow> nat" where
  "sibling i = (if even i then i + 1 else i - 1)"

definition traversal_ok :: "'k mss_env \<Rightarrow> nat \<Rightarrow> mss_state \<Rightarrow> bool" where
  "traversal_ok env n s \<longleftrightarrow> length (ms_auth s) = 20 \<and> length (ms_keep s) = 19 \<and> length (ms_component_key s) = 131 \<and>
     (\<forall>h<20. ms_auth s ! h = tnode env h (sibling (n div 2 ^ h))) \<and>
     (\<forall>h<19. n div 2 ^ h mod 4 = 1 \<longrightarrow> ms_keep s ! h = tnode env h (n div 2 ^ h)) \<and>
     schedule_ok env n (ms_instance s) \<and> ms_retain s = tnode env 18 3 \<and> ms_MSSPK s = tnode env 20 0"

lemma traversal_start:
  assumes "length (ms_auth s) = 20" and "length (ms_keep s) = 19" and "length (ms_component_key s) = 131" and "length (ms_instance s) = 18"
  shows "traversal_ok env 0 (key_generation env s)"
proof -
  have "ms_keep (keep_node n t) = ms_keep t \<and> ms_component_key (keep_node n t) = ms_component_key t" for n t
    by (simp add: keep_node_def Let_def case_prod_unfold)
  then have p: "ms_keep (snd (keygen_push env st n t)) = ms_keep t \<and> ms_component_key (snd (keygen_push env st n t)) = ms_component_key t" for st n t
    by (induction env st n t rule: keygen_push.induct) auto
  have "ms_keep (snd (keygen_loop env n ([], s))) = ms_keep s \<and> ms_component_key (snd (keygen_loop env n ([], s))) = ms_component_key s" for n
  proof (induction n)
    case (Suc n)
    then show ?case using p by (simp add: keygen_loop_Suc case_prod_unfold)
  qed (simp add: keygen_loop_def)
  then have "ms_keep (key_generation env s) = ms_keep s" "ms_component_key (key_generation env s) = ms_component_key s"
    by (simp_all add: key_generation_def case_prod_unfold Let_def)
  moreover note k = key_generation_ok [OF assms(1,4) refl, where env = env]
  moreover have "schedule_ok env 0 (ms_instance (key_generation env s))" using k(3,5) by (intro schedule_start)
  ultimately show ?thesis using assms by (simp add: traversal_ok_def sibling_def)
qed

lemma copy_auth_nth:
  assumes "length auth = 20" and "m \<le> 20"
  shows "length (fold (copy_auth s) [0..<m] auth) = 20 \<and>
    (\<forall>h<20. fold (copy_auth s) [0..<m] auth ! h =
      (if h < m \<and> h < 18 then th_v (ms_instance s ! h) else if h < m \<and> h = 18 then ms_retain s else auth ! h))"
  using assms(2)
proof (induction m)
  case (Suc m)
  then show ?case by (auto simp: copy_auth_def nth_list_update less_Suc_eq)
qed (simp add: assms)

text \<open>The nodes on the way from leaf \<open>n\<close> and from leaf \<open>n + 1\<close> to the root.\<close>

lemma path_step:
  obtains m where "\<And>h. h \<le> sign_tau n \<Longrightarrow> Suc n div 2 ^ h = (2 * m + 1) * 2 ^ (sign_tau n - h)"
    and "\<And>h. h \<le> sign_tau n \<Longrightarrow> Suc n div 2 ^ h = Suc (n div 2 ^ h)" and "\<And>h. sign_tau n < h \<Longrightarrow> Suc n div 2 ^ h = n div 2 ^ h"
    and "Suc n = (2 * m + 1) * 2 ^ sign_tau n"
proof -
  define t where "t = sign_tau n"
  have d: "2 ^ h dvd Suc n \<longleftrightarrow> h \<le> t" for h
    using sign_tau_dvd [of "h - 1" n] by (cases h) (simp_all add: t_def Suc_le_eq)
  obtain c where c: "Suc n = 2 ^ t * c" using d [of t] by auto
  have "\<not> 2 ^ Suc t dvd Suc n" using d [of "Suc t"] by simp
  then have "odd c" unfolding c by auto
  then obtain m where m: "c = 2 * m + 1" by (elim oddE)
  show ?thesis
  proof (rule that [of m])
    show "Suc n = (2 * m + 1) * 2 ^ sign_tau n" using c by (simp add: m t_def)
    fix h
    show "Suc n div 2 ^ h = (2 * m + 1) * 2 ^ (sign_tau n - h)" if "h \<le> sign_tau n"
    proof -
      have "(2 :: nat) ^ t = 2 ^ (t - h) * 2 ^ h" using that by (simp add: t_def flip: power_add)
      then have "Suc n = ((2 * m + 1) * 2 ^ (t - h)) * 2 ^ h" unfolding c m by (simp only: ac_simps)
      then show ?thesis by (metis div_mult_self_is_m t_def zero_less_numeral zero_less_power)
    qed
    show "h \<le> sign_tau n \<Longrightarrow> Suc n div 2 ^ h = Suc (n div 2 ^ h)" "sign_tau n < h \<Longrightarrow> Suc n div 2 ^ h = n div 2 ^ h"
      using d [of h] by (simp_all add: div_Suc_eq t_def)
  qed
qed

lemma tau_less: "Suc n < 2 ^ 20 \<Longrightarrow> sign_tau n < 20"
proof (rule ccontr)
  assume "Suc n < 2 ^ 20" "\<not> sign_tau n < 20"
  then have "2 ^ 20 dvd Suc n" using sign_tau_dvd [of 19 n] by simp
  then show False using \<open>Suc n < 2 ^ 20\<close> by (auto dest: dvd_imp_le)
qed


lemma mod_4_odd: "x mod 4 = 1 \<Longrightarrow> odd (x :: nat)"
  by presburger

lemma mod_4_even: "(2 * m + 1) mod 4 = 1 \<Longrightarrow> even (m :: nat)"
  by presburger

lemma mod_four: "(4 * m + 1) mod 4 = (1 :: nat)"
  by presburger

lemma next_path:
  assumes "traversal_ok env n s" and "Suc n < 2 ^ 20"
  shows "\<exists>auth keep. next_auth env n (ots_public env (of_nat n)) s =
      Some (s\<lparr>ms_auth := auth, ms_keep := keep, ms_instance := fold (restart_instance n) [0..<sign_tau n] (ms_instance s)\<rparr>) \<and>
    length auth = 20 \<and> length keep = 19 \<and> (\<forall>h<20. auth ! h = tnode env h (sibling (Suc n div 2 ^ h))) \<and>
    (\<forall>h<19. Suc n div 2 ^ h mod 4 = 1 \<longrightarrow> keep ! h = tnode env h (Suc n div 2 ^ h))"
proof -
  define t where "t = sign_tau n"
  have t: "t < 20" using tau_less [OF assms(2)] by (simp add: t_def)
  obtain m where m: "\<And>h. h \<le> t \<Longrightarrow> Suc n div 2 ^ h = (2 * m + 1) * 2 ^ (t - h)"
      "\<And>h. h \<le> t \<Longrightarrow> Suc n div 2 ^ h = Suc (n div 2 ^ h)" "\<And>h. t < h \<Longrightarrow> Suc n div 2 ^ h = n div 2 ^ h"
      "Suc n = (2 * m + 1) * 2 ^ t"
    using path_step [of n] unfolding t_def by blast
  have s: "length (ms_auth s) = 20" "length (ms_keep s) = 19" "\<And>h. h < 20 \<Longrightarrow> ms_auth s ! h = tnode env h (sibling (n div 2 ^ h))"
      "\<And>h. h < 19 \<Longrightarrow> n div 2 ^ h mod 4 = 1 \<Longrightarrow> ms_keep s ! h = tnode env h (n div 2 ^ h)" "ms_retain s = tnode env 18 3"
      "schedule_ok env n (ms_instance s)"
    using assms(1) by (simp_all add: traversal_ok_def)
  have q: "n div 2 ^ t = 2 * m" using m(1,2) [of t] by simp
  define keep where "keep = (if even (n div 2 ^ (t + 1)) \<and> t < 19 then (ms_keep s)[t := ms_auth s ! t] else ms_keep s)"
  have keep: "length keep = 19" "keep ! h = tnode env h (Suc n div 2 ^ h)" if "h < 19" "Suc n div 2 ^ h mod 4 = 1" for h
  proof -
    show "length keep = 19" using s(2) by (simp add: keep_def)
    consider "h < t" | "h = t" | "t < h" by linarith
    then show "keep ! h = tnode env h (Suc n div 2 ^ h)"
    proof cases
      case 1
      then have "even (Suc n div 2 ^ h)" using m(1) [of h] by simp
      then show ?thesis using that(2) mod_4_odd by blast
    next
      case 2
      have "Suc n div 2 ^ t = 2 * m + 1" using m(1) [of t] by simp
      moreover from this have "even m" using that(2) 2 mod_4_even [of m] by simp
      moreover have "n div 2 ^ (t + 1) = m" using q by (simp add: mult.commute [of 2] div_mult2_eq)
      ultimately show ?thesis using that(1) 2 s(2) s(3) [of t] q by (simp add: keep_def sibling_def)
    next
      case 3
      then show ?thesis using m(3) [OF 3] that s(4) by (simp add: keep_def)
    qed
  qed
  have lk: "length keep = 19" using s(2) by (simp add: keep_def)
  show ?thesis
  proof (cases t)
    case 0
    define auth where "auth = (ms_auth s)[0 := tnode env 0 n]"
    have e: "even n" using q 0 by simp
    have "next_auth env n (ots_public env (of_nat n)) s =
      Some (s\<lparr>ms_auth := auth, ms_keep := keep, ms_instance := fold (restart_instance n) [0..<t] (ms_instance s)\<rparr>)"
      using e 0 by (simp add: next_auth_def Let_def t_def [symmetric] keep_def auth_def leaf_node_def)
    moreover have "auth ! h = tnode env h (sibling (Suc n div 2 ^ h))" if "h < 20" for h
    proof (cases h)
      case (Suc k)
      then show ?thesis using that s(3) m(3) [of h] 0 by (simp add: auth_def)
    qed (use s(1) e in \<open>simp add: auth_def sibling_def\<close>)
    moreover have "length auth = 20" using s(1) by (simp add: auth_def)
    ultimately show ?thesis using keep lk unfolding t_def [symmetric] by blast
  next
    case (Suc u)
    define a where "a = (ms_auth s)[t := hash_pair env (of_nat (n div 2 ^ t)) (of_nat (t + 9)) (ms_auth s ! (t - 1)) (keep ! (t - 1))]"
    define auth where "auth = fold (copy_auth s) [0..<t] a"
    have o: "odd n" using m(4) Suc by (metis dvd_triv_right even_Suc even_mult_iff power_Suc)
    have "copy_auth (s\<lparr>ms_keep := k\<rparr>) = copy_auth s" for k by (intro ext) (simp add: copy_auth_def)
    then have "next_auth env n (ots_public env (of_nat n)) s =
      Some (s\<lparr>ms_auth := auth, ms_keep := keep, ms_instance := fold (restart_instance n) [0..<t] (ms_instance s)\<rparr>)"
      using o t Suc by (simp add: next_auth_def Let_def t_def [symmetric] keep_def auth_def a_def)
    moreover have la: "length a = 20" using s(1) by (simp add: a_def)
    note c = copy_auth_nth [OF la, of t s, folded auth_def]
    moreover have "auth ! h = tnode env h (sibling (Suc n div 2 ^ h))" if h: "h < 20" for h
    proof -
      consider "t < h" | "h = t" | "h < t" "h < 18" | "h < t" "h = 18" | "h < t" "h = 19" using h by linarith
      then show ?thesis
      proof cases
        case 1
        then show ?thesis using c t h s(3) m(3) by (simp add: a_def)
      next
        case 2
        have u: "n div 2 ^ u = 4 * m + 1" using m(1,2) [of u] Suc by simp
        then have "n div 2 ^ u mod 4 = 1" by (simp only: mod_four)
        then have "keep ! u = tnode env u (4 * m + 1)" using s(4) [of u] u t Suc by (simp add: keep_def)
        moreover have "ms_auth s ! u = tnode env u (4 * m)" using s(3) [of u] u t Suc by (simp add: sibling_def)
        moreover have "auth ! t = a ! t" using c t by simp
        moreover have "Suc n div 2 ^ t = 2 * m + 1" using m(1) [of t] by simp
        ultimately show ?thesis using 2 s(1) t q Suc by (simp add: a_def sibling_def add.commute)
      next
        case 3
        have d: "2 ^ Suc h dvd Suc n" using 3(1) sign_tau_dvd [of h n] by (simp add: t_def)
        note f = schedule_finished [OF s(6) d 3(2)]
        have v: "target n h * 2 ^ h = n + 1 + 2 ^ h" by (rule target_Suc(2) [OF d])
        have "2 ^ Suc h dvd (2 :: nat) ^ 20" using h by (intro le_imp_power_dvd) simp
        then have "2 ^ Suc h dvd 2 ^ 20 - Suc n" using d by (rule dvd_diff_nat)
        then have "2 ^ Suc h \<le> 2 ^ 20 - Suc n" using assms(2) by (intro dvd_imp_le) simp_all
        moreover have "(0 :: nat) < 2 ^ h" by simp
        ultimately have "n + 1 + 2 ^ h < 2 ^ 20" using assms(2) unfolding power_Suc by linarith
        then have "h \<in> running n" using v by (simp add: running_def)
        then have "treehash_ok env (target n h) h (ms_instance s ! h)" using s(6) 3(2) by (auto simp: schedule_ok_def insts_ok_def)
        then have i: "th_v (ms_instance s ! h) = tnode env h (target n h)" using f by (simp add: treehash_ok_def)
        have "target n h = Suc n div 2 ^ h + 1"
        proof -
          have "Suc n = Suc n div 2 ^ h * 2 ^ h" using d by (metis dvd_div_mult_self dvd_mult_right power_Suc)
          then have "target n h * 2 ^ h = (Suc n div 2 ^ h + 1) * 2 ^ h" using v by simp
          moreover have "(2 :: nat) ^ h \<noteq> 0" by simp
          ultimately show ?thesis by (simp only: mult_cancel2) blast
        qed
        moreover have "even (Suc n div 2 ^ h)" using m(1) [of h] 3(1) by simp
        ultimately show ?thesis using c t h 3 i by (simp add: sibling_def)
      next
        case 4
        then have "t = 19" using t by simp
        then have "m = 0" using m(4) assms(2) by simp
        then have "Suc n div 2 ^ h = 2" using m(1) [of h] 4 \<open>t = 19\<close> by simp
        then show ?thesis using c t 4 s(5) by (simp add: sibling_def)
      next
        case 5
        then show ?thesis using t by simp
      qed
    qed
    ultimately show ?thesis using keep lk t unfolding t_def [symmetric] by (metis less_imp_le)
  qed
qed

lemma last_path:
  assumes "n = 2 ^ 20 - 1"
  shows "next_auth env n pk s = None"
proof -
  have "2 ^ 20 dvd Suc n" using assms by simp
  then have "20 \<le> sign_tau n" using sign_tau_dvd [of 19 n] by simp
  then show ?thesis by (simp add: next_auth_def Let_def)
qed

end
