(* ===== verification/Ksnmss_Verify.thy ===== *)
theory Ksnmss_Verify
  imports Ksnmss_Traversal ChaCha_Wide
begin

text \<open>
  Signatures of K2SN-MSS verify: the sum of the secret keys hashes to the sum of the public keys, because SWIFFT is
  linear, and the authentication path that the traversal prepared leads to the root.
\<close>

subsection \<open>The one-time keys\<close>

lemma length_encrypt:
  assumes "length x = 16"
  shows "length (fst (ECRYPT_encrypt_bytes x m)) = 16" and "length (snd (ECRYPT_encrypt_bytes x m)) = length m"
proof -
  have "length m \<le> 64 * ((length m + 63) div 64)" by simp
  then have "length (xor_bytes m (take (length m) (key_stream x ((length m + 63) div 64)))) = length m"
    using length_key_stream [OF assms, of "(length m + 63) div 64"] by (simp add: xor_bytes_def)
  then show "length (fst (ECRYPT_encrypt_bytes x m)) = 16" "length (snd (ECRYPT_encrypt_bytes x m)) = length m"
    using length_blocks [OF assms] by (simp_all add: encrypt_stream [OF assms])
qed

lemma length_setup: "length x = 16 \<Longrightarrow> length (ECRYPT_ivsetup (ECRYPT_keysetup x k 256) iv) = 16"
  by (simp add: ECRYPT_ivsetup_def ECRYPT_keysetup_def Let_def)

lemma component_loop_lengths:
  assumes "length ctx = 16" and "length component_id = 128" and "\<forall>k \<in> set sk. length k = 128"
    and "component_loop n (ctx, sk, component_id) = (ctx', sk', component_id')"
  shows "length ctx' = 16 \<and> length component_id' = 128 \<and> (\<forall>k \<in> set sk'. length k = 128) \<and> length sk' = length sk + n"
  using assms
proof (induction n arbitrary: ctx sk component_id)
  case (Suc n)
  obtain c k where e: "ECRYPT_encrypt_bytes ctx component_id = (c, k)" by fastforce
  then have l: "length c = 16" "length k = 128" using length_encrypt [OF Suc.prems(1), of component_id] Suc.prems(2) by simp_all
  have "component_loop n (c, sk @ [k], component_id[0 := component_id ! 0 + 1]) = (ctx', sk', component_id')"
    using Suc.prems(4) e by simp
  from Suc.IH [OF l(1) _ _ this] show ?case using Suc.prems(2,3) l(2) by simp
qed simp

lemma secret_keys:
  shows "length (ots_secret env idx) = 262" and "k \<in> set (ots_secret env idx) \<Longrightarrow> length k = 128"
proof -
  define seed_ctx where "seed_ctx = ECRYPT_ivsetup (ECRYPT_keysetup (replicate 16 0) (system_seed env) 256) (system_iv env)"
  define OTS_seed where "OTS_seed = snd (ECRYPT_encrypt_bytes seed_ctx (id_bytes idx))"
  define ctx where "ctx = ECRYPT_ivsetup (ECRYPT_keysetup (replicate 16 0) OTS_seed 256) OTS_seed"
  have c: "length ctx = 16" unfolding ctx_def by (intro length_setup) simp
  obtain c1 s1 i1 where 1: "component_loop 255 (ctx, [], (replicate 128 0)[0 := 1]) = (c1, s1, i1)" by (metis prod_cases3)
  obtain c2 s2 i2 where 2: "component_loop 7 (c1, s1, i1[0 := 0, 1 := 1]) = (c2, s2, i2)" by (metis prod_cases3)
  note a = component_loop_lengths [OF c _ _ 1]
  note b = component_loop_lengths [OF _ _ _ 2]
  have "ots_secret env idx = s2"
    unfolding ots_secret_def generate_secret_key_OTS_def Let_def seed_ctx_def [symmetric] OTS_seed_def [symmetric] ctx_def [symmetric]
    by (simp add: 1 2 [unfolded One_nat_def])
  then show "length (ots_secret env idx) = 262" "k \<in> set (ots_secret env idx) \<Longrightarrow> length k = 128" using a b by simp_all
qed

lemma public_keys: "i < 262 \<Longrightarrow> ots_public env idx ! i = SWIFFT env (set_Key env idx 0) (ots_secret env idx ! i)"
  using secret_keys(1) [of env idx] by (simp add: ots_public_def generate_public_key_OTS_def)

subsection \<open>Sums\<close>

text \<open>The keys of the hash function.\<close>

definition hash_keys :: "'k mss_env \<Rightarrow> 'k set" where
  "hash_keys env = {A. \<exists>indx height. A = set_Key env indx height}"

text \<open>What SWIFFT promises for them: the generalised function is additive modulo 257 as long as no coefficient of the
  sum exceeds 131, and SWIFFT packs its value for the bits of the input.\<close>

definition swifft_linear :: "'k mss_env \<Rightarrow> bool" where
  "swifft_linear env \<longleftrightarrow>
     (\<forall>A \<in> hash_keys env. \<forall>x. length x = 128 \<longrightarrow> convert_ring (SWIFFT env A x) = gSWIFFT env A (sk_bits x)) \<and>
     (\<forall>A \<in> hash_keys env. \<forall>a. length a = 1024 \<longrightarrow> length (gSWIFFT env A a) = 64 \<and> (\<forall>c \<in> set (gSWIFFT env A a). c < 257)) \<and>
     (\<forall>A \<in> hash_keys env. \<forall>a b. length a = 1024 \<and> length b = 1024 \<and> (\<forall>i < 1024. unat (a ! i) + unat (b ! i) \<le> 131) \<longrightarrow>
        gSWIFFT env A (map2 (+) a b) = map2 (\<lambda>x y. (x + y) mod 257) (gSWIFFT env A a) (gSWIFFT env A b))"

lemma swifft_facts:
  assumes "swifft_linear env" and "A \<in> hash_keys env"
  shows "length x = 128 \<Longrightarrow> convert_ring (SWIFFT env A x) = gSWIFFT env A (sk_bits x)"
    and "length a = 1024 \<Longrightarrow> length (gSWIFFT env A a) = 64" and "length a = 1024 \<Longrightarrow> i < 64 \<Longrightarrow> gSWIFFT env A a ! i < 257"
    and "length a = 1024 \<Longrightarrow> length b = 1024 \<Longrightarrow> \<forall>i<1024. unat (a ! i) + unat (b ! i) \<le> 131 \<Longrightarrow>
      gSWIFFT env A (map2 (+) a b) = map2 (\<lambda>x y. (x + y) mod 257) (gSWIFFT env A a) (gSWIFFT env A b)"
proof -
  note l = assms(1) [unfolded swifft_linear_def]
  show "length x = 128 \<Longrightarrow> convert_ring (SWIFFT env A x) = gSWIFFT env A (sk_bits x)" using l assms(2) by blast
  show "length a = 1024 \<Longrightarrow> length (gSWIFFT env A a) = 64" "length a = 1024 \<Longrightarrow> i < 64 \<Longrightarrow> gSWIFFT env A a ! i < 257"
    using l assms(2) by (metis nth_mem)+
  show "length a = 1024 \<Longrightarrow> length b = 1024 \<Longrightarrow> \<forall>i<1024. unat (a ! i) + unat (b ! i) \<le> 131 \<Longrightarrow>
      gSWIFFT env A (map2 (+) a b) = map2 (\<lambda>x y. (x + y) mod 257) (gSWIFFT env A a) (gSWIFFT env A b)" using l assms(2) by blast
qed

lemma bit_of_byte: "unat (drop_bit j (b AND push_bit j (1 :: u8))) \<le> 1"
proof -
  have "drop_bit j (b AND push_bit j (1 :: u8)) = drop_bit j b AND (drop_bit j (push_bit j 1))" by (simp add: drop_bit_and)
  moreover have "drop_bit j (push_bit j (1 :: u8)) AND 1 = drop_bit j (push_bit j 1)"
    by (intro bit_word_eqI) (auto simp: bit_simps)
  ultimately have "drop_bit j (b AND push_bit j (1 :: u8)) = (drop_bit j b AND (drop_bit j (push_bit j 1))) AND 1" by (metis and.assoc)
  moreover have "(drop_bit j b AND (drop_bit j (push_bit j 1))) AND 1 \<le> (1 :: u8)" by (rule word_and_le1)
  ultimately show ?thesis by (simp only: word_le_nat_alt unat_1)
qed

lemma sk_bits_props:
  assumes "length k = 128"
  shows "length (sk_bits k) = 1024" and "i < 1024 \<Longrightarrow> unat (sk_bits k ! i) \<le> 1"
proof -
  have "length (sk_bits k) = 8 * length k" for k by (induction k) (simp_all add: sk_bits_def)
  then show l: "length (sk_bits k) = 1024" using assms by simp
  have "\<forall>c \<in> set (sk_bits k). unat c \<le> 1" by (intro ballI, unfold sk_bits_def set_concat set_map, elim UN_E imageE, simp only: set_map, elim imageE, simp only: bit_of_byte)
  then show "i < 1024 \<Longrightarrow> unat (sk_bits k ! i) \<le> 1" using l by simp
qed


text \<open>The sum of \<open>n\<close> secret keys and that of their public keys.\<close>

lemma sums_agree:
  fixes keys :: "nat \<Rightarrow> sk_node" and A :: 'k
  assumes "swifft_linear env" and "\<And>i. length (keys i) = 128"
  defines "S \<equiv> \<lambda>n. fold (\<lambda>le sksum. map2 (+) sksum (sk_bits (keys le))) [1..<Suc n] (sk_bits (keys 0))"
  defines "P \<equiv> \<lambda>n. fold (\<lambda>le sum. map2 (+) sum (convert_ring (SWIFFT env A (keys le)))) [1..<Suc n] (convert_ring (SWIFFT env A (keys 0)))"
  assumes "n < 131" and key: "A \<in> hash_keys env"
  shows "length (S n) = 1024 \<and> (\<forall>i<1024. unat (S n ! i) \<le> Suc n) \<and> length (P n) = 64 \<and> (\<forall>i<64. unat (P n ! i) \<le> 256 * Suc n) \<and>
    gSWIFFT env A (S n) = map (\<lambda>x. x mod 257) (P n)"
  using assms(5)
proof (induction n)
  case 0
  define G where "G = gSWIFFT env A (sk_bits (keys 0))"
  have G: "length G = 64" "\<And>i. i < 64 \<Longrightarrow> G ! i < 257"
    using swifft_facts(2,3) [OF assms(1) key sk_bits_props(1) [OF assms(2)]] by (simp_all add: G_def)
  have "map (\<lambda>x. x mod 257) G = G"
    using G by (intro nth_equalityI) (simp_all add: word_less_nat_alt word_arith_nat_mod)
  moreover have "\<forall>i<64. unat (G ! i) \<le> 256" using G(2) by (fastforce simp: word_less_nat_alt)
  ultimately show ?case using swifft_facts(1) [OF assms(1) key assms(2)] sk_bits_props [OF assms(2)] G(1)
    by (simp add: S_def P_def G_def)
next
  case (Suc n)
  define B where "B = sk_bits (keys (Suc n))"
  define C where "C = gSWIFFT env A B"
  have B: "length B = 1024" "\<And>i. i < 1024 \<Longrightarrow> unat (B ! i) \<le> 1" using sk_bits_props [OF assms(2)] by (simp_all add: B_def)
  have C: "length C = 64" "\<And>i. i < 64 \<Longrightarrow> C ! i < 257" "convert_ring (SWIFFT env A (keys (Suc n))) = C"
    using swifft_facts(2,3) [OF assms(1) key B(1)] swifft_facts(1) [OF assms(1) key assms(2)] by (simp_all add: C_def B_def)
  have s: "S (Suc n) = map2 (+) (S n) B" "P (Suc n) = map2 (+) (P n) C" by (simp_all add: S_def P_def B_def C(3) del: upt_Suc_append)
  have n: "length (S n) = 1024" "\<And>i. i < 1024 \<Longrightarrow> unat (S n ! i) \<le> Suc n" "length (P n) = 64" "\<And>i. i < 64 \<Longrightarrow> unat (P n ! i) \<le> 256 * Suc n"
      "gSWIFFT env A (S n) = map (\<lambda>x. x mod 257) (P n)"
    using Suc by simp_all
  have u: "unat (S n ! i + B ! i) = unat (S n ! i) + unat (B ! i)" if "i < 1024" for i
    using n(2) [OF that] B(2) [OF that] Suc.prems by (intro unat_add_lem [THEN iffD1]) simp
  have c: "unat (C ! i) \<le> 256" if "i < 64" for i using C(2) [OF that] by (simp add: word_less_nat_alt)
  have v: "unat (P n ! i + C ! i) = unat (P n ! i) + unat (C ! i)" if "i < 64" for i
    using n(4) [OF that] c [OF that] Suc.prems by (intro unat_add_lem [THEN iffD1]) simp
  have "gSWIFFT env A (S (Suc n)) = map2 (\<lambda>x y. (x + y) mod 257) (map (\<lambda>x. x mod 257) (P n)) C"
  proof -
    have "unat (S n ! i) + unat (B ! i) \<le> 131" if "i < 1024" for i
      using n(2) [OF that] B(2) [OF that] Suc.prems by linarith
    then show ?thesis using swifft_facts(4) [OF assms(1) key n(1) B(1)] n(5) by (simp add: s C_def)
  qed
  also have "\<dots> = map (\<lambda>x. x mod 257) (P (Suc n))"
  proof (rule nth_equalityI)
    fix i
    assume "i < length (map2 (\<lambda>x y. (x + y) mod 257) (map (\<lambda>x. x mod 257) (P n)) C)"
    then have i: "i < 64" using n(3) C(1) by simp
    have "unat (P n ! i mod 257 + C ! i) = unat (P n ! i) mod 257 + unat (C ! i)"
    proof -
      have "unat (P n ! i mod 257) = unat (P n ! i) mod 257" by (simp add: unat_mod)
      moreover have "unat (P n ! i) mod 257 < 257" by simp
      ultimately show ?thesis using c [OF i] by (subst unat_add_lem [THEN iffD1]) simp_all
    qed
    then have "unat ((P n ! i mod 257 + C ! i) mod 257) = (unat (P n ! i) + unat (C ! i)) mod 257" by (simp add: unat_mod mod_simps)
    also have "\<dots> = unat ((P n ! i + C ! i) mod 257)" using v [OF i] by (simp add: unat_mod)
    finally show "map2 (\<lambda>x y. (x + y) mod 257) (map (\<lambda>x. x mod 257) (P n)) C ! i = map (\<lambda>x. x mod 257) (P (Suc n)) ! i"
      using i n(3) C(1) by (simp add: s word_unat_eq_iff)
  qed (simp add: s)
  finally have "gSWIFFT env A (S (Suc n)) = map (\<lambda>x. x mod 257) (P (Suc n))" .
  moreover have "\<forall>i<1024. unat (S (Suc n) ! i) \<le> Suc (Suc n)" using n(1,2) B u by (fastforce simp: s)
  moreover have "\<forall>i<64. unat (P (Suc n) ! i) \<le> 256 * Suc (Suc n)" using n(3,4) C(1) c v by (fastforce simp: s)
  ultimately show ?case using n(1,3) B(1) C(1) by (simp add: s)
qed


subsection \<open>The path\<close>

lemma climb_path:
  assumes "n < 2 ^ 32" and "k \<le> 20" and "\<And>h. h < 20 \<Longrightarrow> auth ! h = tnode env h (sibling (n div 2 ^ h))"
  shows "climb env [k..<20] auth (of_nat (n div 2 ^ k)) (tnode env k (n div 2 ^ k)) = tnode env 20 (n div 2 ^ 20)"
  using assms(2)
proof (induction k rule: inc_induct)
  case (step k)
  define q where "q = n div 2 ^ k"
  have "q \<le> n" by (simp add: q_def)
  then have q: "unat (of_nat q :: u32) = q" using assms(1) by (simp add: unat_of_nat)
  have d: "(of_nat q :: u32) div 2 = of_nat (q div 2)" and m: "(of_nat q :: u32) mod 2 = 0 \<longleftrightarrow> even q"
  proof -
    have "unat ((of_nat q :: u32) div 2) = q div 2" using q by (simp add: unat_div)
    moreover have "unat (of_nat (q div 2) :: u32) = q div 2" using \<open>q \<le> n\<close> assms(1) by (simp add: unat_of_nat)
    ultimately show "(of_nat q :: u32) div 2 = of_nat (q div 2)" by (simp only: word_unat_eq_iff)
    have "unat ((of_nat q :: u32) mod 2) = q mod 2" using q by (simp add: unat_mod)
    then show "(of_nat q :: u32) mod 2 = 0 \<longleftrightarrow> even q" by (simp only: word_unat_eq_iff even_iff_mod_2_eq_zero unat_0)
  qed
  have s: "n div 2 ^ Suc k = q div 2" by (simp add: q_def div_mult2_eq [symmetric] mult.commute)
  have a: "auth ! k = tnode env k (sibling q)" using assms(3) step.hyps by (simp add: q_def)
  have "[k..<20] = k # [Suc k..<20]" using step.hyps by (simp add: upt_conv_Cons)
  moreover have "(let (left, right) = (if (of_nat q :: u32) mod 2 = 0 then (tnode env k q, auth ! k) else (auth ! k, tnode env k q)) in
      hash_pair env ((of_nat q :: u32) div 2) (of_nat (k + 10)) left right) = tnode env (Suc k) (q div 2)"
  proof (cases "even q")
    case True
    then show ?thesis using m d a by (auto simp: sibling_def elim!: evenE)
  next
    case False
    then show ?thesis using m d a by (auto simp: sibling_def elim!: oddE)
  qed
  ultimately show ?case using step.IH unfolding s q_def [symmetric] by (simp add: Let_def case_prod_unfold d del: tnode.simps)
qed simp

subsection \<open>Signing and verifying\<close>

lemma sign_ok:
  assumes "traversal_ok env n s" and "length ms = 32" and "Suc n < 2 ^ 20"
  shows "\<exists>cs s'. message_keys ms (ms_component_key s) = Some cs \<and> ksnmss_sign env (of_nat n) ms s =
      Some (\<lparr>sig_id = of_nat n, sig_message = ms, sig_sksum = sum_secrets (ots_secret env (of_nat n)) cs,
         sig_pk = ots_public env (of_nat n), sig_auth = ms_auth s\<rparr>, s') \<and> traversal_ok env (Suc n) s'"
proof -
  have l: "length (ms_component_key s) = 131" using assms(1) by (simp add: traversal_ok_def)
  obtain cs where cs: "message_keys ms (ms_component_key s) = Some cs" "length cs = 131"
    by (rule message_keys_number [OF assms(2)]) (rule l)
  define s1 where "s1 = s\<lparr>ms_component_key := cs\<rparr>"
  have o: "traversal_ok env n s1" using assms(1) cs(2) by (simp add: traversal_ok_def s1_def)
  obtain auth keep where p: "next_auth env n (ots_public env (of_nat n)) s1 =
      Some (s1\<lparr>ms_auth := auth, ms_keep := keep, ms_instance := fold (restart_instance n) [0..<sign_tau n] (ms_instance s1)\<rparr>)"
      "length auth = 20" "length keep = 19" "\<forall>h<20. auth ! h = tnode env h (sibling (Suc n div 2 ^ h))"
      "\<forall>h<19. Suc n div 2 ^ h mod 4 = 1 \<longrightarrow> keep ! h = tnode env h (Suc n div 2 ^ h)"
    using next_path [OF o assms(3)] by blast
  define insts where "insts = update_loop env updateiter (fold (restart_instance n) [0..<sign_tau n] (ms_instance s1))"
  have sch: "schedule_ok env (Suc n) insts" unfolding insts_def using o by (intro schedule_step) (simp add: traversal_ok_def)
  define s' where "s' = s1\<lparr>ms_auth := auth, ms_keep := keep, ms_instance := insts\<rparr>"
  have "traversal_ok env (Suc n) s'" using o p sch by (simp add: traversal_ok_def s'_def)
  moreover have u: "unat (of_nat n :: u32) = n" using assms(3) by (simp add: unat_of_nat)
  have "ksnmss_sign env (of_nat n) ms s =
      Some (\<lparr>sig_id = of_nat n, sig_message = ms, sig_sksum = sum_secrets (ots_secret env (of_nat n)) cs,
         sig_pk = ots_public env (of_nat n), sig_auth = ms_auth s\<rparr>, s')"
    using p(1) cs(1) assms(2,3) unfolding ksnmss_sign_def Let_def s1_def [symmetric] u
    by (simp add: u s1_def [symmetric] s'_def insts_def)
  ultimately show ?thesis using cs(1) by blast
qed

text \<open>The selection does not depend on the old contents of the array.\<close>

lemma cff_loop_overwrites:
  assumes "length ck = length ck'" and "\<And>j. j < length ck \<Longrightarrow> j \<notin> (\<lambda>i. i - 1) ` set is \<Longrightarrow> ck ! j = ck' ! j"
  shows "cff_loop tab is msg q ck = cff_loop tab is msg q ck'"
  using assms
proof (induction "is" arbitrary: msg q ck ck')
  case Nil
  then have "ck = ck'" by (intro nth_equalityI) simp_all
  then show ?case by simp
next
  case (Cons i "is")
  have "cff_loop tab is m (p + 1) (ck[i - 1 := p - 1]) = cff_loop tab is m (p + 1) (ck'[i - 1 := p - 1])" for m p
  proof (rule Cons.IH)
    fix j
    assume j: "j < length (ck[i - 1 := p - 1])" "j \<notin> (\<lambda>i. i - 1) ` set is"
    show "ck[i - 1 := p - 1] ! j = ck'[i - 1 := p - 1] ! j"
      using Cons.prems(1) Cons.prems(2) [of j] j by (cases "j = i - 1") auto
  qed (use Cons.prems(1) in simp)
  then show ?case by (auto split: Option.bind_split)
qed

lemma message_keys_overwrites: "length ck = 131 \<Longrightarrow> length ck' = 131 \<Longrightarrow> message_keys ms ck = message_keys ms ck'"
proof -
  assume l: "length ck = 131" "length ck' = 131"
  have "j \<in> (\<lambda>i. i - 1) ` set [1..<132]" if "j < 131" for j
    using that by (intro image_eqI [of _ _ "Suc j"]) auto
  then have "cff_loop tab [1..<132] msg 1 ck = cff_loop tab [1..<132] msg 1 ck'" for tab msg
    using l by (intro cff_loop_overwrites) auto
  then show "message_keys ms ck = message_keys ms ck'" by (simp only: message_keys_def cff_def)
qed

lemma fold_nothing: "fold (\<lambda>_ v. v) is v = v"
  by (induction "is") simp_all

lemma sum_cancels: "(\<And>i. i \<in> set is \<Longrightarrow> f i = g i) \<Longrightarrow> fold (\<lambda>i v. v + (f i - g i)) is (v :: u32) = v"
  by (induction "is") simp_all

lemma verify_ok:
  assumes "swifft_linear env" and "n < 2 ^ 20" and "length ms = 32" and "length ck = 131" and "message_keys ms ck = Some cs"
    and "sig_sksum sig = sum_secrets (ots_secret env (of_nat n)) cs" and "sig_pk sig = ots_public env (of_nat n)"
    and "\<And>h. h < 20 \<Longrightarrow> sig_auth sig ! h = tnode env h (sibling (n div 2 ^ h))"
    and "ms_MSSPK s = tnode env 20 0" and "length (ms_component_key s) = 131"
  shows "\<exists>s'. ksnmss_verify env (of_nat n) ms sig s = Some (0, s')"
proof -
  define A where "A = set_Key env (of_nat n) 0"
  define keys where "keys = (\<lambda>i. if i < 131 then ots_secret env (of_nat n) ! (cs ! i) else replicate 128 0)"
  have cs: "length cs = 131" "set cs \<subseteq> {..<262}"
    using message_keys_number [OF assms(3,4)] assms(5) by (metis option.inject)+
  then have c: "cs ! i < 262" if "i < 131" for i
    using cs that by (metis lessThan_iff nth_mem subsetD)
  have k: "length (keys i) = 128" for i
    using secret_keys [where env = env and idx = "of_nat n"] c [of i] by (simp add: keys_def)
  have S: "fold (\<lambda>le sksum. map2 (+) sksum (sk_bits (keys le))) [1..<Suc 130] (sk_bits (keys 0)) = sig_sksum sig"
    unfolding assms(6) sum_secrets_def by (intro fold_cong) (simp_all add: keys_def)
  have P: "map (\<lambda>x. x mod 257) (fold (\<lambda>le sum. map2 (+) sum (convert_ring (SWIFFT env A (keys le)))) [1..<Suc 130] (convert_ring (SWIFFT env A (keys 0)))) =
      sum_publics (sig_pk sig) cs"
    unfolding assms(7) sum_publics_def using c by (intro arg_cong [of _ _ "map _"] fold_cong) (simp_all add: keys_def public_keys A_def)
  have a: "length (sig_sksum sig) = 1024" "\<forall>i<1024. unat (sig_sksum sig ! i) \<le> 131" "gSWIFFT env A (sig_sksum sig) = sum_publics (sig_pk sig) cs"
    using sums_agree [OF assms(1), where keys = keys and n = 130 and A = A] k unfolding S P by (auto simp: A_def hash_keys_def)
  have t: "take 1024 (sig_sksum sig) = sig_sksum sig" using a(1) by simp
  have l: "\<not> list_ex (\<lambda>c. c > 131) (sig_sksum sig)"
    using a(1,2) by (fastforce simp: list_ex_iff in_set_conv_nth word_less_nat_alt)
  have mk: "message_keys ms (ms_component_key s) = Some cs" using message_keys_overwrites [OF assms(10,4)] assms(5) by simp
  have "climb env [0..<20] (sig_auth sig) (of_nat (n div 2 ^ 0)) (tnode env 0 (n div 2 ^ 0)) = tnode env 20 (n div 2 ^ 20)"
    using assms(2,8) by (intro climb_path) simp_all
  then have "climb env [0..<20] (sig_auth sig) (of_nat n) (create_L_tree env (sig_pk sig) (of_nat n)) = tnode env 20 0"
    using assms(2) by (simp add: leaf_node_def assms(7))
  then show ?thesis
    unfolding ksnmss_verify_def t Let_def A_def [symmetric] a(3)
    using l by (simp add: mk assms(9) sum_cancels fold_nothing)
qed

text \<open>A run of the signer: the messages are signed with the instances \<open>n\<close>, \<open>n + 1\<close>, and so on.\<close>

fun sign_all :: "'k mss_env \<Rightarrow> nat \<Rightarrow> bytes list \<Rightarrow> mss_state \<Rightarrow> (ksnmss_sig list \<times> mss_state) option" where
  "sign_all env n [] s = Some ([], s)"
| "sign_all env n (ms # mss) s = do {
     (sig, s) \<leftarrow> ksnmss_sign env (of_nat n) ms s;
     (sigs, s) \<leftarrow> sign_all env (n + 1) mss s;
     Some (sig # sigs, s) }"

lemma sign_all_ok:
  assumes "traversal_ok env n s" and "\<forall>ms \<in> set mss. length ms = 32" and "n + length mss < 2 ^ 20"
  shows "\<exists>sigs s'. sign_all env n mss s = Some (sigs, s') \<and> length sigs = length mss \<and> traversal_ok env (n + length mss) s' \<and>
    (\<forall>i < length mss. \<forall>t. swifft_linear env \<and> traversal_ok env (n + length mss) t \<longrightarrow>
      (\<exists>t'. ksnmss_verify env (of_nat (n + i)) (mss ! i) (sigs ! i) t = Some (0, t')))"
  using assms
proof (induction mss arbitrary: n s)
  case (Cons ms mss)
  obtain cs s1 sig where s: "message_keys ms (ms_component_key s) = Some cs" "ksnmss_sign env (of_nat n) ms s = Some (sig, s1)" "traversal_ok env (Suc n) s1"
    and sig: "sig = \<lparr>sig_id = of_nat n, sig_message = ms, sig_sksum = sum_secrets (ots_secret env (of_nat n)) cs,
         sig_pk = ots_public env (of_nat n), sig_auth = ms_auth s\<rparr>"
    using sign_ok [OF Cons.prems(1), of ms] Cons.prems(2,3) by auto
  obtain sigs s' where r: "sign_all env (Suc n) mss s1 = Some (sigs, s')" "length sigs = length mss" "traversal_ok env (Suc n + length mss) s'"
    "\<And>i t. i < length mss \<Longrightarrow> swifft_linear env \<Longrightarrow> traversal_ok env (Suc n + length mss) t \<Longrightarrow>
      \<exists>t'. ksnmss_verify env (of_nat (Suc n + i)) (mss ! i) (sigs ! i) t = Some (0, t')"
    using Cons.IH [OF s(3)] Cons.prems(2,3) by auto
  have "\<exists>t'. ksnmss_verify env (of_nat n) ms sig t = Some (0, t')" if "swifft_linear env" "traversal_ok env (n + length (ms # mss)) t" for t
    using Cons.prems s(1) that
    by (intro verify_ok [of env n ms "ms_component_key s" cs]) (simp_all add: sig traversal_ok_def)
  then have "\<exists>t'. ksnmss_verify env (of_nat (n + i)) ((ms # mss) ! i) ((sig # sigs) ! i) t = Some (0, t')"
    if "i < length (ms # mss)" "swifft_linear env" "traversal_ok env (n + length (ms # mss)) t" for i t
    using r(4) [of "i - 1" t] that by (cases i) simp_all
  then show ?case using s(2) r(1-3) by simp
qed simp

lemma sign_all_append: "sign_all env n (xs @ ys) s =
    (case sign_all env n xs s of None \<Rightarrow> None
     | Some (sigs, s') \<Rightarrow> map_option (\<lambda>(sigs', s'). (sigs @ sigs', s')) (sign_all env (n + length xs) ys s'))"
proof (induction xs arbitrary: n s)
  case (Cons x xs)
  then show ?case by (cases "ksnmss_sign env (of_nat n) x s") (auto simp: map_option_case split: option.splits prod.splits Option.bind_split)
qed (auto simp: option.map_id split: option.splits)

definition mss_shape :: "mss_state \<Rightarrow> bool" where
  "mss_shape s \<longleftrightarrow> length (ms_auth s) = 20 \<and> length (ms_keep s) = 19 \<and> length (ms_component_key s) = 131 \<and> length (ms_instance s) = 18"

text \<open>Signing and verifying with a linear hash function, after key generation.\<close>

lemma signatures_verify:
  assumes "swifft_linear env" and "mss_shape s" and "\<forall>ms \<in> set mss. length ms = 32" and "length mss < 2 ^ 20"
  shows "\<exists>sigs s'. sign_all env 0 mss (key_generation env s) = Some (sigs, s') \<and> length sigs = length mss \<and>
    (\<forall>i < length mss. \<exists>t. ksnmss_verify env (of_nat i) (mss ! i) (sigs ! i) s' = Some (0, t))"
  using sign_all_ok [OF traversal_start, of s mss env] assms by (fastforce simp: mss_shape_def)

text \<open>C12: the last instance cannot be used. Signing ends with a memory error exactly when the number of messages
  reaches \<open>2 ^ 20\<close>: for the last instance \<open>ksnmss_sign\<close> writes a node behind the authentication path.\<close>

theorem ksnmss_capacity:
  assumes "mss_shape s" and "\<forall>ms \<in> set mss. length ms = 32"
  shows "sign_all env 0 mss (key_generation env s) = None \<longleftrightarrow> 2 ^ 20 \<le> length mss"
proof (cases "2 ^ 20 \<le> length mss")
  case True
  define N :: nat where "N = 2 ^ 20 - 1"
  have u: "unat (of_nat N :: u32) = N" "N < 2 ^ 20" by (simp_all add: unat_of_nat N_def)
  then have n: "N < length mss" using True by linarith
  define xs where "xs = take N mss"
  obtain y ys where m: "mss = xs @ y # ys" using id_take_nth_drop [OF n] by (simp add: xs_def)
  have l: "length xs = N" using n by (simp add: xs_def)
  have x: "\<forall>ms \<in> set xs. length ms = 32" "length y = 32" using assms(2) by (simp_all add: m)
  obtain sigs s' where r: "sign_all env 0 xs (key_generation env s) = Some (sigs, s')" "traversal_ok env N s'"
    using sign_all_ok [OF traversal_start, of s xs env] assms(1) x(1) l u(2) by (auto simp: mss_shape_def)
  have k: "length (ms_component_key s') = 131" using r(2) by (simp add: traversal_ok_def)
  have "ksnmss_sign env (of_nat N) y s' = None"
  proof (rule message_keys_number [OF x(2) k])
    fix cs
    assume "message_keys y (ms_component_key s') = Some cs"
    then show ?thesis using u by (simp add: ksnmss_sign_def Let_def last_path [OF N_def])
  qed
  then show ?thesis using True r(1) l by (simp add: m sign_all_append)
next
  case False
  then show ?thesis using sign_all_ok [OF traversal_start, of s mss env] assms by (auto simp: mss_shape_def)
qed

lemma fold_differences: "fold (\<lambda>i v. v + (f i - g i)) [0..<n] (0 :: u32) = (\<Sum>i<n. f i) - (\<Sum>i<n. g i)"
  by (induction n) simp_all

text \<open>C13: verification compares sums only. A signature is accepted exactly if no coefficient exceeds 131, the 64
  coefficients of the hashed secret sum have the same total modulo \<open>2 ^ 32\<close> as those of the sum of the public keys,
  and the 72 bytes of the computed root have the same total as those of the public key; the equalities of the
  vectors that the scheme asks for are not checked.\<close>

theorem ksnmss_verify_only_sums:
  assumes "message_keys ms (ms_component_key s) = Some cs"
  shows "(\<exists>s'. ksnmss_verify env idx ms sig s = Some (0, s')) \<longleftrightarrow>
    (\<forall>c \<in> set (take 1024 (sig_sksum sig)). c \<le> 131) \<and>
    (\<Sum>i<64. gSWIFFT env (set_Key env idx 0) (take 1024 (sig_sksum sig)) ! i) = (\<Sum>i<64. sum_publics (sig_pk sig) cs ! i) \<and>
    (\<Sum>i<72. ucast (ms_MSSPK s ! i) :: u32) = (\<Sum>i<72. ucast (climb env [0..<20] (sig_auth sig) idx (create_L_tree env (sig_pk sig) idx) ! i))"
  unfolding ksnmss_verify_def Let_def fold_differences by (auto simp: assms list_ex_iff not_le)

text \<open>A concrete instance of the parameters: a hash that keeps the first bit of its input.\<close>

definition first_bit_env :: "unit mss_env" where
  "first_bit_env = \<lparr>set_Key = (\<lambda>_ _. ()), SWIFFT = (\<lambda>_ x. (x ! 0 AND 1) # replicate 71 0),
     gSWIFFT = (\<lambda>_ x. ucast (x ! 0) # replicate 63 0), system_seed = replicate 32 1, system_iv = replicate 8 2,
     randompad_seed = replicate 32 3, randompad_iv = replicate 8 4\<rparr>"

definition blank_state :: mss_state where
  "blank_state = \<lparr>ms_auth = replicate 20 [], ms_keep = replicate 19 [], ms_retain = [], ms_MSSPK = [],
     ms_instance = replicate 18 \<lparr>th_v = [], th_treestack = [], th_finalized = 0, th_startleaf = 0, th_lowheight = 0\<rparr>,
     ms_component_key = replicate 131 0\<rparr>"

lemma blank_shape: "mss_shape blank_state"
  by (simp add: mss_shape_def blank_state_def)

lemma ksnmss_capacity_witness:
  "sign_all first_bit_env 0 (replicate (2 ^ 20) (replicate 32 7)) (key_generation first_bit_env blank_state) = None"
  using ksnmss_capacity [OF blank_shape, of "replicate (2 ^ 20) (replicate 32 7)" first_bit_env]
  by (simp del: replicate.simps sign_all.simps)


lemma ksnmss_verify_only_sums_witness:
  "\<exists>cs s'. message_keys (replicate 32 0) (replicate 131 0) = Some cs \<and>
    ksnmss_verify first_bit_env 0 (replicate 32 0) \<lparr>sig_id = 0, sig_message = [], sig_sksum = replicate 1024 0,
      sig_pk = replicate 262 (replicate 72 0), sig_auth = replicate 20 (replicate 72 0)\<rparr>
      (blank_state\<lparr>ms_MSSPK := climb first_bit_env [0..<20] (replicate 20 (replicate 72 0)) 0 (create_L_tree first_bit_env (replicate 262 (replicate 72 0)) 0)\<rparr>)
      = Some (0, s')"
proof -
  obtain cs where cs: "message_keys (replicate 32 0) (replicate 131 0) = Some cs" "length cs = 131" "set cs \<subseteq> {..<262}"
    by (rule message_keys_number [of "replicate 32 0" "replicate 131 0"]) simp_all
  have k: "message_keys (replicate 32 0) (ms_component_key (blank_state\<lparr>ms_MSSPK := r\<rparr>)) = Some cs" for r
    using cs(1) by (simp add: blank_state_def)
  have c: "cs ! i < 262" if "i < 131" for i using cs(2,3) that by (metis lessThan_iff nth_mem subsetD)
  have z: "convert_ring (replicate 72 0) = replicate 64 0"
    by (simp add: convert_ring_def ring_group_def upt_rec numeral_eq_Suc)
  have "fold (\<lambda>le sum. map2 (+) sum (convert_ring (replicate 262 (replicate 72 0) ! (cs ! le)))) xs (replicate 64 0) = (replicate 64 0 :: u32 list)"
    if "set xs \<subseteq> {..<131}" for xs using that c by (induction xs) (simp_all add: z map2_map_map zip_replicate)
  then have p: "sum_publics (replicate 262 (replicate 72 0)) cs = replicate 64 0" using c [of 0] by (simp add: sum_publics_def z subset_iff)
  have g: "gSWIFFT first_bit_env A (replicate 1024 0) = replicate 64 0" for A
    by (simp add: first_bit_env_def numeral_eq_Suc)
  show ?thesis
    using cs(1) ksnmss_verify_only_sums [OF k, of first_bit_env 0] by (simp add: p g)
qed

end
