(* ===== verification/Swifft.thy ===== *)
theory Swifft
  imports Ksnmss
begin

text \<open>
  The hash function SWIFFT of \<open>k2sn/swifft16\<close> (\<open>swifft-avx2-16.c\<close>, \<open>ntt16.h\<close>): 1024 bits or small numbers are
  transformed in 16 rows of 64 numbers modulo 257, multiplied with a key and added up. A 256-bit register is
  the list of its sixteen 16-bit lanes. The header \<open>swifft-avx2-16.h\<close> with the tables and constants is not in the
  repository; they are the parameter \<open>swifft_tables\<close>, for which \<open>Swifft_Linear\<close> takes the values found in the
  compiled program \<open>k2sn/a.out\<close>.
\<close>

type_synonym vec = "u16 list"

record swifft_tables =
  T_K0_I0 :: "nat \<Rightarrow> vec"
  M_K0_I0 :: "vec list"
  k0i0 :: "vec list"
  permute :: "nat list list"
  selec :: "vec list"
  mask255 :: vec
  allone :: vec
  p257 :: vec
  p257_2 :: vec
  p257_7 :: vec
  zero_vec :: vec
  hk_seed :: bytes
  hk_iv :: bytes

subsection \<open>Vector instructions\<close>

definition add_epi16 :: "vec \<Rightarrow> vec \<Rightarrow> vec" where "add_epi16 a b = map2 (+) a b"
definition sub_epi16 :: "vec \<Rightarrow> vec \<Rightarrow> vec" where "sub_epi16 a b = map2 (-) a b"
definition and_si256 :: "vec \<Rightarrow> vec \<Rightarrow> vec" where "and_si256 a b = map2 (AND) a b"
definition or_si256 :: "vec \<Rightarrow> vec \<Rightarrow> vec" where "or_si256 a b = map2 (OR) a b"
definition xor_si256 :: "vec \<Rightarrow> vec \<Rightarrow> vec" where "xor_si256 a b = map2 (XOR) a b"
definition srli_epi16 :: "vec \<Rightarrow> nat \<Rightarrow> vec" where "srli_epi16 a n = map (drop_bit n) a"
definition slli_epi16 :: "vec \<Rightarrow> nat \<Rightarrow> vec" where "slli_epi16 a n = map (push_bit n) a"
definition mullo_epi16 :: "vec \<Rightarrow> vec \<Rightarrow> vec" where "mullo_epi16 a b = map2 (*) a b"

definition mulhi_epu16 :: "vec \<Rightarrow> vec \<Rightarrow> vec" where
  "mulhi_epu16 a b = map2 (\<lambda>x y. ucast (drop_bit 16 (ucast x * ucast y :: u32))) a b"

definition cmpgt_epi16 :: "vec \<Rightarrow> vec \<Rightarrow> vec" where
  "cmpgt_epi16 a b = map2 (\<lambda>x y. if sint y < sint x then - 1 else 0) a b"

text \<open>The register as eight lanes of 32 bits.\<close>

definition lanes32 :: "vec \<Rightarrow> u32 list" where
  "lanes32 a = map (\<lambda>i. ucast (a ! (2 * i)) OR push_bit 16 (ucast (a ! (2 * i + 1)))) [0..<8]"

definition lanes16 :: "u32 list \<Rightarrow> vec" where
  "lanes16 a = concat (map (\<lambda>w. [ucast w, ucast (drop_bit 16 w)]) a)"

definition permutevar8x32_epi32 :: "vec \<Rightarrow> nat list \<Rightarrow> vec" where
  "permutevar8x32_epi32 a idx = lanes16 (map (\<lambda>i. lanes32 a ! (i mod 8)) idx)"

subsection \<open>Arithmetic modulo 257\<close>

definition vecMult16Reduce3 :: "swifft_tables \<Rightarrow> vec \<Rightarrow> vec \<Rightarrow> vec" where
  "vecMult16Reduce3 tabs I0 I1 =
     (let T0 = mulhi_epu16 I0 I1; T1 = mullo_epi16 I0 I1;
          A0 = and_si256 T1 (mask255 tabs); A1 = srli_epi16 T1 8; T1 = sub_epi16 A0 A1;
          T1 = add_epi16 T0 T1;
          A0 = cmpgt_epi16 T1 (allone tabs); A0 = xor_si256 A0 (allone tabs); A0 = and_si256 A0 (p257 tabs)
      in add_epi16 A0 T1)"

definition ReduceY2 :: "swifft_tables \<Rightarrow> vec \<Rightarrow> vec" where
  "ReduceY2 tabs Y =
     (let a0 = and_si256 Y (mask255 tabs); a1 = srli_epi16 Y 8; Y = sub_epi16 a0 a1;
          a0 = cmpgt_epi16 Y (allone tabs); a0 = xor_si256 a0 (allone tabs); a0 = and_si256 a0 (p257 tabs)
      in add_epi16 Y a0)"

subsection \<open>Transformation of a row\<close>

text \<open>The end of both transformations: a transform of four points.\<close>

definition four_points :: "swifft_tables \<Rightarrow> vec list \<Rightarrow> vec list" where
  "four_points tabs t =
     (let Y_temp1_0 = vecMult16Reduce3 tabs (M_K0_I0 tabs ! 0) (t ! 0); Y_temp1_1 = vecMult16Reduce3 tabs (M_K0_I0 tabs ! 1) (t ! 1);
          Y_temp1_2 = vecMult16Reduce3 tabs (M_K0_I0 tabs ! 2) (t ! 2); Y_temp1_3 = vecMult16Reduce3 tabs (M_K0_I0 tabs ! 3) (t ! 3);
          Y_temp2_0 = add_epi16 Y_temp1_0 Y_temp1_2; Y_temp2_1 = add_epi16 Y_temp1_1 Y_temp1_3;
          Y_0 = add_epi16 Y_temp2_0 Y_temp2_1;
          Y_temp2_2 = add_epi16 Y_temp2_0 (p257_2 tabs); Y_2 = sub_epi16 Y_temp2_2 Y_temp2_1;
          Y_temp2_0 = add_epi16 Y_temp1_0 (p257_2 tabs); Y_temp2_1 = sub_epi16 Y_temp2_0 Y_temp1_2;
          Y_temp2_2 = add_epi16 Y_temp1_1 (p257_2 tabs); Y_temp2_3 = sub_epi16 Y_temp2_2 Y_temp1_3; Y_temp2_4 = slli_epi16 Y_temp2_3 4;
          Y_1 = ReduceY2 tabs (add_epi16 Y_temp2_1 Y_temp2_4);
          Y_temp2_1 = add_epi16 Y_temp2_1 (p257_7 tabs); Y_3 = ReduceY2 tabs (sub_epi16 Y_temp2_1 Y_temp2_4)
      in [Y_0, Y_1, Y_2, Y_3])"

definition bntt16 :: "swifft_tables \<Rightarrow> nat list list \<Rightarrow> vec list list" where
  "bntt16 tabs xbyte = map (\<lambda>row. four_points tabs (map (\<lambda>k. T_K0_I0 tabs (row ! k)) [0..<4])) xbyte"

text \<open>The loop over \<open>k1\<close> in \<open>gntt16\<close>.\<close>

definition gntt_step :: "swifft_tables \<Rightarrow> vec \<Rightarrow> nat \<Rightarrow> vec \<Rightarrow> vec" where
  "gntt_step tabs key k1 temp =
     (let t1 = permutevar8x32_epi32 key (permute tabs ! k1);
          t2 = and_si256 t1 (selec tabs ! 1); t1 = and_si256 t1 (selec tabs ! 0);
          t3 = lanes16 (slli_epi32 (lanes32 t1) 16); t4 = lanes16 (srli_epi32 (lanes32 t2) 16);
          t1 = or_si256 t1 t3; t2 = or_si256 t2 t4;
          t3 = vecMult16Reduce3 tabs t1 (k0i0 tabs ! (2 * k1)); t4 = vecMult16Reduce3 tabs t2 (k0i0 tabs ! (2 * k1 + 1));
          temp = add_epi16 temp t3; temp = add_epi16 temp t4
      in ReduceY2 tabs temp)"

definition gntt16 :: "swifft_tables \<Rightarrow> vec list list \<Rightarrow> vec list list" where
  "gntt16 tabs X =
     map (\<lambda>row. four_points tabs (map (\<lambda>k0. fold (gntt_step tabs (row ! k0)) [0..<8] (zero_vec tabs)) [0..<4])) X"

subsection \<open>Packing\<close>

definition unpack_rgY :: "vec list \<Rightarrow> u32 list" where
  "unpack_rgY Y = concat (map (\<lambda>i. map (\<lambda>j. ucast (Y ! i ! j) mod 257) [0..<16]) [0..<4])"

text \<open>One round of the loop of \<open>unpackY\<close>: sixteen numbers of nine bits in 18 bytes.\<close>

definition pack18 :: "u32 list \<Rightarrow> bytes" where
  "pack18 opi =
     [ucast (0xFF AND opi ! 0),
      ucast (0x1 AND drop_bit 8 (opi ! 0)) OR ucast (push_bit 1 (0x7F AND opi ! 1)),
      ucast (0x3 AND drop_bit 7 (opi ! 1)) OR ucast (push_bit 2 (0x3F AND opi ! 2)),
      ucast (0x7 AND drop_bit 6 (opi ! 2)) OR ucast (push_bit 3 (0x1F AND opi ! 3)),
      ucast (0xF AND drop_bit 5 (opi ! 3)) OR ucast (push_bit 4 (0xF AND opi ! 4)),
      ucast (0x1F AND drop_bit 4 (opi ! 4)) OR ucast (push_bit 5 (0x7 AND opi ! 5)),
      ucast (0x3F AND drop_bit 3 (opi ! 5)) OR ucast (push_bit 6 (0x3 AND opi ! 6)),
      ucast (0x7F AND drop_bit 2 (opi ! 6)) OR ucast (push_bit 7 (0x1 AND opi ! 7)),
      ucast (0xFF AND drop_bit 1 (opi ! 7)),
      ucast (0xFF AND opi ! 8),
      ucast (0x1 AND drop_bit 8 (opi ! 8)) OR ucast (push_bit 1 (0x7F AND opi ! 9)),
      ucast (0x3 AND drop_bit 7 (opi ! 9)) OR ucast (push_bit 2 (opi ! 10)),
      ucast (0x7 AND drop_bit 6 (opi ! 10)) OR ucast (push_bit 3 (0x1F AND opi ! 11)),
      ucast (0xF AND drop_bit 5 (opi ! 11)) OR ucast (push_bit 4 (0xF AND opi ! 12)),
      ucast (0x1F AND drop_bit 4 (opi ! 12)) OR ucast (push_bit 5 (0x7 AND opi ! 13)),
      ucast (0x3F AND drop_bit 3 (opi ! 13)) OR ucast (push_bit 6 (0x3 AND opi ! 14)),
      ucast (0x7F AND drop_bit 2 (opi ! 14)) OR ucast (push_bit 7 (0x1 AND opi ! 15)),
      ucast (0xFF AND drop_bit 1 (opi ! 15))]"

definition unpackY :: "vec list \<Rightarrow> bytes" where
  "unpackY Y = concat (map (\<lambda>i. pack18 (map (\<lambda>j. ucast (Y ! i ! j) mod 257) [0..<16])) [0..<4])"

subsection \<open>The hash\<close>

text \<open>\<open>parse\<close>: rows of four numbers of 16 bits.\<close>

definition parse_rows :: "sk_node \<Rightarrow> nat list list" where
  "parse_rows x = map (\<lambda>row. map (\<lambda>i. unat (push_bit 8 (ucast (x ! (8 * row + 2 * i + 1))) OR ucast (x ! (8 * row + 2 * i)) :: u32)) [0..<4]) [0..<16]"

text \<open>The products with the key, column \<open>i\<close> of all rows added up.\<close>

definition key_sum :: "swifft_tables \<Rightarrow> vec list list \<Rightarrow> vec list list \<Rightarrow> nat \<Rightarrow> vec" where
  "key_sum tabs Y A i =
     (let Y_temp1 = (\<lambda>r. vecMult16Reduce3 tabs (Y ! r ! i) (A ! r ! i));
          op_temp_0 = add_epi16 (Y_temp1 0) (Y_temp1 1); op_temp_1 = add_epi16 (Y_temp1 2) (Y_temp1 3);
          op_temp_2 = add_epi16 (Y_temp1 4) (Y_temp1 5); op_temp_3 = add_epi16 (Y_temp1 6) (Y_temp1 7);
          op_temp_4 = add_epi16 (Y_temp1 8) (Y_temp1 9); op_temp_5 = add_epi16 (Y_temp1 10) (Y_temp1 11);
          op_temp_6 = add_epi16 (Y_temp1 12) (Y_temp1 13); op_temp_7 = add_epi16 (Y_temp1 14) (Y_temp1 15);
          op_temp_0 = add_epi16 op_temp_0 op_temp_1; op_temp_2 = add_epi16 op_temp_2 op_temp_3;
          op_temp_4 = add_epi16 op_temp_4 op_temp_5; op_temp_6 = add_epi16 op_temp_6 op_temp_7;
          op_temp_0 = add_epi16 op_temp_0 op_temp_2; op_temp_4 = add_epi16 op_temp_4 op_temp_6
      in ReduceY2 tabs (ReduceY2 tabs (add_epi16 op_temp_0 op_temp_4)))"

definition SWIFFT_avx2 :: "swifft_tables \<Rightarrow> vec list list \<Rightarrow> sk_node \<Rightarrow> node" where
  "SWIFFT_avx2 tabs A x =
     (let Y = bntt16 tabs (parse_rows x); op = map (key_sum tabs Y A) [0..<4] in unpackY op)"

definition gSWIFFT_avx2 :: "swifft_tables \<Rightarrow> vec list list \<Rightarrow> u8 list \<Rightarrow> u32 list" where
  "gSWIFFT_avx2 tabs A x =
     (let X = map (\<lambda>row. map (\<lambda>k0. map (\<lambda>j. ucast (x ! (64 * row + 16 * k0 + j))) [0..<16]) [0..<4]) [0..<16];
          Y = gntt16 tabs X; op = map (key_sum tabs Y A) [0..<4] in unpack_rgY op)"

definition set_Key_avx2 :: "swifft_tables \<Rightarrow> u32 \<Rightarrow> u32 \<Rightarrow> vec list list" where
  "set_Key_avx2 tabs indx height =
     (let ina = replicate 1024 0;
          ina = ina[0 := ucast (indx AND 255), 1 := ucast (drop_bit 8 indx AND 255), 2 := ucast (drop_bit 16 indx AND 255),
                    3 := ucast (drop_bit 24 indx AND 255), 512 := ucast height];
          seed_ctx = ECRYPT_keysetup (replicate 16 0) (hk_seed tabs) 256;
          seed_ctx = ECRYPT_ivsetup seed_ctx (hk_iv tabs);
          a = snd (ECRYPT_encrypt_bytes seed_ctx ina)
      in map (\<lambda>row. map (\<lambda>k0. map (\<lambda>j. ucast (a ! (64 * row + 16 * k0 + j))) [0..<16]) [0..<4]) [0..<16])"

text \<open>The environment of \<open>Ksnmss\<close> with this hash function and the four seeds.\<close>

definition swifft_env :: "swifft_tables \<Rightarrow> bytes \<Rightarrow> bytes \<Rightarrow> bytes \<Rightarrow> bytes \<Rightarrow> vec list list mss_env" where
  "swifft_env tabs seed iv pad_seed pad_iv = \<lparr>set_Key = set_Key_avx2 tabs, SWIFFT = SWIFFT_avx2 tabs,
     gSWIFFT = gSWIFFT_avx2 tabs, system_seed = seed, system_iv = iv, randompad_seed = pad_seed, randompad_iv = pad_iv\<rparr>"

end
