(* ===== verification/Swifft_Lanes.thy ===== *)
theory Swifft_Lanes
  imports Swifft
begin

text \<open>
  The lanes of SWIFFT: the 72 bytes of a hash unpack to the 64 numbers they were packed from, and the reductions
  keep words of 16 bits congruent modulo 257.
\<close>

subsection \<open>Packing\<close>

lemma small_word: "unat (w :: u32) < 512 \<Longrightarrow> 9 \<le> n \<Longrightarrow> \<not> bit w n"
proof -
  assume w: "unat w < 512" "9 \<le> n"
  have "take_bit 9 w = w" using w(1) by (simp add: word_unat_eq_iff unsigned_take_bit_eq take_bit_nat_eq_self)
  then show "\<not> bit w n" using w(2) by (metis bit_take_bit_iff not_less)
qed

text \<open>The bytes of eight numbers.\<close>

definition nine_bytes :: "(nat \<Rightarrow> u32) \<Rightarrow> bytes" where
  "nine_bytes v = [ucast (0xFF AND v 0),
      ucast (0x1 AND drop_bit 8 (v 0)) OR ucast (push_bit 1 (0x7F AND v 1)),
      ucast (0x3 AND drop_bit 7 (v 1)) OR ucast (push_bit 2 (0x3F AND v 2)),
      ucast (0x7 AND drop_bit 6 (v 2)) OR ucast (push_bit 3 (0x1F AND v 3)),
      ucast (0xF AND drop_bit 5 (v 3)) OR ucast (push_bit 4 (0xF AND v 4)),
      ucast (0x1F AND drop_bit 4 (v 4)) OR ucast (push_bit 5 (0x7 AND v 5)),
      ucast (0x3F AND drop_bit 3 (v 5)) OR ucast (push_bit 6 (0x3 AND v 6)),
      ucast (0x7F AND drop_bit 2 (v 6)) OR ucast (push_bit 7 (0x1 AND v 7)),
      ucast (0xFF AND drop_bit 1 (v 7))]"

lemma group_pack:
  fixes v :: "nat \<Rightarrow> u32"
  assumes "\<And>i n. 9 \<le> n \<Longrightarrow> \<not> bit (v i) n"
  shows "ring_group (nine_bytes v) = [v 0, v 1, v 2, v 3, v 4, v 5, v 6, v 7]"
proof -
  have m: "(0xFF :: u32) = mask 8" "(1 :: u32) = mask 1" "(3 :: u32) = mask 2" "(7 :: u32) = mask 3" "(0xF :: u32) = mask 4" "(0x1F :: u32) = mask 5"
    "(0x3F :: u32) = mask 6" "(0x7F :: u32) = mask 7" "(1 :: u8) = mask 1" "(3 :: u8) = mask 2" "(7 :: u8) = mask 3" "(0xF :: u8) = mask 4" "(0x1F :: u8) = mask 5"
    "(0x3F :: u8) = mask 6" "(0x7F :: u8) = mask 7"
    by (simp_all add: mask_eq_exp_minus_1)
  have bit9: "bit x n = bit (y :: u32) n" if "n < 9 \<Longrightarrow> bit x n = bit y n" "9 \<le> n \<Longrightarrow> n < 32 \<Longrightarrow> \<not> bit (x :: u32) n \<and> \<not> bit y n" "n < LENGTH(32)" for x y n
    using that by (cases "n < 9") auto
  have p7: "bit (128 :: int) n = (n = 7)" for n
    using bit_exp_iff [of 7 n, where 'a = int] by auto
  have nine: "P n" if "n < 9" "P 0" "P 1" "P 2" "P 3" "P 4" "P 5" "P 6" "P 7" "P 8" for P and n :: nat
    using that by (auto simp: less_Suc_eq numeral_eq_Suc)
  have low: "bit x n = bit (y :: u32) n" if "\<And>n. n < 9 \<Longrightarrow> bit x n = bit y n" "\<And>n. 9 \<le> n \<Longrightarrow> n < 32 \<Longrightarrow> \<not> bit (x :: u32) n \<and> \<not> bit y n" "n < LENGTH(32)" for x y n
    using that by (cases "n < 9") auto
  show ?thesis
    unfolding nine_bytes_def ring_group_def m list.inject simp_thms
    by (intro conjI; rule bit_word_eqI; rule bit9;
      (assumption | (erule nine; simp add: bit_simps p7 del: push_bit_Suc drop_bit_Suc; fail)
       | (use assms in \<open>auto simp: bit_simps p7 simp del: push_bit_Suc drop_bit_Suc\<close>)))
qed

lemma pack18_groups: "pack18 opi = nine_bytes (\<lambda>k. opi ! k) @ nine_bytes (\<lambda>k. opi ! (8 + k))"
proof -
  have "(ucast (push_bit 2 (x :: u32)) :: u8) = ucast (push_bit 2 (0x3F AND x))" for x
  proof -
    have m: "(0x3F :: u32) = mask 6" by (simp add: mask_eq_exp_minus_1)
    show ?thesis unfolding m by (rule bit_word_eqI) (auto simp: bit_simps simp del: push_bit_Suc)
  qed
  then show ?thesis by (simp add: pack18_def nine_bytes_def)
qed

lemma convert_ring_groups:
  assumes "length gs = 8" and "\<forall>g \<in> set gs. length g = 9"
  shows "convert_ring (concat gs) = concat (map ring_group gs)"
proof -
  have g: "ring_group (g @ r) = ring_group g" if "length g = 9" for g r using that by (simp add: ring_group_def nth_append)
  have d: "drop (9 * i) (concat gs) = concat (drop i gs)" if "\<forall>g \<in> set gs. length g = 9" for i gs
    using that
  proof (induction i arbitrary: gs)
    case (Suc i)
    then show ?case by (cases gs) simp_all
  qed simp
  have "ring_group (drop (9 * i) (concat gs)) = ring_group (gs ! i)" if "i < 8" for i
  proof -
    have "drop i gs = gs ! i # drop (Suc i) gs" using that assms(1) by (simp add: Cons_nth_drop_Suc)
    then show ?thesis using d [OF assms(2), of i] g [of "gs ! i"] assms that by simp
  qed
  then have "map (\<lambda>i. ring_group (drop (9 * i) (concat gs))) [0..<8] = map ring_group gs"
    using assms(1) by (intro nth_equalityI) simp_all
  then show ?thesis by (simp only: convert_ring_def)
qed

lemma length_nine [simp]: "length (nine_bytes v) = 9" by (simp add: nine_bytes_def)

lemma upto4: "[0..<4] = [0, 1, 2, 3]" by (simp add: upt_rec)

lemma upt16: "[0..<16] = [0, 1, 2, 3, 4, 5, 6, 7, 8, 9, 10, 11, 12, 13, 14, 15]" by (simp add: upt_rec)

text \<open>What \<open>convert_ring\<close> unpacks is what \<open>unpackY\<close> packed.\<close>

lemma pack_roundtrip: "convert_ring (unpackY Y) = unpack_rgY Y"
proof -
  define w where "w i j = (ucast (Y ! i ! j) mod 257 :: u32)" for i j
  have "unat (w i j) < 512" for i j
  proof -
    have "unat (w i j) < 257" by (simp add: w_def unat_mod)
    then show ?thesis by simp
  qed
  then have b: "\<not> bit (w i j) n" if "9 \<le> n" for i j n using small_word that by blast
  have p: "pack18 (map (w i) [0..<16]) = nine_bytes (w i) @ nine_bytes (\<lambda>k. w i (8 + k))" for i
    unfolding pack18_groups nine_bytes_def upt16 by simp
  have u: "unpackY Y = concat [nine_bytes (w 0), nine_bytes (\<lambda>k. w 0 (8 + k)), nine_bytes (w 1), nine_bytes (\<lambda>k. w 1 (8 + k)),
      nine_bytes (w 2), nine_bytes (\<lambda>k. w 2 (8 + k)), nine_bytes (w 3), nine_bytes (\<lambda>k. w 3 (8 + k))]"
    unfolding unpackY_def w_def [symmetric] p upto4 by simp
  have "map (w i) [0..<16] = ring_group (nine_bytes (w i)) @ ring_group (nine_bytes (\<lambda>k. w i (8 + k)))" for i
    using b by (simp add: group_pack upt16)
  moreover have "unpack_rgY Y = map (w 0) [0..<16] @ map (w 1) [0..<16] @ map (w 2) [0..<16] @ map (w 3) [0..<16]"
    unfolding unpack_rgY_def w_def [symmetric] upto4 by simp
  ultimately show ?thesis unfolding u by (subst convert_ring_groups) simp_all
qed


subsection \<open>Reductions\<close>

text \<open>\<open>w\<close> stands for the number \<open>x\<close> modulo 257.\<close>

definition stands_for :: "u16 \<Rightarrow> int \<Rightarrow> bool" where
  "stands_for w x \<longleftrightarrow> uint w mod 257 = x mod 257"

text \<open>The correction of a signed word: 257 is added to negative ones.\<close>

definition correct257 :: "u16 \<Rightarrow> u16" where
  "correct257 t = t + (((if sint (- 1 :: u16) < sint t then - 1 else 0) XOR - 1) AND 257)"

lemma correct257_value:
  assumes "- 257 \<le> T" and "T < 32768"
  shows "uint (correct257 (word_of_int T)) = (if 0 \<le> T then T else T + 257)"
proof -
  have s: "sint (word_of_int T :: u16) = T" using assms by (simp add: signed_of_int signed_take_bit_int_eq_self)
  have m: "sint (- 1 :: u16) = - 1" by simp
  show ?thesis
  proof (cases "0 \<le> T")
    case True
    then have "correct257 (word_of_int T) = word_of_int T" unfolding correct257_def s m by simp
    then show ?thesis using True assms by (simp add: unsigned_of_int take_bit_int_eq_self)
  next
    case False
    then have "correct257 (word_of_int T) = word_of_int (T + 257)" unfolding correct257_def s m by simp
    moreover have "uint (word_of_int (T + 257) :: u16) = T + 257"
      using False assms by (simp add: unsigned_of_int take_bit_int_eq_self del: of_int_add)
    ultimately show ?thesis using False by simp
  qed
qed

text \<open>The low byte less the high byte.\<close>

lemma byte_difference: "(v AND 255) - drop_bit 8 v = word_of_int (uint (v :: u16) mod 256 - uint v div 256)"
proof -
  have "(v AND 255) = word_of_int (uint v mod 256)"
  proof -
    have "(255 :: u16) = mask 8" by (simp add: mask_eq_exp_minus_1)
    then have "v AND 255 = take_bit 8 v" by (simp add: take_bit_eq_mask)
    also have "\<dots> = word_of_int (take_bit 8 (uint v))" by (simp add: take_bit_word_eq_self flip: unsigned_take_bit_eq)
    finally show ?thesis by (simp add: take_bit_eq_mod)
  qed
  moreover have "drop_bit 8 v = word_of_int (uint v div 256)"
  proof -
    have "uint (drop_bit 8 v) = uint v div 256" by (simp add: drop_bit_eq_div uint_div)
    then show ?thesis by (metis word_of_int_uint)
  qed
  ultimately show ?thesis by (simp only: of_int_diff)
qed


lemma byte_parts: "- 255 \<le> uint (v :: u16) mod 256 - uint v div 256" "uint v mod 256 - uint v div 256 \<le> 255"
    "(uint v mod 256 - uint v div 256) mod 257 = uint v mod 257"
proof -
  have "uint v < 2 ^ 16" using unsigned_less [of v, where 'a = int] by simp
  moreover have "0 \<le> uint v" by simp
  ultimately have "uint v div 256 \<le> 255" "0 \<le> uint v div 256" "0 \<le> uint v mod 256" "uint v mod 256 \<le> 255"
    by (simp_all add: pos_imp_zdiv_nonneg_iff) (presburger+)?
  then show "- 255 \<le> uint v mod 256 - uint v div 256" "uint v mod 256 - uint v div 256 \<le> 255" by linarith+
  have "uint v = 257 * (uint v div 256) + (uint v mod 256 - uint v div 256)" by (simp add: algebra_simps)
  then show "(uint v mod 256 - uint v div 256) mod 257 = uint v mod 257" by (metis mod_mult_self4)
qed

definition reduce257 :: "u16 \<Rightarrow> u16" where
  "reduce257 v = correct257 ((v AND 255) - drop_bit 8 v)"

lemma reduce257_value: "uint (reduce257 v) \<le> 256" "stands_for (reduce257 v) (uint v)"
proof -
  have e: "uint (reduce257 v) = (if 0 \<le> uint v mod 256 - uint v div 256 then uint v mod 256 - uint v div 256 else uint v mod 256 - uint v div 256 + 257)"
    unfolding reduce257_def byte_difference using byte_parts(1,2) [of v] by (intro correct257_value) linarith+
  show "uint (reduce257 v) \<le> 256" unfolding e using byte_parts(2) [of v] by simp
  show "stands_for (reduce257 v) (uint v)" unfolding stands_for_def e using byte_parts(3) [of v] by simp
qed

definition mul257 :: "u16 \<Rightarrow> u16 \<Rightarrow> u16" where
  "mul257 a b = correct257 (ucast (drop_bit 16 (ucast a * ucast b :: u32)) + ((a * b AND 255) - drop_bit 8 (a * b)))"

lemma mul257_value:
  assumes "uint a * uint b < 65536 * 8"
  shows "uint (mul257 a b) \<le> 262" and "uint a * uint b \<le> 65536 \<Longrightarrow> uint (mul257 a b) \<le> 256" and "stands_for (mul257 a b) (uint a * uint b)"
proof -
  define P where "P = uint a * uint b"
  have P: "0 \<le> P" "P < 65536 * 8" using assms by (simp_all add: P_def)
  have u: "uint (ucast a * ucast b :: u32) = P"
  proof -
    have "uint (ucast x :: u32) = uint x" for x :: u16 using unsigned_less [of x, where 'a = int] by (simp add: unsigned_ucast_eq take_bit_int_eq_self)
    then show ?thesis using P by (simp add: uint_word_ariths P_def)
  qed
  have h: "ucast (drop_bit 16 (ucast a * ucast b :: u32)) = (word_of_int (P div 65536) :: u16)"
  proof -
    have "uint (drop_bit 16 (ucast a * ucast b :: u32)) = P div 65536"
    proof -
      have "take_bit 32 P = P" using P by (intro take_bit_int_eq_self) simp_all
      then show ?thesis unfolding unsigned_drop_bit_eq using u by (simp add: drop_bit_eq_div)
    qed
    then show ?thesis by (metis ucast_eq)
  qed
  have l: "uint (a * b) = P mod 65536" by (simp add: uint_word_ariths P_def)
  define T where "T = P div 65536 + (uint (a * b) mod 256 - uint (a * b) div 256)"
  have d: "0 \<le> P div 65536" "P div 65536 \<le> 7" using P by (simp_all add: pos_imp_zdiv_nonneg_iff) (presburger+)?
  have e: "uint (mul257 a b) = (if 0 \<le> T then T else T + 257)"
  proof -
    have "mul257 a b = correct257 (word_of_int T)" by (simp only: mul257_def h byte_difference T_def of_int_add)
    moreover have "- 257 \<le> T" "T < 32768" unfolding T_def using byte_parts(1,2) [of "a * b"] d by linarith+
    ultimately show ?thesis using correct257_value [of T] by simp
  qed
  show "uint (mul257 a b) \<le> 262" unfolding e using byte_parts(2) [of "a * b"] d by (simp add: T_def)
  show "uint (mul257 a b) \<le> 256" if "uint a * uint b \<le> 65536"
  proof (cases "P = 65536")
    case True
    then show ?thesis unfolding e by (simp add: T_def l)
  next
    case False
    then have "P div 65536 = 0" using that P by (simp add: P_def)
    then show ?thesis unfolding e using byte_parts(2) [of "a * b"] by (simp add: T_def)
  qed
  have "T mod 257 = (P div 65536 + P mod 65536) mod 257"
    unfolding T_def using byte_parts(3) [of "a * b"] l by (metis mod_add_right_eq)
  also have "\<dots> = P mod 257"
  proof -
    have "P = 257 * (255 * (P div 65536)) + (P div 65536 + P mod 65536)" by simp
    then show ?thesis by (metis mod_mult_self4)
  qed
  finally show "stands_for (mul257 a b) (uint a * uint b)" unfolding stands_for_def e P_def [symmetric] by simp
qed


subsection \<open>Registers\<close>

text \<open>The constant registers of the program.\<close>

definition constants_ok :: "swifft_tables \<Rightarrow> bool" where
  "constants_ok tabs \<longleftrightarrow> mask255 tabs = replicate 16 255 \<and> allone tabs = replicate 16 (- 1) \<and> p257 tabs = replicate 16 257 \<and>
     p257_2 tabs = replicate 16 1028 \<and> p257_7 tabs = replicate 16 32896 \<and> zero_vec tabs = replicate 16 0 \<and>
     permute tabs = map (replicate 8) [0..<8] \<and> selec tabs = [concat (replicate 8 [- 1, 0]), concat (replicate 8 [0, - 1])]"

lemma lane_mul:
  assumes "constants_ok tabs" and "length a = 16" and "length b = 16"
  shows "length (vecMult16Reduce3 tabs a b) = 16" and "l < 16 \<Longrightarrow> vecMult16Reduce3 tabs a b ! l = mul257 (a ! l) (b ! l)"
  using assms
  by (simp_all add: vecMult16Reduce3_def Let_def constants_ok_def mulhi_epu16_def mullo_epi16_def and_si256_def srli_epi16_def sub_epi16_def
    add_epi16_def cmpgt_epi16_def xor_si256_def mul257_def correct257_def add.commute)

lemma lane_reduce:
  assumes "constants_ok tabs" and "length a = 16"
  shows "length (ReduceY2 tabs a) = 16" and "l < 16 \<Longrightarrow> ReduceY2 tabs a ! l = reduce257 (a ! l)"
  using assms
  by (simp_all add: ReduceY2_def Let_def constants_ok_def and_si256_def srli_epi16_def sub_epi16_def
    add_epi16_def cmpgt_epi16_def xor_si256_def reduce257_def correct257_def)

lemma lane_arith:
  assumes "length a = 16" and "length b = 16"
  shows "length (add_epi16 a b) = 16" "length (sub_epi16 a b) = 16"
    and "l < 16 \<Longrightarrow> add_epi16 a b ! l = a ! l + b ! l" "l < 16 \<Longrightarrow> sub_epi16 a b ! l = a ! l - b ! l"
  using assms by (simp_all add: add_epi16_def sub_epi16_def)

lemma lane_shift:
  assumes "length a = 16"
  shows "length (slli_epi16 a n) = 16" and "l < 16 \<Longrightarrow> slli_epi16 a n ! l = push_bit n (a ! l)"
  using assms by (simp_all add: slli_epi16_def)

text \<open>Arithmetic that does not overflow.\<close>

lemma stands_add:
  assumes "stands_for a x" and "stands_for b y" and "uint a + uint b < 65536"
  shows "stands_for (a + b) (x + y)" and "uint (a + b) = uint a + uint b"
proof -
  show e: "uint (a + b) = uint a + uint b" using assms(3) by (simp add: uint_word_ariths)
  show "stands_for (a + b) (x + y)" using assms(1,2) unfolding stands_for_def e by (metis mod_add_cong)
qed

lemma stands_sub:
  assumes "stands_for a x" and "stands_for b y" and "uint b \<le> uint a"
  shows "stands_for (a - b) (x - y)" and "uint (a - b) = uint a - uint b"
proof -
  show e: "uint (a - b) = uint a - uint b" using assms(3) by (rule uint_sub_if' [THEN trans, OF if_P])
  show "stands_for (a - b) (x - y)" using assms(1,2) unfolding stands_for_def e by (metis mod_diff_cong)
qed

lemma stands_shift:
  assumes "stands_for a x" and "uint a * 16 < 65536"
  shows "stands_for (push_bit 4 a) (x * 16)" and "uint (push_bit 4 a) = uint a * 16"
proof -
  show e: "uint (push_bit 4 a) = uint a * 16" using assms(2) by (simp add: push_bit_eq_mult uint_word_ariths)
  show "stands_for (push_bit 4 a) (x * 16)" using assms(1) unfolding stands_for_def e by (metis mod_mult_cong)
qed

lemma stands_mul:
  assumes "stands_for a x" and "stands_for b y" and "uint a * uint b < 65536 * 8"
  shows "stands_for (mul257 a b) (x * y)"
  using mul257_value(3) [OF assms(3)] assms(1,2) unfolding stands_for_def by (metis mod_mult_cong)

lemma stands_reduce: "stands_for a x \<Longrightarrow> stands_for (reduce257 a) x"
  using reduce257_value(2) [of a] by (simp add: stands_for_def)

end
