(* ===== verification/Swifft_Linear.thy ===== *)
theory Swifft_Linear
  imports Swifft_Lanes Ksnmss_Verify
begin

text \<open>
  SWIFFT is linear modulo 257: the wide tables of the transformation being sums of the narrow ones, the hash of
  a bit string and the generalised hash of its bits are the same linear function. So the signature scheme works
  with this hash function.
\<close>

definition small_vec :: "vec \<Rightarrow> bool" where
  "small_vec v \<longleftrightarrow> length v = 16 \<and> (\<forall>l<16. uint (v ! l) \<le> 256)"

text \<open>What the tables hold: numbers modulo 257, and for every 16 bits the sum of the vectors that the bits select.\<close>

definition tables_ok :: "swifft_tables \<Rightarrow> bool" where
  "tables_ok tabs \<longleftrightarrow> constants_ok tabs \<and> (\<forall>k<4. small_vec (M_K0_I0 tabs ! k)) \<and> (\<forall>j<16. small_vec (k0i0 tabs ! j)) \<and>
     (\<forall>w<2 ^ 16. small_vec (T_K0_I0 tabs w) \<and>
       (\<forall>l<16. stands_for (T_K0_I0 tabs w ! l) (\<Sum>j<16. if bit w j then uint (k0i0 tabs ! j ! l) else 0)))"

subsection \<open>Four points\<close>

definition points :: "swifft_tables \<Rightarrow> nat \<Rightarrow> (nat \<Rightarrow> int) \<Rightarrow> nat \<Rightarrow> int" where
  "points tabs l y i =
     (let m = (\<lambda>k. uint (M_K0_I0 tabs ! k ! l) * y k)
      in [m 0 + m 2 + (m 1 + m 3), m 0 - m 2 + (m 1 - m 3) * 16, m 0 + m 2 - (m 1 + m 3), m 0 - m 2 - (m 1 - m 3) * 16] ! i)"

lemma small_product: "uint (a :: u16) \<le> 256 \<Longrightarrow> uint (b :: u16) \<le> 256 \<Longrightarrow> uint a * uint b \<le> 65536"
  using mult_mono [of "uint a" 256 "uint b" 256] by simp

lemma four_points_stands:
  assumes "tables_ok tabs" and "\<And>k. k < 4 \<Longrightarrow> small_vec (t ! k)" and "\<And>k. k < 4 \<Longrightarrow> stands_for (t ! k ! l) (y k)" and "l < 16" and "i < 4"
  shows "length (four_points tabs t ! i) = 16 \<and> uint (four_points tabs t ! i ! l) \<le> 1540 \<and> stands_for (four_points tabs t ! i ! l) (points tabs l y i)"
proof -
  have c: "constants_ok tabs" "\<And>k. k < 4 \<Longrightarrow> small_vec (M_K0_I0 tabs ! k)" using assms(1) by (simp_all add: tables_ok_def)
  have r: "p257_2 tabs = replicate 16 1028" "p257_7 tabs = replicate 16 32896" using c(1) by (simp_all add: constants_ok_def)
  define V where "V k = vecMult16Reduce3 tabs (M_K0_I0 tabs ! k) (t ! k)" for k
  define A where "A k = V k ! l" for k
  define m where "m k = uint (M_K0_I0 tabs ! k ! l) * y k" for k
  have V: "length (V k) = 16" "uint (A k) \<le> 256" "stands_for (A k) (m k)" if "k < 4" for k
  proof -
    have s: "length (M_K0_I0 tabs ! k) = 16" "length (t ! k) = 16" "uint (M_K0_I0 tabs ! k ! l) * uint (t ! k ! l) \<le> 65536"
      using c(2) [OF that] assms(2) [OF that] assms(4) by (simp_all add: small_vec_def small_product)
    note v = lane_mul [OF c(1) s(1,2), folded V_def]
    show "length (V k) = 16" by (rule v)
    show "uint (A k) \<le> 256" unfolding A_def v(2) [OF assms(4)] using s(3) by (intro mul257_value(2)) simp_all
    show "stands_for (A k) (m k)" unfolding A_def v(2) [OF assms(4)] m_def
      using s(3) assms(3) [OF that] by (intro stands_mul) (simp_all add: stands_for_def)
  qed
  have z: "stands_for 1028 0" "uint (1028 :: u16) = 1028" "stands_for 32896 0" "uint (32896 :: u16) = 32896"
    by (simp_all add: stands_for_def)
  have nn: "0 \<le> uint (A k)" for k by simp
  have v4: "(0 :: nat) < 4" "(1 :: nat) < 4" "(2 :: nat) < 4" "(3 :: nat) < 4" by simp_all
  note b = V(2) [OF v4(1)] V(2) [OF v4(2)] V(2) [OF v4(3)] V(2) [OF v4(4)] nn [of 0] nn [of 1] nn [of 2] nn [of 3]
  have s02: "stands_for (A 0 + A 2) (m 0 + m 2)" "uint (A 0 + A 2) = uint (A 0) + uint (A 2)"
    using stands_add [OF V(3) [OF v4(1)] V(3) [OF v4(3)]] b by simp_all
  have s13: "stands_for (A 1 + A 3) (m 1 + m 3)" "uint (A 1 + A 3) = uint (A 1) + uint (A 3)"
    using stands_add [OF V(3) [OF v4(2)] V(3) [OF v4(4)]] b by simp_all
  have y0: "stands_for (A 0 + A 2 + (A 1 + A 3)) (m 0 + m 2 + (m 1 + m 3))" "uint (A 0 + A 2 + (A 1 + A 3)) = uint (A 0 + A 2) + uint (A 1 + A 3)"
    using stands_add [OF s02(1) s13(1)] s02(2) s13(2) b by simp_all
  have p: "stands_for (A 0 + A 2 + 1028) (m 0 + m 2)" "uint (A 0 + A 2 + 1028) = uint (A 0 + A 2) + 1028"
    using stands_add [OF s02(1) z(1)] s02(2) z(2) b by simp_all
  have y2: "stands_for (A 0 + A 2 + 1028 - (A 1 + A 3)) (m 0 + m 2 - (m 1 + m 3))" "uint (A 0 + A 2 + 1028 - (A 1 + A 3)) = uint (A 0 + A 2 + 1028) - uint (A 1 + A 3)"
  proof -
    have "uint (A 1 + A 3) \<le> uint (A 0 + A 2 + 1028)" using p(2) s02(2) s13(2) b by linarith
    then show "stands_for (A 0 + A 2 + 1028 - (A 1 + A 3)) (m 0 + m 2 - (m 1 + m 3))" "uint (A 0 + A 2 + 1028 - (A 1 + A 3)) = uint (A 0 + A 2 + 1028) - uint (A 1 + A 3)"
      by (rule stands_sub [OF p(1) s13(1)])+
  qed
  have d: "stands_for (A j + 1028 - A k) (m j - m k)" "uint (A j + 1028 - A k) = uint (A j) + 1028 - uint (A k)" if "j < 4" "k < 4" for j k
  proof -
    have q: "stands_for (A j + 1028) (m j)" "uint (A j + 1028) = uint (A j) + 1028" using stands_add [OF V(3) z(1), of j] that z(2) V(2) [of j] by simp_all
    show "stands_for (A j + 1028 - A k) (m j - m k)" "uint (A j + 1028 - A k) = uint (A j) + 1028 - uint (A k)"
    proof -
      have le: "uint (A k) \<le> uint (A j + 1028)" using q(2) V(2) [OF that(2)] nn [of j] by linarith
      show "stands_for (A j + 1028 - A k) (m j - m k)" "uint (A j + 1028 - A k) = uint (A j) + 1028 - uint (A k)"
        using stands_sub [OF q(1) V(3) [OF that(2)] le] q(2) by simp_all
    qed
  qed
  note d02 = d [OF v4(1,3)] and d13 = d [OF v4(2,4)]
  have s: "stands_for (push_bit 4 (A 1 + 1028 - A 3)) ((m 1 - m 3) * 16)" "uint (push_bit 4 (A 1 + 1028 - A 3)) = uint (A 1 + 1028 - A 3) * 16"
  proof -
    have "uint (A 1 + 1028 - A 3) * 16 < 65536" using d13(2) b by linarith
    then show "stands_for (push_bit 4 (A 1 + 1028 - A 3)) ((m 1 - m 3) * 16)" "uint (push_bit 4 (A 1 + 1028 - A 3)) = uint (A 1 + 1028 - A 3) * 16"
      by (rule stands_shift [OF d13(1)])+
  qed
  have y1: "stands_for (A 0 + 1028 - A 2 + push_bit 4 (A 1 + 1028 - A 3)) (m 0 - m 2 + (m 1 - m 3) * 16)"
  proof -
    have "uint (A 0 + 1028 - A 2) + uint (push_bit 4 (A 1 + 1028 - A 3)) < 65536" unfolding s(2) using d02(2) d13(2) b by linarith
    then show ?thesis by (rule stands_add(1) [OF d02(1) s(1)])
  qed
  have s3: "stands_for (A 0 + 1028 - A 2 + 32896) (m 0 - m 2)" "uint (A 0 + 1028 - A 2 + 32896) = uint (A 0 + 1028 - A 2) + 32896"
  proof -
    have le: "uint (A 0 + 1028 - A 2) + uint (32896 :: u16) < 65536" unfolding z(4) using d02(2) b by linarith
    show "stands_for (A 0 + 1028 - A 2 + 32896) (m 0 - m 2)" "uint (A 0 + 1028 - A 2 + 32896) = uint (A 0 + 1028 - A 2) + 32896"
      using stands_add [OF d02(1) z(3) le] by simp_all
  qed
  have y3: "stands_for (A 0 + 1028 - A 2 + 32896 - push_bit 4 (A 1 + 1028 - A 3)) (m 0 - m 2 - (m 1 - m 3) * 16)"
  proof -
    have "uint (push_bit 4 (A 1 + 1028 - A 3)) \<le> uint (A 0 + 1028 - A 2 + 32896)" unfolding s(2) s3(2) using d02(2) d13(2) z(4) b by linarith
    then show ?thesis by (rule stands_sub(1) [OF s3(1) s(1)])
  qed
  have r16: "length (replicate 16 v) = 16" for v :: u16 by simp
  note ls = V(1) lane_arith(1,2) lane_shift(1) lane_reduce(1) [OF c(1)] r16
  have f: "four_points tabs t = [add_epi16 (add_epi16 (V 0) (V 2)) (add_epi16 (V 1) (V 3)),
      ReduceY2 tabs (add_epi16 (sub_epi16 (add_epi16 (V 0) (replicate 16 1028)) (V 2)) (slli_epi16 (sub_epi16 (add_epi16 (V 1) (replicate 16 1028)) (V 3)) 4)),
      sub_epi16 (add_epi16 (add_epi16 (V 0) (V 2)) (replicate 16 1028)) (add_epi16 (V 1) (V 3)),
      ReduceY2 tabs (sub_epi16 (add_epi16 (sub_epi16 (add_epi16 (V 0) (replicate 16 1028)) (V 2)) (replicate 16 32896)) (slli_epi16 (sub_epi16 (add_epi16 (V 1) (replicate 16 1028)) (V 3)) 4))]"
    unfolding four_points_def Let_def r V_def by (rule refl)
  have i: "i = 0 \<or> i = 1 \<or> i = 2 \<or> i = 3" using assms(5) by auto
  then have len: "length (four_points tabs t ! i) = 16" unfolding f by (elim disjE) (simp_all add: ls)
  have "four_points tabs t ! 0 ! l = A 0 + A 2 + (A 1 + A 3)" "four_points tabs t ! 2 ! l = A 0 + A 2 + 1028 - (A 1 + A 3)"
    "four_points tabs t ! 1 ! l = reduce257 (A 0 + 1028 - A 2 + push_bit 4 (A 1 + 1028 - A 3))"
    "four_points tabs t ! 3 ! l = reduce257 (A 0 + 1028 - A 2 + 32896 - push_bit 4 (A 1 + 1028 - A 3))"
    using assms(4) unfolding f by (simp_all add: ls lane_arith(3,4) lane_shift(2) lane_reduce(2) [OF c(1)] A_def)
  moreover have "uint (reduce257 v) \<le> 1540" for v using reduce257_value(1) [of v] by simp
  moreover have "uint (A 0 + A 2 + 1028 - (A 1 + A 3)) \<le> 1540" unfolding y2(2) p(2) s02(2) s13(2) using b by linarith
  moreover have "uint (A 0 + A 2 + (A 1 + A 3)) \<le> 1540" unfolding y0(2) s02(2) s13(2) using b by linarith
  ultimately show ?thesis using i len y0(1) y2(1) stands_reduce [OF y1] stands_reduce [OF y3]
    by (elim disjE) (simp_all add: points_def Let_def m_def)
qed

subsection \<open>The rows of the general transformation\<close>

text \<open>Registers whose 32-bit lanes are all the same.\<close>

definition lane_pair :: "u16 \<Rightarrow> u16 \<Rightarrow> vec" where
  "lane_pair a b = [a, b, a, b, a, b, a, b, a, b, a, b, a, b, a, b]"

lemma eights: "[0..<8] = [0, 1, 2, 3, 4, 5, 6, 7]" "replicate 8 x = [x, x, x, x, x, x, x, x]"
  by (simp_all add: upt_rec numeral_eq_Suc)

lemma lane_pair_lists: "lanes32 (lane_pair a b) = replicate 8 (ucast a OR push_bit 16 (ucast b))"
    "lanes16 (replicate 8 w) = lane_pair (ucast w) (ucast (drop_bit 16 w))"
    "map2 f (lane_pair a b) (lane_pair c d) = lane_pair (f a c) (f b d)"
    "concat (replicate 8 [a, b]) = lane_pair a b" "replicate 16 a = lane_pair a a"
  by (simp_all add: lane_pair_def lanes32_def lanes16_def eights numeral_eq_Suc)

lemma word_halves: "ucast (ucast a OR push_bit 16 (ucast b) :: u32) = (a :: u16)" "ucast (drop_bit 16 (ucast a OR push_bit 16 (ucast b) :: u32)) = (b :: u16)"
  by (rule bit_word_eqI; auto simp: bit_simps dest: bit_imp_le_length)+

lemma half_shifts: "ucast (push_bit 16 (ucast (a :: u16)) :: u32) = (0 :: u16)" "ucast (drop_bit 16 (push_bit 16 (ucast (a :: u16)) :: u32)) = a"
    "ucast (drop_bit 16 (push_bit 16 (ucast (b :: u16)) :: u32)) = b" "drop_bit 16 (drop_bit 16 (push_bit 16 (ucast b)) :: u32) = 0"
    "drop_bit 16 (ucast a :: u32) = 0"
  by (rule bit_word_eqI; auto simp: bit_simps dest: bit_imp_le_length)+

lemma step_lanes:
  assumes "tables_ok tabs" and "k1 < 8" and "length key = 16"
  shows "gntt_step tabs key k1 temp = ReduceY2 tabs (add_epi16 (add_epi16 temp (vecMult16Reduce3 tabs (replicate 16 (key ! (2 * k1))) (k0i0 tabs ! (2 * k1))))
      (vecMult16Reduce3 tabs (replicate 16 (key ! (2 * k1 + 1))) (k0i0 tabs ! (2 * k1 + 1))))"
proof -
  define a b where "a = key ! (2 * k1)" and "b = key ! (2 * k1 + 1)"
  have t: "permute tabs ! k1 = replicate 8 k1" "selec tabs = [lane_pair (- 1) 0, lane_pair 0 (- 1)]"
    using assms(1,2) by (simp_all add: tables_ok_def constants_ok_def lane_pair_lists(4))
  have "permutevar8x32_epi32 key (replicate 8 k1) = lanes16 (replicate 8 (ucast a OR push_bit 16 (ucast b)))"
    using assms(2) by (simp add: permutevar8x32_epi32_def lanes32_def a_def b_def)
  then have p: "permutevar8x32_epi32 key (permute tabs ! k1) = lane_pair a b" by (simp only: t(1) lane_pair_lists(2) word_halves)
  have l: "and_si256 (lane_pair a b) (selec tabs ! 1) = lane_pair 0 b" "and_si256 (lane_pair a b) (selec tabs ! 0) = lane_pair a 0"
    by (simp_all add: t(2) and_si256_def lane_pair_lists(3))
  have m: "or_si256 (lane_pair a 0) (lanes16 (slli_epi32 (lanes32 (lane_pair a 0)) 16)) = replicate 16 a"
    "or_si256 (lane_pair 0 b) (lanes16 (srli_epi32 (lanes32 (lane_pair 0 b)) 16)) = replicate 16 b"
    by (simp_all add: lane_pair_lists or_si256_def slli_epi32_def srli_epi32_def map_replicate_const half_shifts map_replicate word_halves)
  show ?thesis unfolding gntt_step_def Let_def p l m a_def [symmetric] b_def [symmetric] by (rule refl)
qed

text \<open>The sixteen numbers of a quarter row, each times its vector.\<close>

definition quarter :: "swifft_tables \<Rightarrow> nat \<Rightarrow> (nat \<Rightarrow> int) \<Rightarrow> int" where
  "quarter tabs l c = (\<Sum>j<16. uint (k0i0 tabs ! j ! l) * c j)"

lemma row_temp:
  assumes "tables_ok tabs" and "length key = 16" and "\<And>j. j < 16 \<Longrightarrow> uint (key ! j) \<le> 255" and "n \<le> 8"
  shows "small_vec (fold (gntt_step tabs key) [0..<n] (zero_vec tabs)) \<and>
    (\<forall>l<16. stands_for (fold (gntt_step tabs key) [0..<n] (zero_vec tabs) ! l) (\<Sum>j<2 * n. uint (k0i0 tabs ! j ! l) * uint (key ! j)))"
  using assms(4)
proof (induction n)
  case 0
  then show ?case using assms(1) by (simp add: tables_ok_def constants_ok_def small_vec_def stands_for_def)
next
  case (Suc n)
  define temp where "temp = fold (gntt_step tabs key) [0..<n] (zero_vec tabs)"
  have c: "constants_ok tabs" using assms(1) by (simp add: tables_ok_def)
  have t: "length temp = 16" "\<And>l. l < 16 \<Longrightarrow> uint (temp ! l) \<le> 256"
      "\<And>l. l < 16 \<Longrightarrow> stands_for (temp ! l) (\<Sum>j<2 * n. uint (k0i0 tabs ! j ! l) * uint (key ! j))"
    using Suc by (simp_all add: temp_def small_vec_def)
  define M where "M j = vecMult16Reduce3 tabs (replicate 16 (key ! j)) (k0i0 tabs ! j)" for j
  have M: "length (M j) = 16" "\<And>l. l < 16 \<Longrightarrow> uint (M j ! l) \<le> 256" "\<And>l. l < 16 \<Longrightarrow> stands_for (M j ! l) (uint (k0i0 tabs ! j ! l) * uint (key ! j))"
    if "j < 16" for j
  proof -
    have k: "small_vec (k0i0 tabs ! j)" using assms(1) that by (simp add: tables_ok_def)
    then have l: "length (replicate 16 (key ! j)) = 16" "length (k0i0 tabs ! j) = 16" by (simp_all add: small_vec_def)
    note m = lane_mul [OF c l, folded M_def]
    show "length (M j) = 16" by (rule m)
    fix l :: nat
    assume l16: "l < 16"
    have p: "uint (key ! j) * uint (k0i0 tabs ! j ! l) \<le> 65536"
      using assms(3) [OF that] k l16 by (intro small_product) (simp_all add: small_vec_def)
    show "uint (M j ! l) \<le> 256" unfolding m(2) [OF l16] using p l16 by (simp add: mul257_value(2))
    show "stands_for (M j ! l) (uint (k0i0 tabs ! j ! l) * uint (key ! j))"
      unfolding m(2) [OF l16] using mul257_value(3) [of "key ! j" "k0i0 tabs ! j ! l"] p l16 by (simp add: mult.commute)
  qed
  have j: "2 * n < 16" "2 * n + 1 < 16" using Suc.prems by simp_all
  note m0 = M [OF j(1)] and m1 = M [OF j(2)]
  have f: "fold (gntt_step tabs key) [0..<Suc n] (zero_vec tabs) = ReduceY2 tabs (add_epi16 (add_epi16 temp (M (2 * n))) (M (2 * n + 1)))"
    using step_lanes [OF assms(1) _ assms(2), of n temp] Suc.prems by (simp add: temp_def M_def)
  note a = lane_arith(1,3) [OF t(1) m0(1)]
  note b = lane_arith(1,3) [OF a(1) m1(1)]
  note r = lane_reduce [OF c b(1)]
  have s: "stands_for (temp ! l + M (2 * n) ! l + M (2 * n + 1) ! l) (\<Sum>j<2 * Suc n. uint (k0i0 tabs ! j ! l) * uint (key ! j))" if "l < 16" for l
  proof -
    have u: "uint (temp ! l) + uint (M (2 * n) ! l) < 65536" using t(2) [OF that] m0(2) [OF that] by linarith
    note v = stands_add [OF t(3) [OF that] m0(3) [OF that] u]
    have w: "uint (temp ! l + M (2 * n) ! l) + uint (M (2 * n + 1) ! l) < 65536"
      unfolding v(2) using t(2) [OF that] m0(2) [OF that] m1(2) [OF that] by linarith
    show ?thesis using stands_add(1) [OF v(1) m1(3) [OF that] w] by simp
  qed
  show ?case unfolding f small_vec_def
    using r b(2) a(2) reduce257_value(1) stands_reduce [OF s] by simp
qed

subsection \<open>The products with the key\<close>

text \<open>A word that stands for \<open>x\<close> and is at most \<open>n\<close>.\<close>

definition upto_for :: "int \<Rightarrow> u16 \<Rightarrow> int \<Rightarrow> bool" where
  "upto_for n w x \<longleftrightarrow> uint w \<le> n \<and> stands_for w x"

lemma upto_add: "upto_for m v x \<Longrightarrow> upto_for n w y \<Longrightarrow> m + n < 65536 \<Longrightarrow> upto_for (m + n) (v + w) (x + y)"
  using stands_add [of v x w y] by (simp add: upto_for_def)

definition key_ok :: "vec list list \<Rightarrow> bool" where
  "key_ok A \<longleftrightarrow> (\<forall>r<16. \<forall>i<4. length (A ! r ! i) = 16 \<and> (\<forall>l<16. uint (A ! r ! i ! l) \<le> 255))"

lemma sixteen: "(\<Sum>r<16::nat. f r) = f 0 + f 1 + f 2 + f 3 + f 4 + f 5 + f 6 + f 7 + f 8 + f 9 + f 10 + f 11 + f 12 + f 13 + f 14 + (f 15 :: int)"
  by (simp add: numeral_eq_Suc)

lemma key_sum_stands:
  assumes "constants_ok tabs" and "key_ok A" and "l < 16" and "i < 4"
    and "\<And>r. r < 16 \<Longrightarrow> length (Y ! r ! i) = 16 \<and> uint (Y ! r ! i ! l) \<le> 1540 \<and> stands_for (Y ! r ! i ! l) (y r)"
  shows "stands_for (key_sum tabs Y A i ! l) (\<Sum>r<16. uint (A ! r ! i ! l) * y r)"
proof -
  define V where "V r = vecMult16Reduce3 tabs (Y ! r ! i) (A ! r ! i)" for r
  have V: "length (V r) = 16" "upto_for 262 (V r ! l) (uint (A ! r ! i ! l) * y r)" if "r < 16" for r
  proof -
    have a: "length (A ! r ! i) = 16" "uint (A ! r ! i ! l) \<le> 255" and y: "length (Y ! r ! i) = 16" "uint (Y ! r ! i ! l) \<le> 1540" "stands_for (Y ! r ! i ! l) (y r)"
      using assms(2-4) assms(5) [OF that] that by (simp_all add: key_ok_def)
    note m = lane_mul [OF assms(1) y(1) a(1), folded V_def]
    show "length (V r) = 16" by (rule m)
    have "uint (Y ! r ! i ! l) * uint (A ! r ! i ! l) \<le> 1540 * 255" using y(2) a(2) by (intro mult_mono) simp_all
    then have p: "uint (Y ! r ! i ! l) * uint (A ! r ! i ! l) < 65536 * 8" by simp
    have "stands_for (A ! r ! i ! l) (uint (A ! r ! i ! l))" by (simp add: stands_for_def)
    from stands_mul [OF y(3) this p] show "upto_for 262 (V r ! l) (uint (A ! r ! i ! l) * y r)"
      unfolding upto_for_def m(2) [OF assms(3)] using mul257_value(1) [OF p] by (simp add: mult.commute)
  qed
  have add: "length (add_epi16 a b) = 16 \<and> upto_for (m + n) (add_epi16 a b ! l) (x + z)"
    if "length a = 16 \<and> upto_for m (a ! l) x" "length b = 16 \<and> upto_for n (b ! l) z" "m + n < 65536" for a b m n x z
    using that assms(3) by (simp add: lane_arith upto_add)
  have red: "length (ReduceY2 tabs a) = 16 \<and> stands_for (ReduceY2 tabs a ! l) x" if "length a = 16 \<and> stands_for (a ! l) x" for a x
    using that assms(3) by (simp add: lane_reduce [OF assms(1)] stands_reduce)
  have v: "length (V r) = 16 \<and> upto_for 262 (V r ! l) (uint (A ! r ! i ! l) * y r)" if "r < 16" for r using V that by blast
  define p where "p r = uint (A ! r ! i ! l) * y r" for r
  have two: "length (add_epi16 (V a) (V b)) = 16 \<and> upto_for 524 (add_epi16 (V a) (V b) ! l) (p a + p b)" if "a < 16" "b < 16" for a b
    using add [OF v [OF that(1)] v [OF that(2)]] by (simp add: p_def)
  have four: "length (add_epi16 (add_epi16 (V a) (V b)) (add_epi16 (V c) (V d))) = 16 \<and>
      upto_for 1048 (add_epi16 (add_epi16 (V a) (V b)) (add_epi16 (V c) (V d)) ! l) (p a + p b + (p c + p d))" if "a < 16" "b < 16" "c < 16" "d < 16" for a b c d
    using add [OF two [OF that(1,2)] two [OF that(3,4)]] by simp
  define F where "F a = add_epi16 (add_epi16 (V a) (V (a + 1))) (add_epi16 (V (a + 2)) (V (a + 3)))" for a
  define q where "q a = p a + p (a + 1) + (p (a + 2) + p (a + 3))" for a
  have f: "length (F a) = 16 \<and> upto_for 1048 (F a ! l) (q a)" if "a < 13" for a
    using four [of a "a + 1" "a + 2" "a + 3"] that by (simp add: F_def q_def)
  have "length (add_epi16 (add_epi16 (F 0) (F 4)) (add_epi16 (F 8) (F 12))) = 16 \<and>
      upto_for 4192 (add_epi16 (add_epi16 (F 0) (F 4)) (add_epi16 (F 8) (F 12)) ! l) (q 0 + q 4 + (q 8 + q 12))"
    using add [OF add [OF f [of 0] f [of 4]] add [OF f [of 8] f [of 12]]] by simp
  moreover have "key_sum tabs Y A i = ReduceY2 tabs (ReduceY2 tabs (add_epi16 (add_epi16 (F 0) (F 4)) (add_epi16 (F 8) (F 12))))"
    by (simp add: key_sum_def Let_def F_def V_def numeral_2_eq_2)
  moreover have "(\<Sum>r<16. p r) = q 0 + q 4 + (q 8 + q 12)" by (simp add: sixteen q_def numeral_2_eq_2)
  ultimately show ?thesis using red [OF red] by (simp add: upto_for_def p_def)
qed

subsection \<open>The linear function\<close>

definition lin :: "swifft_tables \<Rightarrow> vec list list \<Rightarrow> (nat \<Rightarrow> int) \<Rightarrow> nat \<Rightarrow> nat \<Rightarrow> int" where
  "lin tabs A c i l = (\<Sum>r<16. uint (A ! r ! i ! l) * points tabs l (\<lambda>k. quarter tabs l (\<lambda>j. c (64 * r + 16 * k + j))) i)"

definition lin_hash :: "swifft_tables \<Rightarrow> vec list list \<Rightarrow> (nat \<Rightarrow> int) \<Rightarrow> u32 list" where
  "lin_hash tabs A c = concat (map (\<lambda>i. map (\<lambda>l. word_of_int (lin tabs A c i l mod 257)) [0..<16]) [0..<4])"

lemma ring_value:
  assumes "stands_for w x"
  shows "(ucast w mod 257 :: u32) = word_of_int (x mod 257)"
proof -
  have "uint (ucast w :: u32) = uint w" using unsigned_less [of w, where 'a = int] by (simp add: unsigned_ucast_eq take_bit_int_eq_self)
  then have "uint (ucast w mod 257 :: u32) = x mod 257" using assms by (simp add: uint_mod stands_for_def)
  then show ?thesis by (metis word_of_int_uint)
qed

lemma hash_columns:
  assumes "tables_ok tabs" and "key_ok A" and "\<And>r k. r < 16 \<Longrightarrow> k < 4 \<Longrightarrow> small_vec (t r ! k)"
    and "\<And>r k l. r < 16 \<Longrightarrow> k < 4 \<Longrightarrow> l < 16 \<Longrightarrow> stands_for (t r ! k ! l) (quarter tabs l (\<lambda>j. c (64 * r + 16 * k + j)))"
    and "\<And>r. r < 16 \<Longrightarrow> Y ! r = four_points tabs (t r)"
  shows "unpack_rgY (map (key_sum tabs Y A) [0..<4]) = lin_hash tabs A c"
proof -
  have "(ucast (map (key_sum tabs Y A) [0..<4] ! i ! l) mod 257 :: u32) = word_of_int (lin tabs A c i l mod 257)" if "i < 4" "l < 16" for i l
  proof -
    have "length (Y ! r ! i) = 16 \<and> uint (Y ! r ! i ! l) \<le> 1540 \<and>
        stands_for (Y ! r ! i ! l) (points tabs l (\<lambda>k. quarter tabs l (\<lambda>j. c (64 * r + 16 * k + j))) i)" if "r < 16" for r
      unfolding assms(5) [OF that] using assms(1,3,4) that \<open>i < 4\<close> \<open>l < 16\<close> by (intro four_points_stands) simp_all
    then have "stands_for (key_sum tabs Y A i ! l) (lin tabs A c i l)"
      unfolding lin_def using assms(1,2) that by (intro key_sum_stands) (simp_all add: tables_ok_def)
    then show ?thesis using that by (simp add: ring_value)
  qed
  then show ?thesis unfolding unpack_rgY_def lin_hash_def by (intro arg_cong [of _ _ concat] map_cong refl) simp
qed

lemma upt16_bits: "(\<Sum>j<16. f j) = (\<Sum>j<8. f j) + (\<Sum>j<8. f (8 + j))" for f :: "nat \<Rightarrow> int"
  by (simp add: numeral_eq_Suc)

lemma sk_bits_nth:
  assumes "m < length x" and "j < 8"
  shows "sk_bits x ! (8 * m + j) = of_bool (bit (x ! m) j)"
proof -
  define g where "g b = map (\<lambda>j. drop_bit j (b AND push_bit j 1)) [0..<8]" for b :: u8
  have "concat (map g x) ! (8 * m + j) = g (x ! m) ! j"
    using assms(1)
  proof (induction x arbitrary: m)
    case (Cons b x)
    have "length (g b) = 8" by (simp add: g_def)
    then show ?case using Cons assms(2) by (cases m) (simp_all add: nth_append)
  qed simp
  moreover have "drop_bit j (b AND push_bit j 1) = of_bool (bit b j)" for b :: u8
    by (rule bit_word_eqI) (auto simp: bit_simps split: if_splits dest: bit_imp_le_length)
  moreover have "sk_bits x = concat (map g x)" by (simp only: sk_bits_def g_def [abs_def])
  ultimately show ?thesis using assms(2) by (simp del: and_exp_eq_0_iff_not_bit add: g_def)
qed

lemma row_word:
  fixes lo hi :: u8
  defines "w \<equiv> unat (push_bit 8 (ucast hi) OR ucast lo :: u32)"
  shows "w < 2 ^ 16" and "j < 8 \<Longrightarrow> bit w j = bit lo j" and "j < 8 \<Longrightarrow> bit w (8 + j) = bit hi j"
proof -
  define v where "v = (push_bit 8 (ucast hi) OR ucast lo :: u32)"
  have "take_bit 16 v = v" unfolding v_def by (rule bit_word_eqI) (auto simp: bit_simps dest: bit_imp_le_length)
  then have "unat (take_bit 16 v) = unat v" by (rule arg_cong)
  moreover have "unat (take_bit 16 v) = take_bit 16 (unat v)" by (rule unsigned_take_bit_eq)
  ultimately have "take_bit 16 w = w" by (simp only: w_def v_def)
  then show "w < 2 ^ 16" by (simp add: take_bit_nat_eq_self_iff)
  show "j < 8 \<Longrightarrow> bit w j = bit lo j" "j < 8 \<Longrightarrow> bit w (8 + j) = bit hi j"
    unfolding w_def by (auto simp: bit_simps dest: bit_imp_le_length)
qed

lemma quarter_bits:
  assumes "length x = 128" and "r < 16" and "k < 4"
  defines "w \<equiv> parse_rows x ! r ! k"
  shows "w < 2 ^ 16" and "(\<Sum>j<16. if bit w j then uint (k0i0 tabs ! j ! l) else 0) = quarter tabs l (\<lambda>j. uint (sk_bits x ! (64 * r + 16 * k + j)))"
proof -
  have w: "w = unat (push_bit 8 (ucast (x ! (8 * r + 2 * k + 1))) OR ucast (x ! (8 * r + 2 * k)) :: u32)"
    using assms(2,3) by (simp add: w_def parse_rows_def)
  note b = row_word [where lo = "x ! (8 * r + 2 * k)" and hi = "x ! (8 * r + 2 * k + 1)", folded w]
  show "w < 2 ^ 16" by (rule b(1))
  have s: "sk_bits x ! (64 * r + 16 * k + j) = of_bool (bit w j)" "sk_bits x ! (64 * r + 16 * k + (8 + j)) = of_bool (bit w (8 + j))" if "j < 8" for j
    using sk_bits_nth [of "8 * r + 2 * k" x j] sk_bits_nth [of "8 * r + 2 * k + 1" x j] b(2,3) [OF that] assms(1-3) that
    by (simp_all add: algebra_simps)
  have "(\<Sum>j<8. if bit w j then f j else 0) = (\<Sum>j<8. f j * uint (sk_bits x ! (64 * r + 16 * k + j)))"
    "(\<Sum>j<8. if bit w (8 + j) then f (8 + j) else 0) = (\<Sum>j<8. f (8 + j) * uint (sk_bits x ! (64 * r + 16 * k + (8 + j))))" for f :: "nat \<Rightarrow> int"
    using s by (intro sum.cong; simp)+
  then show "(\<Sum>j<16. if bit w j then uint (k0i0 tabs ! j ! l) else 0) = quarter tabs l (\<lambda>j. uint (sk_bits x ! (64 * r + 16 * k + j)))"
    unfolding quarter_def upt16_bits by simp
qed

subsection \<open>Both hash functions\<close>

lemma swifft_is_linear:
  assumes "tables_ok tabs" and "key_ok A" and "length x = 128"
  shows "convert_ring (SWIFFT_avx2 tabs A x) = lin_hash tabs A (\<lambda>i. uint (sk_bits x ! i))"
proof -
  define t where "t r = map (\<lambda>k. T_K0_I0 tabs (parse_rows x ! r ! k)) [0..<4]" for r
  have t: "small_vec (t r ! k)" "l < 16 \<Longrightarrow> stands_for (t r ! k ! l) (quarter tabs l (\<lambda>j. uint (sk_bits x ! (64 * r + 16 * k + j))))"
    if "r < 16" "k < 4" for r k l
    using assms(1) quarter_bits(1) [OF assms(3) that] that unfolding quarter_bits(2) [OF assms(3) that, symmetric]
    by (simp_all add: tables_ok_def t_def)
  have "unpack_rgY (map (key_sum tabs (bntt16 tabs (parse_rows x)) A) [0..<4]) = lin_hash tabs A (\<lambda>i. uint (sk_bits x ! i))"
    by (rule hash_columns [where t = t]) (use assms(1,2) t in \<open>simp_all add: bntt16_def t_def parse_rows_def\<close>)
  then show ?thesis by (simp add: SWIFFT_avx2_def Let_def pack_roundtrip)
qed

lemma gswifft_is_linear:
  assumes "tables_ok tabs" and "key_ok A"
  shows "gSWIFFT_avx2 tabs A x = lin_hash tabs A (\<lambda>i. uint (x ! i))"
proof -
  define X :: "vec list list" where "X = map (\<lambda>row. map (\<lambda>k0. map (\<lambda>j. ucast (x ! (64 * row + 16 * k0 + j))) [0..<16]) [0..<4]) [0..<16]"
  define t where "t r = map (\<lambda>k0. fold (gntt_step tabs (X ! r ! k0)) [0..<8] (zero_vec tabs)) [0..<4]" for r
  have b: "uint (ucast c :: u16) = uint c" "uint c \<le> 255" for c :: u8
    using unsigned_less [of c, where 'a = int] by (simp_all add: unsigned_ucast_eq take_bit_int_eq_self)
  have t: "small_vec (t r ! k) \<and> (\<forall>l<16. stands_for (t r ! k ! l) (quarter tabs l (\<lambda>j. uint (x ! (64 * r + 16 * k + j)))))"
    if "r < 16" "k < 4" for r k
  proof -
    have "t r ! k = fold (gntt_step tabs (X ! r ! k)) [0..<8] (zero_vec tabs)" using that by (simp add: t_def)
    moreover have "length (X ! r ! k) = 16" "\<And>j. j < 16 \<Longrightarrow> uint (X ! r ! k ! j) = uint (x ! (64 * r + 16 * k + j))"
      using that b(1) by (simp_all add: X_def)
    ultimately show ?thesis using row_temp [OF assms(1), of "X ! r ! k" 8] b(2) by (simp add: quarter_def)
  qed
  have "unpack_rgY (map (key_sum tabs (gntt16 tabs X) A) [0..<4]) = lin_hash tabs A (\<lambda>i. uint (x ! i))"
    by (rule hash_columns [where t = t]) (use assms t in \<open>simp_all add: gntt16_def t_def X_def\<close>)
  then show ?thesis by (simp add: gSWIFFT_avx2_def Let_def X_def)
qed

lemma lin_add:
  assumes "\<And>n. n < 1024 \<Longrightarrow> e n = c n + d n" and "i < 4"
  shows "lin tabs A e i l = lin tabs A c i l + lin tabs A d i l"
proof -
  have q: "quarter tabs l (\<lambda>j. e (64 * r + 16 * k + j)) = quarter tabs l (\<lambda>j. c (64 * r + 16 * k + j)) + quarter tabs l (\<lambda>j. d (64 * r + 16 * k + j))"
    if "r < 16" "k < 4" for r k
    using assms(1) that unfolding quarter_def by (simp add: sum.distrib [symmetric] distrib_left)
  have "points tabs l (\<lambda>k. quarter tabs l (\<lambda>j. e (64 * r + 16 * k + j))) i =
      points tabs l (\<lambda>k. quarter tabs l (\<lambda>j. c (64 * r + 16 * k + j))) i + points tabs l (\<lambda>k. quarter tabs l (\<lambda>j. d (64 * r + 16 * k + j))) i" if "r < 16" for r
  proof -
    have i: "i = 0 \<or> i = 1 \<or> i = 2 \<or> i = 3" using assms(2) by auto
    note v = q [OF that, of 0] q [OF that, of 1] q [OF that, of 2] q [OF that, of 3]
    show ?thesis using i v by (elim disjE) (simp_all add: points_def Let_def algebra_simps)
  qed
  then show ?thesis by (simp add: lin_def sum.distrib [symmetric] distrib_left)
qed

lemma upto4_concat: "concat (map f [0..<4]) = f 0 @ f 1 @ f 2 @ f 3"
  by (simp add: upto4)

lemma lin_hash_shape: "length (lin_hash tabs A c) = 64" "w \<in> set (lin_hash tabs A c) \<Longrightarrow> w < 257"
proof -
  show "length (lin_hash tabs A c) = 64" by (simp add: lin_hash_def length_concat upto4)
  have "(word_of_int (x mod 257) :: u32) < 257" for x
    by (simp add: word_less_def uint_word_of_int_eq take_bit_int_eq_self)
  then show "w \<in> set (lin_hash tabs A c) \<Longrightarrow> w < 257" by (auto simp: lin_hash_def)
qed

lemma lin_hash_add:
  assumes "\<And>n. n < 1024 \<Longrightarrow> e n = c n + d n"
  shows "lin_hash tabs A e = map2 (\<lambda>x y. (x + y) mod 257) (lin_hash tabs A c) (lin_hash tabs A d)"
proof -
  have w: "(word_of_int ((x + y) mod 257) :: u32) = (word_of_int (x mod 257) + word_of_int (y mod 257)) mod 257" for x y
  proof -
    have z: "0 \<le> x mod 257" "x mod 257 < 257" "0 \<le> y mod 257" "y mod 257 < 257" by simp_all
    have "uint (word_of_int (x mod 257 + y mod 257) :: u32) = take_bit 32 (x mod 257 + y mod 257)" by (simp only: uint_word_of_int_eq) simp
    also have "\<dots> = x mod 257 + y mod 257"
    proof (rule take_bit_int_eq_self)
      show "0 \<le> x mod 257 + y mod 257" using z by linarith
      show "x mod 257 + y mod 257 < 2 ^ 32" using z by simp
    qed
    finally have "uint ((word_of_int (x mod 257) + word_of_int (y mod 257)) mod 257 :: u32) = (x mod 257 + y mod 257) mod 257"
      by (simp only: uint_mod of_int_add [symmetric]) simp
    then show ?thesis by (metis mod_add_eq word_of_int_uint)
  qed
  have m: "map (\<lambda>l. word_of_int (lin tabs A e i l mod 257)) [0..<16] =
      map2 (\<lambda>x y. (x + y) mod 257) (map (\<lambda>l. word_of_int (lin tabs A c i l mod 257)) [0..<16]) (map (\<lambda>l. word_of_int (lin tabs A d i l mod 257) :: u32) [0..<16])"
    if "i < 4" for i
    by (intro nth_equalityI) (simp_all add: lin_add [OF assms that] w)
  show ?thesis unfolding lin_hash_def upto4_concat using m [of 0] m [of 1] m [of 2] m [of 3] by (simp add: zip_append del: upt_Suc)
qed

lemma set_Key_ok: "key_ok (set_Key_avx2 tabs indx height)"
proof -
  have b: "uint (ucast c :: u16) \<le> 255" for c :: u8
    using unsigned_less [of c, where 'a = int] by (simp add: unsigned_ucast_eq take_bit_int_eq_self)
  then have "key_ok (map (\<lambda>row. map (\<lambda>k0. map (\<lambda>j. ucast (a ! (64 * row + 16 * k0 + j))) [0..<16]) [0..<4]) [0..<16])" for a :: bytes
    by (simp add: key_ok_def)
  then show ?thesis unfolding set_Key_avx2_def Let_def by this
qed

lemma swifft_env_linear:
  assumes "tables_ok tabs"
  shows "swifft_linear (swifft_env tabs seed iv pad_seed pad_iv)"
  unfolding swifft_linear_def
proof (intro conjI ballI allI impI)
  fix A
  assume "A \<in> hash_keys (swifft_env tabs seed iv pad_seed pad_iv)"
  then have k: "key_ok A" using set_Key_ok by (auto simp: hash_keys_def swifft_env_def)
  note g = gswifft_is_linear [OF assms k]
  show "convert_ring (SWIFFT (swifft_env tabs seed iv pad_seed pad_iv) A x) = gSWIFFT (swifft_env tabs seed iv pad_seed pad_iv) A (sk_bits x)"
    if "length x = 128" for x
    using swifft_is_linear [OF assms k that] g by (simp add: swifft_env_def)
  show "length (gSWIFFT (swifft_env tabs seed iv pad_seed pad_iv) A a) = 64" for a
    by (simp add: swifft_env_def g lin_hash_shape)
  show "c < 257" if "c \<in> set (gSWIFFT (swifft_env tabs seed iv pad_seed pad_iv) A a)" for a c
    using that lin_hash_shape(2) by (simp add: swifft_env_def g)
  show "gSWIFFT (swifft_env tabs seed iv pad_seed pad_iv) A (map2 (+) a b) =
      map2 (\<lambda>x y. (x + y) mod 257) (gSWIFFT (swifft_env tabs seed iv pad_seed pad_iv) A a) (gSWIFFT (swifft_env tabs seed iv pad_seed pad_iv) A b)"
    if l: "length a = 1024 \<and> length b = 1024 \<and> (\<forall>i < 1024. unat (a ! i) + unat (b ! i) \<le> 131)" for a b
  proof -
    have "uint (map2 (+) a b ! n) = uint (a ! n) + uint (b ! n)" if "n < 1024" for n
    proof -
      have "unat (a ! n) + unat (b ! n) \<le> 131" using l that by blast
      then have "unat (a ! n + b ! n) = unat (a ! n) + unat (b ! n)" by (intro unat_add_lem [THEN iffD1]) simp
      moreover have "map2 (+) a b ! n = a ! n + b ! n" using l that by simp
      ultimately show ?thesis by (simp only: uint_nat of_nat_add)
    qed
    then show ?thesis unfolding swifft_env_def mss_env.select_convs g by (rule lin_hash_add)
  qed
qed

subsection \<open>The signature scheme\<close>

text \<open>C10: signatures verify. With SWIFFT over correct tables and any seeds, after key generation, whatever the arrays
  held before, up to \<open>2 ^ 20 - 1\<close> messages can be signed with the instances 0, 1, 2, and so on: every call finds the
  authentication path that the earlier calls prepared, nine updates a signature being enough, and every signature
  passes the verification with the same instance and message under the public key.\<close>

theorem ksnmss_signatures_verify:
  assumes "tables_ok tabs" and "mss_shape s" and "\<forall>ms \<in> set mss. length ms = 32" and "length mss < 2 ^ 20"
    and "env = swifft_env tabs seed iv pad_seed pad_iv"
  shows "\<exists>sigs s'. sign_all env 0 mss (key_generation env s) = Some (sigs, s') \<and> length sigs = length mss \<and>
    (\<forall>i < length mss. \<exists>t. ksnmss_verify env (of_nat i) (mss ! i) (sigs ! i) s' = Some (0, t))"
  unfolding assms(5) by (rule signatures_verify [OF swifft_env_linear [OF assms(1)] assms(2-4)])

text \<open>C11: SWIFFT is linear. With correct tables and any key of \<open>set_Key_avx2\<close> the bytes of the hash of 1024 bits unpack to
  64 numbers, each a fixed linear function of the bits modulo 257, although the sums are kept in words of 16 bits
  that are not always reduced; the general hash applies the same function to 1024 bytes.\<close>

theorem swifft_hash_linear:
  assumes "tables_ok tabs" and "length x = 128"
    and "A = set_Key_avx2 tabs indx height"
  shows "convert_ring (SWIFFT_avx2 tabs A x) = lin_hash tabs A (\<lambda>i. uint (sk_bits x ! i)) \<and>
    gSWIFFT_avx2 tabs A y = lin_hash tabs A (\<lambda>i. uint (y ! i))"
  unfolding assms(3) using swifft_is_linear [OF assms(1) set_Key_ok assms(2)] gswifft_is_linear [OF assms(1) set_Key_ok] by blast

subsection \<open>The tables of the program\<close>

text \<open>The constants of the compiled program \<open>k2sn/a.out\<close>, whose table of 65536 sums is given by the sums.\<close>

definition program_M :: "vec list" where
  "program_M =
    [[1, 1, 1, 1, 1, 1, 1, 1, 1, 1, 1, 1, 1, 1, 1, 1],
     [42, 72, 50, 49, 84, 144, 100, 98, 168, 31, 200, 196, 79, 62, 143, 135],
     [222, 44, 187, 88, 117, 176, 234, 95, 211, 190, 165, 123, 73, 246, 146, 235],
     [72, 84, 98, 200, 62, 158, 13, 58, 239, 236, 104, 207, 113, 89, 61, 114]]"

definition program_k0i0 :: "vec list" where
  "program_k0i0 =
    [[1, 1, 1, 1, 1, 1, 1, 1, 1, 1, 1, 1, 1, 1, 1, 1],
     [197, 137, 17, 34, 68, 136, 15, 30, 60, 120, 240, 223, 189, 121, 242, 227],
     [2, 8, 32, 128, 255, 249, 225, 129, 2, 8, 32, 128, 255, 249, 225, 129],
     [137, 68, 30, 240, 121, 197, 34, 15, 120, 189, 227, 17, 136, 60, 223, 242],
     [4, 64, 253, 193, 4, 64, 253, 193, 4, 64, 253, 193, 4, 64, 253, 193],
     [17, 30, 189, 137, 15, 223, 197, 136, 240, 227, 68, 120, 242, 34, 60, 121],
     [8, 255, 129, 32, 249, 2, 128, 225, 8, 255, 129, 32, 249, 2, 128, 225],
     [34, 240, 137, 60, 227, 15, 121, 68, 223, 17, 120, 197, 30, 242, 136, 189],
     [16, 241, 16, 241, 16, 241, 16, 241, 16, 241, 16, 241, 16, 241, 16, 241],
     [68, 121, 15, 227, 60, 137, 240, 34, 189, 136, 242, 30, 197, 120, 17, 223],
     [32, 129, 255, 8, 225, 128, 2, 249, 32, 129, 255, 8, 225, 128, 2, 249],
     [136, 197, 223, 15, 137, 189, 30, 17, 121, 60, 34, 242, 120, 68, 227, 240],
     [64, 4, 193, 253, 64, 4, 193, 253, 64, 4, 193, 253, 64, 4, 193, 253],
     [15, 34, 197, 121, 240, 30, 68, 137, 242, 223, 60, 136, 17, 227, 189, 120],
     [128, 32, 8, 2, 129, 225, 249, 255, 128, 32, 8, 2, 129, 225, 249, 255],
     [30, 15, 136, 68, 34, 17, 137, 197, 227, 242, 121, 189, 223, 240, 120, 60]]"

definition program_tables :: "bytes \<Rightarrow> bytes \<Rightarrow> swifft_tables" where
  "program_tables seed iv = \<lparr>
     T_K0_I0 = (\<lambda>w. map (\<lambda>l. word_of_int ((\<Sum>j<16. if bit w j then uint (program_k0i0 ! j ! l) else 0) mod 257)) [0..<16]),
     M_K0_I0 = program_M, k0i0 = program_k0i0, permute = map (replicate 8) [0..<8],
     selec = [concat (replicate 8 [- 1, 0]), concat (replicate 8 [0, - 1])], mask255 = replicate 16 255, allone = replicate 16 (- 1),
     p257 = replicate 16 257, p257_2 = replicate 16 1028, p257_7 = replicate 16 32896, zero_vec = replicate 16 0, hk_seed = seed, hk_iv = iv\<rparr>"

lemma small_vecs:
  assumes "list_all (\<lambda>v. length v = 16 \<and> list_all (\<lambda>w. w \<le> 256) v) vs" and "k < length vs"
  shows "small_vec (vs ! k)"
proof -
  have "length (vs ! k) = 16" "\<forall>l<16. vs ! k ! l \<le> 256" using assms by (auto simp: list_all_length)
  then show ?thesis by (simp add: small_vec_def word_le_def)
qed

lemma program_tables_ok: "tables_ok (program_tables seed iv)"
proof -
  have m: "small_vec (program_M ! k)" if "k < 4" for k using that by (intro small_vecs) (simp_all add: program_M_def)
  have k: "small_vec (program_k0i0 ! j)" if "j < 16" for j using that by (intro small_vecs) (simp_all add: program_k0i0_def)
  have u: "uint (word_of_int (x mod 257) :: u16) = x mod 257" for x
  proof -
    have "0 \<le> x mod 257" "x mod 257 < 257" by simp_all
    then show ?thesis by (simp add: uint_word_of_int_eq take_bit_int_eq_self)
  qed
  define S where "S w l = (\<Sum>j<16. if bit w j then uint (program_k0i0 ! j ! l) else 0)" for w :: nat and l
  have f: "k0i0 (program_tables seed iv) = program_k0i0" "M_K0_I0 (program_tables seed iv) = program_M"
    "T_K0_I0 (program_tables seed iv) w = map (\<lambda>l. word_of_int (S w l mod 257)) [0..<16]" for w
    by (simp_all add: program_tables_def S_def)
  have t: "small_vec (map (\<lambda>l. word_of_int (S w l mod 257)) [0..<16])" for w
  proof -
    have "x mod 257 \<le> 256" for x :: int using pos_mod_bound [of 257 x] by simp
    then show ?thesis by (simp add: small_vec_def u)
  qed
  have "stands_for (map (\<lambda>l. word_of_int (S w l mod 257)) [0..<16] ! l) (\<Sum>j<16. if bit w j then uint (program_k0i0 ! j ! l) else 0)" if "l < 16" for w l
    unfolding S_def [symmetric] using that by (simp add: stands_for_def u)
  moreover have "constants_ok (program_tables seed iv)" by (simp add: constants_ok_def program_tables_def)
  ultimately show ?thesis unfolding tables_ok_def f using m k t by blast
qed

lemma ksnmss_signatures_verify_witness:
  "\<exists>env sigs s' t. env = swifft_env (program_tables (replicate 32 5) (replicate 8 6)) (replicate 32 1) (replicate 8 2) (replicate 32 3) (replicate 8 4) \<and>
    sign_all env 0 [replicate 32 0, replicate 32 1, replicate 32 0] (key_generation env blank_state) = Some (sigs, s') \<and>
    ksnmss_verify env 1 (replicate 32 1) (sigs ! 1) s' = Some (0, t)"
proof -
  define env where "env = swifft_env (program_tables (replicate 32 5) (replicate 8 6)) (replicate 32 1) (replicate 8 2) (replicate 32 3) (replicate 8 4)"
  have "\<exists>sigs s'. sign_all env 0 [replicate 32 0, replicate 32 1, replicate 32 0] (key_generation env blank_state) = Some (sigs, s') \<and>
      (\<exists>t. ksnmss_verify env (of_nat 1) (replicate 32 1) (sigs ! 1) s' = Some (0, t))"
    using ksnmss_signatures_verify [OF program_tables_ok blank_shape _ _ env_def, of "[replicate 32 0, replicate 32 1, replicate 32 0]"] by fastforce
  then show ?thesis using env_def by auto
qed

lemma swifft_hash_linear_witness:
  "\<exists>tabs A. tabs = program_tables (replicate 32 5) (replicate 8 6) \<and> A = set_Key_avx2 tabs 7 3 \<and>
    convert_ring (SWIFFT_avx2 tabs A (replicate 128 9)) = gSWIFFT_avx2 tabs A (sk_bits (replicate 128 9))"
  using swifft_hash_linear [OF program_tables_ok _ refl, of "replicate 128 9" "replicate 32 5" "replicate 8 6" 7 3 "sk_bits (replicate 128 9)"]
  by (simp del: replicate.simps)

end
