(* ===== verification/BigNum.thy ===== *)
theory BigNum
  imports Prelude
begin

text \<open>
  The big-number functions at the start of \<open>ecc/ecc.c\<close>: numbers are arrays of 32-bit words, least
  significant first. An operation returns the words it writes; where the code passes the same array as
  an operand and as the result, every word is read before it is written. The theory proves what each
  operation computes.
\<close>

type_synonym ecc_words = "u32 list"

subsection \<open>Operations\<close>

text \<open>\<open>add\<close>: the carry is kept in the 64-bit \<open>d\<close>. \<open>sub\<close>: likewise the borrow.\<close>

fun add_loop :: "ecc_words \<Rightarrow> ecc_words \<Rightarrow> nat \<Rightarrow> u64 \<Rightarrow> ecc_words \<times> u64" where
  "add_loop x y 0 d = ([], d)"
| "add_loop x y (Suc n) d =
     (let d = d + (ucast (hd x) + ucast (hd y));
          (result, d') = add_loop (tl x) (tl y) n (drop_bit 32 d)
      in (ucast d # result, d'))"

definition ecc_add :: "ecc_words \<Rightarrow> ecc_words \<Rightarrow> nat \<Rightarrow> ecc_words \<times> u32" where
  "ecc_add x y n = (let (result, d) = add_loop x y n 0 in (result, ucast d))"

fun sub_loop :: "ecc_words \<Rightarrow> ecc_words \<Rightarrow> nat \<Rightarrow> u64 \<Rightarrow> ecc_words \<times> u64" where
  "sub_loop x y 0 d = ([], d)"
| "sub_loop x y (Suc n) d =
     (let d = ucast (hd x) - ucast (hd y) - d;
          (result, d') = sub_loop (tl x) (tl y) n (drop_bit 32 d AND 1)
      in (ucast (d AND 0xFFFFFFFF) # result, d'))"

definition ecc_sub :: "ecc_words \<Rightarrow> ecc_words \<Rightarrow> nat \<Rightarrow> ecc_words \<times> u32" where
  "ecc_sub x y n = (let (result, d) = sub_loop x y n 0 in (result, ucast d))"

definition rshiftby :: "ecc_words \<Rightarrow> nat \<Rightarrow> nat \<Rightarrow> nat \<Rightarrow> ecc_words" where
  "rshiftby inp in_size out_size shift = map (\<lambda>i. if i < in_size - shift then inp ! (i + shift) else 0) [0..<out_size]"

definition ecc_isSame :: "ecc_words \<Rightarrow> ecc_words \<Rightarrow> nat \<Rightarrow> bool" where
  "ecc_isSame A B n \<longleftrightarrow> take n A = take n B"

fun isGreater_loop :: "ecc_words \<Rightarrow> ecc_words \<Rightarrow> nat \<Rightarrow> int" where
  "isGreater_loop A B 0 = 0"
| "isGreater_loop A B (Suc i) = (if A ! i > B ! i then 1 else if A ! i < B ! i then -1 else isGreater_loop A B i)"

definition ecc_isGreater :: "ecc_words \<Rightarrow> ecc_words \<Rightarrow> nat \<Rightarrow> int" where
  "ecc_isGreater A B n = isGreater_loop A B n"

text \<open>\<open>fieldMult\<close>: the product of two words is put into \<open>temp\<close> at \<open>n + k\<close> and added to the result from there
  to the end.\<close>

definition mult_step :: "ecc_words \<Rightarrow> ecc_words \<Rightarrow> nat \<Rightarrow> nat \<Rightarrow> nat \<Rightarrow> ecc_words \<Rightarrow> ecc_words" where
  "mult_step x y len k n result =
     (let l = ucast (x ! n) * ucast (y ! k) :: u64;
          temp = replicate (2 * len) 0;
          temp = temp[n + k := ucast (l AND 0xFFFFFFFF), n + k + 1 := ucast (drop_bit 32 l)]
      in take (n + k) result @ fst (ecc_add (drop (n + k) temp) (drop (n + k) result) (2 * len - (n + k))))"

definition fieldMult :: "ecc_words \<Rightarrow> ecc_words \<Rightarrow> nat \<Rightarrow> ecc_words" where
  "fieldMult x y len = fold (\<lambda>k. fold (mult_step x y len k) [0..<len]) [0..<len] (replicate (2 * len) 0)"

definition ecc_isOne :: "ecc_words \<Rightarrow> bool" where
  "ecc_isOne A \<longleftrightarrow> list_all (\<lambda>n. A ! n = 0) [1..<8] \<and> A ! 0 = 1"

definition ecc_isZero :: "ecc_words \<Rightarrow> bool" where
  "ecc_isZero A \<longleftrightarrow> length (filter (\<lambda>n. A ! n = 0) [0..<8]) = 8"

fun rshift_loop :: "ecc_words \<Rightarrow> nat \<Rightarrow> u32 \<Rightarrow> ecc_words" where
  "rshift_loop A 0 nOld = A"
| "rshift_loop A (Suc i) nOld = rshift_loop (A[i := drop_bit 1 (A ! i) OR push_bit 31 nOld]) i (A ! i AND 1)"

definition ecc_rshift :: "ecc_words \<Rightarrow> ecc_words" where
  "ecc_rshift A = rshift_loop A 8 0"

subsection \<open>The number of an array\<close>

fun num32 :: "ecc_words \<Rightarrow> nat" where
  "num32 [] = 0"
| "num32 (x # xs) = unat x + 2 ^ 32 * num32 xs"

lemma unat_u32_less: "unat (x :: u32) < 2 ^ 32"
  using unsigned_less [of x] by simp

lemma num32_less: "num32 xs < 2 ^ (32 * length xs)"
proof (induction xs)
  case (Cons x xs)
  have "num32 (x # xs) < 2 ^ 32 + 2 ^ 32 * num32 xs" using unat_u32_less [of x] by simp
  also have "\<dots> = 2 ^ 32 * (num32 xs + 1)" by simp
  also have "\<dots> \<le> 2 ^ 32 * 2 ^ (32 * length xs)" using Cons by (intro mult_left_mono) simp_all
  finally show ?case by (simp add: power_add algebra_simps)
qed simp

lemma num32_append: "num32 (xs @ ys) = num32 xs + 2 ^ (32 * length xs) * num32 ys"
  by (induction xs) (simp_all add: power_add algebra_simps)

lemma num32_replicate [simp]: "num32 (replicate n 0) = 0"
  by (induction n) simp_all

lemma num32_take_drop: "k \<le> length xs \<Longrightarrow> num32 xs = num32 (take k xs) + 2 ^ (32 * k) * num32 (drop k xs)"
  using num32_append [of "take k xs" "drop k xs"] by simp

lemma num32_take_Suc: "n < length xs \<Longrightarrow> num32 (take (Suc n) xs) = num32 (take n xs) + 2 ^ (32 * n) * unat (xs ! n)"
  by (simp add: take_Suc_conv_app_nth num32_append)

lemma num32_take_le: "num32 (take n xs) \<le> num32 xs"
  using num32_append [of "take n xs" "drop n xs"] by simp

lemma num32_eq_iff: "length xs = length ys \<Longrightarrow> num32 xs = num32 ys \<longleftrightarrow> xs = ys"
proof (induction xs ys rule: list_induct2)
  case (Cons x xs y ys)
  have "unat x = unat y \<and> num32 xs = num32 ys" if e: "unat x + 2 ^ 32 * num32 xs = unat y + 2 ^ 32 * num32 ys"
  proof -
    have "(unat x + 2 ^ 32 * num32 xs) mod 2 ^ 32 = (unat y + 2 ^ 32 * num32 ys) mod 2 ^ 32"
      "(unat x + 2 ^ 32 * num32 xs) div 2 ^ 32 = (unat y + 2 ^ 32 * num32 ys) div 2 ^ 32" by (simp_all only: e)
    then show ?thesis using unat_u32_less [of x] unat_u32_less [of y] by simp
  qed
  then show ?case using Cons.IH by (auto simp: word_unat_eq_iff)
qed simp

subsection \<open>Addition and subtraction\<close>

lemma low_word: "unat (ucast (d :: u64) :: u32) = unat d mod 2 ^ 32"
  by (simp add: unsigned_ucast_eq take_bit_eq_mod)

lemma high_word: "unat (drop_bit 32 (d :: u64)) = unat d div 2 ^ 32"
  by (simp add: drop_bit_eq_div unat_div)

lemma mask_low: "(ucast (d AND 0xFFFFFFFF) :: u32) = ucast (d :: u64)"
proof -
  have m: "(0xFFFFFFFF :: u64) = mask 32" by (simp add: mask_eq_exp_minus_1)
  show ?thesis unfolding m by (intro bit_word_eqI) (auto simp: bit_simps)
qed

lemma add_loop_num:
  assumes "n \<le> length x" and "n \<le> length y" and "unat d \<le> 1" and "add_loop x y n d = (r, c)"
  shows "length r = n \<and> unat c \<le> 1 \<and> num32 r + 2 ^ (32 * n) * unat c = num32 (take n x) + num32 (take n y) + unat d"
  using assms
proof (induction x y n d arbitrary: r c rule: add_loop.induct)
  case (2 x y n d)
  obtain a xs b ys where xy: "x = a # xs" "y = b # ys" using "2.prems"(1,2) by (cases x; cases y) auto
  define e :: u64 where "e = d + (ucast (hd x) + ucast (hd y))"
  obtain r' c' where s: "add_loop xs ys n (drop_bit 32 e) = (r', c')" by fastforce
  have r: "r = ucast e # r'" "c = c'" using "2.prems"(4) s by (simp_all add: xy e_def Let_def)
  have e: "unat e = unat d + unat a + unat b"
    using unat_u32_less [of a] unat_u32_less [of b] "2.prems"(3)
    by (simp add: e_def xy unat_word_ariths unsigned_ucast_eq take_bit_eq_mod)
  have "unat e div 2 ^ 32 \<le> 1" using e unat_u32_less [of a] unat_u32_less [of b] "2.prems"(3) by simp
  then have ih: "length r' = n \<and> unat c' \<le> 1 \<and> num32 r' + 2 ^ (32 * n) * unat c' = num32 (take n xs) + num32 (take n ys) + unat e div 2 ^ 32"
    using "2.IH" [OF e_def, of r' c'] "2.prems"(1,2) s by (simp add: xy high_word)
  define q where "q = unat e div 2 ^ 32"
  define m where "m = unat e mod 2 ^ 32"
  have qm: "m + 2 ^ 32 * q = unat d + unat a + unat b" using e by (simp add: q_def m_def)
  have "2 ^ 32 * (num32 r' + 2 ^ (32 * n) * unat c') = 2 ^ 32 * (num32 (take n xs) + num32 (take n ys) + q)"
    using ih by (simp add: q_def)
  moreover have "unat (ucast e :: u32) = m" by (simp only: m_def low_word)
  ultimately show ?case using ih qm by (simp add: r xy power_add algebra_simps del: unsigned_ucast_eq)
qed simp

lemma ecc_add_num:
  assumes "n \<le> length x" and "n \<le> length y" and "ecc_add x y n = (r, c)"
  shows "length r = n" and "unat c \<le> 1" and "num32 r + 2 ^ (32 * n) * unat c = num32 (take n x) + num32 (take n y)"
proof -
  obtain d where d: "add_loop x y n 0 = (r, d)" "c = ucast d" using assms(3) by (auto simp: ecc_add_def split: prod.splits)
  have a: "length r = n \<and> unat d \<le> 1 \<and> num32 r + 2 ^ (32 * n) * unat d = num32 (take n x) + num32 (take n y)"
    using add_loop_num [OF assms(1,2) _ d(1)] by simp
  then have "unat c = unat d" by (simp add: d(2) low_word)
  then show "length r = n" and "unat c \<le> 1" and "num32 r + 2 ^ (32 * n) * unat c = num32 (take n x) + num32 (take n y)"
    using a by simp_all
qed

lemma sub_loop_num:
  assumes "n \<le> length x" and "n \<le> length y" and "unat d \<le> 1" and "sub_loop x y n d = (r, c)"
  shows "length r = n \<and> unat c \<le> 1 \<and> num32 r + num32 (take n y) + unat d = num32 (take n x) + 2 ^ (32 * n) * unat c"
  using assms
proof (induction x y n d arbitrary: r c rule: sub_loop.induct)
  case (2 x y n d)
  obtain a xs b ys where xy: "x = a # xs" "y = b # ys" using "2.prems"(1,2) by (cases x; cases y) auto
  define e :: u64 where "e = ucast (hd x) - ucast (hd y) - d"
  obtain r' c' where s: "sub_loop xs ys n (drop_bit 32 e AND 1) = (r', c')" by fastforce
  have r: "r = ucast e # r'" "c = c'" using "2.prems"(4) s by (simp_all add: xy e_def Let_def mask_low)
  define k where "k = (if unat b + unat d \<le> unat a then 0 else 1 :: nat)"
  have e: "unat e mod 2 ^ 32 + unat b + unat d = unat a + 2 ^ 32 * k \<and> unat (drop_bit 32 e AND 1) = k"
  proof (cases "unat b + unat d \<le> unat a")
    case True
    then have "e = word_of_nat (unat a - (unat b + unat d))"
      by (simp add: e_def xy of_nat_diff)
    then have "unat e = unat a - (unat b + unat d)"
      using unat_u32_less [of a] by (simp add: unsigned_of_nat take_bit_eq_mod)
    moreover have "unat e < 2 ^ 32" using calculation unat_u32_less [of a] by simp
    moreover have "unat (drop_bit 32 e) = 0" using calculation(2) by (simp add: high_word)
    then have "drop_bit 32 e = 0" by (simp only: unat_eq_0)
    ultimately show ?thesis using True by (simp add: k_def)
  next
    case False
    have "e = word_of_nat (2 ^ 64 + unat a - (unat b + unat d))"
      using unat_u32_less [of b] "2.prems"(3) by (simp add: e_def xy of_nat_diff)
    then have u: "unat e = 2 ^ 64 + unat a - (unat b + unat d)"
      using False by (simp add: unsigned_of_nat take_bit_eq_mod)
    define z where "z = 2 ^ 32 + unat a - (unat b + unat d)"
    have z: "z < 2 ^ 32" "unat e = z + 2 ^ 32 * (2 ^ 32 - 1)"
      using False u unat_u32_less [of b] "2.prems"(3) by (simp_all add: z_def)
    have h: "unat (drop_bit 32 e) = 2 ^ 32 - 1" using z(1) unfolding high_word z(2) by simp
    have "unat e mod 2 ^ 32 = z" using z(1) unfolding z(2) by (simp only: mod_mult_self2 mod_less)
    have "drop_bit 32 e = 2 ^ 32 - 1" using h by (simp add: word_unat_eq_iff)
    then have "drop_bit 32 e AND 1 = 1" by simp
    then show ?thesis using False \<open>unat e mod 2 ^ 32 = z\<close> unat_u32_less [of b] "2.prems"(3) by (simp add: k_def z_def)
  qed
  have "k \<le> 1" by (simp add: k_def)
  then have ih: "length r' = n \<and> unat c' \<le> 1 \<and> num32 r' + num32 (take n ys) + k = num32 (take n xs) + 2 ^ (32 * n) * unat c'"
    using "2.IH" [OF e_def, of r' c'] "2.prems"(1,2) s e by (simp add: xy)
  have "2 ^ 32 * (num32 r' + num32 (take n ys) + k) = 2 ^ 32 * (num32 (take n xs) + 2 ^ (32 * n) * unat c')" using ih by simp
  then show ?case using ih e by (simp add: r xy low_word power_add algebra_simps)
qed simp

lemma ecc_sub_num:
  assumes "n \<le> length x" and "n \<le> length y" and "ecc_sub x y n = (r, c)"
  shows "length r = n" and "unat c \<le> 1" and "num32 r + num32 (take n y) = num32 (take n x) + 2 ^ (32 * n) * unat c"
proof -
  obtain d where d: "sub_loop x y n 0 = (r, d)" "c = ucast d" using assms(3) by (auto simp: ecc_sub_def split: prod.splits)
  have a: "length r = n \<and> unat d \<le> 1 \<and> num32 r + num32 (take n y) = num32 (take n x) + 2 ^ (32 * n) * unat d"
    using sub_loop_num [OF assms(1,2) _ d(1)] by simp
  then have "unat c = unat d" by (simp add: d(2) low_word)
  then show "length r = n" and "unat c \<le> 1" and "num32 r + num32 (take n y) = num32 (take n x) + 2 ^ (32 * n) * unat c"
    using a by simp_all
qed

subsection \<open>Comparison, shifts, tests\<close>

lemma isGreater_loop_num:
  assumes "n \<le> length A" and "n \<le> length B"
  shows "isGreater_loop A B n =
    (if num32 (take n A) > num32 (take n B) then 1 else if num32 (take n A) < num32 (take n B) then -1 else 0)"
  using assms
proof (induction n)
  case (Suc n)
  let ?a = "num32 (take n A)" and ?b = "num32 (take n B)" and ?B = "2 ^ (32 * n) :: nat"
  have l: "?a < ?B" "?b < ?B" using num32_less [of "take n A"] num32_less [of "take n B"] Suc.prems by simp_all
  have t: "num32 (take (Suc n) A) = ?a + ?B * unat (A ! n)" "num32 (take (Suc n) B) = ?b + ?B * unat (B ! n)"
    using Suc.prems by (simp_all add: num32_take_Suc)
  have g: "x < y \<Longrightarrow> u < ?B \<Longrightarrow> u + ?B * x < v + ?B * y" for x y u v :: nat
  proof -
    assume "x < y" "u < ?B"
    then have "u + ?B * x < ?B * (x + 1)" by simp
    also have "\<dots> \<le> ?B * y" using \<open>x < y\<close> by (intro mult_left_mono) simp_all
    finally show ?thesis by simp
  qed
  show ?case
  proof (cases "unat (A ! n)" "unat (B ! n)" rule: linorder_cases)
    case less
    then show ?thesis using g [OF less l(1), of ?b] by (simp add: t word_less_nat_alt)
  next
    case greater
    then show ?thesis using g [OF greater l(2), of ?a] by (simp add: t word_less_nat_alt)
  next
    case equal
    then show ?thesis using Suc by (simp add: t word_less_nat_alt)
  qed
qed simp

lemma ecc_isGreater_num:
  "length A = n \<Longrightarrow> length B = n \<Longrightarrow>
   ecc_isGreater A B n = (if num32 A > num32 B then 1 else if num32 A < num32 B then -1 else 0)"
  using isGreater_loop_num [of n A B] by (simp add: ecc_isGreater_def)

lemma rshiftby_num:
  assumes "in_size \<le> length inp" and "shift \<le> in_size"
  shows "length (rshiftby inp in_size out_size shift) = out_size"
    and "num32 (rshiftby inp in_size out_size shift) = num32 (take in_size inp) div 2 ^ (32 * shift) mod 2 ^ (32 * out_size)"
proof -
  show "length (rshiftby inp in_size out_size shift) = out_size" by (simp add: rshiftby_def)
  let ?w = "drop shift (take in_size inp)"
  have "rshiftby inp in_size out_size shift = take out_size ?w @ replicate (out_size - length ?w) 0"
    using assms by (intro nth_equalityI) (auto simp: rshiftby_def nth_append min_def add.commute)
  then have r: "num32 (rshiftby inp in_size out_size shift) = num32 (take out_size ?w)" by (simp add: num32_append)
  have "num32 (take in_size inp) = num32 (take shift inp) + 2 ^ (32 * shift) * num32 ?w"
    using num32_take_drop [of shift "take in_size inp"] assms by (simp add: min_def)
  moreover have "num32 (take shift inp) < 2 ^ (32 * shift)" using num32_less [of "take shift inp"] assms by (simp add: min_absorb2)
  ultimately have d: "num32 (take in_size inp) div 2 ^ (32 * shift) = num32 ?w" by simp
  show "num32 (rshiftby inp in_size out_size shift) = num32 (take in_size inp) div 2 ^ (32 * shift) mod 2 ^ (32 * out_size)"
  proof (cases "out_size \<le> length ?w")
    case True
    then have "num32 (take out_size ?w) < 2 ^ (32 * out_size)" using num32_less [of "take out_size ?w"] by simp
    then show ?thesis unfolding r d num32_take_drop [OF True] by simp
  next
    case False
    have "num32 ?w < 2 ^ (32 * length ?w)" by (rule num32_less)
    also have "\<dots> \<le> 2 ^ (32 * out_size)" using False by (intro power_increasing) simp_all
    finally show ?thesis unfolding r d using False by simp
  qed
qed

lemma rshift_loop_num:
  assumes "i \<le> length A" and "unat c \<le> 1"
  shows "length (rshift_loop A i c) = length A \<and> drop i (rshift_loop A i c) = drop i A \<and>
    num32 (take i (rshift_loop A i c)) = (num32 (take i A) + 2 ^ (32 * i) * unat c) div 2"
  using assms
proof (induction A i c rule: rshift_loop.induct)
  case (2 A i c)
  let ?w = "drop_bit 1 (A ! i) OR push_bit 31 c" and ?b = "A ! i AND 1"
  let ?A = "A[i := ?w]"
  have i: "i < length A" using "2.prems" by simp
  have b: "unat ?b = unat (A ! i) mod 2" by (simp add: and_one_eq unat_mod)
  have "drop_bit 1 (A ! i) AND push_bit 31 c = 0"
    by (intro bit_word_eqI) (auto simp: bit_simps not_le dest!: bit_imp_le_length)
  then have o: "?w = drop_bit 1 (A ! i) + push_bit 31 c" by (simp add: disjunctive_add_eq_or)
  have p: "unat (push_bit 31 c) = 2 ^ 31 * unat c"
    using "2.prems"(2) by (simp add: push_bit_eq_mult unat_word_ariths)
  have "unat (drop_bit 1 (A ! i)) = unat (A ! i) div 2" by (simp add: drop_bit_eq_div unat_div)
  then have w: "unat ?w = unat (A ! i) div 2 + 2 ^ 31 * unat c"
    using unat_u32_less [of "A ! i"] "2.prems"(2) unfolding o unat_word_ariths p by simp
  have ih: "length (rshift_loop ?A i ?b) = length A \<and> drop i (rshift_loop ?A i ?b) = drop i ?A \<and>
    num32 (take i (rshift_loop ?A i ?b)) = (num32 (take i A) + 2 ^ (32 * i) * unat ?b) div 2"
    using "2.IH" i b by simp
  define R where "R = rshift_loop ?A i ?b"
  have R: "length R = length A" "drop i R = ?w # drop (Suc i) A" "num32 (take i R) = (num32 (take i A) + 2 ^ (32 * i) * unat ?b) div 2"
    using ih i by (simp_all add: R_def drop_update_swap Cons_nth_drop_Suc [symmetric])
  have Ri: "R ! i = ?w" "drop (Suc i) R = drop (Suc i) A" using R(1,2) i by (simp_all add: Cons_nth_drop_Suc [symmetric])
  let ?B = "2 ^ (32 * i) :: nat" and ?q = "unat (A ! i) div 2" and ?r = "unat (A ! i) mod 2"
  have "num32 (take (Suc i) A) + 2 ^ (32 * Suc i) * unat c = (num32 (take i A) + ?B * ?r) + 2 * (?B * ?q + ?B * (2 ^ 31 * unat c))"
  proof -
    have "x = 2 * q + r \<Longrightarrow> y * x = 2 * (y * q) + y * r" for x y q r :: nat by (simp add: distrib_left)
    from this [of "unat (A ! i)" ?q ?r ?B] have "?B * unat (A ! i) = 2 * (?B * ?q) + ?B * ?r" by simp
    then show ?thesis using i by (simp add: num32_take_Suc power_add)
  qed
  then have "(num32 (take (Suc i) A) + 2 ^ (32 * Suc i) * unat c) div 2 =
      (num32 (take i A) + ?B * ?r) div 2 + (?B * ?q + ?B * (2 ^ 31 * unat c))"
    by (simp only: div_mult_self2 zero_neq_numeral [symmetric] not_False_eq_True)
  moreover have "num32 (take (Suc i) R) = num32 (take i R) + ?B * unat ?w"
    using R(1) Ri(1) i by (simp add: num32_take_Suc)
  ultimately have "num32 (take (Suc i) R) = (num32 (take (Suc i) A) + 2 ^ (32 * Suc i) * unat c) div 2"
    using R(3) b w by (simp add: distrib_left)
  then show ?case using R(1) Ri(2) by (simp add: R_def)
qed simp

lemma ecc_rshift_num:
  assumes "length A = 8"
  shows "length (ecc_rshift A) = 8" and "num32 (ecc_rshift A) = num32 A div 2"
proof -
  have l: "length (ecc_rshift A) = 8" and n: "num32 (take 8 (ecc_rshift A)) = num32 (take 8 A) div 2"
    using rshift_loop_num [of 8 A 0, folded ecc_rshift_def] assms by (auto simp del: take_all)
  from n show "num32 (ecc_rshift A) = num32 A div 2" by (simp add: l assms)
  show "length (ecc_rshift A) = 8" by (rule l)
qed

lemma ecc_isZero_num:
  assumes "length A = 8"
  shows "ecc_isZero A \<longleftrightarrow> num32 A = 0"
proof -
  have "num32 xs = 0 \<longleftrightarrow> (\<forall>x \<in> set xs. x = 0)" for xs by (induction xs) (auto simp: unat_eq_0)
  moreover have "ecc_isZero A \<longleftrightarrow> (\<forall>x \<in> set A. x = 0)"
  proof -
    have "length (filter P ns) = length ns \<longleftrightarrow> (\<forall>n \<in> set ns. P n)" for P and ns :: "nat list"
      by (induction ns) (auto, metis Suc_n_not_le_n length_filter_le)
    from this [of "\<lambda>n. A ! n = 0" "[0..<8]"] show ?thesis using assms by (auto simp: ecc_isZero_def all_set_conv_all_nth simp del: upt_rec_numeral)
  qed
  ultimately show ?thesis by simp
qed

lemma ecc_isOne_num:
  assumes "length A = 8"
  shows "ecc_isOne A \<longleftrightarrow> num32 A = 1"
proof -
  obtain x xs where A: "A = x # xs" "length xs = 7" using assms by (cases A) auto
  have z: "num32 ys = 0 \<longleftrightarrow> (\<forall>i < length ys. ys ! i = 0)" for ys :: ecc_words
    by (induction ys) (auto simp: unat_eq_0 less_Suc_eq_0_disj)
  have "list_all (\<lambda>n. A ! n = 0) [1..<8] \<longleftrightarrow> (\<forall>n \<in> {1..<8}. A ! n = 0)" by (simp add: list_all_iff del: upt_rec_numeral)
  also have "\<dots> \<longleftrightarrow> (\<forall>i \<in> {0..<7}. A ! Suc i = 0)"
    using image_Suc_atLeastLessThan [of 0 7] ball_simps(9) [of Suc "{0..<7}" "\<lambda>n. A ! n = 0"] by simp
  also have "\<dots> \<longleftrightarrow> (\<forall>i<7. xs ! i = 0)" by (simp add: A(1) Ball_def)
  also have "\<dots> \<longleftrightarrow> num32 xs = 0" by (simp add: z A(2))
  finally have "ecc_isOne A \<longleftrightarrow> num32 xs = 0 \<and> unat x = 1" by (simp add: ecc_isOne_def A(1) word_unat_eq_iff)
  moreover have "num32 A = 1 \<longleftrightarrow> num32 xs = 0 \<and> unat x = 1" unfolding A(1) num32.simps by (cases "num32 xs") auto
  ultimately show ?thesis by simp
qed

lemma ecc_isSame_num:
  "length A = n \<Longrightarrow> length B = n \<Longrightarrow> ecc_isSame A B n \<longleftrightarrow> num32 A = num32 B"
  by (simp add: ecc_isSame_def num32_eq_iff)

subsection \<open>Multiplication\<close>

lemma num32_update_zeros:
  "i < n \<Longrightarrow> num32 ((replicate n 0)[i := a]) = 2 ^ (32 * i) * unat a"
  by (induction n arbitrary: i) (auto simp: power_add less_Suc_eq_0_disj split: nat.splits)

lemma mult_step_num:
  assumes "length x = len" and "length y = len" and "length r = 2 * len" and "n < len" and "k < len"
  shows "length (mult_step x y len k n r) = 2 * len"
    and "num32 (mult_step x y len k n r) = (num32 r + 2 ^ (32 * (n + k)) * (unat (x ! n) * unat (y ! k))) mod 2 ^ (64 * len)"
proof -
  define l :: u64 where "l = ucast (x ! n) * ucast (y ! k)"
  define t :: ecc_words where "t = (replicate (2 * len) 0)[n + k := ucast (l AND 0xFFFFFFFF), n + k + 1 := ucast (drop_bit 32 l)]"
  let ?m = "2 * len - (n + k)"
  obtain s c where a: "ecc_add (drop (n + k) t) (drop (n + k) r) ?m = (s, c)" by fastforce
  have m: "mult_step x y len k n r = take (n + k) r @ s"
    using a by (simp add: mult_step_def l_def t_def Let_def)
  have i: "n + k + 1 < 2 * len" using assms by simp
  have u: "unat l = unat (x ! n) * unat (y ! k)"
  proof -
    have "unat (x ! n) * unat (y ! k) \<le> (2 ^ 32 - 1) * (2 ^ 32 - 1)"
      using unat_u32_less [of "x ! n"] unat_u32_less [of "y ! k"] by (intro mult_mono) simp_all
    then show ?thesis using unat_u32_less [of "x ! n"] unat_u32_less [of "y ! k"]
      by (simp add: l_def unat_word_ariths unsigned_ucast_eq take_bit_eq_mod)
  qed
  have lt: "length t = 2 * len" by (simp add: t_def)
  define p where "p = 2 * len - (n + k + 2)"
  have p: "2 * len = n + k + 2 + p" using i by (simp add: p_def)
  have d: "drop (n + k) t = ucast l # ucast (drop_bit 32 l) # replicate p 0"
  proof -
    have "replicate (2 * len) (0 :: u32) = replicate (n + k) 0 @ 0 # 0 # replicate p 0"
      using p replicate_add [of "n + k" "Suc (Suc p)" "0 :: u32"] by simp
    then have "t = replicate (n + k) 0 @ ucast l # ucast (drop_bit 32 l) # replicate p 0"
      by (simp add: t_def mask_low list_update_append)
    then show ?thesis by simp
  qed
  have e: "unat (ucast l :: u32) + 2 ^ 32 * unat (ucast (drop_bit 32 l) :: u32) = unat l"
  proof -
    have "unat l < 2 ^ 64" using unsigned_less [of l] by simp
    then have "unat l div 2 ^ 32 < 2 ^ 32" by (simp add: less_mult_imp_div_less)
    then show ?thesis unfolding low_word high_word by simp
  qed
  have nd: "num32 (drop (n + k) t) = unat l" using e by (simp add: d del: unsigned_ucast_eq)
  have s: "length s = ?m" "num32 s + 2 ^ (32 * ?m) * unat c = unat l + num32 (drop (n + k) r)"
    using ecc_add_num [OF _ _ a] lt assms(3) nd by simp_all
  show l2: "length (mult_step x y len k n r) = 2 * len" using s(1) i assms(3) by (simp add: m)
  have tk: "n + k \<le> length r" using i assms(3) by simp
  have "num32 (mult_step x y len k n r) = num32 (take (n + k) r) + 2 ^ (32 * (n + k)) * num32 s"
    using tk by (simp add: m num32_append min_absorb2)
  then have "num32 (mult_step x y len k n r) + 2 ^ (64 * len) * unat c =
      num32 (take (n + k) r) + 2 ^ (32 * (n + k)) * (num32 s + 2 ^ (32 * ?m) * unat c)"
  proof -
    have "64 * len = 32 * (n + k) + 32 * ?m" using i by simp
    then have "(2::nat) ^ (64 * len) = 2 ^ (32 * (n + k)) * 2 ^ (32 * ?m)" by (simp only: power_add)
    then show ?thesis using \<open>num32 (mult_step x y len k n r) = _\<close> by (simp only: distrib_left mult.assoc add.assoc)
  qed
  also have "\<dots> = num32 r + 2 ^ (32 * (n + k)) * unat l"
    unfolding s(2) num32_take_drop [OF tk] by (simp add: distrib_left)
  finally have "num32 r + 2 ^ (32 * (n + k)) * unat l = num32 (mult_step x y len k n r) + 2 ^ (64 * len) * unat c" by simp
  moreover have "num32 (mult_step x y len k n r) < 2 ^ (64 * len)"
    using num32_less [of "mult_step x y len k n r"] by (simp add: l2)
  ultimately show "num32 (mult_step x y len k n r) = (num32 r + 2 ^ (32 * (n + k)) * (unat (x ! n) * unat (y ! k))) mod 2 ^ (64 * len)"
    by (simp add: u)
qed

lemma mult_row_num:
  assumes "length x = len" and "length y = len" and "length r = 2 * len" and "k < len" and "n \<le> len"
    and "num32 r = num32 x * num32 (take k y)"
  shows "length (fold (mult_step x y len k) [0..<n] r) = 2 * len \<and>
    num32 (fold (mult_step x y len k) [0..<n] r) =
      num32 x * num32 (take k y) + 2 ^ (32 * k) * unat (y ! k) * num32 (take n x)"
  using assms(5)
proof (induction n)
  case (Suc n)
  let ?r = "fold (mult_step x y len k) [0..<n] r"
  have ih: "length ?r = 2 * len" "num32 ?r = num32 x * num32 (take k y) + 2 ^ (32 * k) * unat (y ! k) * num32 (take n x)"
    using Suc by simp_all
  let ?v = "num32 x * num32 (take k y) + 2 ^ (32 * k) * unat (y ! k) * num32 (take (Suc n) x)"
  have v: "num32 ?r + 2 ^ (32 * (n + k)) * (unat (x ! n) * unat (y ! k)) = ?v"
    using Suc.prems assms(1) by (simp add: ih(2) num32_take_Suc power_add distrib_left)
  have "?v \<le> num32 x * num32 (take k y) + 2 ^ (32 * k) * unat (y ! k) * num32 x"
    by (intro add_mono mult_mono num32_take_le) simp_all
  also have "\<dots> = num32 x * num32 (take (Suc k) y)"
    using assms(2,4) by (simp add: num32_take_Suc distrib_left)
  also have "\<dots> < 2 ^ (32 * len) * 2 ^ (32 * len)"
  proof (rule mult_strict_mono')
    show "num32 x < 2 ^ (32 * len)" using num32_less [of x] assms(1) by simp
    show "num32 (take (Suc k) y) < 2 ^ (32 * len)"
      using num32_less [of y] num32_take_le [of "Suc k" y] assms(2) by (metis le_less_trans)
  qed simp_all
  also have "\<dots> = 2 ^ (64 * len)" by (simp flip: power_add)
  finally have "?v < 2 ^ (64 * len)" .
  then show ?case using mult_step_num [OF assms(1,2) ih(1), of n k] Suc.prems assms(4) v by simp
qed (use assms in simp)

lemma fieldMult_num:
  assumes "length x = len" and "length y = len"
  shows "length (fieldMult x y len) = 2 * len" and "num32 (fieldMult x y len) = num32 x * num32 y"
proof -
  let ?f = "\<lambda>k. fold (\<lambda>k. fold (mult_step x y len k) [0..<len]) [0..<k] (replicate (2 * len) 0)"
  have "k \<le> len \<Longrightarrow> length (?f k) = 2 * len \<and> num32 (?f k) = num32 x * num32 (take k y)" for k
  proof (induction k)
    case (Suc k)
    then have "length (?f (Suc k)) = 2 * len \<and>
      num32 (?f (Suc k)) = num32 x * num32 (take k y) + 2 ^ (32 * k) * unat (y ! k) * num32 (take len x)"
      using mult_row_num [OF assms, of "?f k" k len] by simp
    then show ?case using Suc.prems assms by (simp add: num32_take_Suc distrib_left)
  qed simp
  from this [of len] show "length (fieldMult x y len) = 2 * len" and "num32 (fieldMult x y len) = num32 x * num32 y"
    using assms(2) by (simp_all add: fieldMult_def)
qed

end
