(* ===== verification/P256Field.thy ===== *)
theory P256Field
  imports BigNum
begin

text \<open>
  Arithmetic modulo the prime and modulo the group order of secp256r1, from \<open>ecc/ecc.c\<close>: \<open>fieldAdd\<close>,
  \<open>fieldSub\<close>, the reduction \<open>fieldModP\<close> by word shuffling, and the Barrett reduction \<open>fieldModO\<close>. The
  theory proves what each computes and where \<open>fieldModP\<close> fails.
\<close>

subsection \<open>Constants\<close>

definition ecc_prime_m :: ecc_words where
  "ecc_prime_m = [0xffffffff, 0xffffffff, 0xffffffff, 0x00000000, 0x00000000, 0x00000000, 0x00000001, 0xffffffff]"

definition ecc_prime_r :: ecc_words where
  "ecc_prime_r = [0x00000001, 0x00000000, 0x00000000, 0xffffffff, 0xffffffff, 0xffffffff, 0xfffffffe, 0x00000000]"

definition ecc_order_m :: ecc_words where
  "ecc_order_m = [0xFC632551, 0xF3B9CAC2, 0xA7179E84, 0xBCE6FAAD, 0xFFFFFFFF, 0xFFFFFFFF, 0x00000000, 0xFFFFFFFF, 0x00000000]"

definition ecc_order_r :: ecc_words where
  "ecc_order_r = [0x039CDAAF, 0x0C46353D, 0x58E8617B, 0x43190552, 0x00000000, 0x00000000, 0xFFFFFFFF, 0x00000000]"

definition ecc_order_mu :: ecc_words where
  "ecc_order_mu = [0xEEDF9BFE, 0x012FFD85, 0xDF1A6C21, 0x43190552, 0xFFFFFFFF, 0xFFFFFFFE, 0xFFFFFFFF, 0x00000000, 0x00000001]"

definition ecc_order_k :: nat where
  "ecc_order_k = 8"

subsection \<open>Operations\<close>

definition fieldAdd :: "ecc_words \<Rightarrow> ecc_words \<Rightarrow> ecc_words \<Rightarrow> ecc_words" where
  "fieldAdd x y reducer =
     (let (result, carry) = ecc_add x y 8 in if carry \<noteq> 0 then fst (ecc_add result reducer 8) else result)"

definition fieldSub :: "ecc_words \<Rightarrow> ecc_words \<Rightarrow> ecc_words \<Rightarrow> ecc_words" where
  "fieldSub x y modulus =
     (let (result, carry) = ecc_sub x y 8 in if carry \<noteq> 0 then fst (ecc_add result modulus 8) else result)"

definition fieldModP :: "ecc_words \<Rightarrow> ecc_words" where
  "fieldModP B =
     (let A = take 8 B;
          tempm = [0, 0, 0, B ! 11, B ! 12, B ! 13, B ! 14, B ! 15];
          tempm2 = fieldAdd A tempm ecc_prime_r;
          A = fieldAdd tempm2 tempm ecc_prime_r;
          tempm = [0, 0, 0, B ! 12, B ! 13, B ! 14, B ! 15, 0];
          tempm2 = fieldAdd A tempm ecc_prime_r;
          A = fieldAdd tempm2 tempm ecc_prime_r;
          tempm = [B ! 8, B ! 9, B ! 10, 0, 0, 0, B ! 14, B ! 15];
          tempm2 = fieldAdd A tempm ecc_prime_r;
          tempm = [B ! 9, B ! 10, B ! 11, B ! 13, B ! 14, B ! 15, B ! 13, B ! 8];
          A = fieldAdd tempm2 tempm ecc_prime_r;
          tempm = [B ! 11, B ! 12, B ! 13, 0, 0, 0, B ! 8, B ! 10];
          tempm2 = fieldSub A tempm ecc_prime_m;
          tempm = [B ! 12, B ! 13, B ! 14, B ! 15, 0, 0, B ! 9, B ! 11];
          A = fieldSub tempm2 tempm ecc_prime_m;
          tempm = [B ! 13, B ! 14, B ! 15, B ! 8, B ! 9, B ! 10, 0, B ! 12];
          tempm2 = fieldSub A tempm ecc_prime_m;
          tempm = [B ! 14, B ! 15, 0, B ! 9, B ! 10, B ! 11, 0, B ! 13];
          A = fieldSub tempm2 tempm ecc_prime_m
      in if ecc_isGreater A ecc_prime_m 8 \<ge> 0 then fieldSub A ecc_prime_m ecc_prime_m else A)"

text \<open>The last loop of \<open>fieldModO\<close>; \<open>None\<close> would be a loop that does not end.\<close>

partial_function (option) modO_loop :: "ecc_words \<Rightarrow> ecc_words option" where
  "modO_loop result =
     (if ecc_isGreater result ecc_order_m 9 \<ge> 0 then modO_loop (fst (ecc_sub result ecc_order_m 9)) else Some result)"

text \<open>\<open>A\<close> may be the same array as \<open>result\<close>. The reduction reads 9 words of \<open>A\<close> whatever \<open>length\<close> is.\<close>

definition fieldModO :: "ecc_words \<Rightarrow> ecc_words \<Rightarrow> nat \<Rightarrow> ecc_words option" where
  "fieldModO A result len =
     (if len = 8 \<and> ecc_isGreater A ecc_order_m 8 \<le> 0 then Some (take len A @ drop len result)
      else
        let q1_q3 = rshiftby A len 9 (ecc_order_k - 1);
            q2_tmp = fieldMult ecc_order_mu q1_q3 9;
            q1_q3 = rshiftby q2_tmp 18 8 (ecc_order_k + 1);
            q2_tmp = fieldMult q1_q3 (take 8 ecc_order_m) 8;
            r = fst (ecc_sub A q2_tmp 9)
        in map_option (\<lambda>r. r @ drop 9 result) (modO_loop r))"

subsection \<open>Addition and subtraction modulo the prime\<close>

definition p256 :: int where
  "p256 = 0xFFFFFFFF00000001000000000000000000000000FFFFFFFFFFFFFFFFFFFFFFFF"

definition n256 :: nat where
  "n256 = 0xFFFFFFFF00000000FFFFFFFFFFFFFFFFBCE6FAADA7179E84F3B9CAC2FC632551"

lemma num32_constants:
  "int (num32 ecc_prime_m) = p256" "int (num32 ecc_prime_r) = 2 ^ 256 - p256" "num32 ecc_order_m = n256"
  "num32 ecc_order_r = 2 ^ 256 - n256" "num32 ecc_order_mu = 2 ^ 512 div n256"
  "length ecc_prime_m = 8" "length ecc_prime_r = 8" "length ecc_order_m = 9" "length ecc_order_r = 8" "length ecc_order_mu = 9"
  by (simp_all add: ecc_prime_m_def ecc_prime_r_def ecc_order_m_def ecc_order_r_def ecc_order_mu_def p256_def n256_def)

lemma p256_bounds: "0 < p256" "p256 < 2 ^ 256" "2 ^ 256 < 2 * p256"
  by (simp_all add: p256_def)

text \<open>The values the two operations compute, whatever their operands.\<close>

definition add_value :: "nat \<Rightarrow> nat \<Rightarrow> nat \<Rightarrow> nat" where
  "add_value x y r = (if x + y < 2 ^ 256 then x + y else (x + y - 2 ^ 256 + r) mod 2 ^ 256)"

definition sub_value :: "nat \<Rightarrow> nat \<Rightarrow> nat \<Rightarrow> nat" where
  "sub_value x y m = (if y \<le> x then x - y else (2 ^ 256 + x - y + m) mod 2 ^ 256)"

lemma ecc_add_8:
  assumes "length x = 8" and "8 \<le> length y"
  obtains s c where "ecc_add x y 8 = (s, c)" and "length s = 8" and "num32 s = (num32 x + num32 (take 8 y)) mod 2 ^ 256"
    and "c \<noteq> 0 \<longleftrightarrow> 2 ^ 256 \<le> num32 x + num32 (take 8 y)"
proof -
  obtain s c where s: "ecc_add x y 8 = (s, c)" by fastforce
  have a: "length s = 8" "unat c \<le> 1" "num32 s + 2 ^ 256 * unat c = num32 x + num32 (take 8 y)"
    using ecc_add_num [OF _ _ s] assms by simp_all
  have l: "num32 s < 2 ^ 256" using num32_less [of s] a(1) by simp
  have "unat c = (if c = 0 then 0 else 1)" using a(2) unat_eq_0 [of c] by auto
  then have "num32 s + (if c = 0 then 0 else 2 ^ 256) = num32 x + num32 (take 8 y)" using a(3) by (cases "c = 0") simp_all
  moreover have "num32 s = (num32 x + num32 (take 8 y)) mod 2 ^ 256"
    using l a(3) by (metis mod_less mod_mult_self2)
  ultimately show ?thesis using that [OF s a(1)] l by (cases "c = 0") auto
qed

lemma fieldAdd_value:
  assumes "length x = 8" and "length y = 8" and "length r = 8"
  shows "length (fieldAdd x y r) = 8" and "num32 (fieldAdd x y r) = add_value (num32 x) (num32 y) (num32 r)"
proof -
  obtain s c where s: "ecc_add x y 8 = (s, c)" "length s = 8" "num32 s = (num32 x + num32 (take 8 y)) mod 2 ^ 256"
    "c \<noteq> 0 \<longleftrightarrow> 2 ^ 256 \<le> num32 x + num32 (take 8 y)" by (rule ecc_add_8 [of x y]) (use assms in simp_all)
  obtain t d where t: "ecc_add s r 8 = (t, d)" "length t = 8" "num32 t = (num32 s + num32 (take 8 r)) mod 2 ^ 256"
    by (rule ecc_add_8 [of s r]) (use assms s in simp_all)
  show "length (fieldAdd x y r) = 8" using s t by (simp add: fieldAdd_def)
  have "num32 x < 2 ^ 256" "num32 y < 2 ^ 256" using num32_less [of x] num32_less [of y] assms by simp_all
  then show "num32 (fieldAdd x y r) = add_value (num32 x) (num32 y) (num32 r)"
    using s t assms by (auto simp: fieldAdd_def add_value_def le_mod_geq)
qed

lemma fieldSub_value:
  assumes "length x = 8" and "length y = 8" and "8 \<le> length r"
  shows "length (fieldSub x y r) = 8" and "num32 (fieldSub x y r) = sub_value (num32 x) (num32 y) (num32 (take 8 r))"
proof -
  obtain s c where s: "ecc_sub x y 8 = (s, c)" by fastforce
  have a: "length s = 8" "unat c \<le> 1" "num32 s + num32 y = num32 x + 2 ^ 256 * unat c"
    using ecc_sub_num [OF _ _ s] assms by simp_all
  obtain t d where t: "ecc_add s r 8 = (t, d)" "length t = 8" "num32 t = (num32 s + num32 (take 8 r)) mod 2 ^ 256"
    by (rule ecc_add_8 [of s r]) (use assms a in simp_all)
  show "length (fieldSub x y r) = 8" using a(1) s t by (simp add: fieldSub_def)
  have l: "num32 s < 2 ^ 256" "num32 y < 2 ^ 256" using num32_less [of s] num32_less [of y] a(1) assms by simp_all
  have "unat c = (if c = 0 then 0 else 1)" using a(2) unat_eq_0 [of c] by auto
  then have e: "num32 s + num32 y = num32 x + (if c = 0 then 0 else 2 ^ 256)" using a(3) by (cases "c = 0") simp_all
  show "num32 (fieldSub x y r) = sub_value (num32 x) (num32 y) (num32 (take 8 r))"
  proof (cases "c = 0")
    case True
    then show ?thesis using e s by (simp add: fieldSub_def sub_value_def)
  next
    case False
    then have "num32 s = 2 ^ 256 + num32 x - num32 y" "\<not> num32 y \<le> num32 x" using e l by simp_all
    then show ?thesis using False s t by (simp add: fieldSub_def sub_value_def)
  qed
qed

text \<open>Modulo \<open>m\<close>, both are right if the second operand is at most \<open>m\<close>.\<close>

lemma fieldAdd_num:
  assumes "length x = 8" and "length y = 8" and "length r = 8" and "int (num32 r) = 2 ^ 256 - m"
    and "int (num32 y) \<le> m" and "0 < m"
  shows "length (fieldAdd x y r) = 8" and "int (num32 (fieldAdd x y r)) mod m = (int (num32 x) + int (num32 y)) mod m"
proof -
  show "length (fieldAdd x y r) = 8" using assms by (simp add: fieldAdd_value)
  have x: "num32 x < 2 ^ 256" using num32_less [of x] assms(1) by simp
  show "int (num32 (fieldAdd x y r)) mod m = (int (num32 x) + int (num32 y)) mod m"
  proof (cases "num32 x + num32 y < 2 ^ 256")
    case True
    then show ?thesis using assms by (simp add: fieldAdd_value add_value_def)
  next
    case False
    let ?v = "num32 x + num32 y - 2 ^ 256 + num32 r"
    have v: "int ?v = int (num32 x) + int (num32 y) - m" using False assms(4) by (simp add: of_nat_diff)
    then have "?v < 2 ^ 256" using x assms(5) by linarith
    then have "int (num32 (fieldAdd x y r)) = int (num32 x) + int (num32 y) - m"
      using False v assms(1-3) by (simp add: fieldAdd_value add_value_def)
    then show ?thesis by simp
  qed
qed

lemma fieldSub_num:
  assumes "length x = 8" and "length y = 8" and "8 \<le> length r" and "int (num32 (take 8 r)) = m"
    and "int (num32 y) \<le> m" and "0 < m"
  shows "length (fieldSub x y r) = 8" and "int (num32 (fieldSub x y r)) mod m = (int (num32 x) - int (num32 y)) mod m"
    and "int (num32 x) < m \<Longrightarrow> int (num32 (fieldSub x y r)) < m"
proof -
  show "length (fieldSub x y r) = 8" using assms by (simp add: fieldSub_value)
  have m: "m < 2 ^ 256" using num32_less [of "take 8 r"] assms(3,4) by simp
  have v: "int (num32 (fieldSub x y r)) = int (num32 x) - int (num32 y) + (if num32 y \<le> num32 x then 0 else m)"
  proof (cases "num32 y \<le> num32 x")
    case True
    then show ?thesis using assms by (simp add: fieldSub_value sub_value_def)
  next
    case False
    define w where "w = nat (int (num32 x) - int (num32 y) + m)"
    have w: "int w = int (num32 x) - int (num32 y) + m" using assms(5) by (simp add: w_def)
    have "num32 y < 2 ^ 256" using num32_less [of y] assms(2) by simp
    then have "2 ^ 256 + num32 x - num32 y + num32 (take 8 r) = 2 ^ 256 + w" using w assms(4) by simp
    moreover have "w < 2 ^ 256" using w False m by simp
    ultimately have "num32 (fieldSub x y r) = w"
      using False assms(1-3) by (simp add: fieldSub_value sub_value_def)
    then show ?thesis using False w by simp
  qed
  show "int (num32 (fieldSub x y r)) mod m = (int (num32 x) - int (num32 y)) mod m" by (simp add: v)
  show "int (num32 (fieldSub x y r)) < m" if "int (num32 x) < m" using that by (auto simp: v)
qed

subsection \<open>Reduction modulo the prime\<close>

text \<open>An addition of \<open>fieldModP\<close> may carry twice, and a subtraction borrow twice, when the second operand
  is not below the prime. That needs a top word with all bits set.\<close>

definition reducible :: "ecc_words \<Rightarrow> bool" where
  "reducible B \<longleftrightarrow> list_all (\<lambda>i. B ! i \<noteq> 0xffffffff) [8, 10, 11, 12, 13, 15]"

abbreviation ival :: "ecc_words \<Rightarrow> int" where
  "ival x \<equiv> int (num32 x)"

lemma top_word_bound: "length y = 7 \<Longrightarrow> w \<noteq> 0xffffffff \<Longrightarrow> ival (y @ [w]) \<le> p256"
proof -
  assume y: "length y = 7" and w: "w \<noteq> 0xffffffff"
  have "unat w \<noteq> 2 ^ 32 - 1"
  proof
    assume "unat w = 2 ^ 32 - 1"
    then have "unat w = unat (0xffffffff :: u32)" by simp
    then show False using w by (simp only: word_unat_eq_iff)
  qed
  then have "unat w \<le> 2 ^ 32 - 2" using unat_u32_less [of w] by simp
  then have "num32 (y @ [w]) \<le> 2 ^ 224 + 2 ^ 224 * (2 ^ 32 - 2)"
    using num32_less [of y] y unfolding num32_append by (intro add_mono) simp_all
  also have "\<dots> \<le> nat p256" by (simp add: p256_def)
  finally show ?thesis using p256_bounds(1) by simp
qed

lemma addP:
  assumes "length y = 8" and "ival y \<le> p256" and "length x = 8 \<and> ival x mod p256 = S mod p256"
  shows "length (fieldAdd x y ecc_prime_r) = 8 \<and> ival (fieldAdd x y ecc_prime_r) mod p256 = (S + ival y) mod p256"
proof -
  have "length (fieldAdd x y ecc_prime_r) = 8" "ival (fieldAdd x y ecc_prime_r) mod p256 = (ival x + ival y) mod p256"
    by (rule fieldAdd_num [OF conjunct1 [OF assms(3)] assms(1) num32_constants(7,2) assms(2) p256_bounds(1)])+
  moreover have "(ival x + ival y) mod p256 = (S + ival y) mod p256" using assms(3) by (intro mod_add_cong) simp_all
  ultimately show ?thesis by (simp only: simp_thms)
qed

lemma subP:
  assumes "length y = 8" and "ival y \<le> p256" and "length x = 8 \<and> ival x mod p256 = S mod p256"
  shows "length (fieldSub x y ecc_prime_m) = 8 \<and> ival (fieldSub x y ecc_prime_m) mod p256 = (S - ival y) mod p256"
proof -
  have "length (fieldSub x y ecc_prime_m) = 8" "ival (fieldSub x y ecc_prime_m) mod p256 = (ival x - ival y) mod p256"
    using fieldSub_num [OF conjunct1 [OF assms(3)] assms(1) _ _ assms(2) p256_bounds(1), of ecc_prime_m] num32_constants(1,6) by simp_all
  moreover have "(ival x - ival y) mod p256 = (S - ival y) mod p256" using assms(3) by (intro mod_diff_cong) simp_all
  ultimately show ?thesis by (simp only: simp_thms)
qed

lemma finalP:
  assumes "length x = 8 \<and> ival x mod p256 = S mod p256"
  shows "length (if ecc_isGreater x ecc_prime_m 8 \<ge> 0 then fieldSub x ecc_prime_m ecc_prime_m else x) = 8"
    and "ival (if ecc_isGreater x ecc_prime_m 8 \<ge> 0 then fieldSub x ecc_prime_m ecc_prime_m else x) = S mod p256"
proof -
  have x: "length x = 8" "ival x mod p256 = S mod p256" using assms by simp_all
  have g: "ecc_isGreater x ecc_prime_m 8 \<ge> 0 \<longleftrightarrow> p256 \<le> ival x"
    using ecc_isGreater_num [of x 8 ecc_prime_m] x(1) num32_constants(1,6) by auto
  have b: "ival x < 2 * p256" using num32_less [of x] x(1) p256_bounds(3) by simp
  show "length (if ecc_isGreater x ecc_prime_m 8 \<ge> 0 then fieldSub x ecc_prime_m ecc_prime_m else x) = 8"
    using fieldSub_num(1) [of x ecc_prime_m ecc_prime_m p256] x num32_constants(1,6) p256_bounds(1) by simp
  show "ival (if ecc_isGreater x ecc_prime_m 8 \<ge> 0 then fieldSub x ecc_prime_m ecc_prime_m else x) = S mod p256"
  proof (cases "p256 \<le> ival x")
    case True
    have v: "ecc_sub x ecc_prime_m 8 = (s, c) \<Longrightarrow> length s = 8 \<and> unat c = 0 \<and> ival s = ival x - p256" for s c
    proof -
      assume s: "ecc_sub x ecc_prime_m 8 = (s, c)"
      have a: "length s = 8" "unat c \<le> 1" "num32 s + num32 ecc_prime_m = num32 x + 2 ^ 256 * unat c"
        using ecc_sub_num [OF _ _ s] x(1) num32_constants(6) by simp_all
      have "num32 s < 2 ^ 256" using num32_less [of s] a(1) by simp
      moreover have "num32 ecc_prime_m \<le> num32 x" using True num32_constants(1) by simp
      ultimately have "unat c = 0" using a(2,3) by (cases "unat c = 0") auto
      then show ?thesis using a num32_constants(1) by simp
    qed
    then have "ival (fieldSub x ecc_prime_m ecc_prime_m) = ival x - p256"
      by (auto simp: fieldSub_def unat_eq_0 split: prod.splits)
    moreover have "ival x - p256 = (ival x - p256) mod p256" using True b by (intro mod_pos_pos_trivial [symmetric]) simp_all
    ultimately show ?thesis using g True x(2) by simp
  next
    case False
    then show ?thesis using g x(2) by (simp add: mod_pos_pos_trivial [symmetric])
  qed
qed

text \<open>The identity behind the shuffling: what \<open>fieldModP\<close> adds up differs from \<open>B\<close> by a multiple of the
  prime.\<close>

lemma shuffle:
  "ival [b0, b1, b2, b3, b4, b5, b6, b7, b8, b9, b10, b11, b12, b13, b14, b15] =
    ival [b0, b1, b2, b3, b4, b5, b6, b7]
    + ival [0, 0, 0, b11, b12, b13, b14, b15] + ival [0, 0, 0, b11, b12, b13, b14, b15]
    + ival [0, 0, 0, b12, b13, b14, b15, 0] + ival [0, 0, 0, b12, b13, b14, b15, 0]
    + ival [b8, b9, b10, 0, 0, 0, b14, b15] + ival [b9, b10, b11, b13, b14, b15, b13, b8]
    - ival [b11, b12, b13, 0, 0, 0, b8, b10] - ival [b12, b13, b14, b15, 0, 0, b9, b11]
    - ival [b13, b14, b15, b8, b9, b10, 0, b12] - ival [b14, b15, 0, b9, b10, b11, 0, b13]
    + p256 * (int (unat b8) + 4294967297 * int (unat b9) + 18446744078004518912 * int (unat b10)
      + 79228162532711081667253501951 * int (unat b11) + 340282367000166625977638945021017194495 * int (unat b12)
      + 1461501637671185285124623296161210883009696235519 * int (unat b13)
      + 6277101736848182401166692341332123086285927382448418586623 * int (unat b14)
      + 26959946673427741530053695850515137729844644212646842236464328081408 * int (unat b15))"
  unfolding p256_def by simp

definition modP_sum :: "ecc_words \<Rightarrow> ecc_words" where
  "modP_sum B = fieldSub (fieldSub (fieldSub (fieldSub (fieldAdd (fieldAdd (fieldAdd (fieldAdd (fieldAdd (fieldAdd
      (take 8 B)
      [0, 0, 0, B ! 11, B ! 12, B ! 13, B ! 14, B ! 15] ecc_prime_r) [0, 0, 0, B ! 11, B ! 12, B ! 13, B ! 14, B ! 15] ecc_prime_r)
      [0, 0, 0, B ! 12, B ! 13, B ! 14, B ! 15, 0] ecc_prime_r) [0, 0, 0, B ! 12, B ! 13, B ! 14, B ! 15, 0] ecc_prime_r)
      [B ! 8, B ! 9, B ! 10, 0, 0, 0, B ! 14, B ! 15] ecc_prime_r) [B ! 9, B ! 10, B ! 11, B ! 13, B ! 14, B ! 15, B ! 13, B ! 8] ecc_prime_r)
      [B ! 11, B ! 12, B ! 13, 0, 0, 0, B ! 8, B ! 10] ecc_prime_m) [B ! 12, B ! 13, B ! 14, B ! 15, 0, 0, B ! 9, B ! 11] ecc_prime_m)
      [B ! 13, B ! 14, B ! 15, B ! 8, B ! 9, B ! 10, 0, B ! 12] ecc_prime_m) [B ! 14, B ! 15, 0, B ! 9, B ! 10, B ! 11, 0, B ! 13] ecc_prime_m"

lemma fieldModP_sum:
  "fieldModP B = (if ecc_isGreater (modP_sum B) ecc_prime_m 8 \<ge> 0 then fieldSub (modP_sum B) ecc_prime_m ecc_prime_m else modP_sum B)"
  by (simp only: fieldModP_def modP_sum_def Let_def)

lemma list_16:
  assumes "length (B :: ecc_words) = 16"
  obtains b0 b1 b2 b3 b4 b5 b6 b7 b8 b9 b10 b11 b12 b13 b14 b15
    where "B = [b0, b1, b2, b3, b4, b5, b6, b7, b8, b9, b10, b11, b12, b13, b14, b15]"
proof -
  have u: "[0..<16] = [0, 1, 2, 3, 4, 5, 6, 7, 8, 9, 10, 11, 12, 13, 14, 15 :: nat]" by code_simp
  have "map (nth B) [0..<length B] = B" by (rule map_nth)
  then have "[B ! 0, B ! 1, B ! 2, B ! 3, B ! 4, B ! 5, B ! 6, B ! 7, B ! 8, B ! 9, B ! 10, B ! 11, B ! 12, B ! 13, B ! 14, B ! 15] = B"
    unfolding assms(1) u list.map .
  then show ?thesis using that by metis
qed

lemma fieldModP_num:
  assumes "length B = 16" and "reducible B"
  shows "length (fieldModP B) = 8" and "ival (fieldModP B) = ival B mod p256"
proof -
  obtain b0 b1 b2 b3 b4 b5 b6 b7 b8 b9 b10 b11 b12 b13 b14 b15
    where B: "B = [b0, b1, b2, b3, b4, b5, b6, b7, b8, b9, b10, b11, b12, b13, b14, b15]"
    using list_16 [OF assms(1)] .
  have w: "b8 \<noteq> 0xffffffff" "b10 \<noteq> 0xffffffff" "b11 \<noteq> 0xffffffff" "b12 \<noteq> 0xffffffff" "b13 \<noteq> 0xffffffff" "b15 \<noteq> 0xffffffff"
    using assms(2) by (simp_all add: reducible_def B)
  note t = top_word_bound [of "[x0, x1, x2, x3, x4, x5, x6]" for x0 x1 x2 x3 x4 x5 x6, simplified append.simps]
  define S where "S = ival [b0, b1, b2, b3, b4, b5, b6, b7]
    + ival [0, 0, 0, b11, b12, b13, b14, b15] + ival [0, 0, 0, b11, b12, b13, b14, b15]
    + ival [0, 0, 0, b12, b13, b14, b15, 0] + ival [0, 0, 0, b12, b13, b14, b15, 0]
    + ival [b8, b9, b10, 0, 0, 0, b14, b15] + ival [b9, b10, b11, b13, b14, b15, b13, b8]
    - ival [b11, b12, b13, 0, 0, 0, b8, b10] - ival [b12, b13, b14, b15, 0, 0, b9, b11]
    - ival [b13, b14, b15, b8, b9, b10, 0, b12] - ival [b14, b15, 0, b9, b10, b11, 0, b13]"
  have M: "modP_sum B = fieldSub (fieldSub (fieldSub (fieldSub (fieldAdd (fieldAdd (fieldAdd (fieldAdd (fieldAdd (fieldAdd
      [b0, b1, b2, b3, b4, b5, b6, b7]
      [0, 0, 0, b11, b12, b13, b14, b15] ecc_prime_r) [0, 0, 0, b11, b12, b13, b14, b15] ecc_prime_r)
      [0, 0, 0, b12, b13, b14, b15, 0] ecc_prime_r) [0, 0, 0, b12, b13, b14, b15, 0] ecc_prime_r)
      [b8, b9, b10, 0, 0, 0, b14, b15] ecc_prime_r) [b9, b10, b11, b13, b14, b15, b13, b8] ecc_prime_r)
      [b11, b12, b13, 0, 0, 0, b8, b10] ecc_prime_m) [b12, b13, b14, b15, 0, 0, b9, b11] ecc_prime_m)
      [b13, b14, b15, b8, b9, b10, 0, b12] ecc_prime_m) [b14, b15, 0, b9, b10, b11, 0, b13] ecc_prime_m"
    by (simp add: modP_sum_def B)
  have A: "length (modP_sum B) = 8 \<and> ival (modP_sum B) mod p256 = S mod p256"
    unfolding M S_def by (intro addP subP t w conjI refl; simp)
  have "ival B mod p256 = S mod p256" unfolding B shuffle S_def [symmetric] by simp
  then show "length (fieldModP B) = 8" and "ival (fieldModP B) = ival B mod p256"
    unfolding fieldModP_sum using finalP [OF A] by simp_all
qed

text \<open>Without the condition the reduction is wrong, also for the product of two field elements.\<close>

definition bad_x :: ecc_words where
  "bad_x = [0, 0, 0, 1, 0xffffffff, 0xffffffff, 0, 0xffffffff]"

definition bad_y :: ecc_words where
  "bad_y = [0, 0, 0, 0, 1, 0, 0, 0]"

definition modP_value :: "ecc_words \<Rightarrow> nat" where
  "modP_value B =
     (let s1 = num32 [0, 0, 0, B ! 11, B ! 12, B ! 13, B ! 14, B ! 15]; s2 = num32 [0, 0, 0, B ! 12, B ! 13, B ! 14, B ! 15, 0];
          r = num32 ecc_prime_r; m = num32 ecc_prime_m;
          a = add_value (add_value (num32 (take 8 B)) s1 r) s1 r;
          a = add_value (add_value a s2 r) s2 r;
          a = add_value a (num32 [B ! 8, B ! 9, B ! 10, 0, 0, 0, B ! 14, B ! 15]) r;
          a = add_value a (num32 [B ! 9, B ! 10, B ! 11, B ! 13, B ! 14, B ! 15, B ! 13, B ! 8]) r;
          a = sub_value a (num32 [B ! 11, B ! 12, B ! 13, 0, 0, 0, B ! 8, B ! 10]) m;
          a = sub_value a (num32 [B ! 12, B ! 13, B ! 14, B ! 15, 0, 0, B ! 9, B ! 11]) m;
          a = sub_value a (num32 [B ! 13, B ! 14, B ! 15, B ! 8, B ! 9, B ! 10, 0, B ! 12]) m;
          a = sub_value a (num32 [B ! 14, B ! 15, 0, B ! 9, B ! 10, B ! 11, 0, B ! 13]) m
      in if m \<le> a then sub_value a m m else a)"

lemma addV:
  "length y = 8 \<Longrightarrow> length x = 8 \<and> num32 x = a \<Longrightarrow>
   length (fieldAdd x y ecc_prime_r) = 8 \<and> num32 (fieldAdd x y ecc_prime_r) = add_value a (num32 y) (num32 ecc_prime_r)"
  using fieldAdd_value [of x y ecc_prime_r] num32_constants(7) by simp

lemma subV:
  "length y = 8 \<Longrightarrow> length x = 8 \<and> num32 x = a \<Longrightarrow>
   length (fieldSub x y ecc_prime_m) = 8 \<and> num32 (fieldSub x y ecc_prime_m) = sub_value a (num32 y) (num32 ecc_prime_m)"
  using fieldSub_value [of x y ecc_prime_m] num32_constants(6) by simp

lemma fieldModP_value:
  assumes "length B = 16"
  shows "num32 (fieldModP B) = modP_value B"
proof -
  define a where "a = sub_value (sub_value (sub_value (sub_value (add_value (add_value (add_value (add_value (add_value (add_value
      (num32 (take 8 B))
      (num32 [0, 0, 0, B ! 11, B ! 12, B ! 13, B ! 14, B ! 15]) (num32 ecc_prime_r)) (num32 [0, 0, 0, B ! 11, B ! 12, B ! 13, B ! 14, B ! 15]) (num32 ecc_prime_r))
      (num32 [0, 0, 0, B ! 12, B ! 13, B ! 14, B ! 15, 0]) (num32 ecc_prime_r)) (num32 [0, 0, 0, B ! 12, B ! 13, B ! 14, B ! 15, 0]) (num32 ecc_prime_r))
      (num32 [B ! 8, B ! 9, B ! 10, 0, 0, 0, B ! 14, B ! 15]) (num32 ecc_prime_r)) (num32 [B ! 9, B ! 10, B ! 11, B ! 13, B ! 14, B ! 15, B ! 13, B ! 8]) (num32 ecc_prime_r))
      (num32 [B ! 11, B ! 12, B ! 13, 0, 0, 0, B ! 8, B ! 10]) (num32 ecc_prime_m)) (num32 [B ! 12, B ! 13, B ! 14, B ! 15, 0, 0, B ! 9, B ! 11]) (num32 ecc_prime_m))
      (num32 [B ! 13, B ! 14, B ! 15, B ! 8, B ! 9, B ! 10, 0, B ! 12]) (num32 ecc_prime_m)) (num32 [B ! 14, B ! 15, 0, B ! 9, B ! 10, B ! 11, 0, B ! 13]) (num32 ecc_prime_m)"
  have l: "length [a0, a1, a2, a3, a4, a5, a6, a7] = 8" for a0 a1 a2 a3 a4 a5 a6 a7 :: u32 by simp
  have A: "length (modP_sum B) = 8 \<and> num32 (modP_sum B) = a"
    unfolding modP_sum_def a_def by (intro addV subV l conjI refl) (use assms in simp)
  have g: "ecc_isGreater (modP_sum B) ecc_prime_m 8 \<ge> 0 \<longleftrightarrow> num32 ecc_prime_m \<le> a"
    using ecc_isGreater_num [of "modP_sum B" 8 ecc_prime_m] num32_constants(6) A by auto
  have "num32 (fieldSub (modP_sum B) ecc_prime_m ecc_prime_m) = sub_value a (num32 ecc_prime_m) (num32 ecc_prime_m)"
    using subV [OF num32_constants(6) A] by simp
  then show ?thesis using A g unfolding fieldModP_sum modP_value_def Let_def a_def [symmetric] by simp
qed

subsection \<open>Reduction modulo the group order\<close>

text \<open>Barrett: with \<open>b = 2 ^ 32\<close> and \<open>\<mu> = b ^ 16 div n\<close>, the estimate of the quotient is at most two too small.\<close>

lemma barrett_identity:
  fixes A n b7 b9 :: nat
  assumes "b7 * a + t = A" and "n * m + s = b7 * b9" and "b9 * q + u = m * a"
  shows "A * b9 = (q * n) * b9 + (n * u + a * s + t * b9)"
proof -
  have "A * b9 = a * (b7 * b9) + t * b9" by (simp add: assms(1) [symmetric] algebra_simps)
  also have "\<dots> = n * (m * a) + a * s + t * b9" by (simp add: assms(2) [symmetric] algebra_simps)
  also have "n * (m * a) = (q * n) * b9 + n * u" by (simp only: assms(3) [symmetric]) (simp add: algebra_simps)
  finally show ?thesis by simp
qed

lemma barrett:
  fixes A n b7 b9 :: nat
  assumes "0 < n" and "n \<le> b9" and "b7 \<le> n" and "0 < b9" and "A < b7 * b9"
    and "q = (b7 * b9) div n * (A div b7) div b9"
  shows "q * n \<le> A" and "A < q * n + 3 * n"
proof -
  have b7: "0 < b7" using assms(5) by (cases b7) simp_all
  obtain m s where m: "n * m + s = b7 * b9" "s < n" "m = (b7 * b9) div n" using assms(1) by (metis mod_less_divisor mult_div_mod_eq)
  obtain a t where a: "b7 * a + t = A" "t < b7" "a = A div b7" using b7 by (metis mod_less_divisor mult_div_mod_eq)
  obtain u where q: "b9 * q + u = m * a" "u < b9"
    using assms(4,6) m(3) a(3) by (metis mod_less_divisor mult_div_mod_eq)
  have e: "A * b9 = (q * n) * b9 + (n * u + a * s + t * b9)" by (rule barrett_identity [OF a(1) m(1) q(1)])
  then have "(q * n) * b9 \<le> A * b9" by simp
  then show "q * n \<le> A" using assms(4) by simp
  have "a < b9" using assms(5) b7 by (simp add: a(3) less_mult_imp_div_less mult.commute)
  then have "a * s \<le> n * b9" using mult_mono [of a b9 s n] m(2) by (simp add: mult.commute)
  moreover have "t * b9 < n * b9" using a(2) assms(3,4) by simp
  moreover have "n * u \<le> n * b9" using q(2) by simp
  ultimately have "n * u + a * s + t * b9 < 3 * (n * b9)" by linarith
  then have "A * b9 < (q * n + 3 * n) * b9" unfolding e by (simp add: distrib_right)
  then show "A < q * n + 3 * n" by simp
qed

lemma modO_loop_num:
  assumes "length r = 9"
  shows "\<exists>s. modO_loop r = Some s \<and> length s = 9 \<and> num32 s = num32 r mod n256"
  using assms
proof (induction "num32 r" arbitrary: r rule: less_induct)
  case less
  have n: "num32 ecc_order_m = n256" "length ecc_order_m = 9" "0 < n256" using num32_constants by (simp_all add: n256_def)
  have g: "ecc_isGreater r ecc_order_m 9 \<ge> 0 \<longleftrightarrow> n256 \<le> num32 r"
    using ecc_isGreater_num [of r 9 ecc_order_m] less.prems n by auto
  show ?case
  proof (cases "n256 \<le> num32 r")
    case True
    obtain s c where s: "ecc_sub r ecc_order_m 9 = (s, c)" by fastforce
    have a: "length s = 9" "unat c \<le> 1" "num32 s + n256 = num32 r + 2 ^ 288 * unat c"
      using ecc_sub_num [OF _ _ s] less.prems n by simp_all
    have "num32 s < 2 ^ 288" using num32_less [of s] a(1) by simp
    then have "unat c = 0" using a(2,3) True by (cases "unat c = 0") auto
    then have v: "num32 s = num32 r - n256" using a(3) by simp
    then obtain t where "modO_loop s = Some t" "length t = 9" "num32 t = num32 s mod n256"
      using less.hyps [of s] a(1) True n(3) by auto
    then show ?thesis using g True s v by (subst modO_loop.simps) (simp add: le_mod_geq)
  next
    case False
    then show ?thesis using g less.prems by (subst modO_loop.simps) simp
  qed
qed

text \<open>The part before the last loop: a multiple of the order close below the number.\<close>

lemma barrett_words:
  assumes "7 \<le> len" and "len \<le> length A" and "num32 (take len A) < n256 * 2 ^ 256"
  obtains r2 Q where
    "fieldModO A result len =
      (if len = 8 \<and> ecc_isGreater A ecc_order_m 8 \<le> 0 then Some (take len A @ drop len result)
       else map_option (\<lambda>r. r @ drop 9 result) (modO_loop (fst (ecc_sub A r2 9))))"
    and "length r2 = 16" and "num32 r2 = Q * n256" and "Q * n256 \<le> num32 (take len A)" and "num32 (take len A) < Q * n256 + 3 * n256"
proof -
  let ?A = "num32 (take len A)"
  define q1 where "q1 = rshiftby A len 9 7"
  define q2 where "q2 = fieldMult ecc_order_mu q1 9"
  define q3 where "q3 = rshiftby q2 18 8 9"
  define r2 where "r2 = fieldMult q3 (take 8 ecc_order_m) 8"
  have A: "?A < 2 ^ 512" using assms(3) by (simp add: n256_def)
  have q1: "length q1 = 9" "num32 q1 = ?A div 2 ^ 224"
    using rshiftby_num [of len A 7 9] assms(1,2) A by (simp_all add: q1_def less_mult_imp_div_less)
  have q2: "length q2 = 18" "num32 q2 = 2 ^ 512 div n256 * (?A div 2 ^ 224)"
    using fieldMult_num [of ecc_order_mu 9 q1] q1 num32_constants by (simp_all add: q2_def)
  define Q where "Q = 2 ^ 512 div n256 * (?A div 2 ^ 224) div 2 ^ 288"
  have b: "Q * n256 \<le> ?A" "?A < Q * n256 + 3 * n256"
  proof -
    have n: "0 < n256" "n256 \<le> 2 ^ 288" "2 ^ 224 \<le> n256" "(0::nat) < 2 ^ 288" by (simp_all add: n256_def)
    have e: "(2::nat) ^ 224 * 2 ^ 288 = 2 ^ 512" by (simp flip: power_add)
    note r = barrett [OF n, of ?A Q, unfolded e, OF A Q_def]
    show "Q * n256 \<le> ?A" "?A < Q * n256 + 3 * n256" by (rule r)+
  qed
  have "Q * n256 < 2 ^ 256 * n256" using le_less_trans [OF b(1) assms(3)] by (simp only: mult.commute)
  then have Q: "Q < 2 ^ 256" by (rule mult_less_cancel2 [THEN iffD1, THEN conjunct2])
  have q3: "length q3 = 8" "num32 q3 = Q"
    using rshiftby_num [of 18 q2 9 8] q2 Q [unfolded Q_def] by (simp_all add: q3_def Q_def)
  have m: "length (take 8 ecc_order_m) = 8" "num32 (take 8 ecc_order_m) = n256"
    by (simp_all add: ecc_order_m_def n256_def)
  have r2: "length r2 = 16" "num32 r2 = Q * n256"
    using fieldMult_num [of q3 8 "take 8 ecc_order_m"] q3 m by (simp_all add: r2_def)
  show ?thesis
    by (rule that [OF _ r2 b]) (simp add: fieldModO_def ecc_order_k_def Let_def q1_def q2_def q3_def r2_def)
qed

lemma fieldModO_num:
  assumes "len = 16 \<or> len = 9" and "len \<le> length A" and "num32 (take len A) < n256 * 2 ^ 256" and "9 \<le> length result"
  shows "\<exists>r. fieldModO A result len = Some r \<and> length r = length result \<and> num32 (take 9 r) = num32 (take len A) mod n256 \<and>
    drop 9 r = drop 9 result"
proof -
  have l: "len \<noteq> 8" "7 \<le> len" "9 \<le> len" using assms(1) by auto
  obtain r2 Q where F: "fieldModO A result len =
      (if len = 8 \<and> ecc_isGreater A ecc_order_m 8 \<le> 0 then Some (take len A @ drop len result)
       else map_option (\<lambda>r. r @ drop 9 result) (modO_loop (fst (ecc_sub A r2 9))))"
    and r2: "length r2 = 16" "num32 r2 = Q * n256" and b: "Q * n256 \<le> num32 (take len A)" "num32 (take len A) < Q * n256 + 3 * n256"
    using barrett_words [OF l(2) assms(2,3), of result] by blast
  obtain s c where s: "ecc_sub A r2 9 = (s, c)" by fastforce
  have a: "length s = 9" "unat c \<le> 1" "num32 s + num32 (take 9 r2) = num32 (take 9 A) + 2 ^ 288 * unat c"
    using ecc_sub_num [OF _ _ s] assms(2) l r2(1) by simp_all
  have "num32 s = num32 (take len A) - Q * n256"
  proof -
    define a0 where "a0 = num32 (take 9 A)"
    define a1 where "a1 = num32 (drop 9 (take len A))"
    define c0 where "c0 = num32 (take 9 r2)"
    define c1 where "c1 = num32 (drop 9 r2)"
    have A': "num32 (take len A) = a0 + 2 ^ 288 * a1"
      using num32_take_drop [of 9 "take len A"] assms(2) l by (simp add: a0_def a1_def min_absorb1)
    have r': "Q * n256 = c0 + 2 ^ 288 * c1" using num32_take_drop [of 9 r2] r2 by (simp add: c0_def c1_def)
    define k where "k = unat c"
    have e: "num32 s + c0 = a0 + 2 ^ 288 * k" "k \<le> 1" using a(2,3) by (simp_all add: a0_def c0_def k_def)
    define d where "d = num32 (take len A) - Q * n256"
    have d: "d + (c0 + 2 ^ 288 * c1) = a0 + 2 ^ 288 * a1" "d < 2 ^ 288"
      using b A' r' by (simp_all add: d_def n256_def)
    have s2: "num32 s < 2 ^ 288" using num32_less [of s] a(1) by simp
    have "(d + c0 + 2 ^ 288 * c1 + 2 ^ 288 * k) = num32 s + c0 + 2 ^ 288 * a1" using d(1) e(1) by simp
    then have "d + 2 ^ 288 * (c1 + k) = num32 s + 2 ^ 288 * a1" by simp
    then have "(d + 2 ^ 288 * (c1 + k)) mod 2 ^ 288 = (num32 s + 2 ^ 288 * a1) mod 2 ^ 288" by (simp only:)
    then have "d = num32 s" using d(2) s2 by (simp only: mod_mult_self2 mod_less)
    then show ?thesis by (simp add: d_def)
  qed
  then have "num32 s mod n256 = num32 (take len A) mod n256"
    using b(1) by (metis le_add_diff_inverse mod_mult_self2 mult.commute add.commute)
  then obtain t where t: "modO_loop s = Some t" "length t = 9" "num32 t = num32 (take len A) mod n256"
    using modO_loop_num [OF a(1)] by auto
  then have "fieldModO A result len = Some (t @ drop 9 result)" using F l(1) s by simp
  then show ?thesis using t assms(4) by simp
qed

text \<open>The reduction of 8 words in place, for a number above the order: it also reads word 8 of the array.\<close>

lemma fieldModO_in_place:
  assumes "length r = 9" and "n256 < num32 (take 8 r)"
  shows "\<exists>z. fieldModO r r 8 = Some z \<and> length z = 9 \<and> num32 z = num32 r mod n256"
proof -
  have A: "num32 (take 8 r) < 2 ^ 256" using num32_less [of "take 8 r"] assms(1) by simp
  then have B: "(7::nat) \<le> 8" "8 \<le> length r" "num32 (take 8 r) < n256 * 2 ^ 256" using assms(1) by (simp_all add: n256_def)
  obtain r2 Q where F: "fieldModO r r 8 =
      (if 8 = (8::nat) \<and> ecc_isGreater r ecc_order_m 8 \<le> 0 then Some (take 8 r @ drop 8 r)
       else map_option (\<lambda>z. z @ drop 9 r) (modO_loop (fst (ecc_sub r r2 9))))"
    and r2: "length r2 = 16" "num32 r2 = Q * n256" and b: "Q * n256 \<le> num32 (take 8 r)"
    using barrett_words [OF B, of r] by blast
  have "Q * n256 < 2 ^ 288" using le_less_trans [OF b A] by (rule less_trans) simp
  moreover have "num32 r2 = num32 (take 9 r2) + 2 ^ 288 * num32 (drop 9 r2)" using num32_take_drop [of 9 r2] r2(1) by simp
  ultimately have t: "num32 (take 9 r2) = Q * n256" using r2(2) by (cases "num32 (drop 9 r2)") auto
  obtain s c where s: "ecc_sub r r2 9 = (s, c)" by fastforce
  have a: "length s = 9" "unat c \<le> 1" "num32 s + Q * n256 = num32 r + 2 ^ 288 * unat c"
    using ecc_sub_num [OF _ _ s] assms(1) r2(1) t by simp_all
  have "num32 s < 2 ^ 288" using num32_less [of s] a(1) by simp
  moreover have "Q * n256 \<le> num32 r" using b num32_take_le [of 8 r] by simp
  ultimately have "unat c = 0" using a(2,3) by (cases "unat c = 0") auto
  then have "num32 s + Q * n256 = num32 r" using a(3) by simp
  then have "num32 s mod n256 = num32 r mod n256" by (metis mod_mult_self1)
  then obtain z where z: "modO_loop s = Some z" "length z = 9" "num32 z = num32 r mod n256"
    using modO_loop_num [OF a(1)] by auto
  have "num32 (take 8 ecc_order_m) = n256" by (simp add: ecc_order_m_def n256_def)
  then have "\<not> ecc_isGreater r ecc_order_m 8 \<le> 0"
    using isGreater_loop_num [of 8 r ecc_order_m] assms num32_constants(8) by (simp add: ecc_isGreater_def)
  then have "fieldModO r r 8 = Some (z @ drop 9 r)" using F s z(1) by simp
  then show ?thesis using z assms(1) by simp
qed

text \<open>With eight words and a value not above the order, the words are copied: the order itself stays.\<close>

lemma fieldModO_copy:
  assumes "8 \<le> length A" and "8 \<le> length result" and "num32 (take 8 A) \<le> n256"
  shows "fieldModO A result 8 = Some (take 8 A @ drop 8 result)"
proof -
  have "num32 (take 8 ecc_order_m) = n256" by (simp add: ecc_order_m_def n256_def)
  then have "ecc_isGreater A ecc_order_m 8 \<le> 0"
    using isGreater_loop_num [of 8 A ecc_order_m] assms num32_constants(8) by (simp add: ecc_isGreater_def)
  then show ?thesis by (simp add: fieldModO_def)
qed

end
