(* ===== verification/FieldInv.thy ===== *)
theory FieldInv
  imports P256Field
begin

text \<open>
  Inversion modulo the prime or the group order: \<open>fieldInv\<close> of \<open>ecc/ecc.c\<close>, the binary extended
  Euclidean algorithm. It returns an inverse whenever there is one, and does not return for 0.
\<close>

subsection \<open>Operations\<close>

definition fieldAddAndDivide :: "ecc_words \<Rightarrow> ecc_words \<Rightarrow> ecc_words \<Rightarrow> ecc_words" where
  "fieldAddAndDivide x modulus reducer =
     (let (result, n) = ecc_add x modulus 8;
          result = ecc_rshift result
      in if n \<noteq> 0 then
           let result = result[7 := result ! 7 OR 0x80000000]
           in if ecc_isGreater result modulus 8 = 1 then fst (ecc_add result reducer 8) else result
         else result)"

text \<open>One of the two inner loops, on \<open>u\<close> with \<open>x1\<close> or on \<open>v\<close> with \<open>x2\<close>. \<open>None\<close> is a loop that does not
  end.\<close>

partial_function (option) halve_loop ::
  "ecc_words \<Rightarrow> ecc_words \<Rightarrow> ecc_words \<Rightarrow> ecc_words \<Rightarrow> (ecc_words \<times> ecc_words) option" where
  "halve_loop modulus reducer u x =
     (if u ! 0 AND 1 = 0 then
        halve_loop modulus reducer (ecc_rshift u)
          (if x ! 0 AND 1 = 0 then ecc_rshift x else fieldAddAndDivide x modulus reducer)
      else Some (u, x))"

partial_function (option) inv_loop ::
  "ecc_words \<Rightarrow> ecc_words \<Rightarrow> ecc_words \<Rightarrow> ecc_words \<Rightarrow> ecc_words \<Rightarrow> ecc_words \<Rightarrow> ecc_words option" where
  "inv_loop modulus reducer u v x1 x2 =
     (if ecc_isOne u \<or> ecc_isOne v then Some (if ecc_isOne u then x1 else x2)
      else do {
        (u, x1) \<leftarrow> halve_loop modulus reducer u x1;
        (v, x2) \<leftarrow> halve_loop modulus reducer v x2;
        (let (tempm, t) = ecc_sub u v 8
         in if (ucast t :: u8) = 0 then inv_loop modulus reducer tempm v (fieldSub x1 x2 modulus) x2
            else inv_loop modulus reducer u (fst (ecc_sub v u 8)) x1 (fieldSub x2 x1 modulus))
      })"

definition fieldInv :: "ecc_words \<Rightarrow> ecc_words \<Rightarrow> ecc_words \<Rightarrow> ecc_words option" where
  "fieldInv A modulus reducer = inv_loop modulus reducer (take 8 A) (take 8 modulus) [1, 0, 0, 0, 0, 0, 0, 0] [0, 0, 0, 0, 0, 0, 0, 0]"

subsection \<open>Halving\<close>

text \<open>What the two moduli of the code share.\<close>

definition modulus_ok :: "ecc_words \<Rightarrow> ecc_words \<Rightarrow> int \<Rightarrow> bool" where
  "modulus_ok modulus reducer m \<longleftrightarrow> 8 \<le> length modulus \<and> length reducer = 8 \<and> ival (take 8 modulus) = m \<and>
     ival reducer = 2 ^ 256 - m \<and> odd m \<and> 1 < m"

lemma low_bit: "length u = 8 \<Longrightarrow> u ! 0 AND 1 = 0 \<longleftrightarrow> even (num32 u)"
proof -
  assume "length u = 8"
  then obtain x xs where u: "u = x # xs" by (cases u) auto
  have "x AND 1 = 0 \<longleftrightarrow> even (unat x)" by (simp add: and_one_eq word_unat_eq_iff unat_mod even_iff_mod_2_eq_zero)
  then show ?thesis by (simp add: u)
qed

lemma carry_bit: "length s = 8 \<Longrightarrow> num32 s < 2 ^ 255 \<Longrightarrow>
  length (s[7 := s ! 7 OR 0x80000000]) = 8 \<and> num32 (s[7 := s ! 7 OR 0x80000000]) = num32 s + 2 ^ 255"
proof -
  assume s: "length s = 8" "num32 s < 2 ^ 255"
  have d: "drop 7 s = [s ! 7]" using s(1) by (simp add: Cons_nth_drop_Suc [symmetric])
  have n: "num32 s = num32 (take 7 s) + 2 ^ 224 * unat (s ! 7)" using num32_take_drop [of 7 s] s(1) d by simp
  have "unat (s ! 7) < 2 ^ 31"
  proof (rule ccontr)
    assume "\<not> unat (s ! 7) < 2 ^ 31"
    then have "2 ^ 224 * 2 ^ 31 \<le> 2 ^ 224 * unat (s ! 7)" by (intro mult_left_mono) simp_all
    then show False using n s(2) by simp
  qed
  then have b: "\<not> bit (s ! 7) 31"
    by (simp add: bit_iff_odd_drop_bit drop_bit_eq_div even_iff_mod_2_eq_zero word_unat_eq_iff unat_div unat_mod)
  have "s ! 7 AND 0x80000000 = 0"
  proof -
    have e: "(0x80000000 :: u32) = 2 ^ 31" by simp
    have k: "\<not> (bit (s ! 7) k \<and> bit (0x80000000 :: u32) k)" for k
      unfolding e using b by (metis bit_exp_iff)
    show ?thesis by (intro bit_word_eqI) (simp only: bit_and_iff k bit_0_eq bot_fun_def bot_bool_def)
  qed
  then have "s ! 7 OR 0x80000000 = s ! 7 + 0x80000000" by (simp add: disjunctive_add_eq_or)
  then have w: "unat (s ! 7 OR 0x80000000) = unat (s ! 7) + 2 ^ 31"
    using \<open>unat (s ! 7) < 2 ^ 31\<close> by (simp add: unat_word_ariths)
  have "s[7 := s ! 7 OR 0x80000000] = take 7 s @ [s ! 7 OR 0x80000000]"
    using s(1) by (simp add: upd_conv_take_nth_drop)
  then show ?thesis using w n s(1) by (simp add: num32_append)
qed

lemma fieldAddAndDivide_num:
  assumes "modulus_ok modulus reducer m" and "length x = 8" and "ival x < m" and "odd (ival x)"
  shows "length (fieldAddAndDivide x modulus reducer) = 8" and "2 * ival (fieldAddAndDivide x modulus reducer) = ival x + m"
proof -
  have m: "8 \<le> length modulus" "length reducer = 8" "ival (take 8 modulus) = m" "ival reducer = 2 ^ 256 - m" "odd m"
    using assms(1) by (simp_all add: modulus_ok_def)
  obtain s n where s: "ecc_add x modulus 8 = (s, n)" "length s = 8" "num32 s = (num32 x + num32 (take 8 modulus)) mod 2 ^ 256"
    "n \<noteq> 0 \<longleftrightarrow> 2 ^ 256 \<le> num32 x + num32 (take 8 modulus)" by (rule ecc_add_8 [OF assms(2) m(1)])
  define v where "v = num32 x + num32 (take 8 modulus)"
  have v: "int v = ival x + m" "even v" using assms(4) m(3,5) by (auto simp: v_def)
  have l: "num32 x < 2 ^ 256" "num32 (take 8 modulus) < 2 ^ 256"
    using num32_less [of x] num32_less [of "take 8 modulus"] assms(2) m(1) by simp_all
  note r = ecc_rshift_num [OF s(2)]
  have "length (fieldAddAndDivide x modulus reducer) = 8 \<and> num32 (fieldAddAndDivide x modulus reducer) = v div 2"
  proof (cases "n = 0")
    case True
    then show ?thesis using s r by (simp add: fieldAddAndDivide_def v_def)
  next
    case False
    let ?t = "(ecc_rshift s)[7 := ecc_rshift s ! 7 OR 0x80000000]"
    have "num32 s = v - 2 ^ 256" using False s(3,4) l by (simp add: v_def le_mod_geq)
    then have "num32 (ecc_rshift s) + 2 ^ 255 = v div 2" "num32 (ecc_rshift s) < 2 ^ 255"
      using r(2) False s(4) v(2) l by (simp_all add: v_def)
    then have t: "length ?t = 8" "num32 ?t = v div 2" using carry_bit [OF r(1)] by simp_all
    have "v div 2 \<le> num32 (take 8 modulus)" using assms(3) m(3) by (simp add: v_def)
    then have "\<not> num32 (take 8 modulus) < num32 ?t" using t(2) by simp
    then have "ecc_isGreater ?t modulus 8 \<noteq> 1"
      using isGreater_loop_num [of 8 ?t modulus] t(1) m(1) by (simp add: ecc_isGreater_def)
    then show ?thesis using False s(1) t by (simp add: fieldAddAndDivide_def Let_def)
  qed
  moreover have "ival x + m = 2 * int (v div 2)" using v by (metis dvd_mult_div_cancel of_nat_mult of_nat_numeral)
  ultimately show "length (fieldAddAndDivide x modulus reducer) = 8" and "2 * ival (fieldAddAndDivide x modulus reducer) = ival x + m"
    by simp_all
qed

text \<open>\<open>x\<close> goes with \<open>u\<close> if it is \<open>u / a\<close> modulo \<open>m\<close>.\<close>

definition goes_with :: "int \<Rightarrow> int \<Rightarrow> ecc_words \<Rightarrow> ecc_words \<Rightarrow> bool" where
  "goes_with m a u x \<longleftrightarrow> length u = 8 \<and> length x = 8 \<and> 0 < num32 u \<and> ival x < m \<and> m dvd (ival x * a - ival u)"

lemma goes_with_half:
  assumes "modulus_ok modulus reducer m" and "goes_with m a u x" and "even (num32 u)"
  shows "goes_with m a (ecc_rshift u) (if x ! 0 AND 1 = 0 then ecc_rshift x else fieldAddAndDivide x modulus reducer)"
proof -
  let ?x = "if x ! 0 AND 1 = 0 then ecc_rshift x else fieldAddAndDivide x modulus reducer"
  have m: "odd m" "1 < m" using assms(1) by (simp_all add: modulus_ok_def)
  have u: "length u = 8" "length x = 8" "0 < num32 u" "ival x < m" "m dvd (ival x * a - ival u)"
    using assms(2) by (simp_all add: goes_with_def)
  have r: "length (ecc_rshift u) = 8" "2 * ival (ecc_rshift u) = ival u" "0 < num32 (ecc_rshift u)"
    using ecc_rshift_num [OF u(1)] assms(3) u(3) by (auto elim!: evenE)
  obtain k where x: "length ?x = 8" "2 * ival ?x = ival x + k * m" "k = 0 \<or> k = 1"
  proof (cases "even (num32 x)")
    case True
    then have "length ?x = 8" "2 * ival ?x = ival x + 0 * m"
      using ecc_rshift_num [OF u(2)] low_bit [OF u(2)] by (auto elim!: evenE)
    then show ?thesis using that by blast
  next
    case False
    then have "length ?x = 8" "2 * ival ?x = ival x + 1 * m"
      using fieldAddAndDivide_num [OF assms(1) u(2,4)] low_bit [OF u(2)] by simp_all
    then show ?thesis using that by blast
  qed
  have "ival ?x < m" using x(2,3) u(4) m(2) by auto
  moreover have "m dvd (ival ?x * a - ival (ecc_rshift u))"
  proof -
    have "2 * (ival ?x * a - ival (ecc_rshift u)) = (2 * ival ?x) * a - 2 * ival (ecc_rshift u)" by (simp only: right_diff_distrib mult.assoc)
    also have "\<dots> = (ival x * a - ival u) + m * (k * a)" unfolding x(2) r(2) by (simp add: algebra_simps)
    finally have "m dvd 2 * (ival ?x * a - ival (ecc_rshift u))" using u(5) by simp
    moreover have "coprime m 2" using m(1) by (simp add: coprime_right_2_iff_odd)
    ultimately show ?thesis by (simp only: coprime_dvd_mult_right_iff)
  qed
  ultimately show ?thesis using r x(1) by (simp add: goes_with_def)
qed

lemma halve_loop_num:
  assumes "modulus_ok modulus reducer m" and "goes_with m a u x"
  shows "\<exists>u' x'. halve_loop modulus reducer u x = Some (u', x') \<and> goes_with m a u' x' \<and> odd (num32 u') \<and>
    num32 u' dvd num32 u \<and> (odd (num32 u) \<longrightarrow> u' = u)"
  using assms(2)
proof (induction "num32 u" arbitrary: u x rule: less_induct)
  case less
  have l: "length u = 8" "0 < num32 u" using less.prems by (simp_all add: goes_with_def)
  show ?case
  proof (cases "even (num32 u)")
    case True
    let ?x = "if x ! 0 AND 1 = 0 then ecc_rshift x else fieldAddAndDivide x modulus reducer"
    have e: "num32 u = 2 * num32 (ecc_rshift u)" using ecc_rshift_num [OF l(1)] True by simp
    then have "num32 (ecc_rshift u) < num32 u" "num32 (ecc_rshift u) dvd num32 u" using l(2) by simp_all
    then obtain u' x' where "halve_loop modulus reducer (ecc_rshift u) ?x = Some (u', x')" "goes_with m a u' x'" "odd (num32 u')"
      "num32 u' dvd num32 u"
      using less.hyps [OF _ goes_with_half [OF assms(1) less.prems True]] dvd_trans by blast
    then show ?thesis using True low_bit [OF l(1)] by (subst halve_loop.simps) simp
  next
    case False
    then show ?thesis using less.prems low_bit [OF l(1)] by (subst halve_loop.simps) simp
  qed
qed

subsection \<open>The main loop\<close>

lemma goes_with_sub:
  assumes "modulus_ok modulus reducer m" and "goes_with m a u x" and "goes_with m a v y" and "num32 v < num32 u"
  shows "goes_with m a (fst (ecc_sub u v 8)) (fieldSub x y modulus)" and "num32 (fst (ecc_sub u v 8)) = num32 u - num32 v"
    and "snd (ecc_sub u v 8) = 0"
proof -
  have m: "8 \<le> length modulus" "ival (take 8 modulus) = m" "0 < m" using assms(1) by (simp_all add: modulus_ok_def)
  have u: "length u = 8" "length x = 8" "ival x < m" "m dvd (ival x * a - ival u)" using assms(2) by (simp_all add: goes_with_def)
  have v: "length v = 8" "length y = 8" "ival y < m" "m dvd (ival y * a - ival v)" using assms(3) by (simp_all add: goes_with_def)
  obtain s c where s: "ecc_sub u v 8 = (s, c)" by fastforce
  have a: "length s = 8" "unat c \<le> 1" "num32 s + num32 v = num32 u + 2 ^ 256 * unat c"
    using ecc_sub_num [OF _ _ s] u(1) v(1) by simp_all
  have "num32 s < 2 ^ 256" using num32_less [of s] a(1) by simp
  then have "unat c = 0" using a(2,3) assms(4) by (cases "unat c = 0") auto
  then show c: "snd (ecc_sub u v 8) = 0" by (simp add: s unat_eq_0)
  show n: "num32 (fst (ecc_sub u v 8)) = num32 u - num32 v" using a(3) \<open>unat c = 0\<close> by (simp add: s)
  have f: "length (fieldSub x y modulus) = 8" "ival (fieldSub x y modulus) mod m = (ival x - ival y) mod m" "ival (fieldSub x y modulus) < m"
    using fieldSub_num [OF u(2) v(2) m(1,2) _ m(3)] u(3) v(3) by simp_all
  have "m dvd (ival (fieldSub x y modulus) - (ival x - ival y))" using f(2) by (simp add: mod_eq_dvd_iff)
  then have "m dvd ((ival (fieldSub x y modulus) - (ival x - ival y)) * a + (ival x * a - ival u) - (ival y * a - ival v))"
    by (rule dvd_diff [OF dvd_add [OF dvd_mult2 u(4)] v(4)])
  moreover have "(ival (fieldSub x y modulus) - (ival x - ival y)) * a + (ival x * a - ival u) - (ival y * a - ival v) =
      ival (fieldSub x y modulus) * a - ival (fst (ecc_sub u v 8))"
    using n assms(4) by (simp add: of_nat_diff algebra_simps)
  ultimately show "goes_with m a (fst (ecc_sub u v 8)) (fieldSub x y modulus)"
    using f(1,3) a(1) n assms(4) by (simp add: goes_with_def s)
qed

lemma sub_borrow:
  assumes "length u = 8" and "length v = 8" and "num32 u < num32 v"
  shows "(ucast (snd (ecc_sub u v 8)) :: u8) \<noteq> 0"
proof -
  obtain s c where s: "ecc_sub u v 8 = (s, c)" by fastforce
  have a: "unat c \<le> 1" "num32 s + num32 v = num32 u + 2 ^ 256 * unat c"
    using ecc_sub_num [OF _ _ s] assms(1,2) by simp_all
  then have "unat c = 1" using assms(3) by (cases "unat c = 0") auto
  then have "c = 1" by (simp add: word_unat_eq_iff)
  then show ?thesis by (simp add: s)
qed

lemma inv_loop_num:
  assumes "modulus_ok modulus reducer m" and "goes_with m a u x1" and "goes_with m a v x2" and "coprime (num32 u) (num32 v)"
  shows "\<exists>B. inv_loop modulus reducer u v x1 x2 = Some B \<and> length B = 8 \<and> ival B < m \<and> m dvd (ival B * a - 1)"
  using assms(2-)
proof (induction "num32 u + num32 v" arbitrary: u v x1 x2 rule: less_induct)
  case less
  have l: "length u = 8" "length v = 8" using less.prems by (simp_all add: goes_with_def)
  show ?case
  proof (cases "ecc_isOne u \<or> ecc_isOne v")
    case True
    then show ?thesis using less.prems ecc_isOne_num [OF l(1)] ecc_isOne_num [OF l(2)]
      by (subst inv_loop.simps) (auto simp: goes_with_def)
  next
    case False
    obtain u' x1' where u: "halve_loop modulus reducer u x1 = Some (u', x1')" "goes_with m a u' x1'" "odd (num32 u')"
      "num32 u' dvd num32 u" "odd (num32 u) \<longrightarrow> u' = u" using halve_loop_num [OF assms(1) less.prems(1)] by blast
    obtain v' x2' where v: "halve_loop modulus reducer v x2 = Some (v', x2')" "goes_with m a v' x2'" "odd (num32 v')"
      "num32 v' dvd num32 v" "odd (num32 v) \<longrightarrow> v' = v" using halve_loop_num [OF assms(1) less.prems(2)] by blast
    have l': "length u' = 8" "length v' = 8" "0 < num32 u'" "0 < num32 v'" using u(2) v(2) by (simp_all add: goes_with_def)
    have c: "coprime (num32 u') (num32 v')" using less.prems(3) u(4) v(4) by (meson coprime_divisors)
    have ne: "num32 u' \<noteq> num32 v'"
    proof
      assume e: "num32 u' = num32 v'"
      then have o: "num32 u' = 1" "num32 v' = 1" using c by simp_all
      have "odd (num32 u) \<or> odd (num32 v)" using less.prems(3) by (meson coprime_common_divisor odd_one)
      then have "num32 u = 1 \<or> num32 v = 1" using o u(5) v(5) by auto
      then show False using False ecc_isOne_num l by blast
    qed
    have le: "num32 u' \<le> num32 u" "num32 v' \<le> num32 v"
      using u(4) v(4) less.prems by (auto simp: goes_with_def intro: dvd_imp_le)
    let ?next = "let (tempm, t) = ecc_sub u' v' 8
         in if (ucast t :: u8) = 0 then inv_loop modulus reducer tempm v' (fieldSub x1' x2' modulus) x2'
            else inv_loop modulus reducer u' (fst (ecc_sub v' u' 8)) x1' (fieldSub x2' x1' modulus)"
    have step: "inv_loop modulus reducer u v x1 x2 = ?next"
      using False by (subst inv_loop.simps) (simp add: u(1) v(1))
    show ?thesis
    proof (cases "num32 v' < num32 u'")
      case True
      note s = goes_with_sub [OF assms(1) u(2) v(2) True]
      have "coprime (num32 (fst (ecc_sub u' v' 8))) (num32 v')"
        using c True s(2) by (metis coprime_diff_one_left_nat coprime_iff_gcd_eq_1 gcd_diff1_nat less_imp_le)
      moreover have "num32 (fst (ecc_sub u' v' 8)) + num32 v' < num32 u + num32 v" using s(2) True le l' by simp
      ultimately have "\<exists>B. inv_loop modulus reducer (fst (ecc_sub u' v' 8)) v' (fieldSub x1' x2' modulus) x2' = Some B \<and>
          length B = 8 \<and> ival B < m \<and> m dvd (ival B * a - 1)"
        using less.hyps s(1) v(2) by blast
      then show ?thesis using step s(3) by (simp add: split_beta Let_def)
    next
      case False
      then have lt: "num32 u' < num32 v'" using ne by simp
      note s = goes_with_sub [OF assms(1) v(2) u(2) lt]
      have "coprime (num32 u') (num32 (fst (ecc_sub v' u' 8)))"
        using c lt s(2) by (metis coprime_commute coprime_iff_gcd_eq_1 gcd_diff1_nat less_imp_le)
      moreover have "num32 u' + num32 (fst (ecc_sub v' u' 8)) < num32 u + num32 v" using s(2) lt le l' by simp
      ultimately have "\<exists>B. inv_loop modulus reducer u' (fst (ecc_sub v' u' 8)) x1' (fieldSub x2' x1' modulus) = Some B \<and>
          length B = 8 \<and> ival B < m \<and> m dvd (ival B * a - 1)"
        using less.hyps u(2) s(1) by blast
      then show ?thesis using step sub_borrow [OF l'(1,2) lt] by (simp add: split_beta Let_def)
    qed
  qed
qed

lemma moduli_ok: "modulus_ok ecc_prime_m ecc_prime_r p256" "modulus_ok ecc_order_m ecc_order_r (int n256)"
  by (simp_all add: modulus_ok_def ecc_prime_m_def ecc_prime_r_def ecc_order_m_def ecc_order_r_def p256_def n256_def)

lemma fieldInv_num:
  assumes "modulus_ok modulus reducer m" and "length A = 8" and "coprime (ival A) m"
  shows "\<exists>B. fieldInv A modulus reducer = Some B \<and> length B = 8 \<and> ival B < m \<and> ival B * ival A mod m = 1"
proof -
  have m: "8 \<le> length modulus" "ival (take 8 modulus) = m" "1 < m" using assms(1) by (simp_all add: modulus_ok_def)
  have A: "0 < num32 A" using assms(3) m(3) by (cases "num32 A = 0") auto
  have "goes_with m (ival A) (take 8 A) [1, 0, 0, 0, 0, 0, 0, 0]" using assms(2) A m by (simp add: goes_with_def)
  moreover have "goes_with m (ival A) (take 8 modulus) [0, 0, 0, 0, 0, 0, 0, 0]" using m by (simp add: goes_with_def)
  moreover have "coprime (num32 (take 8 A)) (num32 (take 8 modulus))"
    using assms(2,3) m(2) by (simp flip: coprime_int_iff)
  ultimately obtain B where "fieldInv A modulus reducer = Some B" "length B = 8" "ival B < m" "m dvd (ival B * ival A - 1)"
    using inv_loop_num [OF assms(1)] unfolding fieldInv_def by blast
  moreover have "ival B * ival A mod m = 1 mod m" using \<open>m dvd (ival B * ival A - 1)\<close> by (simp only: mod_eq_dvd_iff)
  ultimately show ?thesis using m(3) by auto
qed

subsection \<open>Zero\<close>

text \<open>A loop that halves 0 until it is odd does not end.\<close>

lemma halve_loop_zero:
  assumes "halve_loop modulus reducer u x = Some r" and "length u = 8"
  shows "num32 u \<noteq> 0"
proof -
  have "length u = 8 \<longrightarrow> num32 u \<noteq> 0"
  proof (rule halve_loop.raw_induct [where P = "\<lambda>modulus reducer u x r. length u = 8 \<longrightarrow> num32 u \<noteq> 0"
        and xa = "(((modulus, reducer), u), x)" and y = r, unfolded prod.case, OF _ assms(1)])
    fix f modulus reducer u x y
    assume ih: "\<And>modulus reducer u x y. f modulus reducer u x = Some y \<Longrightarrow> length u = 8 \<longrightarrow> num32 u \<noteq> 0"
      and b: "(if u ! 0 AND 1 = 0 then f modulus reducer (ecc_rshift u)
        (if x ! 0 AND 1 = 0 then ecc_rshift x else fieldAddAndDivide x modulus reducer) else Some (u, x)) = Some y"
    show "length u = 8 \<longrightarrow> num32 u \<noteq> 0"
    proof
      assume u: "length u = 8"
      show "num32 u \<noteq> 0"
      proof (cases "even (num32 u)")
        case True
        then have "num32 (ecc_rshift u) \<noteq> 0" using ih b low_bit [OF u] ecc_rshift_num(1) [OF u] by auto
        then show ?thesis using ecc_rshift_num(2) [OF u] by auto
      qed (auto intro: odd_pos)
    qed
  qed
  then show ?thesis using assms(2) by simp
qed

lemma fieldInv_zero:
  assumes "modulus_ok modulus reducer m" and "length A = 8" and "num32 A = 0"
  shows "fieldInv A modulus reducer = None"
proof -
  have m: "8 \<le> length modulus" "ival (take 8 modulus) = m" "1 < m" using assms(1) by (simp_all add: modulus_ok_def)
  have "\<not> ecc_isOne A" "\<not> ecc_isOne (take 8 modulus)"
    using ecc_isOne_num assms(2,3) m by auto
  moreover have "halve_loop modulus reducer A x = None" for x
    using halve_loop_zero [OF _ assms(2)] assms(3) by (cases "halve_loop modulus reducer A x") auto
  ultimately show ?thesis unfolding fieldInv_def using assms(2) by (subst inv_loop.simps) simp
qed

end
