(* ===== verification/EcPoint.thy ===== *)
theory EcPoint
  imports FieldInv
begin

text \<open>
  Point arithmetic on secp256r1 from \<open>ecc/ecc.c\<close>: \<open>ec_double\<close>, \<open>ec_add\<close> and the double-and-add loop
  \<open>ecc_ec_mult\<close>. A point is the pair of its coordinates, (0, 0) stands for the point at infinity. The code is
  shown to compute the chord-and-tangent formulas modulo the prime wherever its reductions are exact.
\<close>

subsection \<open>Operations\<close>

text \<open>\<open>None\<close>: an inversion that does not return.\<close>

definition ec_double :: "ecc_words \<Rightarrow> ecc_words \<Rightarrow> (ecc_words \<times> ecc_words) option" where
  "ec_double px py =
     (if ecc_isZero px \<and> ecc_isZero py then Some (take 8 px, take 8 py)
      else
        let tempD = fieldMult px px 8;
            tempA = fieldModP tempD;
            tempB = [1, 0, 0, 0, 0, 0, 0, 0];
            tempC = fieldSub tempA tempB ecc_prime_m;
            tempB = tempB[0 := 3];
            tempD = fieldMult tempC tempB 8;
            tempA = fieldModP tempD;
            tempB = fieldAdd py py ecc_prime_r
        in do {
          tempC \<leftarrow> fieldInv tempB ecc_prime_m ecc_prime_r;
          let tempD = fieldMult tempA tempC 8;
          let tempB = fieldModP tempD;
          let tempD = fieldMult tempB tempB 8;
          let tempC = fieldModP tempD;
          let tempA = fieldSub tempC px ecc_prime_m;
          let Dx = fieldSub tempA px ecc_prime_m;
          let tempA = fieldSub px Dx ecc_prime_m;
          let tempD = fieldMult tempB tempA 8;
          let tempC = fieldModP tempD;
          Some (Dx, fieldSub tempC py ecc_prime_m)
        })"

definition ec_add :: "ecc_words \<Rightarrow> ecc_words \<Rightarrow> ecc_words \<Rightarrow> ecc_words \<Rightarrow> (ecc_words \<times> ecc_words) option" where
  "ec_add px py qx qy =
     (if ecc_isZero px \<and> ecc_isZero py then Some (take 8 qx, take 8 qy)
      else if ecc_isZero qx \<and> ecc_isZero qy then Some (take 8 px, take 8 py)
      else if ecc_isSame px qx 8 then
        if \<not> ecc_isSame py qy 8 then Some (replicate 8 0, replicate 8 0) else ec_double px py
      else
        let tempA = fieldSub py qy ecc_prime_m;
            tempB = fieldSub px qx ecc_prime_m
        in do {
          tempB \<leftarrow> fieldInv tempB ecc_prime_m ecc_prime_r;
          let tempD = fieldMult tempA tempB 8;
          let tempC = fieldModP tempD;
          let tempD = fieldMult tempC tempC 8;
          let tempA = fieldModP tempD;
          let tempB = fieldSub tempA px ecc_prime_m;
          let Sx = fieldSub tempB qx ecc_prime_m;
          let tempB = fieldSub qx Sx ecc_prime_m;
          let tempD = fieldMult tempC tempB 8;
          let tempC = fieldModP tempD;
          Some (Sx, fieldSub tempC qy ecc_prime_m)
        })"

text \<open>The loop \<open>for (i = 256; i--;)\<close>, with \<open>i\<close> bits to go.\<close>

fun ec_mult_loop :: "ecc_words \<Rightarrow> ecc_words \<Rightarrow> ecc_words \<Rightarrow> nat \<Rightarrow> ecc_words \<Rightarrow> ecc_words \<Rightarrow>
    (ecc_words \<times> ecc_words) option" where
  "ec_mult_loop px py secret 0 Qx Qy = Some (Qx, Qy)"
| "ec_mult_loop px py secret (Suc i) Qx Qy = do {
     (Qx, Qy) \<leftarrow> ec_double Qx Qy;
     (Qx, Qy) \<leftarrow> (if secret ! (i div 32) AND push_bit (i mod 32) 1 \<noteq> 0 then ec_add Qx Qy px py else Some (Qx, Qy));
     ec_mult_loop px py secret i Qx Qy
   }"

definition ecc_ec_mult :: "ecc_words \<Rightarrow> ecc_words \<Rightarrow> ecc_words \<Rightarrow> (ecc_words \<times> ecc_words) option" where
  "ecc_ec_mult px py secret = ec_mult_loop px py secret 256 (replicate 8 0) (replicate 8 0)"

subsection \<open>The formulas\<close>

text \<open>The inverse modulo the prime, by the extended Euclidean algorithm.\<close>

function euclid :: "int \<Rightarrow> int \<Rightarrow> int \<Rightarrow> int \<Rightarrow> int \<times> int" where
  "euclid r0 s0 r1 s1 = (if r1 \<le> 0 then (r0, s0) else euclid r1 s1 (r0 mod r1) (s0 - r0 div r1 * s1))"
  by pat_completeness auto
termination by (relation "measure (\<lambda>(r0, s0, r1, s1). nat r1)") (auto simp: not_le)

declare euclid.simps [simp del]

definition inverse_p :: "int \<Rightarrow> int option" where
  "inverse_p a = (let (g, s) = euclid p256 0 (a mod p256) 1 in if g = 1 then Some (s mod p256) else None)"

text \<open>A product the code reduces exactly: none of the words 8, 10, 11, 12, 13, 15 is full.\<close>

definition product :: "int \<Rightarrow> int \<Rightarrow> int option" where
  "product a b =
     (if list_all (\<lambda>i. a * b div 2 ^ (32 * i) mod 2 ^ 32 \<noteq> 2 ^ 32 - 1) [8, 10, 11, 12, 13, 15] then Some (a * b mod p256) else None)"

definition point_double :: "int \<times> int \<Rightarrow> (int \<times> int) option" where
  "point_double = (\<lambda>(x, y).
     if x = 0 \<and> y = 0 then Some (0, 0)
     else do {
       a \<leftarrow> product x x;
       n \<leftarrow> product ((a - 1) mod p256) 3;
       d \<leftarrow> inverse_p (2 * y);
       l \<leftarrow> product n d;
       b \<leftarrow> product l l;
       let x3 = (b - 2 * x) mod p256;
       c \<leftarrow> product l ((x - x3) mod p256);
       Some (x3, (c - y) mod p256)
     })"

definition point_add :: "int \<times> int \<Rightarrow> int \<times> int \<Rightarrow> (int \<times> int) option" where
  "point_add = (\<lambda>(x, y) (x', y').
     if x = 0 \<and> y = 0 then Some (x', y')
     else if x' = 0 \<and> y' = 0 then Some (x, y)
     else if x = x' then if y \<noteq> y' then Some (0, 0) else point_double (x, y)
     else do {
       d \<leftarrow> inverse_p (x - x');
       l \<leftarrow> product ((y - y') mod p256) d;
       b \<leftarrow> product l l;
       let x3 = (b - x - x') mod p256;
       c \<leftarrow> product l ((x' - x3) mod p256);
       Some (x3, (c - y') mod p256)
     })"

fun point_mult :: "int \<times> int \<Rightarrow> nat \<Rightarrow> nat \<Rightarrow> int \<times> int \<Rightarrow> (int \<times> int) option" where
  "point_mult P k 0 Q = Some Q"
| "point_mult P k (Suc i) Q = do {
     Q \<leftarrow> point_double Q;
     Q \<leftarrow> (if odd (k div 2 ^ i) then point_add Q P else Some Q);
     point_mult P k i Q
   }"

subsection \<open>Inverses and products\<close>

lemma euclid_num:
  assumes "euclid r0 s0 r1 s1 = (g, s)" and "m dvd (s0 * a - r0)" and "m dvd (s1 * a - r1)" and "0 \<le> r1" and "0 < r0"
  shows "g = gcd r0 r1 \<and> m dvd (s * a - g)"
  using assms
proof (induction r0 s0 r1 s1 rule: euclid.induct)
  case (1 r0 s0 r1 s1)
  show ?case
  proof (cases "r1 \<le> 0")
    case True
    then show ?thesis using "1.prems" by (subst (asm) euclid.simps) simp
  next
    case False
    have e: "euclid r1 s1 (r0 mod r1) (s0 - r0 div r1 * s1) = (g, s)"
      using "1.prems"(1) False by (subst (asm) euclid.simps) simp
    have "(s0 - r0 div r1 * s1) * a - r0 mod r1 = (s0 * a - r0) - r0 div r1 * (s1 * a - r1)"
      using div_mult_mod_eq [of r0 r1] by (simp add: algebra_simps)
    then have d: "m dvd ((s0 - r0 div r1 * s1) * a - r0 mod r1)" using "1.prems"(2,3) by simp
    have "g = gcd r1 (r0 mod r1) \<and> m dvd (s * a - g)"
      by (rule "1.IH" [OF False e "1.prems"(3) d]) (use False in simp_all)
    then show ?thesis unfolding gcd_red_int [of r0 r1] .
  qed
qed

lemma inverse_p_num:
  assumes "inverse_p a = Some i"
  shows "coprime a p256" and "0 \<le> i" and "i < p256" and "i * a mod p256 = 1"
proof -
  obtain s where e: "euclid p256 0 (a mod p256) 1 = (1, s)" "i = s mod p256"
    using assms by (auto simp: inverse_p_def split: prod.splits if_splits)
  have g: "1 = gcd p256 (a mod p256) \<and> p256 dvd (s * (a mod p256) - 1)"
    using euclid_num [OF e(1), of p256 "a mod p256"] p256_bounds(1) by simp
  then have "gcd a p256 = 1" using gcd_red_int [of a p256] by (simp add: gcd.commute)
  then show "coprime a p256" by (simp add: coprime_iff_gcd_eq_1)
  show "0 \<le> i" "i < p256" using p256_bounds(1) by (simp_all add: e(2))
  have "s * (a mod p256) mod p256 = 1 mod p256" using g by (simp only: mod_eq_dvd_iff)
  then show "i * a mod p256 = 1" by (simp add: e(2) mod_simps) (simp add: p256_def)
qed

lemma inverse_unique:
  assumes "coprime a p256" and "0 \<le> i" and "i < p256" and "i * a mod p256 = 1"
    and "0 \<le> j" and "j < p256" and "j * a mod p256 = 1"
  shows "i = j"
proof -
  have "i * a mod p256 = j * a mod p256" using assms by simp
  then have "p256 dvd (i - j) * a" by (simp add: mod_eq_dvd_iff left_diff_distrib)
  then have "p256 dvd i - j" using assms(1) by (simp add: coprime_dvd_mult_left_iff coprime_commute)
  then have "i mod p256 = j mod p256" by (simp add: mod_eq_dvd_iff)
  then show ?thesis using assms by (simp add: mod_pos_pos_trivial)
qed

text \<open>The code's inversion, of any representative of the residue.\<close>

lemma fieldInv_inverse:
  assumes "length A = 8" and "inverse_p a = Some i" and "ival A mod p256 = a mod p256"
  shows "\<exists>B. fieldInv A ecc_prime_m ecc_prime_r = Some B \<and> length B = 8 \<and> ival B = i"
proof -
  note i = inverse_p_num [OF assms(2)]
  have "gcd (ival A) p256 = gcd a p256" unfolding gcd_red_int [of "ival A" p256] gcd_red_int [of a p256] assms(3) ..
  then have c: "coprime (ival A) p256" using i(1) by (simp add: coprime_iff_gcd_eq_1)
  obtain B where B: "fieldInv A ecc_prime_m ecc_prime_r = Some B" "length B = 8" "ival B < p256" "ival B * ival A mod p256 = 1"
    using fieldInv_num [OF moduli_ok(1) assms(1) c] by blast
  have "ival B * a mod p256 = 1" using mod_mult_cong [OF refl assms(3), of "ival B"] B(4) by (simp only:)
  from inverse_unique [OF i(1) _ B(3) this i(2-4)] have "ival B = i" by simp
  then show ?thesis using B by blast
qed

lemma num32_word: "i < length xs \<Longrightarrow> num32 xs div 2 ^ (32 * i) mod 2 ^ 32 = unat (xs ! i)"
proof (induction xs arbitrary: i)
  case (Cons x xs)
  show ?case
  proof (cases i)
    case (Suc k)
    then show ?thesis using Cons unat_u32_less [of x] by (simp add: power_add div_mult2_eq)
  qed (use unat_u32_less [of x] in simp)
qed simp

lemma mult_product:
  assumes "length x = 8" and "length y = 8" and "product (ival x) (ival y) = Some c"
  shows "length (fieldModP (fieldMult x y 8)) = 8 \<and> ival (fieldModP (fieldMult x y 8)) = c"
proof -
  note m = fieldMult_num [OF assms(1,2)]
  have w: "fieldMult x y 8 ! i \<noteq> 0xffffffff"
    if "i < 16" "ival x * ival y div 2 ^ (32 * i) mod 2 ^ 32 \<noteq> 2 ^ 32 - 1" for i
  proof
    assume "fieldMult x y 8 ! i = 0xffffffff"
    then have "num32 (fieldMult x y 8) div 2 ^ (32 * i) mod 2 ^ 32 = 2 ^ 32 - 1" using num32_word [of i "fieldMult x y 8"] m(1) that(1) by simp
    then have "int (num32 x * num32 y div 2 ^ (32 * i) mod 2 ^ 32) = int (2 ^ 32 - 1)" by (simp only: m(2))
    then show False using that(2) by (simp add: of_nat_mod of_nat_div)
  qed
  have c: "list_all (\<lambda>i. ival x * ival y div 2 ^ (32 * i) mod 2 ^ 32 \<noteq> 2 ^ 32 - 1) [8, 10, 11, 12, 13, 15]" "c = ival x * ival y mod p256"
    using assms(3) by (simp_all only: product_def split: if_splits) simp_all
  have "reducible (fieldMult x y 8)"
    using c(1) unfolding reducible_def by (simp only: list.pred_inject simp_thms) (intro conjI w; simp)
  then show ?thesis using fieldModP_num [of "fieldMult x y 8"] m c(2) by simp
qed

subsection \<open>The code computes the formulas\<close>

definition is_point :: "ecc_words \<Rightarrow> ecc_words \<Rightarrow> int \<times> int \<Rightarrow> bool" where
  "is_point px py P \<longleftrightarrow> length px = 8 \<and> length py = 8 \<and> (ival px, ival py) = P \<and> fst P < p256 \<and> snd P < p256"

lemma sub_exact:
  assumes "length x = 8" and "length y = 8" and "ival x < p256" and "ival y \<le> p256"
  shows "length (fieldSub x y ecc_prime_m) = 8" and "ival (fieldSub x y ecc_prime_m) = (ival x - ival y) mod p256"
proof -
  have m: "8 \<le> length ecc_prime_m" "ival (take 8 ecc_prime_m) = p256" using num32_constants(1,6) by simp_all
  note f = fieldSub_num [OF assms(1,2) m assms(4) p256_bounds(1)]
  show "length (fieldSub x y ecc_prime_m) = 8" by (rule f(1))
  have "ival (fieldSub x y ecc_prime_m) = ival (fieldSub x y ecc_prime_m) mod p256"
    using f(3) [OF assms(3)] by (intro mod_pos_pos_trivial [symmetric]) simp_all
  also have "\<dots> = (ival x - ival y) mod p256" by (rule f(2))
  finally show "ival (fieldSub x y ecc_prime_m) = (ival x - ival y) mod p256" .
qed

lemma product_value: "product a b = Some c \<Longrightarrow> c = a * b mod p256"
  by (simp only: product_def split: if_splits) simp_all

lemma product_bound: "product a b = Some c \<Longrightarrow> 0 \<le> c \<and> c < p256"
  using p256_bounds(1) product_value [of a b c] by simp

lemma mod_bound: "a mod p256 < p256" "0 \<le> a mod p256"
  using p256_bounds(1) by simp_all

lemma small_words:
  "length [1, 0, 0, 0, 0, 0, 0, 0 :: u32] = 8" "ival [1, 0, 0, 0, 0, 0, 0, 0] = 1" "ival [3, 0, 0, 0, 0, 0, 0, 0] = 3" "1 \<le> p256"
  by (simp_all add: p256_def)

lemma ec_double_point:
  assumes "is_point px py P" and "point_double P = Some Q"
  shows "\<exists>Dx Dy. ec_double px py = Some (Dx, Dy) \<and> is_point Dx Dy Q"
proof -
  obtain x y where P: "P = (x, y)" by fastforce
  have p: "length px = 8" "length py = 8" "ival px = x" "ival py = y" "x < p256" "y < p256"
    using assms(1) by (simp_all add: is_point_def P)
  have z: "ecc_isZero px \<and> ecc_isZero py \<longleftrightarrow> x = 0 \<and> y = 0"
    using ecc_isZero_num p by auto
  show ?thesis
  proof (cases "x = 0 \<and> y = 0")
    case True
    then have "Q = (0, 0)" using assms(2) by (simp add: point_double_def P)
    then show ?thesis using True p z p256_bounds(1) by (simp add: ec_double_def is_point_def)
  next
    case False
    obtain a n d l b c where s: "product x x = Some a" "product ((a - 1) mod p256) 3 = Some n" "inverse_p (2 * y) = Some d"
      "product n d = Some l" "product l l = Some b" "product l ((x - (b - 2 * x) mod p256) mod p256) = Some c"
      "Q = ((b - 2 * x) mod p256, (c - y) mod p256)"
      using assms(2) False by (auto simp: point_double_def P Let_def split: bind_splits)
    note bnd = product_bound [OF s(1)] product_bound [OF s(2)] product_bound [OF s(4)] product_bound [OF s(5)] product_bound [OF s(6)]
    define A where "A = fieldModP (fieldMult px px 8)"
    have A: "length A = 8" "ival A = a" using mult_product [OF p(1,1)] s(1) by (simp_all add: A_def p(3))
    define C where "C = fieldSub A [1, 0, 0, 0, 0, 0, 0, 0] ecc_prime_m"
    have C: "length C = 8" "ival C = (a - 1) mod p256"
      using sub_exact [OF A(1) small_words(1)] A(2) bnd small_words by (simp_all add: C_def)
    define N where "N = fieldModP (fieldMult C [3, 0, 0, 0, 0, 0, 0, 0] 8)"
    have N: "length N = 8" "ival N = n"
      using mult_product [OF C(1), of "[3, 0, 0, 0, 0, 0, 0, 0]"] s(2) small_words by (simp_all add: N_def C(2))
    define Y where "Y = fieldAdd py py ecc_prime_r"
    have Y: "length Y = 8" "ival Y mod p256 = (2 * y) mod p256"
      using addP [of py py y] p by (simp_all add: Y_def)
    obtain I where I: "fieldInv Y ecc_prime_m ecc_prime_r = Some I" "length I = 8" "ival I = d"
      using fieldInv_inverse [OF Y(1) s(3) Y(2)] by blast
    define L where "L = fieldModP (fieldMult N I 8)"
    have L: "length L = 8" "ival L = l" using mult_product [OF N(1) I(2)] s(4) by (simp_all add: L_def N(2) I(3))
    define B where "B = fieldModP (fieldMult L L 8)"
    have B: "length B = 8" "ival B = b" using mult_product [OF L(1) L(1)] s(5) by (simp_all add: B_def L(2))
    define E where "E = fieldSub B px ecc_prime_m"
    have E: "length E = 8" "ival E = (b - x) mod p256" using sub_exact [OF B(1) p(1)] B(2) bnd p by (simp_all add: E_def)
    define Dx where "Dx = fieldSub E px ecc_prime_m"
    have Dx: "length Dx = 8" "ival Dx = (b - 2 * x) mod p256"
    proof -
      have "ival Dx = ((b - x) mod p256 - x) mod p256" "length Dx = 8"
        using sub_exact [OF E(1) p(1)] E(2) mod_bound p by (simp_all add: Dx_def)
      then show "length Dx = 8" "ival Dx = (b - 2 * x) mod p256" by (simp_all add: mod_diff_left_eq)
    qed
    define F where "F = fieldSub px Dx ecc_prime_m"
    have F: "length F = 8" "ival F = (x - (b - 2 * x) mod p256) mod p256"
      using sub_exact [OF p(1) Dx(1)] Dx(2) mod_bound p by (simp_all add: F_def less_imp_le)
    define G where "G = fieldModP (fieldMult L F 8)"
    have G: "length G = 8" "ival G = c" using mult_product [OF L(1) F(1)] s(6) by (simp_all add: G_def L(2) F(2))
    define Dy where "Dy = fieldSub G py ecc_prime_m"
    have Dy: "length Dy = 8" "ival Dy = (c - y) mod p256" using sub_exact [OF G(1) p(2)] G(2) bnd p by (simp_all add: Dy_def)
    have "ec_double px py = Some (Dx, Dy)"
      using I(1) by (simp add: ec_double_def Let_def z False A_def [symmetric] C_def [symmetric] N_def [symmetric] Y_def [symmetric]
        L_def [symmetric] B_def [symmetric] E_def [symmetric] Dx_def [symmetric] F_def [symmetric] G_def [symmetric] Dy_def [symmetric])
    moreover have "is_point Dx Dy Q" using Dx Dy mod_bound by (simp add: is_point_def s(7))
    ultimately show ?thesis by blast
  qed
qed

lemma ec_add_point:
  assumes "is_point px py P" and "is_point qx qy P'" and "point_add P P' = Some Q"
  shows "\<exists>Sx Sy. ec_add px py qx qy = Some (Sx, Sy) \<and> is_point Sx Sy Q"
proof -
  obtain x y x' y' where P: "P = (x, y)" "P' = (x', y')" by fastforce
  have p: "length px = 8" "length py = 8" "ival px = x" "ival py = y" "x < p256" "y < p256"
    and q: "length qx = 8" "length qy = 8" "ival qx = x'" "ival qy = y'" "x' < p256" "y' < p256"
    using assms(1,2) by (simp_all add: is_point_def P)
  have z: "ecc_isZero px \<and> ecc_isZero py \<longleftrightarrow> x = 0 \<and> y = 0" "ecc_isZero qx \<and> ecc_isZero qy \<longleftrightarrow> x' = 0 \<and> y' = 0"
    "ecc_isSame px qx 8 \<longleftrightarrow> x = x'" "ecc_isSame py qy 8 \<longleftrightarrow> y = y'"
    using ecc_isZero_num ecc_isSame_num p q by auto
  consider "x = 0 \<and> y = 0" | "\<not> (x = 0 \<and> y = 0)" "x' = 0 \<and> y' = 0"
    | "\<not> (x = 0 \<and> y = 0)" "\<not> (x' = 0 \<and> y' = 0)" "x = x'" | "\<not> (x = 0 \<and> y = 0)" "\<not> (x' = 0 \<and> y' = 0)" "x \<noteq> x'" by blast
  then show ?thesis
  proof cases
    case 1
    then show ?thesis using assms(3) q z by (auto simp: ec_add_def point_add_def P is_point_def)
  next
    case 2
    then show ?thesis using assms(3) p z by (auto simp: ec_add_def point_add_def P is_point_def)
  next
    case 3
    show ?thesis
    proof (cases "y = y'")
      case True
      then have "ec_add px py qx qy = ec_double px py" "point_double P = Some Q"
        using 3 assms(3) z by (auto simp: ec_add_def point_add_def P)
      then show ?thesis using ec_double_point [OF assms(1)] by simp
    next
      case False
      then show ?thesis using 3 assms(3) z p256_bounds(1) by (auto simp: ec_add_def point_add_def P is_point_def)
    qed
  next
    case 4
    obtain d l b c where s: "inverse_p (x - x') = Some d" "product ((y - y') mod p256) d = Some l" "product l l = Some b"
      "product l ((x' - (b - x - x') mod p256) mod p256) = Some c" "Q = ((b - x - x') mod p256, (c - y') mod p256)"
      using assms(3) 4 by (auto simp: point_add_def P Let_def split: bind_splits)
    note bnd = product_bound [OF s(2)] product_bound [OF s(3)] product_bound [OF s(4)]
    define A where "A = fieldSub py qy ecc_prime_m"
    have A: "length A = 8" "ival A = (y - y') mod p256" using sub_exact [OF p(2) q(2)] p q by (simp_all add: A_def)
    define X where "X = fieldSub px qx ecc_prime_m"
    have X: "length X = 8" "ival X = (x - x') mod p256" using sub_exact [OF p(1) q(1)] p q by (simp_all add: X_def)
    obtain I where I: "fieldInv X ecc_prime_m ecc_prime_r = Some I" "length I = 8" "ival I = d"
      using fieldInv_inverse [OF X(1) s(1)] X(2) by auto
    define L where "L = fieldModP (fieldMult A I 8)"
    have L: "length L = 8" "ival L = l" using mult_product [OF A(1) I(2)] s(2) by (simp_all add: L_def A(2) I(3))
    define B where "B = fieldModP (fieldMult L L 8)"
    have B: "length B = 8" "ival B = b" using mult_product [OF L(1) L(1)] s(3) by (simp_all add: B_def L(2))
    define E where "E = fieldSub B px ecc_prime_m"
    have E: "length E = 8" "ival E = (b - x) mod p256" using sub_exact [OF B(1) p(1)] B(2) bnd p by (simp_all add: E_def)
    define Sx where "Sx = fieldSub E qx ecc_prime_m"
    have Sx: "length Sx = 8" "ival Sx = (b - x - x') mod p256"
      using sub_exact [OF E(1) q(1)] E(2) mod_bound q by (simp_all add: Sx_def mod_diff_left_eq)
    define F where "F = fieldSub qx Sx ecc_prime_m"
    have F: "length F = 8" "ival F = (x' - (b - x - x') mod p256) mod p256"
      using sub_exact [OF q(1) Sx(1)] Sx(2) mod_bound q by (simp_all add: F_def less_imp_le)
    define G where "G = fieldModP (fieldMult L F 8)"
    have G: "length G = 8" "ival G = c" using mult_product [OF L(1) F(1)] s(4) by (simp_all add: G_def L(2) F(2))
    define Sy where "Sy = fieldSub G qy ecc_prime_m"
    have Sy: "length Sy = 8" "ival Sy = (c - y') mod p256" using sub_exact [OF G(1) q(2)] G(2) bnd q by (simp_all add: Sy_def)
    have "ec_add px py qx qy = Some (Sx, Sy)"
      using I(1) by (simp add: ec_add_def Let_def z 4 A_def [symmetric] X_def [symmetric]
        L_def [symmetric] B_def [symmetric] E_def [symmetric] Sx_def [symmetric] F_def [symmetric] G_def [symmetric] Sy_def [symmetric])
    moreover have "is_point Sx Sy Q" using Sx Sy mod_bound by (simp add: is_point_def s(5))
    ultimately show ?thesis by blast
  qed
qed

subsection \<open>The multiplication loop\<close>

lemma secret_bit:
  assumes "length secret = 8" and "i < 256"
  shows "secret ! (i div 32) AND push_bit (i mod 32) 1 \<noteq> 0 \<longleftrightarrow> odd (num32 secret div 2 ^ i)"
proof -
  let ?w = "secret ! (i div 32)"
  have i: "i = 32 * (i div 32) + i mod 32" by simp
  have d: "i div 32 < 8" using assms(2) by simp
  have "?w AND push_bit (i mod 32) 1 \<noteq> 0 \<longleftrightarrow> bit ?w (i mod 32)"
  proof
    assume "bit ?w (i mod 32)"
    then have "bit (?w AND push_bit (i mod 32) 1) (i mod 32)" by (simp add: bit_simps)
    then show "?w AND push_bit (i mod 32) 1 \<noteq> 0" by auto
  next
    assume n: "?w AND push_bit (i mod 32) 1 \<noteq> 0"
    show "bit ?w (i mod 32)"
    proof (rule ccontr)
      assume b: "\<not> bit ?w (i mod 32)"
      have "?w AND push_bit (i mod 32) 1 = 0"
        using b by (intro bit_word_eqI) (auto simp: bit_simps le_antisym)
      then show False using n by simp
    qed
  qed
  also have "\<dots> \<longleftrightarrow> bit (unat ?w) (i mod 32)" by (simp add: bit_unsigned_iff)
  also have "\<dots> \<longleftrightarrow> odd (unat ?w div 2 ^ (i mod 32))" by (rule bit_iff_odd)
  also have "unat ?w = num32 secret div 2 ^ (32 * (i div 32)) mod 2 ^ 32" using num32_word [of "i div 32" secret] assms(1) d by simp
  also have "odd (num32 secret div 2 ^ (32 * (i div 32)) mod 2 ^ 32 div 2 ^ (i mod 32)) \<longleftrightarrow>
      odd (num32 secret div 2 ^ (32 * (i div 32)) div 2 ^ (i mod 32))"
  proof -
    obtain k where k: "32 = i mod 32 + Suc k" by (metis add_Suc_right less_iff_Suc_add mod_less_divisor zero_less_numeral)
    have "x mod 2 ^ (j + Suc k) div 2 ^ j = x div 2 ^ j mod 2 ^ Suc k" for x j :: nat
      by (simp only: power_add mod_mult2_eq) simp
    from this [of _ "i mod 32"] k show ?thesis by (metis dvd_mod_iff dvd_power zero_less_Suc)
  qed
  also have "num32 secret div 2 ^ (32 * (i div 32)) div 2 ^ (i mod 32) = num32 secret div 2 ^ i"
    by (simp flip: div_mult2_eq power_add)
  finally show ?thesis .
qed

lemma ec_mult_loop_point:
  assumes "length secret = 8" and "is_point px py P" and "is_point Qx Qy Q" and "i \<le> 256"
    and "point_mult P (num32 secret) i Q = Some R"
  shows "\<exists>Rx Ry. ec_mult_loop px py secret i Qx Qy = Some (Rx, Ry) \<and> is_point Rx Ry R"
  using assms(3-5)
proof (induction i arbitrary: Qx Qy Q)
  case (Suc i)
  obtain D E where s: "point_double Q = Some D" "(if odd (num32 secret div 2 ^ i) then point_add D P else Some D) = Some E"
    "point_mult P (num32 secret) i E = Some R"
    using Suc.prems(3) by (auto split: bind_splits)
  obtain Dx Dy where D: "ec_double Qx Qy = Some (Dx, Dy)" "is_point Dx Dy D"
    using ec_double_point [OF Suc.prems(1) s(1)] by blast
  have b: "secret ! (i div 32) AND push_bit (i mod 32) 1 \<noteq> 0 \<longleftrightarrow> odd (num32 secret div 2 ^ i)"
    using secret_bit [OF assms(1)] Suc.prems(2) by simp
  obtain Ex Ey where E: "(if odd (num32 secret div 2 ^ i) then ec_add Dx Dy px py else Some (Dx, Dy)) = Some (Ex, Ey)" "is_point Ex Ey E"
    using ec_add_point [OF D(2) assms(2)] D(2) s(2) by (cases "odd (num32 secret div 2 ^ i)") auto
  obtain Rx Ry where "ec_mult_loop px py secret i Ex Ey = Some (Rx, Ry)" "is_point Rx Ry R"
    using Suc.IH [OF E(2) _ s(3)] Suc.prems(2) by auto
  then show ?case using D(1) E(1) by (simp only: ec_mult_loop.simps b bind.bind_lunit prod.case) blast
qed auto

subsection \<open>Staying on the curve\<close>

text \<open>The curve \<open>y\<^sup>2 = x\<^sup>3 - 3 x + b\<close>; the constant \<open>b\<close> does not occur in the code, and nothing checks it.\<close>

definition on_curve :: "int \<Rightarrow> int \<times> int \<Rightarrow> bool" where
  "on_curve b P \<longleftrightarrow> P = (0, 0) \<or> p256 dvd (snd P ^ 2 - (fst P ^ 3 - 3 * fst P + b))"

lemma tangent_on_curve:
  fixes x y l x3 y3 b :: int
  assumes "m dvd (y\<^sup>2 - (x ^ 3 - 3 * x + b))" and "m dvd (2 * y * l - 3 * (x\<^sup>2 - 1))"
    and "m dvd (x3 - (l\<^sup>2 - 2 * x))" and "m dvd (y3 - (l * (x - x3) - y))"
  shows "m dvd (y3\<^sup>2 - (x3 ^ 3 - 3 * x3 + b))"
proof -
  define c where "c = y\<^sup>2 - (x ^ 3 - 3 * x + b)"
  define t where "t = 2 * y * l - 3 * (x\<^sup>2 - 1)"
  define e where "e = x3 - (l\<^sup>2 - 2 * x)"
  define g where "g = y3 - (l * (x - x3) - y)"
  have y3: "y3 = g + (l * (x - x3) - y)" by (simp add: g_def)
  have "y3\<^sup>2 - (x3 ^ 3 - 3 * x3 + b) =
      c + (x3 - x) * t - (x3 - x)\<^sup>2 * e + g * (y3 + (l * (x - x3) - y))"
    unfolding y3 by (simp add: c_def t_def e_def power2_eq_square power3_eq_cube algebra_simps)
  moreover have "m dvd c" "m dvd t" "m dvd e" "m dvd g" using assms unfolding c_def t_def e_def g_def .
  ultimately show ?thesis by simp
qed

lemma chord_on_curve:
  fixes x y l x3 y3 x' y' b :: int
  assumes "m dvd (y\<^sup>2 - (x ^ 3 - 3 * x + b))" and "m dvd (y'\<^sup>2 - (x' ^ 3 - 3 * x' + b))" and "coprime (x - x') m"
    and "m dvd (l * (x - x') - (y - y'))" and "m dvd (x3 - (l\<^sup>2 - x - x'))" and "m dvd (y3 - (l * (x' - x3) - y'))"
  shows "m dvd (y3\<^sup>2 - (x3 ^ 3 - 3 * x3 + b))"
proof -
  define c where "c = y\<^sup>2 - (x ^ 3 - 3 * x + b)"
  define c' where "c' = y'\<^sup>2 - (x' ^ 3 - 3 * x' + b)"
  define e where "e = x3 - (l\<^sup>2 - x - x')"
  define g where "g = y3 - (l * (x' - x3) - y')"
  define k where "k = l * (x - x') - (y - y')"
  define \<alpha> where "\<alpha> = x\<^sup>2 + x * x' + x'\<^sup>2 - 3 - l\<^sup>2 * (x - x') - 2 * l * y'"
  have d: "m dvd c" "m dvd c'" "m dvd k" "m dvd e" "m dvd g" using assms unfolding c_def c'_def k_def e_def g_def by blast+
  have "\<alpha> * (x - x') = c' - c - k * (k + 2 * y)"
    by (simp add: \<alpha>_def c_def c'_def k_def power2_eq_square power3_eq_cube algebra_simps)
  then have "m dvd \<alpha> * (x - x')" using d by simp
  then have a: "m dvd \<alpha>" using assms(3) by (simp add: coprime_dvd_mult_left_iff coprime_commute)
  have y3: "y3 = g + (l * (x' - x3) - y')" by (simp add: g_def)
  have "y3\<^sup>2 - (x3 ^ 3 - 3 * x3 + b) =
      c' - \<alpha> * (x3 - x') - (x3 - x') * (x3 - x) * e + g * (y3 + (l * (x' - x3) - y'))"
    unfolding y3 by (simp add: c'_def e_def \<alpha>_def power2_eq_square power3_eq_cube algebra_simps)
  then show ?thesis using d a by simp
qed

lemma dvd_mod_p256: "p256 dvd (a mod p256 - a)"
  by (simp add: mod_eq_dvd_iff [symmetric])

lemma dvd_product: "product a b = Some c \<Longrightarrow> p256 dvd (c - a * b)"
  using product_value [of a b c] by (simp add: dvd_mod_p256)

lemma dvd_inverse: "inverse_p a = Some d \<Longrightarrow> p256 dvd (d * a - 1)"
proof -
  assume "inverse_p a = Some d"
  then have "d * a mod p256 = 1 mod p256" using inverse_p_num(4) p256_bounds(1) by (simp add: p256_def)
  then show ?thesis by (simp only: mod_eq_dvd_iff)
qed

lemma point_double_on_curve:
  assumes "on_curve b P" and "point_double P = Some Q"
  shows "on_curve b Q"
proof -
  obtain x y where P: "P = (x, y)" by fastforce
  show ?thesis
  proof (cases "x = 0 \<and> y = 0")
    case True
    then show ?thesis using assms(2) by (auto simp: point_double_def P on_curve_def)
  next
    case False
    obtain a n d l c e where s: "product x x = Some a" "product ((a - 1) mod p256) 3 = Some n" "inverse_p (2 * y) = Some d"
      "product n d = Some l" "product l l = Some c" "product l ((x - (c - 2 * x) mod p256) mod p256) = Some e"
      "Q = ((c - 2 * x) mod p256, (e - y) mod p256)"
      using assms(2) False by (auto simp: point_double_def P Let_def split: bind_splits)
    define x3 where "x3 = (c - 2 * x) mod p256"
    define y3 where "y3 = (e - y) mod p256"
    define A where "A = (a - 1) mod p256"
    define F where "F = (x - x3) mod p256"
    have d: "p256 dvd (a - x * x)" "p256 dvd (n - A * 3)" "p256 dvd (d * (2 * y) - 1)" "p256 dvd (l - n * d)" "p256 dvd (c - l * l)"
      "p256 dvd (e - l * F)" "p256 dvd (x3 - (c - 2 * x))" "p256 dvd (y3 - (e - y))" "p256 dvd (A - (a - 1))" "p256 dvd (F - (x - x3))"
      using s(1-6) dvd_mod_p256 by (simp_all add: dvd_product dvd_inverse x3_def y3_def A_def F_def)
    have "2 * y * l - 3 * (x\<^sup>2 - 1) = 2 * y * (l - n * d) + n * (d * (2 * y) - 1) + (n - A * 3) + 3 * (A - (a - 1)) + 3 * (a - x * x)"
      by (simp add: power2_eq_square algebra_simps)
    then have t: "p256 dvd (2 * y * l - 3 * (x\<^sup>2 - 1))" using d(1-4,9) by (simp only: dvd_add dvd_mult)
    have "x3 - (l\<^sup>2 - 2 * x) = (x3 - (c - 2 * x)) + (c - l * l)" by (simp add: power2_eq_square)
    then have u: "p256 dvd (x3 - (l\<^sup>2 - 2 * x))" using d(5,7) by (simp only: dvd_add)
    have "y3 - (l * (x - x3) - y) = (y3 - (e - y)) + (e - l * F) + l * (F - (x - x3))" by (simp add: algebra_simps)
    then have v: "p256 dvd (y3 - (l * (x - x3) - y))" using d(6,8,10) by (simp only: dvd_add dvd_mult)
    have "p256 dvd (y\<^sup>2 - (x ^ 3 - 3 * x + b))" using assms(1) False by (auto simp: on_curve_def P)
    from tangent_on_curve [OF this t u v] show ?thesis by (simp add: on_curve_def s(7) x3_def y3_def)
  qed
qed

lemma point_add_on_curve:
  assumes "on_curve b P" and "on_curve b P'" and "point_add P P' = Some Q"
  shows "on_curve b Q"
proof -
  obtain x y x' y' where P: "P = (x, y)" "P' = (x', y')" by fastforce
  show ?thesis
  proof (cases "x = 0 \<and> y = 0 \<or> x' = 0 \<and> y' = 0 \<or> x = x'")
    case True
    then show ?thesis using assms point_double_on_curve [OF assms(1)]
      by (auto simp: point_add_def P on_curve_def split: if_splits)
  next
    case False
    obtain d l c e where s: "inverse_p (x - x') = Some d" "product ((y - y') mod p256) d = Some l" "product l l = Some c"
      "product l ((x' - (c - x - x') mod p256) mod p256) = Some e" "Q = ((c - x - x') mod p256, (e - y') mod p256)"
      using assms(3) False by (auto simp: point_add_def P Let_def split: bind_splits)
    define x3 where "x3 = (c - x - x') mod p256"
    define y3 where "y3 = (e - y') mod p256"
    define A where "A = (y - y') mod p256"
    define F where "F = (x' - x3) mod p256"
    have d: "p256 dvd (l - A * d)" "p256 dvd (d * (x - x') - 1)" "p256 dvd (A - (y - y'))" "p256 dvd (c - l * l)"
      "p256 dvd (e - l * F)" "p256 dvd (x3 - (c - x - x'))" "p256 dvd (y3 - (e - y'))" "p256 dvd (F - (x' - x3))"
      using s(1-4) dvd_mod_p256 by (simp_all add: dvd_product dvd_inverse x3_def y3_def A_def F_def)
    have "l * (x - x') - (y - y') = (x - x') * (l - A * d) + A * (d * (x - x') - 1) + (A - (y - y'))"
      by (simp add: algebra_simps)
    then have t: "p256 dvd (l * (x - x') - (y - y'))" using d(1-3) by (simp only: dvd_add dvd_mult)
    have "x3 - (l\<^sup>2 - x - x') = (x3 - (c - x - x')) + (c - l * l)" by (simp add: power2_eq_square)
    then have u: "p256 dvd (x3 - (l\<^sup>2 - x - x'))" using d(4,6) by (simp only: dvd_add)
    have "y3 - (l * (x' - x3) - y') = (y3 - (e - y')) + (e - l * F) + l * (F - (x' - x3))" by (simp add: algebra_simps)
    then have v: "p256 dvd (y3 - (l * (x' - x3) - y'))" using d(5,7,8) by (simp only: dvd_add dvd_mult)
    have "p256 dvd (y\<^sup>2 - (x ^ 3 - 3 * x + b))" "p256 dvd (y'\<^sup>2 - (x' ^ 3 - 3 * x' + b))"
      using assms(1,2) False by (auto simp: on_curve_def P)
    from chord_on_curve [OF this inverse_p_num(1) [OF s(1)] t u v] show ?thesis by (simp add: on_curve_def s(5) x3_def y3_def)
  qed
qed

lemma point_mult_on_curve:
  "on_curve b P \<Longrightarrow> on_curve b Q \<Longrightarrow> point_mult P k i Q = Some R \<Longrightarrow> on_curve b R"
proof (induction i arbitrary: Q)
  case (Suc i)
  obtain D E where "point_double Q = Some D" "(if odd (k div 2 ^ i) then point_add D P else Some D) = Some E" "point_mult P k i E = Some R"
    using Suc.prems(3) by (auto split: bind_splits)
  then show ?case
    using Suc.IH [of E] Suc.prems(1,2) point_double_on_curve [of b Q D] point_add_on_curve [of b D P E]
    by (cases "odd (k div 2 ^ i)") auto
qed simp

subsection \<open>A point on which the loop does not return\<close>

lemma ec_double_hangs:
  assumes "length px = 8" and "length py = 8" and "num32 px \<noteq> 0" and "num32 py = 0"
  shows "ec_double px py = None"
proof -
  have "\<not> (ecc_isZero px \<and> ecc_isZero py)" using ecc_isZero_num assms by auto
  moreover have "fieldInv (fieldAdd py py ecc_prime_r) ecc_prime_m ecc_prime_r = None"
    using fieldAdd_value [of py py ecc_prime_r] assms num32_constants(7)
    by (intro fieldInv_zero [OF moduli_ok(1)]) (simp_all add: add_value_def)
  ultimately show ?thesis by (simp add: ec_double_def Let_def)
qed

lemma ec_mult_loop_hangs:
  assumes "length px = 8" and "length py = 8" and "num32 px \<noteq> 0" and "num32 py = 0" and "length secret = 8"
    and "i \<le> 256" and "num32 secret < 2 ^ i" and "2 \<le> num32 secret"
  shows "ec_mult_loop px py secret i (replicate 8 0) (replicate 8 0) = None"
  using assms(6,7)
proof (induction i)
  case 0
  then show ?case using assms(8) by simp
next
  case (Suc i)
  have z: "ecc_isZero (replicate 8 0)" by (simp add: ecc_isZero_num)
  have d: "ec_double (replicate 8 0) (replicate 8 0) = Some (replicate 8 0, replicate 8 0)" by (simp add: ec_double_def z)
  have b: "secret ! (i div 32) AND push_bit (i mod 32) 1 \<noteq> 0 \<longleftrightarrow> odd (num32 secret div 2 ^ i)"
    using secret_bit [OF assms(5)] Suc.prems(1) by simp
  show ?case
  proof (cases "num32 secret < 2 ^ i")
    case True
    then show ?thesis using Suc d b by simp
  next
    case False
    then have "num32 secret div 2 ^ i = 1" using Suc.prems(2) by (intro div_nat_eqI) simp_all
    then have q: "secret ! (i div 32) AND push_bit (i mod 32) 1 \<noteq> 0" using b by simp
    obtain j where j: "i = Suc j" using Suc.prems(2) assms(8) by (cases i) auto
    have "ec_mult_loop px py secret i px py = None"
      using ec_double_hangs [OF assms(1-4)] by (simp add: j)
    then show ?thesis using d q assms(1,2) z by (simp add: ec_add_def)
  qed
qed

text \<open>C7: \<open>ecc_ec_mult\<close> refines double-and-add with the chord-and-tangent formulas over the integers modulo
  the prime of secp256r1, as long as no product has a full word where \<open>fieldModP\<close> fails and no denominator
  is zero: it returns, with coordinates below the prime that are those of the formulas, and for every \<open>b\<close>
  the result is a point of the curve \<open>y\<^sup>2 = x\<^sup>3 - 3 x + b\<close>, or (0, 0), if the argument is.\<close>

theorem ec_mult_refines:
  assumes "is_point px py P" and "length secret = 8" and "on_curve b P"
    and "point_mult P (num32 secret) 256 (0, 0) = Some R"
  shows "\<exists>Rx Ry. ecc_ec_mult px py secret = Some (Rx, Ry) \<and> is_point Rx Ry R \<and> on_curve b R"
proof -
  have "is_point (replicate 8 0) (replicate 8 0) (0, 0)" using p256_bounds(1) by (simp add: is_point_def)
  then obtain Rx Ry where "ecc_ec_mult px py secret = Some (Rx, Ry)" "is_point Rx Ry R"
    using ec_mult_loop_point [OF assms(2,1) _ _ assms(4)] unfolding ecc_ec_mult_def by blast
  moreover have "on_curve b (0, 0)" by (simp add: on_curve_def)
  then have "on_curve b R" by (rule point_mult_on_curve [OF assms(3) _ assms(4)])
  ultimately show ?thesis by blast
qed

text \<open>C20: \<open>ecc_ec_mult\<close> does not return for a point with \<open>y\<close> coordinate 0, such as a peer may send as its
  ephemeral key, and a secret of at least 2: the second doubling inverts 0.\<close>

theorem ec_mult_hangs:
  assumes "length px = 8" and "length py = 8" and "num32 px \<noteq> 0" and "num32 py = 0" and "length secret = 8"
    and "2 \<le> num32 secret"
  shows "ecc_ec_mult px py secret = None"
  unfolding ecc_ec_mult_def
  by (rule ec_mult_loop_hangs [OF assms(1-5) _ _ assms(6)]) (use num32_less [of secret] assms(5) in simp_all)

subsection \<open>Witnesses\<close>

definition ecc_g_point_x :: ecc_words where
  "ecc_g_point_x = [0xD898C296, 0xF4A13945, 0x2DEB33A0, 0x77037D81, 0x63A440F2, 0xF8BCE6E5, 0xE12C4247, 0x6B17D1F2]"

definition ecc_g_point_y :: ecc_words where
  "ecc_g_point_y = [0x37BF51F5, 0xCBB64068, 0x6B315ECE, 0x2BCE3357, 0x7C0F9E16, 0x8EE7EB4A, 0xFE1A7F9B, 0x4FE342E2]"

definition gx :: int where "gx = 0x6B17D1F2E12C4247F8BCE6E563A440F277037D812DEB33A0F4A13945D898C296"
definition gy :: int where "gy = 0x4FE342E2FE1A7F9B8EE7EB4A7C0F9E162BCE33576B315ECECBB6406837BF51F5"

lemma mult_idle: "point_mult P k (i + j) (0, 0) = point_mult P k i (0, 0)" if "k < 2 ^ i"
proof (induction j)
  case (Suc j)
  have "k div 2 ^ (i + j) = 0" using that by (simp add: power_add div_mult2_eq)
  then show ?case using Suc by (simp add: point_double_def)
qed simp

text \<open>Inverses and products given with the quotients.\<close>

lemma inverse_pI:
  assumes "i * a = q * p256 + 1" and "0 \<le> i" and "i < p256"
  shows "inverse_p a = Some i"
proof -
  have one: "i * a mod p256 = 1" using assms(1) by (simp add: p256_def)
  have "gcd a p256 dvd i * a - q * p256" by (intro dvd_diff dvd_mult) simp_all
  then have "gcd a p256 = 1" using assms(1) by simp
  then have c: "gcd p256 (a mod p256) = 1" by (simp only: gcd_red_int [of a p256])
  obtain g s where e: "euclid p256 0 (a mod p256) 1 = (g, s)" by fastforce
  have "g = gcd p256 (a mod p256) \<and> p256 dvd (s * (a mod p256) - g)"
    by (rule euclid_num [OF e]) (use p256_bounds(1) in simp_all)
  then have j: "inverse_p a = Some (s mod p256)" by (simp add: inverse_p_def e c)
  note n = inverse_p_num [OF j]
  from inverse_unique [OF n(1) assms(2,3) one n(2-4)] show ?thesis using j by simp
qed

lemma productI:
  assumes "a * b = ival ws" and "length ws = 16" and "reducible ws" and "a * b = q * p256 + c" and "0 \<le> c" and "c < p256"
  shows "product a b = Some c"
proof -
  have w: "ival ws div 2 ^ (32 * i) mod 2 ^ 32 \<noteq> 2 ^ 32 - 1" if "i < 16" "ws ! i \<noteq> 0xffffffff" for i
  proof
    assume "ival ws div 2 ^ (32 * i) mod 2 ^ 32 = 2 ^ 32 - 1"
    moreover have "ival ws div 2 ^ (32 * i) mod 2 ^ 32 = int (num32 ws div 2 ^ (32 * i) mod 2 ^ 32)" by (simp add: of_nat_mod of_nat_div)
    ultimately have "int (unat (ws ! i)) = 2 ^ 32 - 1" using num32_word [of i ws] that(1) assms(2) by simp
    then have "unat (ws ! i) = 2 ^ 32 - 1" by (simp only: of_nat_eq_iff [symmetric, where 'a = int]) simp
    then have "unat (ws ! i) = unat (0xffffffff :: u32)" by simp
    then show False using that(2) by (simp only: word_unat_eq_iff)
  qed
  have "list_all (\<lambda>i. a * b div 2 ^ (32 * i) mod 2 ^ 32 \<noteq> 2 ^ 32 - 1) [8, 10, 11, 12, 13, 15]"
    using assms(3) unfolding reducible_def assms(1) list.pred_inject simp_thms by (intro conjI w; simp)
  moreover have "a * b mod p256 = c" using assms(4-6) by simp
  ultimately show ?thesis by (simp only: product_def if_True)
qed

lemma inverse_2gy: "inverse_p 0x9FC685C5FC34FF371DCFD694F81F3C2C579C66AED662BD9D976C80D06F7EA3EA = Some 0x7D13D1ED160030C54147C66B2E0D48CF7FE33DFB45A6DD82DDED53BAE22EA01A"
  by (rule inverse_pI [of _ _ "0x4E104E12F3A38FC09AEA0BAF29696D6F7BD7BD47A01A49F9D3CCD9AB7EA51A3D"]) (simp_all add: p256_def)

lemma double_g_products:
  "product gx gx = Some 0x98F6B84D29BEF2B281819A5E0E3690D833B699495D694DD1002AE56C426B3F8C"
  "product 0x98F6B84D29BEF2B281819A5E0E3690D833B699495D694DD1002AE56C426B3F8B 3 = Some 0xCAE428E87D3CD8168484CF1A2AA3B2889B23CBDB183BE9730080B044C741BEA2"
  "product 0xCAE428E87D3CD8168484CF1A2AA3B2889B23CBDB183BE9730080B044C741BEA2 0x7D13D1ED160030C54147C66B2E0D48CF7FE33DFB45A6DD82DDED53BAE22EA01A = Some 0xA249BCB3191802D3CB56FC75A8731F848E7B2CAF080F3477A4E4D904A671AF9D"
  "product 0xA249BCB3191802D3CB56FC75A8731F848E7B2CAF080F3477A4E4D904A671AF9D 0xA249BCB3191802D3CB56FC75A8731F848E7B2CAF080F3477A4E4D904A671AF9D = Some 0x53221EFF4F5BD40D7BCC05CDCBFD9CA8AE9064E3D3C882778F4DBB87F8981EA5"
  "product 0xA249BCB3191802D3CB56FC75A8731F848E7B2CAF080F3477A4E4D904A671AF9D 0xEE2556D95428F2CA6E6AAEE25EEF262EB67A139FB5F9186B4E95F0499132291D = Some 0x575A97F3D9A94FDBB82586111B83CEF1E64BE13DA81AE0F869BAF8055A37C5C6"
proof -
  show "product gx gx = Some 0x98F6B84D29BEF2B281819A5E0E3690D833B699495D694DD1002AE56C426B3F8C"
    by (rule productI [of _ _ "[0xC607AFE4, 0x30EDD460, 0xD36CD015, 0x1FFD1A5B, 0xE3A13ECA, 0xC89DE54F, 0x9B64B5C2, 0xB8D5B111, 0x7A032F22, 0x70387D12, 0x207EBDF8, 0xD92ADE46, 0x51CD0B7C, 0xD4D24355, 0x6E0DEF74, 0x2CCCEBB8]" "0x2CCCEBB89ADADB2D42E032C9F9D26319901D0E9589FC7DBBCF3D110B7C638FA8"])
      (simp_all add: p256_def gx_def reducible_def)
  show "product 0x98F6B84D29BEF2B281819A5E0E3690D833B699495D694DD1002AE56C426B3F8B 0x3 = Some 0xCAE428E87D3CD8168484CF1A2AA3B2889B23CBDB183BE9730080B044C741BEA2"
    by (rule productI [of _ _ "[0xC741BEA1, 0x80B044, 0x183BE973, 0x9B23CBDC, 0x2AA3B288, 0x8484CF1A, 0x7D3CD817, 0xCAE428E7, 0x1, 0x0, 0x0, 0x0, 0x0, 0x0, 0x0, 0x0]" "0x1"])
      (simp_all add: p256_def gx_def reducible_def)
  show "product 0xCAE428E87D3CD8168484CF1A2AA3B2889B23CBDB183BE9730080B044C741BEA2 0x7D13D1ED160030C54147C66B2E0D48CF7FE33DFB45A6DD82DDED53BAE22EA01A = Some 0xA249BCB3191802D3CB56FC75A8731F848E7B2CAF080F3477A4E4D904A671AF9D"
    by (rule productI [of _ _ "[0x98EE9C74, 0x4C0DC354, 0x3F708901, 0x3C48AB12, 0xE3405AD7, 0x1B9FFB59, 0x68B81CCD, 0xA8867C4E, 0xF5A05581, 0xD868CF4, 0xEA140E57, 0xBA0166FA, 0xC34CBBC0, 0xBDDE3BE5, 0xBA7770AC, 0x63211D48]" "0x63211D491D988DF57855AC921E09DA5D5FB594C5C89EAB7658D715B00D831329"])
      (simp_all add: p256_def gx_def reducible_def)
  show "product 0xA249BCB3191802D3CB56FC75A8731F848E7B2CAF080F3477A4E4D904A671AF9D 0xA249BCB3191802D3CB56FC75A8731F848E7B2CAF080F3477A4E4D904A671AF9D = Some 0x53221EFF4F5BD40D7BCC05CDCBFD9CA8AE9064E3D3C882778F4DBB87F8981EA5"
    by (rule productI [of _ _ "[0x1D120649, 0x53254924, 0x8EF211BA, 0xF8BE5584, 0x7E7FF0D4, 0xE34F7059, 0x805A6EA7, 0xD6892F2E, 0xC1871CE6, 0xC489CEDE, 0xA405CF49, 0xE5050FB5, 0xE832BD82, 0x854C8C4, 0xD4FE3D6D, 0x66E1680F]" "0x66E168103BDFA57CDD53063189A61E37915827BB44D670BD3C287263DB86185C"])
      (simp_all add: p256_def gx_def reducible_def)
  show "product 0xA249BCB3191802D3CB56FC75A8731F848E7B2CAF080F3477A4E4D904A671AF9D 0xEE2556D95428F2CA6E6AAEE25EEF262EB67A139FB5F9186B4E95F0499132291D = Some 0x575A97F3D9A94FDBB82586111B83CEF1E64BE13DA81AE0F869BAF8055A37C5C6"
    by (rule productI [of _ _ "[0x49AB09C9, 0x714C7EA0, 0xB2B5CF3E, 0x25ED3FA1, 0x211E067B, 0x6C5840C8, 0xD1B2F79A, 0x9B185E11, 0x4EB5AB54, 0xBD63371B, 0xAE462F22, 0x1F4972C0, 0x9B105CB0, 0xEEBC1E51, 0x527638B1, 0x96F83925]" "0x96F83925E96E71D741325702F2D441DBD0EB5D98F56511B9F86E7965108CBBFD"])
      (simp_all add: p256_def gx_def reducible_def)
qed

lemma double_g: "point_double (gx, gy) = Some (0x7CF27B188D034F7E8A52380304B51AC3C08969E277F21B35A60B48FC47669978, 0x7775510DB8ED040293D9AC69F7430DBBA7DADE63CE982299E04B79D227873D1)"
proof -
  have m: "(0x98F6B84D29BEF2B281819A5E0E3690D833B699495D694DD1002AE56C426B3F8C - 1) mod p256 = 0x98F6B84D29BEF2B281819A5E0E3690D833B699495D694DD1002AE56C426B3F8B"
    "2 * gy = 0x9FC685C5FC34FF371DCFD694F81F3C2C579C66AED662BD9D976C80D06F7EA3EA"
    "(0x53221EFF4F5BD40D7BCC05CDCBFD9CA8AE9064E3D3C882778F4DBB87F8981EA5 - 2 * gx) mod p256 = 0x7CF27B188D034F7E8A52380304B51AC3C08969E277F21B35A60B48FC47669978"
    "(gx - 0x7CF27B188D034F7E8A52380304B51AC3C08969E277F21B35A60B48FC47669978) mod p256 = 0xEE2556D95428F2CA6E6AAEE25EEF262EB67A139FB5F9186B4E95F0499132291D"
    "(0x575A97F3D9A94FDBB82586111B83CEF1E64BE13DA81AE0F869BAF8055A37C5C6 - gy) mod p256 = 0x7775510DB8ED040293D9AC69F7430DBBA7DADE63CE982299E04B79D227873D1" "gx \<noteq> 0"
    by (simp_all add: p256_def gx_def gy_def)
  show ?thesis
    unfolding point_double_def prod.case by (simp only: m double_g_products inverse_2gy bind.bind_lunit Let_def simp_thms if_False)
qed

lemma inverse_2gx_gx: "inverse_p 0x11DAA925ABD70D369195511DA110D9D14985EC614A06E794B16A0FB66ECDD6E2 = Some 0x5CD14F7B0DB3AE51C4B8A837B2F5EFD55EA52A15F4802742D3248C306AE52D7"
  by (rule inverse_pI [of _ _ "0x6792DD8B73248EE85EF4C700D42BD5F58BD6B980F8925414EDFD33A8B02433"]) (simp_all add: p256_def)

lemma add_g_products:
  "product 0xB794122CDD7450A59A55AF7C236492C58EAF7A8FD1B8235AD24E7734EAB921DB 0x5CD14F7B0DB3AE51C4B8A837B2F5EFD55EA52A15F4802742D3248C306AE52D7 = Some 0x28CDB0FE6681D140C59FB73F85F16459CA4CEE083742BADA762DE4CA226A8086"
  "product 0x28CDB0FE6681D140C59FB73F85F16459CA4CEE083742BADA762DE4CA226A8086 0x28CDB0FE6681D140C59FB73F85F16459CA4CEE083742BADA762DE4CA226A8086 = Some 0x46D631DE14629C0A4C070E7D85A54D1C1E539E84958AF85C95EDE85DE6E7597B"
  "product 0x28CDB0FE6681D140C59FB73F85F16459CA4CEE083742BADA762DE4CA226A8086 0xC4BED213AF938032FC4F75046584F8C903CC65F3E3D8A1AF95FD32A11B0C52A = Some 0xD717A6EF47B37F19C632F2189674410303F8E38DA381170C662FF18FDA3CA227"
proof -
  show "product 0xB794122CDD7450A59A55AF7C236492C58EAF7A8FD1B8235AD24E7734EAB921DB 0x5CD14F7B0DB3AE51C4B8A837B2F5EFD55EA52A15F4802742D3248C306AE52D7 = Some 0x28CDB0FE6681D140C59FB73F85F16459CA4CEE083742BADA762DE4CA226A8086"
    by (rule productI [of _ _ "[0x932D94ED, 0xFDDD5311, 0xB744B06E, 0xC623C9BA, 0x4ED95F0, 0xD89BE221, 0xE69F2F14, 0x70CC248, 0x3EC43D6, 0x2E3E34DF, 0xEA154F9D, 0x7138F4E, 0x2ED81E43, 0xCEA536D5, 0x9E5CA8B4, 0x428F4F6]" "0x428F4F6A2859DAB6D01DF89F954602193660FE67FFE0A6B785091B88F3CEB99"])
      (simp_all add: p256_def gx_def reducible_def)
  show "product 0x28CDB0FE6681D140C59FB73F85F16459CA4CEE083742BADA762DE4CA226A8086 0x28CDB0FE6681D140C59FB73F85F16459CA4CEE083742BADA762DE4CA226A8086 = Some 0x46D631DE14629C0A4C070E7D85A54D1C1E539E84958AF85C95EDE85DE6E7597B"
    by (rule productI [of _ _ "[0x477E4624, 0xC0BDF9EA, 0xCC80910C, 0xF5626BED, 0xA92B89FC, 0x315B82D6, 0x3CD81AB, 0x27C5D1F9, 0x76F97F2A, 0x4CD840B5, 0xB8DABF89, 0xFA668751, 0x464C323F, 0x71DE6BE7, 0x71D7870F, 0x680EC94]" "0x680EC94785873A3E3B5F2F6B1A9B192C85A45EDC90A674FD52FEE739F691357"])
      (simp_all add: p256_def gx_def reducible_def)
  show "product 0x28CDB0FE6681D140C59FB73F85F16459CA4CEE083742BADA762DE4CA226A8086 0xC4BED213AF938032FC4F75046584F8C903CC65F3E3D8A1AF95FD32A11B0C52A = Some 0xD717A6EF47B37F19C632F2189674410303F8E38DA381170C662FF18FDA3CA227"
    by (rule productI [of _ _ "[0xDC8033FC, 0xE0F95962, 0x1864DA32, 0x54E98948, 0xCE77DAE9, 0xC9181626, 0x702A30B9, 0xA9CF10DD, 0x8BD92BA3, 0x28F7A8BF, 0x2D79310A, 0xE7CFE2F5, 0x470D6A76, 0x81B522A, 0x801BC6A1, 0x1F5BE5A]" "0x1F5BE5A821184FB883718CB4D32FE46ACCBC8708B1C3CD98536982CFDBC6E2B"])
      (simp_all add: p256_def gx_def reducible_def)
qed

lemma add_2g_g:
  "point_add (0x7CF27B188D034F7E8A52380304B51AC3C08969E277F21B35A60B48FC47669978, 0x7775510DB8ED040293D9AC69F7430DBBA7DADE63CE982299E04B79D227873D1) (gx, gy) =
    Some (0x5ECBE4D1A6330A44C8F7EF951D4BF165E6C6B721EFADA985FB41661BC6E7FD6C, 0x8734640C4998FF7E374B06CE1A64A2ECD82AB036384FB83D9A79B127A27D5032)"
proof -
  have m: "0x7CF27B188D034F7E8A52380304B51AC3C08969E277F21B35A60B48FC47669978 - gx = 0x11DAA925ABD70D369195511DA110D9D14985EC614A06E794B16A0FB66ECDD6E2"
    "(0x7775510DB8ED040293D9AC69F7430DBBA7DADE63CE982299E04B79D227873D1 - gy) mod p256 = 0xB794122CDD7450A59A55AF7C236492C58EAF7A8FD1B8235AD24E7734EAB921DB"
    "(0x46D631DE14629C0A4C070E7D85A54D1C1E539E84958AF85C95EDE85DE6E7597B - 0x7CF27B188D034F7E8A52380304B51AC3C08969E277F21B35A60B48FC47669978 - gx) mod p256 = 0x5ECBE4D1A6330A44C8F7EF951D4BF165E6C6B721EFADA985FB41661BC6E7FD6C"
    "(gx - 0x5ECBE4D1A6330A44C8F7EF951D4BF165E6C6B721EFADA985FB41661BC6E7FD6C) mod p256 = 0xC4BED213AF938032FC4F75046584F8C903CC65F3E3D8A1AF95FD32A11B0C52A"
    "(0xD717A6EF47B37F19C632F2189674410303F8E38DA381170C662FF18FDA3CA227 - gy) mod p256 = 0x8734640C4998FF7E374B06CE1A64A2ECD82AB036384FB83D9A79B127A27D5032" "gx \<noteq> 0"
    "0x7CF27B188D034F7E8A52380304B51AC3C08969E277F21B35A60B48FC47669978 \<noteq> (0 :: int)" "0x7CF27B188D034F7E8A52380304B51AC3C08969E277F21B35A60B48FC47669978 \<noteq> gx"
    by (simp_all add: p256_def gx_def gy_def)
  show ?thesis
    unfolding point_add_def prod.case by (simp only: m add_g_products inverse_2gx_gx bind.bind_lunit Let_def simp_thms if_False)
qed

lemma zero_point: "point_double (0, 0) = Some (0, 0)" "point_add (0, 0) P = Some P"
  by (cases P; simp add: point_double_def point_add_def)+

definition p256_b :: int where
  "p256_b = 0x5AC635D8AA3A93E7B3EBBD55769886BC651D06B0CC53B0F63BCE3C3E27D2604B"

lemma generator: "is_point ecc_g_point_x ecc_g_point_y (gx, gy)"
  "on_curve p256_b (gx, gy)"
  by (simp_all add: is_point_def ecc_g_point_x_def ecc_g_point_y_def gx_def gy_def p256_def on_curve_def p256_b_def)

text \<open>Three times the generator.\<close>

lemma ec_mult_refines_witness:
  "\<exists>Rx Ry. ecc_ec_mult ecc_g_point_x ecc_g_point_y [3, 0, 0, 0, 0, 0, 0, 0] = Some (Rx, Ry) \<and>
    is_point Rx Ry (0x5ECBE4D1A6330A44C8F7EF951D4BF165E6C6B721EFADA985FB41661BC6E7FD6C,
      0x8734640C4998FF7E374B06CE1A64A2ECD82AB036384FB83D9A79B127A27D5032) \<and>
    on_curve p256_b
      (0x5ECBE4D1A6330A44C8F7EF951D4BF165E6C6B721EFADA985FB41661BC6E7FD6C,
       0x8734640C4998FF7E374B06CE1A64A2ECD82AB036384FB83D9A79B127A27D5032)"
proof (rule ec_mult_refines [OF generator(1) _ generator(2)])
  have "gx \<noteq> 0" by (simp add: gx_def)
  then have "point_mult (gx, gy) 3 2 (0, 0) = Some (0x5ECBE4D1A6330A44C8F7EF951D4BF165E6C6B721EFADA985FB41661BC6E7FD6C,
      0x8734640C4998FF7E374B06CE1A64A2ECD82AB036384FB83D9A79B127A27D5032)"
    using point_mult.simps(2) [of "(gx, gy)" 3 1] point_mult.simps(2) [of "(gx, gy)" 3 0]
    by (simp add: zero_point double_g add_2g_g flip: numeral_2_eq_2)
  moreover have "(3::nat) < 2 ^ 2" by simp
  ultimately show "point_mult (gx, gy) (num32 [3, 0, 0, 0, 0, 0, 0, 0]) 256 (0, 0) = Some (0x5ECBE4D1A6330A44C8F7EF951D4BF165E6C6B721EFADA985FB41661BC6E7FD6C,
      0x8734640C4998FF7E374B06CE1A64A2ECD82AB036384FB83D9A79B127A27D5032)"
    using mult_idle [of 3 2 "(gx, gy)" 254] by simp
qed simp

lemma ec_mult_hangs_witness:
  "ecc_ec_mult [5, 0, 0, 0, 0, 0, 0, 0] [0, 0, 0, 0, 0, 0, 0, 0] [2, 0, 0, 0, 0, 0, 0, 0] = None"
  by (rule ec_mult_hangs) simp_all

end
