(* ===== verification/Ecdsa.thy ===== *)
theory Ecdsa
  imports EcPoint
begin

text \<open>
  ECDSA on secp256r1 from \<open>ecc/ecc.c\<close>: \<open>ecc_ecdsa_sign_hash\<close>, \<open>ecc_ecdsa_validate\<close>, \<open>ecc_is_valid_key\<close>,
  and the two inline functions of \<open>ecc.h\<close>. Local arrays start as zeros in the model; every word of them is
  written before it is read. The 9-word result arrays \<open>r\<close> and \<open>s\<close> come from the caller: word 8 of \<open>r\<close> is
  read before it is written.
\<close>

subsection \<open>Operations\<close>

definition ecc_gen_pub_key :: "ecc_words \<Rightarrow> (ecc_words \<times> ecc_words) option" where
  "ecc_gen_pub_key priv_key = ecc_ec_mult ecc_g_point_x ecc_g_point_y priv_key"

definition ecc_ecdh :: "ecc_words \<Rightarrow> ecc_words \<Rightarrow> ecc_words \<Rightarrow> (ecc_words \<times> ecc_words) option" where
  "ecc_ecdh px py secret = ecc_ec_mult px py secret"

definition ecc_is_valid_key :: "ecc_words \<Rightarrow> bool" where
  "ecc_is_valid_key priv_key \<longleftrightarrow> ecc_isGreater ecc_order_m priv_key 8 = 1"

definition ecc_ecdsa_sign_hash ::
  "ecc_words \<Rightarrow> ecc_words \<Rightarrow> ecc_words \<Rightarrow> ecc_words \<Rightarrow> ecc_words \<Rightarrow> (int \<times> ecc_words \<times> ecc_words) option" where
  "ecc_ecdsa_sign_hash d e k r s =
     (if ecc_isZero k then Some (-1, r, s)
      else do {
        (x, y) \<leftarrow> ecc_ec_mult ecc_g_point_x ecc_g_point_y k;
        r \<leftarrow> (let r = x @ drop 8 r in fieldModO r r 8);
        if ecc_isZero r then Some (-1, r, s)
        else do {
          let tmp1 = fieldMult r d 8;
          tmp2 \<leftarrow> fieldModO tmp1 (replicate 9 0) 16;
          let (sum, carry) = ecc_add e tmp2 8;
          let tmp1 = (sum @ drop 8 tmp1)[8 := carry];
          tmp3 \<leftarrow> fieldModO tmp1 (replicate 9 0) 9;
          inv \<leftarrow> fieldInv k ecc_order_m ecc_order_r;
          let tmp2 = inv @ drop 8 tmp2;
          let tmp1 = fieldMult tmp2 tmp3 8;
          s \<leftarrow> fieldModO tmp1 s 16;
          Some (if ecc_isZero s then -1 else 0, r, s)
        }
      })"

definition ecc_ecdsa_validate :: "ecc_words \<Rightarrow> ecc_words \<Rightarrow> ecc_words \<Rightarrow> ecc_words \<Rightarrow> ecc_words \<Rightarrow> int option" where
  "ecc_ecdsa_validate x y e r s = do {
     w \<leftarrow> fieldInv s ecc_order_m ecc_order_r;
     u1 \<leftarrow> fieldModO (fieldMult e w 8) (replicate 9 0) 16;
     u2 \<leftarrow> fieldModO (fieldMult r w 8) (replicate 9 0) 16;
     (tmp1_x, tmp1_y) \<leftarrow> ecc_ec_mult ecc_g_point_x ecc_g_point_y u1;
     (tmp2_x, tmp2_y) \<leftarrow> ecc_ec_mult x y u2;
     (tmp3_x, tmp3_y) \<leftarrow> ec_add tmp1_x tmp1_y tmp2_x tmp2_y;
     Some (if ecc_isSame tmp3_x r 8 then 0 else -1)
   }"

subsection \<open>Arrays longer than the numbers in them\<close>

lemma fieldMult_take: "fieldMult x y len = fieldMult (take len x) (take len y) len"
proof -
  have s: "mult_step x y len k n = mult_step (take len x) (take len y) len k n" if "n < len" "k < len" for n k
    using that by (intro ext) (simp add: mult_step_def)
  have "fold (mult_step x y len k) [0..<len] = fold (mult_step (take len x) (take len y) len k) [0..<len]" if "k < len" for k
    using s that by (intro ext fold_cong refl) simp
  then show ?thesis unfolding fieldMult_def by (intro fold_cong refl) simp
qed

lemma isZero_take: "8 \<le> length A \<Longrightarrow> ecc_isZero A \<longleftrightarrow> num32 (take 8 A) = 0"
proof -
  assume "8 \<le> length A"
  moreover have "filter (\<lambda>n. A ! n = 0) [0..<8] = filter (\<lambda>n. take 8 A ! n = 0) [0..<8]"
    by (rule filter_cong) simp_all
  ultimately show ?thesis using ecc_isZero_num [of "take 8 A"] by (simp add: ecc_isZero_def)
qed

text \<open>What the two multiplications and the reduction modulo the order do together.\<close>

lemma mult_modO:
  assumes "8 \<le> length x" and "8 \<le> length y" and "num32 (take 8 x) < n256 \<or> num32 (take 8 y) < n256" and "9 \<le> length result"
  shows "\<exists>z. fieldModO (fieldMult x y 8) result 16 = Some z \<and> length z = length result \<and> drop 9 z = drop 9 result \<and>
    num32 (take 8 z) = num32 (take 8 x) * num32 (take 8 y) mod n256 \<and> z ! 8 = 0"
proof -
  note m = fieldMult_num [of "take 8 x" 8 "take 8 y"]
  have l: "num32 (take 8 x) < 2 ^ 256" "num32 (take 8 y) < 2 ^ 256"
    using num32_less [of "take 8 x"] num32_less [of "take 8 y"] assms(1,2) by simp_all
  have "num32 (take 8 x) * num32 (take 8 y) < n256 * 2 ^ 256"
    using assms(3)
  proof
    assume "num32 (take 8 x) < n256"
    then show ?thesis using l by (intro mult_strict_mono') simp_all
  next
    assume "num32 (take 8 y) < n256"
    then have "num32 (take 8 y) * num32 (take 8 x) < n256 * 2 ^ 256" using l by (intro mult_strict_mono') simp_all
    then show ?thesis by (simp add: mult.commute)
  qed
  then obtain z where z: "fieldModO (fieldMult x y 8) result 16 = Some z" "length z = length result"
    "num32 (take 9 z) = num32 (take 8 x) * num32 (take 8 y) mod n256" "drop 9 z = drop 9 result"
    using fieldModO_num [of 16 "fieldMult x y 8" result] m assms by (auto simp: fieldMult_take [of x y])
  have t: "num32 (take 9 z) = num32 (take 8 z) + 2 ^ 256 * unat (z ! 8)"
    using num32_take_Suc [of 8 z] z(2) assms(4) by simp
  have "num32 (take 9 z) < 2 ^ 256" unfolding z(3) by (rule less_trans [of _ n256]) (simp_all add: n256_def)
  then have "unat (z ! 8) = 0" using t by (cases "unat (z ! 8)") auto
  then show ?thesis using z t by (simp add: unat_eq_0)
qed

subsection \<open>The signature\<close>


subsection \<open>What a signature satisfies\<close>

lemma in_place_cases:
  assumes "length x = 8" and "length r = 9" and "r ! 8 = 0 \<or> num32 x \<le> n256" and "num32 x \<noteq> n256"
  shows "\<exists>z. fieldModO (x @ drop 8 r) (x @ drop 8 r) 8 = Some z \<and> length z = 9 \<and> num32 (take 8 z) = num32 x mod n256"
proof -
  obtain w where w: "drop 8 r = [w]" "w = r ! 8" using assms(2) by (simp add: Cons_nth_drop_Suc [symmetric])
  have l: "length (x @ [w]) = 9" "take 8 (x @ [w]) = x" using assms(1) by simp_all
  show ?thesis
  proof (cases "num32 x \<le> n256")
    case True
    then have "fieldModO (x @ [w]) (x @ [w]) 8 = Some (x @ [w])"
      using fieldModO_copy [of "x @ [w]" "x @ [w]"] assms(1) by simp
    moreover have "num32 x mod n256 = num32 x" using True assms(4) by simp
    ultimately show ?thesis using l w(1) by simp
  next
    case False
    then obtain z where z: "fieldModO (x @ [w]) (x @ [w]) 8 = Some z" "length z = 9" "num32 z = num32 (x @ [w]) mod n256"
      using fieldModO_in_place [OF l(1)] l(2) by auto
    have "num32 (x @ [w]) = num32 x" using False assms(3) w(2) by (simp add: num32_append)
    moreover have "num32 z < 2 ^ 256" unfolding z(3) by (rule less_trans [of _ n256]) (simp_all add: n256_def)
    moreover have "num32 z = num32 (take 8 z) + 2 ^ 256 * num32 (drop 8 z)" using num32_take_drop [of 8 z] z(2) by simp
    ultimately have "num32 (take 8 z) = num32 x mod n256" using z(3) by (cases "num32 (drop 8 z)") auto
    then show ?thesis using z w(1) by auto
  qed
qed

lemma sum_modO:
  assumes "8 \<le> length e" and "8 \<le> length t" and "8 < length u" and "num32 (take 8 t) < n256" and "ecc_add e t 8 = (a, c)"
  shows "\<exists>z. fieldModO ((a @ drop 8 u)[8 := c]) (replicate 9 0) 9 = Some z \<and> length z = 9 \<and>
    num32 (take 8 z) = (num32 (take 8 e) + num32 (take 8 t)) mod n256"
proof -
  have a: "length a = 8" "unat c \<le> 1" "num32 a + 2 ^ 256 * unat c = num32 (take 8 e) + num32 (take 8 t)"
    using ecc_add_num [OF assms(1,2,5)] by simp_all
  have "drop 8 u = u ! 8 # drop 9 u" using assms(3) by (simp add: Cons_nth_drop_Suc [symmetric])
  then have k: "take 9 ((a @ drop 8 u)[8 := c]) = a @ [c]" "9 \<le> length ((a @ drop 8 u)[8 := c])"
    using a(1) assms(3) by (simp_all add: list_update_append)
  have "num32 (take 8 e) < 2 ^ 256" using num32_less [of "take 8 e"] assms(1) by simp
  then have "num32 (a @ [c]) < n256 * 2 ^ 256" using a assms(4) by (simp add: num32_append n256_def)
  then obtain z where z: "fieldModO ((a @ drop 8 u)[8 := c]) (replicate 9 0) 9 = Some z" "length z = 9"
    "num32 (take 9 z) = num32 (a @ [c]) mod n256"
    using fieldModO_num [of 9 "(a @ drop 8 u)[8 := c]" "replicate 9 0"] k by auto
  have "num32 (take 9 z) < 2 ^ 256" unfolding z(3) by (rule less_trans [of _ n256]) (simp_all add: n256_def)
  moreover have "num32 (take 9 z) = num32 (take 8 z) + 2 ^ 256 * unat (z ! 8)" using num32_take_Suc [of 8 z] z(2) by simp
  ultimately have "num32 (take 8 z) = num32 (take 9 z)" by (cases "unat (z ! 8)") auto
  then show ?thesis using z a by (simp add: num32_append)
qed

text \<open>C8: \<open>ecc_ecdsa_sign_hash\<close> returns, and its results satisfy the ECDSA equations: if \<open>k G\<close> has the x
  coordinate \<open>x\<close>, then \<open>r = x mod n\<close>, and the signature fails exactly if \<open>r\<close> or \<open>s\<close> is 0, where \<open>s k = e + r d\<close>
  modulo the group order. The array for \<open>r\<close> must come with word 8 clear unless \<open>x\<close> is below the order. That the
  multiple of the base point is defined means, as for the multiplication itself, that all reductions are exact
  and all inverses exist.\<close>

theorem ecdsa_sign_equation:
  assumes "length d = 8" and "length e = 8" and "length k = 8" and "length r = 9" and "length s = 9"
    and "num32 d < n256" and "coprime (num32 k) n256"
    and "point_mult (gx, gy) (num32 k) 256 (0, 0) = Some (x, y)"
    and "x \<noteq> int n256" and "r ! 8 = 0 \<or> x \<le> int n256"
  shows "\<exists>ret r' s'. ecc_ecdsa_sign_hash d e k r s = Some (ret, r', s') \<and> int (num32 (take 8 r')) = x mod int n256 \<and>
    (if num32 (take 8 r') = 0 then ret = -1
     else num32 (take 8 s') < n256 \<and>
       num32 (take 8 s') * num32 k mod n256 = (num32 e + num32 (take 8 r') * num32 d) mod n256 \<and>
       ret = (if num32 (take 8 s') = 0 then -1 else 0))"
proof -
  have k: "\<not> ecc_isZero k" using ecc_isZero_num [OF assms(3)] assms(7) by (auto simp: n256_def)
  obtain X Y where M: "ecc_ec_mult ecc_g_point_x ecc_g_point_y k = Some (X, Y)" "is_point X Y (x, y)"
    using ec_mult_refines [OF generator(1) assms(3) generator(2) assms(8)] by blast
  have X: "length X = 8" "int (num32 X) = x" using M(2) by (simp_all add: is_point_def)
  obtain R where R: "fieldModO (X @ drop 8 r) (X @ drop 8 r) 8 = Some R" "length R = 9" "num32 (take 8 R) = num32 X mod n256"
    using in_place_cases [OF X(1) assms(4)] X(2) assms(9,10) by auto
  have Rx: "int (num32 (take 8 R)) = x mod int n256" by (simp only: R(3) of_nat_mod X(2))
  have zR: "ecc_isZero R \<longleftrightarrow> num32 (take 8 R) = 0" using isZero_take [of R] R(2) by simp
  show ?thesis
  proof (cases "num32 (take 8 R) = 0")
    case True
    then have "ecc_ecdsa_sign_hash d e k r s = Some (-1, R, s)" using k M(1) R(1) zR by (simp add: ecc_ecdsa_sign_hash_def Let_def)
    then show ?thesis using True Rx by auto
  next
    case False
    obtain t where t: "fieldModO (fieldMult R d 8) (replicate 9 0) 16 = Some t" "length t = 9"
      "num32 (take 8 t) = num32 (take 8 R) * num32 d mod n256"
      using mult_modO [of R d "replicate 9 0"] R(2) assms(1,6) by auto
    obtain a c where ac: "ecc_add e t 8 = (a, c)" by fastforce
    have tn: "num32 (take 8 t) < n256" unfolding t(3) by (simp add: n256_def)
    have "8 < length (fieldMult R d 8)"
      using fieldMult_num(1) [of "take 8 R" 8 "take 8 d"] R(2) assms(1) by (simp add: fieldMult_take [of R d])
    then obtain u where u: "fieldModO ((a @ drop 8 (fieldMult R d 8))[8 := c]) (replicate 9 0) 9 = Some u" "length u = 9"
      "num32 (take 8 u) = (num32 e + num32 (take 8 t)) mod n256"
      using sum_modO [OF _ _ _ tn ac] assms(2) t(2) by auto
    have "coprime (ival k) (int n256)" using assms(7) by (simp add: coprime_int_iff)
    then obtain v where v: "fieldInv k ecc_order_m ecc_order_r = Some v" "length v = 8" "ival v < int n256" "ival v * ival k mod int n256 = 1"
      using fieldInv_num [OF moduli_ok(2) assms(3)] by blast
    have un: "num32 (take 8 u) < n256" unfolding u(3) by (simp add: n256_def)
    obtain S where S: "fieldModO (fieldMult (v @ drop 8 t) u 8) s 16 = Some S" "length S = 9"
      "num32 (take 8 S) = num32 v * num32 (take 8 u) mod n256"
      using mult_modO [of "v @ drop 8 t" u s] v(2) u(2) un assms(5) by auto
    have zS: "ecc_isZero S \<longleftrightarrow> num32 (take 8 S) = 0" using isZero_take [of S] S(2) by simp
    have ret: "ecc_ecdsa_sign_hash d e k r s = Some (if num32 (take 8 S) = 0 then -1 else 0, R, S)"
      using k M(1) R(1) zR False t(1) ac u(1) v(1) S(1) zS by (simp add: ecc_ecdsa_sign_hash_def Let_def)
    have "int (num32 v * num32 k mod n256) = 1" using v(4) by (simp add: of_nat_mod)
    then have vk: "num32 v * num32 k mod n256 = 1" by simp
    have "num32 (take 8 S) * num32 k mod n256 = (num32 v * num32 (take 8 u)) * num32 k mod n256"
      unfolding S(3) by (simp only: mod_mult_left_eq)
    also have "\<dots> = (num32 v * num32 k mod n256) * num32 (take 8 u) mod n256"
      by (simp only: mod_mult_left_eq ac_simps)
    also have "\<dots> = (num32 e + num32 (take 8 R) * num32 d) mod n256"
      unfolding vk u(3) t(3) by (simp add: mod_simps)
    finally have "num32 (take 8 S) * num32 k mod n256 = (num32 e + num32 (take 8 R) * num32 d) mod n256" .
    moreover have "num32 (take 8 S) < n256" unfolding S(3) by (simp add: n256_def)
    ultimately show ?thesis using ret Rx False by auto
  qed
qed

lemma ec_mult_take: "ecc_ec_mult px py u = ecc_ec_mult px py (take 8 u)"
proof -
  have "i \<le> 256 \<Longrightarrow> ec_mult_loop px py u i = ec_mult_loop px py (take 8 u) i" for i
  proof (induction i)
    case (Suc i)
    then have "take 8 u ! (i div 32) = u ! (i div 32)" by simp
    then show ?case using Suc by (intro ext) simp
  qed (intro ext, simp)
  then show ?thesis by (simp add: ecc_ec_mult_def)
qed

text \<open>C9: \<open>ecc_ecdsa_validate\<close> returns 0 exactly if the x coordinate of \<open>u1 G + u2 Q\<close> is \<open>r\<close>, for \<open>u1 = e w\<close> and
  \<open>u2 = r w\<close> modulo the order and the inverse \<open>w\<close> of \<open>s\<close>, which must exist. That the two multiples and their sum are
  defined means, as for the multiplication itself, that all reductions are exact and all inverses exist.\<close>

theorem ecdsa_validate_equation:
  assumes "is_point x y Q" and "length e = 8" and "length r = 8" and "length s = 8"
    and "w < n256" and "w * num32 s mod n256 = 1" and "on_curve b Q"
    and "point_mult (gx, gy) (num32 e * w mod n256) 256 (0, 0) = Some P1"
    and "point_mult Q (num32 r * w mod n256) 256 (0, 0) = Some P2" and "point_add P1 P2 = Some P3"
  shows "ecc_ecdsa_validate x y e r s = Some (if fst P3 = int (num32 r) then 0 else -1)"
proof -
  have "gcd (num32 s) n256 dvd w * num32 s mod n256" by (simp add: dvd_mod_iff)
  then have "coprime (num32 s) n256" using assms(6) by (simp add: coprime_iff_gcd_eq_1)
  then have "coprime (ival s) (int n256)" by (simp add: coprime_int_iff)
  then obtain v where v: "fieldInv s ecc_order_m ecc_order_r = Some v" "length v = 8" "ival v < int n256" "ival v * ival s mod int n256 = 1"
    using fieldInv_num [OF moduli_ok(2) assms(4)] by blast
  have "int (num32 v * num32 s mod n256) = 1" using v(4) by (simp add: of_nat_mod)
  then have vs: "num32 v * num32 s mod n256 = 1" by simp
  have "num32 v = num32 v * (w * num32 s mod n256) mod n256" using v(3) by (simp add: assms(6))
  also have "\<dots> = w * (num32 v * num32 s mod n256) mod n256" by (simp only: mod_mult_right_eq ac_simps)
  also have "\<dots> = w" using assms(5) by (simp add: vs)
  finally have vw: "num32 v = w" .
  obtain u1 where u1: "fieldModO (fieldMult e v 8) (replicate 9 0) 16 = Some u1" "length u1 = 9" "num32 (take 8 u1) = num32 e * w mod n256"
    using mult_modO [of e v "replicate 9 0"] assms(2,5) v(2) vw by auto
  obtain u2 where u2: "fieldModO (fieldMult r v 8) (replicate 9 0) 16 = Some u2" "length u2 = 9" "num32 (take 8 u2) = num32 r * w mod n256"
    using mult_modO [of r v "replicate 9 0"] assms(3,5) v(2) vw by auto
  obtain X1 Y1 where P1: "ecc_ec_mult ecc_g_point_x ecc_g_point_y u1 = Some (X1, Y1)" "is_point X1 Y1 P1"
    using ec_mult_refines [OF generator(1) _ generator(2), of "take 8 u1" P1] u1(2,3) assms(8) ec_mult_take [of _ _ u1] by auto
  obtain X2 Y2 where P2: "ecc_ec_mult x y u2 = Some (X2, Y2)" "is_point X2 Y2 P2"
    using ec_mult_refines [OF assms(1) _ assms(7), of "take 8 u2" P2] u2(2,3) assms(9) ec_mult_take [of _ _ u2] by auto
  obtain X3 Y3 where P3: "ec_add X1 Y1 X2 Y2 = Some (X3, Y3)" "is_point X3 Y3 P3"
    using ec_add_point [OF P1(2) P2(2) assms(10)] by blast
  have "ecc_isSame X3 r 8 \<longleftrightarrow> fst P3 = int (num32 r)" using ecc_isSame_num [of X3 8 r] P3(2) assms(3) by (auto simp: is_point_def)
  then show ?thesis using v(1) u1(1) u2(1) P1(1) P2(1) P3(1) by (simp add: ecc_ecdsa_validate_def)
qed

text \<open>a signature with \<open>s = 0\<close> is never answered: nothing excludes 0, and \<open>fieldInv\<close> does not return for it.\<close>

lemma ecdsa_validate_hangs:
  assumes "length s = 8" and "num32 s = 0"
  shows "ecc_ecdsa_validate x y e r s = None"
  using fieldInv_zero [OF moduli_ok(2) assms] by (simp add: ecc_ecdsa_validate_def)

lemma ecc_is_valid_key_num: "length priv = 8 \<Longrightarrow> ecc_is_valid_key priv \<longleftrightarrow> num32 priv < n256"
proof -
  assume "length priv = 8"
  moreover have "num32 (take 8 ecc_order_m) = n256" by (simp add: ecc_order_m_def n256_def)
  ultimately show ?thesis
    using isGreater_loop_num [of 8 ecc_order_m priv] num32_constants(8) by (simp add: ecc_is_valid_key_def ecc_isGreater_def)
qed

subsection \<open>Witnesses\<close>

definition one_8 :: ecc_words where "one_8 = [1, 0, 0, 0, 0, 0, 0, 0]"

lemma mult_one: "point_mult P 1 256 (0, 0) = Some P"
  using mult_idle [of 1 1 P 255] by (simp add: zero_point)

lemma mult_zero: "point_mult P 0 256 (0, 0) = Some (0, 0)"
  using mult_idle [of 0 0 P 256] by simp

definition point_2g :: "int \<times> int" where
  "point_2g = (0x7CF27B188D034F7E8A52380304B51AC3C08969E277F21B35A60B48FC47669978,
     0x07775510DB8ED040293D9AC69F7430DBBA7DADE63CE982299E04B79D227873D1)"

lemma mult_two_g: "point_mult (gx, gy) 2 256 (0, 0) = Some point_2g"
proof -
  have "gx \<noteq> 0" by (simp add: gx_def)
  then have "point_mult (gx, gy) 2 2 (0, 0) = Some point_2g"
    using point_mult.simps(2) [of "(gx, gy)" 2 1] point_mult.simps(2) [of "(gx, gy)" 2 0]
    by (simp add: zero_point double_g point_2g_def flip: numeral_2_eq_2)
  then show ?thesis using mult_idle [of 2 2 "(gx, gy)" 254] by simp
qed

text \<open>Private key 5, nonce 1, hash 7.\<close>

lemma ecdsa_sign_equation_witness:
  "\<exists>ret r' s'. ecc_ecdsa_sign_hash [5, 0, 0, 0, 0, 0, 0, 0] [7, 0, 0, 0, 0, 0, 0, 0] one_8 (replicate 9 0) (replicate 9 9) = Some (ret, r', s') \<and>
    int (num32 (take 8 r')) = gx mod int n256 \<and>
    (if num32 (take 8 r') = 0 then ret = -1
     else num32 (take 8 s') < n256 \<and>
       num32 (take 8 s') * num32 one_8 mod n256 =
         (num32 [7, 0, 0, 0, 0, 0, 0, 0] + num32 (take 8 r') * num32 [5, 0, 0, 0, 0, 0, 0, 0]) mod n256 \<and>
       ret = (if num32 (take 8 s') = 0 then -1 else 0))"
proof (rule ecdsa_sign_equation)
  show "point_mult (gx, gy) (num32 one_8) 256 (0, 0) = Some (gx, gy)" using mult_one by (simp add: one_8_def)
qed (simp_all add: one_8_def n256_def gx_def)

text \<open>Public key \<open>G\<close>, hash 0, and \<open>r = s\<close> the x coordinate of \<open>G\<close>: accepted.\<close>

lemma ecdsa_validate_equation_witness:
  "ecc_ecdsa_validate ecc_g_point_x ecc_g_point_y (replicate 8 0) ecc_g_point_x ecc_g_point_x = Some 0"
proof -
  let ?w = "0x4A8DBB62C2548DDCB57084BCEEAB15480DF0052A93D05CA48CAAA102E7EFDD93 :: nat"
  have w: "?w < n256" "?w * num32 ecc_g_point_x mod n256 = 1" by (simp_all add: n256_def ecc_g_point_x_def)
  have e: "num32 (replicate 8 0) * ?w mod n256 = 0" "num32 ecc_g_point_x * ?w mod n256 = 1"
    using w by (simp_all add: mult.commute)
  have "ecc_ecdsa_validate ecc_g_point_x ecc_g_point_y (replicate 8 0) ecc_g_point_x ecc_g_point_x =
      Some (if fst (gx, gy) = int (num32 ecc_g_point_x) then 0 else -1)"
  proof (rule ecdsa_validate_equation [OF generator(1) _ _ _ w generator(2)])
    show "point_mult (gx, gy) (num32 (replicate 8 0) * ?w mod n256) 256 (0, 0) = Some (0, 0)" using mult_zero by (simp only: e)
    show "point_mult (gx, gy) (num32 ecc_g_point_x * ?w mod n256) 256 (0, 0) = Some (gx, gy)" using mult_one by (simp only: e)
    show "point_add (0, 0) (gx, gy) = Some (gx, gy)" by (rule zero_point)
  qed (simp_all add: ecc_g_point_x_def)
  then show ?thesis using generator(1) by (simp add: is_point_def)
qed

lemma ecdsa_validate_hangs_witness:
  "ecc_ecdsa_validate ecc_g_point_x ecc_g_point_y one_8 one_8 (replicate 8 0) = None"
  by (rule ecdsa_validate_hangs) simp_all

end
