(* ===== verification/EcGuarantees.thy ===== *)
theory EcGuarantees
  imports Ecdsa
begin

text \<open>
  What the arithmetic of \<open>ecc/ecc.c\<close> guarantees to its users: when the product modulo the prime is exact and
  a product of field elements for which it is not, the Barrett reduction modulo the group order, the inverse, and
  that the coordinates of computed points are field elements.
\<close>

subsection \<open>Products, residues and inverses\<close>

text \<open>C16: The product of two field elements, \<open>fieldModP\<close> after \<open>fieldMult\<close>, is the product modulo the prime of
  secp256r1, if none of the words 8, 10, 11, 12, 13 and 15 of the 512-bit product has all its bits set.\<close>

theorem field_product_correct:
  assumes "length x = 8" and "length y = 8"
    and "list_all (\<lambda>i. fieldMult x y 8 ! i \<noteq> 0xffffffff) [8, 10, 11, 12, 13, 15]"
  shows "length (fieldModP (fieldMult x y 8)) = 8 \<and>
    int (num32 (fieldModP (fieldMult x y 8))) = int (num32 x) * int (num32 y) mod p256"
  using fieldModP_num [of "fieldMult x y 8"] fieldMult_num [OF assms(1,2)] assms(3) by (simp add: reducible_def)

lemma field_product_correct_witness:
  "int (num32 (fieldModP (fieldMult [0xffffffff, 7, 0, 0, 0, 0, 0, 0] [2, 0, 0, 0, 0, 0, 0, 0] 8))) = 68719476734"
proof -
  have "fieldMult [0xffffffff, 7, 0, 0, 0, 0, 0, 0] [2, 0, 0, 0, 0, 0, 0, 0] 8 = [0xfffffffe, 15, 0, 0, 0, 0, 0, 0, 0, 0, 0, 0, 0, 0, 0, 0]"
    using fieldMult_num [of "[0xffffffff, 7, 0, 0, 0, 0, 0, 0]" 8 "[2, 0, 0, 0, 0, 0, 0, 0]"]
      num32_eq_iff [of "fieldMult [0xffffffff, 7, 0, 0, 0, 0, 0, 0] [2, 0, 0, 0, 0, 0, 0, 0] 8" "[0xfffffffe, 15, 0, 0, 0, 0, 0, 0, 0, 0, 0, 0, 0, 0, 0, 0]"]
    by simp
  then show ?thesis
    using field_product_correct [of "[0xffffffff, 7, 0, 0, 0, 0, 0, 0]" "[2, 0, 0, 0, 0, 0, 0, 0]"] by (simp add: p256_def)
qed

text \<open>The values of the sum and the difference, whatever the operands, and of a product that is reduced wrongly.\<close>

lemma field_values:
  assumes "length x = 8" and "length y = 8"
  shows "ival (fieldAdd x y ecc_prime_r) = (if ival x + ival y < 2 ^ 256 then ival x + ival y
      else if ival x + ival y < 2 ^ 256 + p256 then ival x + ival y - p256 else ival x + ival y - p256 - 2 ^ 256)"
    and "ival (fieldSub x y ecc_prime_m) = (if ival y \<le> ival x then ival x - ival y
      else if ival y \<le> ival x + p256 then ival x - ival y + p256 else ival x - ival y + p256 + 2 ^ 256)"
proof -
  have l: "num32 x < 2 ^ 256" "num32 y < 2 ^ 256" using num32_less [of x] num32_less [of y] assms by simp_all
  have r: "int (num32 ecc_prime_r) = 2 ^ 256 - p256" and m: "int (num32 ecc_prime_m) = p256" by (simp_all add: num32_constants)
  have b: "num32 ecc_prime_r < 2 ^ 256" "num32 ecc_prime_m < 2 ^ 256"
    using num32_less [of ecc_prime_r] num32_less [of ecc_prime_m] num32_constants(6,7) by simp_all
  have a: "int ((u + r') mod 2 ^ 256) = (if int u + int r' < 2 ^ 256 then int u + int r' else int u + int r' - 2 ^ 256)"
    if "u < 2 ^ 256" "r' < 2 ^ 256" for u r' :: nat
    using that by (simp add: le_mod_geq of_nat_diff)
  show "ival (fieldAdd x y ecc_prime_r) = (if ival x + ival y < 2 ^ 256 then ival x + ival y
      else if ival x + ival y < 2 ^ 256 + p256 then ival x + ival y - p256 else ival x + ival y - p256 - 2 ^ 256)"
  proof (cases "num32 x + num32 y < 2 ^ 256")
    case True
    then show ?thesis using fieldAdd_value(2) [OF assms num32_constants(7)] by (simp add: add_value_def)
  next
    case False
    then have u: "int (num32 x + num32 y - 2 ^ 256) = ival x + ival y - 2 ^ 256" by (simp add: of_nat_diff)
    have "ival (fieldAdd x y ecc_prime_r) = int ((num32 x + num32 y - 2 ^ 256 + num32 ecc_prime_r) mod 2 ^ 256)"
      using fieldAdd_value(2) [OF assms num32_constants(7)] False by (simp only: add_value_def if_False)
    also have "\<dots> = (if ival x + ival y - p256 < 2 ^ 256 then ival x + ival y - p256 else ival x + ival y - p256 - 2 ^ 256)"
    proof -
      have "num32 x + num32 y - 2 ^ 256 < 2 ^ 256" using l by linarith
      from a [OF this b(1)] show ?thesis unfolding u r by simp
    qed
    finally show ?thesis using False by (simp add: algebra_simps)
  qed
  show "ival (fieldSub x y ecc_prime_m) = (if ival y \<le> ival x then ival x - ival y
      else if ival y \<le> ival x + p256 then ival x - ival y + p256 else ival x - ival y + p256 + 2 ^ 256)"
  proof (cases "num32 y \<le> num32 x")
    case True
    then show ?thesis using fieldSub_value(2) [OF assms] num32_constants(6) by (simp add: sub_value_def of_nat_diff)
  next
    case False
    then have u: "int (2 ^ 256 + num32 x - num32 y) = 2 ^ 256 + ival x - ival y" using l by (simp add: of_nat_diff)
    have "ival (fieldSub x y ecc_prime_m) = int ((2 ^ 256 + num32 x - num32 y + num32 ecc_prime_m) mod 2 ^ 256)"
      using fieldSub_value(2) [OF assms, of ecc_prime_m] num32_constants(6) False by (simp add: sub_value_def)
    also have "\<dots> = (if ival x - ival y + p256 < 0 then 2 ^ 256 + ival x - ival y + p256 else ival x - ival y + p256)"
    proof -
      have "2 ^ 256 + num32 x - num32 y < 2 ^ 256" using l False by linarith
      from a [OF this b(2)] show ?thesis unfolding u m by auto
    qed
    finally show ?thesis using False by auto
  qed
qed

lemma fieldModP_bad_value:
  "ival bad_x < p256" "ival bad_y < p256" "ival (fieldModP (fieldMult bad_x bad_y 8)) = (ival bad_x * ival bad_y + 2 ^ 256) mod p256"
proof -
  show "ival bad_x < p256" "ival bad_y < p256" by (simp_all add: bad_x_def bad_y_def p256_def)
  let ?B = "[0, 0, 0, 0, 0, 0, 0, 1, 0xffffffff, 0xffffffff, 0, 0xffffffff, 0, 0, 0, 0] :: ecc_words"
  have "num32 (fieldMult bad_x bad_y 8) = num32 ?B" "length (fieldMult bad_x bad_y 8) = length ?B"
    using fieldMult_num [of bad_x 8 bad_y] by (simp_all add: bad_x_def bad_y_def)
  then have B: "fieldMult bad_x bad_y 8 = ?B" using num32_eq_iff by blast
  have "num32 (fieldModP ?B) = modP_value ?B" by (rule fieldModP_value) simp
  moreover have "int (modP_value ?B) = (ival bad_x * ival bad_y + 2 ^ 256) mod p256"
    unfolding modP_value_def Let_def
    by (simp add: add_value_def sub_value_def bad_x_def bad_y_def p256_def ecc_prime_m_def ecc_prime_r_def)
  ultimately show "ival (fieldModP (fieldMult bad_x bad_y 8)) = (ival bad_x * ival bad_y + 2 ^ 256) mod p256" unfolding B by simp
qed

text \<open>C17: Corrections are made once. For any operands of 8 words \<open>fieldAdd\<close> and \<open>fieldSub\<close> correct a carry or
  borrow by one modulus; a second one is lost. So the sum is right modulo the prime exactly below \<open>2 ^ 256\<close> plus the
  prime, and otherwise \<open>2 ^ 256\<close> too small; the difference is right exactly if the subtrahend exceeds the minuend by at
  most the prime, and otherwise \<open>2 ^ 256\<close> too large. \<open>fieldModP\<close> calls them with operands that are not reduced, and
  there are two field elements, \<open>bad_x\<close> and \<open>bad_y\<close>, whose product it makes \<open>2 ^ 256\<close> too large for that reason.\<close>

theorem field_product_wrong:
  assumes "length x = 8" and "length y = 8"
  shows "int (num32 (fieldAdd x y ecc_prime_r)) =
      (let s = int (num32 x) + int (num32 y) in if s < 2 ^ 256 then s else if s < 2 ^ 256 + p256 then s - p256 else s - p256 - 2 ^ 256) \<and>
    int (num32 (fieldSub x y ecc_prime_m)) =
      (let s = int (num32 x) - int (num32 y) in if 0 \<le> s then s else if - p256 \<le> s then s + p256 else s + p256 + 2 ^ 256) \<and>
    (int (num32 (fieldAdd x y ecc_prime_r)) mod p256 = (int (num32 x) + int (num32 y)) mod p256 \<longleftrightarrow>
       int (num32 x) + int (num32 y) < 2 ^ 256 + p256) \<and>
    (int (num32 (fieldSub x y ecc_prime_m)) mod p256 = (int (num32 x) - int (num32 y)) mod p256 \<longleftrightarrow>
       int (num32 y) \<le> int (num32 x) + p256) \<and>
    int (num32 bad_x) < p256 \<and> int (num32 bad_y) < p256 \<and>
    int (num32 (fieldModP (fieldMult bad_x bad_y 8))) = (int (num32 bad_x) * int (num32 bad_y) + 2 ^ 256) mod p256 \<and>
    int (num32 (fieldModP (fieldMult bad_x bad_y 8))) \<noteq> int (num32 bad_x) * int (num32 bad_y) mod p256"
proof -
  have n: "\<not> p256 dvd 2 ^ 256" by (simp add: p256_def dvd_eq_mod_eq_0)
  have e: "(s - p256 - 2 ^ 256) mod p256 \<noteq> s mod p256" "(s + p256 + 2 ^ 256) mod p256 \<noteq> s mod p256" for s
  proof -
    have "\<not> p256 dvd (s - p256 - 2 ^ 256) - s" "\<not> p256 dvd (s + p256 + 2 ^ 256) - s"
    proof -
      have "(s - p256 - 2 ^ 256) - s = - (2 ^ 256 + p256)" "(s + p256 + 2 ^ 256) - s = 2 ^ 256 + p256" by simp_all
      then show "\<not> p256 dvd (s - p256 - 2 ^ 256) - s" "\<not> p256 dvd (s + p256 + 2 ^ 256) - s"
        using n by (simp_all only: dvd_minus_iff dvd_add_left_iff [OF dvd_refl] simp_thms)
    qed
    then show "(s - p256 - 2 ^ 256) mod p256 \<noteq> s mod p256" "(s + p256 + 2 ^ 256) mod p256 \<noteq> s mod p256"
      by (simp_all only: mod_eq_dvd_iff simp_thms)
  qed
  note v = field_values [OF assms]
  have a: "ival (fieldAdd x y ecc_prime_r) mod p256 = (ival x + ival y) mod p256 \<longleftrightarrow> ival x + ival y < 2 ^ 256 + p256"
    unfolding v(1) using e(1) [of "ival x + ival y"] p256_bounds(1) by (simp split: if_split)
  have b: "ival (fieldSub x y ecc_prime_m) mod p256 = (ival x - ival y) mod p256 \<longleftrightarrow> ival y \<le> ival x + p256"
    unfolding v(2) using e(2) [of "ival x - ival y"] p256_bounds(1) by (simp split: if_split)
  have "(ival bad_x * ival bad_y + 2 ^ 256) mod p256 \<noteq> ival bad_x * ival bad_y mod p256"
    unfolding mod_eq_dvd_iff using n by simp
  then show ?thesis using a b fieldModP_bad_value v by (simp add: Let_def)
qed

lemma field_product_wrong_witness:
  "int (num32 (fieldSub [0, 0, 0, 0, 0, 0, 0, 0] [0xffffffff, 0xffffffff, 0xffffffff, 0xffffffff, 0xffffffff, 0xffffffff, 0xffffffff, 0xffffffff] ecc_prime_m)) = p256 + 1 \<and>
   int (num32 (fieldAdd [0xffffffff, 0xffffffff, 0xffffffff, 0xffffffff, 0xffffffff, 0xffffffff, 0xffffffff, 0xffffffff] [0xffffffff, 0xffffffff, 0xffffffff, 0xffffffff, 0xffffffff, 0xffffffff, 0xffffffff, 0xffffffff] ecc_prime_r)) = 2 ^ 256 - 2 - p256"
proof -
  have n: "int (num32 [0, 0, 0, 0, 0, 0, 0, 0]) = 0" "int (num32 [0xffffffff, 0xffffffff, 0xffffffff, 0xffffffff, 0xffffffff, 0xffffffff, 0xffffffff, 0xffffffff]) = 2 ^ 256 - 1" by simp_all
  have l: "length ([0, 0, 0, 0, 0, 0, 0, 0] :: ecc_words) = 8" "length ([0xffffffff, 0xffffffff, 0xffffffff, 0xffffffff, 0xffffffff, 0xffffffff, 0xffffffff, 0xffffffff] :: ecc_words) = 8" by simp_all
  show ?thesis
    using field_product_wrong [OF l, THEN conjunct2, THEN conjunct1] field_product_wrong [OF l(2,2), THEN conjunct1]
    unfolding n Let_def by (simp add: p256_def)
qed

text \<open>\<open>fieldModO\<close>, the Barrett reduction of a product of 16 words or a sum of 9, returns the residue modulo
  the group order: the estimated quotient is at most two too small, and the last loop ends.\<close>

lemma fieldModO_correct:
  assumes "len = 16 \<or> len = 9" and "length A = len" and "num32 A < n256 * 2 ^ 256" and "length result = 9"
  shows "\<exists>r. fieldModO A result len = Some r \<and> length r = 9 \<and> num32 r = num32 A mod n256"
  using fieldModO_num [of len A result] assms by auto

lemma fieldModO_correct_witness:
  "\<exists>r. fieldModO [0, 0, 0, 0, 0, 0, 0, 0, 1] (replicate 9 0) 9 = Some r \<and> length r = 9 \<and> num32 r = 2 ^ 256 mod n256"
  using fieldModO_correct [of 9 "[0, 0, 0, 0, 0, 0, 0, 0, 1]" "replicate 9 0"] by (simp add: n256_def)

text \<open>C18: \<open>fieldInv\<close> ends and returns the inverse for both moduli, for every operand that is coprime to the
  modulus; for the operand 0 it does not end.\<close>

theorem fieldInv_correct:
  assumes "(modulus, reducer, m) = (ecc_prime_m, ecc_prime_r, p256) \<or> (modulus, reducer, m) = (ecc_order_m, ecc_order_r, int n256)"
    and "length A = 8" and "coprime (int (num32 A)) m \<or> num32 A = 0"
  shows "case fieldInv A modulus reducer of None \<Rightarrow> num32 A = 0
    | Some B \<Rightarrow> length B = 8 \<and> int (num32 B) < m \<and> int (num32 B) * int (num32 A) mod m = 1"
proof (cases "num32 A = 0")
  case True
  then show ?thesis using fieldInv_zero [of modulus reducer m A] moduli_ok assms(1,2) by auto
next
  case False
  then obtain B where "fieldInv A modulus reducer = Some B" "length B = 8 \<and> int (num32 B) < m \<and> int (num32 B) * int (num32 A) mod m = 1"
    using fieldInv_num [of modulus reducer m A] moduli_ok assms by auto
  then show ?thesis by simp
qed

lemma fieldInv_correct_witness:
  "case fieldInv [2, 0, 0, 0, 0, 0, 0, 0] ecc_order_m ecc_order_r of None \<Rightarrow> num32 [2, 0, 0, 0, 0, 0, 0, 0] = 0
    | Some B \<Rightarrow> length B = 8 \<and> int (num32 B) < int n256 \<and> int (num32 B) * int (num32 [2, 0, 0, 0, 0, 0, 0, 0]) mod int n256 = 1"
  by (rule fieldInv_correct) (simp_all add: n256_def)

lemma length_add_loop [simp]: "length (fst (add_loop x y n d)) = n"
  by (induction n arbitrary: x y d) (auto simp: Let_def split: prod.splits, metis fst_conv)

lemma length_ecc_add [simp]: "length (fst (ecc_add x y n)) = n"
  using length_add_loop [of x y n 0] by (simp add: ecc_add_def split_beta)

lemma length_fieldMult [simp]: "length (fieldMult x y len) = 2 * len"
proof -
  have row: "k < len \<Longrightarrow> set ns \<subseteq> {..<len} \<Longrightarrow> length r = 2 * len \<Longrightarrow>
    length (fold (mult_step x y len k) ns r) = 2 * len" for ns k and r :: ecc_words
    by (induction ns arbitrary: r) (auto simp: mult_step_def Let_def)
  have "set ks \<subseteq> {..<len} \<Longrightarrow> length r = 2 * len \<Longrightarrow>
    length (fold (\<lambda>k. fold (mult_step x y len k) [0..<len]) ks r) = 2 * len" for ks and r :: ecc_words
    by (induction ks arbitrary: r) (use row [of _ "[0..<len]"] in \<open>auto simp: lessThan_atLeast0\<close>)
  then show ?thesis by (simp add: fieldMult_def lessThan_atLeast0)
qed

subsection \<open>Field elements stay field elements\<close>

definition is_field :: "ecc_words \<Rightarrow> bool" where
  "is_field x \<longleftrightarrow> length x = 8 \<and> ival x < p256"

lemma fieldModP_field [intro]: "length B = 16 \<Longrightarrow> is_field (fieldModP B)"
proof -
  assume B: "length B = 16"
  have "length [a0, a1, a2, a3, a4, a5, a6, a7] = 8" for a0 a1 a2 a3 a4 a5 a6 a7 :: u32 by simp
  note V = addV [OF this conjI [OF _ refl]] subV [OF this conjI [OF _ refl]]
  have "length (modP_sum B) = 8"
    unfolding modP_sum_def using B by (intro V [THEN conjunct1]) simp
  then have "length (fieldModP B) = 8 \<and> ival (fieldModP B) = ival (modP_sum B) mod p256"
    using finalP [of "modP_sum B" "ival (modP_sum B)"] unfolding fieldModP_sum by simp
  then show ?thesis using p256_bounds(1) by (simp add: is_field_def)
qed

lemma fieldSub_field [intro]: "is_field x \<Longrightarrow> is_field y \<Longrightarrow> is_field (fieldSub x y ecc_prime_m)"
  using sub_exact [of x y] p256_bounds(1) by (auto simp: is_field_def)

lemma ec_double_field:
  assumes "is_field px" and "is_field py" and "ec_double px py = Some (Dx, Dy)"
  shows "is_field Dx \<and> is_field Dy"
proof (cases "ecc_isZero px \<and> ecc_isZero py")
  case True
  then show ?thesis using assms by (auto simp: ec_double_def is_field_def)
next
  case False
  obtain t where D: "Dx = fieldSub (fieldSub (fieldModP (fieldMult t t 8)) px ecc_prime_m) px ecc_prime_m"
      "Dy = fieldSub (fieldModP (fieldMult t (fieldSub px Dx ecc_prime_m) 8)) py ecc_prime_m"
    using assms(3) unfolding ec_double_def Let_def if_not_P [OF False] bind_eq_Some_conv by blast
  have "is_field Dx" unfolding D(1) by (intro fieldSub_field fieldModP_field assms) simp
  moreover have "is_field Dy" unfolding D(2) by (intro fieldSub_field fieldModP_field assms) simp
  ultimately show ?thesis ..
qed

lemma ec_add_field:
  assumes "is_field px" and "is_field py" and "is_field qx" and "is_field qy" and "ec_add px py qx qy = Some (Sx, Sy)"
  shows "is_field Sx \<and> is_field Sy"
proof -
  consider "ecc_isZero px \<and> ecc_isZero py" | "\<not> (ecc_isZero px \<and> ecc_isZero py)" "ecc_isZero qx \<and> ecc_isZero qy"
    | "\<not> (ecc_isZero px \<and> ecc_isZero py)" "\<not> (ecc_isZero qx \<and> ecc_isZero qy)" "ecc_isSame px qx 8"
    | "\<not> (ecc_isZero px \<and> ecc_isZero py)" "\<not> (ecc_isZero qx \<and> ecc_isZero qy)" "\<not> ecc_isSame px qx 8" by blast
  then show ?thesis
  proof cases
    case 3
    have "is_field (replicate 8 0)" using p256_bounds(1) by (simp add: is_field_def)
    then show ?thesis using 3 assms(5) ec_double_field [OF assms(1,2)]
      unfolding ec_add_def if_not_P [OF 3(1)] if_not_P [OF 3(2)] if_P [OF 3(3)] by (auto split: if_splits)
  next
    case 4
    obtain t where S: "Sx = fieldSub (fieldSub (fieldModP (fieldMult t t 8)) px ecc_prime_m) qx ecc_prime_m"
        "Sy = fieldSub (fieldModP (fieldMult t (fieldSub qx Sx ecc_prime_m) 8)) qy ecc_prime_m"
      using assms(5) unfolding ec_add_def Let_def if_not_P [OF 4(1)] if_not_P [OF 4(2)] if_not_P [OF 4(3)] bind_eq_Some_conv by blast
    have "is_field Sx" unfolding S(1) by (intro fieldSub_field fieldModP_field assms) simp
    moreover have "is_field Sy" unfolding S(2) by (intro fieldSub_field fieldModP_field assms) simp
    ultimately show ?thesis ..
  qed (use assms in \<open>auto simp: ec_add_def is_field_def\<close>)
qed

text \<open>C19: Well-formedness: whatever field elements \<open>ecc_ec_mult\<close> is given, on the curve or not, the coordinates of the
  point it returns are field elements, eight words below the prime.\<close>

theorem ec_mult_typed:
  assumes "is_field px" and "is_field py" and "ecc_ec_mult px py secret = Some (X, Y)"
  shows "is_field X \<and> is_field Y"
proof -
  have "is_field Qx \<Longrightarrow> is_field Qy \<Longrightarrow> ec_mult_loop px py secret i Qx Qy = Some (X, Y) \<Longrightarrow> is_field X \<and> is_field Y" for i Qx Qy
  proof (induction i arbitrary: Qx Qy)
    case (Suc i)
    obtain Dx Dy where D: "ec_double Qx Qy = Some (Dx, Dy)" using Suc.prems(3) by (auto simp: bind_eq_Some_conv)
    obtain Ax Ay where A: "(if secret ! (i div 32) AND push_bit (i mod 32) 1 \<noteq> 0 then ec_add Dx Dy px py else Some (Dx, Dy)) = Some (Ax, Ay)"
        and L: "ec_mult_loop px py secret i Ax Ay = Some (X, Y)"
      using Suc.prems(3) D by (auto simp: bind_eq_Some_conv simp del: push_bit_of_1)
    have "is_field Dx \<and> is_field Dy" using ec_double_field [OF Suc.prems(1,2) D] .
    then have "is_field Ax \<and> is_field Ay"
      using A ec_add_field [of Dx Dy px py Ax Ay] assms(1,2)
      by (cases "secret ! (i div 32) AND push_bit (i mod 32) 1 = 0") simp_all
    then show ?case using Suc.IH L by blast
  qed simp
  moreover have "is_field (replicate 8 0)" using p256_bounds(1) by (simp add: is_field_def)
  ultimately show ?thesis using assms(3) unfolding ecc_ec_mult_def by blast
qed

lemma ec_mult_typed_witness:
  "\<exists>X Y. ecc_ec_mult ecc_g_point_x ecc_g_point_y [2, 0, 0, 0, 0, 0, 0, 0] = Some (X, Y) \<and> is_field X \<and> is_field Y"
proof -
  obtain X Y where "ecc_ec_mult ecc_g_point_x ecc_g_point_y [2, 0, 0, 0, 0, 0, 0, 0] = Some (X, Y)"
    using ec_mult_refines [OF generator(1) _ generator(2), of "[2, 0, 0, 0, 0, 0, 0, 0]" point_2g] mult_two_g by auto
  moreover have "is_field ecc_g_point_x" "is_field ecc_g_point_y"
    using generator(1) by (auto simp: is_point_def is_field_def)
  ultimately show ?thesis using ec_mult_typed by blast
qed

end
