(* ===== verification/EcKeys.thy ===== *)
theory EcKeys
  imports Crypto Ecdsa
begin

text \<open>
  The elliptic-curve wrappers of \<open>dtls-crypto.c\<close>: key agreement, key generation and signatures on
  byte strings, on top of the curve arithmetic of \<open>ecc/ecc.c\<close>.
\<close>

definition dtls_ecdh_pre_master_secret ::
  "bytes \<Rightarrow> bytes \<Rightarrow> bytes \<Rightarrow> nat \<Rightarrow> nat \<Rightarrow> (int \<times> bytes) option" where
  "dtls_ecdh_pre_master_secret priv_key pub_key_x pub_key_y key_size result_len =
     (if result_len < key_size then Some (-1, [])
      else do {
        priv \<leftarrow> dtls_ec_key_to_uint32 priv_key key_size;
        pub_x \<leftarrow> dtls_ec_key_to_uint32 pub_key_x key_size;
        pub_y \<leftarrow> dtls_ec_key_to_uint32 pub_key_y key_size;
        (result_x, result_y) \<leftarrow> ecc_ecdh pub_x pub_y priv;
        r \<leftarrow> dtls_ec_key_from_uint32 result_x key_size;
        Some (int key_size, r) })"

text \<open>Randomness is a stream of bytes with a position; \<open>(uint8_t *)priv\<close> fills the words in the
  byte order of the host, which is little-endian.\<close>

type_synonym rnd_stream = "nat \<Rightarrow> u8"

definition dtls_fill_random :: "rnd_stream \<Rightarrow> nat \<Rightarrow> nat \<Rightarrow> bytes \<times> nat" where
  "dtls_fill_random rnd pos len = (map rnd [pos..<pos + len], pos + len)"

definition host_words :: "bytes \<Rightarrow> nat \<Rightarrow> u32 list" where
  "host_words bs n = map (\<lambda>i. word_of_nat (be_nat (rev (take 4 (drop (4 * i) bs))))) [0..<n]"

text \<open>The rejection loops run until the stream gives an acceptable value.\<close>

partial_function (option) gen_key_loop :: "rnd_stream \<Rightarrow> nat \<Rightarrow> nat \<Rightarrow> (u32 list \<times> nat) option" where
  "gen_key_loop rnd pos key_size =
     (let (bs, pos') = dtls_fill_random rnd pos key_size; priv = host_words bs 8 in
      if ecc_is_valid_key priv then Some (priv, pos') else gen_key_loop rnd pos' key_size)"

definition dtls_ecdsa_generate_key ::
  "rnd_stream \<Rightarrow> nat \<Rightarrow> nat \<Rightarrow> (bytes \<times> bytes \<times> bytes \<times> nat) option" where
  "dtls_ecdsa_generate_key rnd pos key_size = do {
     (priv, pos) \<leftarrow> gen_key_loop rnd pos key_size;
     (pub_x, pub_y) \<leftarrow> ecc_gen_pub_key priv;
     k \<leftarrow> dtls_ec_key_from_uint32 priv key_size;
     x \<leftarrow> dtls_ec_key_from_uint32 pub_x key_size;
     y \<leftarrow> dtls_ec_key_from_uint32 pub_y key_size;
     Some (k, x, y, pos) }"

partial_function (option) sign_loop ::
  "rnd_stream \<Rightarrow> nat \<Rightarrow> nat \<Rightarrow> u32 list \<Rightarrow> u32 list \<Rightarrow> u32 list \<Rightarrow> u32 list \<Rightarrow> (u32 list \<times> u32 list \<times> nat) option" where
  "sign_loop rnd pos key_size priv hash point_r point_s =
     (let (bs, pos') = dtls_fill_random rnd pos key_size
      in do {
        (ret, point_r, point_s) \<leftarrow> ecc_ecdsa_sign_hash priv hash (host_words bs 8) point_r point_s;
        if ret \<noteq> 0 then sign_loop rnd pos' key_size priv hash point_r point_s else Some (point_r, point_s, pos')
      })"

declare gen_key_loop.simps [code] sign_loop.simps [code]

definition dtls_ecdsa_create_sig_hash ::
  "rnd_stream \<Rightarrow> nat \<Rightarrow> bytes \<Rightarrow> nat \<Rightarrow> bytes \<Rightarrow> u32 list \<Rightarrow> u32 list \<Rightarrow> (u32 list \<times> u32 list \<times> nat) option" where
  "dtls_ecdsa_create_sig_hash rnd pos priv_key key_size sign_hash point_r point_s = do {
     priv \<leftarrow> dtls_ec_key_to_uint32 priv_key key_size;
     hash \<leftarrow> dtls_ec_key_to_uint32 sign_hash (length sign_hash);
     sign_loop rnd pos key_size priv hash point_r point_s }"

definition params_hash :: "bytes \<Rightarrow> bytes \<Rightarrow> bytes \<Rightarrow> bytes" where
  "params_hash client_random server_random keyx_params =
     (let data = dtls_hash_init;
          data = dtls_hash_update data client_random;
          data = dtls_hash_update data server_random;
          data = dtls_hash_update data keyx_params
      in fst (dtls_hash_finalize data))"

definition dtls_ecdsa_create_sig ::
  "rnd_stream \<Rightarrow> nat \<Rightarrow> bytes \<Rightarrow> nat \<Rightarrow> bytes \<Rightarrow> bytes \<Rightarrow> bytes \<Rightarrow> u32 list \<Rightarrow> u32 list \<Rightarrow>
   (u32 list \<times> u32 list \<times> nat) option" where
  "dtls_ecdsa_create_sig rnd pos priv_key key_size client_random server_random keyx_params point_r point_s =
     dtls_ecdsa_create_sig_hash rnd pos priv_key key_size
       (params_hash client_random server_random keyx_params) point_r point_s"

text \<open>Verification reads both components from a message buffer, at the offsets \<open>r\<close> and \<open>s\<close>.\<close>

definition dtls_ecdsa_verify_sig_hash ::
  "bytes \<Rightarrow> bytes \<Rightarrow> nat \<Rightarrow> bytes \<Rightarrow> bytes \<Rightarrow> bytes \<Rightarrow> int option" where
  "dtls_ecdsa_verify_sig_hash pub_key_x pub_key_y key_size sign_hash result_r result_s = do {
     pub_x \<leftarrow> dtls_ec_key_to_uint32 pub_key_x key_size;
     pub_y \<leftarrow> dtls_ec_key_to_uint32 pub_key_y key_size;
     point_r \<leftarrow> dtls_ec_key_to_uint32 result_r key_size;
     point_s \<leftarrow> dtls_ec_key_to_uint32 result_s key_size;
     hash \<leftarrow> dtls_ec_key_to_uint32 sign_hash (length sign_hash);
     ecc_ecdsa_validate pub_x pub_y hash point_r point_s }"

definition dtls_ecdsa_verify_sig ::
  "bytes \<Rightarrow> bytes \<Rightarrow> nat \<Rightarrow> bytes \<Rightarrow> bytes \<Rightarrow> bytes \<Rightarrow> bytes \<Rightarrow> bytes \<Rightarrow> int option" where
  "dtls_ecdsa_verify_sig pub_key_x pub_key_y key_size client_random server_random keyx_params
      result_r result_s =
     dtls_ecdsa_verify_sig_hash pub_key_x pub_key_y key_size
       (params_hash client_random server_random keyx_params) result_r result_s"

lemma params_hash_SHA256: "params_hash a b c = SHA256 (a @ b @ c)"
  using hash.digest_pieces [of "[a, b, c]"] by (simp add: params_hash_def)

subsection \<open>Generation ends, and agreement\<close>

abbreviation octets :: "u32 list \<Rightarrow> bytes" where
  "octets ws \<equiv> concat (map dtls_int_to_uint32 (rev ws))"

lemma length_host_words [simp]: "length (host_words bs n) = n"
  by (simp add: host_words_def)

lemma words_value_num32: "words_value ws = num32 ws"
  by (induction ws) simp_all

lemma be_nat_octets: "be_nat (octets ws) = num32 ws"
  using concat_uint32_value [of "rev ws"] by (simp add: words_value_num32)

lemma octets8:
  "length k = 8 \<Longrightarrow> dtls_ec_key_from_uint32 k 32 = Some (octets k)"
  "length k = 8 \<Longrightarrow> dtls_ec_key_to_uint32 (octets k) 32 = Some k"
  using ec_octets [of k] by simp_all

text \<open>The \<open>n\<close>-th candidate of the stream.\<close>

definition candidate :: "rnd_stream \<Rightarrow> nat \<Rightarrow> nat \<Rightarrow> u32 list" where
  "candidate rnd pos n = host_words (map rnd [pos + 32 * n..<pos + 32 * n + 32]) 8"

lemma gen_key_loop_step:
  "gen_key_loop rnd pos 32 =
     (if ecc_is_valid_key (candidate rnd pos 0) then Some (candidate rnd pos 0, pos + 32)
      else gen_key_loop rnd (pos + 32) 32)"
  by (subst gen_key_loop.simps) (simp add: dtls_fill_random_def candidate_def)

lemma candidate_shift: "candidate rnd (pos + 32) n = candidate rnd pos (Suc n)"
  by (simp add: candidate_def ac_simps)

lemma gen_key_loop_finds:
  assumes "ecc_is_valid_key (candidate rnd pos n)" and "\<forall>m<n. \<not> ecc_is_valid_key (candidate rnd pos m)"
  shows "gen_key_loop rnd pos 32 = Some (candidate rnd pos n, pos + 32 * n + 32)"
  using assms
proof (induction n arbitrary: pos)
  case 0
  then show ?case by (subst gen_key_loop_step) simp
next
  case (Suc n)
  have "\<not> ecc_is_valid_key (candidate rnd pos 0)" using Suc.prems(2) by blast
  moreover have "gen_key_loop rnd (pos + 32) 32 = Some (candidate rnd (pos + 32) n, pos + 32 + 32 * n + 32)"
    using Suc.prems by (intro Suc.IH) (auto simp: candidate_shift)
  ultimately show ?case by (subst gen_key_loop_step) (simp add: candidate_shift)
qed

text \<open>C39: Key agreement: for the first acceptable scalars \<open>a\<close> and \<open>b\<close> of the random streams of the two sides,
  both calls of \<open>dtls_ecdsa_generate_key\<close> return; and \<open>dtls_ecdh_pre_master_secret\<close>, fed on each side with
  the own private octets and the other side's public octets, returns the same 32 bytes, the x coordinate,
  if the formulas give \<open>a (b G)\<close> and \<open>b (a G)\<close> the same x coordinate.\<close>

theorem ecdh_agreement:
  assumes "ecc_is_valid_key (candidate rnd1 p1 m1)" and "\<forall>m<m1. \<not> ecc_is_valid_key (candidate rnd1 p1 m)"
    and "ecc_is_valid_key (candidate rnd2 p2 m2)" and "\<forall>m<m2. \<not> ecc_is_valid_key (candidate rnd2 p2 m)"
    and "point_mult (gx, gy) (num32 (candidate rnd1 p1 m1)) 256 (0, 0) = Some A"
    and "point_mult (gx, gy) (num32 (candidate rnd2 p2 m2)) 256 (0, 0) = Some B"
    and "point_mult B (num32 (candidate rnd1 p1 m1)) 256 (0, 0) = Some S"
    and "point_mult A (num32 (candidate rnd2 p2 m2)) 256 (0, 0) = Some S'" and "fst S = fst S'"
  shows "\<exists>k1 x1 y1 q1 k2 x2 y2 q2 s. dtls_ecdsa_generate_key rnd1 p1 32 = Some (k1, x1, y1, q1) \<and>
    dtls_ecdsa_generate_key rnd2 p2 32 = Some (k2, x2, y2, q2) \<and>
    dtls_ecdh_pre_master_secret k1 x2 y2 32 40 = Some (32, s) \<and>
    dtls_ecdh_pre_master_secret k2 x1 y1 32 40 = Some (32, s) \<and> int (be_nat s) = fst S"
proof -
  define a where "a = candidate rnd1 p1 m1"
  define b where "b = candidate rnd2 p2 m2"
  have l: "length a = 8" "length b = 8" by (simp_all add: a_def b_def candidate_def)
  obtain ax ay where A: "ecc_gen_pub_key a = Some (ax, ay)" "is_point ax ay A" "on_curve p256_b A"
    using ec_mult_refines [OF generator(1) l(1) generator(2)] assms(5) unfolding ecc_gen_pub_key_def a_def by blast
  obtain bx bY where B: "ecc_gen_pub_key b = Some (bx, bY)" "is_point bx bY B" "on_curve p256_b B"
    using ec_mult_refines [OF generator(1) l(2) generator(2)] assms(6) unfolding ecc_gen_pub_key_def b_def by blast
  obtain sx sy where S: "ecc_ecdh bx bY a = Some (sx, sy)" "is_point sx sy S"
    using ec_mult_refines [OF B(2) l(1) B(3)] assms(7) unfolding ecc_ecdh_def a_def by blast
  obtain tx ty where T: "ecc_ecdh ax ay b = Some (tx, ty)" "is_point tx ty S'"
    using ec_mult_refines [OF A(2) l(2) A(3)] assms(8) unfolding ecc_ecdh_def b_def by blast
  have w: "length ax = 8" "length ay = 8" "length bx = 8" "length bY = 8" "length sx = 8" "length tx = 8"
    using A(2) B(2) S(2) T(2) by (simp_all add: is_point_def)
  have st: "num32 sx = num32 tx" "int (num32 sx) = fst S" using S(2) T(2) assms(9) by (auto simp: is_point_def)
  then have "sx = tx" using w num32_eq_iff by simp
  have g1: "dtls_ecdsa_generate_key rnd1 p1 32 = Some (octets a, octets ax, octets ay, p1 + 32 * m1 + 32)"
    using gen_key_loop_finds [OF assms(1,2)] A(1) l w octets8(1) by (simp add: dtls_ecdsa_generate_key_def a_def [symmetric])
  have g2: "dtls_ecdsa_generate_key rnd2 p2 32 = Some (octets b, octets bx, octets bY, p2 + 32 * m2 + 32)"
    using gen_key_loop_finds [OF assms(3,4)] B(1) l w octets8(1) by (simp add: dtls_ecdsa_generate_key_def b_def [symmetric])
  have "dtls_ecdh_pre_master_secret (octets a) (octets bx) (octets bY) 32 40 = Some (32, octets sx)"
    "dtls_ecdh_pre_master_secret (octets b) (octets ax) (octets ay) 32 40 = Some (32, octets sx)"
    using S(1) T(1) l w octets8 \<open>sx = tx\<close> by (simp_all add: dtls_ecdh_pre_master_secret_def)
  moreover have "int (be_nat (octets sx)) = fst S" using be_nat_octets [of sx] st(2) by simp
  ultimately show ?thesis using g1 g2 by blast
qed

text \<open>Witness: the scalars 1 and 2.\<close>

definition stream_of :: "u8 \<Rightarrow> rnd_stream" where
  "stream_of b n = (if n = 0 then b else 0)"

lemma candidate_stream: "candidate (stream_of b) 0 0 = [ucast b, 0, 0, 0, 0, 0, 0, 0]"
  by (simp add: candidate_def host_words_def stream_of_def upt_rec)

lemma ecdh_agreement_witness:
  "\<exists>k1 x1 y1 q1 k2 x2 y2 q2 s. dtls_ecdsa_generate_key (stream_of 1) 0 32 = Some (k1, x1, y1, q1) \<and>
    dtls_ecdsa_generate_key (stream_of 2) 0 32 = Some (k2, x2, y2, q2) \<and>
    dtls_ecdh_pre_master_secret k1 x2 y2 32 40 = Some (32, s) \<and>
    dtls_ecdh_pre_master_secret k2 x1 y1 32 40 = Some (32, s) \<and> int (be_nat s) = fst point_2g"
proof (rule ecdh_agreement [where ?m1.0 = 0 and ?m2.0 = 0])
  show "ecc_is_valid_key (candidate (stream_of 1) 0 0)" "ecc_is_valid_key (candidate (stream_of 2) 0 0)"
    using ecc_is_valid_key_num by (simp_all add: candidate_stream n256_def)
  show "point_mult (gx, gy) (num32 (candidate (stream_of 1) 0 0)) 256 (0, 0) = Some (gx, gy)"
    "point_mult point_2g (num32 (candidate (stream_of 1) 0 0)) 256 (0, 0) = Some point_2g"
    using mult_one by (simp_all add: candidate_stream)
  show "point_mult (gx, gy) (num32 (candidate (stream_of 2) 0 0)) 256 (0, 0) = Some point_2g"
    "point_mult (gx, gy) (num32 (candidate (stream_of 2) 0 0)) 256 (0, 0) = Some point_2g"
    using mult_two_g by (simp_all add: candidate_stream)
qed simp_all

end
