(* ===== verification/Engine.thy ===== *)
theory Engine
  imports Hello EcKeys
begin

text \<open>
  The DTLS engine: the global context of \<open>dtls.h\<close>, the effects it has on the world, and the
  sending side of \<open>dtls.c\<close>: single records (\<open>dtls_send_multi\<close>, \<open>dtls_send\<close>), alerts, closing and
  destroying peers, handshake messages with their fragmentation, and the retransmission of
  handshake messages.

  The world outside the library is a record of functions: the callbacks of the application, the
  clock, the random source, the allocators. What the library does to it is recorded in the
  context: the datagrams written, the application data delivered and the events reported.
\<close>

subsection \<open>The context\<close>

record tesla_sync =
  ts_nonce :: bytes
  ts_T_sender :: bytes
  ts_rate :: bytes
  ts_interval_id :: bytes
  ts_T_start :: bytes
  ts_T_int :: bytes
  ts_dis_delay :: bytes
  ts_key_chain_len :: bytes
  ts_Key_comm :: bytes

record dtls_context_t =
  cx_cookie_secret :: bytes
  cx_ph :: peer_heap
  cx_peers :: ptr
  cx_nh :: netq_heap
  cx_sendqueue :: ptr
  cx_treq_nonce :: bytes
  cx_tsync :: tesla_sync
  cx_hmac_key1 :: bytes
  cx_MSSPK :: bytes
  cx_cctx :: rijndael_ctx
  cx_written :: "(session_t \<times> bytes) list"
  cx_read :: "(session_t \<times> bytes) list"
  cx_events :: "(session_t \<times> nat \<times> nat) list"
  cx_clock :: nat
  cx_rnd :: nat
  cx_allocs :: nat

record ksnmss_sig =
  sg_id :: u32
  sg_message :: bytes
  sg_sksum :: bytes
  sg_pk :: "bytes list"
  sg_auth :: "bytes list"

text \<open>\<open>ev_write\<close> is the return value of the write callback, \<open>ev_ticks\<close> the successive readings of
  the clock, \<open>ev_time\<close> those of \<open>gettimeofday\<close> (seconds and microseconds), \<open>ev_alloc_ok\<close> the
  successive successes of \<open>malloc\<close> for objects without an address in the model.
  \<open>ev_psk_info\<close> answers a request (0 for the hint, 1 for the identity, 2 for the key) with a return
  value and the bytes it stored. \<open>ev_key_generation\<close> is the public key that \<open>key_generation\<close> of
  K2SN-MSS computes. \<open>ev_from_millis\<close> is \<open>NTP_fromMillis\<close>, which computes in floating point;
  \<open>ev_freed\<close> is what a program finds that reads a block it has just freed, \<open>ev_point_r\<close> and \<open>ev_point_s\<close>
  what is in the two signature arrays of \<open>dtls.c\<close>, of 9 words each, before they are written.\<close>

record dtls_env =
  ev_caps :: dtls_caps
  ev_write :: "dtls_context_t \<Rightarrow> session_t \<Rightarrow> bytes \<Rightarrow> int"
  ev_psk_info :: "session_t \<Rightarrow> nat \<Rightarrow> bytes \<Rightarrow> nat \<Rightarrow> int \<times> bytes"
  ev_verify_ecdsa_key :: "session_t \<Rightarrow> bytes \<Rightarrow> bytes \<Rightarrow> int"
  ev_ticks :: "nat \<Rightarrow> u64"
  ev_time :: "nat \<Rightarrow> u64 \<times> u64"
  ev_random :: rnd_stream
  ev_alloc_ok :: "nat \<Rightarrow> bool"
  ev_node_alloc :: "netq_heap \<Rightarrow> ptr"
  ev_peer_alloc :: "peer_heap \<Rightarrow> ptr"
  ev_address :: "session_t \<Rightarrow> bytes"
  ev_point_r :: "u32 list"
  ev_point_s :: "u32 list"
  ev_ksnmss_sign :: "bytes \<Rightarrow> ksnmss_sig"
  ev_key_generation :: bytes
  ev_from_millis :: "u64 \<Rightarrow> u64 \<times> u64"
  ev_freed :: "bytes \<Rightarrow> bytes option"

definition ticks :: "dtls_env \<Rightarrow> dtls_context_t \<Rightarrow> u64 \<times> dtls_context_t" where
  "ticks env ctx = (ev_ticks env (cx_clock ctx), ctx\<lparr>cx_clock := cx_clock ctx + 1\<rparr>)"

definition fill_random :: "dtls_env \<Rightarrow> nat \<Rightarrow> dtls_context_t \<Rightarrow> bytes \<times> dtls_context_t" where
  "fill_random env n ctx =
     (let (bs, pos) = dtls_fill_random (ev_random env) (cx_rnd ctx) n in (bs, ctx\<lparr>cx_rnd := pos\<rparr>))"

definition malloc_ok :: "dtls_env \<Rightarrow> dtls_context_t \<Rightarrow> bool \<times> dtls_context_t" where
  "malloc_ok env ctx = (ev_alloc_ok env (cx_allocs ctx), ctx\<lparr>cx_allocs := cx_allocs ctx + 1\<rparr>)"

definition store_peer :: "nat \<Rightarrow> dtls_peer_t \<Rightarrow> dtls_context_t \<Rightarrow> dtls_context_t" where
  "store_peer a p ctx = ctx\<lparr>cx_ph := (cx_ph ctx)(a \<mapsto> p)\<rparr>"

definition store_slot :: "nat \<Rightarrow> nat \<Rightarrow> dtls_security_parameters_t option \<Rightarrow> dtls_context_t \<Rightarrow> dtls_context_t option" where
  "store_slot a k s ctx = do {
     p \<leftarrow> cx_ph ctx a;
     Some (store_peer a (if k = 0 then p\<lparr>pr_security0 := s\<rparr> else p\<lparr>pr_security1 := s\<rparr>) ctx) }"

definition set_state :: "nat \<Rightarrow> dtls_state_t \<Rightarrow> dtls_context_t \<Rightarrow> dtls_context_t option" where
  "set_state a st ctx = do { p \<leftarrow> cx_ph ctx a; Some (store_peer a (p\<lparr>pr_state := st\<rparr>) ctx) }"

subsection \<open>Sending records\<close>

text \<open>The copy kept for retransmission. The result of \<open>netq_insert_node\<close> is never 0.\<close>

definition keep_for_retransmit ::
  "dtls_env \<Rightarrow> dtls_context_t \<Rightarrow> ptr \<Rightarrow> dtls_security_parameters_t option \<Rightarrow> u8 \<Rightarrow> bytes list \<Rightarrow>
   dtls_context_t option" where
  "keep_for_retransmit env ctx peer security type bufs =
     (let (nh, n) = netq_node_new (ev_node_alloc env) (cx_nh ctx) in
      case n of
        None \<Rightarrow> Some ctx
      | Some a \<Rightarrow> do {
          let (now, ctx) = ticks env (ctx\<lparr>cx_nh := nh\<rparr>);
          node \<leftarrow> cx_nh ctx a;
          data \<leftarrow> wr_n (nq_data node) 0 (concat bufs);
          let node = node\<lparr>nq_t := now + 2 * 1000, nq_retransmit_cnt := 0, nq_timeout := 2 * 1000,
            nq_peer := peer, nq_epoch := (case security of Some s \<Rightarrow> sp_epoch s | None \<Rightarrow> 0),
            nq_type := type, nq_length := length (concat bufs), nq_data := data\<rparr>;
          (nh', q, r) \<leftarrow> netq_insert_node ((cx_nh ctx)(a \<mapsto> node)) (cx_sendqueue ctx) a;
          if r = 0 then Some (ctx\<lparr>cx_nh := netq_node_free nh' n\<rparr>)
          else Some (ctx\<lparr>cx_nh := nh', cx_sendqueue := q\<rparr>) })"

text \<open>\<open>slot\<close> names the security parameters the caller passes, a slot of the peer.\<close>

definition dtls_send_multi ::
  "dtls_env \<Rightarrow> dtls_context_t \<Rightarrow> ptr \<Rightarrow> nat \<Rightarrow> session_t \<Rightarrow> u8 \<Rightarrow> bytes list \<Rightarrow>
   (int \<times> dtls_context_t) option" where
  "dtls_send_multi env ctx peer slot session type bufs = do {
     (role, security) \<leftarrow>
       (case peer of
          None \<Rightarrow> Some (None, None)
        | Some a \<Rightarrow> map_option (\<lambda>p. (Some (pr_role p), security_slot p slot)) (cx_ph ctx a));
     (res, rec, security') \<leftarrow> dtls_prepare_record (cx_cctx ctx) role security type bufs 30000;
     ctx \<leftarrow> (case peer of None \<Rightarrow> Some ctx | Some a \<Rightarrow> store_slot a slot security' ctx);
     if res < 0 then Some (res, ctx)
     else do {
       keep \<leftarrow> (if type = 22 then
                  (case bufs of [] \<Rightarrow> None | b # _ \<Rightarrow> map_option (\<lambda>x. x \<noteq> 3) (rd b 0))
                else Some (type = 20));
       ctx \<leftarrow> (if keep then keep_for_retransmit env ctx peer security type bufs else Some ctx);
       let res = ev_write env ctx session rec;
       let ctx = ctx\<lparr>cx_written := cx_written ctx @ [(session, rec)]\<rparr>;
       Some (if res \<le> 0 then res else int (length (concat bufs)) - (int (length rec) - res), ctx) } }"

definition dtls_send ::
  "dtls_env \<Rightarrow> dtls_context_t \<Rightarrow> ptr \<Rightarrow> u8 \<Rightarrow> bytes \<Rightarrow> (int \<times> dtls_context_t) option" where
  "dtls_send env ctx peer type buf =
     (case peer of
        None \<Rightarrow> Some (0, ctx)
      | Some a \<Rightarrow> do {
          p \<leftarrow> cx_ph ctx a;
          dtls_send_multi env ctx peer 0 (pr_session p) type [buf] })"

definition dtls_send_alert ::
  "dtls_env \<Rightarrow> dtls_context_t \<Rightarrow> ptr \<Rightarrow> nat \<Rightarrow> nat \<Rightarrow> (int \<times> dtls_context_t) option" where
  "dtls_send_alert env ctx peer level description =
     map_option (\<lambda>(_, ctx). (0, ctx))
       (dtls_send env ctx peer 21 [word_of_nat level, word_of_nat description])"

definition dtls_send_ccs :: "dtls_env \<Rightarrow> dtls_context_t \<Rightarrow> ptr \<Rightarrow> (int \<times> dtls_context_t) option" where
  "dtls_send_ccs env ctx peer = dtls_send env ctx peer 20 [1]"

definition dtls_close :: "dtls_env \<Rightarrow> dtls_context_t \<Rightarrow> session_t \<Rightarrow> (int \<times> dtls_context_t) option" where
  "dtls_close env ctx remote = do {
     peer \<leftarrow> dtls_get_peer (cx_ph ctx) remote (cx_peers ctx);
     (case peer of
        None \<Rightarrow> Some (-1, ctx)
      | Some a \<Rightarrow> do {
          (res, ctx) \<leftarrow> dtls_send_alert env ctx peer 2 DTLS_ALERT_CLOSE_NOTIFY;
          ctx \<leftarrow> set_state a DTLS_STATE_CLOSING ctx;
          Some (res, ctx) }) }"

definition unlink_peer :: "ptr \<Rightarrow> dtls_context_t \<Rightarrow> dtls_context_t option" where
  "unlink_peer peer ctx = do {
     (ph, q) \<leftarrow> delete_peer (cx_ph ctx) (cx_peers ctx) peer;
     Some (ctx\<lparr>cx_ph := ph, cx_peers := q\<rparr>) }"

definition free_peer :: "nat \<Rightarrow> dtls_context_t \<Rightarrow> dtls_context_t option" where
  "free_peer a ctx = do {
     (nh, ph) \<leftarrow> dtls_free_peer (cx_nh ctx) (cx_ph ctx) a;
     Some (ctx\<lparr>cx_nh := nh, cx_ph := ph\<rparr>) }"

definition dtls_destroy_peer ::
  "dtls_env \<Rightarrow> dtls_context_t \<Rightarrow> ptr \<Rightarrow> bool \<Rightarrow> dtls_context_t option" where
  "dtls_destroy_peer env ctx peer unlink =
     (case peer of
        None \<Rightarrow> Some ctx
      | Some a \<Rightarrow> do {
          p \<leftarrow> cx_ph ctx a;
          ctx \<leftarrow> (if pr_state p \<noteq> DTLS_STATE_CLOSED \<and> pr_state p \<noteq> DTLS_STATE_CLOSING
                 then map_option snd (dtls_close env ctx (pr_session p)) else Some ctx);
          ctx \<leftarrow> (if unlink then unlink_peer peer ctx else Some ctx);
          free_peer a ctx })"

subsection \<open>Handshake messages\<close>

text \<open>The running hash of the handshake messages; every function dereferences the handshake
  parameters.\<close>

definition hs_of :: "nat \<Rightarrow> dtls_context_t \<Rightarrow> dtls_handshake_parameters_t option" where
  "hs_of a ctx = do { p \<leftarrow> cx_ph ctx a; pr_handshake p }"

definition put_hs :: "nat \<Rightarrow> dtls_handshake_parameters_t option \<Rightarrow> dtls_context_t \<Rightarrow> dtls_context_t option" where
  "put_hs a h ctx = do { p \<leftarrow> cx_ph ctx a; Some (store_peer a (p\<lparr>pr_handshake := h\<rparr>) ctx) }"

definition set_hash :: "dtls_sha256_ctx \<Rightarrow> dtls_handshake_parameters_t \<Rightarrow> dtls_handshake_parameters_t" where
  "set_hash x h = h\<lparr>hp_hs_state := (hp_hs_state h)\<lparr>hs_hash := x\<rparr>\<rparr>"

definition update_hs_hash :: "nat \<Rightarrow> bytes \<Rightarrow> dtls_context_t \<Rightarrow> dtls_context_t option" where
  "update_hs_hash a data ctx = do {
     h \<leftarrow> hs_of a ctx;
     put_hs a (Some (set_hash (dtls_hash_update (hs_hash (hp_hs_state h)) data) h)) ctx }"

definition copy_hs_hash :: "nat \<Rightarrow> dtls_context_t \<Rightarrow> dtls_sha256_ctx option" where
  "copy_hs_hash a ctx = do { h \<leftarrow> hs_of a ctx; Some (hs_hash (hp_hs_state h)) }"

definition finalize_hs_hash :: "nat \<Rightarrow> dtls_context_t \<Rightarrow> (bytes \<times> nat \<times> dtls_context_t) option" where
  "finalize_hs_hash a ctx = do {
     h \<leftarrow> hs_of a ctx;
     let (buf, len, x) = dtls_hash_finalize (hs_hash (hp_hs_state h));
     ctx \<leftarrow> put_hs a (Some (set_hash x h)) ctx;
     Some (buf, len, ctx) }"

definition clear_hs_hash :: "nat \<Rightarrow> dtls_context_t \<Rightarrow> dtls_context_t option" where
  "clear_hs_hash a ctx = do {
     h \<leftarrow> hs_of a ctx;
     put_hs a (Some (set_hash dtls_hash_init h)) ctx }"

definition handshake_header ::
  "ptr \<Rightarrow> u8 \<Rightarrow> nat \<Rightarrow> nat \<Rightarrow> nat \<Rightarrow> bool \<Rightarrow> dtls_context_t \<Rightarrow> (bytes \<times> dtls_context_t) option" where
  "handshake_header peer type len off flen inc ctx =
     (case peer of
        None \<Rightarrow> Some (fst (dtls_set_handshake_header type None len off flen inc), ctx)
      | Some a \<Rightarrow> do {
          p \<leftarrow> cx_ph ctx a;
          let (b, h) = dtls_set_handshake_header type (pr_handshake p) len off flen inc;
          ctx \<leftarrow> put_hs a h ctx;
          Some (b, ctx) })"

text \<open>One round of the loop of \<open>dtls_send_handshake_msg_hash\<close>, with \<open>remaining\<close> bytes to go. The data
  pointer may be \<open>NULL\<close>, then the length is 0.\<close>

definition send_fragment ::
  "dtls_env \<Rightarrow> dtls_context_t \<Rightarrow> ptr \<Rightarrow> session_t \<Rightarrow> u8 \<Rightarrow> bytes option \<Rightarrow> nat \<Rightarrow> bool \<Rightarrow>
   (int \<times> dtls_context_t) option" where
  "send_fragment env ctx peer session header_type data remaining add_hash = do {
     let d = (case data of None \<Rightarrow> [] | Some d \<Rightarrow> d);
     let data_length = length d;
     let last_fragment = (remaining < 1252);
     let first = (add_hash \<and> remaining = data_length);
     ctx \<leftarrow> (if first then do {
              (b, ctx) \<leftarrow> handshake_header peer header_type data_length 0 data_length False ctx;
              a \<leftarrow> peer;
              update_hs_hash a b ctx }
            else Some ctx);
     (buf, ctx) \<leftarrow> handshake_header peer header_type data_length (data_length - remaining)
                   (min remaining 1252) last_fragment ctx;
     ctx \<leftarrow> (if data \<noteq> None \<and> first then do { a \<leftarrow> peer; update_hs_hash a d ctx } else Some ctx);
     let payload = take (if last_fragment then remaining else 1252) (drop (data_length - remaining) d);
     dtls_send_multi env ctx peer 0 session 22 (buf # (if data = None then [] else [payload])) }"

function hs_send_loop ::
  "dtls_env \<Rightarrow> dtls_context_t \<Rightarrow> ptr \<Rightarrow> session_t \<Rightarrow> u8 \<Rightarrow> bytes option \<Rightarrow> nat \<Rightarrow> bool \<Rightarrow> int \<Rightarrow>
   (int \<times> dtls_context_t) option" where
  "hs_send_loop env ctx peer session header_type data remaining add_hash ret =
     (case send_fragment env ctx peer session header_type data remaining add_hash of
        None \<Rightarrow> None
      | Some (r, ctx') \<Rightarrow>
          (let remaining' = (if remaining < 1252 then 0 else remaining - 1252) in
           if remaining' > 0
           then hs_send_loop env ctx' peer session header_type data remaining' add_hash (ret + r)
           else Some (ret + r, ctx')))"
  by pat_completeness auto
termination
  by (relation "measure (\<lambda>(_, _, _, _, _, _, remaining, _, _). remaining)") auto

declare hs_send_loop.simps [simp del]

definition dtls_send_handshake_msg_hash ::
  "dtls_env \<Rightarrow> dtls_context_t \<Rightarrow> ptr \<Rightarrow> session_t \<Rightarrow> u8 \<Rightarrow> bytes option \<Rightarrow> bool \<Rightarrow>
   (int \<times> dtls_context_t) option" where
  "dtls_send_handshake_msg_hash env ctx peer session header_type data add_hash =
     hs_send_loop env ctx peer session header_type data
       (length (case data of None \<Rightarrow> [] | Some d \<Rightarrow> d)) add_hash 0"

definition dtls_send_handshake_msg ::
  "dtls_env \<Rightarrow> dtls_context_t \<Rightarrow> ptr \<Rightarrow> u8 \<Rightarrow> bytes option \<Rightarrow> (int \<times> dtls_context_t) option" where
  "dtls_send_handshake_msg env ctx peer header_type data =
     (case peer of
        None \<Rightarrow> Some (dtls_alert_fatal_create DTLS_ALERT_INTERNAL_ERROR, ctx)
      | Some a \<Rightarrow> do {
          p \<leftarrow> cx_ph ctx a;
          dtls_send_handshake_msg_hash env ctx peer (pr_session p) header_type data True })"

subsection \<open>Retransmission\<close>

text \<open>The sessions of the queued nodes are read through their peers.\<close>

partial_function (option) stop_loop :: "dtls_context_t \<Rightarrow> session_t \<Rightarrow> ptr \<Rightarrow> dtls_context_t option" where
  "stop_loop ctx session node =
     (case node of
        None \<Rightarrow> Some ctx
      | Some a \<Rightarrow>
          (case cx_nh ctx a of
             None \<Rightarrow> None
           | Some n \<Rightarrow>
               (case Option.bind (nq_peer n) (cx_ph ctx) of
                  None \<Rightarrow> None
                | Some p \<Rightarrow>
                    (if dtls_session_equals (pr_session p) session then
                       (case netq_remove (cx_nh ctx) (cx_sendqueue ctx) node of
                          None \<Rightarrow> None
                        | Some (nh, q) \<Rightarrow>
                            stop_loop (ctx\<lparr>cx_nh := netq_node_free nh node, cx_sendqueue := q\<rparr>) session
                              (nq_next n))
                     else stop_loop ctx session (nq_next n)))))"

definition dtls_stop_retransmission :: "dtls_context_t \<Rightarrow> ptr \<Rightarrow> dtls_context_t option" where
  "dtls_stop_retransmission ctx peer =
     (case peer of
        None \<Rightarrow> Some ctx
      | Some a \<Rightarrow> do {
          p \<leftarrow> cx_ph ctx a;
          stop_loop ctx (pr_session p) (netq_head (Some (cx_sendqueue ctx))) })"

definition dtls_retransmit :: "dtls_env \<Rightarrow> dtls_context_t \<Rightarrow> ptr \<Rightarrow> dtls_context_t option" where
  "dtls_retransmit env ctx node =
     (case node of
        None \<Rightarrow> Some ctx
      | Some a \<Rightarrow> do {
          n \<leftarrow> cx_nh ctx a;
          if nq_retransmit_cnt n < 7 \<and> nq_peer n \<noteq> None then do {
            pa \<leftarrow> nq_peer n;
            p \<leftarrow> cx_ph ctx pa;
            let slot = dtls_security_params_epoch p (nq_epoch n);
            let (now, ctx) = ticks env ctx;
            let cnt = nq_retransmit_cnt n + 1;
            let n = n\<lparr>nq_retransmit_cnt := cnt, nq_t := now + ucast (push_bit (unat cnt) (nq_timeout n))\<rparr>;
            (nh, q, _) \<leftarrow> netq_insert_node ((cx_nh ctx)(a \<mapsto> n)) (cx_sendqueue ctx) a;
            let ctx = ctx\<lparr>cx_nh := nh, cx_sendqueue := q\<rparr>;
            (err, rec, sec) \<leftarrow> dtls_prepare_record (cx_cctx ctx) (Some (pr_role p))
                (Option.bind slot (security_slot p)) (nq_type n) [take (nq_length n) (nq_data n)] 30000;
            ctx \<leftarrow> (case slot of None \<Rightarrow> Some ctx | Some k \<Rightarrow> store_slot pa k sec ctx);
            if err < 0 then Some ctx
            else Some (ctx\<lparr>cx_written := cx_written ctx @ [(pr_session p, rec)]\<rparr>) }
          else Some (ctx\<lparr>cx_nh := netq_node_free (cx_nh ctx) node\<rparr>) })"

partial_function (option) check_loop ::
  "dtls_env \<Rightarrow> dtls_context_t \<Rightarrow> u64 \<Rightarrow> ptr \<Rightarrow> bool \<Rightarrow> (dtls_context_t \<times> ptr) option" where
  "check_loop env ctx now node all =
     (case node of
        None \<Rightarrow> Some (ctx, None)
      | Some a \<Rightarrow>
          (case cx_nh ctx a of
             None \<Rightarrow> None
           | Some n \<Rightarrow>
               (if nq_t n \<le> now then
                  (case netq_pop_first (cx_nh ctx) (cx_sendqueue ctx) of
                     None \<Rightarrow> None
                   | Some (nh, q, _) \<Rightarrow>
                       (case dtls_retransmit env (ctx\<lparr>cx_nh := nh, cx_sendqueue := q\<rparr>) node of
                          None \<Rightarrow> None
                        | Some ctx' \<Rightarrow>
                            (let node' = netq_head (Some (cx_sendqueue ctx')) in
                             if all then check_loop env ctx' now node' all else Some (ctx', node'))))
                else Some (ctx, node))))"

declare stop_loop.simps [code] check_loop.simps [code]

text \<open>The time of the next retransmission, 0 if there is none.\<close>

definition dtls_check_retransmit ::
  "dtls_env \<Rightarrow> dtls_context_t \<Rightarrow> bool \<Rightarrow> (dtls_context_t \<times> u64) option" where
  "dtls_check_retransmit env ctx all = do {
     let node = netq_head (Some (cx_sendqueue ctx));
     let (now, ctx) = ticks env ctx;
     (ctx, node) \<leftarrow> check_loop env ctx now node all;
     (case node of
        None \<Rightarrow> Some (ctx, 0)
      | Some a \<Rightarrow> map_option (\<lambda>n. (ctx, nq_t n)) (cx_nh ctx a)) }"

subsection \<open>A concrete world\<close>

text \<open>Used to show that the hypotheses of the theorems about the engine can hold.\<close>

definition env_example :: dtls_env where
  "env_example = \<lparr>ev_caps = \<lparr>cap_get_psk_info = True, cap_get_ecdsa_key = False, cap_verify_ecdsa_key = False\<rparr>,
     ev_write = (\<lambda>ctx session buf. int (length buf)), ev_psk_info = (\<lambda>session t desc n. (4, [115, 101, 99, 114])),
     ev_verify_ecdsa_key = (\<lambda>s x y. 0), ev_ticks = (\<lambda>n. word_of_nat n), ev_time = (\<lambda>n. (word_of_nat n, 0)),
     ev_random = (\<lambda>n. word_of_nat n), ev_alloc_ok = (\<lambda>n. True),
     ev_node_alloc = (\<lambda>h. if h 1 = None then Some 1 else if h 2 = None then Some 2 else None),
     ev_peer_alloc = (\<lambda>h. if h 1 = None then Some 1 else if h 2 = None then Some 2 else None),
     ev_address = (\<lambda>s. [ss_ifindex s]), ev_point_r = replicate 9 0, ev_point_s = replicate 9 0,
     ev_ksnmss_sign = (\<lambda>m. \<lparr>sg_id = 0, sg_message = m, sg_sksum = replicate 1024 0,
        sg_pk = replicate 262 (replicate 72 0), sg_auth = replicate 20 (replicate 72 0)\<rparr>),
     ev_key_generation = replicate 72 0, ev_from_millis = (\<lambda>ms. (0, ms div 1000)), ev_freed = Some\<rparr>"

definition tsync_zero :: tesla_sync where
  "tsync_zero = \<lparr>ts_nonce = replicate 32 0, ts_T_sender = replicate 16 0, ts_rate = replicate 4 0,
     ts_interval_id = replicate 4 0, ts_T_start = replicate 16 0, ts_T_int = replicate 4 0,
     ts_dis_delay = [0], ts_key_chain_len = replicate 4 0, ts_Key_comm = replicate 32 0\<rparr>"

definition ctx_example :: "peer_heap \<Rightarrow> dtls_context_t" where
  "ctx_example h = \<lparr>cx_cookie_secret = replicate 12 1, cx_ph = h, cx_peers = None, cx_nh = Map.empty,
     cx_sendqueue = None, cx_treq_nonce = replicate 32 0, cx_tsync = tsync_zero,
     cx_hmac_key1 = replicate 32 0, cx_MSSPK = replicate 72 0, cx_cctx = aes_ctx [],
     cx_written = [], cx_read = [], cx_events = [], cx_clock = 0, cx_rnd = 0, cx_allocs = 0\<rparr>"

end
