(* ===== verification/Keys.thy ===== *)
theory Keys
  imports Engine
begin

text \<open>
  The keys of a handshake in \<open>dtls.c\<close>: \<open>calculate_key_block\<close>, the Finished messages
  (\<open>dtls_send_finished\<close>, \<open>check_finished\<close>) and the parsing of the ClientKeyExchange.
\<close>

definition prf_label_master :: bytes where
  "prf_label_master = [109, 97, 115, 116, 101, 114, 32, 115, 101, 99, 114, 101, 116]"

definition prf_label_key :: bytes where
  "prf_label_key = [107, 101, 121, 32, 101, 120, 112, 97, 110, 115, 105, 111, 110]"

definition prf_label_client :: bytes where "prf_label_client = [99, 108, 105, 101, 110, 116]"

definition prf_label_server :: bytes where "prf_label_server = [115, 101, 114, 118, 101, 114]"

definition prf_label_finished :: bytes where
  "prf_label_finished = [32, 102, 105, 110, 105, 115, 104, 101, 100]"

text \<open>The two HMAC contexts of the PRF are allocated one after the other.\<close>

definition run_prf ::
  "dtls_env \<Rightarrow> dtls_context_t \<Rightarrow> bytes \<Rightarrow> bytes \<Rightarrow> bytes \<Rightarrow> bytes \<Rightarrow> nat \<Rightarrow> bytes \<times> dtls_context_t" where
  "run_prf env ctx key label random1 random2 n =
     (let (ok_a, ctx) = malloc_ok env ctx;
          (ok_p, ctx) = (if ok_a then malloc_ok env ctx else (False, ctx))
      in (snd (dtls_prf ok_a ok_p key (Some label) (Some random1) (Some random2) n), ctx))"

subsection \<open>The key block\<close>

definition get_psk_info ::
  "dtls_env \<Rightarrow> session_t \<Rightarrow> nat \<Rightarrow> bytes \<Rightarrow> nat \<Rightarrow> int \<times> bytes" where
  "get_psk_info env session type desc n =
     (if cap_get_psk_info (ev_caps env) then ev_psk_info env session type desc n else (-1, []))"

text \<open>The pre-master secret, in the storage of the new key block: its length or an error, and the
  new contents of the storage.\<close>

definition pre_master ::
  "dtls_env \<Rightarrow> dtls_handshake_parameters_t \<Rightarrow> session_t \<Rightarrow> bytes \<Rightarrow> (int \<times> bytes) option" where
  "pre_master env h session key_block =
     (if hp_cipher h = TLS_PSK_WITH_AES_128_CCM_8 then
        (let (len, psk) = get_psk_info env session 2
               (take (unat (psk_id_length (hp_psk h))) (psk_identity (hp_psk h))) 16
         in if len < 0 then Some (len, key_block)
            else if nat len > 16 \<or> length psk < nat len then None
            else (let (n, kb) = dtls_psk_pre_master_secret (take (nat len) psk) key_block in
                  Some (if n < 0 then (dtls_alert_fatal_create DTLS_ALERT_INTERNAL_ERROR, kb) else (n, kb))))
      else if hp_cipher h = TLS_ECDHE_ECDSA_WITH_AES_128_CCM_8 then do {
        (n, s) \<leftarrow> dtls_ecdh_pre_master_secret (ec_own_eph_priv (hp_ecdsa h))
                   (ec_other_eph_pub_x (hp_ecdsa h)) (ec_other_eph_pub_y (hp_ecdsa h)) 32 40;
        Some (if n < 0 then (dtls_alert_fatal_create DTLS_ALERT_INTERNAL_ERROR, key_block)
              else (n, put 0 s key_block)) }
      else Some (dtls_alert_fatal_create DTLS_ALERT_INTERNAL_ERROR, key_block))"

definition calculate_key_block ::
  "dtls_env \<Rightarrow> dtls_context_t \<Rightarrow> ptr \<Rightarrow> session_t \<Rightarrow> dtls_peer_type \<Rightarrow> (int \<times> dtls_context_t) option" where
  "calculate_key_block env ctx peer session role =
     (case peer of
        None \<Rightarrow> Some (dtls_alert_fatal_create DTLS_ALERT_INTERNAL_ERROR, ctx)
      | Some a \<Rightarrow> do {
          p \<leftarrow> cx_ph ctx a;
          (case pr_handshake p of
             None \<Rightarrow> Some (dtls_alert_fatal_create DTLS_ALERT_INTERNAL_ERROR, ctx)
           | Some h \<Rightarrow> do {
               let (ok, ctx) = malloc_ok env ctx;
               (p, ok) \<leftarrow> dtls_security_params_next ok p;
               let ctx = store_peer a p ctx;
               if \<not> ok then Some (dtls_alert_fatal_create DTLS_ALERT_INTERNAL_ERROR, ctx)
               else do {
                 security \<leftarrow> pr_security1 p;
                 (len, kb) \<leftarrow> pre_master env h session (sp_key_block security);
                 if len < 0 then
                   Some (len, store_peer a (p\<lparr>pr_security1 := Some (security\<lparr>sp_key_block := kb\<rparr>)\<rparr>) ctx)
                 else do {
                   let (master, ctx) = run_prf env ctx (take (nat len) kb) prf_label_master
                         (hp_client_random h) (hp_server_random h) 48;
                   let (keys, ctx) = run_prf env ctx master prf_label_key
                         (hp_server_random h) (hp_client_random h) dtls_kb_size;
                   let h = h\<lparr>hp_tmp := put 0 master (hp_tmp h)\<rparr>;
                   let security = security\<lparr>sp_key_block := put 0 keys kb, sp_cipher := hp_cipher h,
                         sp_compression := hp_compression h, sp_rseq := 0\<rparr>;
                   Some (0, store_peer a (p\<lparr>pr_security1 := Some security, pr_handshake := Some h\<rparr>) ctx) } } }) })"

subsection \<open>Finished\<close>

definition dtls_send_finished ::
  "dtls_env \<Rightarrow> dtls_context_t \<Rightarrow> ptr \<Rightarrow> bytes \<Rightarrow> (int \<times> dtls_context_t) option" where
  "dtls_send_finished env ctx peer label =
     (case peer of
        None \<Rightarrow> Some (dtls_alert_fatal_create DTLS_ALERT_INTERNAL_ERROR, ctx)
      | Some a \<Rightarrow> do {
          p \<leftarrow> cx_ph ctx a;
          (case pr_handshake p of
             None \<Rightarrow> Some (dtls_alert_fatal_create DTLS_ALERT_INTERNAL_ERROR, ctx)
           | Some h \<Rightarrow> do {
               hs_hash \<leftarrow> copy_hs_hash a ctx;
               let (hash, len, _) = dtls_hash_finalize hs_hash;
               let (buf, ctx) = run_prf env ctx (hp_master_secret h) label prf_label_finished (take len hash) 12;
               dtls_send_handshake_msg env ctx peer 20 (Some buf) }) })"

definition check_finished ::
  "dtls_env \<Rightarrow> dtls_context_t \<Rightarrow> ptr \<Rightarrow> bytes \<Rightarrow> (int \<times> dtls_context_t) option" where
  "check_finished env ctx peer data =
     (if length data < 12 + 12 then Some (HS_ERROR, ctx)
      else case peer of
        None \<Rightarrow> Some (dtls_alert_fatal_create DTLS_ALERT_INTERNAL_ERROR, ctx)
      | Some a \<Rightarrow> do {
          p \<leftarrow> cx_ph ctx a;
          (case pr_handshake p of
             None \<Rightarrow> Some (dtls_alert_fatal_create DTLS_ALERT_INTERNAL_ERROR, ctx)
           | Some h \<Rightarrow> do {
               let statebuf = hs_hash (hp_hs_state h);
               (buf, len, ctx) \<leftarrow> finalize_hs_hash a ctx;
               ctx \<leftarrow> put_hs a (Some (set_hash statebuf h)) ctx;
               let label = (if pr_role p = DTLS_CLIENT then prf_label_server else prf_label_client);
               let (v, ctx) = run_prf env ctx (hp_master_secret h) label prf_label_finished (take len buf) 12;
               d \<leftarrow> rd_n data 12 12;
               eq \<leftarrow> dtls_equals d v 12;
               Some (if eq \<noteq> 0 then 0 else dtls_alert_create 2 DTLS_ALERT_HANDSHAKE_FAILURE, ctx) }) })"

subsection \<open>ClientKeyExchange\<close>

text \<open>The lengths include the 113 bytes of the TESLA synchronisation, the 21368 bytes of the
  K2SN-MSS signature and its 72-byte public key, which this function skips.\<close>

definition check_client_keyexchange ::
  "dtls_handshake_parameters_t option \<Rightarrow> bytes \<Rightarrow> (int \<times> dtls_handshake_parameters_t option) option" where
  "check_client_keyexchange handshake data =
     (case handshake of
        None \<Rightarrow> Some (dtls_alert_fatal_create DTLS_ALERT_INTERNAL_ERROR, None)
      | Some h \<Rightarrow>
          (if is_tls_ecdhe_ecdsa_with_aes_128_ccm_8 (hp_cipher h) then
             (if length data < 12 + (1 + 1 + 32 + 32 + 113 + 21368 + 72) then Some (HS_ERROR, handshake)
              else do {
                b \<leftarrow> rd data 12;
                if b \<noteq> 65 then Some (HS_ERROR, handshake)
                else do {
                  b \<leftarrow> rd data 13;
                  if b \<noteq> 4 then Some (HS_ERROR, handshake)
                  else do {
                    x \<leftarrow> rd_n data 14 32;
                    y \<leftarrow> rd_n data 46 32;
                    Some (0, Some (h\<lparr>hp_ecdsa := (hp_ecdsa h)\<lparr>ec_other_eph_pub_x := x,
                                       ec_other_eph_pub_y := y\<rparr>\<rparr>)) } } })
           else if is_tls_psk_with_aes_128_ccm_8 (hp_cipher h) then
             (if length data < 12 + 2 then Some (HS_ERROR, handshake)
              else do {
                id_length \<leftarrow> dtls_uint16_to_int (drop 12 data);
                if 12 + 2 + unat id_length + 113 + 21368 + 72 \<noteq> length data then Some (HS_ERROR, handshake)
                else if unat id_length > 32 then
                  Some (dtls_alert_fatal_create DTLS_ALERT_INTERNAL_ERROR, handshake)
                else do {
                  i \<leftarrow> rd_n data 14 (unat id_length);
                  Some (0, Some (h\<lparr>hp_psk := (hp_psk h)\<lparr>psk_id_length := id_length,
                                     psk_identity := put 0 i (psk_identity (hp_psk h))\<rparr>\<rparr>)) } })
           else Some (0, handshake)))"

subsection \<open>Properties\<close>

definition alloc_all :: "dtls_env \<Rightarrow> bool" where
  "alloc_all env \<longleftrightarrow> (\<forall>n. ev_alloc_ok env n)"

definition bump :: "nat \<Rightarrow> dtls_context_t \<Rightarrow> dtls_context_t" where
  "bump n ctx = ctx\<lparr>cx_allocs := cx_allocs ctx + n\<rparr>"

lemma bump_simps [simp]:
  "cx_ph (bump n ctx) = cx_ph ctx" "bump m (bump n ctx) = bump (n + m) ctx"
  "store_peer a p (bump n ctx) = bump n (store_peer a p ctx)" "hs_of a (bump n ctx) = hs_of a ctx"
  by (simp_all add: bump_def store_peer_def hs_of_def)

lemma run_prf_value:
  assumes "alloc_all env"
  shows "run_prf env ctx key l r1 r2 n = (P_hash key (l @ r1 @ r2) n, bump 2 ctx)"
  using assms p_hash_correct [of key "Some l" "Some r1" "Some r2" "replicate n 0"]
  by (simp add: run_prf_def malloc_ok_def alloc_all_def dtls_prf_def seed_bytes_def bump_def)

lemma store_peer_simps [simp]:
  "cx_ph (store_peer a p ctx) = (cx_ph ctx)(a \<mapsto> p)"
  "store_peer a p (store_peer a q ctx) = store_peer a p ctx"
  by (simp_all add: store_peer_def)

lemma store_same: "cx_ph ctx a = Some p \<Longrightarrow> store_peer a p ctx = ctx"
  by (simp add: store_peer_def fun_upd_idem)

text \<open>The value a Finished message must carry.\<close>

definition finished_value :: "bytes \<Rightarrow> bytes \<Rightarrow> bytes \<Rightarrow> bytes" where
  "finished_value master label msgs = P_hash master (label @ prf_label_finished @ SHA256 msgs) 12"

lemma length_finished_value: "length (finished_value m l x) = 12"
  using p_hash_correct [of m "Some l" "Some prf_label_finished" "Some (SHA256 x)" "replicate 12 0"]
  by (simp add: finished_value_def P_hash_def)

lemma finalize_repr: "sha_repr c m \<Longrightarrow> dtls_hash_finalize c = (SHA256 m, 32, sha256_wiped)"
  using hash.repr_final [of c m] by (simp add: dtls_hash_finalize_def)

lemma take_SHA256: "take 32 (SHA256 m) = SHA256 m"
  using hash.digest_length by simp

lemma set_hash_same [simp]: "set_hash (hs_hash (hp_hs_state h)) h = h"
  by (simp add: set_hash_def)

lemma set_hash_twice [simp]: "set_hash x (set_hash y h) = set_hash x h"
  by (simp add: set_hash_def)

lemma check_finished_value:
  assumes "alloc_all env" and "cx_ph ctx a = Some p" and "pr_handshake p = Some h"
    and "sha_repr (hs_hash (hp_hs_state h)) msgs" and "24 \<le> length data"
  shows "check_finished env ctx (Some a) data =
    Some (if take 12 (drop 12 data) = finished_value (hp_master_secret h)
              (if pr_role p = DTLS_CLIENT then prf_label_server else prf_label_client) msgs
          then 0 else HS_ERROR, bump 2 ctx)"
proof -
  let ?l = "if pr_role p = DTLS_CLIENT then prf_label_server else prf_label_client"
  let ?v = "finished_value (hp_master_secret h) ?l msgs"
  have f: "finalize_hs_hash a ctx = Some (SHA256 msgs, 32,
      store_peer a (p\<lparr>pr_handshake := Some (set_hash sha256_wiped h)\<rparr>) ctx)"
    using assms finalize_repr [OF assms(4)] by (simp add: finalize_hs_hash_def hs_of_def put_hs_def)
  have p: "p\<lparr>pr_handshake := Some h\<rparr> = p" using assms(3) by simp
  have r: "put_hs a (Some (set_hash (hs_hash (hp_hs_state h)) h))
      (store_peer a (p\<lparr>pr_handshake := Some (set_hash sha256_wiped h)\<rparr>) ctx) = Some ctx"
    using assms(2) p by (simp add: put_hs_def store_same)
  have v: "run_prf env ctx (hp_master_secret h) ?l prf_label_finished (take 32 (SHA256 msgs)) 12 = (?v, bump 2 ctx)"
    unfolding run_prf_value [OF assms(1)] take_SHA256 finished_value_def ..
  have d: "rd_n data 12 12 = Some (take 12 (drop 12 data))" using assms(5) by (simp add: rd_n_def)
  have e: "dtls_equals (take 12 (drop 12 data)) ?v 12 = Some (if take 12 (drop 12 data) = ?v then 1 else 0)"
    using dtls_equals_iff [of 12 "take 12 (drop 12 data)" ?v] length_finished_value assms(5) by simp
  have n: "\<not> length data < 12 + 12" using assms(5) by simp
  show ?thesis
    unfolding check_finished_def if_not_P [OF n] option.case assms(2,3) Option.bind.bind_lunit Let_def f prod.case r v d e
    by (simp add: alert_defs)
qed

text \<open>C6: The Finished exchange: \<open>dtls_send_finished\<close> sends exactly the TLS 1.2 verify data of its role, the
  12-byte PRF, under the master secret, of the sender's label and the hash of the handshake
  messages; and on each side \<open>check_finished\<close>, with the same master secret and the same messages,
  accepts a message exactly when it is long enough and carries, after its 12-byte header, the verify
  data of the other role. The check leaves the running hash and everything else of the peer unchanged.\<close>

theorem finished_exchange:
  assumes "alloc_all env1" and "cx_ph ctx1 a1 = Some p1" and "pr_handshake p1 = Some h1"
    and "sha_repr (hs_hash (hp_hs_state h1)) msgs" and "pr_role p1 = DTLS_CLIENT"
    and "alloc_all env2" and "cx_ph ctx2 a2 = Some p2" and "pr_handshake p2 = Some h2"
    and "sha_repr (hs_hash (hp_hs_state h2)) msgs" and "pr_role p2 = DTLS_SERVER"
    and "hp_master_secret h1 = hp_master_secret h2"
    and "client = finished_value (hp_master_secret h1) prf_label_client msgs"
    and "server = finished_value (hp_master_secret h1) prf_label_server msgs"
  shows "length client = 12 \<and> length server = 12 \<and>
    dtls_send_finished env1 ctx1 (Some a1) prf_label_client =
      dtls_send_handshake_msg env1 (bump 2 ctx1) (Some a1) 20 (Some client) \<and>
    dtls_send_finished env2 ctx2 (Some a2) prf_label_server =
      dtls_send_handshake_msg env2 (bump 2 ctx2) (Some a2) 20 (Some server) \<and>
    (\<forall>data. check_finished env1 ctx1 (Some a1) data =
       (if length data < 24 then Some (HS_ERROR, ctx1)
        else Some (if take 12 (drop 12 data) = server then 0 else HS_ERROR, bump 2 ctx1))) \<and>
    (\<forall>data. check_finished env2 ctx2 (Some a2) data =
       (if length data < 24 then Some (HS_ERROR, ctx2)
        else Some (if take 12 (drop 12 data) = client then 0 else HS_ERROR, bump 2 ctx2)))"
proof -
  have snd: "dtls_send_finished env ctx (Some a) l =
      dtls_send_handshake_msg env (bump 2 ctx) (Some a) 20 (Some (finished_value (hp_master_secret h) l msgs))"
    if "alloc_all env" "cx_ph ctx a = Some p" "pr_handshake p = Some h" "sha_repr (hs_hash (hp_hs_state h)) msgs"
    for env ctx a l p h
    using that finalize_repr [OF that(4)]
    by (simp add: dtls_send_finished_def copy_hs_hash_def hs_of_def run_prf_value take_SHA256 finished_value_def)
  have short: "length data < 24 \<Longrightarrow> check_finished env ctx peer data = Some (HS_ERROR, ctx)" for env ctx peer data
    by (simp add: check_finished_def)
  have 1: "24 \<le> length data \<Longrightarrow> check_finished env1 ctx1 (Some a1) data =
      Some (if take 12 (drop 12 data) = server then 0 else HS_ERROR, bump 2 ctx1)" for data
    using check_finished_value [OF assms(1-4)] assms(5,13) by simp
  have 2: "24 \<le> length data \<Longrightarrow> check_finished env2 ctx2 (Some a2) data =
      Some (if take 12 (drop 12 data) = client then 0 else HS_ERROR, bump 2 ctx2)" for data
    using check_finished_value [OF assms(6-9)] assms(10,11,12) by simp
  show ?thesis
    using snd [OF assms(1-4)] snd [OF assms(6-9)] assms(11-13) short 1 2 by (simp add: length_finished_value not_less)
qed

text \<open>Witness: a client and a server that have exchanged the two messages \<open>[1, 2]\<close> and \<open>[3]\<close>.\<close>

definition hs_example :: dtls_handshake_parameters_t where
  "hs_example = set_hash (dtls_hash_update (dtls_hash_update dtls_hash_init [1, 2]) [3])
     (the (dtls_handshake_new True))"

lemma hs_example_repr: "sha_repr (hs_hash (hp_hs_state hs_example)) [1, 2, 3]"
  using hash.repr_pieces [OF hash.repr_init, of "[[1, 2], [3]]"] by (simp add: hs_example_def set_hash_def)

lemma finished_exchange_witness:
  "\<exists>c v. c = ctx_example [2 \<mapsto> peer_example 1\<lparr>pr_role := DTLS_SERVER, pr_handshake := Some hs_example\<rparr>] \<and>
     length v = 12 \<and> v = finished_value (hp_master_secret hs_example) prf_label_client [1, 2, 3] \<and>
     check_finished env_example c (Some 2) (replicate 12 0 @ v) = Some (0, bump 2 c) \<and>
     check_finished env_example c (Some 2) (replicate 23 0) = Some (HS_ERROR, c)"
proof -
  let ?c = "ctx_example [1 \<mapsto> peer_example 1\<lparr>pr_role := DTLS_CLIENT, pr_handshake := Some hs_example\<rparr>]"
  let ?s = "ctx_example [2 \<mapsto> peer_example 1\<lparr>pr_role := DTLS_SERVER, pr_handshake := Some hs_example\<rparr>]"
  have a: "alloc_all env_example" by (simp add: alloc_all_def env_example_def)
  show ?thesis
    using finished_exchange [OF a _ _ hs_example_repr _ a _ _ hs_example_repr _ refl refl refl, of ?c 1 "peer_example 1\<lparr>pr_role := DTLS_CLIENT, pr_handshake := Some hs_example\<rparr>"
        ?s 2 "peer_example 1\<lparr>pr_role := DTLS_SERVER, pr_handshake := Some hs_example\<rparr>"]
    by (intro exI [of _ ?s]) (simp add: ctx_example_def)
qed

text \<open>The master secret and the key block of a pre-master secret.\<close>

definition master_value :: "bytes \<Rightarrow> bytes \<Rightarrow> bytes \<Rightarrow> bytes" where
  "master_value pms client server = P_hash pms (prf_label_master @ client @ server) 48"

definition key_block_value :: "bytes \<Rightarrow> bytes \<Rightarrow> bytes \<Rightarrow> bytes" where
  "key_block_value pms client server =
     P_hash (master_value pms client server) (prf_label_key @ server @ client) 40"

lemma length_P_hash: "length (P_hash k s n) = n"
proof -
  have "length (concat (map (P_block k s) [0..<m])) = 32 * m" for m
    by (induction m) simp_all
  then show ?thesis by (simp add: P_hash_def)
qed

text \<open>Both forms of key exchange: the pre-master secret of the plain-PSK suite comes from the key the application
  returns, that of the ECDSA suite from the elliptic curve exchange.\<close>

definition agreed_secret :: "dtls_env \<Rightarrow> dtls_handshake_parameters_t \<Rightarrow> session_t \<Rightarrow> bytes \<Rightarrow> bool" where
  "agreed_secret env h session pms \<longleftrightarrow>
     hp_cipher h = TLS_PSK_WITH_AES_128_CCM_8 \<and> (\<exists>psk. length psk \<le> 16 \<and> pms = psk_pms psk \<and>
       get_psk_info env session 2 (take (unat (psk_id_length (hp_psk h))) (psk_identity (hp_psk h))) 16 = (int (length psk), psk)) \<or>
     hp_cipher h = TLS_ECDHE_ECDSA_WITH_AES_128_CCM_8 \<and> length pms = 32 \<and>
       dtls_ecdh_pre_master_secret (ec_own_eph_priv (hp_ecdsa h)) (ec_other_eph_pub_x (hp_ecdsa h)) (ec_other_eph_pub_y (hp_ecdsa h)) 32 40 =
         Some (32, pms)"

lemma agreed_pre_master:
  assumes "agreed_secret env h session pms"
  shows "length pms \<le> 40" and "pre_master env h session (replicate 40 0) =
    Some (int (length pms), pms @ drop (length pms) (replicate 40 0))"
proof -
  have "TLS_PSK_WITH_AES_128_CCM_8 \<noteq> TLS_ECDHE_ECDSA_WITH_AES_128_CCM_8"
    by (simp add: TLS_PSK_WITH_AES_128_CCM_8_def TLS_ECDHE_ECDSA_WITH_AES_128_CCM_8_def)
  then show "length pms \<le> 40" "pre_master env h session (replicate 40 0) =
      Some (int (length pms), pms @ drop (length pms) (replicate 40 0))"
    using assms by (auto simp: agreed_secret_def psk_pms_def pre_master_def psk_pre_master_secret_value put_def)
qed

lemma calculate_key_block_value:
  assumes al: "alloc_all env" and p: "cx_ph ctx a = Some p" "pr_handshake p = Some h" "pr_security0 p = Some s0"
    and t: "length (hp_tmp h) = 64" and k: "agreed_secret env h session pms"
  shows "calculate_key_block env ctx (Some a) session role =
    Some (0, bump 5 (store_peer a (p\<lparr>pr_security1 := Some \<lparr>sp_compression = hp_compression h,
        sp_cipher = hp_cipher h, sp_epoch = sp_epoch s0 + 1, sp_rseq = 0,
        sp_key_block = key_block_value pms (hp_client_random h) (hp_server_random h)\<rparr>,
      pr_handshake := Some (h\<lparr>hp_tmp := master_value pms (hp_client_random h) (hp_server_random h) @ drop 48 (hp_tmp h)\<rparr>)\<rparr>) ctx))"
proof -
  have m: "malloc_ok env ctx = (True, bump 1 ctx)"
    using al by (simp add: malloc_ok_def alloc_all_def bump_def)
  have n: "dtls_security_params_next True p = Some (p\<lparr>pr_security1 := Some ((the (dtls_security_new True))\<lparr>sp_epoch := sp_epoch s0 + 1\<rparr>)\<rparr>, True)"
    using p by (simp add: dtls_security_params_next_def dtls_security_new_def)
  note pm = agreed_pre_master [OF k]
  show ?thesis
    using p t pm(1)
    by (simp add: calculate_key_block_def m n pm(2) run_prf_value [OF al] dtls_security_new_def put_def
        key_block_value_def master_value_def length_P_hash kb_defs TLS_COMPRESSION_NULL_def)
qed

text \<open>C21: Both sides derive the same keys, with either suite: when the applications of client and server return
  the same pre-shared key, or the elliptic curve exchange gives both the same 32 bytes, and the
  handshakes hold the same randoms, \<open>calculate_key_block\<close> succeeds on
  both, stores the same master secret (the PRF of the pre-master secret, "master
  secret" and the client and server randoms) and the same 40-byte key block (the PRF of the master
  secret, "key expansion" and the server and client randoms) in the pending slot, with the next
  epoch, the negotiated suite and a zero sequence number. The slot in use is untouched. What one role writes
  with is what the other reads with: the client writes with the first 16 bytes and the first 4 of the last 8, the
  server with the second 16 bytes and the last 4.\<close>

theorem key_block_agreement:
  assumes "alloc_all env1" and "cx_ph ctx1 a1 = Some p1" and "pr_handshake p1 = Some h1" and "pr_security0 p1 = Some s1"
    and "length (hp_tmp h1) = 64" and "agreed_secret env1 h1 session1 pms"
    and "alloc_all env2" and "cx_ph ctx2 a2 = Some p2" and "pr_handshake p2 = Some h2" and "pr_security0 p2 = Some s2"
    and "length (hp_tmp h2) = 64" and "agreed_secret env2 h2 session2 pms"
    and "hp_cipher h1 = hp_cipher h2"
    and "hp_client_random h1 = hp_client_random h2" and "hp_server_random h1 = hp_server_random h2"
    and "kb = key_block_value pms (hp_client_random h1) (hp_server_random h1)"
  shows "\<exists>ctx1' q1 ctx2' q2 t1 t2.
    calculate_key_block env1 ctx1 (Some a1) session1 DTLS_CLIENT = Some (0, ctx1') \<and> cx_ph ctx1' a1 = Some q1 \<and>
    calculate_key_block env2 ctx2 (Some a2) session2 DTLS_SERVER = Some (0, ctx2') \<and> cx_ph ctx2' a2 = Some q2 \<and>
    pr_security0 q1 = Some s1 \<and> pr_security1 q1 = Some t1 \<and> pr_security0 q2 = Some s2 \<and> pr_security1 q2 = Some t2 \<and>
    sp_key_block t1 = kb \<and> sp_key_block t2 = kb \<and> length kb = 40 \<and>
    sp_epoch t1 = sp_epoch s1 + 1 \<and> sp_cipher t1 = hp_cipher h1 \<and> sp_rseq t1 = 0 \<and>
    sp_epoch t2 = sp_epoch s2 + 1 \<and> sp_cipher t2 = hp_cipher h1 \<and> sp_rseq t2 = 0 \<and>
    map_option hp_master_secret (pr_handshake q1) = Some (master_value pms (hp_client_random h1) (hp_server_random h1)) \<and>
    map_option hp_master_secret (pr_handshake q2) = Some (master_value pms (hp_client_random h1) (hp_server_random h1)) \<and>
    take 16 (drop (dtls_kb_local_write_key DTLS_CLIENT) (sp_key_block t1)) = take 16 kb \<and>
    take 16 (drop (dtls_kb_remote_write_key DTLS_SERVER) (sp_key_block t2)) = take 16 kb \<and>
    take 16 (drop (dtls_kb_local_write_key DTLS_SERVER) (sp_key_block t2)) = take 16 (drop 16 kb) \<and>
    take 16 (drop (dtls_kb_remote_write_key DTLS_CLIENT) (sp_key_block t1)) = take 16 (drop 16 kb) \<and>
    take 4 (drop (dtls_kb_local_iv DTLS_CLIENT) (sp_key_block t1)) = take 4 (drop 32 kb) \<and>
    take 4 (drop (dtls_kb_remote_iv DTLS_SERVER) (sp_key_block t2)) = take 4 (drop 32 kb) \<and>
    take 4 (drop (dtls_kb_local_iv DTLS_SERVER) (sp_key_block t2)) = drop 36 kb \<and>
    take 4 (drop (dtls_kb_remote_iv DTLS_CLIENT) (sp_key_block t1)) = drop 36 kb"
proof -
  note 1 = calculate_key_block_value [OF assms(1-6), of DTLS_CLIENT]
  note 2 = calculate_key_block_value [OF assms(7-12), of DTLS_SERVER]
  have m: "hp_master_secret (h\<lparr>hp_tmp := master_value p c s @ r\<rparr>) = master_value p c s" for h p c s r
    by (simp add: hp_master_secret_def master_value_def length_P_hash)
  have l: "length kb = 40" by (simp add: assms(16) key_block_value_def length_P_hash)
  then have t: "take 4 (drop 36 kb) = drop 36 kb" by simp
  have o: "dtls_kb_local_write_key DTLS_CLIENT = 0" "dtls_kb_remote_write_key DTLS_SERVER = 0" "dtls_kb_local_write_key DTLS_SERVER = 16"
    "dtls_kb_remote_write_key DTLS_CLIENT = 16" "dtls_kb_local_iv DTLS_CLIENT = 32" "dtls_kb_remote_iv DTLS_SERVER = 32"
    "dtls_kb_local_iv DTLS_SERVER = 36" "dtls_kb_remote_iv DTLS_CLIENT = 36"
    by (simp_all add: kb_defs)
  show ?thesis
    unfolding 1 2 using assms(4,10,13-16) l t by (simp add: m o)
qed

lemma key_block_agreement_witness:
  "\<exists>ctx' q t. calculate_key_block env_example
     (ctx_example [1 \<mapsto> peer_example 1\<lparr>pr_handshake := Some (the (dtls_handshake_new True)\<lparr>hp_cipher := TLS_PSK_WITH_AES_128_CCM_8\<rparr>)\<rparr>])
     (Some 1) (pr_session (peer_example 1)) DTLS_CLIENT = Some (0, ctx') \<and> cx_ph ctx' 1 = Some q \<and>
     pr_security1 q = Some t \<and> sp_key_block t = key_block_value (psk_pms [115, 101, 99, 114])
       (hp_client_random (the (dtls_handshake_new True))) (hp_server_random (the (dtls_handshake_new True)))"
proof -
  let ?h = "the (dtls_handshake_new True)\<lparr>hp_cipher := TLS_PSK_WITH_AES_128_CCM_8\<rparr>"
  let ?p = "peer_example 1\<lparr>pr_handshake := Some ?h\<rparr>"
  have a: "alloc_all env_example" by (simp add: alloc_all_def env_example_def)
  have s: "pr_security0 ?p = Some (the (dtls_security_new True))"
    by (simp add: peer_example_def dtls_new_peer_def dtls_security_new_def)
  have g: "get_psk_info env_example x 2 d 16 = (int (length [115, 101, 99, 114 :: u8]), [115, 101, 99, 114])" for x d
    by (simp add: get_psk_info_def env_example_def)
  have t: "cx_ph (ctx_example [1 \<mapsto> ?p]) 1 = Some ?p" "pr_handshake ?p = Some ?h"
    "hp_cipher ?h = TLS_PSK_WITH_AES_128_CCM_8" "length (hp_tmp ?h) = 64"
    "length [115, 101, 99, 114 :: u8] \<le> 16"
    by (simp_all add: ctx_example_def dtls_handshake_new_def)
  have k: "agreed_secret env_example ?h session (psk_pms [115, 101, 99, 114])" for session
    unfolding agreed_secret_def using g t(3,5) by blast
  show ?thesis
    using key_block_agreement [OF a t(1,2) s t(4) k a t(1,2) s t(4) k refl refl refl refl, of "pr_session (peer_example 1)" "pr_session (peer_example 1)"]
    by (auto simp: hp_client_random_def hp_server_random_def)
qed

end
