(* ===== verification/Frag.thy ===== *)
theory Frag
  imports Keys
begin

text \<open>
  Fragmentation of handshake messages: what the sending loop of \<open>dtls_send_handshake_msg_hash\<close>
  puts on the wire, the reassembly at the beginning of \<open>handle_handshake\<close>, and their composition.
\<close>

subsection \<open>Reassembly\<close>

definition dtls_free_reassemble_buffer ::
  "dtls_handshake_parameters_t \<Rightarrow> dtls_handshake_parameters_t" where
  "dtls_free_reassemble_buffer h = h\<lparr>hp_reassemble_buf := None\<rparr>"

text \<open>Two allocations. If the second fails the buffer is freed and its pointer left in place; the
  model stops there. The flag of the result is the return value.\<close>

definition dtls_init_reassemble_buffer ::
  "bool \<Rightarrow> bool \<Rightarrow> dtls_handshake_parameters_t \<Rightarrow> nat \<Rightarrow> (bool \<times> dtls_handshake_parameters_t) option" where
  "dtls_init_reassemble_buffer ok1 ok2 h packet_length =
     (if \<not> ok1 then Some (False, h)
      else if \<not> ok2 then None
      else Some (True, h\<lparr>hp_reassemble_buf := Some \<lparr>ra_mseq_r = 0, ra_last_offset = 0,
             ra_packet_length = packet_length, ra_data = replicate (packet_length + 12) 0\<rparr>\<rparr>))"

text \<open>What becomes of an incoming message: an error code, waiting for more (\<open>DTLS_HS_FRAGMENTED\<close>, also
  an error code of the code), or a complete message.\<close>

datatype reassembled = Reject int | Deliver bytes

definition DTLS_HS_FRAGMENTED :: int where "DTLS_HS_FRAGMENTED = -244"

definition RECORD_OVERFLOW :: int where "RECORD_OVERFLOW = dtls_alert_fatal_create 22"

text \<open>\<open>h\<close> is \<open>None\<close> when the peer or its handshake parameters do not exist.\<close>

definition hs_reassemble ::
  "bool \<Rightarrow> bool \<Rightarrow> dtls_handshake_parameters_t option \<Rightarrow> bytes \<Rightarrow>
   (reassembled \<times> dtls_handshake_parameters_t option) option" where
  "hs_reassemble ok1 ok2 hs data = do {
     packet_length \<leftarrow> map_option unat (dtls_uint24_to_int (drop 1 data));
     fragment_length \<leftarrow> map_option unat (dtls_uint24_to_int (drop 9 data));
     fragment_offset \<leftarrow> map_option unat (dtls_uint24_to_int (drop 6 data));
     if \<not> packet_length > fragment_length then Some (Deliver data, hs)
     else if packet_length > 30000 then Some (Reject RECORD_OVERFLOW, hs)
     else if fragment_offset + fragment_length > packet_length then Some (Reject RECORD_OVERFLOW, hs)
     else do {
       h \<leftarrow> hs;
       (ok, h) \<leftarrow> (if fragment_offset = 0
                  then dtls_init_reassemble_buffer ok1 ok2 (dtls_free_reassemble_buffer h) packet_length
                  else Some (True, h));
       if \<not> ok then Some (Reject RECORD_OVERFLOW, Some h)
       else do {
         let data = (if fragment_offset = 0 then data else drop 12 data);
         (case hp_reassemble_buf h of
            None \<Rightarrow> Some (Reject HS_ERROR, Some h)
          | Some r \<Rightarrow>
              (if ra_last_offset r \<noteq> fragment_offset then Some (Reject HS_ERROR, Some h)
               else do {
                 src \<leftarrow> rd_n data 0 (fragment_length + (if fragment_offset = 0 then 12 else 0));
                 buf \<leftarrow> wr_n (ra_data r) (fragment_offset + (if fragment_offset \<noteq> 0 then 12 else 0)) src;
                 let r = r\<lparr>ra_data := buf, ra_last_offset := fragment_offset + fragment_length\<rparr>;
                 if ra_last_offset r < packet_length
                 then Some (Reject DTLS_HS_FRAGMENTED, Some (h\<lparr>hp_reassemble_buf := Some r\<rparr>))
                 else do {
                   let len = dtls_int_to_uint24 (word_of_nat (ra_packet_length r));
                   let buf = put 9 len (put 1 len (put 6 (dtls_int_to_uint24 0) buf));
                   let r = r\<lparr>ra_data := buf\<rparr>;
                   Some (Deliver (take (ra_packet_length r + 12) buf),
                         Some (h\<lparr>hp_reassemble_buf := Some r\<rparr>)) } })) } } }"

subsection \<open>The fragments of a message\<close>

definition hs_header :: "u8 \<Rightarrow> nat \<Rightarrow> u16 \<Rightarrow> nat \<Rightarrow> nat \<Rightarrow> bytes" where
  "hs_header type len seq off flen =
     type # be_bytes 3 len @ be_bytes 2 (unat seq) @ be_bytes 3 off @ be_bytes 3 flen"

definition hs_fragment :: "u8 \<Rightarrow> bytes \<Rightarrow> u16 \<Rightarrow> nat \<Rightarrow> bytes" where
  "hs_fragment type d seq remaining =
     hs_header type (length d) seq (length d - remaining) (min remaining 1252) @
     take (min remaining 1252) (drop (length d - remaining) d)"

function hs_fragments :: "u8 \<Rightarrow> bytes \<Rightarrow> u16 \<Rightarrow> nat \<Rightarrow> bytes list" where
  "hs_fragments type d seq remaining =
     hs_fragment type d seq remaining #
     (if remaining > 1252 then hs_fragments type d seq (remaining - 1252) else [])"
  by pat_completeness auto
termination by (relation "measure (\<lambda>(_, _, _, remaining). remaining)") auto

declare hs_fragments.simps [simp del]

lemma length_hs_header [simp]: "length (hs_header t n s k l) = 12"
  by (simp add: hs_header_def)

lemma hs_header_parts:
  "drop 1 (hs_header t n s k l @ x) = be_bytes 3 n @ be_bytes 2 (unat s) @ be_bytes 3 k @ be_bytes 3 l @ x"
  "drop 6 (hs_header t n s k l @ x) = be_bytes 3 k @ be_bytes 3 l @ x"
  "drop 9 (hs_header t n s k l @ x) = be_bytes 3 l @ x"
  "drop 12 (hs_header t n s k l @ x) = x"
  by (simp_all add: hs_header_def)

lemma uint24_be: "n < 2 ^ 24 \<Longrightarrow> map_option unat (dtls_uint24_to_int (be_bytes 3 n @ x)) = Some n"
proof -
  assume n: "n < 2 ^ 24"
  have u: "unat (word_of_nat n :: u32) = n" using n by (simp add: unsigned_of_nat take_bit_eq_mod)
  show ?thesis
    using uint24_roundtrip [of "word_of_nat n" x] n u by (simp add: int_to_uint24_be)
qed

lemma header_rewrite:
  "put 9 (be_bytes 3 n) (put 1 (be_bytes 3 n) (put 6 (be_bytes 3 0) (hs_header t m s k l @ x))) =
   hs_header t n s 0 n @ x"
  by (simp add: put_def hs_header_def)

text \<open>Receiving the fragments one after the other, from the one at \<open>remaining\<close> on.\<close>

fun receive_all ::
  "dtls_handshake_parameters_t option \<Rightarrow> bytes list \<Rightarrow> (reassembled list \<times> dtls_handshake_parameters_t option) option" where
  "receive_all hs [] = Some ([], hs)"
| "receive_all hs (f # fs) =
     (case hs_reassemble True True hs f of
        None \<Rightarrow> None
      | Some (r, hs') \<Rightarrow> map_option (\<lambda>(rs, x). (r # rs, x)) (receive_all hs' fs))"

lemma wr_part:
  assumes "length H = 12" and "length a = off" and "length src \<le> length z"
  shows "wr_n (H @ a @ z) (off + 12) src = Some (H @ (a @ src) @ drop (length src) z)"
  using assms by (simp add: wr_n_def)

lemma reassemble_next:
  assumes buf: "hp_reassemble_buf h = Some \<lparr>ra_mseq_r = q, ra_last_offset = off, ra_packet_length = length d,
      ra_data = hs_header t (length d) s 0 m @ take off d @ z\<rparr>"
    and L: "length d \<le> 30000" "0 < off" "off < length d" "length z = length d - off"
  defines "n \<equiv> min (length d - off) 1252"
  shows "hs_reassemble ok1 ok2 (Some h) (hs_fragment t d s (length d - off)) =
    (if off + n < length d
     then Some (Reject DTLS_HS_FRAGMENTED, Some (h\<lparr>hp_reassemble_buf :=
       Some \<lparr>ra_mseq_r = q, ra_last_offset = off + n, ra_packet_length = length d,
         ra_data = hs_header t (length d) s 0 m @ take (off + n) d @ drop n z\<rparr>\<rparr>))
     else Some (Deliver (hs_header t (length d) s 0 (length d) @ d), Some (h\<lparr>hp_reassemble_buf :=
       Some \<lparr>ra_mseq_r = q, ra_last_offset = length d, ra_packet_length = length d,
         ra_data = hs_header t (length d) s 0 (length d) @ d\<rparr>\<rparr>)))"
proof -
  let ?p = "take n (drop off d)"
  have o: "length d - (length d - off) = off" using L by simp
  have f: "hs_fragment t d s (length d - off) = hs_header t (length d) s off n @ ?p"
    unfolding hs_fragment_def o n_def ..
  have lp: "length ?p = n" using L by (simp add: n_def)
  have b: "length d < 2 ^ 24" "n < 2 ^ 24" "off < 2 ^ 24" using L by (simp_all add: n_def)
  have r1: "rd_n ?p 0 n = Some ?p" using lp by (simp add: rd_n_def)
  have w: "wr_n (hs_header t (length d) s 0 m @ take off d @ z) (off + 12) ?p =
      Some (hs_header t (length d) s 0 m @ take (off + n) d @ drop n z)"
    using wr_part [of "hs_header t (length d) s 0 m" "take off d" off ?p z] L lp
    by (simp add: take_add n_def)
  have cmp: "length d > n" "\<not> length d > 30000" "\<not> off + n > length d" "off \<noteq> 0"
    using L by (simp_all add: n_def)
  have lens: "dtls_int_to_uint24 (word_of_nat (length d)) = be_bytes 3 (length d)"
    "dtls_int_to_uint24 0 = be_bytes 3 0"
    using b by (simp_all add: int_to_uint24_be unsigned_of_nat take_bit_eq_mod)
  have fin: "take (off + n) d @ drop n z = d" "off + n = length d" if "\<not> off + n < length d"
    using that L by (simp_all add: n_def)
  note eval = hs_reassemble_def f hs_header_parts uint24_be [OF b(1)] uint24_be [OF b(2)] uint24_be [OF b(3)]
      Option.bind.bind_lunit
  show ?thesis
  proof (cases "off + n < length d")
    case True
    then show ?thesis unfolding eval using cmp buf r1 w by simp
  next
    case False
    have hr: "put 9 (be_bytes 3 (length d)) (put (Suc 0) (be_bytes 3 (length d))
        (put 6 (be_bytes 3 0) (hs_header t (length d) s 0 m @ d))) = hs_header t (length d) s 0 (length d) @ d"
      using header_rewrite by simp
    have w': "wr_n (hs_header t (length d) s 0 m @ take off d @ z) (off + 12) ?p =
        Some (hs_header t (length d) s 0 m @ d)"
      unfolding w fin(1) [OF False] ..
    show ?thesis
      unfolding eval using False cmp buf r1 w' fin(2) [OF False] by (simp add: lens hr Let_def)
  qed
qed

lemma reassemble_first:
  assumes L: "length d \<le> 30000" "1252 < length d"
  shows "hs_reassemble True True (Some h) (hs_fragment t d s (length d)) =
    Some (Reject DTLS_HS_FRAGMENTED, Some (h\<lparr>hp_reassemble_buf :=
       Some \<lparr>ra_mseq_r = 0, ra_last_offset = 1252, ra_packet_length = length d,
         ra_data = hs_header t (length d) s 0 1252 @ take 1252 d @ replicate (length d - 1252) 0\<rparr>\<rparr>))"
proof -
  let ?p = "take 1252 d"
  have f: "hs_fragment t d s (length d) = hs_header t (length d) s 0 1252 @ ?p"
    using L by (simp add: hs_fragment_def min_def)
  have lp: "length ?p = 1252" using L by simp
  have b: "length d < 2 ^ 24" "1252 < (2 :: nat) ^ 24" "0 < (2 :: nat) ^ 24" using L by simp_all
  have r1: "rd_n (hs_header t (length d) s 0 1252 @ ?p) 0 1264 = Some (hs_header t (length d) s 0 1252 @ ?p)"
    using lp by (simp add: rd_n_def)
  have w: "wr_n (replicate (length d + 12) 0) 0 (hs_header t (length d) s 0 1252 @ ?p) =
      Some ((hs_header t (length d) s 0 1252 @ ?p) @ replicate (length d - 1252) 0)"
    using L lp by (simp add: wr_n_def)
  show ?thesis
    unfolding hs_reassemble_def f hs_header_parts uint24_be [OF b(1)] uint24_be [OF b(2)] uint24_be [OF b(3)]
      Option.bind.bind_lunit
    using L r1 w
    by (simp add: dtls_init_reassemble_buffer_def dtls_free_reassemble_buffer_def)
qed

lemma receive_rest:
  assumes "hp_reassemble_buf h = Some \<lparr>ra_mseq_r = q, ra_last_offset = off, ra_packet_length = length d,
      ra_data = hs_header t (length d) s 0 m @ take off d @ z\<rparr>"
    and "length d \<le> 30000" "0 < off" "off < length d" "length z = length d - off"
  shows "receive_all (Some h) (hs_fragments t d s (length d - off)) =
    Some (replicate ((length d - off - 1) div 1252) (Reject DTLS_HS_FRAGMENTED) @
          [Deliver (hs_header t (length d) s 0 (length d) @ d)],
          Some (h\<lparr>hp_reassemble_buf := Some \<lparr>ra_mseq_r = q, ra_last_offset = length d,
            ra_packet_length = length d, ra_data = hs_header t (length d) s 0 (length d) @ d\<rparr>\<rparr>))"
  using assms
proof (induction "length d - off" arbitrary: h off z rule: less_induct)
  case less
  let ?n = "min (length d - off) 1252"
  note step = reassemble_next [OF less.prems, of True True]
  show ?case
  proof (cases "length d - off > 1252")
    case False
    then have d: "(length d - off - 1) div 1252 = 0" and n: "\<not> off + ?n < length d"
      using less.prems by simp_all
    show ?thesis
      using step n False by (simp add: hs_fragments.simps [of t d s "length d - off"] d)
  next
    case True
    then have n: "?n = 1252" "off + 1252 < length d" by simp_all
    let ?h = "h\<lparr>hp_reassemble_buf := Some \<lparr>ra_mseq_r = q, ra_last_offset = off + 1252,
      ra_packet_length = length d, ra_data = hs_header t (length d) s 0 m @ take (off + 1252) d @ drop 1252 z\<rparr>\<rparr>"
    have IH: "receive_all (Some ?h) (hs_fragments t d s (length d - (off + 1252))) =
      Some (replicate ((length d - (off + 1252) - 1) div 1252) (Reject DTLS_HS_FRAGMENTED) @
          [Deliver (hs_header t (length d) s 0 (length d) @ d)],
          Some (?h\<lparr>hp_reassemble_buf := Some \<lparr>ra_mseq_r = q, ra_last_offset = length d,
            ra_packet_length = length d, ra_data = hs_header t (length d) s 0 (length d) @ d\<rparr>\<rparr>))"
    proof (rule less.hyps)
      show "length (drop 1252 z) = length d - (off + 1252)" using less.prems(5) by simp
    qed (use less.prems n in simp_all)
    have k: "(length d - off - 1) div 1252 = Suc ((length d - (off + 1252) - 1) div 1252)"
    proof -
      have "length d - off - 1 = 1252 + (length d - (off + 1252) - 1)" using n(2) by simp
      then show ?thesis by (simp only: div_add_self1)
    qed
    have e: "length d - off - 1252 = length d - (off + 1252)" by simp
    show ?thesis
      unfolding hs_fragments.simps [of t d s "length d - off"] k
      using True step n IH e by simp
  qed
qed

lemma receive_fragments:
  assumes "1252 < length d" and "length d \<le> 30000"
  shows "\<exists>h'. receive_all (Some h) (hs_fragments t d s (length d)) =
    Some (replicate ((length d - 1) div 1252) (Reject DTLS_HS_FRAGMENTED) @
          [Deliver (hs_header t (length d) s 0 (length d) @ d)], Some h')"
proof -
  have e: "length d - 1252 = length d - 1252" by simp
  have k: "(length d - 1) div 1252 = Suc ((length d - 1252 - 1) div 1252)"
  proof -
    have "length d - 1 = 1252 + (length d - 1252 - 1)" using assms by simp
    then show ?thesis by (simp only: div_add_self1)
  qed
  show ?thesis
    unfolding hs_fragments.simps [of t d s "length d"] k
    using assms reassemble_first [OF assms(2,1)] receive_rest [of _ 0 1252 d t s 1252 "replicate (length d - 1252) 0"]
    by simp
qed

lemma receive_single:
  assumes "length d \<le> 1252"
  shows "receive_all hs (hs_fragments t d s (length d)) =
    Some ([Deliver (hs_header t (length d) s 0 (length d) @ d)], hs)"
proof -
  have f: "hs_fragment t d s (length d) = hs_header t (length d) s 0 (length d) @ d"
    using assms by (simp add: hs_fragment_def min_def)
  have b: "length d < 2 ^ 24" "0 < (2 :: nat) ^ 24" using assms by simp_all
  have "hs_reassemble True True hs (hs_fragment t d s (length d)) =
      Some (Deliver (hs_header t (length d) s 0 (length d) @ d), hs)"
    unfolding hs_reassemble_def f hs_header_parts uint24_be [OF b(1)] uint24_be [OF b(2)]
      Option.bind.bind_lunit by simp
  then show ?thesis using assms by (simp add: hs_fragments.simps [of t d s "length d"])
qed

subsection \<open>The sender\<close>

definition queue_ok :: "dtls_context_t \<Rightarrow> bool" where
  "queue_ok ctx \<longleftrightarrow> (\<exists>as. netq_chain (cx_nh ctx) (cx_sendqueue ctx) as)"

text \<open>An allocator returns unused addresses only.\<close>

definition fresh_alloc :: "('a heap \<Rightarrow> ptr) \<Rightarrow> bool" where
  "fresh_alloc alloc \<longleftrightarrow> (\<forall>h a. alloc h = Some a \<longrightarrow> h a = None)"

lemma keep_ok:
  assumes q: "queue_ok ctx" and f: "fresh_alloc (ev_node_alloc env)" and l: "length (concat bufs) \<le> 30000"
  shows "\<exists>nh q k. keep_for_retransmit env ctx peer security type bufs =
    Some (ctx\<lparr>cx_nh := nh, cx_sendqueue := q, cx_clock := k\<rparr>) \<and> (\<exists>as. netq_chain nh q as)"
proof (cases "ev_node_alloc env (cx_nh ctx)")
  case None
  then show ?thesis
    using q by (intro exI [of _ "cx_nh ctx"] exI [of _ "cx_sendqueue ctx"] exI [of _ "cx_clock ctx"])
      (simp add: keep_for_retransmit_def netq_node_new_def netq_malloc_node_def queue_ok_def)
next
  case (Some a)
  obtain as where as: "netq_chain (cx_nh ctx) (cx_sendqueue ctx) as" using q by (auto simp: queue_ok_def)
  have fresh: "cx_nh ctx a = None" using f Some by (simp add: fresh_alloc_def)
  then have na: "a \<notin> set as" using chain_mapped [OF as] by fastforce
  have w: "wr_n (nq_data netq_zero) 0 (concat bufs) =
      Some (concat bufs @ drop (length (concat bufs)) (nq_data netq_zero))"
    using l by (simp add: wr_n_def netq_zero_def)
  define n where "n = netq_zero\<lparr>nq_t := ev_ticks env (cx_clock ctx) + 2000, nq_retransmit_cnt := 0,
      nq_timeout := 2000, nq_peer := peer, nq_epoch := (case security of Some s \<Rightarrow> sp_epoch s | None \<Rightarrow> 0),
      nq_type := type, nq_length := length (concat bufs),
      nq_data := concat bufs @ drop (length (concat bufs)) (nq_data netq_zero)\<rparr>"
  let ?h = "(cx_nh ctx)(a \<mapsto> n)"
  have c: "netq_chain ?h (cx_sendqueue ctx) as" using as na by simp
  obtain h' q' as' where i: "netq_insert_node ?h (cx_sendqueue ctx) a = Some (h', q', 1)" "netq_chain h' q' as'"
    using netq_insert_node_abs [OF c _ na, of n] by auto
  show ?thesis
    using i [unfolded n_def] Some w
    by (intro exI [of _ h'] exI [of _ q'] exI [of _ "cx_clock ctx + 1"])
      (auto simp: keep_for_retransmit_def netq_node_new_def netq_malloc_node_def ticks_def Let_def)
qed

lemma prepare_plain:
  assumes "sp_cipher s = TLS_NULL_WITH_NULL_NULL" and "13 + length (concat ds) \<le> rlen"
  shows "dtls_prepare_record cctx role (Some s) type ds rlen =
    Some (0, type # be_bytes 2 0xfefd @ record_es s @ be_bytes 2 (length (concat ds)) @ concat ds,
          Some (s\<lparr>sp_rseq := sp_rseq s + 1\<rparr>))"
proof -
  let ?E = "be_bytes 2 (unat (sp_epoch s))" and ?S = "be_bytes 6 (unat (sp_rseq s))"
  have g: "gather rlen 0 ds = Some (concat ds)" using assms(2) by (intro gather_fits) simp
  have pt: "put 11 (dtls_int_to_uint16 (word_of_nat (length (concat ds)))) (type # be_bytes 2 0xfefd @ ?E @ ?S @ [0, 0]) =
      type # be_bytes 2 0xfefd @ record_es s @ be_bytes 2 (length (concat ds))"
    using header_fields(6) [of ?E ?S "[0, 0]" "be_bytes 2 (length (concat ds))" type] be_bytes_mod [of 2 "length (concat ds)"]
    by (simp add: record_es_def int_to_uint16_be unsigned_of_nat take_bit_eq_mod)
  have n: "\<not> rlen < 13" using assms(2) by simp
  show ?thesis
    unfolding dtls_prepare_record_def if_not_P [OF n] set_record_header_bytes Let_def prod.case option.case
      if_P [OF assms(1)] g pt by simp
qed

text \<open>The handshake parameters after one round: the hash absorbs the message as if it were not
  fragmented, in the first round; the sequence number advances in the last.\<close>

definition hs_after ::
  "u8 \<Rightarrow> bytes \<Rightarrow> nat \<Rightarrow> bool \<Rightarrow> dtls_handshake_parameters_t \<Rightarrow> dtls_handshake_parameters_t" where
  "hs_after t d remaining add h =
     (let seq = hs_mseq_s (hp_hs_state h);
          h1 = (if remaining < 1252 then h\<lparr>hp_hs_state := (hp_hs_state h)\<lparr>hs_mseq_s := seq + 1\<rparr>\<rparr> else h)
      in if add \<and> remaining = length d
         then set_hash (dtls_hash_update (dtls_hash_update (hs_hash (hp_hs_state h))
                (hs_header t (length d) seq 0 (length d))) d) h1
         else h1)"

lemma set_handshake_header_value:
  assumes "len < 2 ^ 24" "k < 2 ^ 24" "fl < 2 ^ 24"
  shows "dtls_set_handshake_header t (Some h) len k fl inc =
    (hs_header t len (hs_mseq_s (hp_hs_state h)) k fl,
     Some (if inc then h\<lparr>hp_hs_state := (hp_hs_state h)\<lparr>hs_mseq_s := hs_mseq_s (hp_hs_state h) + 1\<rparr>\<rparr> else h))"
  using assms
  by (simp add: dtls_set_handshake_header_def hs_header_def int_to_uint24_be int_to_uint16_be
      dtls_int_to_uint8_def unsigned_of_nat take_bit_eq_mod Let_def)

definition seq_inc :: "bool \<Rightarrow> dtls_handshake_parameters_t \<Rightarrow> dtls_handshake_parameters_t" where
  "seq_inc inc h =
     (if inc then h\<lparr>hp_hs_state := (hp_hs_state h)\<lparr>hs_mseq_s := hs_mseq_s (hp_hs_state h) + 1\<rparr>\<rparr> else h)"

lemma handshake_header_value:
  assumes "len < 2 ^ 24" "k < 2 ^ 24" "fl < 2 ^ 24"
  shows "cx_ph ctx a = Some p \<Longrightarrow> pr_handshake p = Some h \<Longrightarrow>
      handshake_header (Some a) t len k fl inc ctx =
      Some (hs_header t len (hs_mseq_s (hp_hs_state h)) k fl, store_peer a (p\<lparr>pr_handshake := Some (seq_inc inc h)\<rparr>) ctx)"
  using set_handshake_header_value [OF assms, of t h inc]
  by (simp add: handshake_header_def put_hs_def seq_inc_def)

lemma update_hs_hash_value:
  "pr_handshake p = Some h \<Longrightarrow> update_hs_hash a x (store_peer a p ctx) =
     Some (store_peer a (p\<lparr>pr_handshake := Some (set_hash (dtls_hash_update (hs_hash (hp_hs_state h)) x) h)\<rparr>) ctx)"
  by (simp add: update_hs_hash_def hs_of_def put_hs_def)

lemma seq_inc_False [simp]: "seq_inc False h = h" by (simp add: seq_inc_def)

lemma seq_inc_hash [simp]:
  "seq_inc inc (set_hash x h) = set_hash x (seq_inc inc h)"
  "hs_hash (hp_hs_state (seq_inc inc h)) = hs_hash (hp_hs_state h)"
  "hs_mseq_s (hp_hs_state (set_hash x h)) = hs_mseq_s (hp_hs_state h)"
  "hs_hash (hp_hs_state (set_hash x h)) = x"
  by (simp_all add: seq_inc_def set_hash_def)

lemma fragment_headers:
  assumes p: "cx_ph ctx a = Some p" "pr_handshake p = Some h" and l: "remaining \<le> length d" "length d < 2 ^ 24"
  shows "send_fragment env ctx (Some a) session t (Some d) remaining add =
    dtls_send_multi env (store_peer a (p\<lparr>pr_handshake := Some (hs_after t d remaining add h)\<rparr>) ctx) (Some a) 0 session 22
      [hs_header t (length d) (hs_mseq_s (hp_hs_state h)) (length d - remaining) (min remaining 1252),
       take (min remaining 1252) (drop (length d - remaining) d)]"
proof -
  let ?L = "length d"
  have b: "?L - remaining < 2 ^ 24" "min remaining 1252 < 2 ^ 24" "0 < (2 :: nat) ^ 24" using l by simp_all
  have mn: "(if remaining < 1252 then remaining else 1252) = min remaining 1252" by simp
  have after: "hs_after t d remaining add h = (if add \<and> remaining = ?L
      then set_hash (dtls_hash_update (dtls_hash_update (hs_hash (hp_hs_state h))
             (hs_header t ?L (hs_mseq_s (hp_hs_state h)) 0 ?L)) d) (seq_inc (remaining < 1252) h)
      else seq_inc (remaining < 1252) h)"
    by (simp add: hs_after_def seq_inc_def Let_def)
  show ?thesis
  proof (cases "add \<and> remaining = ?L")
    case True
    let ?h1 = "set_hash (dtls_hash_update (hs_hash (hp_hs_state h)) (hs_header t ?L (hs_mseq_s (hp_hs_state h)) 0 ?L)) h"
    let ?p1 = "p\<lparr>pr_handshake := Some ?h1\<rparr>"
    have ps: "p\<lparr>pr_handshake := Some h\<rparr> = p" using p(2) by simp
    have 1: "handshake_header (Some a) t ?L 0 ?L False ctx =
        Some (hs_header t ?L (hs_mseq_s (hp_hs_state h)) 0 ?L, store_peer a p ctx)"
      using handshake_header_value [OF l(2) b(3) l(2) p, of t False] unfolding ps seq_inc_False .
    have 2: "update_hs_hash a (hs_header t ?L (hs_mseq_s (hp_hs_state h)) 0 ?L) (store_peer a p ctx) =
        Some (store_peer a ?p1 ctx)"
      by (rule update_hs_hash_value [OF p(2)])
    have 3: "handshake_header (Some a) t ?L (?L - remaining) (min remaining 1252) inc (store_peer a ?p1 ctx) =
        Some (hs_header t ?L (hs_mseq_s (hp_hs_state h)) (?L - remaining) (min remaining 1252),
          store_peer a (p\<lparr>pr_handshake := Some (seq_inc inc ?h1)\<rparr>) ctx)" for inc
      using handshake_header_value [OF l(2) b(1,2), of "store_peer a ?p1 ctx" a ?p1 ?h1 t inc] by simp
    have 4: "update_hs_hash a d (store_peer a (p\<lparr>pr_handshake := Some (seq_inc inc ?h1)\<rparr>) ctx) =
        Some (store_peer a (p\<lparr>pr_handshake := Some (set_hash (dtls_hash_update (hs_hash (hp_hs_state ?h1)) d)
          (seq_inc inc ?h1))\<rparr>) ctx)" for inc
      using update_hs_hash_value [of "p\<lparr>pr_handshake := Some (seq_inc inc ?h1)\<rparr>" "seq_inc inc ?h1" a d ctx] by simp
    show ?thesis
      unfolding send_fragment_def Let_def option.case after if_P [OF True] 1 Option.bind.bind_lunit prod.case 2 3 mn
      using True 4 by simp
  next
    case False
    show ?thesis
      unfolding send_fragment_def Let_def option.case after if_not_P [OF False] Option.bind.bind_lunit
        handshake_header_value [OF l(2) b(1,2) p] prod.case mn
      using False by auto
  qed
qed

lemma send_fragment_plain:
  assumes p: "cx_ph ctx a = Some p" "pr_handshake p = Some h" "pr_security0 p = Some sec"
    and c: "sp_cipher sec = TLS_NULL_WITH_NULL_NULL" and q: "queue_ok ctx"
    and f: "fresh_alloc (ev_node_alloc env)" and t: "t \<noteq> 3" and l: "remaining \<le> length d" "length d < 2 ^ 24"
  defines "rec \<equiv> 22 # be_bytes 2 0xfefd @ record_es sec @ be_bytes 2 (12 + min remaining 1252) @
    hs_fragment t d (hs_mseq_s (hp_hs_state h)) remaining"
  shows "\<exists>r nh q k. send_fragment env ctx (Some a) session t (Some d) remaining add =
    Some (r, ctx\<lparr>cx_ph := (cx_ph ctx)(a \<mapsto> p\<lparr>pr_handshake := Some (hs_after t d remaining add h),
        pr_security0 := Some (sec\<lparr>sp_rseq := sp_rseq sec + 1\<rparr>)\<rparr>), cx_nh := nh, cx_sendqueue := q, cx_clock := k,
        cx_written := cx_written ctx @ [(session, rec)]\<rparr>) \<and> (\<exists>as. netq_chain nh q as)"
proof -
  let ?seq = "hs_mseq_s (hp_hs_state h)" and ?L = "length d"
  let ?hdr = "hs_header t ?L ?seq (?L - remaining) (min remaining 1252)"
  let ?pay = "take (min remaining 1252) (drop (?L - remaining) d)"
  let ?p = "p\<lparr>pr_handshake := Some (hs_after t d remaining add h)\<rparr>"
  define ctx1 where "ctx1 = store_peer a ?p ctx"
  have b: "?L - remaining < 2 ^ 24" "min remaining 1252 < 2 ^ 24" "0 < (2 :: nat) ^ 24" using l by simp_all
  have send: "send_fragment env ctx (Some a) session t (Some d) remaining add =
      dtls_send_multi env ctx1 (Some a) 0 session 22 [?hdr, ?pay]"
    unfolding ctx1_def by (rule fragment_headers [OF p(1,2) l])
  let ?rec = "22 # be_bytes 2 0xfefd @ record_es sec @ be_bytes 2 (length (concat [?hdr, ?pay])) @ concat [?hdr, ?pay]"
  have len: "length (concat [?hdr, ?pay]) = 12 + min remaining 1252" using l by simp
  have rec: "?rec = rec" unfolding len by (simp add: rec_def hs_fragment_def)
  have prep: "dtls_prepare_record (cx_cctx ctx) (Some (pr_role p)) (Some sec) 22 [?hdr, ?pay] 30000 =
      Some (0, ?rec, Some (sec\<lparr>sp_rseq := sp_rseq sec + 1\<rparr>))"
    using prepare_plain [OF c, of "[?hdr, ?pay]" 30000] len by simp
  define ctx2 where "ctx2 = ctx\<lparr>cx_ph := (cx_ph ctx)(a \<mapsto> p\<lparr>pr_handshake := Some (hs_after t d remaining add h),
        pr_security0 := Some (sec\<lparr>sp_rseq := sp_rseq sec + 1\<rparr>)\<rparr>)\<rparr>"
  have q2: "queue_ok ctx2" using q by (simp add: queue_ok_def ctx2_def)
  obtain nh q k where keep: "keep_for_retransmit env ctx2 (Some a) (Some sec) 22 [?hdr, ?pay] =
      Some (ctx2\<lparr>cx_nh := nh, cx_sendqueue := q, cx_clock := k\<rparr>)" "\<exists>as. netq_chain nh q as"
  proof -
    have "length (concat [?hdr, ?pay]) \<le> 30000" unfolding len by simp
    from keep_ok [OF q2 f this, of "Some a" "Some sec" 22] show ?thesis
      by (elim exE conjE) (rule that, assumption, blast)
  qed
  have hd: "rd ?hdr 0 = Some t" by (simp add: rd_def hs_header_def)
  have m: "map_option (\<lambda>p. (Some (pr_role p), security_slot p 0)) (cx_ph ctx1 a) = Some (Some (pr_role p), Some sec)"
    using p by (simp add: ctx1_def security_slot_def)
  have cc: "cx_cctx ctx1 = cx_cctx ctx" by (simp add: ctx1_def store_peer_def)
  have ss: "store_slot a 0 (Some (sec\<lparr>sp_rseq := sp_rseq sec + 1\<rparr>)) ctx1 = Some ctx2"
    using p by (simp add: store_slot_def ctx1_def ctx2_def store_peer_def)
  have kp: "(if (22 :: u8) = 22 then (case [?hdr, ?pay] of [] \<Rightarrow> None | b # _ \<Rightarrow> map_option (\<lambda>x. x \<noteq> 3) (rd b 0))
      else Some ((22 :: u8) = 20)) = Some True"
    using hd t by simp
  define ctx3 where "ctx3 = ctx2\<lparr>cx_nh := nh, cx_sendqueue := q, cx_clock := k\<rparr>"
  define res where "res = ev_write env ctx3 session ?rec"
  have z: "\<not> (0 :: int) < 0" by simp
  have multi: "dtls_send_multi env ctx1 (Some a) 0 session 22 [?hdr, ?pay] =
    Some (if res \<le> 0 then res else int (length (concat [?hdr, ?pay])) - (int (length ?rec) - res),
       ctx3\<lparr>cx_written := cx_written ctx3 @ [(session, ?rec)]\<rparr>)"
    unfolding dtls_send_multi_def option.case m Option.bind.bind_lunit prod.case cc prep ss if_not_P [OF z] kp
      if_P [OF TrueI] keep(1) ctx3_def [symmetric] Let_def res_def ..
  have fin: "ctx3\<lparr>cx_written := cx_written ctx3 @ [(session, rec)]\<rparr> =
    ctx\<lparr>cx_ph := (cx_ph ctx)(a \<mapsto> p\<lparr>pr_handshake := Some (hs_after t d remaining add h),
        pr_security0 := Some (sec\<lparr>sp_rseq := sp_rseq sec + 1\<rparr>)\<rparr>), cx_nh := nh, cx_sendqueue := q, cx_clock := k,
        cx_written := cx_written ctx @ [(session, rec)]\<rparr>"
    by (simp add: ctx3_def ctx2_def)
  show ?thesis
    unfolding send multi rec fin using keep(2) by blast
qed

lemma hs_after_fields:
  "hs_mseq_s (hp_hs_state (hs_after t d remaining add h)) =
     hs_mseq_s (hp_hs_state h) + (if remaining < 1252 then 1 else 0)"
  "hs_hash (hp_hs_state (hs_after t d remaining add h)) =
     (if add \<and> remaining = length d
      then dtls_hash_update (dtls_hash_update (hs_hash (hp_hs_state h))
             (hs_header t (length d) (hs_mseq_s (hp_hs_state h)) 0 (length d))) d
      else hs_hash (hp_hs_state h))"
  by (simp_all add: hs_after_def set_hash_def Let_def)

lemma fragment_record:
  assumes "remaining \<le> length d"
  shows "is_record (22 # be_bytes 2 0xfefd @ record_es sec @ be_bytes 2 (12 + min remaining 1252) @
      hs_fragment t d seq remaining) = Some (25 + min remaining 1252)"
    and "drop 13 (22 # be_bytes 2 0xfefd @ record_es sec @ be_bytes 2 (12 + min remaining 1252) @
      hs_fragment t d seq remaining) = hs_fragment t d seq remaining"
proof -
  have l: "length (hs_fragment t d seq remaining) = 12 + min remaining 1252"
    using assms by (simp add: hs_fragment_def)
  have b: "length (hs_fragment t d seq remaining) < 2 ^ 16" unfolding l by simp
  have "(22 :: u8) \<in> {20, 21, 22, 23}" by simp
  then show "is_record (22 # be_bytes 2 0xfefd @ record_es sec @ be_bytes 2 (12 + min remaining 1252) @
      hs_fragment t d seq remaining) = Some (25 + min remaining 1252)"
    using is_record_header [OF _ _ _ b, of 22 "take 2 (record_es sec)" "drop 2 (record_es sec)" "[]"] l
    by (simp add: record_es_def)
  show "drop 13 (22 # be_bytes 2 0xfefd @ record_es sec @ be_bytes 2 (12 + min remaining 1252) @
      hs_fragment t d seq remaining) = hs_fragment t d seq remaining"
    using header_fields(4) [of "take 2 (record_es sec)" "drop 2 (record_es sec)" "be_bytes 2 (12 + min remaining 1252)" 22
      "hs_fragment t d seq remaining"]
    by (simp add: record_es_def)
qed

lemma send_loop_plain:
  assumes "cx_ph ctx a = Some p" "pr_handshake p = Some h" "pr_security0 p = Some sec"
    and "sp_cipher sec = TLS_NULL_WITH_NULL_NULL" and "queue_ok ctx"
    and "fresh_alloc (ev_node_alloc env)" and "t \<noteq> 3" and "remaining \<le> length d" "length d < 2 ^ 24"
  shows "\<exists>r nh q k recs p' h'. hs_send_loop env ctx (Some a) session t (Some d) remaining add ret =
      Some (r, ctx\<lparr>cx_ph := (cx_ph ctx)(a \<mapsto> p'), cx_nh := nh, cx_sendqueue := q, cx_clock := k,
        cx_written := cx_written ctx @ map (Pair session) recs\<rparr>) \<and>
    map (drop 13) recs = hs_fragments t d (hs_mseq_s (hp_hs_state h)) remaining \<and>
    (\<forall>x\<in>set recs. is_record x = Some (length x)) \<and> (\<exists>as. netq_chain nh q as) \<and>
    pr_handshake p' = Some h' \<and>
    hs_mseq_s (hp_hs_state h') = hs_mseq_s (hp_hs_state h) +
      (if remaining mod 1252 = 0 \<and> remaining \<noteq> 0 then 0 else 1) \<and>
    hs_hash (hp_hs_state h') = hs_hash (hp_hs_state (hs_after t d remaining add h))"
  using assms
proof (induction remaining arbitrary: ctx p h sec ret rule: less_induct)
  case (less remaining)
  let ?seq = "hs_mseq_s (hp_hs_state h)"
  let ?rec = "22 # be_bytes 2 0xfefd @ record_es sec @ be_bytes 2 (12 + min remaining 1252) @
    hs_fragment t d ?seq remaining"
  let ?h1 = "hs_after t d remaining add h"
  let ?sec = "sec\<lparr>sp_rseq := sp_rseq sec + 1\<rparr>"
  let ?p1 = "p\<lparr>pr_handshake := Some ?h1, pr_security0 := Some ?sec\<rparr>"
  obtain r nh q k as where sf: "send_fragment env ctx (Some a) session t (Some d) remaining add =
    Some (r, ctx\<lparr>cx_ph := (cx_ph ctx)(a \<mapsto> ?p1), cx_nh := nh, cx_sendqueue := q, cx_clock := k,
        cx_written := cx_written ctx @ [(session, ?rec)]\<rparr>)" "netq_chain nh q as"
    using send_fragment_plain [OF less.prems, of session add] by (elim exE conjE) (rule that)
  define ctx1 where "ctx1 = ctx\<lparr>cx_ph := (cx_ph ctx)(a \<mapsto> ?p1), cx_nh := nh, cx_sendqueue := q, cx_clock := k,
        cx_written := cx_written ctx @ [(session, ?rec)]\<rparr>"
  have lr: "length ?rec = 25 + min remaining 1252"
    using less.prems(8) by (simp add: hs_fragment_def)
  note fr = fragment_record [OF less.prems(8), of sec t ?seq]
  show ?case
  proof (cases "remaining > 1252")
    case False
    have l: "hs_send_loop env ctx (Some a) session t (Some d) remaining add ret = Some (ret + r, ctx1)"
      using sf(1) False by (subst hs_send_loop.simps) (simp add: ctx1_def Let_def)
    have f: "hs_fragments t d ?seq remaining = [hs_fragment t d ?seq remaining]"
      using False by (simp add: hs_fragments.simps [of t d ?seq remaining])
    have md: "(remaining mod 1252 = 0 \<and> remaining \<noteq> 0) \<longleftrightarrow> \<not> remaining < 1252" using False by auto
    show ?thesis
      unfolding l f md using sf(2) fr lr hs_after_fields(1) [of t d remaining add h]
      by (intro exI [of _ "ret + r"] exI [of _ nh] exI [of _ q] exI [of _ k] exI [of _ "[?rec]"] exI [of _ ?p1]
          exI [of _ ?h1] conjI)
        (simp only: ctx1_def list.map prod.case | auto simp: ctx1_def)+
  next
    case True
    have l: "hs_send_loop env ctx (Some a) session t (Some d) remaining add ret =
        hs_send_loop env ctx1 (Some a) session t (Some d) (remaining - 1252) add (ret + r)"
      using sf(1) True by (subst hs_send_loop.simps) (simp add: ctx1_def Let_def)
    have f: "hs_fragments t d ?seq remaining = hs_fragment t d ?seq remaining # hs_fragments t d ?seq (remaining - 1252)"
      using True by (simp add: hs_fragments.simps [of t d ?seq remaining])
    have md: "(remaining mod 1252 = 0 \<and> remaining \<noteq> 0) \<longleftrightarrow>
        ((remaining - 1252) mod 1252 = 0 \<and> remaining - 1252 \<noteq> 0)"
      using True by (auto simp: le_mod_geq)
    have s1: "hs_mseq_s (hp_hs_state ?h1) = ?seq" using True by (simp add: hs_after_fields)
    have ne: "remaining - 1252 \<noteq> length d" using True less.prems(8) by simp
    have hh: "hs_hash (hp_hs_state (hs_after t d (remaining - 1252) add ?h1)) = hs_hash (hp_hs_state ?h1)"
      using ne by (simp add: hs_after_fields)
    have c1: "cx_ph ctx1 a = Some ?p1" "pr_handshake ?p1 = Some ?h1" "pr_security0 ?p1 = Some ?sec"
      "sp_cipher ?sec = TLS_NULL_WITH_NULL_NULL" "queue_ok ctx1"
      using less.prems(4) sf(2) by (auto simp: ctx1_def queue_ok_def)
    have lt: "remaining - 1252 < remaining" "remaining - 1252 \<le> length d" using True less.prems(8) by simp_all
    obtain r' nh' q' k' recs p' h' as' where IH: "hs_send_loop env ctx1 (Some a) session t (Some d) (remaining - 1252) add (ret + r) =
      Some (r', ctx1\<lparr>cx_ph := (cx_ph ctx1)(a \<mapsto> p'), cx_nh := nh', cx_sendqueue := q', cx_clock := k',
        cx_written := cx_written ctx1 @ map (Pair session) recs\<rparr>)"
      "map (drop 13) recs = hs_fragments t d ?seq (remaining - 1252)"
      "\<forall>x\<in>set recs. is_record x = Some (length x)" "netq_chain nh' q' as'"
      "pr_handshake p' = Some h'"
      "hs_mseq_s (hp_hs_state h') = ?seq + (if (remaining - 1252) mod 1252 = 0 \<and> remaining - 1252 \<noteq> 0 then 0 else 1)"
      "hs_hash (hp_hs_state h') = hs_hash (hp_hs_state ?h1)"
      using less.IH [OF lt(1) c1 less.prems(6,7) lt(2) less.prems(9), of "ret + r"] unfolding s1 hh
      by (elim exE conjE) (rule that)
    have e: "ctx1\<lparr>cx_ph := (cx_ph ctx1)(a \<mapsto> p'), cx_nh := nh', cx_sendqueue := q', cx_clock := k',
        cx_written := cx_written ctx1 @ map (Pair session) recs\<rparr> =
      ctx\<lparr>cx_ph := (cx_ph ctx)(a \<mapsto> p'), cx_nh := nh', cx_sendqueue := q', cx_clock := k',
        cx_written := cx_written ctx @ map (Pair session) (?rec # recs)\<rparr>"
      by (simp add: ctx1_def)
    show ?thesis
      unfolding l f md IH(1) e
      using IH(2-7) fr lr
      by (intro exI [of _ r'] exI [of _ nh'] exI [of _ q'] exI [of _ k'] exI [of _ "?rec # recs"] exI [of _ p']
          exI [of _ h'] conjI) (rule refl | auto)+
  qed
qed

subsection \<open>Properties\<close>

text \<open>C22: Fragmentation is transparent: in an epoch without a cipher,
  \<open>dtls_send_handshake_msg_hash\<close> writes, for a message of any length up to the reassembly limit, well-formed
  records whose contents, received in order by the reassembly of \<open>handle_handshake\<close>, are held back
  until the last one and then delivered as the one message that an unfragmented transmission would
  have carried: its header with offset 0 and full length, and the data. The running hash absorbs
  exactly this message. The message sequence number advances by one, except when the length is a
  positive multiple of 1252: then no fragment is treated as the last one, and it stays.\<close>

theorem fragmentation_transparent:
  assumes "cx_ph ctx a = Some p" "pr_handshake p = Some h" "pr_security0 p = Some sec"
    and "sp_cipher sec = TLS_NULL_WITH_NULL_NULL" and "queue_ok ctx"
    and "fresh_alloc (ev_node_alloc env)" and "t \<noteq> 3" and "length d \<le> 30000"
  defines "m \<equiv> hs_header t (length d) (hs_mseq_s (hp_hs_state h)) 0 (length d) @ d"
  shows "\<exists>r ctx' p' h' recs x. dtls_send_handshake_msg_hash env ctx (Some a) session t (Some d) True = Some (r, ctx') \<and>
    cx_written ctx' = cx_written ctx @ map (Pair session) recs \<and>
    (\<forall>x\<in>set recs. is_record x = Some (length x)) \<and>
    receive_all (Some g) (map (drop 13) recs) =
      Some (replicate (length recs - 1) (Reject DTLS_HS_FRAGMENTED) @ [Deliver m], x) \<and>
    cx_ph ctx' a = Some p' \<and> pr_handshake p' = Some h' \<and>
    hs_hash (hp_hs_state h') = fold (\<lambda>y c. dtls_hash_update c y) [take 12 m, drop 12 m] (hs_hash (hp_hs_state h)) \<and>
    hs_mseq_s (hp_hs_state h') = hs_mseq_s (hp_hs_state h) +
      (if length d mod 1252 = 0 \<and> length d \<noteq> 0 then 0 else 1)"
proof -
  let ?seq = "hs_mseq_s (hp_hs_state h)"
  have l: "length d \<le> length d" "length d < 2 ^ 24" using assms(8) by simp_all
  obtain r nh q k as recs p' h' where s: "hs_send_loop env ctx (Some a) session t (Some d) (length d) True 0 =
      Some (r, ctx\<lparr>cx_ph := (cx_ph ctx)(a \<mapsto> p'), cx_nh := nh, cx_sendqueue := q, cx_clock := k,
        cx_written := cx_written ctx @ map (Pair session) recs\<rparr>)"
    "map (drop 13) recs = hs_fragments t d ?seq (length d)"
    "\<forall>x\<in>set recs. is_record x = Some (length x)" "netq_chain nh q as"
    "pr_handshake p' = Some h'"
    "hs_mseq_s (hp_hs_state h') = ?seq + (if length d mod 1252 = 0 \<and> length d \<noteq> 0 then 0 else 1)"
    "hs_hash (hp_hs_state h') = hs_hash (hp_hs_state (hs_after t d (length d) True h))"
    using send_loop_plain [OF assms(1-7) l, of session True 0] by (elim exE conjE) (rule that)
  have "\<exists>x. receive_all (Some g) (map (drop 13) recs) =
      Some (replicate (length recs - 1) (Reject DTLS_HS_FRAGMENTED) @ [Deliver m], x)"
  proof -
    have "\<exists>k x. receive_all (Some g) (map (drop 13) recs) =
        Some (replicate k (Reject DTLS_HS_FRAGMENTED) @ [Deliver m], x)"
    proof (cases "1252 < length d")
      case True
      then show ?thesis
        using receive_fragments [OF True assms(8), of g t ?seq] unfolding s(2) m_def by blast
    next
      case False
      then have "length d \<le> 1252" by simp
      from receive_single [OF this, of "Some g" t ?seq] show ?thesis
        unfolding s(2) m_def by (intro exI [of _ 0] exI [of _ "Some g"]) simp
    qed
    then obtain k x where k: "receive_all (Some g) (map (drop 13) recs) =
        Some (replicate k (Reject DTLS_HS_FRAGMENTED) @ [Deliver m], x)" by blast
    have len: "receive_all hs fs = Some (rs, x) \<Longrightarrow> length rs = length fs" for hs fs rs x
      by (induction fs arbitrary: hs rs x) (auto split: option.splits)
    have "k = length recs - 1" using len [OF k] by simp
    then show ?thesis using k by blast
  qed
  moreover have "take 12 m = hs_header t (length d) ?seq 0 (length d)" "drop 12 m = d"
    by (simp_all add: m_def)
  ultimately show ?thesis
    using s(1,3,5,6,7) by (auto simp: dtls_send_handshake_msg_hash_def hs_after_fields)
qed

lemma fragmentation_transparent_witness:
  "\<exists>r ctx' recs x. dtls_send_handshake_msg_hash env_example
      (ctx_example [1 \<mapsto> peer_example 1\<lparr>pr_handshake := dtls_handshake_new True\<rparr>]) (Some 1)
      (pr_session (peer_example 1)) 16 (Some (replicate 3000 7)) True = Some (r, ctx') \<and>
    cx_written ctx' = map (Pair (pr_session (peer_example 1))) recs \<and>
    receive_all (dtls_handshake_new True) (map (drop 13) recs) =
      Some (replicate (length recs - 1) (Reject DTLS_HS_FRAGMENTED) @
        [Deliver (hs_header 16 3000 0 0 3000 @ replicate 3000 7)], x)"
proof -
  let ?p = "peer_example 1\<lparr>pr_handshake := dtls_handshake_new True\<rparr>"
  let ?c = "ctx_example [1 \<mapsto> ?p]"
  have h: "pr_handshake ?p = Some (the (dtls_handshake_new True))" "hs_mseq_s (hp_hs_state (the (dtls_handshake_new True))) = 0"
    by (simp_all add: dtls_handshake_new_def)
  have s: "pr_security0 ?p = Some (the (dtls_security_new True))" "sp_cipher (the (dtls_security_new True)) = TLS_NULL_WITH_NULL_NULL"
    by (simp_all add: peer_example_def dtls_new_peer_def dtls_security_new_def)
  have c: "cx_ph ?c 1 = Some ?p" "queue_ok ?c" "fresh_alloc (ev_node_alloc env_example)" "(16 :: u8) \<noteq> 3"
    "length (replicate 3000 (7 :: u8)) \<le> 30000" "cx_written ?c = []"
    by (simp_all add: ctx_example_def queue_ok_def fresh_alloc_def env_example_def)
  show ?thesis
    using fragmentation_transparent [OF c(1) h(1) s c(2-5), of "pr_session (peer_example 1)" "the (dtls_handshake_new True)"]
      h c(6) by (auto simp: dtls_handshake_new_def)
qed

text \<open>The reassembly trusts the total length of each fragment: a later fragment may announce a
  larger message than the first one, for which the buffer was allocated; it is then copied past
  the end of the buffer.\<close>

lemma reassembly_overflow:
  assumes "hp_reassemble_buf h = Some r" and "length (ra_data r) = ra_packet_length r + 12"
    and "0 < off" and "ra_last_offset r = off" and "ra_packet_length r < off + n"
    and "off + n < len" and "len \<le> 30000" and "length x = n"
  shows "hs_reassemble ok1 ok2 (Some h) (hs_header t len seq off n @ x) = None"
proof -
  have b: "len < 2 ^ 24" "n < 2 ^ 24" "off < 2 ^ 24" using assms by simp_all
  have r1: "rd_n x 0 n = Some x" using assms by (simp add: rd_n_def)
  show ?thesis
    unfolding hs_reassemble_def hs_header_parts uint24_be [OF b(1)] uint24_be [OF b(2)] uint24_be [OF b(3)]
      Option.bind.bind_lunit
    using assms r1 by (simp add: wr_n_def)
qed

lemma reassembly_overflow_witness:
  "hs_reassemble True True (Some (the (dtls_handshake_new True)\<lparr>hp_reassemble_buf := Some
     \<lparr>ra_mseq_r = 0, ra_last_offset = 1, ra_packet_length = 2, ra_data = replicate 14 0\<rparr>\<rparr>))
     (hs_header 16 100 0 1 50 @ replicate 50 9) = None"
  by (rule reassembly_overflow [where r = "\<lparr>ra_mseq_r = 0, ra_last_offset = 1, ra_packet_length = 2,
        ra_data = replicate 14 0\<rparr>"]) simp_all

end
