(* ===== verification/Retransmit.thy ===== *)
theory Retransmit
  imports Frag
begin

text \<open>
  What the retransmission queue promises. A polling of the queue by \<open>dtls_check_retransmit\<close> sends
  every message that is due once more, reschedules it with a doubled delay, drops it after seven
  retransmissions, and terminates; over any number of polls \<open>queue_history\<close> tells of each message when it was sent
  again; \<open>dtls_stop_retransmission\<close> drops exactly the messages to a session.
\<close>

subsection \<open>Well-formed queues\<close>

definition sec_ok :: "dtls_security_parameters_t option \<Rightarrow> bool" where
  "sec_ok so \<longleftrightarrow> (\<forall>s. so = Some s \<longrightarrow> length (sp_key_block s) = 40)"

definition node_ok :: "peer_heap \<Rightarrow> netq_t \<Rightarrow> bool" where
  "node_ok ph n \<longleftrightarrow>
     (\<forall>pa. nq_peer n = Some pa \<longrightarrow>
        (\<exists>p. ph pa = Some p \<and> sec_ok (pr_security0 p) \<and> sec_ok (pr_security1 p))) \<and>
     nq_length n \<le> length (nq_data n) \<and> nq_length n \<le> 29971 \<and> nq_type n \<in> {20, 22} \<and>
     0 < nq_timeout n \<and> unat (nq_timeout n) \<le> 2 ^ 24"

text \<open>The queue of the context is the list \<open>Q\<close> of messages, in the order of their times.\<close>

definition sendq :: "dtls_context_t \<Rightarrow> nat list \<Rightarrow> netq_t list \<Rightarrow> bool" where
  "sendq ctx as Q \<longleftrightarrow> netq_chain (cx_nh ctx) (cx_sendqueue ctx) as \<and>
     Q = netq_abs (cx_nh ctx) as \<and> queue_sorted Q \<and> (\<forall>n\<in>set Q. node_ok (cx_ph ctx) n) \<and>
     valid_cctx (cx_cctx ctx)"

definition clock_ok :: "dtls_env \<Rightarrow> bool" where
  "clock_ok env \<longleftrightarrow> (\<forall>k. unat (ev_ticks env k) < 2 ^ 62) \<and> (\<forall>k l. k \<le> l \<longrightarrow> ev_ticks env k \<le> ev_ticks env l)"

text \<open>What becomes of the messages that are due: those with retransmissions left and a peer are
  sent again, with the next reading of the clock for each.\<close>

definition resend :: "netq_t \<Rightarrow> bool" where
  "resend n \<longleftrightarrow> nq_retransmit_cnt n < 7 \<and> nq_peer n \<noteq> None"

definition resched :: "u64 \<Rightarrow> netq_t \<Rightarrow> netq_t" where
  "resched now n = n\<lparr>nq_retransmit_cnt := nq_retransmit_cnt n + 1,
     nq_t := now + ucast (push_bit (unat (nq_retransmit_cnt n + 1)) (nq_timeout n))\<rparr>"

fun resched_all :: "dtls_env \<Rightarrow> nat \<Rightarrow> netq_t list \<Rightarrow> netq_t list" where
  "resched_all env k [] = []"
| "resched_all env k (n # ns) =
     (if resend n then resched (ev_ticks env k) n # resched_all env (k + 1) ns
      else resched_all env k ns)"

lemma later_time:
  fixes now now' :: u64 and to :: u32
  assumes "now \<le> now'" and "unat now' < 2 ^ 62" and "0 < to" and "unat to \<le> 2 ^ 24" and "c \<le> 7"
  shows "now < now' + ucast (push_bit c to)"
proof -
  have "(2::nat) ^ c \<le> 2 ^ 7" using assms(5) by (intro power_increasing) simp_all
  then have c: "unat to * 2 ^ c \<le> 2 ^ 24 * 2 ^ 7" using assms(4) by (intro mult_le_mono) simp_all
  have c0: "0 < unat to * 2 ^ c" using assms(3) by (simp add: word_less_nat_alt)
  have p: "unat (push_bit c to) = unat to * 2 ^ c"
    unfolding unsigned_push_bit_eq using c by (simp add: push_bit_eq_mult take_bit_eq_mod)
  have u: "unat (ucast (push_bit c to) :: u64) = unat to * 2 ^ c"
    using c unfolding p [symmetric] by (simp add: unsigned_ucast_eq take_bit_eq_mod)
  have "unat (now' + ucast (push_bit c to)) = unat now' + unat to * 2 ^ c"
    using assms(2) c u by (subst unat_add_lem [THEN iffD1]) auto
  then show ?thesis using c0 assms(1) [unfolded word_le_nat_alt] unfolding word_less_nat_alt by linarith
qed

lemma prepare_none:
  assumes "13 + length m \<le> rlen"
  shows "dtls_prepare_record cctx role None type [m] rlen =
    Some (0, type # be_bytes 2 0xfefd @ replicate 2 0 @ replicate 6 0 @ be_bytes 2 (length m) @ m, None)"
proof -
  have h: "dtls_set_record_header type None =
      (type # be_bytes 2 0xfefd @ replicate 2 0 @ replicate 6 0 @ [0, 0], None)"
    using replicate_add [of 2 6 "0 :: u8"]
    by (simp add: dtls_set_record_header_def dtls_int_to_uint8_def int_to_uint16_be DTLS_VERSION_def)
  have g: "gather rlen 0 [m] = Some m" using gather_fits [of 0 "[m]" rlen] assms by simp
  have w: "dtls_int_to_uint16 (word_of_nat (length m)) = be_bytes 2 (length m)"
    using be_bytes_mod [of 2 "length m"]
    by (simp add: int_to_uint16_be unsigned_of_nat take_bit_eq_mod)
  have pt: "put 11 (be_bytes 2 (length m)) (type # be_bytes 2 0xfefd @ replicate 2 0 @ replicate 6 0 @ [0, 0]) =
      type # be_bytes 2 0xfefd @ replicate 2 0 @ replicate 6 0 @ be_bytes 2 (length m)"
    using header_fields(6) [of "replicate 2 0" "replicate 6 0" "[0, 0]" "be_bytes 2 (length m)" type] by simp
  have n: "\<not> rlen < 13" using assms by simp
  show ?thesis
    unfolding dtls_prepare_record_def if_not_P [OF n] h prod.case Let_def option.case g w pt by simp
qed

lemma prepare_any:
  assumes v: "valid_cctx cctx" and so: "sec_ok so" and m: "length m \<le> 29971" and t: "type \<in> {20, 22}"
  shows "\<exists>rec so'. dtls_prepare_record cctx (Some r) so type [m] 30000 = Some (0, rec, so') \<and>
    sec_ok so' \<and> is_record rec = Some (length rec)"
proof -
  have t': "type \<in> {20, 21, 22, 23}" using t by auto
  have shape: "is_record (type # be_bytes 2 0xfefd @ es @ be_bytes 2 (length b) @ b) =
      Some (length (type # be_bytes 2 0xfefd @ es @ be_bytes 2 (length b) @ b))"
    if "length es = 8" "length b < 2 ^ 16" for es b :: bytes
    using is_record_header [of type "take 2 es" "drop 2 es" b "[]"] that t'
    by (simp del: append_assoc add: append_assoc [symmetric]) 
  show ?thesis
  proof (cases so)
    case None
    then show ?thesis
      using prepare_none [of m 30000 cctx "Some r" type] m so shape [of "replicate 2 0 @ replicate 6 0" m]
      by (simp add: sec_ok_def)
  next
    case (Some s)
    have kb: "length (sp_key_block s) = 40" using so Some by (simp add: sec_ok_def)
    show ?thesis
    proof (cases "sp_cipher s = TLS_NULL_WITH_NULL_NULL")
      case True
      then show ?thesis
        using Some prepare_plain [OF True, of "[m]" 30000 cctx "Some r" type] m kb
          shape [of "record_es s" m] by (simp add: sec_ok_def)
    next
      case False
      let ?b = "record_es s @ seal (write_key s r) (write_nonce s r (record_es s))
               (record_aad type (record_es s) (length m)) m"
      have "length ?b = length m + 16" using write_lengths [OF kb] by simp
      then show ?thesis
        using Some prepare_encrypted [OF v kb False, of "[m]" 30000 r type] m kb
          shape [of "record_es s" ?b] by (simp add: sec_ok_def Let_def)
    qed
  qed
qed

subsection \<open>One retransmission\<close>

text \<open>Peers that differ in their security parameters only.\<close>

definition peers_like :: "peer_heap \<Rightarrow> peer_heap \<Rightarrow> bool" where
  "peers_like ph ph' \<longleftrightarrow> (\<forall>a p. ph a = Some p \<longrightarrow>
     (\<exists>s0 s1. ph' a = Some (p\<lparr>pr_security0 := s0, pr_security1 := s1\<rparr>) \<and>
        (sec_ok (pr_security0 p) \<longrightarrow> sec_ok s0) \<and> (sec_ok (pr_security1 p) \<longrightarrow> sec_ok s1)))"

lemma peers_like_refl [simp]: "peers_like ph ph"
  unfolding peers_like_def
proof (intro allI impI)
  fix a p assume "ph a = Some p"
  then show "\<exists>s0 s1. ph a = Some (p\<lparr>pr_security0 := s0, pr_security1 := s1\<rparr>) \<and>
      (sec_ok (pr_security0 p) \<longrightarrow> sec_ok s0) \<and> (sec_ok (pr_security1 p) \<longrightarrow> sec_ok s1)"
    by (intro exI [of _ "pr_security0 p"] exI [of _ "pr_security1 p"]) simp
qed

lemma peers_like_trans:
  assumes "peers_like ph ph'" and "peers_like ph' ph''"
  shows "peers_like ph ph''"
  unfolding peers_like_def
proof (intro allI impI)
  fix a p assume "ph a = Some p"
  then obtain s0 s1 where 1: "ph' a = Some (p\<lparr>pr_security0 := s0, pr_security1 := s1\<rparr>)"
      "sec_ok (pr_security0 p) \<longrightarrow> sec_ok s0" "sec_ok (pr_security1 p) \<longrightarrow> sec_ok s1"
    using assms(1) by (fastforce simp: peers_like_def)
  then show "\<exists>s0 s1. ph'' a = Some (p\<lparr>pr_security0 := s0, pr_security1 := s1\<rparr>) \<and>
      (sec_ok (pr_security0 p) \<longrightarrow> sec_ok s0) \<and> (sec_ok (pr_security1 p) \<longrightarrow> sec_ok s1)"
    using assms(2) by (fastforce simp: peers_like_def)
qed

lemma peers_like_node_ok: "peers_like ph ph' \<Longrightarrow> node_ok ph n \<Longrightarrow> node_ok ph' n"
  by (fastforce simp: node_ok_def peers_like_def)

lemma peers_like_session:
  "peers_like ph ph' \<Longrightarrow> ph a = Some p \<Longrightarrow> map_option pr_session (ph' a) = Some (pr_session p)"
  by (fastforce simp: peers_like_def)

definition node_session :: "peer_heap \<Rightarrow> netq_t \<Rightarrow> session_t option" where
  "node_session ph n = Option.bind (nq_peer n) (\<lambda>pa. map_option pr_session (ph pa))"

lemma peers_like_node_session:
  "peers_like ph ph' \<Longrightarrow> node_ok ph n \<Longrightarrow> node_session ph' n = node_session ph n"
  by (cases "nq_peer n") (auto simp: node_session_def node_ok_def dest: peers_like_session)

lemma node_ok_resched [simp]: "node_ok ph (resched now n) = node_ok ph n"
  by (simp add: node_ok_def resched_def)

lemma node_ok_payload [simp]: "node_ok ph (nq_payload n) = node_ok ph n"
  by (simp add: node_ok_def nq_payload_def)

lemma peers_like_slot:
  assumes p: "ph pa = Some p" and so: "k < 2" and s: "sec_ok (security_slot p k) \<longrightarrow> sec_ok so"
  shows "peers_like ph (ph(pa \<mapsto> (if k = 0 then p\<lparr>pr_security0 := so\<rparr> else p\<lparr>pr_security1 := so\<rparr>)))"
  unfolding peers_like_def
proof (intro allI impI)
  fix a q assume q: "ph a = Some q"
  let ?h = "ph(pa \<mapsto> (if k = 0 then p\<lparr>pr_security0 := so\<rparr> else p\<lparr>pr_security1 := so\<rparr>))"
  show "\<exists>s0 s1. ?h a = Some (q\<lparr>pr_security0 := s0, pr_security1 := s1\<rparr>) \<and>
      (sec_ok (pr_security0 q) \<longrightarrow> sec_ok s0) \<and> (sec_ok (pr_security1 q) \<longrightarrow> sec_ok s1)"
  proof (cases "a = pa \<and> k = 0")
    case True
    then show ?thesis using p q s
      by (intro exI [of _ so] exI [of _ "pr_security1 p"]) (simp add: security_slot_def)
  next
    case False
    then show ?thesis using p q s so
      by (intro exI [of _ "pr_security0 q"] exI [of _ "if a = pa then so else pr_security1 q"])
        (auto simp: security_slot_def split: if_splits)
  qed
qed

lemma retransmit_resend:
  assumes c: "netq_chain (cx_nh ctx) (cx_sendqueue ctx) as" and na: "a \<notin> set as"
    and n: "cx_nh ctx a = Some n" and r: "resend n" and ok: "node_ok (cx_ph ctx) n"
    and v: "valid_cctx (cx_cctx ctx)"
  shows "\<exists>nh q as' ph s rec. dtls_retransmit env ctx (Some a) = Some (ctx\<lparr>cx_clock := cx_clock ctx + 1,
        cx_nh := nh, cx_sendqueue := q, cx_ph := ph, cx_written := cx_written ctx @ [(s, rec)]\<rparr>) \<and>
    netq_chain nh q as' \<and> set as' = insert a (set as) \<and> node_session (cx_ph ctx) n = Some s \<and>
    netq_abs nh as' = queue_insert (nq_payload (resched (ev_ticks env (cx_clock ctx)) n)) (netq_abs (cx_nh ctx) as) \<and>
    peers_like (cx_ph ctx) ph \<and> is_record rec = Some (length rec)"
proof -
  obtain pa p where p: "nq_peer n = Some pa" "cx_ph ctx pa = Some p"
    "sec_ok (pr_security0 p)" "sec_ok (pr_security1 p)"
    using ok r by (auto simp: node_ok_def resend_def)
  define slot where "slot = dtls_security_params_epoch p (nq_epoch n)"
  define so where "so = Option.bind slot (security_slot p)"
  have k2: "slot = Some k \<Longrightarrow> k < 2" for k
    by (auto simp: slot_def dtls_security_params_epoch_def split: option.splits if_splits)
  have so: "sec_ok so"
    using p(3,4) by (cases slot) (auto simp: so_def security_slot_def sec_ok_def)
  let ?n = "resched (ev_ticks env (cx_clock ctx)) n"
  let ?h = "(cx_nh ctx)(a \<mapsto> ?n)" and ?m = "take (nq_length n) (nq_data n)"
  have ch: "netq_chain ?h (cx_sendqueue ctx) as" using c na by simp
  obtain nh q as' where i: "netq_insert_node ?h (cx_sendqueue ctx) a = Some (nh, q, 1)"
    "netq_chain nh q as'" "netq_abs nh as' = queue_insert (nq_payload ?n) (netq_abs ?h as)"
    "set as' = insert a (set as)"
    using netq_insert_node_abs [OF ch _ na, of ?n] by auto
  have ab: "netq_abs ?h as = netq_abs (cx_nh ctx) as"
    using na chain_mapped [OF c] by (intro payloads_cong) auto
  have len: "length ?m \<le> 29971" and ty: "nq_type n \<in> {20, 22}" using ok by (auto simp: node_ok_def)
  obtain rec so' where pr: "dtls_prepare_record (cx_cctx ctx) (Some (pr_role p)) so (nq_type n) [?m] 30000 =
      Some (0, rec, so')" "sec_ok so'" "is_record rec = Some (length rec)"
    using prepare_any [OF v so len ty, of "pr_role p"] by blast
  define ph where "ph = (case slot of None \<Rightarrow> cx_ph ctx
    | Some k \<Rightarrow> (cx_ph ctx)(pa \<mapsto> (if k = 0 then p\<lparr>pr_security0 := so'\<rparr> else p\<lparr>pr_security1 := so'\<rparr>)))"
  have pl: "peers_like (cx_ph ctx) ph"
  proof (cases slot)
    case None
    then show ?thesis by (simp add: ph_def)
  next
    case (Some k)
    then show ?thesis
      using peers_like_slot [of "cx_ph ctx" pa p k so', OF p(2) k2 [OF Some]] pr(2) by (simp add: ph_def)
  qed
  have "dtls_retransmit env ctx (Some a) = Some (ctx\<lparr>cx_clock := cx_clock ctx + 1,
      cx_nh := nh, cx_sendqueue := q, cx_ph := ph, cx_written := cx_written ctx @ [(pr_session p, rec)]\<rparr>)"
  proof (cases slot)
    case None
    then show ?thesis
      using n r p(1,2) i(1) pr(1)
      by (simp add: dtls_retransmit_def resend_def ticks_def slot_def [symmetric] so_def
          resched_def [symmetric] ph_def Let_def)
  next
    case (Some k)
    then have "security_slot p k = so" by (simp add: so_def)
    then show ?thesis
      using Some n r p(1,2) i(1) pr(1)
      by (simp add: dtls_retransmit_def resend_def ticks_def slot_def [symmetric]
        resched_def [symmetric] ph_def store_slot_def store_peer_def Let_def split del: if_split)
  qed
  then show ?thesis
    using i ab pl pr(3) p(1,2)
    by (intro exI [of _ nh] exI [of _ q] exI [of _ as'] exI [of _ ph] exI [of _ "pr_session p"] exI [of _ rec])
      (simp add: node_session_def)
qed

subsection \<open>One polling of the queue\<close>

lemma payload_resched [simp]: "nq_payload (resched now n) = resched now (nq_payload n)"
  by (simp add: nq_payload_def resched_def)

lemma payload_set_next [simp]: "nq_payload (nq_set_next p n) = nq_payload n"
  by (simp add: nq_payload_def nq_set_next_def)

lemma resend_payload [simp]: "resend (nq_payload n) = resend n" "resend (nq_set_next q n) = resend n"
  by (simp_all add: resend_def nq_payload_def nq_set_next_def)

lemma node_session_payload [simp]:
  "node_session ph (nq_payload n) = node_session ph n" "node_session ph (nq_set_next q n) = node_session ph n"
  by (simp_all add: node_session_def nq_payload_def nq_set_next_def)

lemma node_ok_set_next [simp]: "node_ok ph (nq_set_next q n) = node_ok ph n"
  by (simp add: node_ok_def nq_set_next_def)

lemma filter_queue_insert:
  assumes "\<not> P y"
  shows "filter P (queue_insert y Q) = filter P Q"
proof -
  let ?R = "\<lambda>z. nq_t z \<le> nq_t y"
  have "filter P Q = filter P (takeWhile ?R Q @ dropWhile ?R Q)" by simp
  then show ?thesis using assms by (simp add: queue_insert_def del: takeWhile_dropWhile_id)
qed

lemma resched_later:
  assumes "clock_ok env" and "now \<le> ev_ticks env k" and "resend n" and "node_ok ph n"
  shows "now < nq_t (resched (ev_ticks env k) n)"
proof -
  have "nq_retransmit_cnt n < 7" using assms(3) by (simp add: resend_def)
  then have "unat (nq_retransmit_cnt n + 1) \<le> 7" by unat_arith
  then show ?thesis
    using later_time [OF assms(2), of "nq_timeout n"] assms(1,4)
    by (auto simp: resched_def clock_ok_def node_ok_def)
qed

definition due :: "u64 \<Rightarrow> netq_t \<Rightarrow> bool" where
  "due now n \<longleftrightarrow> nq_t n \<le> now"

lemma ptr_of_simps [simp]: "ptr_of [] = None" "ptr_of (a # as) = Some a"
  by (simp_all add: ptr_of_def)

lemma sendq_Cons:
  assumes "sendq ctx (a # as) Q"
  shows "\<exists>n Q1. Q = nq_payload n # Q1 \<and> cx_nh ctx a = Some n \<and> a \<notin> set as \<and>
    netq_pop_first (cx_nh ctx) (cx_sendqueue ctx) =
      Some ((cx_nh ctx)(a \<mapsto> nq_set_next None n), nq_next n, Some a) \<and>
    netq_chain ((cx_nh ctx)(a \<mapsto> nq_set_next None n)) (nq_next n) as \<and>
    netq_abs ((cx_nh ctx)(a \<mapsto> nq_set_next None n)) as = Q1 \<and>
    queue_sorted Q1 \<and> (\<forall>x\<in>set Q1. nq_t n \<le> nq_t x \<and> node_ok (cx_ph ctx) x) \<and> node_ok (cx_ph ctx) n"
proof -
  have c: "netq_chain (cx_nh ctx) (cx_sendqueue ctx) (a # as)" and Q: "Q = netq_abs (cx_nh ctx) (a # as)"
    using assms by (auto simp: sendq_def)
  obtain n where n: "cx_nh ctx a = Some n" using chain_mapped [OF c, of a] by auto
  have na: "a \<notin> set as" using chain_distinct [OF c] by simp
  have "netq_abs ((cx_nh ctx)(a \<mapsto> nq_set_next None n)) as = netq_abs (cx_nh ctx) as"
    using na chain_mapped [OF c] by (intro payloads_cong) auto
  then show ?thesis
    using assms n na Q netq_pop_first_abs [OF c]
    by (auto simp: sendq_def queue_sorted_def)
qed

text \<open>The step of the loop for a message that is due.\<close>

lemma check_step:
  assumes q: "sendq ctx (a # as) Q" and cl: "clock_ok env" and now: "now \<le> ev_ticks env (cx_clock ctx)"
  defines "x \<equiv> hd Q"
  shows "if resend x
    then \<exists>nh q ph as' s rec ctx'. (case netq_pop_first (cx_nh ctx) (cx_sendqueue ctx) of None \<Rightarrow> None
          | Some (nh, q, _) \<Rightarrow> dtls_retransmit env (ctx\<lparr>cx_nh := nh, cx_sendqueue := q\<rparr>) (Some a)) = Some ctx' \<and>
        ctx' = ctx\<lparr>cx_clock := cx_clock ctx + 1, cx_nh := nh, cx_sendqueue := q, cx_ph := ph,
          cx_written := cx_written ctx @ [(s, rec)]\<rparr> \<and>
        sendq ctx' as' (queue_insert (resched (ev_ticks env (cx_clock ctx)) x) (tl Q)) \<and>
        peers_like (cx_ph ctx) ph \<and> node_session (cx_ph ctx) x = Some s \<and> is_record rec = Some (length rec)
    else \<exists>nh q ctx'. (case netq_pop_first (cx_nh ctx) (cx_sendqueue ctx) of None \<Rightarrow> None
          | Some (nh, q, _) \<Rightarrow> dtls_retransmit env (ctx\<lparr>cx_nh := nh, cx_sendqueue := q\<rparr>) (Some a)) = Some ctx' \<and>
        ctx' = ctx\<lparr>cx_nh := nh, cx_sendqueue := q\<rparr> \<and> sendq ctx' as (tl Q) \<and> nh a = None"
proof -
  obtain n Q1 where n: "Q = nq_payload n # Q1" "cx_nh ctx a = Some n" "a \<notin> set as"
    "netq_pop_first (cx_nh ctx) (cx_sendqueue ctx) =
      Some ((cx_nh ctx)(a \<mapsto> nq_set_next None n), nq_next n, Some a)"
    "netq_chain ((cx_nh ctx)(a \<mapsto> nq_set_next None n)) (nq_next n) as"
    "netq_abs ((cx_nh ctx)(a \<mapsto> nq_set_next None n)) as = Q1"
    "queue_sorted Q1" "\<forall>x\<in>set Q1. nq_t n \<le> nq_t x \<and> node_ok (cx_ph ctx) x" "node_ok (cx_ph ctx) n"
    using sendq_Cons [OF q] by (elim exE conjE) (rule that)
  have v: "valid_cctx (cx_cctx ctx)" using q by (simp add: sendq_def)
  define c1 where "c1 = ctx\<lparr>cx_nh := (cx_nh ctx)(a \<mapsto> nq_set_next None n), cx_sendqueue := nq_next n\<rparr>"
  have x: "x = nq_payload n" by (simp add: x_def n(1))
  show ?thesis
  proof (cases "resend x")
    case True
    then have r: "resend (nq_set_next None n)" by (simp add: x)
    obtain nh q as' ph s rec where rt: "dtls_retransmit env c1 (Some a) = Some (c1\<lparr>cx_clock := cx_clock c1 + 1,
        cx_nh := nh, cx_sendqueue := q, cx_ph := ph, cx_written := cx_written c1 @ [(s, rec)]\<rparr>)"
      "netq_chain nh q as'" "node_session (cx_ph c1) (nq_set_next None n) = Some s"
      "netq_abs nh as' = queue_insert (nq_payload (resched (ev_ticks env (cx_clock c1)) (nq_set_next None n)))
        (netq_abs (cx_nh c1) as)"
      "peers_like (cx_ph c1) ph" "is_record rec = Some (length rec)"
      using retransmit_resend [of c1 as a "nq_set_next None n" env] n r v
      by (simp add: c1_def) (elim exE conjE, rule that, simp_all add: c1_def)
    let ?Q = "queue_insert (resched (ev_ticks env (cx_clock ctx)) x) Q1"
    have ab: "netq_abs nh as' = ?Q" using rt(4) n(6) by (simp add: c1_def x)
    have mem: "set ?Q = insert (resched (ev_ticks env (cx_clock ctx)) x) (set Q1)"
      using queue_insert_mset [of "resched (ev_ticks env (cx_clock ctx)) x" Q1]
      by (metis set_mset_add_mset_insert set_mset_mset)
    have "\<forall>y\<in>set ?Q. node_ok ph y"
      unfolding mem using n(8,9) rt(5) peers_like_node_ok by (auto simp: x c1_def)
    moreover define c2 where "c2 = ctx\<lparr>cx_clock := cx_clock ctx + 1, cx_nh := nh, cx_sendqueue := q,
        cx_ph := ph, cx_written := cx_written ctx @ [(s, rec)]\<rparr>"
    ultimately have sq: "sendq c2 as' ?Q"
      using rt(2) ab v queue_insert_sorted [OF n(7)] by (simp add: sendq_def)
    have e: "(case netq_pop_first (cx_nh ctx) (cx_sendqueue ctx) of None \<Rightarrow> None
        | Some (nh, q, _) \<Rightarrow> dtls_retransmit env (ctx\<lparr>cx_nh := nh, cx_sendqueue := q\<rparr>) (Some a)) = Some c2"
      using rt(1) n(4) by (simp add: c1_def c2_def)
    have pl: "peers_like (cx_ph ctx) ph" "node_session (cx_ph ctx) x = Some s"
      using rt(3,5) by (simp_all add: c1_def x)
    show ?thesis
      unfolding if_P [OF True] using e c2_def sq pl rt(6) unfolding n(1) list.sel by blast
  next
    case False
    define c2 where "c2 = ctx\<lparr>cx_nh := (cx_nh ctx)(a := None), cx_sendqueue := nq_next n\<rparr>"
    have "c1\<lparr>cx_nh := netq_node_free (cx_nh c1) (Some a)\<rparr> = c2"
      by (rule dtls_context_t.equality) (simp_all add: c1_def c2_def netq_node_free_def netq_free_node_def)
    moreover have "dtls_retransmit env c1 (Some a) = Some (c1\<lparr>cx_nh := netq_node_free (cx_nh c1) (Some a)\<rparr>)"
      using False by (auto simp: dtls_retransmit_def c1_def x resend_def nq_set_next_def nq_payload_def)
    ultimately have e: "(case netq_pop_first (cx_nh ctx) (cx_sendqueue ctx) of None \<Rightarrow> None
        | Some (nh, q, _) \<Rightarrow> dtls_retransmit env (ctx\<lparr>cx_nh := nh, cx_sendqueue := q\<rparr>) (Some a)) = Some c2"
      using n(4) by (simp add: c1_def)
    have "netq_chain ((cx_nh ctx)(a := None)) (nq_next n) as" "netq_abs ((cx_nh ctx)(a := None)) as = Q1"
      using n(3,5,6) by (auto simp: payloads_def)
    then have "sendq c2 as Q1" using n(7,8) v by (simp add: sendq_def c2_def)
    moreover have "((cx_nh ctx)(a := None)) a = None" by simp
    ultimately show ?thesis
      unfolding if_not_P [OF False] using e c2_def unfolding n(1) list.sel by blast
  qed
qed

lemma check_loop_Some:
  "cx_nh ctx a = Some n \<Longrightarrow> check_loop env ctx now (Some a) all =
    (if nq_t n \<le> now then
       (case (case netq_pop_first (cx_nh ctx) (cx_sendqueue ctx) of None \<Rightarrow> None
          | Some (nh, q, _) \<Rightarrow> dtls_retransmit env (ctx\<lparr>cx_nh := nh, cx_sendqueue := q\<rparr>) (Some a)) of
          None \<Rightarrow> None
        | Some ctx' \<Rightarrow> if all then check_loop env ctx' now (cx_sendqueue ctx') all
                       else Some (ctx', cx_sendqueue ctx'))
     else Some (ctx, Some a))"
  by (subst check_loop.simps) (auto simp: netq_head_def Let_def split: option.splits prod.splits)

lemma sendq_head: "sendq ctx as Q \<Longrightarrow> cx_sendqueue ctx = ptr_of as"
  by (auto simp: sendq_def dest: chain_head)

lemma resched_all_late:
  assumes "clock_ok env" and "now \<le> ev_ticks env k" and "\<forall>x\<in>set Q. node_ok ph x"
    and "y \<in> set (resched_all env k Q)"
  shows "now < nq_t y"
  using assms(2-)
proof (induction Q arbitrary: k)
  case Nil
  then show ?case by simp
next
  case (Cons x Q)
  have "ev_ticks env k \<le> ev_ticks env (k + 1)" using assms(1) by (simp add: clock_ok_def)
  then have "now \<le> ev_ticks env (k + 1)" using Cons.prems(1) by order
  then show ?case
    using Cons.prems Cons.IH [of k] Cons.IH [of "k + 1"] resched_later [OF assms(1) Cons.prems(1), of x ph]
    by (auto split: if_splits)
qed

text \<open>What a polling at the time \<open>now\<close> does to the queue \<open>Q\<close>: afterwards nothing is due; what was
  not due is still queued, what was due and can be resent is rescheduled, the rest is gone; one
  record is written for each message resent, in the order of the queue, to the session of its peer;
  the peers keep everything but their security parameters.\<close>

definition polled ::
  "dtls_env \<Rightarrow> u64 \<Rightarrow> dtls_context_t \<Rightarrow> netq_t list \<Rightarrow> dtls_context_t \<Rightarrow> netq_t list \<Rightarrow> (session_t \<times> bytes) list \<Rightarrow> bool" where
  "polled env now ctx Q ctx' Q' ws \<longleftrightarrow>
     (\<forall>x\<in>set Q'. \<not> due now x) \<and>
     mset Q' = mset (filter (\<lambda>x. \<not> due now x) Q) + mset (resched_all env (cx_clock ctx) (filter (due now) Q)) \<and>
     map (\<lambda>w. Some (fst w)) ws = map (node_session (cx_ph ctx)) (filter resend (filter (due now) Q)) \<and>
     (\<forall>w\<in>set ws. is_record (snd w) = Some (length (snd w))) \<and>
     peers_like (cx_ph ctx) (cx_ph ctx') \<and>
     (\<exists>nh q ph. ctx' = ctx\<lparr>cx_clock := cx_clock ctx + length ws, cx_nh := nh, cx_sendqueue := q,
        cx_ph := ph, cx_written := cx_written ctx @ ws\<rparr>)"

lemma polled_nothing:
  assumes "\<forall>x\<in>set Q. \<not> due now x"
  shows "polled env now ctx Q ctx Q []"
proof -
  have "filter (due now) Q = []" "filter (\<lambda>x. \<not> due now x) Q = Q"
    using assms by (simp_all add: filter_empty_conv)
  moreover have "\<exists>nh q ph. ctx = ctx\<lparr>cx_clock := cx_clock ctx + length [], cx_nh := nh, cx_sendqueue := q,
      cx_ph := ph, cx_written := cx_written ctx @ []\<rparr>"
    by (intro exI [of _ "cx_nh ctx"] exI [of _ "cx_sendqueue ctx"] exI [of _ "cx_ph ctx"]) simp
  ultimately show ?thesis using assms unfolding polled_def by simp
qed

lemma polled_drop:
  assumes p: "polled env now ctx1 Q ctx' Q' ws" and c: "ctx1 = ctx\<lparr>cx_nh := nh, cx_sendqueue := q\<rparr>"
    and d: "due now x" "\<not> resend x"
  shows "polled env now ctx (x # Q) ctx' Q' ws"
proof -
  obtain nh' q' ph where u: "ctx' = ctx1\<lparr>cx_clock := cx_clock ctx1 + length ws, cx_nh := nh', cx_sendqueue := q',
        cx_ph := ph, cx_written := cx_written ctx1 @ ws\<rparr>"
    using p by (auto simp: polled_def)
  have "ctx' = ctx\<lparr>cx_clock := cx_clock ctx + length ws, cx_nh := nh', cx_sendqueue := q',
        cx_ph := ph, cx_written := cx_written ctx @ ws\<rparr>"
    unfolding u c by (rule dtls_context_t.equality) simp_all
  then have "\<exists>nh q ph. ctx' = ctx\<lparr>cx_clock := cx_clock ctx + length ws, cx_nh := nh, cx_sendqueue := q,
        cx_ph := ph, cx_written := cx_written ctx @ ws\<rparr>" by blast
  then show ?thesis using p d unfolding polled_def c by simp
qed

lemma polled_resend:
  assumes p: "polled env now ctx1 (queue_insert y Q) ctx' Q' ws"
    and c: "ctx1 = ctx\<lparr>cx_clock := cx_clock ctx + 1, cx_nh := nh, cx_sendqueue := q, cx_ph := ph,
      cx_written := cx_written ctx @ [w]\<rparr>"
    and d: "due now x" "resend x" and y: "y = resched (ev_ticks env (cx_clock ctx)) x" "\<not> due now y"
    and ph: "peers_like (cx_ph ctx) ph" and Q: "\<forall>x\<in>set Q. node_ok (cx_ph ctx) x"
    and w: "node_session (cx_ph ctx) x = Some (fst w)" "is_record (snd w) = Some (length (snd w))"
  shows "polled env now ctx (x # Q) ctx' Q' (w # ws)"
proof -
  obtain nh' q' ph' where u: "ctx' = ctx1\<lparr>cx_clock := cx_clock ctx1 + length ws, cx_nh := nh', cx_sendqueue := q',
        cx_ph := ph', cx_written := cx_written ctx1 @ ws\<rparr>"
    using p by (auto simp: polled_def)
  have u': "ctx' = ctx\<lparr>cx_clock := cx_clock ctx + length (w # ws), cx_nh := nh', cx_sendqueue := q',
        cx_ph := ph', cx_written := cx_written ctx @ w # ws\<rparr>"
    unfolding u c by simp
  have e: "\<exists>nh q ph. ctx' = ctx\<lparr>cx_clock := cx_clock ctx + length (w # ws), cx_nh := nh, cx_sendqueue := q,
        cx_ph := ph, cx_written := cx_written ctx @ w # ws\<rparr>"
    using u' by blast
  have f: "filter (due now) (queue_insert y Q) = filter (due now) Q"
    by (rule filter_queue_insert) (rule y(2))
  have m: "mset (filter (\<lambda>x. \<not> due now x) (queue_insert y Q)) = add_mset y (mset (filter (\<lambda>x. \<not> due now x) Q))"
    using y(2) by (simp add: mset_filter queue_insert_mset)
  have ses: "map (node_session (cx_ph ctx1)) (filter resend (filter (due now) Q)) =
      map (node_session (cx_ph ctx)) (filter resend (filter (due now) Q))"
    using ph Q unfolding c by (auto simp: peers_like_node_session)
  have "peers_like (cx_ph ctx) (cx_ph ctx')"
    using p ph unfolding polled_def c by (auto intro: peers_like_trans)
  then show ?thesis
    using p d y(1) w unfolding polled_def f m ses by (intro conjI e) (simp_all add: c)
qed

lemma check_loop_polls:
  assumes "sendq ctx as Q" and "clock_ok env" and "now \<le> ev_ticks env (cx_clock ctx)"
  shows "\<exists>ctx' as' Q' ws. check_loop env ctx now (ptr_of as) True = Some (ctx', ptr_of as') \<and>
    sendq ctx' as' Q' \<and> polled env now ctx Q ctx' Q' ws"
  using assms
proof (induction "length (filter (due now) Q)" arbitrary: ctx as Q)
  case 0
  then have nd: "\<forall>x\<in>set Q. \<not> due now x" by (simp add: filter_empty_conv)
  have "check_loop env ctx now (ptr_of as) True = Some (ctx, ptr_of as)"
  proof (cases as)
    case Nil
    then show ?thesis by (simp add: check_loop.simps)
  next
    case (Cons a bs)
    obtain n Q1 where "Q = nq_payload n # Q1" "cx_nh ctx a = Some n"
      using sendq_Cons 0(2) unfolding Cons by blast
    then show ?thesis using nd Cons by (simp add: check_loop_Some due_def)
  qed
  then show ?case using 0(2) polled_nothing [OF nd] by blast
next
  case (Suc k)
  have "Q \<noteq> []" using Suc.hyps(2) by auto
  then obtain a bs where as: "as = a # bs"
    using Suc.prems(1) by (cases as) (auto simp: sendq_def)
  obtain n Q1 where n: "Q = nq_payload n # Q1" "cx_nh ctx a = Some n" "\<forall>x\<in>set Q1. nq_t n \<le> nq_t x \<and> node_ok (cx_ph ctx) x"
      "node_ok (cx_ph ctx) n"
    using sendq_Cons [OF Suc.prems(1) [unfolded as]] by (elim exE conjE) (rule that)
  let ?x = "nq_payload n"
  have d: "due now ?x"
  proof (rule ccontr)
    assume "\<not> due now ?x"
    then have "filter (due now) Q = []"
      using n(1,3) by (auto simp: due_def filter_empty_conv)
    then show False using Suc.hyps(2) by simp
  qed
  then have t: "nq_t n \<le> now" by (simp add: due_def)
  have hq: "hd Q = ?x" "tl Q = Q1" by (simp_all add: n(1))
  note step = check_step [OF Suc.prems(1) [unfolded as] Suc.prems(2,3), unfolded hq]
  show ?case
  proof (cases "resend ?x")
    case True
    let ?y = "resched (ev_ticks env (cx_clock ctx)) ?x"
    obtain nh q ph as1 s rec ctx1 where s1: "(case netq_pop_first (cx_nh ctx) (cx_sendqueue ctx) of None \<Rightarrow> None
          | Some (nh, q, _) \<Rightarrow> dtls_retransmit env (ctx\<lparr>cx_nh := nh, cx_sendqueue := q\<rparr>) (Some a)) = Some ctx1"
        "ctx1 = ctx\<lparr>cx_clock := cx_clock ctx + 1, cx_nh := nh, cx_sendqueue := q, cx_ph := ph,
          cx_written := cx_written ctx @ [(s, rec)]\<rparr>"
        "sendq ctx1 as1 (queue_insert ?y Q1)" "peers_like (cx_ph ctx) ph"
        "node_session (cx_ph ctx) ?x = Some s" "is_record rec = Some (length rec)"
      using step unfolding if_P [OF True] by (elim exE conjE) (rule that)
    have ny: "\<not> due now ?y"
      using resched_later [OF Suc.prems(2,3) True, of "cx_ph ctx"] n(4) by (simp add: due_def not_le)
    have "filter (due now) (queue_insert ?y Q1) = filter (due now) Q1"
      by (rule filter_queue_insert) (rule ny)
    then have k: "k = length (filter (due now) (queue_insert ?y Q1))" using Suc.hyps(2) d n(1) by simp
    have "ev_ticks env (cx_clock ctx) \<le> ev_ticks env (cx_clock ctx + 1)"
      using Suc.prems(2) by (simp add: clock_ok_def)
    then have now': "now \<le> ev_ticks env (cx_clock ctx1)" using Suc.prems(3) s1(2) by simp
    obtain ctx' as' Q' ws where IH: "check_loop env ctx1 now (ptr_of as1) True = Some (ctx', ptr_of as')"
      "sendq ctx' as' Q'" "polled env now ctx1 (queue_insert ?y Q1) ctx' Q' ws"
      using Suc.hyps(1) [OF k s1(3) Suc.prems(2) now'] by blast
    have "polled env now ctx Q ctx' Q' ((s, rec) # ws)"
      unfolding n(1) using n(3) s1(5,6)
      by (intro polled_resend [OF IH(3) s1(2) d True refl ny s1(4)]) simp_all
    moreover have "check_loop env ctx now (ptr_of as) True = Some (ctx', ptr_of as')"
      using IH(1) sendq_head [OF s1(3)] t unfolding as ptr_of_simps check_loop_Some [OF n(2)] s1(1) by simp
    ultimately show ?thesis using IH(2) by blast
  next
    case False
    obtain nh q ctx1 where s1: "(case netq_pop_first (cx_nh ctx) (cx_sendqueue ctx) of None \<Rightarrow> None
          | Some (nh, q, _) \<Rightarrow> dtls_retransmit env (ctx\<lparr>cx_nh := nh, cx_sendqueue := q\<rparr>) (Some a)) = Some ctx1"
        "ctx1 = ctx\<lparr>cx_nh := nh, cx_sendqueue := q\<rparr>" "sendq ctx1 bs Q1"
      using step unfolding if_not_P [OF False] by (elim exE conjE) (rule that)
    have k: "k = length (filter (due now) Q1)" using Suc.hyps(2) d n(1) by simp
    have now': "now \<le> ev_ticks env (cx_clock ctx1)" using Suc.prems(3) s1(2) by simp
    obtain ctx' as' Q' ws where IH: "check_loop env ctx1 now (ptr_of bs) True = Some (ctx', ptr_of as')"
      "sendq ctx' as' Q'" "polled env now ctx1 Q1 ctx' Q' ws"
      using Suc.hyps(1) [OF k s1(3) Suc.prems(2) now'] by blast
    have "polled env now ctx Q ctx' Q' ws"
      unfolding n(1) by (rule polled_drop [OF IH(3) s1(2) d False])
    moreover have "check_loop env ctx now (ptr_of as) True = Some (ctx', ptr_of as')"
      using IH(1) sendq_head [OF s1(3)] t unfolding as ptr_of_simps check_loop_Some [OF n(2)] s1(1) by simp
    ultimately show ?thesis using IH(2) by blast
  qed
qed

lemma check_retransmit_polls:
  assumes "sendq ctx as Q" and "clock_ok env"
  shows "\<exists>ctx' as' Q' ws. sendq ctx' as' Q' \<and>
    dtls_check_retransmit env ctx True = Some (ctx', case Q' of [] \<Rightarrow> 0 | x # _ \<Rightarrow> nq_t x) \<and>
    polled env (ev_ticks env (cx_clock ctx)) (ctx\<lparr>cx_clock := cx_clock ctx + 1\<rparr>) Q ctx' Q' ws"
proof -
  define c1 where "c1 = ctx\<lparr>cx_clock := cx_clock ctx + 1\<rparr>"
  have c1: "sendq c1 as Q" using assms(1) by (auto simp: sendq_def c1_def)
  have le: "ev_ticks env (cx_clock ctx) \<le> ev_ticks env (cx_clock c1)"
    using assms(2) by (simp add: clock_ok_def c1_def)
  obtain ctx' as' Q' ws where l: "check_loop env c1 (ev_ticks env (cx_clock ctx)) (ptr_of as) True = Some (ctx', ptr_of as')"
      "sendq ctx' as' Q'" "polled env (ev_ticks env (cx_clock ctx)) c1 Q ctx' Q' ws"
    using check_loop_polls [OF c1 assms(2) le] by blast
  have h: "netq_head (Some (cx_sendqueue ctx)) = ptr_of as"
    using sendq_head [OF assms(1)] by (simp add: netq_head_def)
  have "dtls_check_retransmit env ctx True = Some (ctx', case Q' of [] \<Rightarrow> 0 | x # _ \<Rightarrow> nq_t x)"
  proof (cases as')
    case Nil
    then have "Q' = []" using l(2) by (simp add: sendq_def)
    then show ?thesis
      using l(1) Nil by (simp add: dtls_check_retransmit_def h ticks_def c1_def)
  next
    case (Cons b bs)
    obtain n Q1 where "Q' = nq_payload n # Q1" "cx_nh ctx' b = Some n"
      using sendq_Cons [OF l(2) [unfolded Cons]] by blast
    then show ?thesis
      using l(1) Cons by (simp add: dtls_check_retransmit_def h ticks_def c1_def)
  qed
  then show ?thesis using l(2,3) unfolding c1_def by blast
qed

subsection \<open>Why retransmission ends\<close>

text \<open>Polls of the queue at times when its first message is due.\<close>

inductive polls :: "dtls_env \<Rightarrow> dtls_context_t \<Rightarrow> nat \<Rightarrow> dtls_context_t \<Rightarrow> bool" for env ctx where
  polls_none: "polls env ctx 0 ctx"
| polls_more: "polls env ctx k ctx' \<Longrightarrow> cx_sendqueue ctx' = Some a \<Longrightarrow> cx_nh ctx' a = Some n \<Longrightarrow>
    nq_t n \<le> ev_ticks env (cx_clock ctx') \<Longrightarrow>
    dtls_check_retransmit env ctx' True = Some (ctx'', next) \<Longrightarrow> polls env ctx (Suc k) ctx''"

text \<open>How often the messages will still be due, and how many of them will be sent.\<close>

definition tries :: "netq_t \<Rightarrow> nat" where
  "tries n = (if resend n then 8 - unat (nq_retransmit_cnt n) else 1)"

definition sends :: "netq_t \<Rightarrow> nat" where
  "sends n = (if resend n then 7 - unat (nq_retransmit_cnt n) else 0)"

lemma tries_resched:
  assumes "resend n"
  shows "Suc (tries (resched now n)) = tries n" and "Suc (sends (resched now n)) = sends n"
proof -
  let ?c = "nq_retransmit_cnt n"
  have c: "unat ?c < 7" using assms by (simp add: resend_def word_less_nat_alt)
  then have u: "unat (?c + 1) = unat ?c + 1" by (simp add: unat_word_ariths)
  have r: "resend (resched now n) \<longleftrightarrow> unat ?c < 6"
    using assms u by (auto simp: resend_def resched_def word_less_nat_alt)
  have "nq_retransmit_cnt (resched now n) = ?c + 1" by (simp add: resched_def)
  then show "Suc (tries (resched now n)) = tries n" "Suc (sends (resched now n)) = sends n"
    using assms c u unfolding tries_def sends_def r by auto
qed

lemma resched_all_sums:
  "sum_list (map tries (resched_all env k D)) + length D = sum_list (map tries D)"
  "sum_list (map sends (resched_all env k D)) + length (filter resend D) = sum_list (map sends D)"
proof (induction D arbitrary: k)
  case (Cons x D)
  { case 1
    then show ?case using Cons(1) [of k] Cons(1) [of "k + 1"] tries_resched(1) [of x "ev_ticks env k"]
      by (auto simp: tries_def [of x])
  next
    case 2
    then show ?case using Cons(2) [of k] Cons(2) [of "k + 1"] tries_resched(2) [of x "ev_ticks env k"]
      by (auto simp: sends_def [of x]) }
qed simp_all

lemma sum_list_split: "sum_list (map f (filter P Q)) + sum_list (map f (filter (\<lambda>x. \<not> P x) Q)) = (sum_list (map f Q) :: nat)"
  by (induction Q) auto

lemma polled_sums:
  assumes "polled env now ctx Q ctx' Q' ws"
  shows "sum_list (map tries Q') + length (filter (due now) Q) = sum_list (map tries Q)"
    and "sum_list (map sends Q') + length ws = sum_list (map sends Q)"
proof -
  let ?D = "filter (due now) Q" and ?k = "cx_clock ctx"
  have m: "mset Q' = mset (filter (\<lambda>x. \<not> due now x) Q) + mset (resched_all env ?k ?D)"
    using assms by (simp add: polled_def)
  have s: "sum_list (map f Q') = sum_list (map f (filter (\<lambda>x. \<not> due now x) Q)) +
      sum_list (map f (resched_all env ?k ?D))" for f :: "netq_t \<Rightarrow> nat"
    using arg_cong [OF m, of "\<lambda>M. sum_mset (image_mset f M)"] by (simp add: sum_mset_sum_list [symmetric])
  have l: "length ws = length (filter resend ?D)"
    using assms map_eq_imp_length_eq unfolding polled_def by blast
  show "sum_list (map tries Q') + length ?D = sum_list (map tries Q)"
    using resched_all_sums(1) [of env ?k ?D] s [of tries] sum_list_split [of tries "due now" Q] by simp
  show "sum_list (map sends Q') + length ws = sum_list (map sends Q)"
    using resched_all_sums(2) [of env ?k ?D] s [of sends] sum_list_split [of sends "due now" Q] l by simp
qed

lemma polls_sums:
  assumes "polls env ctx k ctx'" and "sendq ctx as Q" and "clock_ok env"
  shows "\<exists>as' Q'. sendq ctx' as' Q' \<and> k + sum_list (map tries Q') \<le> sum_list (map tries Q) \<and>
    length (cx_written ctx') + sum_list (map sends Q') = length (cx_written ctx) + sum_list (map sends Q)"
  using assms(1)
proof (induction rule: polls.induct)
  case polls_none
  then show ?case using assms(2) by (auto intro!: exI [of _ as] exI [of _ Q])
next
  case (polls_more k ctx' a n ctx'' "next")
  obtain as' Q' where IH: "sendq ctx' as' Q'" "k + sum_list (map tries Q') \<le> sum_list (map tries Q)"
    "length (cx_written ctx') + sum_list (map sends Q') = length (cx_written ctx) + sum_list (map sends Q)"
    using polls_more.IH by blast
  obtain as'' Q'' ws where p: "sendq ctx'' as'' Q''"
    "polled env (ev_ticks env (cx_clock ctx')) (ctx'\<lparr>cx_clock := cx_clock ctx' + 1\<rparr>) Q' ctx'' Q'' ws"
    using check_retransmit_polls [OF IH(1) assms(3)] polls_more.hyps(5) by auto
  have w: "length (cx_written ctx'') = length (cx_written ctx') + length ws"
    using p(2) by (auto simp: polled_def)
  have "as' \<noteq> []" using sendq_head [OF IH(1)] polls_more.hyps(2) by auto
  then obtain b bs where b: "as' = b # bs" by (cases as') auto
  then have "b = a" using sendq_head [OF IH(1)] polls_more.hyps(2) by simp
  then obtain Q1 where "Q' = nq_payload n # Q1"
    using sendq_Cons [OF IH(1) [unfolded b]] polls_more.hyps(3) by auto
  then have "0 < length (filter (due (ev_ticks env (cx_clock ctx'))) Q')"
    using polls_more.hyps(4) by (simp add: due_def)
  then show ?case
    using p(1) polled_sums [OF p(2)] IH(2,3) w by (intro exI [of _ as''] exI [of _ Q'']) linarith
qed

subsection \<open>The history of a message\<close>

text \<open>The message \<open>n\<close> after it has been sent again at the times \<open>ts\<close>: it is due again once the last delay,
  doubled with every retransmission, has passed.\<close>

definition after_sending :: "netq_t \<Rightarrow> u64 list \<Rightarrow> netq_t" where
  "after_sending n ts = n\<lparr>nq_retransmit_cnt := nq_retransmit_cnt n + word_of_nat (length ts),
     nq_t := (if ts = [] then nq_t n
       else last ts + ucast (nq_timeout n * 2 ^ (unat (nq_retransmit_cnt n) + length ts)))\<rparr>"

text \<open>It has not been sent before it was due, and not more often than its counter allows; once it has left
  the queue it has been sent as often as that.\<close>

definition sent_again :: "netq_t \<Rightarrow> u64 list \<Rightarrow> bool \<Rightarrow> bool" where
  "sent_again n ts queued \<longleftrightarrow> (\<forall>i<length ts. nq_t (after_sending n (take i ts)) \<le> ts ! i) \<and>
     length ts \<le> sends n \<and> (\<not> queued \<longrightarrow> length ts = sends n)"

text \<open>\<open>queue_history T ph Q H Q' ws\<close>: \<open>H\<close> tells of every message of the queue \<open>Q\<close> when it was sent again, at
  times of \<open>T\<close>, and whether it is still queued. \<open>Q'\<close> is the queue that remains, and \<open>ws\<close> are the records that were written.\<close>

type_synonym message_history = "(netq_t \<times> u64 list \<times> bool) list"

definition still_queued :: "message_history \<Rightarrow> netq_t list" where
  "still_queued H = map (\<lambda>(n, ts, _). after_sending n ts) (filter (\<lambda>(_, _, queued). queued) H)"

definition resent_to :: "peer_heap \<Rightarrow> message_history \<Rightarrow> session_t option list" where
  "resent_to ph H = concat (map (\<lambda>(n, ts, _). replicate (length ts) (node_session ph n)) H)"

definition queue_history :: "u64 set \<Rightarrow> peer_heap \<Rightarrow> netq_t list \<Rightarrow> message_history \<Rightarrow> netq_t list \<Rightarrow>
   (session_t \<times> bytes) list \<Rightarrow> bool" where
  "queue_history T ph Q H Q' ws \<longleftrightarrow> map fst H = Q \<and>
     (\<forall>(n, ts, queued)\<in>set H. sent_again n ts queued \<and> set ts \<subseteq> T) \<and>
     mset Q' = mset (still_queued H) \<and> mset (map (\<lambda>w. Some (fst w)) ws) = mset (resent_to ph H)"

lemma history_simps [simp]:
  "still_queued [] = []" "still_queued ((n, ts, True) # H) = after_sending n ts # still_queued H"
  "still_queued ((n, ts, False) # H) = still_queued H" "still_queued (H @ H') = still_queued H @ still_queued H'"
  "resent_to ph [] = []" "resent_to ph ((n, ts, b) # H) = replicate (length ts) (node_session ph n) @ resent_to ph H"
  "resent_to ph (H @ H') = resent_to ph H @ resent_to ph H'"
  by (simp_all add: still_queued_def resent_to_def)

lemma after_nil [simp]: "after_sending n [] = n"
  by (simp add: after_sending_def)

definition readings :: "dtls_env \<Rightarrow> nat \<Rightarrow> nat \<Rightarrow> u64 set" where
  "readings env k l = ev_ticks env ` {k..<l}"

lemma history_mono: "queue_history T ph Q H Q' ws \<Longrightarrow> T \<subseteq> T' \<Longrightarrow> queue_history T' ph Q H Q' ws"
  by (fastforce simp: queue_history_def)

lemma sends_le: "sends n \<le> 7"
  by (simp add: sends_def)

lemma after_count:
  assumes "resend n" and "length ts \<le> sends n"
  shows "unat (nq_retransmit_cnt n + word_of_nat (length ts)) = unat (nq_retransmit_cnt n) + length ts"
proof -
  have "unat (nq_retransmit_cnt n) + length ts \<le> 7" using assms by (auto simp: sends_def resend_def word_less_nat_alt)
  then show ?thesis by (simp add: unat_word_ariths unat_of_nat)
qed

lemma after_resend:
  assumes "length ts \<le> sends n"
  shows "resend (after_sending n ts) \<longleftrightarrow> length ts < sends n"
proof (cases "resend n")
  case True
  then show ?thesis
    using after_count [OF True assms] by (auto simp: resend_def after_sending_def sends_def word_less_nat_alt)
next
  case False
  then have "ts = []" using assms by (simp add: sends_def)
  then show ?thesis using False by (simp add: sends_def)
qed

lemma resched_after:
  assumes "length ts < sends n"
  shows "resched now (after_sending n ts) = after_sending n (ts @ [now])"
proof -
  have r: "resend n" using assms by (auto simp: sends_def split: if_splits)
  have c: "unat (nq_retransmit_cnt n + word_of_nat (length ts) + 1) = unat (nq_retransmit_cnt n) + length ts + 1"
    using after_count [OF r, of "ts @ [now]"] assms by (simp add: ac_simps)
  show ?thesis
    using c by (simp add: resched_def after_sending_def push_bit_eq_mult ac_simps)
qed

lemma sent_again_step:
  assumes "sent_again n ts True" and "resend (after_sending n ts)" and "nq_t (after_sending n ts) \<le> now"
  shows "sent_again n (ts @ [now]) True" and "resched now (after_sending n ts) = after_sending n (ts @ [now])"
proof -
  have l: "length ts < sends n" using assms(1,2) after_resend by (simp add: sent_again_def)
  then show "resched now (after_sending n ts) = after_sending n (ts @ [now])" by (rule resched_after)
  have "nq_t (after_sending n (take i (ts @ [now]))) \<le> (ts @ [now]) ! i" if "i < length (ts @ [now])" for i
    using that assms(1,3) by (cases "i = length ts") (auto simp: sent_again_def nth_append)
  then show "sent_again n (ts @ [now]) True" using l by (simp add: sent_again_def)
qed

lemma node_session_after [simp]: "node_session ph (after_sending n ts) = node_session ph n"
  by (simp add: node_session_def after_sending_def)

text \<open>One message that is due, somewhere in the queue.\<close>

lemma history_due:
  assumes "queue_history T ph Q H Q1 ws" and "mset Q1 = add_mset x R" and "nq_t x \<le> now" and "resend x \<longrightarrow> now \<in> T"
    and "\<forall>n\<in>set Q. node_session ph' n = node_session ph n"
  shows "\<exists>H'. if resend x
    then \<forall>Q2 w. mset Q2 = add_mset (resched now x) R \<longrightarrow> Some (fst w) = node_session ph' x \<longrightarrow>
      queue_history T ph Q H' Q2 (ws @ [w])
    else \<forall>Q2. mset Q2 = R \<longrightarrow> queue_history T ph Q H' Q2 ws"
proof -
  have "x \<in># mset (still_queued H)"
    using assms(1,2) by (metis queue_history_def union_single_eq_member)
  then obtain n ts where n: "(n, ts, True) \<in> set H" "x = after_sending n ts" by (auto simp: still_queued_def)
  obtain H1 H2 where H: "H = H1 @ (n, ts, True) # H2" using split_list [OF n(1)] by blast
  have s: "sent_again n ts True" "set ts \<subseteq> T" using assms(1) n(1) by (auto simp: queue_history_def)
  have nQ: "node_session ph' n = node_session ph n"
    using assms(1,5) n(1) by (force simp: queue_history_def)
  have h: "map fst (H1 @ (n, ts, True) # H2) = Q" "\<forall>(n, ts, queued)\<in>set (H1 @ H2). sent_again n ts queued \<and> set ts \<subseteq> T"
    "mset (map (\<lambda>w. Some (fst w)) ws) = mset (resent_to ph (H1 @ H2)) + mset (replicate (length ts) (node_session ph n))"
    using assms(1) unfolding queue_history_def H by simp_all
  have R: "R = mset (still_queued (H1 @ H2))" using assms(1,2) unfolding queue_history_def H n(2) by simp
  show ?thesis
  proof (cases "resend x")
    case True
    note st = sent_again_step [OF s(1) True [unfolded n(2)] assms(3) [unfolded n(2)]]
    have "queue_history T ph Q (H1 @ (n, ts @ [now], True) # H2) Q2 (ws @ [w])"
      if "mset Q2 = add_mset (resched now x) R" "Some (fst w) = node_session ph' x" for Q2 w
    proof -
      have "mset Q2 = mset (still_queued (H1 @ (n, ts @ [now], True) # H2))" using that(1) st(2) by (simp add: R n(2))
      moreover have "mset (map (\<lambda>w. Some (fst w)) (ws @ [w])) = mset (resent_to ph (H1 @ (n, ts @ [now], True) # H2))"
        using h(3) that(2) nQ by (simp add: n(2) ac_simps)
      ultimately show ?thesis using h(1,2) st(1) s(2) assms(4) True by (simp add: queue_history_def)
    qed
    then show ?thesis using True by (intro exI [of _ "H1 @ (n, ts @ [now], True) # H2"]) simp
  next
    case False
    have "sent_again n ts False" using s(1) False after_resend [of ts n] by (auto simp: sent_again_def n(2))
    then have "queue_history T ph Q (H1 @ (n, ts, False) # H2) Q2 ws" if "mset Q2 = R" for Q2
      using h that s(2) by (simp add: queue_history_def R ac_simps)
    then show ?thesis using False by (intro exI [of _ "H1 @ (n, ts, False) # H2"]) simp
  qed
qed

text \<open>All messages that are due.\<close>

lemma history_resched:
  assumes "queue_history T ph Q H Q1 ws" and "mset Q1 = mset D + R" and "\<forall>x\<in>set D. nq_t x \<le> ev_ticks env k"
    and "clock_ok env" and "\<forall>n\<in>set Q. node_session ph' n = node_session ph n"
    and "map (\<lambda>w. Some (fst w)) vs = map (node_session ph') (filter resend D)" and "mset Q2 = R + mset (resched_all env k D)"
    and "readings env k (k + length vs) \<subseteq> T"
  shows "\<exists>H'. queue_history T ph Q H' Q2 (ws @ vs)"
  using assms(1-3,6,7,8)
proof (induction D arbitrary: H Q1 ws vs k R)
  case Nil
  then have "vs = []" "mset Q2 = mset Q1" by simp_all
  then show ?case using Nil(1) by (auto simp: queue_history_def)
next
  case (Cons x D)
  have x: "nq_t x \<le> ev_ticks env k" using Cons.prems(3) by simp
  have D: "\<forall>x\<in>set D. nq_t x \<le> ev_ticks env (k + 1)" "\<forall>x\<in>set D. nq_t x \<le> ev_ticks env k"
  proof -
    have "ev_ticks env k \<le> ev_ticks env (k + 1)" using assms(4) by (simp add: clock_ok_def)
    then show "\<forall>x\<in>set D. nq_t x \<le> ev_ticks env (k + 1)" using Cons.prems(3) by (meson list.set_intros(2) order.trans)
  qed (use Cons.prems(3) in simp)
  have q1: "mset Q1 = add_mset x (mset D + R)" using Cons.prems(2) by simp
  have t: "resend x \<longrightarrow> ev_ticks env k \<in> T"
    using Cons.prems(4,6) by (cases vs) (auto simp: readings_def)
  obtain H' where H': "if resend x
    then \<forall>Q2 w. mset Q2 = add_mset (resched (ev_ticks env k) x) (mset D + R) \<longrightarrow> Some (fst w) = node_session ph' x \<longrightarrow>
      queue_history T ph Q H' Q2 (ws @ [w])
    else \<forall>Q2. mset Q2 = mset D + R \<longrightarrow> queue_history T ph Q H' Q2 ws"
    using history_due [OF Cons.prems(1) q1 x _ assms(5)] t by blast
  obtain L where L: "mset L = R" using ex_mset by blast
  show ?case
  proof (cases "resend x")
    case True
    obtain w vs' where w: "vs = w # vs'" "Some (fst w) = node_session ph' x"
      "map (\<lambda>w. Some (fst w)) vs' = map (node_session ph') (filter resend D)"
      using Cons.prems(4) True by auto
    have h: "queue_history T ph Q H' (resched (ev_ticks env k) x # D @ L) (ws @ [w])"
      using H' [unfolded if_P [OF True], rule_format, OF _ w(2)] L by simp
    have "{k + 1..<k + 1 + length vs'} \<subseteq> {k..<k + length vs}" by (simp add: w(1))
    then have T: "readings env (k + 1) (k + 1 + length vs') \<subseteq> T"
      using Cons.prems(6) unfolding readings_def by (meson image_mono subset_trans)
    have "\<exists>H'. queue_history T ph Q H' Q2 ((ws @ [w]) @ vs')"
    proof (rule Cons.IH [OF h _ D(1) w(3) _ T])
      show "mset (resched (ev_ticks env k) x # D @ L) = mset D + add_mset (resched (ev_ticks env k) x) R"
        using L by simp
      show "mset Q2 = add_mset (resched (ev_ticks env k) x) R + mset (resched_all env (k + 1) D)"
        using Cons.prems(5) True by simp
    qed
    then show ?thesis using w(1) by simp
  next
    case False
    have "queue_history T ph Q H' (D @ L) ws" using H' False L by simp
    from Cons.IH [OF this _ D(2), of R vs] show ?thesis using Cons.prems(4-6) False L by simp
  qed
qed

text \<open>Any number of polls.\<close>

lemma polls_history:
  assumes "polls env ctx k ctx'" and "sendq ctx as Q" and "clock_ok env"
  shows "\<exists>as' Q' H ws. sendq ctx' as' Q' \<and> peers_like (cx_ph ctx) (cx_ph ctx') \<and>
    cx_written ctx' = cx_written ctx @ ws \<and> cx_clock ctx \<le> cx_clock ctx' \<and>
    queue_history (readings env (cx_clock ctx) (cx_clock ctx')) (cx_ph ctx) Q H Q' ws"
  using assms(1)
proof (induction rule: polls.induct)
  case polls_none
  have "queue_history (readings env (cx_clock ctx) (cx_clock ctx)) (cx_ph ctx) Q (map (\<lambda>n. (n, [], True)) Q) Q []"
    by (auto simp: queue_history_def sent_again_def comp_def still_queued_def resent_to_def filter_map)
  then show ?case using assms(2) by (intro exI [of _ as] exI [of _ Q] exI conjI) simp_all
next
  case (polls_more k ctx' a n ctx'' "next")
  obtain as' Q' H ws where IH: "sendq ctx' as' Q'" "peers_like (cx_ph ctx) (cx_ph ctx')"
    "cx_written ctx' = cx_written ctx @ ws" "queue_history (readings env (cx_clock ctx) (cx_clock ctx')) (cx_ph ctx) Q H Q' ws"
    "cx_clock ctx \<le> cx_clock ctx'" using polls_more.IH by blast
  let ?now = "ev_ticks env (cx_clock ctx')"
  obtain as'' Q'' vs where p: "sendq ctx'' as'' Q''"
    "polled env ?now (ctx'\<lparr>cx_clock := cx_clock ctx' + 1\<rparr>) Q' ctx'' Q'' vs"
    using check_retransmit_polls [OF IH(1) assms(3)] polls_more.hyps(5) by auto
  have w: "cx_written ctx'' = cx_written ctx' @ vs" "peers_like (cx_ph ctx') (cx_ph ctx'')"
    "map (\<lambda>w. Some (fst w)) vs = map (node_session (cx_ph ctx')) (filter resend (filter (due ?now) Q'))"
    "mset Q'' = mset (filter (\<lambda>x. \<not> due ?now x) Q') + mset (resched_all env (cx_clock ctx' + 1) (filter (due ?now) Q'))"
    using p(2) by (auto simp: polled_def)
  have d: "\<forall>x\<in>set (filter (due ?now) Q'). nq_t x \<le> ev_ticks env (cx_clock ctx' + 1)"
  proof -
    have "?now \<le> ev_ticks env (cx_clock ctx' + 1)" using assms(3) by (simp add: clock_ok_def)
    then show ?thesis by (auto simp: due_def)
  qed
  have ns: "\<forall>n\<in>set Q. node_session (cx_ph ctx') n = node_session (cx_ph ctx) n"
    using assms(2) peers_like_node_session [OF IH(2)] by (simp add: sendq_def)
  have q: "mset Q' = mset (filter (due ?now) Q') + mset (filter (\<lambda>x. \<not> due ?now x) Q')" by simp
  let ?T = "readings env (cx_clock ctx) (cx_clock ctx'')"
  have c: "cx_clock ctx'' = cx_clock ctx' + 1 + length vs" using p(2) by (auto simp: polled_def)
  have T: "readings env (cx_clock ctx) (cx_clock ctx') \<subseteq> ?T"
    "readings env (cx_clock ctx' + 1) (cx_clock ctx' + 1 + length vs) \<subseteq> ?T"
    using IH(5) unfolding readings_def c by (intro image_mono; simp)+
  obtain H' where "queue_history ?T (cx_ph ctx) Q H' Q'' (ws @ vs)"
    using history_resched [OF history_mono [OF IH(4) T(1)] q d assms(3) ns w(3,4) T(2)] by blast
  moreover have "peers_like (cx_ph ctx) (cx_ph ctx'')" by (rule peers_like_trans [OF IH(2) w(2)])
  moreover have "cx_written ctx'' = cx_written ctx @ (ws @ vs)" using w(1) IH(3) by simp
  moreover have "cx_clock ctx \<le> cx_clock ctx''" using IH(5) c by simp
  ultimately show ?case using p(1) by blast
qed

subsection \<open>Stopping\<close>

definition to_session :: "peer_heap \<Rightarrow> session_t \<Rightarrow> netq_t \<Rightarrow> bool" where
  "to_session ph s n \<longleftrightarrow> (\<exists>p. Option.bind (nq_peer n) ph = Some p \<and> dtls_session_equals (pr_session p) s)"

lemma to_session_payload: "to_session ph s (nq_payload n) = to_session ph s n"
  by (simp add: to_session_def nq_payload_def)

lemma same_payload_data:
  assumes "map_option nq_payload (h' x) = map_option nq_payload (h x)" and "h x \<noteq> None"
  shows "to_session ph s (the (h' x)) = to_session ph s (the (h x))"
    and "nq_peer (the (h' x)) = nq_peer (the (h x))" and "nq_payload (the (h' x)) = nq_payload (the (h x))"
proof -
  obtain n n' where n: "h x = Some n" "h' x = Some n'" "nq_payload n' = nq_payload n"
    using assms by (cases "h x"; cases "h' x") auto
  show "nq_payload (the (h' x)) = nq_payload (the (h x))" using n by simp
  show "to_session ph s (the (h' x)) = to_session ph s (the (h x))"
    using n to_session_payload [of ph s n] to_session_payload [of ph s n'] by simp
  have "nq_peer (nq_payload m) = nq_peer m" for m by (simp add: nq_payload_def)
  from this [of n] this [of n'] show "nq_peer (the (h' x)) = nq_peer (the (h x))" using n by simp
qed

lemma netq_remove_at:
  assumes "netq_chain h q (ps @ a # as)"
  shows "\<exists>h' q'. netq_remove h q (Some a) = Some (h', q') \<and> netq_chain (h'(a := None)) q' (ps @ as) \<and>
    (\<forall>x. x \<noteq> a \<longrightarrow> map_option nq_payload (h' x) = map_option nq_payload (h x))"
proof -
  have d: "a \<notin> set ps" "a \<notin> set as" using chain_distinct [OF assms] by auto
  have r: "remove1 a (ps @ a # as) = ps @ as" using d by (simp add: remove1_append)
  obtain h' q' where "netq_remove h q (Some a) = Some (h', q')" "netq_chain h' q' (ps @ as)" "nq.same_data h h'"
    using netq_remove_abs [OF assms, of a] unfolding r by blast
  then show ?thesis using d by (auto simp: nq.same_data_def)
qed

lemma stop_loop_removes:
  assumes "netq_chain (cx_nh ctx) (cx_sendqueue ctx) (ps @ as)"
    and "\<forall>a\<in>set as. Option.bind (nq_peer (the (cx_nh ctx a))) (cx_ph ctx) \<noteq> None"
  shows "\<exists>nh q. stop_loop ctx s (ptr_of as) = Some (ctx\<lparr>cx_nh := nh, cx_sendqueue := q\<rparr>) \<and>
    netq_chain nh q (ps @ filter (\<lambda>a. \<not> to_session (cx_ph ctx) s (the (cx_nh ctx a))) as) \<and>
    (\<forall>x. if x \<in> set as \<and> to_session (cx_ph ctx) s (the (cx_nh ctx x)) then nh x = None
         else map_option nq_payload (nh x) = map_option nq_payload (cx_nh ctx x))"
  using assms
proof (induction as arbitrary: ctx ps)
  case Nil
  then show ?case
    by (intro exI [of _ "cx_nh ctx"] exI [of _ "cx_sendqueue ctx"]) (simp add: stop_loop.simps)
next
  case (Cons a as)
  obtain n where n: "cx_nh ctx a = Some n" using chain_mapped [OF Cons.prems(1), of a] by auto
  have da: "a \<notin> set as" using chain_distinct [OF Cons.prems(1)] by simp
  have nx: "nq_next n = ptr_of as"
    using chain_suffix [OF Cons.prems(1)] n by (auto dest: chain_head)
  obtain p where p: "Option.bind (nq_peer n) (cx_ph ctx) = Some p"
    using Cons.prems(2) n by fastforce
  have ts: "to_session (cx_ph ctx) s n \<longleftrightarrow> dtls_session_equals (pr_session p) s"
    using p by (simp add: to_session_def)
  show ?case
  proof (cases "to_session (cx_ph ctx) s n")
    case False
    have "netq_chain (cx_nh ctx) (cx_sendqueue ctx) ((ps @ [a]) @ as)" using Cons.prems(1) by simp
    with Cons.IH [OF this] Cons.prems(2)
    obtain nh q where IH: "stop_loop ctx s (ptr_of as) = Some (ctx\<lparr>cx_nh := nh, cx_sendqueue := q\<rparr>)"
      "netq_chain nh q ((ps @ [a]) @ filter (\<lambda>x. \<not> to_session (cx_ph ctx) s (the (cx_nh ctx x))) as)"
      "\<forall>x. if x \<in> set as \<and> to_session (cx_ph ctx) s (the (cx_nh ctx x)) then nh x = None
         else map_option nq_payload (nh x) = map_option nq_payload (cx_nh ctx x)" by auto
    have "stop_loop ctx s (ptr_of (a # as)) = Some (ctx\<lparr>cx_nh := nh, cx_sendqueue := q\<rparr>)"
      using IH(1) n p False ts nx by (subst stop_loop.simps) simp
    moreover have "if x \<in> set (a # as) \<and> to_session (cx_ph ctx) s (the (cx_nh ctx x)) then nh x = None
         else map_option nq_payload (nh x) = map_option nq_payload (cx_nh ctx x)" for x
      using IH(3) [rule_format, of x] n False da by (auto split: if_splits)
    ultimately show ?thesis using IH(2) n False by (intro exI [of _ nh] exI [of _ q]) auto
  next
    case True
    obtain h1 q1 where r: "netq_remove (cx_nh ctx) (cx_sendqueue ctx) (Some a) = Some (h1, q1)"
      "netq_chain (h1(a := None)) q1 (ps @ as)"
      "\<forall>x. x \<noteq> a \<longrightarrow> map_option nq_payload (h1 x) = map_option nq_payload (cx_nh ctx x)"
      using netq_remove_at [OF Cons.prems(1)] by blast
    define c1 where "c1 = ctx\<lparr>cx_nh := h1(a := None), cx_sendqueue := q1\<rparr>"
    have sm: "map_option nq_payload (cx_nh c1 x) = map_option nq_payload (cx_nh ctx x)" "cx_nh ctx x \<noteq> None"
      if "x \<in> set as" for x
      using that da r(3) chain_mapped [OF Cons.prems(1), of x] by (auto simp: c1_def)
    note sd = same_payload_data [where h' = "cx_nh c1" and h = "cx_nh ctx", OF sm]
    have c: "netq_chain (cx_nh c1) (cx_sendqueue c1) (ps @ as)" using r(2) by (simp add: c1_def)
    have pe: "\<forall>x\<in>set as. Option.bind (nq_peer (the (cx_nh c1 x))) (cx_ph c1) \<noteq> None"
      using Cons.prems(2) sd(2) by (simp add: c1_def)
    have f: "filter (\<lambda>x. \<not> to_session (cx_ph c1) s (the (cx_nh c1 x))) as =
        filter (\<lambda>x. \<not> to_session (cx_ph ctx) s (the (cx_nh ctx x))) as"
      using sd(1) by (intro filter_cong) (simp_all add: c1_def)
    obtain nh q where IH: "stop_loop c1 s (ptr_of as) = Some (c1\<lparr>cx_nh := nh, cx_sendqueue := q\<rparr>)"
      "netq_chain nh q (ps @ filter (\<lambda>x. \<not> to_session (cx_ph ctx) s (the (cx_nh ctx x))) as)"
      "\<forall>x. if x \<in> set as \<and> to_session (cx_ph c1) s (the (cx_nh c1 x)) then nh x = None
         else map_option nq_payload (nh x) = map_option nq_payload (cx_nh c1 x)"
      using Cons.IH [OF c pe] unfolding f by blast
    have "c1\<lparr>cx_nh := nh, cx_sendqueue := q\<rparr> = ctx\<lparr>cx_nh := nh, cx_sendqueue := q\<rparr>"
      by (simp add: c1_def)
    then have st: "stop_loop ctx s (ptr_of (a # as)) = Some (ctx\<lparr>cx_nh := nh, cx_sendqueue := q\<rparr>)"
      using IH(1) n p True ts nx r(1)
      by (subst stop_loop.simps) (simp add: c1_def netq_node_free_def netq_free_node_def)
    have "if x \<in> set (a # as) \<and> to_session (cx_ph ctx) s (the (cx_nh ctx x)) then nh x = None
         else map_option nq_payload (nh x) = map_option nq_payload (cx_nh ctx x)" for x
      using IH(3) [rule_format, of x] sd(1) [of x] r(3) n True da
      by (cases "x = a"; cases "x \<in> set as") (auto simp: c1_def split: if_splits)
    then show ?thesis using st IH(2) n True by (intro exI [of _ nh] exI [of _ q]) auto
  qed
qed

subsection \<open>Properties\<close>

text \<open>C32: A polling of the retransmission queue (\<open>dtls_check_retransmit\<close> with \<open>all\<close> set) touches no
  invalid memory and returns. Of the messages that are due, those with fewer than seven
  retransmissions are sent again, one record each, in the order of the queue and to the session of
  their peer, and are queued again for a time after now with the next doubling of their delay; the
  others are freed. The other messages stay as they are, the queue stays sorted, nothing that is due
  remains in it, and the reported time is that of its first message, or 0 if it is empty.\<close>

theorem check_retransmit_correct:
  assumes "sendq ctx as Q" and "clock_ok env"
  shows "\<exists>ctx' as' Q' ws. dtls_check_retransmit env ctx True =
      Some (ctx', case Q' of [] \<Rightarrow> 0 | x # _ \<Rightarrow> nq_t x) \<and>
    sendq ctx' as' Q' \<and>
    polled env (ev_ticks env (cx_clock ctx)) (ctx\<lparr>cx_clock := cx_clock ctx + 1\<rparr>) Q ctx' Q' ws"
  using check_retransmit_polls [OF assms] by blast

text \<open>A context with one handshake message waiting, and a clock that stands.\<close>

definition rt_env :: dtls_env where
  "rt_env = env_example\<lparr>ev_ticks := (\<lambda>n. 5000)\<rparr>"

definition rt_node :: netq_t where
  "rt_node = netq_zero\<lparr>nq_t := 5, nq_timeout := 2000, nq_peer := Some 1, nq_type := 22, nq_length := 12\<rparr>"

definition rt_ctx :: dtls_context_t where
  "rt_ctx = (ctx_example [1 \<mapsto> peer_with_sec])\<lparr>cx_nh := [7 \<mapsto> rt_node], cx_sendqueue := Some 7\<rparr>"

lemma rt_hyps: "sendq rt_ctx [7] [rt_node]" "clock_ok rt_env"
  by (simp_all add: sendq_def clock_ok_def rt_ctx_def rt_env_def rt_node_def netq_zero_def nq_payload_def
      queue_sorted_def node_ok_def sec_ok_def ctx_example_def peer_with_sec_def peer_example_def
      dtls_new_peer_def dtls_security_new_def sec_example_def
      valid_cctx_def aes_ctx_def)

lemma check_retransmit_correct_witness:
  "\<exists>ctx' next w. dtls_check_retransmit rt_env rt_ctx True = Some (ctx', next) \<and> next = 9000 \<and>
    cx_written ctx' = [w] \<and> fst w = pr_session peer_with_sec"
proof -
  obtain ctx' as' Q' ws where r: "dtls_check_retransmit rt_env rt_ctx True =
      Some (ctx', case Q' of [] \<Rightarrow> 0 | x # _ \<Rightarrow> nq_t x)"
    "polled rt_env (ev_ticks rt_env (cx_clock rt_ctx)) (rt_ctx\<lparr>cx_clock := cx_clock rt_ctx + 1\<rparr>) [rt_node] ctx' Q' ws"
    using check_retransmit_correct [OF rt_hyps] by blast
  have "mset Q' = mset [resched 5000 rt_node]"
    using r(2) by (simp add: polled_def due_def rt_env_def rt_node_def netq_zero_def resend_def)
  then have "Q' = [resched 5000 rt_node]" by (simp only: mset_single_iff_right mset.simps) simp
  moreover have "nq_t (resched 5000 rt_node) = 9000"
    by (simp add: resched_def rt_node_def netq_zero_def)
  moreover have "map (\<lambda>w. Some (fst w)) ws = [Some (pr_session peer_with_sec)]"
    using r(2) by (simp add: polled_def due_def rt_env_def rt_node_def netq_zero_def resend_def node_session_def
        rt_ctx_def ctx_example_def)
  moreover have "cx_written ctx' = ws"
    using r(2) by (auto simp: polled_def rt_ctx_def ctx_example_def)
  ultimately show ?thesis using r(1) by (cases ws) auto
qed

text \<open>C33: Retransmission ends: for a clock that does not run backwards, the queue can be polled with
  a message due at most as often as its messages have tries left (at most eight each); every such
  polling is possible, and after the last one the queue is empty. The history of every single message of
  the queue is known: it is sent again at most seven times, at readings of the clock during these polls, never before it is due, and after it was sent it is due
  again when its timeout, doubled for each time it has been sent, has passed (\<open>after_sending\<close>); a message that is no longer
  queued has been sent exactly as often as its counter had retransmissions left. The messages that are left in the queue
  are those not dropped, with the counter and the time of their history, and one record has been
  written for each time a message was sent, to the session of its peer.\<close>

theorem retransmission_ends:
  assumes "polls env ctx k ctx'" and "sendq ctx as Q" and "clock_ok env"
  shows "k \<le> sum_list (map tries Q) \<and> sum_list (map tries Q) \<le> 8 * length Q \<and>
    dtls_check_retransmit env ctx' True \<noteq> None \<and>
    (k = sum_list (map tries Q) \<longrightarrow> cx_sendqueue ctx' = None) \<and>
    length (cx_written ctx') \<le> length (cx_written ctx) + sum_list (map sends Q) \<and>
    (cx_sendqueue ctx' = None \<longrightarrow> length (cx_written ctx') = length (cx_written ctx) + sum_list (map sends Q)) \<and>
    (\<exists>as' Q' H ws. sendq ctx' as' Q' \<and> cx_written ctx' = cx_written ctx @ ws \<and>
      queue_history (readings env (cx_clock ctx) (cx_clock ctx')) (cx_ph ctx) Q H Q' ws \<and>
      (\<forall>(n, ts, queued)\<in>set H. length ts \<le> 7))"
proof -
  obtain as' Q' where p: "sendq ctx' as' Q'" "k + sum_list (map tries Q') \<le> sum_list (map tries Q)"
    "length (cx_written ctx') + sum_list (map sends Q') = length (cx_written ctx) + sum_list (map sends Q)"
    using polls_sums [OF assms] by blast
  have t: "tries x \<le> 8" "0 < tries x" for x by (auto simp: tries_def resend_def word_less_nat_alt)
  have "sum_list (map tries Q) \<le> sum_list (map (\<lambda>_. 8) Q)" by (rule sum_list_mono) (rule t(1))
  then have b: "sum_list (map tries Q) \<le> 8 * length Q" by (simp add: sum_list_triv mult.commute)
  have q: "cx_sendqueue ctx' = None \<longleftrightarrow> Q' = []"
    using sendq_head [OF p(1)] p(1) by (cases as') (auto simp: sendq_def)
  have "sum_list (map tries Q') = 0 \<Longrightarrow> Q' = []"
  proof (cases Q')
    case (Cons a l)
    then show "sum_list (map tries Q') = 0 \<Longrightarrow> Q' = []" using t(2) [of a] by simp
  qed simp
  then have e: "k = sum_list (map tries Q) \<longrightarrow> cx_sendqueue ctx' = None" using p(2) q by auto
  obtain as'' Q'' H ws where h: "sendq ctx' as'' Q''" "cx_written ctx' = cx_written ctx @ ws"
    "queue_history (readings env (cx_clock ctx) (cx_clock ctx')) (cx_ph ctx) Q H Q'' ws"
    using polls_history [OF assms] by blast
  have "length ts \<le> 7" if "(n, ts, queued) \<in> set H" for n ts queued
  proof -
    have "sent_again n ts queued" using h(3) that by (auto simp: queue_history_def)
    then show ?thesis using sends_le [of n] by (simp add: sent_again_def)
  qed
  then have "\<forall>(n, ts, queued)\<in>set H. length ts \<le> 7" by blast
  then have "\<exists>as' Q' H ws. sendq ctx' as' Q' \<and> cx_written ctx' = cx_written ctx @ ws \<and>
      queue_history (readings env (cx_clock ctx) (cx_clock ctx')) (cx_ph ctx) Q H Q' ws \<and>
      (\<forall>(n, ts, queued)\<in>set H. length ts \<le> 7)" using h by blast
  moreover have "dtls_check_retransmit env ctx' True \<noteq> None" using check_retransmit_polls [OF p(1) assms(3)] by auto
  ultimately show ?thesis using p(2,3) b q e by auto
qed

lemma retransmission_ends_witness:
  "\<exists>ctx' as' Q' ts queued. polls rt_env rt_ctx 1 ctx' \<and> dtls_check_retransmit rt_env ctx' True \<noteq> None \<and>
    length (cx_written ctx') \<le> 7 \<and> sendq ctx' as' Q' \<and>
    queue_history (readings rt_env (cx_clock rt_ctx) (cx_clock ctx')) (cx_ph rt_ctx) [rt_node] [(rt_node, ts, queued)] Q' (cx_written ctx')"
proof -
  obtain ctx' "next" where r: "dtls_check_retransmit rt_env rt_ctx True = Some (ctx', next)"
    using check_retransmit_polls [OF rt_hyps] by blast
  have "polls rt_env rt_ctx (Suc 0) ctx'"
    by (rule polls_more [OF polls_none _ _ _ r, of 7 rt_node])
      (simp_all add: rt_ctx_def rt_node_def rt_env_def)
  then have p: "polls rt_env rt_ctx 1 ctx'" by simp
  have n: "sum_list (map sends [rt_node]) = 7" "cx_written rt_ctx = []"
    by (simp_all add: sends_def resend_def rt_node_def netq_zero_def rt_ctx_def ctx_example_def)
  obtain as' Q' H where h: "sendq ctx' as' Q'"
    "queue_history (readings rt_env (cx_clock rt_ctx) (cx_clock ctx')) (cx_ph rt_ctx) [rt_node] H Q' (cx_written ctx')"
    using retransmission_ends [OF p rt_hyps] n(2) by auto
  then obtain ts queued where "H = [(rt_node, ts, queued)]" by (auto simp: queue_history_def)
  moreover have "dtls_check_retransmit rt_env ctx' True \<noteq> None" "length (cx_written ctx') \<le> 7"
    using retransmission_ends [OF p rt_hyps] n by auto
  ultimately show ?thesis using p h by blast
qed

text \<open>\<open>dtls_stop_retransmission\<close> returns for every queue whose messages have live peers, and
  removes exactly the messages whose peer has a session equal to that of the given peer: the others
  keep their order, contents and times, the removed ones are freed, and nothing else changes.\<close>

lemma stop_retransmission_correct:
  assumes "sendq ctx as Q" and "\<forall>n\<in>set Q. nq_peer n \<noteq> None" and "cx_ph ctx a = Some p"
  defines "m \<equiv> to_session (cx_ph ctx) (pr_session p)"
  shows "\<exists>nh q as'. dtls_stop_retransmission ctx (Some a) = Some (ctx\<lparr>cx_nh := nh, cx_sendqueue := q\<rparr>) \<and>
    sendq (ctx\<lparr>cx_nh := nh, cx_sendqueue := q\<rparr>) as' (filter (\<lambda>n. \<not> m n) Q) \<and>
    as' = filter (\<lambda>x. \<not> m (the (cx_nh ctx x))) as \<and> (\<forall>x\<in>set as - set as'. nh x = None)"
proof -
  have c: "netq_chain (cx_nh ctx) (cx_sendqueue ctx) ([] @ as)" and Q: "Q = netq_abs (cx_nh ctx) as"
    using assms(1) by (simp_all add: sendq_def)
  have pe: "\<forall>x\<in>set as. Option.bind (nq_peer (the (cx_nh ctx x))) (cx_ph ctx) \<noteq> None"
  proof
    fix x assume x: "x \<in> set as"
    then obtain n where n: "cx_nh ctx x = Some n" using chain_mapped [OF c, of x] by auto
    then have "nq_payload n \<in> set Q" using x Q by (force simp: payloads_def)
    then have "nq_peer (nq_payload n) \<noteq> None" "node_ok (cx_ph ctx) (nq_payload n)"
      using assms(1,2) by (auto simp: sendq_def)
    then have "nq_peer n \<noteq> None" "node_ok (cx_ph ctx) n"
      unfolding node_ok_payload by (simp_all add: nq_payload_def)
    then show "Option.bind (nq_peer (the (cx_nh ctx x))) (cx_ph ctx) \<noteq> None"
      using n by (auto simp: node_ok_def)
  qed
  let ?as = "filter (\<lambda>x. \<not> m (the (cx_nh ctx x))) as"
  obtain nh q where r: "stop_loop ctx (pr_session p) (ptr_of as) = Some (ctx\<lparr>cx_nh := nh, cx_sendqueue := q\<rparr>)"
    "netq_chain nh q ?as"
    "\<forall>x. if x \<in> set as \<and> m (the (cx_nh ctx x)) then nh x = None
         else map_option nq_payload (nh x) = map_option nq_payload (cx_nh ctx x)"
    using stop_loop_removes [OF c pe, of "pr_session p"] unfolding m_def by auto
  have "netq_abs nh ?as = netq_abs (cx_nh ctx) ?as"
    using r(3) chain_mapped [OF c] same_payload_data(3) [of nh _ "cx_nh ctx"]
    unfolding payloads_def by (intro map_cong) (auto split: if_splits)
  also have "\<dots> = filter (\<lambda>n. \<not> m n) Q"
    unfolding Q payloads_def m_def filter_map comp_def to_session_payload ..
  finally have ab: "netq_abs nh ?as = filter (\<lambda>n. \<not> m n) Q" .
  have "queue_sorted (filter (\<lambda>n. \<not> m n) Q)"
  proof -
    have "queue_sorted Q" using assms(1) unfolding sendq_def by blast
    then show ?thesis unfolding queue_sorted_def by (rule sorted_filter)
  qed
  then have "sendq (ctx\<lparr>cx_nh := nh, cx_sendqueue := q\<rparr>) ?as (filter (\<lambda>n. \<not> m n) Q)"
    using r(2) ab assms(1) by (simp add: sendq_def)
  moreover have "dtls_stop_retransmission ctx (Some a) = Some (ctx\<lparr>cx_nh := nh, cx_sendqueue := q\<rparr>)"
    using r(1) sendq_head [OF assms(1)] assms(3) by (simp add: dtls_stop_retransmission_def netq_head_def)
  moreover have "\<forall>x\<in>set as - set ?as. nh x = None" using r(3) by auto
  ultimately show ?thesis by blast
qed

lemma stop_retransmission_correct_witness:
  "\<exists>nh q. dtls_stop_retransmission rt_ctx (Some 1) = Some (rt_ctx\<lparr>cx_nh := nh, cx_sendqueue := q\<rparr>)"
proof -
  have "\<forall>n\<in>set [rt_node]. nq_peer n \<noteq> None"
    "cx_ph rt_ctx 1 = Some peer_with_sec"
    by (simp_all add: rt_node_def rt_ctx_def ctx_example_def)
  from stop_retransmission_correct [OF rt_hyps(1) this] show ?thesis by blast
qed

end
