(* ===== verification/ServerFlight.thy ===== *)
theory ServerFlight
  imports Retransmit Keys
begin

text \<open>
  The server's messages of \<open>dtls.c\<close>: the cookie check with its HelloVerifyRequest, the ServerHello
  with the TESLA nonce, certificates and key exchanges, and the check of the client's signature.
  A message that is parsed is the list of its bytes from the handshake header on; a pointer into
  it is an offset, and a read outside of it is undefined.
\<close>

subsection \<open>Handshake parameters\<close>

definition INTERNAL_ERROR :: int where
  "INTERNAL_ERROR = dtls_alert_fatal_create DTLS_ALERT_INTERNAL_ERROR"

definition DECODE_ERROR :: int where
  "DECODE_ERROR = dtls_alert_fatal_create DTLS_ALERT_DECODE_ERROR"

lemma error_values: "INTERNAL_ERROR = -592" "DECODE_ERROR = -562"
  by (simp_all add: INTERNAL_ERROR_def DECODE_ERROR_def alert_defs)

text \<open>The test \<open>!peer || !peer->handshake_params\<close> most of the functions start with.\<close>

definition with_hs ::
  "dtls_context_t \<Rightarrow> ptr \<Rightarrow> (nat \<Rightarrow> dtls_peer_t \<Rightarrow> dtls_handshake_parameters_t \<Rightarrow> (int \<times> dtls_context_t) option) \<Rightarrow>
   (int \<times> dtls_context_t) option" where
  "with_hs ctx peer f =
     (case peer of
        None \<Rightarrow> Some (INTERNAL_ERROR, ctx)
      | Some a \<Rightarrow> do {
          p \<leftarrow> cx_ph ctx a;
          (case pr_handshake p of None \<Rightarrow> Some (INTERNAL_ERROR, ctx) | Some h \<Rightarrow> f a p h) })"

subsection \<open>The cookie check\<close>

text \<open>0 means that the cookie is good; when the cookie cannot be read, the error of the step before
  it, 0, is returned.\<close>

definition dtls_verify_peer ::
  "dtls_env \<Rightarrow> dtls_context_t \<Rightarrow> ptr \<Rightarrow> session_t \<Rightarrow> dtls_state_t \<Rightarrow> bytes \<Rightarrow> (int \<times> dtls_context_t) option" where
  "dtls_verify_peer env ctx peer session state data = do {
     (err, mycookie) \<leftarrow> dtls_create_cookie (cx_cookie_secret ctx) (ev_address env session) data;
     if err < 0 then Some (err, ctx)
     else do {
       (len, cookie) \<leftarrow> dtls_get_cookie data;
       if len < 0 then Some (err, ctx)
       else do {
         same \<leftarrow> (if len = 16 then map_option (\<lambda>c. c = mycookie) (rd_n data cookie 16) else Some False);
         if same then Some (0, ctx)
         else dtls_send_handshake_msg_hash env ctx
                (if state = DTLS_STATE_CONNECTED then peer else None) session 3
                (Some (dtls_int_to_uint16 DTLS_VERSION @ dtls_int_to_uint8 16 @ mycookie)) False } } }"

subsection \<open>Signature elements\<close>

definition dtls_add_ecdsa_signature_elem :: "u32 list \<Rightarrow> u32 list \<Rightarrow> bytes option" where
  "dtls_add_ecdsa_signature_elem point_r point_s = do {
     (len_r, r) \<leftarrow> dtls_ec_key_from_uint32_asn1 point_r 32;
     (len_s, s) \<leftarrow> dtls_ec_key_from_uint32_asn1 point_s 32;
     Some (dtls_int_to_uint8 4 @ dtls_int_to_uint8 3 @
           dtls_int_to_uint16 (word_of_nat (len_r + len_s + 2 + 2 + 2)) @
           dtls_int_to_uint8 0x30 @ dtls_int_to_uint8 (word_of_nat (len_r + len_s + 2 + 2)) @
           dtls_int_to_uint8 0x02 @ dtls_int_to_uint8 (word_of_nat len_r) @ r @
           dtls_int_to_uint8 0x02 @ dtls_int_to_uint8 (word_of_nat len_s) @ s) }"

text \<open>The results are the return value and the offsets of the last 32 bytes of the two integers,
  which may lie before the integers.\<close>

definition dtls_check_ecdsa_signature_elem :: "bytes \<Rightarrow> nat \<Rightarrow> u64 \<Rightarrow> (int \<times> int \<times> int) option" where
  "dtls_check_ecdsa_signature_elem msg p data_length = do {
     hash \<leftarrow> dtls_uint8_to_int (drop p msg);
     if hash \<noteq> 4 then Some (HS_ERROR, 0, 0)
     else do {
       alg \<leftarrow> dtls_uint8_to_int (drop (p + 1) msg);
       if alg \<noteq> 3 then Some (HS_ERROR, 0, 0)
       else do {
         n \<leftarrow> dtls_uint16_to_int (drop (p + 2) msg);
         if data_length - 2 < ucast n then Some (DECODE_ERROR, 0, 0)
         else do {
           t \<leftarrow> dtls_uint8_to_int (drop (p + 4) msg);
           if t \<noteq> 0x30 then Some (DECODE_ERROR, 0, 0)
           else do {
             n \<leftarrow> dtls_uint8_to_int (drop (p + 5) msg);
             if data_length - 5 < ucast n then Some (DECODE_ERROR, 0, 0)
             else do {
               t \<leftarrow> dtls_uint8_to_int (drop (p + 6) msg);
               if t \<noteq> 0x02 then Some (DECODE_ERROR, 0, 0)
               else do {
                 i \<leftarrow> dtls_uint8_to_int (drop (p + 7) msg);
                 let r = int (p + 8) + uint i - 32;
                 let q = p + 8 + unat i;
                 t \<leftarrow> dtls_uint8_to_int (drop q msg);
                 if t \<noteq> 0x02 then Some (DECODE_ERROR, 0, 0)
                 else do {
                   i \<leftarrow> dtls_uint8_to_int (drop (q + 1) msg);
                   let s = int (q + 2) + uint i - 32;
                   Some (int (q + 2 + unat i - p), r, s) } } } } } } } }"

definition rd_at :: "bytes \<Rightarrow> int \<Rightarrow> nat \<Rightarrow> bytes option" where
  "rd_at msg off n = (if off < 0 then None else rd_n msg (nat off) n)"

text \<open>The cipher suite is asserted. The length that is passed on still counts the handshake header.\<close>

definition check_client_certificate_verify ::
  "dtls_env \<Rightarrow> dtls_context_t \<Rightarrow> ptr \<Rightarrow> bytes \<Rightarrow> (int \<times> dtls_context_t) option" where
  "check_client_certificate_verify env ctx peer data =
     with_hs ctx peer (\<lambda>a p h.
       if \<not> is_tls_ecdhe_ecdsa_with_aes_128_ccm_8 (hp_cipher h) then None
       else if length data < 12 + 74 then Some (DECODE_ERROR, ctx)
       else do {
         (ret, r, s) \<leftarrow> dtls_check_ecdsa_signature_elem data 12 (word_of_nat (length data));
         if ret < 0 then Some (ret, ctx)
         else do {
           hs \<leftarrow> copy_hs_hash a ctx;
           let (sha256hash, _, _) = dtls_hash_finalize hs;
           result_r \<leftarrow> rd_at data r 32;
           result_s \<leftarrow> rd_at data s 32;
           ret \<leftarrow> dtls_ecdsa_verify_sig_hash (ec_other_pub_x (hp_ecdsa h)) (ec_other_pub_y (hp_ecdsa h)) 32
                 sha256hash result_r result_s;
           Some (if ret < 0 then HS_ERROR else 0, ctx) } })"

subsection \<open>ServerHello\<close>

text \<open>The nonce of the TESLA request goes behind the extensions.\<close>

definition dtls_send_server_hello :: "dtls_env \<Rightarrow> dtls_context_t \<Rightarrow> ptr \<Rightarrow> (int \<times> dtls_context_t) option" where
  "dtls_send_server_hello env ctx peer =
     with_hs ctx peer (\<lambda>a p h. do {
       let ecdsa = is_tls_ecdhe_ecdsa_with_aes_128_ccm_8 (hp_cipher h);
       let (now, ctx) = ticks env ctx;
       let (r, ctx) = fill_random env 28 ctx;
       let server = dtls_int_to_uint32 (ucast (now div 1000)) @ r;
       ctx \<leftarrow> put_hs a (Some (set_server_random server h)) ctx;
       suite \<leftarrow> (if hp_cipher h \<noteq> TLS_NULL_WITH_NULL_NULL then
                  (if hp_compression h = 0
                   then Some (dtls_int_to_uint16 (hp_cipher h) @ [TLS_COMPRESSION_NULL]) else None)
                else Some []);
       let ext = (if ecdsa then
                    dtls_int_to_uint16 16 @
                    dtls_int_to_uint16 19 @ dtls_int_to_uint16 1 @ dtls_int_to_uint8 2 @
                    dtls_int_to_uint16 20 @ dtls_int_to_uint16 1 @ dtls_int_to_uint8 2 @
                    dtls_int_to_uint16 11 @ dtls_int_to_uint16 2 @ dtls_int_to_uint8 1 @ dtls_int_to_uint8 0
                  else []);
       let (nonce, ctx) = fill_random env 32 ctx;
       let ctx = ctx\<lparr>cx_treq_nonce := nonce\<rparr>;
       dtls_send_handshake_msg env ctx peer 2
         (Some (dtls_int_to_uint16 DTLS_VERSION @ server @ [0] @ suite @ ext @ nonce)) })"

subsection \<open>Certificates and key exchange\<close>

record dtls_ecdsa_key_t =
  ek_priv_key :: bytes
  ek_pub_key_x :: bytes
  ek_pub_key_y :: bytes

definition cert_asn1_header :: bytes where
  "cert_asn1_header =
     [0x30, 0x59, 0x30, 0x13, 0x06, 0x07, 0x2A, 0x86, 0x48, 0xCE, 0x3D, 0x02, 0x01,
      0x06, 0x08, 0x2A, 0x86, 0x48, 0xCE, 0x3D, 0x03, 0x01, 0x07, 0x03, 0x42, 0x00, 0x04]"

definition dtls_send_certificate_ecdsa ::
  "dtls_env \<Rightarrow> dtls_context_t \<Rightarrow> ptr \<Rightarrow> dtls_ecdsa_key_t \<Rightarrow> (int \<times> dtls_context_t) option" where
  "dtls_send_certificate_ecdsa env ctx peer key = do {
     x \<leftarrow> rd_n (ek_pub_key_x key) 0 32;
     y \<leftarrow> rd_n (ek_pub_key_y key) 0 32;
     dtls_send_handshake_msg env ctx peer 11
       (Some (dtls_int_to_uint24 91 @ cert_asn1_header @ x @ y)) }"

text \<open>The public part of an ephemeral key: named curve secp256r1, an uncompressed point.\<close>

definition dtls_send_server_key_exchange_ecdh ::
  "dtls_env \<Rightarrow> dtls_context_t \<Rightarrow> ptr \<Rightarrow> dtls_ecdsa_key_t \<Rightarrow> (int \<times> dtls_context_t) option" where
  "dtls_send_server_key_exchange_ecdh env ctx peer key =
     with_hs ctx peer (\<lambda>a p h. do {
       (own, x, y, pos) \<leftarrow> dtls_ecdsa_generate_key (ev_random env) (cx_rnd ctx) 32;
       let ctx = ctx\<lparr>cx_rnd := pos\<rparr>;
       let h = h\<lparr>hp_ecdsa := (hp_ecdsa h)\<lparr>ec_own_eph_priv := own\<rparr>\<rparr>;
       ctx \<leftarrow> put_hs a (Some h) ctx;
       let key_params = dtls_int_to_uint8 3 @ dtls_int_to_uint16 23 @ dtls_int_to_uint8 65 @ dtls_int_to_uint8 4 @ x @ y;
       (r, s, pos) \<leftarrow> dtls_ecdsa_create_sig (ev_random env) (cx_rnd ctx) (ek_priv_key key) 32
                        (hp_client_random h) (hp_server_random h) key_params (ev_point_r env) (ev_point_s env);
       let ctx = ctx\<lparr>cx_rnd := pos\<rparr>;
       sig \<leftarrow> dtls_add_ecdsa_signature_elem r s;
       dtls_send_handshake_msg env ctx peer 12 (Some (key_params @ sig)) })"

definition dtls_send_server_key_exchange_psk ::
  "dtls_env \<Rightarrow> dtls_context_t \<Rightarrow> ptr \<Rightarrow> bytes \<Rightarrow> (int \<times> dtls_context_t) option" where
  "dtls_send_server_key_exchange_psk env ctx peer psk_hint =
     (if length psk_hint > 32 then Some (INTERNAL_ERROR, ctx)
      else dtls_send_handshake_msg env ctx peer 12
             (Some (dtls_int_to_uint16 (word_of_nat (length psk_hint)) @ psk_hint)))"

definition dtls_send_server_certificate_request ::
  "dtls_env \<Rightarrow> dtls_context_t \<Rightarrow> ptr \<Rightarrow> (int \<times> dtls_context_t) option" where
  "dtls_send_server_certificate_request env ctx peer =
     dtls_send_handshake_msg env ctx peer 13
       (Some (dtls_int_to_uint8 1 @ dtls_int_to_uint8 64 @ dtls_int_to_uint16 2 @
              dtls_int_to_uint8 4 @ dtls_int_to_uint8 3 @ dtls_int_to_uint16 0))"

definition dtls_send_server_hello_done :: "dtls_env \<Rightarrow> dtls_context_t \<Rightarrow> ptr \<Rightarrow> (int \<times> dtls_context_t) option" where
  "dtls_send_server_hello_done env ctx peer = dtls_send_handshake_msg env ctx peer 14 None"

text \<open>The part for certificates is commented out in the code.\<close>

definition dtls_send_server_hello_msgs :: "dtls_env \<Rightarrow> dtls_context_t \<Rightarrow> ptr \<Rightarrow> (int \<times> dtls_context_t) option" where
  "dtls_send_server_hello_msgs env ctx peer = do {
     (res, ctx) \<leftarrow> dtls_send_server_hello env ctx peer;
     if res < 0 then Some (res, ctx)
     else with_hs ctx peer (\<lambda>a p h. do {
       (res, ctx) \<leftarrow>
         (if is_tls_psk_with_aes_128_ccm_8 (hp_cipher h) then
            (let (len, hint) = get_psk_info env (pr_session p) 0 [] 32 in
             if len < 0 then Some (len, ctx)
             else if nat len > length hint then None
             else if len > 0 then
               map_option (\<lambda>(res, ctx). (min res 0, ctx))
                 (dtls_send_server_key_exchange_psk env ctx peer (take (nat len) hint))
             else Some (0, ctx))
          else Some (0, ctx));
       if res < 0 then Some (res, ctx)
       else do {
         (res, ctx) \<leftarrow> dtls_send_server_hello_done env ctx peer;
         Some (if res < 0 then res else 0, ctx) } }) }"

subsection \<open>Signatures survive the transport\<close>

text \<open>A number whose encoding has 32 or 33 bytes: no zero words, and at least 23 bits in the most
  significant word.\<close>

definition full_size :: "u32 list \<Rightarrow> bool" where
  "full_size ws \<longleftrightarrow> length ws = 8 \<and> 0 \<notin> set ws \<and> last ws AND 0xFF800000 \<noteq> 0"

lemma asn1_full_size:
  assumes "full_size ws"
  shows "\<exists>z. dtls_ec_key_from_uint32_asn1 ws 32 = Some (length z + 32, z @ octets ws) \<and> length z \<le> 1"
proof -
  obtain w vs where r: "rev ws = w # vs" using assms by (cases "rev ws") (auto simp: full_size_def)
  have ws: "ws = rev vs @ [w]" using r by (metis rev_rev_ident rev.simps(2))
  have w: "w \<noteq> 0" "0 \<notin> set vs" "w AND 0xFF800000 \<noteq> 0"
    using assms unfolding full_size_def ws by auto
  let ?z = "if w AND 0x80000000 \<noteq> 0 then [0] else []"
  have l: "length ws = 8" using assms by (simp add: full_size_def)
  have "asn1_words True (rev ws) = asn1_word w @ asn1_words False vs"
    unfolding r using w(1) by (rule asn1_words_first)
  also have "\<dots> = ?z @ octets ws"
    using w asn1_words_rest [OF w(2)] by (simp add: asn1_word_def r int_to_uint32_be)
  finally have "asn1_words True (map (\<lambda>i. ws ! i) (rev [0..<8])) = ?z @ octets ws"
    using from_words_rev [of "\<lambda>x. x" ws] by (simp add: l)
  moreover have "length (octets ws) = 32"
    using l by (simp add: length_concat comp_def int_to_uint32_be sum_list_triv)
  ultimately show ?thesis
    using l by (intro exI [of _ ?z]) (simp add: dtls_ec_key_from_uint32_asn1_def Let_def)
qed

text \<open>The element with the two encoded integers \<open>R\<close> and \<open>S\<close>, and what the check makes of it.\<close>

definition sig_elem :: "u8 \<Rightarrow> u8 \<Rightarrow> bytes \<Rightarrow> bytes \<Rightarrow> bytes" where
  "sig_elem lr ls R S =
     dtls_int_to_uint8 4 @ dtls_int_to_uint8 3 @ dtls_int_to_uint16 (word_of_nat (length R + length S + 2 + 2 + 2)) @
     dtls_int_to_uint8 0x30 @ dtls_int_to_uint8 (word_of_nat (length R + length S + 2 + 2)) @
     dtls_int_to_uint8 0x02 @ dtls_int_to_uint8 lr @ R @ dtls_int_to_uint8 0x02 @ dtls_int_to_uint8 ls @ S"

lemma rd_at_mid:
  assumes "msg = a @ b @ c" and "off = int (length a)" and "n = length b"
  shows "rd_at msg off n = Some b"
  using assms by (simp add: rd_at_def rd_n_def)

lemma drop_past: "drop (length pre + k) (pre @ xs) = drop k xs"
  by simp

lemma check_sig_elem:
  fixes data_length :: u64
  assumes R: "length R = 32 \<or> length R = 33" and S: "length S = 32 \<or> length S = 33"
    and l: "128 \<le> data_length"
  shows "dtls_check_ecdsa_signature_elem
      (pre @ sig_elem (word_of_nat (length R)) (word_of_nat (length S)) R S @ suf) (length pre) data_length =
    Some (10 + int (length R) + int (length S), int (length pre) + int (length R) - 24,
      int (length pre) + int (length R) + int (length S) - 22)"
proof -
  have d: "\<not> data_length - 2 < ucast n" "\<not> data_length - 5 < ucast b" if "n \<le> 72" "b \<le> 70" for n :: u16 and b :: u8
  proof -
    have "unat data_length \<ge> 128" using l by (simp add: word_le_nat_alt)
    moreover have "unat n \<le> 72" "unat b \<le> 70" using that by (simp_all add: word_le_nat_alt)
    moreover have "unat (data_length - 2) = unat data_length - 2" "unat (data_length - 5) = unat data_length - 5"
      using calculation by (simp_all add: unat_sub word_le_nat_alt)
    moreover have "unat (ucast n :: u64) = unat n" "unat (ucast b :: u64) = unat b"
      using calculation by (simp_all add: unsigned_ucast_eq take_bit_nat_eq_self_iff)
    ultimately show "\<not> data_length - 2 < ucast n" "\<not> data_length - 5 < ucast b"
      by (simp_all add: word_less_nat_alt)
  qed
  define lr ls n b where "lr = (word_of_nat (length R) :: u8)" and "ls = (word_of_nat (length S) :: u8)"
    and "n = (word_of_nat (length R + length S + 6) :: u16)" and "b = (word_of_nat (length R + length S + 4) :: u8)"
  have v: "unat lr = length R" "unat ls = length S" "n \<le> 72" "b \<le> 70"
    using R S by (auto simp: lr_def ls_def n_def b_def)
  define h l where "h = (ucast (drop_bit 8 n AND 255) :: u8)" and "l = (ucast (n AND 255) :: u8)"
  have hl: "dtls_int_to_uint16 n = [h, l]" by (simp add: dtls_int_to_uint16_def h_def l_def)
  define xs where "xs = R @ 2 # ls # S @ suf"
  have m: "pre @ sig_elem lr ls R S @ suf = pre @ 4 # 3 # h # l # 0x30 # b # 2 # lr # xs" (is "_ = ?m")
    using hl by (simp add: sig_elem_def xs_def dtls_int_to_uint8_def n_def b_def add.commute add.left_commute)
  have r: "dtls_uint8_to_int (drop (length pre + k) ?m) =
      rd (4 # 3 # h # l # 0x30 # b # 2 # lr # xs) k" for k
    by (simp add: dtls_uint8_to_int_def rd_def)
  have r0: "dtls_uint8_to_int (drop (length pre) ?m) = Some 4"
    "dtls_uint8_to_int (drop (length pre + 1) ?m) = Some 3"
    "dtls_uint8_to_int (drop (length pre + 4) ?m) = Some 0x30"
    "dtls_uint8_to_int (drop (length pre + 5) ?m) = Some b"
    "dtls_uint8_to_int (drop (length pre + 6) ?m) = Some 2"
    "dtls_uint8_to_int (drop (length pre + 7) ?m) = Some lr"
    using r [of 0] r [of 1] r [of 4] r [of 5] r [of 6] r [of 7] by (simp_all add: rd_def)
  have r2: "dtls_uint16_to_int (drop (length pre + 2) ?m) = Some n"
    using uint16_roundtrip [of n "0x30 # b # 2 # lr # xs"] hl by simp
  have r8: "dtls_uint8_to_int (drop (length pre + 8 + length R) ?m) = Some 2"
    "dtls_uint8_to_int (drop (length pre + 8 + length R + 1) ?m) = Some ls"
    using r [of "8 + length R"] r [of "8 + length R + 1"] by (simp_all add: rd_def xs_def nth_append add.assoc)
  show ?thesis
    unfolding lr_def [symmetric] ls_def [symmetric] m dtls_check_ecdsa_signature_elem_def r0 r2 Let_def bind.bind_lunit
    by (simp only: v r8 d [OF v(3) v(4)] bind.bind_lunit simp_thms if_False)
      (simp add: uint_nat v)
qed

text \<open>The signature element survives the transport: whatever precedes and follows it in the
  message, \<open>dtls_check_ecdsa_signature_elem\<close> accepts what \<open>dtls_add_ecdsa_signature_elem\<close> wrote,
  returns its length, and points at the 32 octets of the two numbers, with and without the zero
  byte the encoding may put in front. This needs numbers of full size: for a number with a zero
  word, or one that fits in fewer than 32 bytes, the offsets point somewhere else.\<close>

lemma signature_elem_roundtrip:
  assumes "full_size r" and "full_size s" and "128 \<le> data_length"
  shows "\<exists>e ro so. dtls_add_ecdsa_signature_elem r s = Some e \<and> length e \<le> 76 \<and>
    dtls_check_ecdsa_signature_elem (pre @ e @ suf) (length pre) data_length = Some (int (length e), ro, so) \<and>
    rd_at (pre @ e @ suf) ro 32 = Some (octets r) \<and> rd_at (pre @ e @ suf) so 32 = Some (octets s)"
proof -
  obtain y z where y: "dtls_ec_key_from_uint32_asn1 r 32 = Some (length y + 32, y @ octets r)" "length y \<le> 1"
    and z: "dtls_ec_key_from_uint32_asn1 s 32 = Some (length z + 32, z @ octets s)" "length z \<le> 1"
    using asn1_full_size [OF assms(1)] asn1_full_size [OF assms(2)] by blast
  have lo: "length (octets r) = 32" "length (octets s) = 32"
    using assms by (simp_all add: full_size_def length_concat comp_def int_to_uint32_be sum_list_triv)
  define R where "R = y @ octets r"
  define S where "S = z @ octets s"
  have R: "length R = 32 + length y" "drop (length y) R = octets r"
    and S: "length S = 32 + length z" "drop (length z) S = octets s"
    using lo by (simp_all add: R_def S_def)
  obtain e where e: "dtls_add_ecdsa_signature_elem r s = Some e"
    and elem: "e = sig_elem (word_of_nat (length R)) (word_of_nat (length S)) R S"
    using y(1) z(1) by (simp add: dtls_add_ecdsa_signature_elem_def sig_elem_def R_def S_def lo add.commute)
  have c: "length R = 32 \<or> length R = 33" "length S = 32 \<or> length S = 33"
    using y(2) z(2) R(1) S(1) by linarith+
  have len: "length e = 10 + length R + length S"
    by (simp add: elem sig_elem_def dtls_int_to_uint8_def dtls_int_to_uint16_def)
  have ck: "dtls_check_ecdsa_signature_elem (pre @ e @ suf) (length pre) data_length =
      Some (int (length e), int (length pre + 8 + length y), int (length pre + 10 + length R + length z))"
    using check_sig_elem [OF c assms(3), of pre suf] R(1) S(1) unfolding len unfolding elem by simp
  let ?hd = "\<lambda>l. dtls_int_to_uint8 4 @ dtls_int_to_uint8 3 @
      dtls_int_to_uint16 (word_of_nat (length R + length S + 2 + 2 + 2)) @
      dtls_int_to_uint8 0x30 @ dtls_int_to_uint8 (word_of_nat (length R + length S + 2 + 2)) @
      dtls_int_to_uint8 0x02 @ dtls_int_to_uint8 l"
  let ?mid = "dtls_int_to_uint8 0x02 @ dtls_int_to_uint8 (word_of_nat (length S)) @ z"
  have "rd_at (pre @ e @ suf) (int (length pre + 8 + length y)) 32 = Some (octets r)"
  proof (rule rd_at_mid)
    show "pre @ e @ suf = (pre @ ?hd (word_of_nat (length R)) @ y) @ octets r @ ?mid @ octets s @ suf"
      unfolding elem sig_elem_def R_def S_def by simp
  qed (simp_all add: lo dtls_int_to_uint8_def dtls_int_to_uint16_def)
  moreover have "rd_at (pre @ e @ suf) (int (length pre + 10 + length R + length z)) 32 = Some (octets s)"
  proof (rule rd_at_mid)
    show "pre @ e @ suf = (pre @ ?hd (word_of_nat (length R)) @ R @ ?mid) @ octets s @ suf"
      unfolding elem sig_elem_def S_def by simp
  qed (simp_all add: lo dtls_int_to_uint8_def dtls_int_to_uint16_def)
  moreover have "length e \<le> 76" using c len by linarith
  ultimately show ?thesis using e ck by blast
qed

lemma signature_elem_roundtrip_witness:
  "\<exists>e ro so. dtls_add_ecdsa_signature_elem (replicate 8 0xF0000001) (replicate 8 0x01000000) = Some e \<and>
    length e \<le> 76 \<and>
    dtls_check_ecdsa_signature_elem ([15, 0] @ e @ [7]) (length [15 :: u8, 0]) 200 = Some (int (length e), ro, so) \<and>
    rd_at ([15, 0] @ e @ [7]) ro 32 = Some (octets (replicate 8 0xF0000001)) \<and>
    rd_at ([15, 0] @ e @ [7]) so 32 = Some (octets (replicate 8 0x01000000))"
  by (rule signature_elem_roundtrip) (simp_all add: full_size_def)

end
