(* ===== verification/ClientFlight.thy ===== *)
theory ClientFlight
  imports ServerFlight
begin

text \<open>
  The client's side of the handshake in \<open>dtls.c\<close>: the ClientHello, the checks of the server's
  messages and the CertificateVerify. As in \<open>ServerFlight\<close> a message that is checked is the list of
  its bytes from the handshake header on.
\<close>

subsection \<open>ClientHello\<close>

text \<open>The four extensions with the length of their block, sent when ECDSA is supported.\<close>

definition client_hello_extensions :: bytes where
  "client_hello_extensions =
     dtls_int_to_uint16 26 @
     dtls_int_to_uint16 19 @ dtls_int_to_uint16 2 @ dtls_int_to_uint8 1 @ dtls_int_to_uint8 2 @
     dtls_int_to_uint16 20 @ dtls_int_to_uint16 2 @ dtls_int_to_uint8 1 @ dtls_int_to_uint8 2 @
     dtls_int_to_uint16 10 @ dtls_int_to_uint16 4 @ dtls_int_to_uint16 2 @ dtls_int_to_uint16 23 @
     dtls_int_to_uint16 11 @ dtls_int_to_uint16 2 @ dtls_int_to_uint8 1 @ dtls_int_to_uint8 0"

text \<open>\<open>cookie\<close> is the memory at the cookie pointer; the length is not checked against it.\<close>

definition dtls_send_client_hello ::
  "dtls_env \<Rightarrow> dtls_context_t \<Rightarrow> ptr \<Rightarrow> bytes \<Rightarrow> nat \<Rightarrow> (int \<times> dtls_context_t) option" where
  "dtls_send_client_hello env ctx peer cookie cookie_length =
     with_hs ctx peer (\<lambda>a p h. do {
       let psk = is_psk_supported (ev_caps env);
       let ecdsa = is_ecdsa_supported (ev_caps env) True;
       let cipher_size = 2 + (if ecdsa then 2 else 0) + (if psk then 2 else 0);
       if cookie_length > 32 then Some (HS_ERROR, ctx)
       else do {
         let (h, ctx) =
           (if cookie_length = 0 then
              (let (now, ctx) = ticks env ctx; (r, ctx) = fill_random env 28 ctx in
               (set_client_random (dtls_int_to_uint32 (ucast (now div 1000)) @ r) h, ctx))
            else (h, ctx));
         ctx \<leftarrow> put_hs a (Some h) ctx;
         c \<leftarrow> (if cookie_length \<noteq> 0 then rd_n cookie 0 cookie_length else Some []);
         let buf = dtls_int_to_uint16 DTLS_VERSION @ hp_client_random h @ dtls_int_to_uint8 0 @
           dtls_int_to_uint8 (word_of_nat cookie_length) @ c @
           dtls_int_to_uint16 (cipher_size - 2) @
           (if ecdsa then dtls_int_to_uint16 TLS_ECDHE_ECDSA_WITH_AES_128_CCM_8 else []) @
           (if psk then dtls_int_to_uint16 TLS_PSK_WITH_AES_128_CCM_8 else []) @
           dtls_int_to_uint8 1 @ dtls_int_to_uint8 TLS_COMPRESSION_NULL @
           (if ecdsa then client_hello_extensions else []);
         ctx \<leftarrow> (if cookie_length \<noteq> 0 then clear_hs_hash a ctx else Some ctx);
         dtls_send_handshake_msg_hash env ctx peer (pr_session p) 1 (Some buf) (cookie_length \<noteq> 0) } })"

text \<open>The cookie of a HelloVerifyRequest is sent back.\<close>

definition check_server_hello_verify_request ::
  "dtls_env \<Rightarrow> dtls_context_t \<Rightarrow> ptr \<Rightarrow> bytes \<Rightarrow> (int \<times> dtls_context_t) option" where
  "check_server_hello_verify_request env ctx peer data =
     (if length data < 12 + 3 then Some (DECODE_ERROR, ctx)
      else do {
        cookie_length \<leftarrow> rd data (12 + 2);
        dtls_send_client_hello env ctx peer (drop (12 + 3) data) (unat cookie_length) })"

subsection \<open>ServerHello\<close>

definition put_bytes :: "bytes \<Rightarrow> nat \<Rightarrow> nat \<Rightarrow> (bytes \<Rightarrow> dtls_handshake_parameters_t \<Rightarrow> dtls_handshake_parameters_t) \<Rightarrow>
   nat \<Rightarrow> dtls_context_t \<Rightarrow> dtls_context_t option" where
  "put_bytes data off n f a ctx = do {
     b \<leftarrow> rd_n data off n;
     h \<leftarrow> hs_of a ctx;
     put_hs a (Some (f b h)) ctx }"

text \<open>The extensions are not checked; the 32 bytes behind the compression method are taken for the
  nonce of the TESLA request, whether or not extensions come first.\<close>

definition check_server_hello ::
  "dtls_env \<Rightarrow> dtls_context_t \<Rightarrow> ptr \<Rightarrow> bytes \<Rightarrow> (int \<times> dtls_context_t) option" where
  "check_server_hello env ctx peer data =
     (if length data < 12 + 12 then Some (DECODE_ERROR, ctx)
      else with_hs ctx peer (\<lambda>a p h. do {
        ctx \<leftarrow> update_hs_hash a data ctx;
        v \<leftarrow> dtls_uint16_to_int (drop 12 data);
        if v \<noteq> DTLS_VERSION then Some (dtls_alert_fatal_create DTLS_ALERT_PROTOCOL_VERSION, ctx)
        else do {
          ctx \<leftarrow> put_bytes data 14 32 set_server_random a ctx;
          sk \<leftarrow> SKIP_VAR_FIELD data 46 (length data - 46);
          (case sk of
             None \<Rightarrow> Some (DECODE_ERROR, ctx)
           | Some (q, l) \<Rightarrow> do {
               c \<leftarrow> dtls_uint16_to_int (drop q data);
               h \<leftarrow> hs_of a ctx;
               ctx \<leftarrow> put_hs a (Some (h\<lparr>hp_cipher := c\<rparr>)) ctx;
               if \<not> known_cipher (ev_caps env) c True
               then Some (dtls_alert_fatal_create DTLS_ALERT_INSUFFICIENT_SECURITY, ctx)
               else do {
                 m \<leftarrow> dtls_uint8_to_int (drop (q + 2) data);
                 if m \<noteq> TLS_COMPRESSION_NULL
                 then Some (dtls_alert_fatal_create DTLS_ALERT_INSUFFICIENT_SECURITY, ctx)
                 else do {
                   nonce \<leftarrow> rd_n data (q + 3) 32;
                   Some (0, ctx\<lparr>cx_treq_nonce := nonce\<rparr>) } } }) } }))"

subsection \<open>Certificates and key exchange\<close>

abbreviation on_ecdsa ::
  "(dtls_handshake_parameters_ecdsa_t \<Rightarrow> dtls_handshake_parameters_ecdsa_t) \<Rightarrow>
   dtls_handshake_parameters_t \<Rightarrow> dtls_handshake_parameters_t" where
  "on_ecdsa f h \<equiv> h\<lparr>hp_ecdsa := f (hp_ecdsa h)\<rparr>"

definition check_server_certificate ::
  "dtls_env \<Rightarrow> dtls_context_t \<Rightarrow> ptr \<Rightarrow> bytes \<Rightarrow> (int \<times> dtls_context_t) option" where
  "check_server_certificate env ctx peer data =
     with_hs ctx peer (\<lambda>a p h. do {
       ctx \<leftarrow> update_hs_hash a data ctx;
       if \<not> is_tls_ecdhe_ecdsa_with_aes_128_ccm_8 (hp_cipher h) then None
       else do {
         n \<leftarrow> dtls_uint24_to_int (drop 12 data);
         if n \<noteq> 91 then Some (DECODE_ERROR, ctx)
         else do {
           hd \<leftarrow> rd_n data 15 27;
           if hd \<noteq> cert_asn1_header then Some (DECODE_ERROR, ctx)
           else do {
             ctx \<leftarrow> put_bytes data 42 32 (\<lambda>b. on_ecdsa (\<lambda>e. e\<lparr>ec_other_pub_x := b\<rparr>)) a ctx;
             ctx \<leftarrow> put_bytes data 74 32 (\<lambda>b. on_ecdsa (\<lambda>e. e\<lparr>ec_other_pub_y := b\<rparr>)) a ctx;
             h \<leftarrow> hs_of a ctx;
             let err = (if cap_verify_ecdsa_key (ev_caps env)
                        then ev_verify_ecdsa_key env (pr_session p) (ec_other_pub_x (hp_ecdsa h))
                               (ec_other_pub_y (hp_ecdsa h)) else -1);
             Some (if err < 0 then err else 0, ctx) } } } })"

definition check_server_key_exchange_ecdsa ::
  "dtls_env \<Rightarrow> dtls_context_t \<Rightarrow> ptr \<Rightarrow> bytes \<Rightarrow> (int \<times> dtls_context_t) option" where
  "check_server_key_exchange_ecdsa env ctx peer data =
     with_hs ctx peer (\<lambda>a p h. do {
       ctx \<leftarrow> update_hs_hash a data ctx;
       if \<not> is_tls_ecdhe_ecdsa_with_aes_128_ccm_8 (hp_cipher h) then None
       else if length data < 12 + 143 then Some (DECODE_ERROR, ctx)
       else do {
         t \<leftarrow> dtls_uint8_to_int (drop 12 data);
         if t \<noteq> 3 then Some (HS_ERROR, ctx)
         else do {
           c \<leftarrow> dtls_uint16_to_int (drop 13 data);
           if c \<noteq> 23 then Some (HS_ERROR, ctx)
           else do {
             n \<leftarrow> dtls_uint8_to_int (drop 15 data);
             if n \<noteq> 65 then Some (HS_ERROR, ctx)
             else do {
               u \<leftarrow> dtls_uint8_to_int (drop 16 data);
               if u \<noteq> 4 then Some (DECODE_ERROR, ctx)
               else do {
                 ctx \<leftarrow> put_bytes data 17 32 (\<lambda>b. on_ecdsa (\<lambda>e. e\<lparr>ec_other_eph_pub_x := b\<rparr>)) a ctx;
                 ctx \<leftarrow> put_bytes data 49 32 (\<lambda>b. on_ecdsa (\<lambda>e. e\<lparr>ec_other_eph_pub_y := b\<rparr>)) a ctx;
                 (ret, r, s) \<leftarrow> dtls_check_ecdsa_signature_elem data 81 (word_of_nat (length data - 69));
                 if ret < 0 then Some (ret, ctx)
                 else do {
                   h \<leftarrow> hs_of a ctx;
                   key_params \<leftarrow> rd_n data 12 69;
                   result_r \<leftarrow> rd_at data r 32;
                   result_s \<leftarrow> rd_at data s 32;
                   ret \<leftarrow> dtls_ecdsa_verify_sig (ec_other_pub_x (hp_ecdsa h))
                     (ec_other_pub_y (hp_ecdsa h)) 32 (hp_client_random h) (hp_server_random h)
                     key_params result_r result_s;
                   Some (if ret < 0 then HS_ERROR else 0, ctx) } } } } } } })"

definition check_server_key_exchange_psk ::
  "dtls_env \<Rightarrow> dtls_context_t \<Rightarrow> ptr \<Rightarrow> bytes \<Rightarrow> (int \<times> dtls_context_t) option" where
  "check_server_key_exchange_psk env ctx peer data =
     with_hs ctx peer (\<lambda>a p h. do {
       ctx \<leftarrow> update_hs_hash a data ctx;
       if \<not> is_tls_psk_with_aes_128_ccm_8 (hp_cipher h) then None
       else if length data < 12 + 2 then Some (DECODE_ERROR, ctx)
       else do {
         len \<leftarrow> dtls_uint16_to_int (drop 12 data);
         if unat len \<noteq> length data - 12 - 2 then Some (DECODE_ERROR, ctx)
         else if unat len > 32 then Some (INTERNAL_ERROR, ctx)
         else do {
           hint \<leftarrow> rd_n data 14 (unat len);
           h \<leftarrow> hs_of a ctx;
           ident \<leftarrow> wr_n (psk_identity (hp_psk h)) 0 hint;
           ctx \<leftarrow> put_hs a (Some (h\<lparr>hp_psk := \<lparr>psk_id_length = len, psk_identity = ident\<rparr>\<rparr>)) ctx;
           Some (0, ctx) } } })"

subsection \<open>Client authentication\<close>

text \<open>The loop over \<open>i\<close> certificate types from position \<open>q\<close> on.\<close>

fun auth_alg_loop :: "bytes \<Rightarrow> nat \<Rightarrow> nat \<Rightarrow> u8 \<Rightarrow> u8 option" where
  "auth_alg_loop data q 0 auth_alg = Some auth_alg"
| "auth_alg_loop data q (Suc i) auth_alg = do {
     t \<leftarrow> dtls_uint8_to_int (drop q data);
     auth_alg_loop data (q + 1) i (if t = 64 \<and> auth_alg = 0 then t else auth_alg) }"

text \<open>The loop over the signature algorithms: \<open>i\<close> counts down by two and wraps around when odd.\<close>

function sig_alg_loop :: "bytes \<Rightarrow> nat \<Rightarrow> u32 \<Rightarrow> u8 \<Rightarrow> u8 \<Rightarrow> (u8 \<times> u8) option" where
  "sig_alg_loop data q i hash_alg sig_alg =
     (if i > 0 then
        (if q + 1 < length data then
           (let h = data ! q; s = data ! (q + 1); ok = (h = 4 \<and> hash_alg = 0 \<and> s = 3 \<and> sig_alg = 0) in
            sig_alg_loop data (q + 2) (i - 2) (if ok then h else hash_alg) (if ok then s else sig_alg))
         else None)
      else Some (hash_alg, sig_alg))"
  by pat_completeness auto
termination
  by (relation "measure (\<lambda>(data, q, _, _, _). length data - q)") auto

declare sig_alg_loop.simps [simp del]

text \<open>The bounds still count the handshake header.\<close>

definition check_certificate_request ::
  "dtls_env \<Rightarrow> dtls_context_t \<Rightarrow> ptr \<Rightarrow> bytes \<Rightarrow> (int \<times> dtls_context_t) option" where
  "check_certificate_request env ctx peer data =
     with_hs ctx peer (\<lambda>a p h. do {
       ctx \<leftarrow> update_hs_hash a data ctx;
       if \<not> is_tls_ecdhe_ecdsa_with_aes_128_ccm_8 (hp_cipher h) then None
       else if length data < 12 + 5 then Some (DECODE_ERROR, ctx)
       else do {
         i \<leftarrow> dtls_uint8_to_int (drop 12 data);
         if unat i + 1 > length data then Some (DECODE_ERROR, ctx)
         else do {
           auth_alg \<leftarrow> auth_alg_loop data 13 (unat i) 0;
           if auth_alg \<noteq> 64 then Some (HS_ERROR, ctx)
           else do {
             let q = 13 + unat i;
             n \<leftarrow> dtls_uint16_to_int (drop q data);
             if unat n + 1 > length data then Some (DECODE_ERROR, ctx)
             else do {
               (hash_alg, sig_alg) \<leftarrow> sig_alg_loop data (q + 2) (ucast n) 0 0;
               if hash_alg \<noteq> 4 \<or> sig_alg \<noteq> 3 then Some (HS_ERROR, ctx)
               else do {
                 h \<leftarrow> hs_of a ctx;
                 ctx \<leftarrow> put_hs a (Some (h\<lparr>hp_do_client_auth := True\<rparr>)) ctx;
                 Some (0, ctx) } } } } } })"

definition dtls_send_certificate_verify_ecdh ::
  "dtls_env \<Rightarrow> dtls_context_t \<Rightarrow> ptr \<Rightarrow> dtls_ecdsa_key_t \<Rightarrow> (int \<times> dtls_context_t) option" where
  "dtls_send_certificate_verify_ecdh env ctx peer key =
     with_hs ctx peer (\<lambda>a p h. do {
       hs \<leftarrow> copy_hs_hash a ctx;
       let (sha256hash, _, _) = dtls_hash_finalize hs;
       (r, s, pos) \<leftarrow> dtls_ecdsa_create_sig_hash (ev_random env) (cx_rnd ctx) (ek_priv_key key) 32
                        sha256hash (ev_point_r env) (ev_point_s env);
       sig \<leftarrow> dtls_add_ecdsa_signature_elem r s;
       if length sig > 74 + 2 then None
       else dtls_send_handshake_msg env (ctx\<lparr>cx_rnd := pos\<rparr>) peer 15 (Some sig) })"

subsection \<open>The ClientHello is what the server expects\<close>

definition offered :: "dtls_caps \<Rightarrow> u16 list" where
  "offered c = (if is_ecdsa_supported c True then [TLS_ECDHE_ECDSA_WITH_AES_128_CCM_8] else []) @
     (if is_psk_supported c then [TLS_PSK_WITH_AES_128_CCM_8] else [])"

definition client_hello_body :: "dtls_caps \<Rightarrow> bytes \<Rightarrow> bytes \<Rightarrow> bytes" where
  "client_hello_body c random cookie = be_bytes 2 0xfefd @ random @ 0 # word_of_nat (length cookie) # cookie @
     hello_offer (offered c) [0] (if is_ecdsa_supported c True then client_hello_extensions else [])"

lemma with_hs_value:
  "cx_ph ctx a = Some p \<Longrightarrow> pr_handshake p = Some h \<Longrightarrow> with_hs ctx (Some a) f = f a p h"
  by (simp add: with_hs_def)

lemma client_hello_sent:
  assumes p: "cx_ph ctx a = Some p" "pr_handshake p = Some h" and l: "length (hp_tmp h) = 64"
    and n: "n \<le> 32" "n \<le> length cookie"
  shows "\<exists>ctx' h'. dtls_send_client_hello env ctx (Some a) cookie n =
      dtls_send_handshake_msg_hash env ctx' (Some a) (pr_session p) 1
        (Some (client_hello_body (ev_caps env) (hp_client_random h') (take n cookie))) (n \<noteq> 0) \<and>
    hs_of a ctx' = Some h' \<and> length (hp_client_random h') = 32 \<and>
    (n \<noteq> 0 \<longrightarrow> hp_client_random h' = hp_client_random h \<and> hs_hash (hp_hs_state h') = dtls_hash_init)"
proof -
  let ?now = "fst (ticks env ctx)"
  define r where "r = (if n = 0 then dtls_int_to_uint32 (ucast (?now div 1000)) @ fst (fill_random env 28 (snd (ticks env ctx)))
     else hp_client_random h)"
  have lr: "length r = 32"
    using l by (simp add: r_def fill_random_def dtls_fill_random_def ticks_def dtls_int_to_uint32_def hp_client_random_def)
  define ctx1 where "ctx1 = (if n = 0 then snd (fill_random env 28 (snd (ticks env ctx))) else ctx)"
  have c1: "cx_ph ctx1 = cx_ph ctx"
    by (simp add: ctx1_def fill_random_def dtls_fill_random_def ticks_def)
  define h1 where "h1 = set_client_random r h"
  have h1: "n \<noteq> 0 \<Longrightarrow> h1 = h"
    using l by (simp add: h1_def r_def set_client_random_def hp_client_random_def)
  have pair: "(if n = 0 then
              (let (now, ctx) = ticks env ctx; (r, ctx) = fill_random env 28 ctx in
               (set_client_random (dtls_int_to_uint32 (ucast (now div 1000)) @ r) h, ctx))
            else (h, ctx)) = (h1, ctx1)"
    using h1 by (simp add: h1_def r_def ctx1_def split: prod.splits)
  have r1: "hp_client_random h1 = r"
    using lr by (simp add: h1_def set_client_random_def hp_client_random_def)
  define h2 where "h2 = (if n \<noteq> 0 then set_hash dtls_hash_init h1 else h1)"
  have r2: "hp_client_random h2 = r" using r1 by (simp add: h2_def hp_client_random_def set_hash_def)
  define ctx2 where "ctx2 = store_peer a (p\<lparr>pr_handshake := Some h2\<rparr>) ctx1"
  have u: "dtls_int_to_uint16 DTLS_VERSION = be_bytes 2 0xfefd"
    by (simp add: int_to_uint16_be DTLS_VERSION_def)
  have cs: "(2 + (if e then 2 else 0) + (if k then 2 else 0)) - 2 = (word_of_nat (2 * length (
     (if e then [x] else []) @ (if k then [y] else []))) :: u16)" for e k :: bool and x y :: u16
    by simp
  have body: "dtls_int_to_uint16 DTLS_VERSION @ hp_client_random h1 @ dtls_int_to_uint8 0 @
           dtls_int_to_uint8 (word_of_nat n) @ take n cookie @
           dtls_int_to_uint16 (2 + (if is_ecdsa_supported (ev_caps env) True then 2 else 0) + (if is_psk_supported (ev_caps env) then 2 else 0) - 2) @
           (if is_ecdsa_supported (ev_caps env) True then dtls_int_to_uint16 TLS_ECDHE_ECDSA_WITH_AES_128_CCM_8 else []) @
           (if is_psk_supported (ev_caps env) then dtls_int_to_uint16 TLS_PSK_WITH_AES_128_CCM_8 else []) @
           dtls_int_to_uint8 1 @ dtls_int_to_uint8 TLS_COMPRESSION_NULL @
           (if is_ecdsa_supported (ev_caps env) True then client_hello_extensions else []) =
      client_hello_body (ev_caps env) (hp_client_random h2) (take n cookie)"
    unfolding u r1 r2 client_hello_body_def hello_offer_def offered_def
      cs [of _ _ TLS_ECDHE_ECDSA_WITH_AES_128_CCM_8 TLS_PSK_WITH_AES_128_CCM_8]
    using n by (simp add: dtls_int_to_uint8_def enc16_def TLS_COMPRESSION_NULL_def)
  have put1: "put_hs a (Some h1) ctx1 = Some (store_peer a (p\<lparr>pr_handshake := Some h1\<rparr>) ctx1)"
    using p by (simp add: put_hs_def c1)
  have clr: "(if n \<noteq> 0 then clear_hs_hash a (store_peer a (p\<lparr>pr_handshake := Some h1\<rparr>) ctx1)
       else Some (store_peer a (p\<lparr>pr_handshake := Some h1\<rparr>) ctx1)) = Some ctx2"
    by (simp add: clear_hs_hash_def hs_of_def put_hs_def h2_def ctx2_def)
  have rd: "(if n \<noteq> 0 then rd_n cookie 0 n else Some []) = Some (take n cookie)"
    using n by simp
  have "dtls_send_client_hello env ctx (Some a) cookie n =
      dtls_send_handshake_msg_hash env ctx2 (Some a) (pr_session p) 1
        (Some (client_hello_body (ev_caps env) (hp_client_random h2) (take n cookie))) (n \<noteq> 0)"
    unfolding dtls_send_client_hello_def with_hs_value [OF p] unfolding pair
    unfolding Let_def prod.case if_not_P [OF n(1) [unfolded not_less [symmetric]]] put1 Option.bind.bind_lunit rd clr body ..
  moreover have "hs_of a ctx2 = Some h2" by (simp add: ctx2_def hs_of_def)
  moreover have "n \<noteq> 0 \<longrightarrow> hp_client_random h2 = hp_client_random h \<and> hs_hash (hp_hs_state h2) = dtls_hash_init"
    using h1 r2 by (simp add: h2_def r_def set_hash_def hp_client_random_def)
  ultimately show ?thesis using lr r2 by blast
qed

lemma client_extensions:
  "client_hello_extensions =
     dtls_int_to_uint16 (word_of_nat (length (concat (map ext_bytes
       [ClientCertTypes [2], ServerCertTypes [2], Curves [23], PointFormats [0]])))) @
     concat (map ext_bytes [ClientCertTypes [2], ServerCertTypes [2], Curves [23], PointFormats [0]])"
  "length client_hello_extensions = 28"
  by (simp_all add: client_hello_extensions_def ext_bytes_def enc16_def dtls_int_to_uint8_def)

lemma client_extensions_accepted:
  assumes "pr_handshake q = Some h"
  shows "dtls_check_tls_extension (Some q) client_hello_extensions (length client_hello_extensions) True = Some 0"
proof -
  let ?es = "[ClientCertTypes [2], ServerCertTypes [2], Curves [23], PointFormats [0]]"
  have w: "list_all ext_wf ?es" by simp
  have l: "length (concat (map ext_bytes ?es)) < 2 ^ 16" by (simp add: ext_bytes_def enc16_def)
  have n: "length client_hello_extensions = 2 + length (concat (map ext_bytes ?es))"
    unfolding client_extensions(1) by simp
  show ?thesis
    using check_extensions_enc [OF assms w l, of "[]"] unfolding n append_Nil2 client_extensions(1) [symmetric] by simp
qed

lemma no_extensions_accepted:
  assumes "pr_handshake q = Some h" and "hp_cipher h \<noteq> TLS_ECDHE_ECDSA_WITH_AES_128_CCM_8"
  shows "dtls_check_tls_extension (Some q) [] 0 True = Some 0"
  using assms by (simp add: dtls_check_tls_extension_def is_tls_ecdhe_ecdsa_with_aes_128_ccm_8_def)

text \<open>The suite that a server with the second configuration selects for a client with the first.\<close>

definition agreed :: "dtls_caps \<Rightarrow> dtls_caps \<Rightarrow> u16 option" where
  "agreed c s =
     (if cap_verify_ecdsa_key c \<and> cap_get_ecdsa_key s then Some TLS_ECDHE_ECDSA_WITH_AES_128_CCM_8
      else if cap_get_psk_info c \<and> cap_get_psk_info s then Some TLS_PSK_WITH_AES_128_CCM_8 else None)"

lemma find_offered: "find (\<lambda>x. known_cipher s x False) (offered c) = agreed c s"
  by (simp add: offered_def agreed_def known_cipher_def is_psk_supported_def is_ecdsa_supported_def
      is_tls_psk_with_aes_128_ccm_8_def is_tls_ecdhe_ecdsa_with_aes_128_ccm_8_def cipher_defs)

lemma hello_of_body:
  fixes c :: dtls_caps
  assumes "length random = 32" and "length cookie \<le> 32"
  defines "body \<equiv> client_hello_body c random cookie"
  shows "\<exists>pre suf. hs_header 1 (length body) seq 0 (length body) @ body = hello pre random [] cookie suf \<and>
    suf = hello_offer (offered c) [0] (if is_ecdsa_supported c True then client_hello_extensions else []) \<and>
    hello_ok pre random [] cookie suf"
proof -
  let ?suf = "hello_offer (offered c) [0] (if is_ecdsa_supported c True then client_hello_extensions else [])"
  let ?pre = "take 9 (hs_header 1 (length body) seq 0 (length body))"
  have "hs_header 1 (length body) seq 0 (length body) = ?pre @ be_bytes 3 (length body)"
    by (simp add: hs_header_def)
  moreover have "length ?suf \<le> 40"
    by (simp add: hello_offer_def offered_def enc16_def client_extensions(2))
  moreover have "hello ?pre random [] cookie ?suf = ?pre @ be_bytes 3 (length body) @ body"
    by (simp add: hello_def body_def client_hello_body_def Let_def)
  moreover have "hello_ok ?pre random [] cookie ?suf"
    using assms calculation(2) by (simp add: hello_ok_def)
  ultimately show ?thesis by (intro exI [of _ ?pre] exI [of _ ?suf]) simp
qed

lemma offered_simps: "length (offered c) < 2 ^ 14"
  by (simp add: offered_def)

lemma client_hello_parsed:
  fixes c :: dtls_caps and seq :: u16
  assumes r: "length random = 32" "length cookie \<le> 32" and q: "pr_handshake q = Some g"
  defines "body \<equiv> client_hello_body c random cookie"
  defines "msg \<equiv> hs_header 1 (length body) seq 0 (length body) @ body"
    and "config \<equiv> set_client_random random g"
  shows "dtls_get_cookie msg = Some (int (length cookie), 48)"
    and "rd_n msg 48 (length cookie) = Some cookie"
    and "dtls_update_parameters s (Some q) msg = Some (case agreed c s of
        None \<Rightarrow> (hello_error q True, Some (q\<lparr>pr_handshake := Some (config\<lparr>hp_cipher := TLS_NULL_WITH_NULL_NULL\<rparr>)\<rparr>))
      | Some x \<Rightarrow> (0, Some (q\<lparr>pr_handshake := Some (config\<lparr>hp_cipher := x, hp_compression := TLS_COMPRESSION_NULL\<rparr>)\<rparr>)))"
proof -
  let ?ex = "if is_ecdsa_supported c True then client_hello_extensions else []"
  obtain pre suf where m: "msg = hello pre random [] cookie suf"
      "suf = hello_offer (offered c) [0] ?ex" "hello_ok pre random [] cookie suf"
    using hello_of_body [OF r, of c seq] unfolding msg_def body_def by blast
  show "dtls_get_cookie msg = Some (int (length cookie), 48)"
    using get_cookie_hello [OF m(3)] unfolding m(1) by simp
  show "rd_n msg 48 (length cookie) = Some cookie"
    using hello_reads(5) [OF m(3)] hello_reads(1) [OF m(3)] unfolding m(1) by (simp add: rd_n_def)
  have ok: "hello_ok pre random [] cookie (hello_offer (offered c) [0] ?ex)" using m(3) unfolding m(2) .
  have ext: "dtls_check_tls_extension (Some (q\<lparr>pr_handshake := Some (config\<lparr>hp_cipher := x, hp_compression := TLS_COMPRESSION_NULL\<rparr>)\<rparr>))
      ?ex (length ?ex) True = Some 0" if "agreed c s = Some x" for x
  proof (cases "is_ecdsa_supported c True")
    case True
    then show ?thesis by (simp add: client_extensions_accepted)
  next
    case False
    then have "x \<noteq> TLS_ECDHE_ECDSA_WITH_AES_128_CCM_8"
      using that by (auto simp: agreed_def is_ecdsa_supported_def cipher_defs split: if_splits)
    then show ?thesis using False by (simp add: no_extensions_accepted)
  qed
  show "dtls_update_parameters s (Some q) msg = Some (case agreed c s of
        None \<Rightarrow> (hello_error q True, Some (q\<lparr>pr_handshake := Some (config\<lparr>hp_cipher := TLS_NULL_WITH_NULL_NULL\<rparr>)\<rparr>))
      | Some x \<Rightarrow> (0, Some (q\<lparr>pr_handshake := Some (config\<lparr>hp_cipher := x, hp_compression := TLS_COMPRESSION_NULL\<rparr>)\<rparr>)))"
    unfolding m(1,2) update_parameters_offer [OF q ok offered_simps, of s, simplified] find_offered
    using ext by (cases "agreed c s") (simp_all add: config_def Let_def split del: if_split)
qed

text \<open>C35: The ClientHello meets the server: what \<open>dtls_send_client_hello\<close> hands to the fragmenting
  sender is a message from which \<open>dtls_get_cookie\<close> reads the very cookie the client was given,
  \<open>dtls_update_parameters\<close> takes the client random, and on which both sides agree as their
  configurations allow: ECDHE-ECDSA if both support it, otherwise PSK if both do; only when they
  have no suite in common does the server refuse. The second hello, with a cookie, repeats the
  random of the first one and restarts the handshake hash, as the cookie exchange needs.\<close>

theorem client_hello_negotiated:
  assumes "cx_ph ctx a = Some p" and "pr_handshake p = Some h" and "length (hp_tmp h) = 64"
    and "n \<le> 32" and "n \<le> length cookie" and "pr_handshake q = Some g"
  shows "\<exists>ctx' h' body. dtls_send_client_hello env ctx (Some a) cookie n =
      dtls_send_handshake_msg_hash env ctx' (Some a) (pr_session p) 1 (Some body) (n \<noteq> 0) \<and>
    hs_of a ctx' = Some h' \<and>
    (n \<noteq> 0 \<longrightarrow> hp_client_random h' = hp_client_random h \<and> hs_hash (hp_hs_state h') = dtls_hash_init) \<and>
    (let msg = hs_header 1 (length body) seq 0 (length body) @ body;
         config = set_client_random (hp_client_random h') g in
     dtls_get_cookie msg = Some (int n, 48) \<and> rd_n msg 48 n = Some (take n cookie) \<and>
     dtls_update_parameters s (Some q) msg = Some (case agreed (ev_caps env) s of
        None \<Rightarrow> (hello_error q True, Some (q\<lparr>pr_handshake := Some (config\<lparr>hp_cipher := TLS_NULL_WITH_NULL_NULL\<rparr>)\<rparr>))
      | Some x \<Rightarrow> (0, Some (q\<lparr>pr_handshake := Some (config\<lparr>hp_cipher := x, hp_compression := TLS_COMPRESSION_NULL\<rparr>)\<rparr>))))"
proof -
  obtain ctx' h' where c: "dtls_send_client_hello env ctx (Some a) cookie n =
      dtls_send_handshake_msg_hash env ctx' (Some a) (pr_session p) 1
        (Some (client_hello_body (ev_caps env) (hp_client_random h') (take n cookie))) (n \<noteq> 0)"
    "hs_of a ctx' = Some h'" "length (hp_client_random h') = 32"
    "n \<noteq> 0 \<longrightarrow> hp_client_random h' = hp_client_random h \<and> hs_hash (hp_hs_state h') = dtls_hash_init"
    using client_hello_sent [OF assms(1-5)] by blast
  have l: "length (take n cookie) \<le> 32" "length (take n cookie) = n" using assms(4,5) by simp_all
  show ?thesis
    using c client_hello_parsed(1,2) [OF c(3) l(1) assms(6), of "ev_caps env" seq]
      client_hello_parsed(3) [OF c(3) l(1) assms(6), of s "ev_caps env" seq] unfolding l(2) Let_def by blast
qed

lemma client_hello_negotiated_witness:
  "\<exists>ctx' h' body. dtls_send_client_hello (rt_env\<lparr>ev_caps := \<lparr>cap_get_psk_info = True, cap_get_ecdsa_key = True,
        cap_verify_ecdsa_key = True\<rparr>\<rparr>) (store_peer 1 (peer_example 1\<lparr>pr_handshake := dtls_handshake_new True\<rparr>) rt_ctx)
        (Some 1) [1, 2, 3, 4] 4 =
      dtls_send_handshake_msg_hash (rt_env\<lparr>ev_caps := \<lparr>cap_get_psk_info = True, cap_get_ecdsa_key = True,
        cap_verify_ecdsa_key = True\<rparr>\<rparr>) ctx' (Some 1) (pr_session (peer_example 1)) 1 (Some body) True \<and>
    dtls_get_cookie (hs_header 1 (length body) 1 0 (length body) @ body) = Some (4, 48) \<and>
    map_option fst (dtls_update_parameters \<lparr>cap_get_psk_info = True, cap_get_ecdsa_key = False, cap_verify_ecdsa_key = False\<rparr>
      (Some (peer_example 2\<lparr>pr_handshake := dtls_handshake_new True\<rparr>))
      (hs_header 1 (length body) 1 0 (length body) @ body)) = Some 0"
  (is "\<exists>ctx' h' body. dtls_send_client_hello ?env ?ctx _ _ _ = _ ctx' body \<and> _")
proof -
  let ?h = "the (dtls_handshake_new True)"
  have h: "dtls_handshake_new True = Some ?h" "length (hp_tmp ?h) = 64" by (simp_all add: dtls_handshake_new_def)
  have p: "cx_ph ?ctx 1 = Some (peer_example 1\<lparr>pr_handshake := Some ?h\<rparr>)" using h by simp
  have "agreed (ev_caps ?env) \<lparr>cap_get_psk_info = True, cap_get_ecdsa_key = False, cap_verify_ecdsa_key = False\<rparr> =
      Some TLS_PSK_WITH_AES_128_CCM_8" by (simp add: agreed_def)
  then show ?thesis
    using client_hello_negotiated [OF p _ h(2), of 4 "[1, 2, 3, 4]" "peer_example 2\<lparr>pr_handshake := Some ?h\<rparr>" ?h ?env 1
        "\<lparr>cap_get_psk_info = True, cap_get_ecdsa_key = False, cap_verify_ecdsa_key = False\<rparr>"] h(1)
    by (auto simp: Let_def)
qed

subsection \<open>The ServerHello and the nonce of the TESLA request\<close>

text \<open>The extension block of the ServerHello for the ECDSA suite.\<close>

definition server_hello_extensions :: bytes where
  "server_hello_extensions = [0, 16, 0, 19, 0, 1, 2, 0, 20, 0, 1, 2, 0, 11, 0, 2, 1, 0]"

definition server_hello_body :: "u16 \<Rightarrow> bytes \<Rightarrow> bytes \<Rightarrow> bytes" where
  "server_hello_body c random nonce = dtls_int_to_uint16 DTLS_VERSION @ random @ 0 # dtls_int_to_uint16 c @ 0 #
     (if c = TLS_ECDHE_ECDSA_WITH_AES_128_CCM_8 then server_hello_extensions else []) @ nonce"

lemma server_hello_sent:
  assumes p: "cx_ph ctx a = Some p" "pr_handshake p = Some h"
    and c: "hp_cipher h \<in> {TLS_PSK_WITH_AES_128_CCM_8, TLS_ECDHE_ECDSA_WITH_AES_128_CCM_8}" "hp_compression h = 0"
  shows "\<exists>ctx' random. dtls_send_server_hello env ctx (Some a) =
      dtls_send_handshake_msg env ctx' (Some a) 2 (Some (server_hello_body (hp_cipher h) random (cx_treq_nonce ctx'))) \<and>
    hs_of a ctx' = Some (set_server_random random h) \<and> length random = 32 \<and> length (cx_treq_nonce ctx') = 32"
proof -
  let ?random = "dtls_int_to_uint32 (ucast (fst (ticks env ctx) div 1000)) @ fst (fill_random env 28 (snd (ticks env ctx)))"
  let ?ctx1 = "store_peer a (p\<lparr>pr_handshake := Some (set_server_random ?random h)\<rparr>) (snd (fill_random env 28 (snd (ticks env ctx))))"
  let ?nonce = "fst (fill_random env 32 ?ctx1)"
  let ?ctx2 = "(snd (fill_random env 32 ?ctx1))\<lparr>cx_treq_nonce := ?nonce\<rparr>"
  have "dtls_send_server_hello env ctx (Some a) =
      dtls_send_handshake_msg env ?ctx2 (Some a) 2 (Some (server_hello_body (hp_cipher h) ?random (cx_treq_nonce ?ctx2)))"
    unfolding dtls_send_server_hello_def with_hs_value [OF p]
    using c p by (auto simp: put_hs_def fill_random_def dtls_fill_random_def ticks_def Let_def server_hello_body_def
        is_tls_ecdhe_ecdsa_with_aes_128_ccm_8_def cipher_defs TLS_COMPRESSION_NULL_def server_hello_extensions_def
        dtls_int_to_uint16_def dtls_int_to_uint8_def)
  moreover have "hs_of a ?ctx2 = Some (set_server_random ?random h)"
    by (simp add: hs_of_def fill_random_def dtls_fill_random_def store_peer_def)
  moreover have "length ?random = 32" "length ?nonce = 32"
    by (simp_all add: fill_random_def dtls_fill_random_def dtls_int_to_uint32_def)
  ultimately show ?thesis by (intro exI [of _ ?ctx2] exI [of _ ?random]) simp
qed

lemma server_hello_parsed:
  assumes q: "cx_ph ctx b = Some q" "pr_handshake q = Some g"
    and k: "known_cipher (ev_caps env) c True" "c \<in> {TLS_PSK_WITH_AES_128_CCM_8, TLS_ECDHE_ECDSA_WITH_AES_128_CCM_8}"
    and l: "length hdr = 12" "length random = 32" "length nonce = 32"
  defines "msg \<equiv> hdr @ server_hello_body c random nonce"
  shows "check_server_hello env ctx (Some b) msg =
    Some (0, (store_peer b (q\<lparr>pr_handshake := Some ((set_server_random random
        (set_hash (dtls_hash_update (hs_hash (hp_hs_state g)) msg) g))\<lparr>hp_cipher := c\<rparr>)\<rparr>) ctx)
      \<lparr>cx_treq_nonce := (if c = TLS_ECDHE_ECDSA_WITH_AES_128_CCM_8
        then server_hello_extensions @ take 14 nonce else nonce)\<rparr>)"
proof -
  define ext where "ext = (if c = TLS_ECDHE_ECDSA_WITH_AES_128_CCM_8 then server_hello_extensions else [])"
  have v: "drop 12 msg = dtls_int_to_uint16 DTLS_VERSION @ random @ 0 # dtls_int_to_uint16 c @ 0 # ext @ nonce"
    using l by (simp add: msg_def server_hello_body_def ext_def)
  have "drop 14 msg = drop 2 (drop 12 msg)" by simp
  then have r: "drop 14 msg = random @ 0 # dtls_int_to_uint16 c @ 0 # ext @ nonce" unfolding v by simp
  have "drop 46 msg = drop 32 (drop 14 msg)" by simp
  then have s: "drop 46 msg = word_of_nat (length ([] :: bytes)) # [] @ dtls_int_to_uint16 c @ 0 # ext @ nonce"
    unfolding r using l by simp
  have "drop 47 msg = drop 1 (drop 46 msg)" by simp
  then have cc: "drop 47 msg = dtls_int_to_uint16 c @ 0 # ext @ nonce" unfolding s by simp
  have "drop 49 msg = drop 2 (drop 47 msg)" by simp
  then have m: "drop 49 msg = 0 # ext @ nonce" unfolding cc by simp
  have "drop 50 msg = drop 1 (drop 49 msg)" by simp
  then have n: "drop 50 msg = ext @ nonce" unfolding m by simp
  have len: "length msg = 82 + length ext"
    using l by (simp add: msg_def server_hello_body_def ext_def)
  have sk: "SKIP_VAR_FIELD msg 46 (length msg - 46) = Some (Some (47, length msg - 47))"
    using skip_field [OF s, of "length msg - 46"] len by simp
  have rr: "rd_n msg 14 32 = Some random" using l len by (simp add: rd_n_def r)
  have nn: "rd_n msg 50 32 = Some (if c = TLS_ECDHE_ECDSA_WITH_AES_128_CCM_8
        then server_hello_extensions @ take 14 nonce else nonce)"
    using l len by (simp add: rd_n_def n ext_def server_hello_extensions_def)
  have nl: "\<not> length msg < 12 + 12" using len by simp
  have v0: "dtls_uint16_to_int (drop 12 msg) = Some DTLS_VERSION" unfolding v by simp
  have c0: "dtls_uint16_to_int (drop 47 msg) = Some c" unfolding cc by simp
  have m0: "dtls_uint8_to_int (drop (47 + 2) msg) = Some 0" using m by (simp add: uint8_read)
  have n0: "rd_n msg (47 + 3) 32 = rd_n msg 50 32" by simp
  let ?g1 = "set_hash (dtls_hash_update (hs_hash (hp_hs_state g)) msg) g"
  have u: "update_hs_hash b msg ctx = Some (store_peer b (q\<lparr>pr_handshake := Some ?g1\<rparr>) ctx)"
    using q by (simp add: update_hs_hash_def hs_of_def put_hs_def)
  have pb: "put_bytes msg 14 32 set_server_random b (store_peer b (q\<lparr>pr_handshake := Some ?g1\<rparr>) ctx) =
      Some (store_peer b (q\<lparr>pr_handshake := Some (set_server_random random ?g1)\<rparr>) ctx)"
    unfolding put_bytes_def rr by (simp add: hs_of_def put_hs_def)
  show ?thesis
    unfolding check_server_hello_def if_not_P [OF nl] with_hs_value [OF q] u Option.bind.bind_lunit v0 pb sk c0
      option.case prod.case m0 n0 nn
    using k by (simp add: hs_of_def put_hs_def TLS_COMPRESSION_NULL_def)
qed

text \<open>C36: The ServerHello carries the suite, the server random and the TESLA nonce: what
  \<open>dtls_send_server_hello\<close> hands to the fragmenting sender is accepted by \<open>check_server_hello\<close>, which
  stores the random and the suite and absorbs the message into the handshake hash. With the PSK suite
  both sides then hold the same nonce. With the ECDSA suite they do not: the server puts its
  extensions in front of the nonce, and the client, which does not skip them, takes the extension
  block and only the first 14 bytes of the nonce.\<close>

theorem server_hello_received:
  assumes "cx_ph ctx a = Some p" and "pr_handshake p = Some h" and "hp_compression h = 0"
    and "hp_cipher h \<in> {TLS_PSK_WITH_AES_128_CCM_8, TLS_ECDHE_ECDSA_WITH_AES_128_CCM_8}"
    and "cx_ph cctx b = Some q" and "pr_handshake q = Some g"
    and "known_cipher (ev_caps cenv) (hp_cipher h) True" and "length hdr = 12"
  shows "\<exists>ctx' random body. dtls_send_server_hello env ctx (Some a) =
      dtls_send_handshake_msg env ctx' (Some a) 2 (Some body) \<and>
    hs_of a ctx' = Some (set_server_random random h) \<and> length random = 32 \<and> length (cx_treq_nonce ctx') = 32 \<and>
    check_server_hello cenv cctx (Some b) (hdr @ body) =
      Some (0, (store_peer b (q\<lparr>pr_handshake := Some ((set_server_random random
          (set_hash (dtls_hash_update (hs_hash (hp_hs_state g)) (hdr @ body)) g))\<lparr>hp_cipher := hp_cipher h\<rparr>)\<rparr>) cctx)
        \<lparr>cx_treq_nonce := (if hp_cipher h = TLS_PSK_WITH_AES_128_CCM_8 then cx_treq_nonce ctx'
          else server_hello_extensions @ take 14 (cx_treq_nonce ctx'))\<rparr>)"
proof -
  obtain ctx' random where s: "dtls_send_server_hello env ctx (Some a) =
      dtls_send_handshake_msg env ctx' (Some a) 2 (Some (server_hello_body (hp_cipher h) random (cx_treq_nonce ctx')))"
    "hs_of a ctx' = Some (set_server_random random h)" "length random = 32" "length (cx_treq_nonce ctx') = 32"
    using server_hello_sent [OF assms(1,2,4,3)] by blast
  have "(if hp_cipher h = TLS_ECDHE_ECDSA_WITH_AES_128_CCM_8
        then server_hello_extensions @ take 14 (cx_treq_nonce ctx') else cx_treq_nonce ctx') =
      (if hp_cipher h = TLS_PSK_WITH_AES_128_CCM_8 then cx_treq_nonce ctx'
          else server_hello_extensions @ take 14 (cx_treq_nonce ctx'))"
    using assms(4) by (auto simp: cipher_defs)
  then have "check_server_hello cenv cctx (Some b) (hdr @ server_hello_body (hp_cipher h) random (cx_treq_nonce ctx')) =
      Some (0, (store_peer b (q\<lparr>pr_handshake := Some ((set_server_random random
          (set_hash (dtls_hash_update (hs_hash (hp_hs_state g)) (hdr @ server_hello_body (hp_cipher h) random
             (cx_treq_nonce ctx'))) g))\<lparr>hp_cipher := hp_cipher h\<rparr>)\<rparr>) cctx)
        \<lparr>cx_treq_nonce := (if hp_cipher h = TLS_PSK_WITH_AES_128_CCM_8 then cx_treq_nonce ctx'
          else server_hello_extensions @ take 14 (cx_treq_nonce ctx'))\<rparr>)"
    using server_hello_parsed [OF assms(5,6,7,4,8) s(3,4)] by (simp only:)
  with s show ?thesis by (intro exI conjI)
qed

lemma server_hello_received_witness:
  "\<exists>ctx' random body. dtls_send_server_hello rt_env
      (store_peer 1 (peer_example 1\<lparr>pr_handshake := Some ((the (dtls_handshake_new True))\<lparr>hp_cipher := TLS_PSK_WITH_AES_128_CCM_8\<rparr>)\<rparr>) rt_ctx)
      (Some 1) = dtls_send_handshake_msg rt_env ctx' (Some 1) 2 (Some body) \<and>
    length (cx_treq_nonce ctx') = 32 \<and>
    map_option (\<lambda>(r, c). (r, cx_treq_nonce c)) (check_server_hello
      (rt_env\<lparr>ev_caps := \<lparr>cap_get_psk_info = True, cap_get_ecdsa_key = False, cap_verify_ecdsa_key = False\<rparr>\<rparr>)
      (store_peer 1 (peer_example 1\<lparr>pr_handshake := dtls_handshake_new True\<rparr>) rt_ctx) (Some 1) (replicate 12 0 @ body)) =
      Some (0, cx_treq_nonce ctx')"
  (is "\<exists>ctx' random body. dtls_send_server_hello _ ?ctx _ = _ ctx' body \<and> _ ctx' \<and> map_option _ (check_server_hello ?cenv ?cctx _ _) = _ ctx'")
proof -
  let ?h = "(the (dtls_handshake_new True))\<lparr>hp_cipher := TLS_PSK_WITH_AES_128_CCM_8\<rparr>"
  let ?g = "the (dtls_handshake_new True)"
  have h: "cx_ph ?ctx 1 = Some (peer_example 1\<lparr>pr_handshake := Some ?h\<rparr>)"
    "cx_ph ?cctx 1 = Some (peer_example 1\<lparr>pr_handshake := Some ?g\<rparr>)"
    "hp_compression ?h = 0" "hp_cipher ?h \<in> {TLS_PSK_WITH_AES_128_CCM_8, TLS_ECDHE_ECDSA_WITH_AES_128_CCM_8}"
    "known_cipher (ev_caps ?cenv) (hp_cipher ?h) True" "length (replicate 12 0 :: bytes) = 12"
    by (simp_all add: dtls_handshake_new_def known_cipher_def is_psk_supported_def is_tls_psk_with_aes_128_ccm_8_def)
  show ?thesis
    using server_hello_received [where env = rt_env, OF h(1) _ h(3,4) h(2) _ h(5,6)] by fastforce
qed

end
