(* ===== verification/Ntp.thy ===== *)
theory Ntp
  imports Prelude
begin

text \<open>
  The integer part of the time arithmetic of \<open>ntp.c\<close>. A \<open>struct timeval\<close> is a pair of 64-bit words,
  seconds and microseconds. The functions that go through \<open>double\<close> are not modelled.
\<close>

type_synonym timeval = "u64 \<times> u64"

definition tv_scale :: "u64 \<Rightarrow> timeval \<Rightarrow> timeval" where
  "tv_scale mult tv =
     (mult * fst tv + snd tv * mult div 1000 div 1000, snd tv * mult mod (1000 * 1000))"

text \<open>A division by zero is undefined.\<close>

definition tv_divide :: "u64 \<Rightarrow> timeval \<Rightarrow> timeval option" where
  "tv_divide divisor tv =
     (if divisor = 0 then None
      else let x = (fst tv * 1000 * 1000 + snd tv) div divisor
           in Some (x div 1000 div 1000, x mod (1000 * 1000)))"

text \<open>The carry is the part of the microseconds above \<open>2 ^ 32\<close>, and it is not taken away from them.\<close>

definition NTP_add :: "timeval \<Rightarrow> timeval \<Rightarrow> timeval" where
  "NTP_add a b = (let frac = snd a + snd b in (fst a + fst b + signed_drop_bit 32 frac, frac))"

text \<open>The time in microseconds.\<close>

definition micros :: "timeval \<Rightarrow> nat" where
  "micros tv = unat (fst tv) * 10 ^ 6 + unat (snd tv)"

lemma unat_small_mult: "unat (a * b) = unat a * unat b" if "unat a * unat b < 2 ^ 64" for a b :: u64
  using that by (simp add: unat_word_ariths)

lemma unat_small_add: "unat (a + b) = unat a + unat b" if "unat a + unat b < 2 ^ 64" for a b :: u64
  using that by (simp add: unat_word_ariths)

lemma million_parts: "n div 1000 div 1000 * 1000000 + n mod (1000 * 1000) = (n :: nat)"
  by (simp flip: div_mult2_eq)

lemma tv_scale_micros:
  assumes "unat m * micros tv < 2 ^ 64"
  shows "micros (tv_scale m tv) = unat m * micros tv \<and> unat (snd (tv_scale m tv)) < 10 ^ 6"
proof -
  let ?n = "unat (snd tv) * unat m"
  have s: "unat m * (unat (fst tv) * 1000000) + unat m * unat (snd tv) < 2 ^ 64"
    using assms by (simp add: micros_def algebra_simps)
  have b: "unat m * unat (fst tv) < 2 ^ 64" "?n < 2 ^ 64"
    using s by (simp_all add: algebra_simps)
  have q: "unat (snd tv * m div 1000 div 1000) = ?n div 1000 div 1000"
    "unat (snd tv * m mod (1000 * 1000)) = ?n mod (1000 * 1000)"
    using b(2) by (simp_all add: unat_div unat_mod unat_small_mult)
  have "?n div 1000 div 1000 \<le> ?n" by (meson div_le_dividend order_trans)
  then have "unat m * unat (fst tv) + ?n div 1000 div 1000 < 2 ^ 64"
    using s by (simp add: algebra_simps)
  then have f: "unat (fst (tv_scale m tv)) = unat m * unat (fst tv) + ?n div 1000 div 1000"
    unfolding tv_scale_def fst_conv using b(1) q(1) by (simp add: unat_small_mult unat_small_add)
  have "micros (tv_scale m tv) = (unat m * unat (fst tv) + ?n div 1000 div 1000) * 1000000 + ?n mod (1000 * 1000)"
    using q(2) unfolding micros_def f by (simp add: tv_scale_def)
  also have "\<dots> = unat m * unat (fst tv) * 1000000 + ?n"
    using million_parts [of ?n] by (simp only: distrib_right add.assoc)
  finally show ?thesis using q(2) by (simp add: micros_def tv_scale_def algebra_simps)
qed

lemma tv_divide_micros:
  assumes "micros tv < 2 ^ 64" and "d \<noteq> 0"
  shows "\<exists>r. tv_divide d tv = Some r \<and> micros r = micros tv div unat d \<and> unat (snd r) < 10 ^ 6"
proof -
  have b: "unat (fst tv) * 1000000 + unat (snd tv) < 2 ^ 64" using assms(1) by (simp add: micros_def)
  have "unat (fst tv * 1000 * 1000) = unat (fst tv) * 1000000"
    using b by (simp add: mult.assoc unat_word_ariths)
  then have x: "unat ((fst tv * 1000 * 1000 + snd tv) div d) = micros tv div unat d"
    using b by (simp add: unat_div unat_small_add micros_def)
  then have y: "unat (1000000 * fst tv + snd tv) div unat d = micros tv div unat d"
    by (simp add: unat_div algebra_simps)
  show ?thesis
    using assms(2) million_parts [of "micros tv div unat d"]
    by (simp add: tv_divide_def Let_def micros_def [of "(_, _)"] unat_div unat_mod y)
qed

lemma NTP_add_micros:
  assumes "unat (snd a) < 10 ^ 6" and "unat (snd b) < 10 ^ 6" and "unat (fst a) + unat (fst b) < 2 ^ 64"
  shows "micros (NTP_add a b) = micros a + micros b \<and> snd (NTP_add a b) = snd a + snd b"
proof -
  have f: "unat (snd a + snd b) = unat (snd a) + unat (snd b)"
    using assms by (intro unat_small_add) simp
  then have l: "unat (snd a + snd b) < 2 ^ 32" using assms by simp
  have "\<not> bit (snd a + snd b) k" if "32 \<le> k" for k
  proof -
    have "unat (snd a + snd b) < 2 ^ k" using l that by (meson less_le_trans one_le_numeral power_increasing)
    then have "\<not> bit (unat (snd a + snd b)) k" by (simp add: bit_iff_odd)
    then show ?thesis by (simp add: bit_unsigned_iff impossible_bit)
  qed
  then have "signed_drop_bit 32 (snd a + snd b) = 0"
    by (intro bit_word_eqI) (simp add: bit_signed_drop_bit_iff)
  then show ?thesis
    using f assms(3) by (simp add: NTP_add_def Let_def micros_def unat_small_add)
qed

text \<open>Times are exact in microseconds: as long as the total fits in 64 bits, \<open>tv_scale\<close> multiplies
  and \<open>tv_divide\<close> divides the number of microseconds, both with a normalised result, and \<open>tv_divide\<close>
  is undefined exactly for the divisor 0. \<open>NTP_add\<close> adds normalised times, but its result is not
  normalised: the microseconds are just the sum, without a carry at one million.\<close>

lemma time_arithmetic_exact:
  assumes "unat m * micros tv < 2 ^ 64" and "micros tv < 2 ^ 64"
    and "unat (snd tv) < 10 ^ 6" and "unat (snd b) < 10 ^ 6" and "unat (fst tv) + unat (fst b) < 2 ^ 64"
  shows "micros (tv_scale m tv) = unat m * micros tv \<and> unat (snd (tv_scale m tv)) < 10 ^ 6 \<and>
    (case tv_divide m tv of None \<Rightarrow> m = 0 | Some r \<Rightarrow> micros r = micros tv div unat m \<and> unat (snd r) < 10 ^ 6) \<and>
    micros (NTP_add tv b) = micros tv + micros b \<and> snd (NTP_add tv b) = snd tv + snd b"
proof -
  have "case tv_divide m tv of None \<Rightarrow> m = 0 | Some r \<Rightarrow> micros r = micros tv div unat m \<and> unat (snd r) < 10 ^ 6"
    using tv_divide_micros [OF assms(2), of m] by (cases "m = 0") (auto simp: tv_divide_def)
  then show ?thesis
    using tv_scale_micros [OF assms(1)] NTP_add_micros [OF assms(3-5)] by blast
qed

lemma time_arithmetic_exact_witness:
  "micros (tv_scale 3 (7, 900000)) = 23700000 \<and> micros (NTP_add (7, 900000) (1, 500000)) = 9400000 \<and>
   snd (NTP_add (7, 900000) (1, 500000)) = 1400000"
proof -
  have "micros (7, 900000) = 7900000" "micros (1, 500000) = 1500000" by (simp_all add: micros_def)
  then show ?thesis using time_arithmetic_exact [of 3 "(7, 900000)" "(1, 500000)"] by simp
qed

end
