(* ===== verification/Tesla.thy ===== *)
theory Tesla
  imports ClientFlight Ntp
begin

text \<open>
  The TESLA extension of \<open>dtls.c\<close> and \<open>tesla.h\<close>: the key chain and the synchronisation record the
  client signs and sends in its ClientKeyExchange, what the server takes from it, the extension
  \<open>dtls_write\<close> appends to application data, and its check on arrival. The K2SN-MSS signature is a
  function of the environment.
\<close>

subsection \<open>Keyed hashing\<close>

definition hmac_key2 :: bytes where
  "hmac_key2 = [0x95, 0xab, 0x3f, 0xab, 0x54, 0x53, 0xde, 0x39, 0xb3, 0xde, 0x73, 0x36, 0x4a, 0x73, 0x29, 0x45,
     0x6b, 0x4f, 0xb7, 0x8b, 0xd2, 0x49, 0xa6, 0xc5, 0x46, 0xec, 0xae, 0xb1, 0x29, 0x7f, 0x61, 0x3b]"

text \<open>A context is allocated, fed once and finalized; without memory the code follows a null pointer.\<close>

definition run_hmac :: "dtls_env \<Rightarrow> dtls_context_t \<Rightarrow> bytes \<Rightarrow> bytes \<Rightarrow> (bytes \<times> dtls_context_t) option" where
  "run_hmac env ctx key m = do {
     let (ok, ctx) = malloc_ok env ctx;
     c \<leftarrow> dtls_hmac_new ok key;
     let (result, len, _) = dtls_hmac_finalize (dtls_hmac_update c m);
     Some (result, ctx) }"

definition gettimeofday :: "dtls_env \<Rightarrow> dtls_context_t \<Rightarrow> timeval \<times> dtls_context_t" where
  "gettimeofday env ctx = (ev_time env (cx_clock ctx), ctx\<lparr>cx_clock := cx_clock ctx + 1\<rparr>)"

definition malloc_or_crash :: "dtls_env \<Rightarrow> dtls_context_t \<Rightarrow> dtls_context_t option" where
  "malloc_or_crash env ctx = (let (ok, ctx) = malloc_ok env ctx in if ok then Some ctx else None)"

subsection \<open>The synchronisation record\<close>

definition timeval_bytes :: "timeval \<Rightarrow> bytes" where
  "timeval_bytes tv = dtls_int_to_uint64 (fst tv) @ dtls_int_to_uint64 (snd tv)"

definition tesla_sync_bytes :: "tesla_sync \<Rightarrow> bytes" where
  "tesla_sync_bytes t = ts_nonce t @ ts_T_sender t @ ts_rate t @ ts_interval_id t @ ts_T_start t @ ts_T_int t @
     ts_dis_delay t @ ts_key_chain_len t @ ts_Key_comm t"

text \<open>Of the rate only the first byte is hashed.\<close>

definition tesla_sync_hash :: "tesla_sync \<Rightarrow> bytes" where
  "tesla_sync_hash t =
     fst (dtls_hash_finalize (fold (\<lambda>d c. dtls_hash_update c d)
       [ts_nonce t, ts_T_sender t, take 1 (ts_rate t), ts_interval_id t, ts_T_start t, ts_T_int t,
        ts_dis_delay t, ts_key_chain_len t, ts_Key_comm t] dtls_hash_init))"

definition ksnmss_sig_bytes :: "ksnmss_sig \<Rightarrow> bytes" where
  "ksnmss_sig_bytes sig =
     dtls_int_to_uint64 (ucast (sg_id sig)) @ sg_message sig @ sg_sksum sig @ concat (sg_pk sig) @ concat (sg_auth sig)"

text \<open>The loop over \<open>k\<close> from 999 down to 0: the key array and the last seed.\<close>

fun key_chain_loop ::
  "dtls_env \<Rightarrow> bytes \<Rightarrow> nat \<Rightarrow> bytes \<Rightarrow> bytes list \<Rightarrow> dtls_context_t \<Rightarrow>
   (bytes \<times> bytes list \<times> dtls_context_t) option" where
  "key_chain_loop env key 0 seed K ctx = Some (seed, K, ctx)"
| "key_chain_loop env key (Suc k) seed K ctx = do {
     (v, ctx) \<leftarrow> run_hmac env ctx key seed;
     key_chain_loop env key k v (K[k := v]) ctx }"

subsection \<open>ClientKeyExchange, sending\<close>

text \<open>The part that belongs to the cipher suite: an error or 0, its bytes, the new parameters.\<close>

definition client_key_exchange ::
  "dtls_env \<Rightarrow> dtls_context_t \<Rightarrow> session_t \<Rightarrow> dtls_handshake_parameters_t \<Rightarrow>
   (int \<times> bytes \<times> dtls_handshake_parameters_t \<times> dtls_context_t) option" where
  "client_key_exchange env ctx session h =
     (if hp_cipher h = TLS_PSK_WITH_AES_128_CCM_8 then
        (let (len, ident) = get_psk_info env session 1
               (take (unat (psk_id_length (hp_psk h))) (psk_identity (hp_psk h))) 32 in
         if len < 0 then Some (len, [], h, ctx)
         else if nat len + 2 > 21619 then
           Some (INTERNAL_ERROR, [], h\<lparr>hp_psk := \<lparr>psk_id_length = 0, psk_identity = replicate 32 0\<rparr>\<rparr>, ctx)
         else do {
           b \<leftarrow> rd_n ident 0 (nat len);
           i \<leftarrow> wr_n (psk_identity (hp_psk h)) 0 b;
           let id_length = word_of_nat (nat len);
           Some (0, dtls_int_to_uint16 id_length @ take (unat id_length) i,
                 h\<lparr>hp_psk := \<lparr>psk_id_length = id_length, psk_identity = i\<rparr>\<rparr>, ctx) })
      else if hp_cipher h = TLS_ECDHE_ECDSA_WITH_AES_128_CCM_8 then do {
        (own, x, y, pos) \<leftarrow> dtls_ecdsa_generate_key (ev_random env) (cx_rnd ctx) 32;
        Some (0, dtls_int_to_uint8 65 @ dtls_int_to_uint8 4 @ x @ y,
              h\<lparr>hp_ecdsa := (hp_ecdsa h)\<lparr>ec_own_eph_priv := own\<rparr>\<rparr>, ctx\<lparr>cx_rnd := pos\<rparr>) }
      else Some (INTERNAL_ERROR, [], h, ctx))"

text \<open>The result of the client's own verification of its signature is only printed.\<close>

definition dtls_send_client_key_exchange ::
  "dtls_env \<Rightarrow> dtls_context_t \<Rightarrow> ptr \<Rightarrow> (int \<times> dtls_context_t) option" where
  "dtls_send_client_key_exchange env ctx peer =
     (let (_, ctx) = fill_random env 32 ctx in
      with_hs ctx peer (\<lambda>a p h. do {
        (err, kx, h, ctx) \<leftarrow> client_key_exchange env ctx (pr_session p) h;
        ctx \<leftarrow> put_hs a (Some h) ctx;
        if err < 0 then Some (err, ctx)
        else do {
          let (now, ctx) = gettimeofday env ctx;
          let (now2, ctx) = gettimeofday env ctx;
          let (_, ctx) = fill_random env 32 ctx;
          let (key1, ctx) = fill_random env 32 ctx;
          let ctx = ctx\<lparr>cx_hmac_key1 := key1\<rparr>;
          let (seed, ctx) = fill_random env 32 ctx;
          p \<leftarrow> cx_ph ctx a;
          (last_seed, K, ctx) \<leftarrow> key_chain_loop env key1 1000 seed (pr_K p) ctx;
          let ctx = store_peer a (p\<lparr>pr_K := K\<rparr>) ctx;
          (comm, ctx) \<leftarrow> run_hmac env ctx key1 last_seed;
          let tsync = \<lparr>ts_nonce = cx_treq_nonce ctx, ts_T_sender = timeval_bytes now,
                ts_rate = dtls_int_to_uint32 1, ts_interval_id = dtls_int_to_uint32 0,
                ts_T_start = timeval_bytes (NTP_add now2 (ev_from_millis env 2000)),
                ts_T_int = dtls_int_to_uint32 1, ts_dis_delay = dtls_int_to_uint8 1,
                ts_key_chain_len = dtls_int_to_uint32 1500, ts_Key_comm = comm\<rparr>;
          let ctx = ctx\<lparr>cx_tsync := tsync\<rparr>;
          ctx \<leftarrow> malloc_or_crash env ctx;
          let sig = ev_ksnmss_sign env (tesla_sync_hash tsync);
          let buf = kx @ tesla_sync_bytes tsync @ ksnmss_sig_bytes sig @ cx_MSSPK ctx;
          if length buf > 21619 then None
          else dtls_send_handshake_msg env ctx peer 16 (Some buf) } }))"

subsection \<open>ClientKeyExchange, receiving\<close>

fun chunks :: "nat \<Rightarrow> nat \<Rightarrow> bytes \<Rightarrow> bytes list" where
  "chunks 0 k bs = []"
| "chunks (Suc n) k bs = take k bs # chunks n k (drop k bs)"

text \<open>The record, the signature and the public key are the last 21553 bytes of the message; in a
  shorter message they start in front of it. The result is the hash and the signature that are
  passed to \<open>ksnmss_verify\<close>, whose result is only printed, and the new context.\<close>

definition receive_tesla_sync ::
  "dtls_env \<Rightarrow> dtls_context_t \<Rightarrow> bytes \<Rightarrow> (bytes \<times> ksnmss_sig \<times> dtls_context_t) option" where
  "receive_tesla_sync env ctx data =
     (if length data < 113 + 21368 + 72 then None
      else do {
        let p = drop (length data - (113 + 21368 + 72)) data;
        ctx \<leftarrow> malloc_or_crash env ctx;
        ctx \<leftarrow> malloc_or_crash env ctx;
        let tsync = \<lparr>ts_nonce = take 32 p, ts_T_sender = take 16 (drop 32 p), ts_rate = take 4 (drop 48 p),
              ts_interval_id = take 4 (drop 52 p), ts_T_start = take 16 (drop 56 p), ts_T_int = take 4 (drop 72 p),
              ts_dis_delay = take 1 (drop 76 p), ts_key_chain_len = take 4 (drop 77 p),
              ts_Key_comm = take 32 (drop 81 p)\<rparr>;
        let q = drop 113 p;
        ctx \<leftarrow> malloc_or_crash env ctx;
        id \<leftarrow> dtls_uint64_to_int q;
        let sig = \<lparr>sg_id = ucast id, sg_message = take 32 (drop 8 q), sg_sksum = take 1024 (drop 40 q),
              sg_pk = chunks 262 72 (drop 1064 q), sg_auth = chunks 20 72 (drop (1064 + 262 * 72) q)\<rparr>;
        Some (tesla_sync_hash tsync, sig, ctx\<lparr>cx_tsync := tsync, cx_MSSPK := take 72 (drop 21368 q)\<rparr>) })"

subsection \<open>Application data\<close>

definition row :: "bytes list \<Rightarrow> nat \<Rightarrow> bytes option" where
  "row K i = (if i < length K then Some (K ! i) else None)"

text \<open>The part of \<open>dtls_write\<close> that extends the payload in the buffer of the caller. It uses the first
  peer of the list; a key beyond the chain is read out of bounds.\<close>

definition tesla_extend ::
  "dtls_env \<Rightarrow> dtls_context_t \<Rightarrow> bytes \<Rightarrow> nat \<Rightarrow> (bytes \<times> dtls_context_t) option" where
  "tesla_extend env ctx buf len = do {
     a \<leftarrow> cx_peers ctx;
     p \<leftarrow> cx_ph ctx a;
     let t_index = pr_int_index p;
     k \<leftarrow> row (pr_K p) (unat t_index);
     (buf, mac, ctx) \<leftarrow>
       (if pr_role p = DTLS_CLIENT then do {
          key \<leftarrow> (if t_index = 0 then Some (ts_Key_comm (cx_tsync ctx)) else row (pr_K p) (unat t_index - 1));
          buf \<leftarrow> wr_n buf len (dtls_int_to_uint32 t_index);
          buf \<leftarrow> wr_n buf (len + 4) key;
          (mac_key, ctx) \<leftarrow> run_hmac env ctx hmac_key2 k;
          (mac, ctx) \<leftarrow> run_hmac env ctx mac_key (take (len + 36) buf);
          buf \<leftarrow> wr_n buf (len + 36) mac;
          Some (buf, mac, ctx) }
        else Some (buf, pr_tesla_mac p, ctx));
     Some (buf, store_peer a (p\<lparr>pr_tesla_mac := mac, pr_int_index := t_index + 1\<rparr>) ctx) }"

text \<open>The part of \<open>dtls_handle_message\<close> that takes the extension off. The interval is the receiver's own
  counter, not the one in the packet. From interval 1 on the MAC of the packet stored before is
  recomputed with the key revealed now, over the length of the packet received now. The result of
  the comparison, returned here, is only printed by the code. Less than 68 bytes make the payload
  length negative.\<close>

definition tesla_receive ::
  "dtls_env \<Rightarrow> dtls_context_t \<Rightarrow> bytes \<Rightarrow> (bytes \<times> bool option \<times> dtls_context_t) option" where
  "tesla_receive env ctx data = do {
     a \<leftarrow> cx_peers ctx;
     p \<leftarrow> cx_ph ctx a;
     if length data < 68 then None
     else do {
       let n = length data - 68;
       let t_index = pr_int_index p;
       let key = take 32 (drop (n + 4) data);
       let packet_mac = take 32 (drop (n + 36) data);
       ctx \<leftarrow> malloc_or_crash env ctx;
       ctx \<leftarrow> malloc_or_crash env ctx;
       let (_, ctx) = gettimeofday env ctx;
       (checked, ctx) \<leftarrow>
         (if t_index = 0 then Some (None, ctx)
          else do {
            (mac_key, ctx) \<leftarrow> run_hmac env ctx hmac_key2 key;
            m \<leftarrow> rd_n (ps_t_msg (pr_tesla_ps p)) 0 (n + 36);
            (mac, ctx) \<leftarrow> run_hmac env ctx mac_key m;
            Some (Some (mac = ps_packet_mac (pr_tesla_ps p)), ctx) });
       t_msg \<leftarrow> wr_n (ps_t_msg (pr_tesla_ps p)) 0 (take (n + 36) data);
       let ps = \<lparr>ps_t_id = t_index, ps_t_msg = t_msg, ps_reveal_key = key, ps_packet_mac = packet_mac\<rparr>;
       Some (take n data, checked, store_peer a (p\<lparr>pr_tesla_ps := ps\<rparr>) ctx) } }"

subsection \<open>The key chain\<close>

text \<open>\<open>n\<close> steps down the chain from a key.\<close>

definition chain :: "bytes \<Rightarrow> nat \<Rightarrow> bytes \<Rightarrow> bytes" where
  "chain key n x = (HMAC key ^^ n) x"

lemma chain_simps [simp]: "chain key 0 x = x" "chain key (Suc n) x = chain key n (HMAC key x)"
  by (simp_all add: chain_def funpow_swap1)

lemma chain_last: "HMAC key (chain key n x) = chain key (Suc n) x"
  by (induction n arbitrary: x) simp_all

lemma chain_add: "chain key m (chain key n x) = chain key (m + n) x"
  by (simp add: chain_def funpow_add)

lemma run_hmac_value:
  assumes "alloc_all env"
  shows "run_hmac env ctx key m = Some (HMAC key m, bump 1 ctx)"
  using assms hmac.digest_one [of key m]
  by (cases "dtls_hmac_finalize (dtls_hmac_update (dtls_hmac_init key) m)")
    (simp add: run_hmac_def malloc_ok_def alloc_all_def dtls_hmac_new_def bump_def)

lemma malloc_or_crash_value: "alloc_all env \<Longrightarrow> malloc_or_crash env ctx = Some (bump 1 ctx)"
  by (simp add: malloc_or_crash_def malloc_ok_def alloc_all_def bump_def)

lemma key_chain_loop_value:
  assumes "alloc_all env" and "n \<le> length K"
  shows "key_chain_loop env key n seed K ctx =
    Some (chain key n seed, map (\<lambda>i. chain key (n - i) seed) [0..<n] @ drop n K, bump n ctx)"
  using assms(2)
proof (induction n arbitrary: seed K ctx)
  case 0
  then show ?case by (simp add: bump_def)
next
  case (Suc n)
  have "map (\<lambda>i. chain key (n - i) (HMAC key seed)) [0..<n] = map (\<lambda>i. chain key (Suc n - i) seed) [0..<n]"
    by (rule map_cong) (auto simp: Suc_diff_le)
  moreover have "drop n (K[n := HMAC key seed]) = HMAC key seed # drop (Suc n) K"
    using Suc.prems by (metis Cons_nth_drop_Suc Suc_le_lessD drop_update_cancel length_list_update lessI nth_list_update_eq)
  ultimately show ?case
    using Suc.IH [of "K[n := HMAC key seed]" "HMAC key seed" "bump 1 ctx"] Suc.prems
    by (simp add: run_hmac_value [OF assms(1)])
qed

subsection \<open>The synchronisation record survives the transport\<close>

definition tesla_sync_ok :: "tesla_sync \<Rightarrow> bool" where
  "tesla_sync_ok t \<longleftrightarrow> length (ts_nonce t) = 32 \<and> length (ts_T_sender t) = 16 \<and> length (ts_rate t) = 4 \<and>
     length (ts_interval_id t) = 4 \<and> length (ts_T_start t) = 16 \<and> length (ts_T_int t) = 4 \<and>
     length (ts_dis_delay t) = 1 \<and> length (ts_key_chain_len t) = 4 \<and> length (ts_Key_comm t) = 32"

definition ksnmss_sig_ok :: "ksnmss_sig \<Rightarrow> bool" where
  "ksnmss_sig_ok s \<longleftrightarrow> length (sg_message s) = 32 \<and> length (sg_sksum s) = 1024 \<and>
     length (sg_pk s) = 262 \<and> (\<forall>x\<in>set (sg_pk s). length x = 72) \<and>
     length (sg_auth s) = 20 \<and> (\<forall>x\<in>set (sg_auth s). length x = 72)"

lemma chunks_concat:
  "\<forall>x\<in>set xs. length x = k \<Longrightarrow> chunks (length xs) k (concat xs @ r) = xs"
  by (induction xs) simp_all

lemma length_concat_const: "\<forall>x\<in>set xs. length x = k \<Longrightarrow> length (concat xs) = length xs * k"
  by (induction xs) simp_all

lemma length_sig_bytes:
  assumes "ksnmss_sig_ok s"
  shows "length (ksnmss_sig_bytes s) = 21368"
proof -
  have "length (concat (sg_pk s)) = 262 * 72" "length (concat (sg_auth s)) = 20 * 72"
    using assms length_concat_const [of "sg_pk s" 72] length_concat_const [of "sg_auth s" 72]
    by (simp_all add: ksnmss_sig_ok_def)
  then show ?thesis using assms by (simp add: ksnmss_sig_bytes_def ksnmss_sig_ok_def)
qed

lemma length_sync_bytes: "tesla_sync_ok t \<Longrightarrow> length (tesla_sync_bytes t) = 113"
  by (simp add: tesla_sync_bytes_def tesla_sync_ok_def)

lemma drop_exact: "length a = n \<Longrightarrow> drop n (a @ b) = b" by simp

lemma drop_more: "drop m p = a @ b \<Longrightarrow> n = m + length a \<Longrightarrow> drop n p = b"
  by (metis add.commute append_eq_conv_conj drop_drop)

lemma ucast_up_down: "ucast (ucast x :: u64) = x" for x :: u32
  by (rule bit_word_eqI) (auto simp: bit_ucast_iff)

lemma receive_sync_value:
  assumes a: "alloc_all env" and t: "tesla_sync_ok t" and s: "ksnmss_sig_ok sig" and k: "length pk = 72"
  shows "receive_tesla_sync env ctx (pre @ tesla_sync_bytes t @ ksnmss_sig_bytes sig @ pk) =
    Some (tesla_sync_hash t, sig, bump 3 ctx\<lparr>cx_tsync := t, cx_MSSPK := pk\<rparr>)"
proof -
  let ?q = "ksnmss_sig_bytes sig @ pk"
  let ?p = "tesla_sync_bytes t @ ?q"
  have len: "length ?p = 113 + 21368 + 72" using length_sync_bytes [OF t] length_sig_bytes [OF s] k by simp
  have p: "drop (length (pre @ ?p) - (113 + 21368 + 72)) (pre @ ?p) = ?p"
    unfolding length_append [of pre] len by simp
  have nl: "\<not> length (pre @ ?p) < 113 + 21368 + 72" unfolding length_append [of pre] len by simp
  note l = t [unfolded tesla_sync_ok_def]
  have "drop 0 ?p = ts_nonce t @ ts_T_sender t @ ts_rate t @ ts_interval_id t @ ts_T_start t @ ts_T_int t @
     ts_dis_delay t @ ts_key_chain_len t @ ts_Key_comm t @ ?q" by (simp add: tesla_sync_bytes_def)
  note d0 = this
  have d1: "drop 32 ?p = ts_T_sender t @ ts_rate t @ ts_interval_id t @ ts_T_start t @ ts_T_int t @
     ts_dis_delay t @ ts_key_chain_len t @ ts_Key_comm t @ ?q" by (rule drop_more [OF d0]) (simp add: l)
  have d2: "drop 48 ?p = ts_rate t @ ts_interval_id t @ ts_T_start t @ ts_T_int t @
     ts_dis_delay t @ ts_key_chain_len t @ ts_Key_comm t @ ?q" by (rule drop_more [OF d1]) (simp add: l)
  have d3: "drop 52 ?p = ts_interval_id t @ ts_T_start t @ ts_T_int t @
     ts_dis_delay t @ ts_key_chain_len t @ ts_Key_comm t @ ?q" by (rule drop_more [OF d2]) (simp add: l)
  have d4: "drop 56 ?p = ts_T_start t @ ts_T_int t @ ts_dis_delay t @ ts_key_chain_len t @ ts_Key_comm t @ ?q"
    by (rule drop_more [OF d3]) (simp add: l)
  have d5: "drop 72 ?p = ts_T_int t @ ts_dis_delay t @ ts_key_chain_len t @ ts_Key_comm t @ ?q"
    by (rule drop_more [OF d4]) (simp add: l)
  have d6: "drop 76 ?p = ts_dis_delay t @ ts_key_chain_len t @ ts_Key_comm t @ ?q"
    by (rule drop_more [OF d5]) (simp add: l)
  have d7: "drop 77 ?p = ts_key_chain_len t @ ts_Key_comm t @ ?q" by (rule drop_more [OF d6]) (simp add: l)
  have d8: "drop 81 ?p = ts_Key_comm t @ ?q" by (rule drop_more [OF d7]) (simp add: l)
  have d9: "drop 113 ?p = ?q" by (rule drop_more [OF d8]) (simp add: l)
  have t': "\<lparr>ts_nonce = take 32 ?p, ts_T_sender = take 16 (drop 32 ?p), ts_rate = take 4 (drop 48 ?p),
              ts_interval_id = take 4 (drop 52 ?p), ts_T_start = take 16 (drop 56 ?p), ts_T_int = take 4 (drop 72 ?p),
              ts_dis_delay = take 1 (drop 76 ?p), ts_key_chain_len = take 4 (drop 77 ?p),
              ts_Key_comm = take 32 (drop 81 ?p)\<rparr> = t"
    unfolding d1 d2 d3 d4 d5 d6 d7 d8 using l by (simp add: tesla_sync_bytes_def)
  note m = s [unfolded ksnmss_sig_ok_def]
  have q0: "drop 0 ?q = dtls_int_to_uint64 (ucast (sg_id sig)) @ sg_message sig @ sg_sksum sig @ concat (sg_pk sig) @
      concat (sg_auth sig) @ pk" by (simp add: ksnmss_sig_bytes_def)
  have q1: "drop 8 ?q = sg_message sig @ sg_sksum sig @ concat (sg_pk sig) @ concat (sg_auth sig) @ pk"
    by (rule drop_more [OF q0]) simp
  have q2: "drop 40 ?q = sg_sksum sig @ concat (sg_pk sig) @ concat (sg_auth sig) @ pk"
    by (rule drop_more [OF q1]) (simp add: m)
  have q3: "drop 1064 ?q = concat (sg_pk sig) @ concat (sg_auth sig) @ pk"
    by (rule drop_more [OF q2]) (simp add: m)
  have lc: "length (concat (sg_pk sig)) = 262 * 72" "length (concat (sg_auth sig)) = 20 * 72"
    using m length_concat_const [of "sg_pk sig" 72] length_concat_const [of "sg_auth sig" 72] by simp_all
  have q4: "drop (1064 + 262 * 72) ?q = concat (sg_auth sig) @ pk"
    by (rule drop_more [OF q3]) (simp only: lc)
  have q5: "drop 21368 ?q = pk" by (rule drop_more [OF q4]) (simp add: lc)
  have i: "dtls_uint64_to_int ?q = Some (ucast (sg_id sig))"
    using q0 uint64_roundtrip by (simp only: drop0)
  have c: "chunks 262 72 (drop 1064 ?q) = sg_pk sig" "chunks 20 72 (drop (1064 + 262 * 72) ?q) = sg_auth sig"
    unfolding q3 q4 using m chunks_concat [of "sg_pk sig" 72] chunks_concat [of "sg_auth sig" 72] by metis+
  have s': "\<lparr>sg_id = ucast (ucast (sg_id sig) :: u64), sg_message = take 32 (drop 8 ?q), sg_sksum = take 1024 (drop 40 ?q),
              sg_pk = chunks 262 72 (drop 1064 ?q), sg_auth = chunks 20 72 (drop (1064 + 262 * 72) ?q)\<rparr> = sig"
    unfolding c unfolding q1 q2 using m by (simp add: ucast_up_down)
  show ?thesis
    unfolding receive_tesla_sync_def if_not_P [OF nl] p Let_def t' d9 malloc_or_crash_value [OF a]
      Option.bind.bind_lunit i s' q5 using k by (simp add: bump_def)
qed

subsection \<open>What the client sends\<close>

lemma client_key_exchange_ctx:
  "client_key_exchange env ctx session h = Some (err, kx, h', ctx') \<Longrightarrow> \<exists>pos. ctx' = ctx\<lparr>cx_rnd := pos\<rparr>"
proof -
  have s: "\<exists>pos. ctx = ctx\<lparr>cx_rnd := pos\<rparr>" by (rule exI [of _ "cx_rnd ctx"]) simp
  show "client_key_exchange env ctx session h = Some (err, kx, h', ctx') \<Longrightarrow> \<exists>pos. ctx' = ctx\<lparr>cx_rnd := pos\<rparr>"
    using s by (auto simp: client_key_exchange_def Let_def split: if_splits prod.splits bind_splits)
qed

lemma length_timeval_bytes: "length (timeval_bytes tv) = 16"
  by (simp add: timeval_bytes_def)

lemma fill_random_fields:
  "cx_ph (snd (fill_random env n ctx)) = cx_ph ctx" "cx_treq_nonce (snd (fill_random env n ctx)) = cx_treq_nonce ctx"
  "cx_MSSPK (snd (fill_random env n ctx)) = cx_MSSPK ctx"
  by (simp_all add: fill_random_def dtls_fill_random_def)

lemma length_tesla_sync_hash: "length (tesla_sync_hash t) = 32"
  unfolding tesla_sync_hash_def hash.digest_pieces by (rule hash.digest_length)

lemma client_key_exchange_sent:
  assumes a: "alloc_all env" and p: "cx_ph ctx a = Some p" "pr_handshake p = Some h"
    and K: "length (pr_K p) = 1000" and n: "length (cx_treq_nonce ctx) = 32" "length (cx_MSSPK ctx) = 72"
    and sig: "\<And>m. length m = 32 \<Longrightarrow> ksnmss_sig_ok (ev_ksnmss_sign env m)"
    and kx: "client_key_exchange env (snd (fill_random env 32 ctx)) (pr_session p) h = Some (0, kx, h', ctx1)"
      "length kx \<le> 66"
  shows "\<exists>ctx' key seed. dtls_send_client_key_exchange env ctx (Some a) =
      dtls_send_handshake_msg env ctx' (Some a) 16 (Some (kx @ tesla_sync_bytes (cx_tsync ctx') @
        ksnmss_sig_bytes (ev_ksnmss_sign env (tesla_sync_hash (cx_tsync ctx'))) @ cx_MSSPK ctx)) \<and>
    tesla_sync_ok (cx_tsync ctx') \<and> ts_nonce (cx_tsync ctx') = cx_treq_nonce ctx \<and>
    ts_Key_comm (cx_tsync ctx') = chain key 1001 seed \<and>
    cx_ph ctx' a = Some (p\<lparr>pr_handshake := Some h', pr_K := map (\<lambda>i. chain key (1000 - i) seed) [0..<1000]\<rparr>)"
proof -
  define r0 c0 where "r0 = fst (fill_random env 32 ctx)" and "c0 = snd (fill_random env 32 ctx)"
  note kx = kx [folded c0_def]
  obtain pos where c1: "ctx1 = c0\<lparr>cx_rnd := pos\<rparr>" using client_key_exchange_ctx [OF kx(1)] by blast
  have p0: "cx_ph c0 a = Some p" using p by (simp add: fill_random_fields c0_def)
  have f1: "cx_ph ctx1 a = Some p" "cx_treq_nonce ctx1 = cx_treq_nonce ctx" "cx_MSSPK ctx1 = cx_MSSPK ctx"
    using p by (simp_all add: c1 c0_def fill_random_fields)
  define c2 where "c2 = store_peer a (p\<lparr>pr_handshake := Some h'\<rparr>) ctx1"
  have put: "put_hs a (Some h') ctx1 = Some c2" by (simp add: put_hs_def f1 c2_def)
  define now where "now = fst (gettimeofday env c2)"
  define c3 where "c3 = snd (gettimeofday env c2)"
  define now2 where "now2 = fst (gettimeofday env c3)"
  define c4 where "c4 = snd (gettimeofday env c3)"
  define r4 c5 where "r4 = fst (fill_random env 32 c4)" and "c5 = snd (fill_random env 32 c4)"
  define key where "key = fst (fill_random env 32 c5)"
  define d5 where "d5 = snd (fill_random env 32 c5)"
  define c6 where "c6 = d5\<lparr>cx_hmac_key1 := key\<rparr>"
  define seed where "seed = fst (fill_random env 32 c6)"
  define c7 where "c7 = snd (fill_random env 32 c6)"
  have f7: "cx_ph c7 a = Some (p\<lparr>pr_handshake := Some h'\<rparr>)" "cx_treq_nonce c7 = cx_treq_nonce ctx" "cx_MSSPK c7 = cx_MSSPK ctx"
    by (simp_all add: c7_def c6_def d5_def c5_def c4_def c3_def c2_def gettimeofday_def fill_random_fields store_peer_def f1)
  let ?K = "map (\<lambda>i. chain key (1000 - i) seed) [0..<1000]"
  have loop: "key_chain_loop env key 1000 seed (pr_K p) c7 = Some (chain key 1000 seed, ?K, bump 1000 c7)"
    using key_chain_loop_value [OF a, of 1000 "pr_K p" key seed c7] K by simp
  define c8 where "c8 = bump 1 (store_peer a (p\<lparr>pr_handshake := Some h', pr_K := ?K\<rparr>) (bump 1000 c7))"
  have comm: "run_hmac env (store_peer a (p\<lparr>pr_handshake := Some h', pr_K := ?K\<rparr>) (bump 1000 c7)) key (chain key 1000 seed) =
      Some (chain key 1001 seed, c8)"
    using run_hmac_value [OF a, of _ key "chain key 1000 seed"] chain_last [of key 1000 seed] by (simp add: c8_def)
  have f8: "cx_treq_nonce c8 = cx_treq_nonce ctx" "cx_MSSPK c8 = cx_MSSPK ctx"
    using f7 by (simp_all add: c8_def bump_def store_peer_def)
  define tsync where "tsync = \<lparr>ts_nonce = cx_treq_nonce c8, ts_T_sender = timeval_bytes now,
                ts_rate = dtls_int_to_uint32 1, ts_interval_id = dtls_int_to_uint32 0,
                ts_T_start = timeval_bytes (NTP_add now2 (ev_from_millis env 2000)),
                ts_T_int = dtls_int_to_uint32 1, ts_dis_delay = dtls_int_to_uint8 1,
                ts_key_chain_len = dtls_int_to_uint32 1500, ts_Key_comm = chain key 1001 seed\<rparr>"
  have hl: "length (HMAC key x) = 32" for x by (rule hmac.digest_length)
  have "length (chain key 1001 seed) = 32"
    using hl chain_last [of key 1000 seed] by (metis Suc_numeral num.inject(1) semiring_norm(5))
  then have ok: "tesla_sync_ok tsync"
    using n f8 by (simp add: tesla_sync_ok_def tsync_def length_timeval_bytes dtls_int_to_uint8_def)
  define c9 where "c9 = bump 1 (c8\<lparr>cx_tsync := tsync\<rparr>)"
  have f9: "cx_tsync c9 = tsync" "cx_MSSPK c9 = cx_MSSPK ctx"
    "cx_ph c9 a = Some (p\<lparr>pr_handshake := Some h', pr_K := ?K\<rparr>)"
    using f8 by (simp_all add: c9_def bump_def c8_def store_peer_def)
  let ?buf = "kx @ tesla_sync_bytes tsync @ ksnmss_sig_bytes (ev_ksnmss_sign env (tesla_sync_hash tsync)) @ cx_MSSPK ctx"
  have lb: "\<not> length ?buf > 21619"
    using kx(2) n length_sync_bytes [OF ok] length_sig_bytes [OF sig [OF length_tesla_sync_hash]] by simp
  have pairs: "fill_random env 32 ctx = (r0, c0)" "gettimeofday env c2 = (now, c3)"
    "gettimeofday env c3 = (now2, c4)" "fill_random env 32 c4 = (r4, c5)"
    "fill_random env 32 c5 = (key, d5)" "fill_random env 32 c6 = (seed, c7)"
    by (simp_all add: r0_def c0_def now_def now2_def c3_def c4_def r4_def c5_def key_def d5_def seed_def c7_def)
  have z: "\<not> (0 :: int) < 0" by simp
  have K': "pr_K (p\<lparr>pr_handshake := Some h'\<rparr>) = pr_K p" by simp
  have "dtls_send_client_key_exchange env ctx (Some a) = dtls_send_handshake_msg env c9 (Some a) 16 (Some ?buf)"
    unfolding dtls_send_client_key_exchange_def pairs(1) Let_def prod.case with_hs_value [OF p0 p(2)] kx(1)
      Option.bind.bind_lunit put if_not_P [OF z] pairs(2,3,4,5) c6_def [symmetric] pairs(6) f7(1) K' loop comm
      tsync_def [symmetric] malloc_or_crash_value [OF a] c9_def [symmetric] f9(2) if_not_P [OF lb] ..
  then show ?thesis
    using ok f9 f8 by (intro exI [of _ c9] exI [of _ key] exI [of _ seed]) (simp add: tsync_def)
qed

text \<open>The key chain: a ClientKeyExchange that gets as far as the TESLA part leaves in the peer the
  1000 keys of a hash chain under a fresh key, in reverse order of their computation, and announces
  as commitment the next element of the chain. So a key that is disclosed later is authentic exactly
  if as many steps as its index says lead to the commitment: key \<open>i\<close> leads to the commitment in
  \<open>i + 1\<close> steps, and to every key with a smaller index.\<close>

lemma tesla_key_chain:
  assumes "alloc_all env" and "cx_ph ctx a = Some p" and "pr_handshake p = Some h"
    and "length (pr_K p) = 1000" and "length (cx_treq_nonce ctx) = 32" and "length (cx_MSSPK ctx) = 72"
    and "\<And>m. length m = 32 \<Longrightarrow> ksnmss_sig_ok (ev_ksnmss_sign env m)"
    and "client_key_exchange env (snd (fill_random env 32 ctx)) (pr_session p) h = Some (0, kx, h', ctx1)"
    and "length kx \<le> 66"
  shows "\<exists>ctx' q key body. dtls_send_client_key_exchange env ctx (Some a) =
      dtls_send_handshake_msg env ctx' (Some a) 16 (Some body) \<and>
    cx_ph ctx' a = Some q \<and> length (pr_K q) = 1000 \<and>
    (\<forall>i<1000. chain key (i + 1) (pr_K q ! i) = ts_Key_comm (cx_tsync ctx')) \<and>
    (\<forall>i<1000. \<forall>j<i. chain key (i - j) (pr_K q ! i) = pr_K q ! j)"
proof -
  obtain ctx' key seed where s: "dtls_send_client_key_exchange env ctx (Some a) =
      dtls_send_handshake_msg env ctx' (Some a) 16 (Some (kx @ tesla_sync_bytes (cx_tsync ctx') @
        ksnmss_sig_bytes (ev_ksnmss_sign env (tesla_sync_hash (cx_tsync ctx'))) @ cx_MSSPK ctx))"
    "ts_Key_comm (cx_tsync ctx') = chain key 1001 seed"
    "cx_ph ctx' a = Some (p\<lparr>pr_handshake := Some h', pr_K := map (\<lambda>i. chain key (1000 - i) seed) [0..<1000]\<rparr>)"
    using client_key_exchange_sent [OF assms] by blast
  define K where "K = map (\<lambda>i. chain key (1000 - i) seed) [0..<1000]"
  have K: "length K = 1000" "\<And>i. i < 1000 \<Longrightarrow> K ! i = chain key (1000 - i) seed"
    by (simp_all add: K_def del: upt_rec_numeral)
  have "chain key (i + 1) (K ! i) = chain key 1001 seed" if "i < 1000" for i
  proof -
    have "i + 1 + (1000 - i) = 1001" using that by simp
    then show ?thesis unfolding K(2) [OF that] chain_add by simp
  qed
  moreover have "chain key (i - j) (K ! i) = K ! j" if "i < 1000" "j < i" for i j
  proof -
    have j: "j < 1000" using that by simp
    have "i - j + (1000 - i) = 1000 - j" using that by simp
    then show ?thesis unfolding K(2) [OF that(1)] K(2) [OF j] chain_add by simp
  qed
  ultimately show ?thesis
    using s K(1) unfolding K_def [symmetric]
    by - (rule exI [of _ ctx'], rule exI [of _ "p\<lparr>pr_handshake := Some h', pr_K := K\<rparr>"],
        rule exI [of _ key], rule exI, auto)
qed

text \<open>The ClientKeyExchange of the PSK suite arrives: from the message the client sends, the server
  reads back the identity, the whole synchronisation record and the public key, and it passes to the
  signature check the very hash that the client signed and the signature the client computed.\<close>

lemma client_key_exchange_received:
  assumes "alloc_all env" and "cx_ph ctx a = Some p" and "pr_handshake p = Some h"
    and "length (pr_K p) = 1000" and "length (cx_treq_nonce ctx) = 32" and "length (cx_MSSPK ctx) = 72"
    and "\<And>m. length m = 32 \<Longrightarrow> ksnmss_sig_ok (ev_ksnmss_sign env m)"
    and "hp_cipher h = TLS_PSK_WITH_AES_128_CCM_8" and "length (psk_identity (hp_psk h)) = 32"
    and "get_psk_info env (pr_session p) 1 (take (unat (psk_id_length (hp_psk h))) (psk_identity (hp_psk h))) 32 =
      (int (length ident), ident)" and "length ident \<le> 32"
    and "alloc_all senv" and "hp_cipher g = TLS_PSK_WITH_AES_128_CCM_8" and "length hdr = 12"
  shows "\<exists>ctx' body sctx'. dtls_send_client_key_exchange env ctx (Some a) =
      dtls_send_handshake_msg env ctx' (Some a) 16 (Some body) \<and>
    ts_nonce (cx_tsync ctx') = cx_treq_nonce ctx \<and>
    check_client_keyexchange (Some g) (hdr @ body) =
      Some (0, Some (g\<lparr>hp_psk := (hp_psk g)\<lparr>psk_id_length := word_of_nat (length ident),
        psk_identity := put 0 ident (psk_identity (hp_psk g))\<rparr>\<rparr>)) \<and>
    receive_tesla_sync senv sctx (hdr @ body) =
      Some (tesla_sync_hash (cx_tsync ctx'), ev_ksnmss_sign env (tesla_sync_hash (cx_tsync ctx')), sctx') \<and>
    cx_tsync sctx' = cx_tsync ctx' \<and> cx_MSSPK sctx' = cx_MSSPK ctx"
proof -
  let ?n = "word_of_nat (length ident) :: u16"
  have u: "unat ?n = length ident" using assms(11) by (intro unat_u16_of_nat) simp
  have ck: "client_key_exchange env c (pr_session p) h = Some (0, dtls_int_to_uint16 ?n @ ident,
      h\<lparr>hp_psk := \<lparr>psk_id_length = ?n, psk_identity = ident @ drop (length ident) (psk_identity (hp_psk h))\<rparr>\<rparr>, c)" for c
    using assms(8,9,11) u by (simp add: client_key_exchange_def assms(10) Let_def del: One_nat_def)
  have lk: "length (dtls_int_to_uint16 ?n @ ident) \<le> 66" using assms(11) by simp
  obtain ctx' where s: "dtls_send_client_key_exchange env ctx (Some a) =
      dtls_send_handshake_msg env ctx' (Some a) 16 (Some ((dtls_int_to_uint16 ?n @ ident) @ tesla_sync_bytes (cx_tsync ctx') @
        ksnmss_sig_bytes (ev_ksnmss_sign env (tesla_sync_hash (cx_tsync ctx'))) @ cx_MSSPK ctx))"
    "tesla_sync_ok (cx_tsync ctx')" "ts_nonce (cx_tsync ctx') = cx_treq_nonce ctx"
    using client_key_exchange_sent [OF assms(1-7) ck lk] by blast
  let ?tail = "tesla_sync_bytes (cx_tsync ctx') @
        ksnmss_sig_bytes (ev_ksnmss_sign env (tesla_sync_hash (cx_tsync ctx'))) @ cx_MSSPK ctx"
  have lt: "length ?tail = 113 + 21368 + 72"
    using length_sync_bytes [OF s(2)] length_sig_bytes [OF assms(7) [OF length_tesla_sync_hash]] assms(6) by simp
  have "check_client_keyexchange (Some g) (hdr @ (dtls_int_to_uint16 ?n @ ident) @ ?tail) =
      Some (0, Some (g\<lparr>hp_psk := (hp_psk g)\<lparr>psk_id_length := ?n,
        psk_identity := put 0 ident (psk_identity (hp_psk g))\<rparr>\<rparr>))"
    using assms(11,13,14) lt u
    by (simp add: check_client_keyexchange_def is_tls_psk_with_aes_128_ccm_8_def is_tls_ecdhe_ecdsa_with_aes_128_ccm_8_def
        cipher_defs rd_n_def del: append_assoc) (simp add: rd_n_def)
  moreover have "receive_tesla_sync senv sctx ((hdr @ dtls_int_to_uint16 ?n @ ident) @ ?tail) =
    Some (tesla_sync_hash (cx_tsync ctx'), ev_ksnmss_sign env (tesla_sync_hash (cx_tsync ctx')),
      bump 3 sctx\<lparr>cx_tsync := cx_tsync ctx', cx_MSSPK := cx_MSSPK ctx\<rparr>)"
    by (rule receive_sync_value [OF assms(12) s(2) assms(7) [OF length_tesla_sync_hash] assms(6)])
  ultimately show ?thesis
    using s by (intro exI [of _ ctx'] exI [of _ "(dtls_int_to_uint16 ?n @ ident) @ ?tail"]
        exI [of _ "bump 3 sctx\<lparr>cx_tsync := cx_tsync ctx', cx_MSSPK := cx_MSSPK ctx\<rparr>"]) simp
qed

subsection \<open>Application data is authenticated one packet later\<close>

definition tesla_packet :: "bytes list \<Rightarrow> bytes \<Rightarrow> nat \<Rightarrow> bytes \<Rightarrow> bytes" where
  "tesla_packet K comm i m =
     (let d = m @ dtls_int_to_uint32 (word_of_nat i) @ (if i = 0 then comm else K ! (i - 1))
      in d @ HMAC (HMAC hmac_key2 (K ! i)) d)"

text \<open>The MAC of a packet is the right one for the key \<open>k\<close>.\<close>

definition mac_good :: "bytes \<Rightarrow> bytes \<Rightarrow> bool" where
  "mac_good k d \<longleftrightarrow> drop (length d - 32) d = HMAC (HMAC hmac_key2 k) (take (length d - 32) d)"

lemma length_HMAC [simp]: "length (HMAC k m) = 32" by (rule hmac.digest_length)

lemma wr_at: "length s = k \<Longrightarrow> length b = length c \<Longrightarrow> wr_n (s @ b @ r) k c = Some (s @ c @ r)"
  by (simp add: wr_n_def)

lemma length_tesla_packet:
  "\<forall>k\<in>set K. length k = 32 \<Longrightarrow> length comm = 32 \<Longrightarrow> i < length K \<Longrightarrow> length (tesla_packet K comm i m) = length m + 68"
  by (simp add: tesla_packet_def Let_def)

lemma tesla_packet_good:
  assumes "\<forall>k\<in>set K. length k = 32" and "length comm = 32" and "i < length K"
  shows "mac_good (K ! i) (tesla_packet K comm i m)" "take (length m) (tesla_packet K comm i m) = m"
    "take 32 (drop (length m + 4) (tesla_packet K comm i m)) = (if i = 0 then comm else K ! (i - 1))"
proof -
  let ?k = "if i = 0 then comm else K ! (i - 1)"
  have k: "length ?k = 32" using assms by simp
  have l: "length (tesla_packet K comm i m) - 32 = length (m @ dtls_int_to_uint32 (word_of_nat i) @ ?k)"
    unfolding length_tesla_packet [OF assms] using k by (simp split del: if_split)
  show "mac_good (K ! i) (tesla_packet K comm i m)"
    unfolding mac_good_def l unfolding tesla_packet_def Let_def
    unfolding append_eq_append_conv2 by (simp del: append_assoc split del: if_split)
  show "take (length m) (tesla_packet K comm i m) = m" by (simp add: tesla_packet_def Let_def)
  have "drop (length m + 4) (tesla_packet K comm i m) = ?k @ HMAC (HMAC hmac_key2 (K ! i)) (m @ dtls_int_to_uint32 (word_of_nat i) @ ?k)"
    by (simp add: tesla_packet_def Let_def split del: if_split)
  then show "take 32 (drop (length m + 4) (tesla_packet K comm i m)) = ?k" using k by (simp split del: if_split)
qed

lemma tesla_extend_value:
  fixes m :: bytes
  assumes a: "alloc_all env" and p: "cx_peers ctx = Some a" "cx_ph ctx a = Some p" "pr_role p = DTLS_CLIENT"
    and i: "unat (pr_int_index p) < length (pr_K p)"
    and K: "\<forall>k\<in>set (pr_K p). length k = 32" and c: "length (ts_Key_comm (cx_tsync ctx)) = 32"
    and room: "length room = 68"
  defines "pk \<equiv> tesla_packet (pr_K p) (ts_Key_comm (cx_tsync ctx)) (unat (pr_int_index p)) m"
  shows "tesla_extend env ctx (m @ room @ r) (length m) = Some (pk @ r, bump 2 (store_peer a
    (p\<lparr>pr_tesla_mac := drop (length m + 36) pk, pr_int_index := pr_int_index p + 1\<rparr>) ctx))"
proof -
  let ?i = "unat (pr_int_index p)"
  let ?k = "if ?i = 0 then ts_Key_comm (cx_tsync ctx) else pr_K p ! (?i - 1)"
  have k: "length ?k = 32" using K c i by simp
  have key: "(if pr_int_index p = 0 then Some (ts_Key_comm (cx_tsync ctx)) else row (pr_K p) (?i - 1)) = Some ?k"
    using i less_imp_diff_less by (auto simp: row_def unat_eq_zero)
  obtain r1 r2 r3 where rm: "room = r1 @ r2 @ r3" "length r1 = 4" "length r2 = 32" "length r3 = 32"
    using room by (intro that [of "take 4 room" "take 32 (drop 4 room)" "drop 36 room"]) (simp_all flip: append_assoc, simp_all add: take_add [symmetric])
  let ?x = "dtls_int_to_uint32 (pr_int_index p)"
  have w1: "wr_n (m @ room @ r) (length m) ?x = Some (m @ ?x @ r2 @ r3 @ r)"
    unfolding rm(1) using wr_at [of m "length m" r1 ?x "r2 @ r3 @ r"] rm by simp
  have w2: "wr_n (m @ ?x @ r2 @ r3 @ r) (length m + 4) ?k = Some (m @ ?x @ ?k @ r3 @ r)"
    using wr_at [of "m @ ?x" "length m + 4" r2 ?k "r3 @ r"] rm k by (simp split del: if_split)
  let ?d = "m @ ?x @ ?k"
  have ld: "length ?d = length m + 36" using k by (simp split del: if_split)
  let ?mac = "HMAC (HMAC hmac_key2 (pr_K p ! ?i)) ?d"
  have tk: "take (length m + 36) (m @ ?x @ ?k @ r3 @ r) = ?d"
    unfolding ld [symmetric] by (simp del: append_assoc add: append_assoc [symmetric])
  have w3: "wr_n (m @ ?x @ ?k @ r3 @ r) (length m + 36) ?mac = Some (m @ ?x @ ?k @ ?mac @ r)"
    using wr_at [of ?d "length m + 36" r3 ?mac r] rm ld by (simp split del: if_split)
  have pk: "pk = ?d @ ?mac" by (simp add: pk_def tesla_packet_def Let_def split del: if_split)
  have dr: "drop (length m + 36) pk = ?mac" unfolding pk ld [symmetric] by (simp del: append_assoc)
  have rw: "row (pr_K p) ?i = Some (pr_K p ! ?i)" using i by (simp add: row_def)
  show ?thesis
    unfolding tesla_extend_def p(1) Option.bind.bind_lunit p(2) Let_def rw if_P [OF p(3)] key w1 w2
      run_hmac_value [OF a] prod.case tk w3 dr unfolding pk by (simp add: numeral_2_eq_2)
qed

lemma tesla_receive_value:
  assumes a: "alloc_all env" and q: "cx_peers ctx = Some b" "cx_ph ctx b = Some q"
    and l: "length data = n + 68" "n + 36 \<le> length (ps_t_msg (pr_tesla_ps q))"
  shows "\<exists>k. tesla_receive env ctx data = Some (take n data,
      (if pr_int_index q = 0 then None
       else Some (HMAC (HMAC hmac_key2 (take 32 (drop (n + 4) data))) (take (n + 36) (ps_t_msg (pr_tesla_ps q))) =
         ps_packet_mac (pr_tesla_ps q))),
      bump k (store_peer b (q\<lparr>pr_tesla_ps := \<lparr>ps_t_id = pr_int_index q,
        ps_t_msg = take (n + 36) data @ drop (n + 36) (ps_t_msg (pr_tesla_ps q)),
        ps_reveal_key = take 32 (drop (n + 4) data), ps_packet_mac = drop (n + 36) data\<rparr>\<rparr>)
        (ctx\<lparr>cx_clock := cx_clock ctx + 1\<rparr>)))"
proof -
  have nn: "\<not> length data < 68" "length data - 68 = n" using l by simp_all
  have g: "gettimeofday env (bump k c) = (ev_time env (cx_clock c), bump k (c\<lparr>cx_clock := cx_clock c + 1\<rparr>))" for k c
    by (simp add: gettimeofday_def bump_def)
  have w: "wr_n (ps_t_msg (pr_tesla_ps q)) 0 (take (n + 36) data) =
      Some (take (n + 36) data @ drop (n + 36) (ps_t_msg (pr_tesla_ps q)))"
    using l by (simp add: wr_n_def)
  have m: "take 32 (drop (n + 36) data) = drop (n + 36) data" using l by simp
  have rdm: "rd_n (ps_t_msg (pr_tesla_ps q)) 0 (n + 36) = Some (take (n + 36) (ps_t_msg (pr_tesla_ps q)))"
    using l by simp
  show ?thesis
  proof (cases "pr_int_index q = 0")
    case True
    then show ?thesis
      unfolding tesla_receive_def q(1) Option.bind.bind_lunit q(2) if_not_P [OF nn(1)] Let_def nn(2)
        malloc_or_crash_value [OF a] g prod.case m w
      by (intro exI [of _ 2]) (simp add: w bump_def store_peer_def)
  next
    case False
    then show ?thesis
      unfolding tesla_receive_def q(1) Option.bind.bind_lunit q(2) if_not_P [OF nn(1)] Let_def nn(2)
        malloc_or_crash_value [OF a] g prod.case m if_not_P [OF False] run_hmac_value [OF a] rdm w
      by (intro exI [of _ 4]) (simp add: bump_def store_peer_def False)
  qed
qed

text \<open>C38: Delayed authentication: \<open>dtls_write\<close> extends a message by its interval, the key of the interval
  before and a MAC under the key of this interval, and advances. Whatever packet \<open>d\<close> a receiver
  stores, when the next genuine packet arrives with a payload of the same length, in an interval
  other than 0 of the receiver, the comparison it makes says exactly whether \<open>d\<close> carries the MAC for
  the key revealed now, which the packet the client sent before does. The payload is delivered in
  either case, and in the receiver's interval 0 nothing is compared.\<close>

theorem tesla_delayed_authentication:
  assumes "alloc_all env" and "cx_peers ctx = Some a" and "cx_ph ctx a = Some p" and "pr_role p = DTLS_CLIENT"
    and "unat (pr_int_index p) + 1 < length (pr_K p)" and "unat (pr_int_index p) + 1 < 2 ^ 32"
    and "\<forall>k\<in>set (pr_K p). length k = 32" and "length (ts_Key_comm (cx_tsync ctx)) = 32"
    and "length room = 68" and "length m' = length m"
    and "alloc_all senv" and "cx_peers sctx = Some b" and "cx_ph sctx b = Some q"
    and "length d = length m + 68" and "length m + 36 \<le> length (ps_t_msg (pr_tesla_ps q))" and "j \<noteq> 0"
  shows "\<exists>pk ctx1 pk' ctx2 c sctx1 q1 sctx2.
    tesla_extend env ctx (m @ room) (length m) = Some (pk, ctx1) \<and>
    tesla_extend env ctx1 (m' @ room) (length m') = Some (pk', ctx2) \<and>
    mac_good (pr_K p ! unat (pr_int_index p)) pk \<and> take (length m) pk = m \<and>
    tesla_receive senv sctx d = Some (take (length m) d, c, sctx1) \<and> (pr_int_index q = 0 \<longrightarrow> c = None) \<and>
    cx_ph sctx1 b = Some q1 \<and>
    tesla_receive senv (store_peer b (q1\<lparr>pr_int_index := j\<rparr>) sctx1) pk' =
      Some (m', Some (mac_good (pr_K p ! unat (pr_int_index p)) d), sctx2)"
proof -
  let ?i = "unat (pr_int_index p)" and ?comm = "ts_Key_comm (cx_tsync ctx)"
  define pk where "pk = tesla_packet (pr_K p) ?comm ?i m"
  define p1 where "p1 = p\<lparr>pr_tesla_mac := drop (length m + 36) pk, pr_int_index := pr_int_index p + 1\<rparr>"
  define ctx1 where "ctx1 = bump 2 (store_peer a p1 ctx)"
  have i: "?i < length (pr_K p)" using assms(5) by simp
  have i1: "unat (pr_int_index p + 1) = ?i + 1" using assms(6) by (simp add: unat_word_ariths)
  have e1: "tesla_extend env ctx (m @ room) (length m) = Some (pk, ctx1)"
    using tesla_extend_value [OF assms(1-4) i assms(7-9), of m "[]"] by (simp add: pk_def p1_def ctx1_def)
  have c1: "cx_peers ctx1 = Some a" "cx_ph ctx1 a = Some p1" "pr_role p1 = DTLS_CLIENT" "pr_K p1 = pr_K p"
    "pr_int_index p1 = pr_int_index p + 1" "cx_tsync ctx1 = cx_tsync ctx"
    using assms(2,4) by (simp_all add: ctx1_def p1_def bump_def store_peer_def)
  define pk' where "pk' = tesla_packet (pr_K p) ?comm (?i + 1) m'"
  have "\<exists>ctx2. tesla_extend env ctx1 (m' @ room) (length m') = Some (pk', ctx2)"
    using tesla_extend_value [OF assms(1) c1(1-3), of room m' "[]"] assms(5,7,8,9) unfolding c1(4-6) i1
    by (simp add: pk'_def)
  then obtain ctx2 where e2: "tesla_extend env ctx1 (m' @ room) (length m') = Some (pk', ctx2)" by blast
  have g1: "mac_good (pr_K p ! ?i) pk" "take (length m) pk = m"
    unfolding pk_def using tesla_packet_good [OF assms(7,8) i] by blast+
  have g2: "take (length m') pk' = m'" "take 32 (drop (length m' + 4) pk') = pr_K p ! ?i"
    "length pk' = length m' + 68"
    unfolding pk'_def using tesla_packet_good(2,3) [OF assms(7,8,5)] length_tesla_packet [OF assms(7,8,5)] by simp_all
  define q1 where "q1 = q\<lparr>pr_tesla_ps := \<lparr>ps_t_id = pr_int_index q,
        ps_t_msg = take (length m + 36) d @ drop (length m + 36) (ps_t_msg (pr_tesla_ps q)),
        ps_reveal_key = take 32 (drop (length m + 4) d), ps_packet_mac = drop (length m + 36) d\<rparr>\<rparr>"
  obtain c sctx1 where r1: "tesla_receive senv sctx d = Some (take (length m) d, c, sctx1)"
    "pr_int_index q = 0 \<longrightarrow> c = None" "cx_ph sctx1 b = Some q1" "cx_peers sctx1 = Some b"
  proof -
    obtain k where "tesla_receive senv sctx d = Some (take (length m) d,
      (if pr_int_index q = 0 then None
       else Some (HMAC (HMAC hmac_key2 (take 32 (drop (length m + 4) d))) (take (length m + 36) (ps_t_msg (pr_tesla_ps q))) =
         ps_packet_mac (pr_tesla_ps q))),
      bump k (store_peer b q1 (sctx\<lparr>cx_clock := cx_clock sctx + 1\<rparr>)))"
      using tesla_receive_value [OF assms(11-15)] unfolding q1_def by blast
    then show thesis
      by (rule that) (use assms(12) in \<open>simp_all add: bump_def store_peer_def\<close>)
  qed
  define q2 where "q2 = q1\<lparr>pr_int_index := j\<rparr>"
  define s2 where "s2 = store_peer b q2 sctx1"
  have q2: "cx_peers s2 = Some b" "cx_ph s2 b = Some q2" "pr_int_index q2 = j"
    using r1(4) by (simp_all add: s2_def q2_def store_peer_def)
  have tm: "take (length m + 36) (ps_t_msg (pr_tesla_ps q2)) = take (length m + 36) d"
    "ps_packet_mac (pr_tesla_ps q2) = drop (length m + 36) d"
    "length m + 36 \<le> length (ps_t_msg (pr_tesla_ps q2))"
    using assms(14) by (simp_all add: q2_def q1_def)
  have mg: "(HMAC (HMAC hmac_key2 (pr_K p ! ?i)) (take (length m + 36) d) = drop (length m + 36) d) =
      mac_good (pr_K p ! ?i) d"
    using assms(14) by (auto simp: mac_good_def add.commute)
  have "\<exists>sctx2. tesla_receive senv s2 pk' = Some (m', Some (mac_good (pr_K p ! ?i) d), sctx2)"
    using tesla_receive_value [OF assms(11) q2(1,2) g2(3)] tm(3) assms(10,16)
    unfolding assms(10) [symmetric] using g2 tm(1,2) mg by (auto simp: q2(3) assms(10))
  then show ?thesis
    using e1 e2 g1 r1 unfolding s2_def q2_def by blast
qed

text \<open>A client with a PSK handshake under way.\<close>

definition tesla_ctx :: dtls_context_t where
  "tesla_ctx = (ctx_example [1 \<mapsto> peer_example 1\<lparr>pr_handshake := Some ((the (dtls_handshake_new True))
     \<lparr>hp_cipher := TLS_PSK_WITH_AES_128_CCM_8\<rparr>)\<rparr>])\<lparr>cx_peers := Some 1\<rparr>"

lemma tesla_ctx_hyps:
  "alloc_all env_example" "cx_peers tesla_ctx = Some 1"
  "cx_ph tesla_ctx 1 = Some (peer_example 1\<lparr>pr_handshake := Some ((the (dtls_handshake_new True))
     \<lparr>hp_cipher := TLS_PSK_WITH_AES_128_CCM_8\<rparr>)\<rparr>)"
  "length (cx_treq_nonce tesla_ctx) = 32" "length (cx_MSSPK tesla_ctx) = 72" "length (ts_Key_comm (cx_tsync tesla_ctx)) = 32"
  "length (pr_K (peer_example n)) = 1000" "\<forall>k\<in>set (pr_K (peer_example n)). length k = 32"
  "pr_role (peer_example n) = DTLS_CLIENT" "pr_int_index (peer_example n) = 0"
  "length (ps_t_msg (pr_tesla_ps (peer_example n))) = 10000"
  "length m = 32 \<Longrightarrow> ksnmss_sig_ok (ev_ksnmss_sign env_example m)"
  by (simp_all add: alloc_all_def env_example_def tesla_ctx_def ctx_example_def tsync_zero_def peer_example_def
      dtls_new_peer_def dtls_security_new_def ksnmss_sig_ok_def)

lemma tesla_delayed_authentication_witness:
  "\<exists>pk ctx1 pk' ctx2 c sctx1 q1 sctx2.
    tesla_extend env_example tesla_ctx ([1, 2] @ replicate 68 0) (length [1 :: u8, 2]) = Some (pk, ctx1) \<and>
    tesla_extend env_example ctx1 ([3, 4] @ replicate 68 0) (length [3 :: u8, 4]) = Some (pk', ctx2) \<and>
    tesla_receive env_example tesla_ctx (replicate 70 9) = Some ([9, 9], c, sctx1) \<and>
    cx_ph sctx1 1 = Some q1 \<and>
    tesla_receive env_example (store_peer 1 (q1\<lparr>pr_int_index := 1\<rparr>) sctx1) pk' =
      Some ([3, 4], Some (mac_good (replicate 32 0) (replicate 70 9)), sctx2)"
proof -
  let ?p = "peer_example 1\<lparr>pr_handshake := Some ((the (dtls_handshake_new True))\<lparr>hp_cipher := TLS_PSK_WITH_AES_128_CCM_8\<rparr>)\<rparr>"
  note h = tesla_ctx_hyps
  have k: "pr_K ?p ! 0 = replicate 32 0"
    by (simp add: peer_example_def dtls_new_peer_def dtls_security_new_def)
  have "pr_role ?p = DTLS_CLIENT" "unat (pr_int_index ?p) + 1 < length (pr_K ?p)" "unat (pr_int_index ?p) + 1 < 2 ^ 32"
    "\<forall>k\<in>set (pr_K ?p). length k = 32" "length (replicate 68 0 :: bytes) = 68" "length [3 :: u8, 4] = length [1 :: u8, 2]"
    "length (replicate 70 (9 :: u8)) = length [1 :: u8, 2] + 68"
    "length [1 :: u8, 2] + 36 \<le> length (ps_t_msg (pr_tesla_ps ?p))" "(1 :: u32) \<noteq> 0"
    using h(7-11) by simp_all
  note g = this
  have z: "unat (pr_int_index ?p) = 0" using h(10) by simp
  have t: "take (length [1 :: u8, 2]) (replicate 70 9) = [9 :: u8, 9]" by (simp add: numeral_eq_Suc)
  show ?thesis
    using tesla_delayed_authentication [OF h(1-3) g(1-4) h(6) g(5,6) h(1-3) g(7-9)] unfolding z k t by blast
qed

lemma tesla_key_chain_witness:
  "\<exists>ctx' q key body. dtls_send_client_key_exchange env_example tesla_ctx (Some 1) =
      dtls_send_handshake_msg env_example ctx' (Some 1) 16 (Some body) \<and>
    cx_ph ctx' 1 = Some q \<and> chain key 4 (pr_K q ! 3) = ts_Key_comm (cx_tsync ctx')"
proof -
  let ?h = "(the (dtls_handshake_new True))\<lparr>hp_cipher := TLS_PSK_WITH_AES_128_CCM_8\<rparr>"
  let ?p = "peer_example 1\<lparr>pr_handshake := Some ?h\<rparr>"
  note h = tesla_ctx_hyps
  have p: "pr_handshake ?p = Some ?h" "length (pr_K ?p) = 1000" using h(7) by simp_all
  have "client_key_exchange env_example c s ?h = Some (0, [0, 4, 115, 101, 99, 114],
      ?h\<lparr>hp_psk := \<lparr>psk_id_length = 4, psk_identity = [115, 101, 99, 114] @ replicate 28 0\<rparr>\<rparr>, c)" for c s
    by (simp add: client_key_exchange_def get_psk_info_def env_example_def dtls_handshake_new_def Let_def
        dtls_int_to_uint16_def)
  note k = this
  have l: "length [0 :: u8, 4, 115, 101, 99, 114] \<le> 66" by simp
  obtain ctx' q key body where t: "dtls_send_client_key_exchange env_example tesla_ctx (Some 1) =
      dtls_send_handshake_msg env_example ctx' (Some 1) 16 (Some body)" "cx_ph ctx' 1 = Some q"
    "\<forall>i<1000. chain key (i + 1) (pr_K q ! i) = ts_Key_comm (cx_tsync ctx')"
    using tesla_key_chain [OF h(1,3) p h(4,5,12) k l] by blast
  have "chain key (3 + 1) (pr_K q ! 3) = ts_Key_comm (cx_tsync ctx')" using t(3) by (rule allE [of _ 3]) simp
  then show ?thesis using t(1,2) by auto
qed

lemma client_key_exchange_received_witness:
  "\<exists>ctx' body sctx'. dtls_send_client_key_exchange env_example tesla_ctx (Some 1) =
      dtls_send_handshake_msg env_example ctx' (Some 1) 16 (Some body) \<and>
    map_option fst (check_client_keyexchange (Some ((the (dtls_handshake_new True))\<lparr>hp_cipher := TLS_PSK_WITH_AES_128_CCM_8\<rparr>))
      (replicate 12 0 @ body)) = Some 0 \<and>
    receive_tesla_sync env_example (ctx_example Map.empty) (replicate 12 0 @ body) =
      Some (tesla_sync_hash (cx_tsync ctx'), ev_ksnmss_sign env_example (tesla_sync_hash (cx_tsync ctx')), sctx') \<and>
    cx_tsync sctx' = cx_tsync ctx'"
proof -
  let ?h = "(the (dtls_handshake_new True))\<lparr>hp_cipher := TLS_PSK_WITH_AES_128_CCM_8\<rparr>"
  let ?p = "peer_example 1\<lparr>pr_handshake := Some ?h\<rparr>"
  note h = tesla_ctx_hyps
  have p: "pr_handshake ?p = Some ?h" "length (pr_K ?p) = 1000" using h(7) by simp_all
  have i: "hp_cipher ?h = TLS_PSK_WITH_AES_128_CCM_8" "length (psk_identity (hp_psk ?h)) = 32"
    "length [115, 101, 99, 114 :: u8] \<le> 32" "length (replicate 12 0 :: bytes) = 12"
    by (simp_all add: dtls_handshake_new_def)
  have g: "get_psk_info env_example s 1 d 32 = (int (length [115, 101, 99, 114 :: u8]), [115, 101, 99, 114])" for s d
    by (simp add: get_psk_info_def env_example_def)
  show ?thesis
    using client_key_exchange_received [OF h(1,3) p h(4,5,12) i(1,2) g i(3) h(1) i(1) i(4)] by fastforce
qed

end
