(* ===== verification/Dispatch.thy ===== *)
theory Dispatch
  imports Tesla
begin

text \<open>
  The state machine of \<open>dtls.c\<close>: what a handshake message does in each state
  (\<open>handle_handshake_msg\<close>), the sequence numbers and the reorder queue around it
  (\<open>handle_handshake\<close>), ChangeCipherSpec and alerts.
\<close>

subsection \<open>Outcomes of a message\<close>

text \<open>A case of the switch returns at once, or breaks with \<open>err\<close> and the local variable \<open>peer\<close>.\<close>

datatype outcome = Return int | Break int ptr

definition UNEXPECTED_MESSAGE :: int where
  "UNEXPECTED_MESSAGE = dtls_alert_fatal_create DTLS_ALERT_UNEXPECTED_MESSAGE"

lemma UNEXPECTED_value: "UNEXPECTED_MESSAGE = -522"
  by (simp add: UNEXPECTED_MESSAGE_def alert_defs)

text \<open>Continue unless the result is an error.\<close>

definition unless_error ::
  "(int \<times> dtls_context_t) option \<Rightarrow> (int \<Rightarrow> dtls_context_t \<Rightarrow> (outcome \<times> dtls_context_t) option) \<Rightarrow>
   (outcome \<times> dtls_context_t) option" where
  "unless_error r f = do { (err, ctx) \<leftarrow> r; if err < 0 then Some (Return err, ctx) else f err ctx }"

definition break_in :: "nat \<Rightarrow> dtls_state_t \<Rightarrow> int \<Rightarrow> dtls_context_t \<Rightarrow> (outcome \<times> dtls_context_t) option" where
  "break_in a st err ctx = do { ctx \<leftarrow> set_state a st ctx; Some (Break err (Some a), ctx) }"

subsection \<open>Client states\<close>

definition check_server_hellodone ::
  "dtls_env \<Rightarrow> dtls_context_t \<Rightarrow> ptr \<Rightarrow> bytes \<Rightarrow> (int \<times> dtls_context_t) option" where
  "check_server_hellodone env ctx peer data =
     with_hs ctx peer (\<lambda>a p h. do {
       ctx \<leftarrow> update_hs_hash a data ctx;
       (res, ctx) \<leftarrow> dtls_send_client_key_exchange env ctx peer;
       if res < 0 then Some (res, ctx)
       else do {
         (res, ctx) \<leftarrow> calculate_key_block env ctx peer (pr_session p) (pr_role p);
         if res < 0 then Some (res, ctx)
         else do {
           (res, ctx) \<leftarrow> dtls_send_ccs env ctx peer;
           if res < 0 then Some (res, ctx)
           else do {
             p \<leftarrow> cx_ph ctx a;
             dtls_send_finished env (store_peer a (dtls_security_params_switch p) ctx) peer prf_label_client } } } })"

definition on_hello_verify_request ::
  "dtls_env \<Rightarrow> dtls_context_t \<Rightarrow> ptr \<Rightarrow> dtls_state_t \<Rightarrow> bytes \<Rightarrow> (outcome \<times> dtls_context_t) option" where
  "on_hello_verify_request env ctx peer state data =
     (if state \<noteq> DTLS_STATE_CLIENTHELLO then Some (Return UNEXPECTED_MESSAGE, ctx)
      else unless_error (check_server_hello_verify_request env ctx peer data)
        (\<lambda>err ctx. Some (Break err peer, snd (ticks env ctx))))"

definition on_server_hello ::
  "dtls_env \<Rightarrow> dtls_context_t \<Rightarrow> ptr \<Rightarrow> dtls_state_t \<Rightarrow> bytes \<Rightarrow> (outcome \<times> dtls_context_t) option" where
  "on_server_hello env ctx peer state data =
     (if state \<noteq> DTLS_STATE_CLIENTHELLO then Some (Return UNEXPECTED_MESSAGE, ctx)
      else case peer of None \<Rightarrow> Some (Return INTERNAL_ERROR, ctx)
      | Some a \<Rightarrow> do {
          p \<leftarrow> cx_ph ctx a;
          if pr_handshake p = None then Some (Return INTERNAL_ERROR, ctx)
          else unless_error (check_server_hello env ctx peer data) (\<lambda>err ctx. do {
            h \<leftarrow> hs_of a ctx;
            break_in a (if is_tls_ecdhe_ecdsa_with_aes_128_ccm_8 (hp_cipher h)
                        then DTLS_STATE_WAIT_SERVERCERTIFICATE else DTLS_STATE_WAIT_SERVERHELLODONE) err ctx }) })"

definition on_certificate ::
  "dtls_env \<Rightarrow> dtls_context_t \<Rightarrow> ptr \<Rightarrow> dtls_peer_type \<Rightarrow> dtls_state_t \<Rightarrow> bytes \<Rightarrow>
   (outcome \<times> dtls_context_t) option" where
  "on_certificate env ctx peer role state data =
     (if role = DTLS_CLIENT \<and> state \<noteq> DTLS_STATE_WAIT_SERVERCERTIFICATE \<or>
         role = DTLS_SERVER \<and> state \<noteq> DTLS_STATE_WAIT_CLIENTCERTIFICATE
      then Some (Return UNEXPECTED_MESSAGE, ctx)
      else case peer of None \<Rightarrow> Some (Return INTERNAL_ERROR, ctx)
      | Some a \<Rightarrow> unless_error (check_server_certificate env ctx peer data)
          (break_in a (if role = DTLS_CLIENT then DTLS_STATE_WAIT_SERVERKEYEXCHANGE
                       else DTLS_STATE_WAIT_CLIENTKEYEXCHANGE)))"

definition on_server_key_exchange ::
  "dtls_env \<Rightarrow> dtls_context_t \<Rightarrow> ptr \<Rightarrow> dtls_state_t \<Rightarrow> bytes \<Rightarrow> (outcome \<times> dtls_context_t) option" where
  "on_server_key_exchange env ctx peer state data =
     (case peer of None \<Rightarrow> Some (Return INTERNAL_ERROR, ctx)
      | Some a \<Rightarrow> do {
          p \<leftarrow> cx_ph ctx a;
          (case pr_handshake p of
             None \<Rightarrow> Some (Return INTERNAL_ERROR, ctx)
           | Some h \<Rightarrow>
               (if is_tls_ecdhe_ecdsa_with_aes_128_ccm_8 (hp_cipher h) then
                  (if state \<noteq> DTLS_STATE_WAIT_SERVERKEYEXCHANGE then Some (Return UNEXPECTED_MESSAGE, ctx)
                   else unless_error (check_server_key_exchange_ecdsa env ctx peer data)
                     (break_in a DTLS_STATE_WAIT_SERVERHELLODONE))
                else if is_tls_psk_with_aes_128_ccm_8 (hp_cipher h) then
                  (if state \<noteq> DTLS_STATE_WAIT_SERVERHELLODONE then Some (Return UNEXPECTED_MESSAGE, ctx)
                   else unless_error (check_server_key_exchange_psk env ctx peer data)
                     (break_in a DTLS_STATE_WAIT_SERVERHELLODONE))
                else break_in a DTLS_STATE_WAIT_SERVERHELLODONE 0 ctx)) })"

definition on_server_hello_done ::
  "dtls_env \<Rightarrow> dtls_context_t \<Rightarrow> ptr \<Rightarrow> dtls_state_t \<Rightarrow> bytes \<Rightarrow> (outcome \<times> dtls_context_t) option" where
  "on_server_hello_done env ctx peer state data =
     (if state \<noteq> DTLS_STATE_WAIT_SERVERHELLODONE then Some (Return UNEXPECTED_MESSAGE, ctx)
      else case peer of None \<Rightarrow> Some (Return INTERNAL_ERROR, ctx)
      | Some a \<Rightarrow> unless_error (check_server_hellodone env ctx peer data)
          (break_in a DTLS_STATE_WAIT_CHANGECIPHERSPEC))"

definition on_certificate_request ::
  "dtls_env \<Rightarrow> dtls_context_t \<Rightarrow> ptr \<Rightarrow> dtls_state_t \<Rightarrow> bytes \<Rightarrow> (outcome \<times> dtls_context_t) option" where
  "on_certificate_request env ctx peer state data =
     (if state \<noteq> DTLS_STATE_WAIT_SERVERHELLODONE then Some (Return UNEXPECTED_MESSAGE, ctx)
      else unless_error (check_certificate_request env ctx peer data) (\<lambda>err ctx. Some (Break err peer, ctx)))"

text \<open>The server answers a Finished with its own ChangeCipherSpec and Finished.\<close>

definition on_finished ::
  "dtls_env \<Rightarrow> dtls_context_t \<Rightarrow> ptr \<Rightarrow> dtls_peer_type \<Rightarrow> dtls_state_t \<Rightarrow> bytes \<Rightarrow>
   (outcome \<times> dtls_context_t) option" where
  "on_finished env ctx peer role state data =
     (if state \<noteq> DTLS_STATE_WAIT_FINISHED then Some (Return UNEXPECTED_MESSAGE, ctx)
      else case peer of None \<Rightarrow> Some (Return INTERNAL_ERROR, ctx)
      | Some a \<Rightarrow> do {
          p \<leftarrow> cx_ph ctx a;
          if pr_handshake p = None then Some (Return INTERNAL_ERROR, ctx)
          else unless_error (check_finished env ctx peer data) (\<lambda>err ctx.
            unless_error
              (if role = DTLS_SERVER then do {
                 ctx \<leftarrow> update_hs_hash a data ctx;
                 (err, ctx) \<leftarrow> dtls_send_ccs env ctx peer;
                 if err < 0 then Some (err, ctx)
                 else do {
                   p \<leftarrow> cx_ph ctx a;
                   dtls_send_finished env (store_peer a (dtls_security_params_switch p) ctx) peer prf_label_server } }
               else Some (err, ctx))
              (\<lambda>err ctx. do {
                 p \<leftarrow> cx_ph ctx a;
                 nh \<leftarrow> dtls_handshake_free (cx_nh ctx) (pr_handshake p);
                 let ctx = store_peer a (p\<lparr>pr_handshake := None\<rparr>) (ctx\<lparr>cx_nh := nh\<rparr>);
                 let (_, ctx) = ticks env ctx;
                 ctx \<leftarrow> set_state a DTLS_STATE_CONNECTED ctx;
                 Some (Return err, ctx) })) })"

subsection \<open>Server states\<close>

text \<open>The result of \<open>check_client_keyexchange\<close> is only looked at after the rest of the message has been
  taken apart.\<close>

definition on_client_key_exchange ::
  "dtls_env \<Rightarrow> dtls_context_t \<Rightarrow> ptr \<Rightarrow> dtls_state_t \<Rightarrow> bytes \<Rightarrow> (outcome \<times> dtls_context_t) option" where
  "on_client_key_exchange env ctx peer state data =
     (if state \<noteq> DTLS_STATE_WAIT_CLIENTKEYEXCHANGE then Some (Return UNEXPECTED_MESSAGE, ctx)
      else case peer of None \<Rightarrow> Some (Return INTERNAL_ERROR, ctx)
      | Some a \<Rightarrow> do {
          p \<leftarrow> cx_ph ctx a;
          if pr_handshake p = None then Some (Return INTERNAL_ERROR, ctx)
          else do {
            (err, h) \<leftarrow> check_client_keyexchange (pr_handshake p) data;
            ctx \<leftarrow> put_hs a h ctx;
            (sha256hash, sig, ctx) \<leftarrow> receive_tesla_sync env ctx data;
            if err < 0 then Some (Return err, ctx)
            else do {
              ctx \<leftarrow> update_hs_hash a data ctx;
              h \<leftarrow> hs_of a ctx;
              break_in a
                (if is_tls_ecdhe_ecdsa_with_aes_128_ccm_8 (hp_cipher h) \<and> is_ecdsa_client_auth_supported (ev_caps env)
                 then DTLS_STATE_WAIT_CERTIFICATEVERIFY else DTLS_STATE_WAIT_CHANGECIPHERSPEC) err ctx } } })"

definition on_certificate_verify ::
  "dtls_env \<Rightarrow> dtls_context_t \<Rightarrow> ptr \<Rightarrow> dtls_state_t \<Rightarrow> bytes \<Rightarrow> (outcome \<times> dtls_context_t) option" where
  "on_certificate_verify env ctx peer state data =
     (if state \<noteq> DTLS_STATE_WAIT_CERTIFICATEVERIFY then Some (Return UNEXPECTED_MESSAGE, ctx)
      else case peer of None \<Rightarrow> Some (Return INTERNAL_ERROR, ctx)
      | Some a \<Rightarrow> do {
          p \<leftarrow> cx_ph ctx a;
          if pr_handshake p = None then Some (Return INTERNAL_ERROR, ctx)
          else unless_error (check_client_certificate_verify env ctx peer data) (\<lambda>err ctx. do {
            ctx \<leftarrow> update_hs_hash a data ctx;
            break_in a DTLS_STATE_WAIT_CHANGECIPHERSPEC err ctx }) })"

text \<open>A new peer for a session, with its address, or \<open>None\<close> without memory.\<close>

definition new_peer_at ::
  "dtls_env \<Rightarrow> dtls_context_t \<Rightarrow> session_t \<Rightarrow> (ptr \<times> dtls_context_t)" where
  "new_peer_at env ctx session =
     (case ev_peer_alloc env (cx_ph ctx) of
        None \<Rightarrow> (None, ctx)
      | Some a \<Rightarrow>
          (let (ok, ctx) = malloc_ok env ctx in
           case dtls_new_peer True ok session of
             None \<Rightarrow> (None, ctx)
           | Some p \<Rightarrow> (Some a, store_peer a p ctx)))"

definition link_peer :: "ptr \<Rightarrow> dtls_context_t \<Rightarrow> dtls_context_t option" where
  "link_peer peer ctx = do {
     (ph, q, _) \<leftarrow> dtls_add_peer (cx_ph ctx) (cx_peers ctx) peer;
     Some (ctx\<lparr>cx_ph := ph, cx_peers := q\<rparr>) }"

text \<open>The peer of a ClientHello with a good cookie: an old peer in the waiting state is replaced. The
  inner \<open>None\<close> is a failure to allocate.\<close>

definition hello_peer ::
  "dtls_env \<Rightarrow> dtls_context_t \<Rightarrow> ptr \<Rightarrow> session_t \<Rightarrow> dtls_state_t \<Rightarrow> (ptr \<times> dtls_context_t) option" where
  "hello_peer env ctx peer session state = do {
     (peer, ctx) \<leftarrow>
       (case peer of
          Some a \<Rightarrow>
            (if state = DTLS_STATE_WAIT_CLIENTHELLO then do {
               ctx \<leftarrow> unlink_peer peer ctx;
               ctx \<leftarrow> free_peer a ctx;
               Some (None, ctx) }
             else Some (peer, ctx))
        | None \<Rightarrow> Some (None, ctx));
     (case peer of
        Some a \<Rightarrow> Some (peer, ctx)
      | None \<Rightarrow>
          (let (new, ctx) = new_peer_at env ctx session in
           case new of
             None \<Rightarrow> Some (None, ctx)
           | Some a \<Rightarrow> do {
               p \<leftarrow> cx_ph ctx a;
               s \<leftarrow> pr_security0 p;
               let ctx = store_peer a (p\<lparr>pr_role := DTLS_SERVER, pr_security0 := Some (s\<lparr>sp_rseq := 1\<rparr>)\<rparr>) ctx;
               ctx \<leftarrow> link_peer new ctx;
               Some (new, ctx) })) }"

definition set_mseq :: "u16 \<Rightarrow> u16 \<Rightarrow> dtls_handshake_parameters_t \<Rightarrow> dtls_handshake_parameters_t" where
  "set_mseq r s h = h\<lparr>hp_hs_state := (hp_hs_state h)\<lparr>hs_mseq_r := r, hs_mseq_s := s\<rparr>\<rparr>"

text \<open>Handshake parameters for a peer that has none; the flag is false without memory.\<close>

definition ensure_handshake ::
  "dtls_env \<Rightarrow> nat \<Rightarrow> u16 \<Rightarrow> u16 \<Rightarrow> dtls_context_t \<Rightarrow> (bool \<times> dtls_context_t) option" where
  "ensure_handshake env a r s ctx = do {
     p \<leftarrow> cx_ph ctx a;
     (case pr_handshake p of
        Some h \<Rightarrow> Some (True, ctx)
      | None \<Rightarrow>
          (let (ok, ctx) = malloc_ok env ctx in
           case dtls_handshake_new ok of
             None \<Rightarrow> Some (False, ctx)
           | Some h \<Rightarrow> map_option (\<lambda>ctx. (True, ctx)) (put_hs a (Some (set_mseq r s h)) ctx))) }"

definition on_client_hello ::
  "dtls_env \<Rightarrow> dtls_context_t \<Rightarrow> ptr \<Rightarrow> session_t \<Rightarrow> dtls_state_t \<Rightarrow> bytes \<Rightarrow> (outcome \<times> dtls_context_t) option" where
  "on_client_hello env ctx peer session state data =
     (if peer \<noteq> None \<and> state \<noteq> DTLS_STATE_CONNECTED \<and> state \<noteq> DTLS_STATE_WAIT_CLIENTHELLO \<or>
         peer = None \<and> state \<noteq> DTLS_STATE_WAIT_CLIENTHELLO
      then Some (Return UNEXPECTED_MESSAGE, ctx)
      else unless_error (dtls_verify_peer env ctx peer session state data) (\<lambda>err ctx.
        if err > 0 then Some (Break err peer, ctx)
        else do {
          (peer, ctx) \<leftarrow> hello_peer env ctx peer session state;
          (case peer of
             None \<Rightarrow> Some (Return INTERNAL_ERROR, ctx)
           | Some a \<Rightarrow> do {
               seq \<leftarrow> dtls_uint16_to_int (drop 4 data);
               (ok, ctx) \<leftarrow> ensure_handshake env a seq 1 ctx;
               if \<not> ok then Some (Return INTERNAL_ERROR, ctx)
               else do {
                 ctx \<leftarrow> clear_hs_hash a ctx;
                 p \<leftarrow> cx_ph ctx a;
                 (err, p') \<leftarrow> dtls_update_parameters (ev_caps env) (Some p) data;
                 p' \<leftarrow> p';
                 let ctx = store_peer a p' ctx;
                 if err < 0 then Some (Return err, ctx)
                 else do {
                   ctx \<leftarrow> update_hs_hash a data ctx;
                   let (_, ctx) = gettimeofday env ctx;
                   unless_error (dtls_send_server_hello_msgs env ctx peer) (\<lambda>err ctx. do {
                     h \<leftarrow> hs_of a ctx;
                     break_in a
                       (if is_tls_ecdhe_ecdsa_with_aes_128_ccm_8 (hp_cipher h) \<and> is_ecdsa_client_auth_supported (ev_caps env)
                        then DTLS_STATE_WAIT_CLIENTCERTIFICATE else DTLS_STATE_WAIT_CLIENTKEYEXCHANGE) err ctx }) } } }) }))"

definition on_hello_request ::
  "dtls_env \<Rightarrow> dtls_context_t \<Rightarrow> ptr \<Rightarrow> dtls_state_t \<Rightarrow> (outcome \<times> dtls_context_t) option" where
  "on_hello_request env ctx peer state =
     (if state \<noteq> DTLS_STATE_CONNECTED then Some (Return 0, ctx)
      else case peer of None \<Rightarrow> Some (Return INTERNAL_ERROR, ctx)
      | Some a \<Rightarrow> do {
          (ok, ctx) \<leftarrow> ensure_handshake env a 0 0 ctx;
          if \<not> ok then Some (Return INTERNAL_ERROR, ctx)
          else unless_error (dtls_send_client_hello env ctx peer [] 0) (break_in a DTLS_STATE_CLIENTHELLO) })"

subsection \<open>The switch\<close>

definition msg_case ::
  "dtls_env \<Rightarrow> dtls_context_t \<Rightarrow> ptr \<Rightarrow> session_t \<Rightarrow> dtls_peer_type \<Rightarrow> dtls_state_t \<Rightarrow> bytes \<Rightarrow> u8 \<Rightarrow>
   (outcome \<times> dtls_context_t) option" where
  "msg_case env ctx peer session role state data t =
     (if t = 3 then on_hello_verify_request env ctx peer state data
      else if t = 2 then on_server_hello env ctx peer state data
      else if t = 11 then on_certificate env ctx peer role state data
      else if t = 12 then on_server_key_exchange env ctx peer state data
      else if t = 14 then on_server_hello_done env ctx peer state data
      else if t = 13 then on_certificate_request env ctx peer state data
      else if t = 20 then on_finished env ctx peer role state data
      else if t = 16 then on_client_key_exchange env ctx peer state data
      else if t = 15 then on_certificate_verify env ctx peer state data
      else if t = 1 then on_client_hello env ctx peer session state data
      else if t = 0 then on_hello_request env ctx peer state
      else Some (Return UNEXPECTED_MESSAGE, ctx))"

text \<open>After a \<open>break\<close> the expected message number advances, unless an error was left in \<open>err\<close>.\<close>

definition advance_mseq_r :: "ptr \<Rightarrow> int \<Rightarrow> dtls_context_t \<Rightarrow> dtls_context_t option" where
  "advance_mseq_r peer err ctx =
     (case peer of
        None \<Rightarrow> Some ctx
      | Some a \<Rightarrow> do {
          p \<leftarrow> cx_ph ctx a;
          (case pr_handshake p of
             None \<Rightarrow> Some ctx
           | Some h \<Rightarrow>
               (if err \<ge> 0
                then put_hs a (Some (set_mseq (hs_mseq_r (hp_hs_state h) + 1) (hs_mseq_s (hp_hs_state h)) h)) ctx
                else Some ctx)) })"

definition handle_handshake_msg ::
  "dtls_env \<Rightarrow> dtls_context_t \<Rightarrow> ptr \<Rightarrow> session_t \<Rightarrow> dtls_peer_type \<Rightarrow> dtls_state_t \<Rightarrow> bytes \<Rightarrow>
   (int \<times> dtls_context_t) option" where
  "handle_handshake_msg env ctx peer session role state data = do {
     ctx \<leftarrow> dtls_stop_retransmission ctx peer;
     t \<leftarrow> rd data 0;
     (r, ctx) \<leftarrow> msg_case env ctx peer session role state data t;
     (case r of
        Return err \<Rightarrow> Some (err, ctx)
      | Break err peer \<Rightarrow> map_option (\<lambda>ctx. (err, ctx)) (advance_mseq_r peer err ctx)) }"

subsection \<open>Sequence numbers and the reorder queue\<close>

text \<open>The node of the queue whose message has the number \<open>seq\<close>.\<close>

partial_function (option) reorder_find :: "netq_heap \<Rightarrow> u16 \<Rightarrow> ptr \<Rightarrow> ptr option" where
  "reorder_find nh seq node =
     (case node of
        None \<Rightarrow> Some None
      | Some a \<Rightarrow>
          (case nh a of
             None \<Rightarrow> None
           | Some n \<Rightarrow>
               (case dtls_uint16_to_int (drop 4 (nq_data n)) of
                  None \<Rightarrow> None
                | Some s \<Rightarrow> (if s = seq then Some (Some a) else reorder_find nh seq (nq_next n)))))"

declare reorder_find.simps [code]

text \<open>A message that is too early is copied into a node of the reorder queue, once.\<close>

definition reorder_add :: "dtls_env \<Rightarrow> dtls_context_t \<Rightarrow> nat \<Rightarrow> dtls_handshake_parameters_t \<Rightarrow> u16 \<Rightarrow> bytes \<Rightarrow>
   (int \<times> dtls_context_t) option" where
  "reorder_add env ctx a h seq data =
     (if length data > 30000 then Some (0, ctx)
      else do {
        dup \<leftarrow> reorder_find (cx_nh ctx) seq (netq_head (Some (hp_reorder_queue h)));
        if dup \<noteq> None then Some (0, ctx)
        else do {
          let (nh, n) = netq_node_new (ev_node_alloc env) (cx_nh ctx);
          (case n of
             None \<Rightarrow> Some (0, ctx)
           | Some i \<Rightarrow> do {
               node \<leftarrow> nh i;
               d \<leftarrow> wr_n (nq_data node) 0 data;
               let node = node\<lparr>nq_peer := Some a, nq_length := length data, nq_data := d\<rparr>;
               (nh, q, r) \<leftarrow> netq_insert_node (nh(i \<mapsto> node)) (hp_reorder_queue h) i;
               let nh = (if r = 0 then netq_node_free nh n else nh);
               ctx \<leftarrow> put_hs a (Some (h\<lparr>hp_reorder_queue := q\<rparr>)) (ctx\<lparr>cx_nh := nh\<rparr>);
               Some (0, ctx) }) } })"

text \<open>The loop over the stored messages that have become due. The node is unlinked but not freed.\<close>

partial_function (option) reorder_drain ::
  "dtls_env \<Rightarrow> dtls_context_t \<Rightarrow> nat \<Rightarrow> session_t \<Rightarrow> dtls_peer_type \<Rightarrow> int \<Rightarrow> (int \<times> dtls_context_t) option" where
  "reorder_drain env ctx a session role res =
     (case cx_ph ctx a of
        None \<Rightarrow> None
      | Some p \<Rightarrow>
          (case pr_handshake p of
             None \<Rightarrow> Some (res, ctx)
           | Some h \<Rightarrow>
               (case reorder_find (cx_nh ctx) (hs_mseq_r (hp_hs_state h)) (netq_head (Some (hp_reorder_queue h))) of
                  None \<Rightarrow> None
                | Some None \<Rightarrow> Some (res, ctx)
                | Some (Some i) \<Rightarrow>
                    (case cx_nh ctx i of
                       None \<Rightarrow> None
                     | Some n \<Rightarrow>
                         (case netq_remove (cx_nh ctx) (hp_reorder_queue h) (Some i) of
                            None \<Rightarrow> None
                          | Some (nh, q) \<Rightarrow>
                              (case put_hs a (Some (h\<lparr>hp_reorder_queue := q\<rparr>)) (ctx\<lparr>cx_nh := nh\<rparr>) of
                                 None \<Rightarrow> None
                               | Some ctx1 \<Rightarrow>
                                   (case handle_handshake_msg env ctx1 (Some a) session role (pr_state p)
                                           (take (nq_length n) (nq_data n)) of
                                      None \<Rightarrow> None
                                    | Some (res', ctx2) \<Rightarrow>
                                        (if res' < 0 then Some (res', ctx2)
                                         else reorder_drain env ctx2 a session role res'))))))))"

declare reorder_drain.simps [code]

text \<open>A message put together from fragments lies in the reassembly buffer, which is freed before the
  message is handled.\<close>

definition hs_payload :: "dtls_env \<Rightarrow> bytes \<Rightarrow> bytes \<Rightarrow> bytes option" where
  "hs_payload env received data = do {
     packet_length \<leftarrow> dtls_uint24_to_int (drop 1 received);
     fragment_length \<leftarrow> dtls_uint24_to_int (drop 9 received);
     if packet_length > fragment_length then ev_freed env data else Some data }"

definition handle_handshake ::
  "dtls_env \<Rightarrow> dtls_context_t \<Rightarrow> ptr \<Rightarrow> session_t \<Rightarrow> dtls_peer_type \<Rightarrow> dtls_state_t \<Rightarrow> bytes \<Rightarrow>
   (int \<times> dtls_context_t) option" where
  "handle_handshake env ctx peer session role state received =
     (if length received < 12 then Some (DECODE_ERROR, ctx)
      else do {
        let (ok1, ctx) = malloc_ok env ctx;
        let (ok2, ctx) = malloc_ok env ctx;
        hs \<leftarrow> (case peer of None \<Rightarrow> Some None | Some a \<Rightarrow> map_option pr_handshake (cx_ph ctx a));
        (r, hs) \<leftarrow> hs_reassemble ok1 ok2 hs received;
        ctx \<leftarrow> (case peer of None \<Rightarrow> Some ctx | Some a \<Rightarrow> put_hs a hs ctx);
        (case r of
           Reject err \<Rightarrow> Some (err, ctx)
         | Deliver data \<Rightarrow> do {
             t \<leftarrow> rd data 0;
             (case (peer, hs) of
                (Some a, Some h) \<Rightarrow> do {
                  seq \<leftarrow> dtls_uint16_to_int (drop 4 data);
                  let expected = hs_mseq_r (hp_hs_state h);
                  if seq < expected then Some (0, ctx)
                  else if seq > expected then reorder_add env ctx a h seq data
                  else do {
                    ctx \<leftarrow> put_hs a (Some (dtls_free_reassemble_buffer h)) ctx;
                    data \<leftarrow> hs_payload env received data;
                    (res, ctx) \<leftarrow> handle_handshake_msg env ctx peer session role state data;
                    if res < 0 then Some (res, ctx) else reorder_drain env ctx a session role res } }
              | _ \<Rightarrow>
                  (if t \<noteq> 1 \<and> peer = None then Some (HS_ERROR, ctx)
                   else if t = 1 \<or> t = 0 then handle_handshake_msg env ctx peer session role state data
                   else Some (0, ctx))) }) })"

subsection \<open>ChangeCipherSpec and alerts\<close>

definition handle_ccs ::
  "dtls_env \<Rightarrow> dtls_context_t \<Rightarrow> ptr \<Rightarrow> bytes \<Rightarrow> (int \<times> dtls_context_t) option" where
  "handle_ccs env ctx peer data =
     (case peer of
        None \<Rightarrow> Some (0, ctx)
      | Some a \<Rightarrow> do {
          p \<leftarrow> cx_ph ctx a;
          if pr_state p \<noteq> DTLS_STATE_WAIT_CHANGECIPHERSPEC then Some (0, ctx)
          else if length data < 1 \<or> data ! 0 \<noteq> 1 then Some (DECODE_ERROR, ctx)
          else do {
            (err, ctx) \<leftarrow> (if pr_role p = DTLS_SERVER
                         then calculate_key_block env ctx peer (pr_session p) (pr_role p) else Some (0, ctx));
            if err < 0 then Some (err, ctx)
            else do {
              ctx \<leftarrow> set_state a DTLS_STATE_WAIT_FINISHED ctx;
              Some (0, ctx) } } })"

definition log_event :: "session_t \<Rightarrow> nat \<Rightarrow> nat \<Rightarrow> dtls_context_t \<Rightarrow> dtls_context_t" where
  "log_event session level code ctx = ctx\<lparr>cx_events := cx_events ctx @ [(session, level, code)]\<rparr>"

definition handle_alert ::
  "dtls_env \<Rightarrow> dtls_context_t \<Rightarrow> ptr \<Rightarrow> bytes \<Rightarrow> (int \<times> dtls_context_t) option" where
  "handle_alert env ctx peer data =
     (if length data < 2 then Some (DECODE_ERROR, ctx)
      else (case peer of
        None \<Rightarrow> Some (0, ctx)
      | Some a \<Rightarrow> do {
          let level = data ! 0;
          let description = data ! 1;
          let fatal = (level = 2 \<or> description = 0);
          ctx \<leftarrow> (if fatal then unlink_peer peer ctx else Some ctx);
          p \<leftarrow> cx_ph ctx a;
          let ctx = log_event (pr_session p) (unat level) (unat description) ctx;
          ctx \<leftarrow> (if description = 0 then
                   (if pr_state p \<noteq> DTLS_STATE_CLOSING then do {
                      ctx \<leftarrow> set_state a DTLS_STATE_CLOSING ctx;
                      map_option snd (dtls_send_alert env ctx peer 2 DTLS_ALERT_CLOSE_NOTIFY) }
                    else set_state a DTLS_STATE_CLOSED ctx)
                 else Some ctx);
          if fatal then do {
            ctx \<leftarrow> dtls_stop_retransmission ctx peer;
            ctx \<leftarrow> dtls_destroy_peer env ctx peer True;
            Some (1, ctx) }
          else Some (0, ctx) }))"

text \<open>An error code between -768 and -256 holds the level and the description of an alert.\<close>

definition dtls_alert_send_from_err ::
  "dtls_env \<Rightarrow> dtls_context_t \<Rightarrow> ptr \<Rightarrow> session_t \<Rightarrow> int \<Rightarrow> (int \<times> dtls_context_t) option" where
  "dtls_alert_send_from_err env ctx peer session err =
     (let send = (\<lambda>level desc. do {
            peer \<leftarrow> (if peer = None then dtls_get_peer (cx_ph ctx) session (cx_peers ctx) else Some peer);
            (case peer of
               None \<Rightarrow> Some (-1, ctx)
             | Some a \<Rightarrow> do {
                 ctx \<leftarrow> set_state a DTLS_STATE_CLOSING ctx;
                 dtls_send_alert env ctx peer level desc }) })
      in if err < -256 \<and> err > -768 then send (nat (- err div 256)) (nat (- err mod 256))
         else if err = -1 then send 2 DTLS_ALERT_INTERNAL_ERROR
         else Some (-1, ctx))"

end
