(* ===== verification/Message.thy ===== *)
theory Message
  imports Dispatch
begin

text \<open>
  The entry points of \<open>dtls.c\<close>: creating and freeing a context, connecting, renegotiating, writing,
  and \<open>dtls_handle_message\<close>, which takes a datagram apart into records.
\<close>

subsection \<open>Contexts\<close>

text \<open>A new context in the memory of the process: the globals and the logs of the world are kept.\<close>

definition dtls_new_context :: "dtls_env \<Rightarrow> dtls_context_t \<Rightarrow> bool \<times> dtls_context_t" where
  "dtls_new_context env w =
     (let (now, w) = ticks env w;
          (ok, w) = malloc_ok env w in
      if \<not> ok then (False, w)
      else (let (secret, w) = fill_random env 12 w in
            (True, w\<lparr>cx_cookie_secret := secret, cx_peers := None, cx_sendqueue := None,
               cx_treq_nonce := replicate 32 0, cx_tsync := tsync_zero\<rparr>)))"

definition dtls_reset_peer :: "dtls_env \<Rightarrow> dtls_context_t \<Rightarrow> ptr \<Rightarrow> dtls_context_t option" where
  "dtls_reset_peer env ctx peer = do {
     ctx \<leftarrow> dtls_stop_retransmission ctx peer;
     dtls_destroy_peer env ctx peer True }"

partial_function (option) free_peers_loop :: "dtls_env \<Rightarrow> dtls_context_t \<Rightarrow> ptr \<Rightarrow> dtls_context_t option" where
  "free_peers_loop env ctx p =
     (case p of
        None \<Rightarrow> Some ctx
      | Some a \<Rightarrow>
          (case cx_ph ctx a of
             None \<Rightarrow> None
           | Some q \<Rightarrow>
               (case dtls_destroy_peer env ctx p True of
                  None \<Rightarrow> None
                | Some ctx' \<Rightarrow> free_peers_loop env ctx' (pr_next q))))"

declare free_peers_loop.simps [code]

definition dtls_free_context :: "dtls_env \<Rightarrow> dtls_context_t \<Rightarrow> dtls_context_t option" where
  "dtls_free_context env ctx = free_peers_loop env ctx (cx_peers ctx)"

subsection \<open>Connecting\<close>

definition dtls_send_hello_request :: "dtls_env \<Rightarrow> dtls_context_t \<Rightarrow> ptr \<Rightarrow> (int \<times> dtls_context_t) option" where
  "dtls_send_hello_request env ctx peer =
     (case peer of
        None \<Rightarrow> Some (INTERNAL_ERROR, ctx)
      | Some a \<Rightarrow> do {
          p \<leftarrow> cx_ph ctx a;
          dtls_send_handshake_msg_hash env ctx peer (pr_session p) 0 None False })"

text \<open>Fresh handshake parameters with both message counters 0, or none.\<close>

definition fresh_handshake :: "dtls_env \<Rightarrow> nat \<Rightarrow> dtls_context_t \<Rightarrow> (bool \<times> dtls_context_t) option" where
  "fresh_handshake env a ctx =
     (let (ok, ctx) = malloc_ok env ctx; h = map_option (set_mseq 0 0) (dtls_handshake_new ok) in
      map_option (\<lambda>ctx. (h \<noteq> None, ctx)) (put_hs a h ctx))"

definition dtls_renegotiate :: "dtls_env \<Rightarrow> dtls_context_t \<Rightarrow> session_t \<Rightarrow> (int \<times> dtls_context_t) option" where
  "dtls_renegotiate env ctx dst = do {
     peer \<leftarrow> dtls_get_peer (cx_ph ctx) dst (cx_peers ctx);
     (case peer of
        None \<Rightarrow> Some (-1, ctx)
      | Some a \<Rightarrow> do {
          p \<leftarrow> cx_ph ctx a;
          if pr_state p \<noteq> DTLS_STATE_CONNECTED then Some (-1, ctx)
          else do {
            (ok, ctx) \<leftarrow> fresh_handshake env a ctx;
            if \<not> ok then Some (-1, ctx)
            else (case pr_role p of
                DTLS_CLIENT \<Rightarrow> do {
                  (err, ctx) \<leftarrow> dtls_send_client_hello env ctx peer [] 0;
                  if err < 0 then Some (err, ctx)
                  else do {
                    ctx \<leftarrow> set_state a DTLS_STATE_CLIENTHELLO ctx;
                    Some (err, ctx) } }
              | DTLS_SERVER \<Rightarrow> dtls_send_hello_request env ctx peer) } }) }"

definition dtls_connect_peer :: "dtls_env \<Rightarrow> dtls_context_t \<Rightarrow> nat \<Rightarrow> (int \<times> dtls_context_t) option" where
  "dtls_connect_peer env ctx a = do {
     p \<leftarrow> cx_ph ctx a;
     old \<leftarrow> dtls_get_peer (cx_ph ctx) (pr_session p) (cx_peers ctx);
     if old = Some a then dtls_renegotiate env ctx (pr_session p)
     else do {
       ctx \<leftarrow> link_peer (Some a) (store_peer a (p\<lparr>pr_role := DTLS_CLIENT\<rparr>) ctx);
       let ctx = ctx\<lparr>cx_MSSPK := ev_key_generation env\<rparr>;
       (ok, ctx) \<leftarrow> fresh_handshake env a ctx;
       if \<not> ok then Some (-1, ctx)
       else do {
         let (_, ctx) = ticks env ctx;
         let (_, ctx) = ticks env ctx;
         (res, ctx) \<leftarrow> dtls_send_client_hello env ctx (Some a) [] 0;
         ctx \<leftarrow> (if res < 0 then Some ctx else set_state a DTLS_STATE_CLIENTHELLO ctx);
         Some (res, ctx) } } }"

definition dtls_connect :: "dtls_env \<Rightarrow> dtls_context_t \<Rightarrow> session_t \<Rightarrow> (int \<times> dtls_context_t) option" where
  "dtls_connect env ctx dst = do {
     peer \<leftarrow> dtls_get_peer (cx_ph ctx) dst (cx_peers ctx);
     let (peer, ctx) = (if peer = None then new_peer_at env ctx dst else (peer, ctx));
     (case peer of
        None \<Rightarrow> Some (-1, ctx)
      | Some a \<Rightarrow> do {
          (res, ctx) \<leftarrow> dtls_connect_peer env ctx a;
          p \<leftarrow> cx_ph ctx a;
          Some (res, if res > 0 then log_event (pr_session p) 0 0x01DC ctx
                     else if res = 0 then log_event (pr_session p) 0 0x01DF ctx else ctx) }) }"

text \<open>\<open>buf\<close> is the memory of the caller from the payload on; it must have room for the extension.\<close>

definition dtls_write ::
  "dtls_env \<Rightarrow> dtls_context_t \<Rightarrow> session_t \<Rightarrow> bytes \<Rightarrow> nat \<Rightarrow> (int \<times> dtls_context_t) option" where
  "dtls_write env ctx dst buf len = do {
     peer \<leftarrow> dtls_get_peer (cx_ph ctx) dst (cx_peers ctx);
     (case peer of
        None \<Rightarrow> map_option (\<lambda>(res, ctx). (if res \<ge> 0 then 0 else res, ctx)) (dtls_connect env ctx dst)
      | Some a \<Rightarrow> do {
          p \<leftarrow> cx_ph ctx a;
          if pr_state p \<noteq> DTLS_STATE_CONNECTED then Some (0, ctx)
          else do {
            (buf, ctx) \<leftarrow> tesla_extend env ctx buf len;
            m \<leftarrow> rd_n buf 0 (len + 68);
            dtls_send env ctx peer 23 m } }) }"

subsection \<open>Records\<close>

definition before_connected :: "dtls_state_t \<Rightarrow> bool" where
  "before_connected st \<longleftrightarrow> st \<notin> {DTLS_STATE_CONNECTED, DTLS_STATE_CLOSING, DTLS_STATE_CLOSED}"

text \<open>A record ends the call with a value, or the loop goes on with the pointer \<open>peer\<close>.\<close>

datatype progress = Stop int | Next ptr

text \<open>A record that cannot be decrypted, of the peer \<open>p\<close> at \<open>a\<close>.\<close>

definition reject_record ::
  "dtls_env \<Rightarrow> dtls_context_t \<Rightarrow> nat \<Rightarrow> dtls_peer_t \<Rightarrow> (progress \<times> dtls_context_t) option" where
  "reject_record env ctx a p =
     (let err = dtls_alert_fatal_create DTLS_ALERT_DECRYPT_ERROR in
      if before_connected (pr_state p) then do {
        (_, ctx) \<leftarrow> dtls_alert_send_from_err env ctx (Some a) (pr_session p) err;
        ctx \<leftarrow> set_state a DTLS_STATE_CLOSED ctx;
        ctx \<leftarrow> dtls_stop_retransmission ctx (Some a);
        ctx \<leftarrow> dtls_destroy_peer env ctx (Some a) True;
        Some (Stop err, ctx) }
      else Some (Stop err, ctx))"

definition stop_for :: "ptr \<Rightarrow> dtls_context_t \<Rightarrow> dtls_context_t option" where
  "stop_for peer ctx = (case peer of None \<Rightarrow> Some ctx | Some a \<Rightarrow> dtls_stop_retransmission ctx peer)"

definition record_ccs ::
  "dtls_env \<Rightarrow> dtls_context_t \<Rightarrow> ptr \<Rightarrow> session_t \<Rightarrow> bytes \<Rightarrow> (progress \<times> dtls_context_t) option" where
  "record_ccs env ctx peer session data = do {
     ctx \<leftarrow> stop_for peer ctx;
     (err, ctx) \<leftarrow> handle_ccs env ctx peer data;
     if err < 0 then do {
       (_, ctx) \<leftarrow> dtls_alert_send_from_err env ctx peer session err;
       ctx \<leftarrow> dtls_destroy_peer env ctx peer True;
       Some (Stop err, ctx) }
     else Some (Next peer, ctx) }"

definition record_alert ::
  "dtls_env \<Rightarrow> dtls_context_t \<Rightarrow> ptr \<Rightarrow> bytes \<Rightarrow> (progress \<times> dtls_context_t) option" where
  "record_alert env ctx peer data = do {
     ctx \<leftarrow> stop_for peer ctx;
     (err, ctx) \<leftarrow> handle_alert env ctx peer data;
     Some (if err < 0 then Stop err else if err = 1 then Stop (-1) else Next peer, ctx) }"

text \<open>The epoch of a handshake record must be the current one, that of a client's Finished the next; the
  inner \<open>None\<close> drops the record.\<close>

definition handshake_epoch ::
  "dtls_context_t \<Rightarrow> ptr \<Rightarrow> dtls_peer_type \<Rightarrow> dtls_state_t \<Rightarrow> bytes \<Rightarrow>
   (dtls_peer_type \<times> dtls_state_t) option option" where
  "handshake_epoch ctx peer role state msg =
     (case peer of
        None \<Rightarrow> Some (Some (role, state))
      | Some a \<Rightarrow> do {
          p \<leftarrow> cx_ph ctx a;
          (case dtls_security_params p of
             None \<Rightarrow> Some (Some (role, state))
           | Some s \<Rightarrow> do {
               let expected = sp_epoch s +
                 (if role = DTLS_SERVER \<and> state = DTLS_STATE_WAIT_FINISHED then 1 else 0);
               e \<leftarrow> dtls_get_epoch msg;
               if expected \<noteq> e then do {
                 again \<leftarrow> hs_attempt_with_existing_peer msg (Some p);
                 Some (if again then Some (DTLS_SERVER, DTLS_STATE_WAIT_CLIENTHELLO) else None) }
               else Some (Some (role, state)) }) })"

definition record_handshake ::
  "dtls_env \<Rightarrow> dtls_context_t \<Rightarrow> ptr \<Rightarrow> session_t \<Rightarrow> dtls_peer_type \<Rightarrow> dtls_state_t \<Rightarrow> bytes \<Rightarrow> bytes \<Rightarrow>
   (progress \<times> dtls_context_t) option" where
  "record_handshake env ctx peer session role state msg data = do {
     e \<leftarrow> handshake_epoch ctx peer role state msg;
     (case e of
        None \<Rightarrow> Some (Next peer, ctx)
      | Some (role, state) \<Rightarrow> do {
          (err, ctx) \<leftarrow> handle_handshake env ctx peer session role state data;
          if err = DTLS_HS_FRAGMENTED then Some (Next peer, ctx)
          else if err < 0 then do {
            (_, ctx) \<leftarrow> dtls_alert_send_from_err env ctx peer session err;
            Some (Stop err, ctx) }
          else (case peer of
              None \<Rightarrow> Some (Next peer, ctx)
            | Some a \<Rightarrow> do {
                p \<leftarrow> cx_ph ctx a;
                if pr_state p = DTLS_STATE_CONNECTED then do {
                  ctx \<leftarrow> dtls_stop_retransmission ctx peer;
                  Some (Next peer, log_event (pr_session p) 0 0x01DE ctx) }
                else Some (Next peer, ctx) }) }) }"

definition record_application ::
  "dtls_env \<Rightarrow> dtls_context_t \<Rightarrow> ptr \<Rightarrow> bytes \<Rightarrow> (progress \<times> dtls_context_t) option" where
  "record_application env ctx peer data =
     (case peer of
        None \<Rightarrow> Some (Stop (-1), ctx)
      | Some a \<Rightarrow> do {
          ctx \<leftarrow> dtls_stop_retransmission ctx peer;
          (m, checked, ctx) \<leftarrow> tesla_receive env ctx data;
          p \<leftarrow> cx_ph ctx a;
          Some (Next peer, ctx\<lparr>cx_read := cx_read ctx @ [(pr_session p, m)]\<rparr>) })"

definition record_dispatch ::
  "dtls_env \<Rightarrow> dtls_context_t \<Rightarrow> ptr \<Rightarrow> session_t \<Rightarrow> dtls_peer_type \<Rightarrow> dtls_state_t \<Rightarrow> bytes \<Rightarrow> bytes \<Rightarrow>
   (progress \<times> dtls_context_t) option" where
  "record_dispatch env ctx peer session role state msg data = do {
     t \<leftarrow> rd msg 0;
     if t = 20 then record_ccs env ctx peer session data
     else if t = 21 then record_alert env ctx peer data
     else if t = 22 then record_handshake env ctx peer session role state msg data
     else if t = 23 then record_application env ctx peer data
     else Some (Next peer, ctx) }"

text \<open>One round of the loop, for the record of \<open>rlen\<close> bytes at the beginning of \<open>msg\<close>. Decryption works in
  place.\<close>

definition handle_record ::
  "dtls_env \<Rightarrow> dtls_context_t \<Rightarrow> ptr \<Rightarrow> session_t \<Rightarrow> bytes \<Rightarrow> nat \<Rightarrow> (progress \<times> dtls_context_t) option" where
  "handle_record env ctx peer session msg rlen =
     (case peer of
        None \<Rightarrow> record_dispatch env ctx peer session DTLS_SERVER DTLS_STATE_WAIT_CLIENTHELLO msg
                  (drop 13 (take rlen msg))
      | Some a \<Rightarrow> do {
          p \<leftarrow> cx_ph ctx a;
          (len, clear, p') \<leftarrow> decrypt_verify (cx_cctx ctx) (Some p) (take rlen msg);
          if len < 0 then do {
            again \<leftarrow> hs_attempt_with_existing_peer msg (Some p);
            if again then
              record_dispatch env ctx peer session DTLS_SERVER DTLS_STATE_WAIT_CLIENTHELLO msg
                (take (rlen - 13 - length clear) (drop 13 msg) @ clear)
            else reject_record env ctx a p }
          else do {
            p' \<leftarrow> p';
            record_dispatch env (store_peer a p' ctx) peer session (pr_role p) (pr_state p) msg
              (take (nat len) clear) } })"

lemma is_record_bounds: "is_record msg = Some n \<Longrightarrow> n \<noteq> 0 \<Longrightarrow> 13 \<le> n \<and> n \<le> length msg"
  by (auto simp: is_record_def Let_def split: if_splits bind_splits)

function message_loop ::
  "dtls_env \<Rightarrow> dtls_context_t \<Rightarrow> ptr \<Rightarrow> session_t \<Rightarrow> bytes \<Rightarrow> (int \<times> dtls_context_t) option" where
  "message_loop env ctx peer session msg =
     (case is_record msg of
        None \<Rightarrow> None
      | Some rlen \<Rightarrow>
          (if rlen = 0 then Some (0, ctx)
           else case handle_record env ctx peer session msg rlen of
             None \<Rightarrow> None
           | Some (Stop err, ctx') \<Rightarrow> Some (err, ctx')
           | Some (Next peer', ctx') \<Rightarrow> message_loop env ctx' peer' session (drop rlen msg)))"
  by pat_completeness auto
termination
  by (relation "measure (\<lambda>(_, _, _, _, msg). length msg)") (auto dest: is_record_bounds)

declare message_loop.simps [simp del]

definition dtls_handle_message ::
  "dtls_env \<Rightarrow> dtls_context_t \<Rightarrow> session_t \<Rightarrow> bytes \<Rightarrow> (int \<times> dtls_context_t) option" where
  "dtls_handle_message env ctx session msg = do {
     peer \<leftarrow> dtls_get_peer (cx_ph ctx) session (cx_peers ctx);
     message_loop env ctx peer session msg }"

end
