(* ===== verification/Frame.thy ===== *)
theory Frame
  imports Message
begin

text \<open>
  What a step of the handshake leaves alone: the list of peers with their sessions, roles and states,
  the data delivered and the events reported. The functions that build and check the single messages
  keep this frame; only the switch of \<open>handle_handshake_msg\<close> moves a peer to another state.
\<close>

subsection \<open>Postconditions of functions that may fail\<close>

definition post :: "'a option \<Rightarrow> ('a \<Rightarrow> bool) \<Rightarrow> bool" where
  "post r Q \<longleftrightarrow> (\<forall>y. r = Some y \<longrightarrow> Q y)"

lemma postD: "post r Q \<Longrightarrow> r = Some y \<Longrightarrow> Q y"
  by (simp add: post_def)

lemma post_rules:
  "\<And>y Q. Q y \<Longrightarrow> post (Some y) Q"
  "\<And>Q. post None Q"
  "\<And>r f Q. post r (\<lambda>y. r = Some y \<longrightarrow> post (f y) Q) \<Longrightarrow> post (Option.bind r f) Q"
  "\<And>r f Q. post r (\<lambda>y. Q (f y)) \<Longrightarrow> post (map_option f r) Q"
  "\<And>b x y Q. (b \<Longrightarrow> post x Q) \<Longrightarrow> (\<not> b \<Longrightarrow> post y Q) \<Longrightarrow> post (if b then x else y) Q"
  "\<And>z n s Q. (z = None \<Longrightarrow> post n Q) \<Longrightarrow> (\<And>v. z = Some v \<Longrightarrow> post (s v) Q) \<Longrightarrow> post (case z of None \<Rightarrow> n | Some v \<Rightarrow> s v) Q"
  by (auto simp: post_def Option.bind_eq_Some_conv split: option.splits)

lemma post_any: "(\<And>y. r = Some y \<Longrightarrow> Q y) \<Longrightarrow> post r Q"
  by (simp add: post_def)

subsection \<open>The frame\<close>

type_synonym peer_view = "ptr \<times> session_t \<times> dtls_peer_type \<times> dtls_state_t"

definition pview :: "dtls_peer_t \<Rightarrow> peer_view" where
  "pview p = (pr_next p, pr_session p, pr_role p, pr_state p)"

definition frame ::
  "dtls_context_t \<Rightarrow> (nat \<Rightarrow> peer_view option) \<times> ptr \<times> (session_t \<times> bytes) list \<times> (session_t \<times> nat \<times> nat) list" where
  "frame ctx = (\<lambda>a. map_option pview (cx_ph ctx a), cx_peers ctx, cx_read ctx, cx_events ctx)"

lemma pview_simps [simp]:
  "pview (p\<lparr>pr_handshake := h\<rparr>) = pview p" "pview (p\<lparr>pr_security0 := s\<rparr>) = pview p"
  "pview (p\<lparr>pr_security1 := s\<rparr>) = pview p" "pview (p\<lparr>pr_K := k\<rparr>) = pview p"
  "pview (dtls_security_params_switch p) = pview p"
  by (simp_all add: pview_def dtls_security_params_switch_def)

lemma frame_store [simp]:
  "map_option pview (cx_ph ctx a) = Some (pview p) \<Longrightarrow> frame (store_peer a p ctx) = frame ctx"
  by (auto simp: frame_def store_peer_def fun_eq_iff)

lemma frame_fields [simp]:
  "frame (ctx\<lparr>cx_nh := nh\<rparr>) = frame ctx" "frame (ctx\<lparr>cx_sendqueue := q\<rparr>) = frame ctx"
  "frame (ctx\<lparr>cx_rnd := n\<rparr>) = frame ctx" "frame (ctx\<lparr>cx_written := w\<rparr>) = frame ctx"
  "frame (ctx\<lparr>cx_treq_nonce := r\<rparr>) = frame ctx" "frame (ctx\<lparr>cx_tsync := t\<rparr>) = frame ctx"
  "frame (ctx\<lparr>cx_hmac_key1 := k\<rparr>) = frame ctx" "frame (ctx\<lparr>cx_MSSPK := m\<rparr>) = frame ctx"
  "frame (ctx\<lparr>cx_clock := c\<rparr>) = frame ctx" "frame (ctx\<lparr>cx_allocs := l\<rparr>) = frame ctx"
  by (simp_all add: frame_def)

lemma ph_pure [simp]:
  "cx_ph (snd (ticks env ctx)) = cx_ph ctx" "cx_ph (snd (fill_random env n ctx)) = cx_ph ctx"
  "cx_ph (snd (malloc_ok env ctx)) = cx_ph ctx" "cx_ph (snd (gettimeofday env ctx)) = cx_ph ctx"
  "cx_ph (snd (run_prf env ctx k l r1 r2 m)) = cx_ph ctx"
  by (simp_all add: ticks_def fill_random_def dtls_fill_random_def malloc_ok_def gettimeofday_def run_prf_def Let_def
      case_prod_unfold)

lemma frame_pure [simp]:
  "frame (snd (ticks env ctx)) = frame ctx" "frame (snd (fill_random env n ctx)) = frame ctx"
  "frame (snd (malloc_ok env ctx)) = frame ctx" "frame (snd (gettimeofday env ctx)) = frame ctx"
  by (simp_all add: ticks_def fill_random_def dtls_fill_random_def malloc_ok_def gettimeofday_def Let_def
      case_prod_unfold)

lemma frame_prf [simp]: "frame (snd (run_prf env ctx k l r1 r2 n)) = frame ctx"
  by (simp add: run_prf_def Let_def case_prod_unfold)

named_theorems keep

lemmas keep_defs = Let_def case_prod_unfold with_hs_def

lemma keep_put_hs [keep]:
  "frame ctx = S \<Longrightarrow> (\<And>c. frame c = S \<Longrightarrow> Q c) \<Longrightarrow> post (put_hs a h ctx) Q"
  by (auto simp: put_hs_def post_def Option.bind_eq_Some_conv)

lemma keep_store_slot [keep]:
  "frame ctx = S \<Longrightarrow> (\<And>c. frame c = S \<Longrightarrow> Q c) \<Longrightarrow> post (store_slot a k s ctx) Q"
  by (auto simp: store_slot_def post_def Option.bind_eq_Some_conv)

lemma keep_next [keep]:
  "(\<And>y. pview (fst y) = pview p \<Longrightarrow> Q y) \<Longrightarrow> post (dtls_security_params_next ok p) Q"
  by (auto simp: dtls_security_params_next_def post_def Option.bind_eq_Some_conv split: option.splits)

lemma keep_update_hs_hash [keep]:
  "frame ctx = S \<Longrightarrow> (\<And>c. frame c = S \<Longrightarrow> Q c) \<Longrightarrow> post (update_hs_hash a d ctx) Q"
  unfolding update_hs_hash_def keep_defs by (rule post_rules impI keep post_any | simp)+

lemma keep_clear_hs_hash [keep]:
  "frame ctx = S \<Longrightarrow> (\<And>c. frame c = S \<Longrightarrow> Q c) \<Longrightarrow> post (clear_hs_hash a ctx) Q"
  unfolding clear_hs_hash_def keep_defs by (rule post_rules impI keep post_any | simp)+

lemma keep_put_bytes [keep]:
  "frame ctx = S \<Longrightarrow> (\<And>c. frame c = S \<Longrightarrow> Q c) \<Longrightarrow> post (put_bytes d off n f a ctx) Q"
  unfolding put_bytes_def keep_defs by (rule post_rules impI keep post_any | simp)+

lemma keep_finalize_hs_hash [keep]:
  "frame ctx = S \<Longrightarrow> (\<And>y. frame (snd (snd y)) = S \<Longrightarrow> Q y) \<Longrightarrow> post (finalize_hs_hash a ctx) Q"
  unfolding finalize_hs_hash_def keep_defs by (rule post_rules impI keep post_any | simp)+

lemma keep_run_hmac [keep]:
  "frame ctx = S \<Longrightarrow> (\<And>y. frame (snd y) = S \<Longrightarrow> cx_ph (snd y) = cx_ph ctx \<Longrightarrow> Q y) \<Longrightarrow>
   post (run_hmac env ctx k m) Q"
  unfolding run_hmac_def keep_defs by (rule post_rules impI keep post_any | simp)+

lemma keep_malloc_or_crash [keep]:
  "frame ctx = S \<Longrightarrow> (\<And>c. frame c = S \<Longrightarrow> Q c) \<Longrightarrow> post (malloc_or_crash env ctx) Q"
  unfolding malloc_or_crash_def keep_defs by (rule post_rules impI keep post_any | simp)+

lemma keep_retransmit_copy [keep]:
  "frame ctx = S \<Longrightarrow> (\<And>c. frame c = S \<Longrightarrow> Q c) \<Longrightarrow> post (keep_for_retransmit env ctx peer s t bufs) Q"
  unfolding keep_for_retransmit_def keep_defs by (rule post_rules impI keep post_any | simp)+

lemma keep_send_multi [keep]:
  "frame ctx = S \<Longrightarrow> (\<And>y. frame (snd y) = S \<Longrightarrow> Q y) \<Longrightarrow> post (dtls_send_multi env ctx peer k session t bufs) Q"
  unfolding dtls_send_multi_def keep_defs by (rule post_rules impI keep post_any | simp)+

lemma keep_send [keep]:
  "frame ctx = S \<Longrightarrow> (\<And>y. frame (snd y) = S \<Longrightarrow> Q y) \<Longrightarrow> post (dtls_send env ctx peer t buf) Q"
  unfolding dtls_send_def keep_defs by (rule post_rules impI keep post_any | simp)+

lemma keep_send_ccs [keep]:
  "frame ctx = S \<Longrightarrow> (\<And>y. frame (snd y) = S \<Longrightarrow> Q y) \<Longrightarrow> post (dtls_send_ccs env ctx peer) Q"
  unfolding dtls_send_ccs_def keep_defs by (rule post_rules impI keep post_any | simp)+

lemma keep_send_alert [keep]:
  "frame ctx = S \<Longrightarrow> (\<And>y. frame (snd y) = S \<Longrightarrow> Q y) \<Longrightarrow> post (dtls_send_alert env ctx peer l d) Q"
  unfolding dtls_send_alert_def keep_defs by (rule post_rules impI keep post_any | simp)+

lemma keep_header [keep]:
  "frame ctx = S \<Longrightarrow> (\<And>y. frame (snd y) = S \<Longrightarrow> Q y) \<Longrightarrow> post (handshake_header peer t l off fl inc ctx) Q"
  unfolding handshake_header_def keep_defs by (rule post_rules impI keep post_any | simp)+

lemma keep_fragment [keep]:
  "frame ctx = S \<Longrightarrow> (\<And>y. frame (snd y) = S \<Longrightarrow> Q y) \<Longrightarrow> post (send_fragment env ctx peer session t data remaining add) Q"
  unfolding send_fragment_def keep_defs by (rule post_rules impI keep post_any | simp)+

lemma keep_send_loop [keep]:
  "frame ctx = S \<Longrightarrow> (\<And>y. frame (snd y) = S \<Longrightarrow> Q y) \<Longrightarrow>
   post (hs_send_loop env ctx peer session t data remaining add ret) Q"
proof (induction env ctx peer session t data remaining add ret rule: hs_send_loop.induct)
  case (1 env ctx peer session t data remaining add ret)
  have f: "post (send_fragment env ctx peer session t data remaining add) (\<lambda>y. frame (snd y) = S)"
    by (rule keep_fragment [OF 1(2)])
  show ?case
  proof (cases "send_fragment env ctx peer session t data remaining add")
    case None
    then show ?thesis by (subst hs_send_loop.simps) (simp add: post_def)
  next
    case (Some y)
    then show ?thesis
      using postD [OF f Some] 1(1) [of y "fst y" "snd y"] 1(3)
      by (subst hs_send_loop.simps) (auto simp: Let_def post_def case_prod_unfold split: if_splits)
  qed
qed

lemma keep_send_msg_hash [keep]:
  "frame ctx = S \<Longrightarrow> (\<And>y. frame (snd y) = S \<Longrightarrow> Q y) \<Longrightarrow> post (dtls_send_handshake_msg_hash env ctx peer session t data add) Q"
  unfolding dtls_send_handshake_msg_hash_def keep_defs by (rule post_rules impI keep post_any | simp)+

lemma keep_send_msg [keep]:
  "frame ctx = S \<Longrightarrow> (\<And>y. frame (snd y) = S \<Longrightarrow> Q y) \<Longrightarrow> post (dtls_send_handshake_msg env ctx peer t data) Q"
  unfolding dtls_send_handshake_msg_def keep_defs by (rule post_rules impI keep post_any | simp)+

lemma stop_loop_ph: "stop_loop ctx session node = Some c \<Longrightarrow> frame c = frame ctx \<and> cx_ph c = cx_ph ctx"
proof (rule stop_loop.raw_induct [where P = "\<lambda>ctx session node c. frame c = frame ctx \<and> cx_ph c = cx_ph ctx"])
  show "frame y = frame ctx \<and> cx_ph y = cx_ph ctx"
    if "\<And>ctx session node y. f ctx session node = Some y \<Longrightarrow> frame y = frame ctx \<and> cx_ph y = cx_ph ctx"
      and "(case node of None \<Rightarrow> Some ctx
      | Some a \<Rightarrow>
          (case cx_nh ctx a of
             None \<Rightarrow> None
           | Some n \<Rightarrow>
               (case Option.bind (nq_peer n) (cx_ph ctx) of
                  None \<Rightarrow> None
                | Some p \<Rightarrow>
                    (if dtls_session_equals (pr_session p) session then
                       (case netq_remove (cx_nh ctx) (cx_sendqueue ctx) node of
                          None \<Rightarrow> None
                        | Some (nh, q) \<Rightarrow>
                            f (ctx\<lparr>cx_nh := netq_node_free nh node, cx_sendqueue := q\<rparr>) session
                              (nq_next n))
                     else f ctx session (nq_next n))))) = Some y"
    for f ctx session node y
    using that(2) by (auto split: option.splits if_splits dest!: that(1))
qed

lemma keep_stop [keep]:
  "frame ctx = S \<Longrightarrow> (\<And>c. frame c = S \<Longrightarrow> cx_ph c = cx_ph ctx \<Longrightarrow> Q c) \<Longrightarrow>
   post (dtls_stop_retransmission ctx peer) Q"
  by (auto simp: dtls_stop_retransmission_def Option.bind_eq_Some_conv post_def split: option.splits dest!: stop_loop_ph)

subsection \<open>Messages\<close>

lemma keep_verify_peer [keep]:
  "frame ctx = S \<Longrightarrow> (\<And>y. frame (snd y) = S \<Longrightarrow> Q y) \<Longrightarrow> post (dtls_verify_peer env ctx peer session state data) Q"
  unfolding dtls_verify_peer_def keep_defs by (rule post_rules impI keep post_any | simp)+

lemma keep_client_hello [keep]:
  "frame ctx = S \<Longrightarrow> (\<And>y. frame (snd y) = S \<Longrightarrow> Q y) \<Longrightarrow> post (dtls_send_client_hello env ctx peer cookie len) Q"
  unfolding dtls_send_client_hello_def keep_defs by (rule post_rules impI keep post_any | simp)+

lemma keep_verify_request [keep]:
  "frame ctx = S \<Longrightarrow> (\<And>y. frame (snd y) = S \<Longrightarrow> Q y) \<Longrightarrow> post (check_server_hello_verify_request env ctx peer data) Q"
  unfolding check_server_hello_verify_request_def keep_defs by (rule post_rules impI keep post_any | simp)+

lemma keep_check_server_hello [keep]:
  "frame ctx = S \<Longrightarrow> (\<And>y. frame (snd y) = S \<Longrightarrow> Q y) \<Longrightarrow> post (check_server_hello env ctx peer data) Q"
  unfolding check_server_hello_def keep_defs by (rule post_rules impI keep post_any | simp)+

lemma keep_check_certificate [keep]:
  "frame ctx = S \<Longrightarrow> (\<And>y. frame (snd y) = S \<Longrightarrow> Q y) \<Longrightarrow> post (check_server_certificate env ctx peer data) Q"
  unfolding check_server_certificate_def keep_defs by (rule post_rules impI keep post_any | simp)+

lemma keep_check_ske_ecdsa [keep]:
  "frame ctx = S \<Longrightarrow> (\<And>y. frame (snd y) = S \<Longrightarrow> Q y) \<Longrightarrow> post (check_server_key_exchange_ecdsa env ctx peer data) Q"
  unfolding check_server_key_exchange_ecdsa_def keep_defs by (rule post_rules impI keep post_any | simp)+

lemma keep_check_ske_psk [keep]:
  "frame ctx = S \<Longrightarrow> (\<And>y. frame (snd y) = S \<Longrightarrow> Q y) \<Longrightarrow> post (check_server_key_exchange_psk env ctx peer data) Q"
  unfolding check_server_key_exchange_psk_def keep_defs by (rule post_rules impI keep post_any | simp)+

lemma keep_check_request [keep]:
  "frame ctx = S \<Longrightarrow> (\<And>y. frame (snd y) = S \<Longrightarrow> Q y) \<Longrightarrow> post (check_certificate_request env ctx peer data) Q"
  unfolding check_certificate_request_def keep_defs by (rule post_rules impI keep post_any | simp)+

lemma keep_check_cert_verify [keep]:
  "frame ctx = S \<Longrightarrow> (\<And>y. frame (snd y) = S \<Longrightarrow> Q y) \<Longrightarrow> post (check_client_certificate_verify env ctx peer data) Q"
  unfolding check_client_certificate_verify_def keep_defs by (rule post_rules impI keep post_any | simp)+

lemma keep_server_hello [keep]:
  "frame ctx = S \<Longrightarrow> (\<And>y. frame (snd y) = S \<Longrightarrow> Q y) \<Longrightarrow> post (dtls_send_server_hello env ctx peer) Q"
  unfolding dtls_send_server_hello_def keep_defs by (rule post_rules impI keep post_any | simp)+

lemma keep_server_hello_done [keep]:
  "frame ctx = S \<Longrightarrow> (\<And>y. frame (snd y) = S \<Longrightarrow> Q y) \<Longrightarrow> post (dtls_send_server_hello_done env ctx peer) Q"
  unfolding dtls_send_server_hello_done_def keep_defs by (rule post_rules impI keep post_any | simp)+

lemma keep_ske_psk [keep]:
  "frame ctx = S \<Longrightarrow> (\<And>y. frame (snd y) = S \<Longrightarrow> Q y) \<Longrightarrow> post (dtls_send_server_key_exchange_psk env ctx peer hint) Q"
  unfolding dtls_send_server_key_exchange_psk_def keep_defs by (rule post_rules impI keep post_any | simp)+

lemma keep_server_hello_msgs [keep]:
  "frame ctx = S \<Longrightarrow> (\<And>y. frame (snd y) = S \<Longrightarrow> Q y) \<Longrightarrow> post (dtls_send_server_hello_msgs env ctx peer) Q"
  unfolding dtls_send_server_hello_msgs_def keep_defs by (rule post_rules impI keep post_any | simp)+

lemma keep_key_block [keep]:
  "frame ctx = S \<Longrightarrow> (\<And>y. frame (snd y) = S \<Longrightarrow> Q y) \<Longrightarrow> post (calculate_key_block env ctx peer session role) Q"
  unfolding calculate_key_block_def keep_defs by (rule post_rules impI keep post_any | simp)+

lemma keep_send_finished [keep]:
  "frame ctx = S \<Longrightarrow> (\<And>y. frame (snd y) = S \<Longrightarrow> Q y) \<Longrightarrow> post (dtls_send_finished env ctx peer label) Q"
  unfolding dtls_send_finished_def keep_defs by (rule post_rules impI keep post_any | simp)+

lemma keep_check_finished [keep]:
  "frame ctx = S \<Longrightarrow> (\<And>y. frame (snd y) = S \<Longrightarrow> Q y) \<Longrightarrow> post (check_finished env ctx peer data) Q"
  unfolding check_finished_def keep_defs by (rule post_rules impI keep post_any | simp)+

lemma keep_cke_suite [keep]:
  "frame ctx = S \<Longrightarrow> (\<And>y. frame (snd (snd (snd y))) = S \<Longrightarrow> Q y) \<Longrightarrow> post (client_key_exchange env ctx session h) Q"
  unfolding client_key_exchange_def keep_defs by (rule post_rules impI keep post_any | simp)+

lemma keep_key_chain [keep]:
  "frame ctx = S \<Longrightarrow> (\<And>y. frame (snd (snd y)) = S \<Longrightarrow> cx_ph (snd (snd y)) = cx_ph ctx \<Longrightarrow> Q y) \<Longrightarrow>
   post (key_chain_loop env key n seed K ctx) Q"
proof (induction n arbitrary: seed K ctx)
  case 0
  then show ?case by (simp add: post_def)
next
  case (Suc n)
  show ?case
    unfolding key_chain_loop.simps keep_defs
    by (rule post_rules impI keep_run_hmac [OF Suc.prems(1)] Suc.IH | simp add: Suc.prems(2))+
qed

lemma keep_send_cke [keep]:
  "frame ctx = S \<Longrightarrow> (\<And>y. frame (snd y) = S \<Longrightarrow> Q y) \<Longrightarrow> post (dtls_send_client_key_exchange env ctx peer) Q"
  unfolding dtls_send_client_key_exchange_def keep_defs by (rule post_rules impI keep post_any | simp)+

lemma keep_hello_done [keep]:
  "frame ctx = S \<Longrightarrow> (\<And>y. frame (snd y) = S \<Longrightarrow> Q y) \<Longrightarrow> post (check_server_hellodone env ctx peer data) Q"
  unfolding check_server_hellodone_def keep_defs by (rule post_rules impI keep post_any | simp)+

lemma keep_tesla_sync [keep]:
  "frame ctx = S \<Longrightarrow> (\<And>y. frame (snd (snd y)) = S \<Longrightarrow> Q y) \<Longrightarrow> post (receive_tesla_sync env ctx data) Q"
  unfolding receive_tesla_sync_def keep_defs by (rule post_rules impI keep post_any | simp)+

lemma keep_update_compression [keep]:
  "(\<And>y. pview (snd y) = pview p \<Longrightarrow> Q y) \<Longrightarrow> post (update_compression p h msg q l) Q"
  unfolding update_compression_def keep_defs by (rule post_rules impI keep post_any | simp)+

lemma keep_update_ciphers [keep]:
  "(\<And>y. pview (snd y) = pview p \<Longrightarrow> Q y) \<Longrightarrow> post (update_ciphers caps p h msg q l) Q"
  unfolding update_ciphers_def keep_defs by (rule post_rules impI keep post_any | simp)+

lemma keep_update_parameters [keep]:
  "(\<And>y. map_option pview (snd y) = Some (pview p) \<Longrightarrow> Q y) \<Longrightarrow> post (dtls_update_parameters caps (Some p) data) Q"
  unfolding dtls_update_parameters_def keep_defs option.case by (rule post_rules impI keep post_any | simp)+

lemma keep_ensure_handshake [keep]:
  "frame ctx = S \<Longrightarrow> (\<And>y. frame (snd y) = S \<Longrightarrow> Q y) \<Longrightarrow> post (ensure_handshake env a r s ctx) Q"
  unfolding ensure_handshake_def keep_defs by (rule post_rules impI keep post_any | simp)+

lemma keep_advance [keep]:
  "frame ctx = S \<Longrightarrow> (\<And>c. frame c = S \<Longrightarrow> Q c) \<Longrightarrow> post (advance_mseq_r peer err ctx) Q"
  unfolding advance_mseq_r_def keep_defs by (rule post_rules impI keep post_any | simp)+

end
