(* ===== verification/StateMachine.thy ===== *)
theory StateMachine
  imports Frame
begin

text \<open>
  The handshake as a state machine. The relation \<open>hs_step\<close> is the protocol: which handshake message
  takes a peer from which state to which. \<open>handle_handshake_msg\<close> refines it, with one deviation
  (\<open>allowed_step\<close>): a call for a peer in its own state that does not report an error makes one step
  and changes nothing else that can be seen from outside, a call that reports an error makes no step. The
  calls in the state DTLS_STATE_WAIT_CLIENTHELLO, for an unknown peer or a reconnection, are described by
  \<open>replaced\<close>. \<open>handled\<close> and \<open>drained\<close> follow a handshake record through the message in it and the
  messages stored before.
\<close>

subsection \<open>The protocol\<close>

text \<open>\<open>hs_step c t role s s'\<close>: with the suite \<open>c\<close> negotiated, the message type \<open>t\<close> leads a peer in the
  given role from \<open>s\<close> to \<open>s'\<close>.\<close>

inductive hs_step :: "u16 \<Rightarrow> u8 \<Rightarrow> dtls_peer_type \<Rightarrow> dtls_state_t \<Rightarrow> dtls_state_t \<Rightarrow> bool" where
  verify_request: "hs_step c 3 r DTLS_STATE_CLIENTHELLO DTLS_STATE_CLIENTHELLO"
| server_hello_ecdsa: "hs_step c 2 r DTLS_STATE_CLIENTHELLO DTLS_STATE_WAIT_SERVERCERTIFICATE"
| server_hello_psk: "hs_step c 2 r DTLS_STATE_CLIENTHELLO DTLS_STATE_WAIT_SERVERHELLODONE"
| server_certificate:
    "hs_step c 11 DTLS_CLIENT DTLS_STATE_WAIT_SERVERCERTIFICATE DTLS_STATE_WAIT_SERVERKEYEXCHANGE"
| client_certificate:
    "hs_step c 11 DTLS_SERVER DTLS_STATE_WAIT_CLIENTCERTIFICATE DTLS_STATE_WAIT_CLIENTKEYEXCHANGE"
| server_key_exchange_ecdsa: "c = TLS_ECDHE_ECDSA_WITH_AES_128_CCM_8 \<Longrightarrow>
    hs_step c 12 r DTLS_STATE_WAIT_SERVERKEYEXCHANGE DTLS_STATE_WAIT_SERVERHELLODONE"
| server_key_exchange_psk: "c = TLS_PSK_WITH_AES_128_CCM_8 \<Longrightarrow>
    hs_step c 12 r DTLS_STATE_WAIT_SERVERHELLODONE DTLS_STATE_WAIT_SERVERHELLODONE"
| certificate_request: "hs_step c 13 r DTLS_STATE_WAIT_SERVERHELLODONE DTLS_STATE_WAIT_SERVERHELLODONE"
| server_hello_done: "hs_step c 14 r DTLS_STATE_WAIT_SERVERHELLODONE DTLS_STATE_WAIT_CHANGECIPHERSPEC"
| client_key_exchange_verify: "hs_step c 16 r DTLS_STATE_WAIT_CLIENTKEYEXCHANGE DTLS_STATE_WAIT_CERTIFICATEVERIFY"
| client_key_exchange: "hs_step c 16 r DTLS_STATE_WAIT_CLIENTKEYEXCHANGE DTLS_STATE_WAIT_CHANGECIPHERSPEC"
| certificate_verify: "hs_step c 15 r DTLS_STATE_WAIT_CERTIFICATEVERIFY DTLS_STATE_WAIT_CHANGECIPHERSPEC"
| finished: "hs_step c 20 r DTLS_STATE_WAIT_FINISHED DTLS_STATE_CONNECTED"
| renegotiation_cookie: "hs_step c 1 r DTLS_STATE_CONNECTED DTLS_STATE_CONNECTED"
| renegotiation_ecdsa: "hs_step c 1 r DTLS_STATE_CONNECTED DTLS_STATE_WAIT_CLIENTCERTIFICATE"
| renegotiation: "hs_step c 1 r DTLS_STATE_CONNECTED DTLS_STATE_WAIT_CLIENTKEYEXCHANGE"
| hello_request: "hs_step c 0 r DTLS_STATE_CONNECTED DTLS_STATE_CLIENTHELLO"
| hello_request_ignored: "s \<noteq> DTLS_STATE_CONNECTED \<Longrightarrow> hs_step c 0 r s s"

code_pred hs_step .

inductive_cases to_connected: "hs_step c t r s DTLS_STATE_CONNECTED"

text \<open>What the code allows. It deviates from the protocol in one point: as long as no suite is negotiated,
  a ServerKeyExchange is not looked at, and takes the peer from any state to the one before
  ServerHelloDone.\<close>

definition allowed_step :: "u16 \<Rightarrow> u8 \<Rightarrow> dtls_peer_type \<Rightarrow> dtls_state_t \<Rightarrow> dtls_state_t \<Rightarrow> bool" where
  "allowed_step c t r s s' \<longleftrightarrow> hs_step c t r s s' \<or>
     t = 12 \<and> c \<noteq> TLS_ECDHE_ECDSA_WITH_AES_128_CCM_8 \<and> c \<noteq> TLS_PSK_WITH_AES_128_CCM_8 \<and>
     s' = DTLS_STATE_WAIT_SERVERHELLODONE"

lemmas steps = allowed_step_def hs_step.intros

text \<open>A peer moved to another state, on frames.\<close>

definition move :: "nat \<Rightarrow> dtls_state_t \<Rightarrow> (nat \<Rightarrow> peer_view option) \<times> 'b \<Rightarrow> (nat \<Rightarrow> peer_view option) \<times> 'b" where
  "move a st S = ((fst S)(a := map_option (\<lambda>(n, s, r, _). (n, s, r, st)) (fst S a)), snd S)"

lemma move_move [simp]: "move a s' (move a s S) = move a s' S"
  by (auto simp: move_def split: prod.splits intro: option.map_cong0) (auto simp: option.map_comp o_def case_prod_unfold)

lemma move_same: "cx_ph ctx a = Some p \<Longrightarrow> move a (pr_state p) (frame ctx) = frame ctx"
  by (auto simp: move_def frame_def pview_def fun_eq_iff)

lemma frame_set_state [simp]:
  "cx_ph ctx a = Some q \<Longrightarrow> pview p = pview q \<Longrightarrow> frame (store_peer a (p\<lparr>pr_state := st\<rparr>) ctx) = move a st (frame ctx)"
  by (auto simp: frame_def store_peer_def fun_eq_iff move_def pview_def)

lemma keep_set_state [keep]:
  "frame ctx = S \<Longrightarrow> (\<And>c. frame c = move a st S \<Longrightarrow> Q c) \<Longrightarrow> post (set_state a st ctx) Q"
  by (auto simp: set_state_def post_def Option.bind_eq_Some_conv)

lemma keep_break_in [keep]:
  "frame ctx = S \<Longrightarrow> (\<And>y. fst y = Break err (Some a) \<Longrightarrow> frame (snd y) = move a st S \<Longrightarrow> Q y) \<Longrightarrow>
   post (break_in a st err ctx) Q"
  unfolding break_in_def by (rule post_rules impI keep post_any | simp)+

subsection \<open>The cases of the switch\<close>

text \<open>The outcome of a message of type \<open>t\<close> for a peer in the frame \<open>S\<close>.\<close>

definition stepped where
  "stepped c t role a st S err f \<longleftrightarrow>
     (if err < (0 :: int) then f = S else \<exists>st'. allowed_step c t role st st' \<and> f = move a st' S)"

definition good where
  "good c t role a st S y \<longleftrightarrow>
     (case fst y of Return err \<Rightarrow> stepped c t role a st S err (frame (snd y))
      | Break err q \<Rightarrow> 0 \<le> err \<and> stepped c t role a st S err (frame (snd y)))"

lemma good_rules:
  "fst y = Return err \<Longrightarrow> err < 0 \<Longrightarrow> frame (snd y) = S \<Longrightarrow> good c t role a st S y"
  "fst y = Break err q \<Longrightarrow> 0 \<le> err \<Longrightarrow> allowed_step c t role st st' \<Longrightarrow> frame (snd y) = move a st' S \<Longrightarrow>
   good c t role a st S y"
  "fst y = Return err \<Longrightarrow> 0 \<le> err \<Longrightarrow> allowed_step c t role st st' \<Longrightarrow> frame (snd y) = move a st' S \<Longrightarrow>
   good c t role a st S y"
  by (auto simp: good_def stepped_def)

lemma errors: "UNEXPECTED_MESSAGE < 0" "INTERNAL_ERROR < 0"
  by (simp_all add: UNEXPECTED_value INTERNAL_ERROR_def alert_defs)


lemma good_unexpected: "good c t role a st S (Return UNEXPECTED_MESSAGE, ctx) \<longleftrightarrow> frame ctx = S"
  "good c t role a st S (Return INTERNAL_ERROR, ctx) \<longleftrightarrow> frame ctx = S"
  by (simp_all add: good_def stepped_def errors)

lemma good_break: "fst y = Break err q \<Longrightarrow> \<not> err < 0 \<Longrightarrow> frame (snd y) = move a st' S \<Longrightarrow>
   allowed_step c t role st st' \<Longrightarrow> good c t role a st S y"
  by (auto simp: good_def stepped_def)

lemma good_stay:
  "move a st S = S \<Longrightarrow> allowed_step c t role st st \<Longrightarrow> \<not> e < 0 \<Longrightarrow> frame f = S \<Longrightarrow> good c t role a st S (Break e q, f)"
  "move a st S = S \<Longrightarrow> allowed_step c t role st st \<Longrightarrow> \<not> e < 0 \<Longrightarrow> frame f = S \<Longrightarrow> good c t role a st S (Return e, f)"
  by (auto simp: good_def stepped_def)

lemma post_old_peer:
  "st \<noteq> DTLS_STATE_WAIT_CLIENTHELLO \<Longrightarrow> Q (Some a, ctx) \<Longrightarrow> post (hello_peer env ctx (Some a) session st) Q"
  by (simp add: hello_peer_def post_def)

lemmas case_defs = unless_error_def keep_defs option.case

lemma case_server_hello:
  "frame ctx = S \<Longrightarrow> post (on_server_hello env ctx (Some a) st data) (good c 2 role a st S)"
  unfolding on_server_hello_def case_defs
  by (rule post_rules impI keep post_any | (erule good_break, assumption+; simp add: steps)
      | simp add: good_unexpected | simp add: good_def stepped_def)+

lemma case_certificate:
  "frame ctx = S \<Longrightarrow> post (on_certificate env ctx (Some a) role st data) (good c 11 role a st S)"
  unfolding on_certificate_def case_defs
  by (rule post_rules impI keep post_any | (erule good_break, assumption+; cases role; simp add: steps)
      | simp add: good_unexpected | simp add: good_def stepped_def)+

lemma case_server_hello_done:
  "frame ctx = S \<Longrightarrow> post (on_server_hello_done env ctx (Some a) st data) (good c 14 role a st S)"
  unfolding on_server_hello_done_def case_defs
  by (rule post_rules impI keep post_any | (erule good_break, assumption+; simp add: steps)
      | simp add: good_unexpected | simp add: good_def stepped_def)+

lemma case_certificate_request:
  "frame ctx = S \<Longrightarrow> move a st S = S \<Longrightarrow>
   post (on_certificate_request env ctx (Some a) st data) (good c 13 role a st S)"
  unfolding on_certificate_request_def case_defs
  by (rule post_rules impI keep post_any | (rule good_stay; simp add: steps; fail)
      | simp add: good_unexpected | (simp add: good_def stepped_def; fail))+

lemma case_hello_verify_request:
  "frame ctx = S \<Longrightarrow> move a st S = S \<Longrightarrow>
   post (on_hello_verify_request env ctx (Some a) st data) (good c 3 role a st S)"
  unfolding on_hello_verify_request_def case_defs
  by (rule post_rules impI keep post_any | (rule good_stay; simp add: steps; fail)
      | simp add: good_unexpected | (simp add: good_def stepped_def; fail))+

definition suite :: "dtls_peer_t \<Rightarrow> u16" where
  "suite p = (case pr_handshake p of None \<Rightarrow> 0 | Some h \<Rightarrow> hp_cipher h)"

lemma case_server_key_exchange:
  "frame ctx = S \<Longrightarrow> cx_ph ctx a = Some p \<Longrightarrow>
   post (on_server_key_exchange env ctx (Some a) st data) (good (suite p) 12 role a st S)"
  unfolding on_server_key_exchange_def case_defs
  by (rule post_rules impI keep post_any
      | (erule good_break, simp, assumption;
         simp add: suite_def is_tls_ecdhe_ecdsa_with_aes_128_ccm_8_def is_tls_psk_with_aes_128_ccm_8_def steps)
      | simp add: good_unexpected | simp add: good_def stepped_def)+

lemma case_client_key_exchange:
  "frame ctx = S \<Longrightarrow> post (on_client_key_exchange env ctx (Some a) st data) (good c 16 role a st S)"
  unfolding on_client_key_exchange_def case_defs
  by (rule post_rules impI keep post_any | (erule good_break, simp, assumption; simp add: steps)
      | simp add: good_unexpected | simp add: good_def stepped_def)+

lemma case_certificate_verify:
  "frame ctx = S \<Longrightarrow> post (on_certificate_verify env ctx (Some a) st data) (good c 15 role a st S)"
  unfolding on_certificate_verify_def case_defs
  by (rule post_rules impI keep post_any | (erule good_break, simp, assumption; simp add: steps)
      | simp add: good_unexpected | simp add: good_def stepped_def)+

lemma case_finished:
  "frame ctx = S \<Longrightarrow> post (on_finished env ctx (Some a) role st data) (good c 20 role a st S)"
  unfolding on_finished_def case_defs
  by (rule post_rules impI keep post_any 
      | simp add: good_unexpected | simp add: good_def stepped_def
      | force simp: good_def stepped_def steps)+

lemma case_hello_request:
  "frame ctx = S \<Longrightarrow> move a st S = S \<Longrightarrow>
   post (on_hello_request env ctx (Some a) st) (good c 0 role a st S)"
  unfolding on_hello_request_def case_defs
  by (rule post_rules impI keep post_any | (erule good_break, simp, assumption; simp add: steps)
      | (rule good_stay; simp add: steps; fail)
      | simp add: good_unexpected | (simp add: good_def stepped_def; fail))+

lemma case_client_hello:
  "frame ctx = S \<Longrightarrow> move a st S = S \<Longrightarrow> st \<noteq> DTLS_STATE_WAIT_CLIENTHELLO \<Longrightarrow>
   post (on_client_hello env ctx (Some a) session st data) (good c 1 role a st S)"
  unfolding on_client_hello_def case_defs
  by (rule post_rules impI keep post_old_peer post_any | (erule good_break, simp, assumption; simp add: steps)
      | (rule good_stay; simp add: steps; fail)
      | simp add: good_unexpected | (simp add: good_def stepped_def; fail))+

subsection \<open>The switch refines the protocol\<close>

lemma good_cases:
  assumes "move a st S = S" and "frame ctx = S" and "cx_ph ctx a = Some p" and "st \<noteq> DTLS_STATE_WAIT_CLIENTHELLO"
  shows "post (msg_case env ctx (Some a) session role st data t) (good (suite p) t role a st S)"
  unfolding msg_case_def
  using case_hello_verify_request [OF assms(2,1)] case_server_hello [OF assms(2)] case_certificate [OF assms(2)]
    case_server_key_exchange [OF assms(2,3)] case_server_hello_done [OF assms(2)]
    case_certificate_request [OF assms(2,1)] case_finished [OF assms(2)] case_client_key_exchange [OF assms(2)]
    case_certificate_verify [OF assms(2)] case_client_hello [OF assms(2,1,4)] case_hello_request [OF assms(2,1)]
    assms(2)
  by (intro post_rules) (simp_all add: good_unexpected)

lemma handle_msg_step:
  assumes "cx_ph ctx a = Some p" and "pr_state p \<noteq> DTLS_STATE_WAIT_CLIENTHELLO"
    and "handle_handshake_msg env ctx (Some a) session role (pr_state p) data = Some (err, ctx')"
  shows "stepped (suite p) (data ! 0) role a (pr_state p) (frame ctx) err (frame ctx')"
proof -
  let ?S = "frame ctx" and ?st = "pr_state p"
  note S = move_same [OF assms(1)]
  obtain c t r c' where c: "dtls_stop_retransmission ctx (Some a) = Some c" "rd data 0 = Some t"
      "msg_case env c (Some a) session role ?st data t = Some (r, c')"
      "(case r of Return err \<Rightarrow> Some (err, c')
        | Break err peer \<Rightarrow> map_option (\<lambda>ctx. (err, ctx)) (advance_mseq_r peer err c')) = Some (err, ctx')"
    using assms(3) by (auto simp: handle_handshake_msg_def Option.bind_eq_Some_conv)
  have t: "t = data ! 0" using c(2) by (simp add: rd_def split: if_splits)
  have f: "frame c = ?S \<and> cx_ph c = cx_ph ctx"
    using postD [OF keep_stop [where Q = "\<lambda>c. frame c = ?S \<and> cx_ph c = cx_ph ctx", OF refl] c(1)] by blast
  have "good (suite p) t role a ?st ?S (r, c')"
    using postD [OF good_cases [OF S _ _ assms(2)] c(3)] f assms(1) by simp
  then show ?thesis
  proof (cases r)
    case (Return e)
    then show ?thesis using \<open>good _ _ _ _ _ _ _\<close> c(4) t by (simp add: good_def)
  next
    case (Break e q)
    have v: "e = err" "advance_mseq_r q e c' = Some ctx'" using c(4) unfolding Break by auto
    have "frame ctx' = frame c'"
      by (rule postD [OF keep_advance [where Q = "\<lambda>d. frame d = frame c'", OF refl] v(2)])
    then show ?thesis using \<open>good _ _ _ _ _ _ _\<close> t v(1) Break by (simp add: good_def)
  qed
qed

subsection \<open>A ClientHello of an unknown or a reconnecting client\<close>







text \<open>The new peer is created.\<close>

definition fresh_addresses :: "dtls_env \<Rightarrow> bool" where
  "fresh_addresses env \<longleftrightarrow> (\<forall>h a. ev_peer_alloc env h = Some a \<longrightarrow> h a = None)"











subsection \<open>Handshake records\<close>

lemma allowed_step_waiting:
  "allowed_step c t r s s' \<Longrightarrow> s \<noteq> DTLS_STATE_WAIT_CLIENTHELLO \<Longrightarrow> s' \<noteq> DTLS_STATE_WAIT_CLIENTHELLO"
  by (auto simp: allowed_step_def elim: hs_step.cases)

lemma frame_moved:
  assumes "frame d = move a st (frame c)" and "cx_ph c a = Some p"
  shows "\<exists>q. cx_ph d a = Some q \<and> pr_state q = st"
proof -
  have "fst (frame d) a = fst (move a st (frame c)) a" using assms(1) by simp
  then show ?thesis using assms(2) by (cases "cx_ph d a") (auto simp: frame_def move_def pview_def)
qed

text \<open>\<open>due_message env a ctx received m\<close>: the record \<open>received\<close> holds the handshake message \<open>m\<close>, or completes
  it, and \<open>m\<close> has the number that the peer expects; without handshake parameters there is no such number,
  and only a ClientHello or a HelloRequest is taken.\<close>

definition due_message :: "dtls_env \<Rightarrow> nat \<Rightarrow> dtls_context_t \<Rightarrow> bytes \<Rightarrow> bytes \<Rightarrow> bool" where
  "due_message env a ctx received m \<longleftrightarrow>
     (\<exists>p ok1 ok2 data hs. cx_ph ctx a = Some p \<and>
        hs_reassemble ok1 ok2 (pr_handshake p) received = Some (Deliver data, hs) \<and>
        (case hs of
           None \<Rightarrow> m = data \<and> (m ! 0 = 1 \<or> m ! 0 = 0)
         | Some h \<Rightarrow> dtls_uint16_to_int (drop 4 data) = Some (hs_mseq_r (hp_hs_state h)) \<and>
             hs_payload env received data = Some m))"

text \<open>\<open>stored_message a ctx m\<close>: the reorder queue of the peer holds the message \<open>m\<close> with the number expected
  now.\<close>

definition stored_message :: "nat \<Rightarrow> dtls_context_t \<Rightarrow> bytes \<Rightarrow> bool" where
  "stored_message a ctx m \<longleftrightarrow>
     (\<exists>p h i n. cx_ph ctx a = Some p \<and> pr_handshake p = Some h \<and> cx_nh ctx i = Some n \<and>
        reorder_find (cx_nh ctx) (hs_mseq_r (hp_hs_state h)) (hp_reorder_queue h) = Some (Some i) \<and>
        dtls_uint16_to_int (drop 4 (nq_data n)) = Some (hs_mseq_r (hp_hs_state h)) \<and>
        m = take (nq_length n) (nq_data n))"

lemma reorder_find_number:
  "reorder_find nh seq node = Some r \<Longrightarrow>
   \<forall>i. r = Some i \<longrightarrow> (\<exists>n. nh i = Some n \<and> dtls_uint16_to_int (drop 4 (nq_data n)) = Some seq)"
proof (induct rule: reorder_find.raw_induct [rotated, consumes 1, case_names step])
  case (step f nh seq node r)
  show ?case using step(2) by (auto split: option.splits if_splits dest: step(1))
qed

text \<open>\<open>handled env session role a ctx m ctx'\<close>: the switch accepts the message \<open>m\<close> in the state of the peer, and
  takes it one step along the state machine of its suite. The context that the switch is called with
  has the same frame as \<open>ctx\<close>: a node may have left the reorder queue.\<close>

definition handled ::
  "dtls_env \<Rightarrow> session_t \<Rightarrow> dtls_peer_type \<Rightarrow> nat \<Rightarrow> dtls_context_t \<Rightarrow> bytes \<Rightarrow> dtls_context_t \<Rightarrow> bool" where
  "handled env session role a ctx m ctx' \<longleftrightarrow>
     (\<exists>p c err st. cx_ph ctx a = Some p \<and> frame c = frame ctx \<and>
        handle_handshake_msg env c (Some a) session role (pr_state p) m = Some (err, ctx') \<and> 0 \<le> err \<and>
        allowed_step (suite p) (m ! 0) role (pr_state p) st \<and> frame ctx' = move a st (frame ctx))"

text \<open>\<open>drained env session role a ctx ms ctx'\<close>: the stored messages \<open>ms\<close> are handled one after the other, each as
  the one expected after the messages before it. What follows the last leaves the frame as it is.\<close>

inductive drained ::
  "dtls_env \<Rightarrow> session_t \<Rightarrow> dtls_peer_type \<Rightarrow> nat \<Rightarrow> dtls_context_t \<Rightarrow> bytes list \<Rightarrow> dtls_context_t \<Rightarrow> bool"
  for env session role a where
  no_more: "frame ctx' = frame ctx \<Longrightarrow> drained env session role a ctx [] ctx'"
| next_one: "stored_message a ctx m \<Longrightarrow> handled env session role a ctx m ctx1 \<Longrightarrow>
    drained env session role a ctx1 ms ctx' \<Longrightarrow> drained env session role a ctx (m # ms) ctx'"

text \<open>One call of the switch, in a context that differs from \<open>ctx\<close> in the queues only.\<close>

lemma call_handled:
  assumes "cx_ph ctx a = Some p" and "pr_state p \<noteq> DTLS_STATE_WAIT_CLIENTHELLO"
    and "frame c = frame ctx" and "cx_ph c a = Some p1" and "pr_state p1 = pr_state p" and "suite p1 = suite p"
    and "handle_handshake_msg env c (Some a) session role (pr_state p) m = Some (res, ctx1)"
  shows "if res < 0 then frame ctx1 = frame ctx
    else handled env session role a ctx m ctx1 \<and>
      (\<exists>q. cx_ph ctx1 a = Some q \<and> pr_state q \<noteq> DTLS_STATE_WAIT_CLIENTHELLO)"
proof -
  have "stepped (suite p1) (m ! 0) role a (pr_state p1) (frame c) res (frame ctx1)"
    using handle_msg_step [OF assms(4)] assms(2,5,7) by simp
  then have s: "stepped (suite p) (m ! 0) role a (pr_state p) (frame ctx) res (frame ctx1)"
    using assms(3,5,6) by simp
  show ?thesis
  proof (cases "res < 0")
    case True
    then show ?thesis using s by (simp add: stepped_def)
  next
    case False
    then obtain st where st: "allowed_step (suite p) (m ! 0) role (pr_state p) st" "frame ctx1 = move a st (frame ctx)"
      using s by (auto simp: stepped_def)
    have "handled env session role a ctx m ctx1"
      using assms(1,3,7) st False unfolding handled_def by (intro exI [of _ p] exI [of _ c] exI [of _ res] exI [of _ st]) simp
    then show ?thesis
      using False frame_moved [OF st(2) assms(1)] allowed_step_waiting [OF st(1) assms(2)] by auto
  qed
qed

lemma reorder_drain_run:
  assumes "reorder_drain env ctx a session role res = Some y"
    and "cx_ph ctx a = Some p" and "pr_state p \<noteq> DTLS_STATE_WAIT_CLIENTHELLO"
  shows "\<exists>ms. drained env session role a ctx ms (snd y)"
  using assms
proof (induct arbitrary: p rule: reorder_drain.raw_induct [rotated, consumes 1, case_names step])
  case (step f env ctx a session role res y)
  note p = step(3,4)
  consider "y = (res, ctx)"
    | h i nh q ctx1 r ctx2 and n :: netq_t where "pr_handshake p = Some h"
      "reorder_find (cx_nh ctx) (hs_mseq_r (hp_hs_state h)) (hp_reorder_queue h) = Some (Some i)" "cx_nh ctx i = Some n"
      "put_hs a (Some (h\<lparr>hp_reorder_queue := q\<rparr>)) (ctx\<lparr>cx_nh := nh\<rparr>) = Some ctx1"
      "handle_handshake_msg env ctx1 (Some a) session role (pr_state p) (take (nq_length n) (nq_data n)) = Some (r, ctx2)"
      "r < 0 \<longrightarrow> y = (r, ctx2)" "\<not> r < 0 \<longrightarrow> f env ctx2 a session role r = Some y"
  proof (cases "pr_handshake p")
    case None
    then show ?thesis using step(2) p(1) that(1) by simp
  next
    case (Some h)
    then show ?thesis
      using step(2) p(1) that(1)
      by (auto simp: netq_head_def split: option.splits if_splits)
        (rule that(2) [OF Some], assumption, assumption, assumption, assumption, simp, simp)+
  qed
  then show ?case
  proof cases
    case 1
    then show ?thesis by (auto intro: drained.no_more)
  next
    case 2
    define m where "m = take (nq_length n) (nq_data n)"
    have m: "stored_message a ctx m"
      unfolding stored_message_def m_def
      using reorder_find_number [OF 2(2)] p(1) 2(1,2,3) by (intro exI [of _ p] exI [of _ h] exI [of _ i] exI [of _ n]) simp
    have c: "frame ctx1 = frame ctx" "cx_ph ctx1 a = Some (p\<lparr>pr_handshake := Some (h\<lparr>hp_reorder_queue := q\<rparr>)\<rparr>)"
      using 2(4) p(1) by (auto simp: put_hs_def)
    have s: "suite (p\<lparr>pr_handshake := Some (h\<lparr>hp_reorder_queue := q\<rparr>)\<rparr>) = suite p" by (simp add: suite_def 2(1))
    note h = call_handled [OF p c _ s 2(5) [folded m_def]]
    show ?thesis
    proof (cases "r < 0")
      case True
      then show ?thesis using h 2(6) by (auto intro: drained.no_more)
    next
      case False
      then obtain q' where "handled env session role a ctx m ctx2" "cx_ph ctx2 a = Some q'"
        "pr_state q' \<noteq> DTLS_STATE_WAIT_CLIENTHELLO" using h by auto
      then show ?thesis using step(1) [of env ctx2 a session role r y q'] 2(7) False drained.next_one [OF m] by blast
    qed
  qed
qed

lemma reassemble_keeps_suite:
  "hs_reassemble ok1 ok2 hs d = Some (r, hs') \<Longrightarrow> map_option hp_cipher hs' = map_option hp_cipher hs"
  by (auto simp: hs_reassemble_def dtls_init_reassemble_buffer_def dtls_free_reassemble_buffer_def Let_def
      Option.bind_eq_Some_conv split: option.splits if_splits)

lemma keep_reorder_add [keep]:
  "frame ctx = S \<Longrightarrow> (\<And>y. frame (snd y) = S \<Longrightarrow> Q y) \<Longrightarrow> post (reorder_add env ctx a h seq data) Q"
  unfolding reorder_add_def keep_defs by (rule post_rules impI keep post_any | simp)+

lemma handle_handshake_run:
  assumes "cx_ph ctx a = Some p" and "pr_state p \<noteq> DTLS_STATE_WAIT_CLIENTHELLO"
    and "handle_handshake env ctx (Some a) session role (pr_state p) received = Some (err, ctx')"
  shows "frame ctx' = frame ctx \<or>
    (\<exists>m ctx1 ms. due_message env a ctx received m \<and> handled env session role a ctx m ctx1 \<and>
      drained env session role a ctx1 ms ctx')"
proof (cases "length received < 12")
  case True
  then show ?thesis using assms(3) by (simp add: handle_handshake_def)
next
  case False
  define c0 where "c0 = snd (malloc_ok env (snd (malloc_ok env ctx)))"
  have c0: "frame c0 = frame ctx" "cx_ph c0 = cx_ph ctx" by (simp_all add: c0_def)
  obtain r hs where r: "hs_reassemble (fst (malloc_ok env ctx)) (fst (malloc_ok env (snd (malloc_ok env ctx))))
      (pr_handshake p) received = Some (r, hs)"
    using assms(1,3) False by (auto simp: handle_handshake_def case_prod_unfold Let_def Option.bind_eq_Some_conv c0(2))
  define p1 where "p1 = p\<lparr>pr_handshake := hs\<rparr>"
  define c1 where "c1 = store_peer a p1 c0"
  have s1: "suite p1 = suite p"
    using reassemble_keeps_suite [OF r] by (auto simp: suite_def p1_def split: option.splits)
  have c1: "put_hs a hs c0 = Some c1" "frame c1 = frame ctx" "cx_ph c1 a = Some p1" "pr_state p1 = pr_state p"
    using assms(1) c0 by (simp_all add: put_hs_def c1_def p1_def)
  have body: "(case r of
      Reject err \<Rightarrow> Some (err, c1)
    | Deliver data \<Rightarrow> do {
        t \<leftarrow> rd data 0;
        (case hs of
           Some h \<Rightarrow> do {
             seq \<leftarrow> dtls_uint16_to_int (drop 4 data);
             let expected = hs_mseq_r (hp_hs_state h);
             if seq < expected then Some (0, c1)
             else if seq > expected then reorder_add env c1 a h seq data
             else do {
               ctx \<leftarrow> put_hs a (Some (dtls_free_reassemble_buffer h)) c1;
               data \<leftarrow> hs_payload env received data;
               (res, ctx) \<leftarrow> handle_handshake_msg env ctx (Some a) session role (pr_state p) data;
               if res < 0 then Some (res, ctx) else reorder_drain env ctx a session role res } }
         | None \<Rightarrow>
             (if t = 1 \<or> t = 0 then handle_handshake_msg env c1 (Some a) session role (pr_state p) data
              else Some (0, c1))) }) = Some (err, ctx')"
    using assms(1,3) False r c0(2) c1(1)
    by (cases r; cases hs; simp add: handle_handshake_def case_prod_unfold Let_def c0_def [symmetric])
  show ?thesis
  proof (cases r)
    case (Reject e)
    then show ?thesis using body c1(2) by simp
  next
    case (Deliver data)
    obtain t where t: "rd data 0 = Some t" using body Deliver by (auto simp: Option.bind_eq_Some_conv)
    note r = r [unfolded Deliver]
    show ?thesis
    proof (cases hs)
      case None
      show ?thesis
      proof (cases "t = 1 \<or> t = 0")
        case True
        then have m: "handle_handshake_msg env c1 (Some a) session role (pr_state p) data = Some (err, ctx')"
          using body Deliver None t by auto
        have d: "due_message env a ctx received data"
          using assms(1) r True t None unfolding due_message_def by (force simp: rd_def split: if_splits)
        show ?thesis
          using call_handled [OF assms(1,2) c1(2,3,4) s1 m] d drained.no_more [OF refl, of env session role a ctx']
          by (fastforce split: if_splits)
      next
        case False
        then show ?thesis using body Deliver None t c1(2) by auto
      qed
    next
      case (Some h)
      obtain seq where seq: "dtls_uint16_to_int (drop 4 data) = Some seq"
        using body Deliver Some by (auto simp: Option.bind_eq_Some_conv)
      let ?e = "hs_mseq_r (hp_hs_state h)"
      consider "seq < ?e" | "seq > ?e" | "seq = ?e" using linorder_less_linear by blast
      then show ?thesis
      proof cases
        case 1
        then show ?thesis using body Deliver Some t seq c1(2) by simp
      next
        case 2
        then have "reorder_add env c1 a h seq data = Some (err, ctx')"
          using body Deliver Some t seq by (simp add: Let_def less_not_sym)
        from postD [OF keep_reorder_add [where Q = "\<lambda>y. frame (snd y) = frame c1", OF refl] this]
        show ?thesis using c1(2) by simp
      next
        case 3
        define p2 where "p2 = p1\<lparr>pr_handshake := Some (dtls_free_reassemble_buffer h)\<rparr>"
        define c2 where "c2 = store_peer a p2 c1"
        have c2: "put_hs a (Some (dtls_free_reassemble_buffer h)) c1 = Some c2"
          "frame c2 = frame ctx" "cx_ph c2 a = Some p2" "pr_state p2 = pr_state p"
          using c1(2,3,4) by (simp_all add: put_hs_def p2_def c2_def)
        have s2: "suite p2 = suite p"
          using s1 by (simp add: suite_def p2_def p1_def Some dtls_free_reassemble_buffer_def)
        obtain m res c3 where m: "hs_payload env received data = Some m"
            "handle_handshake_msg env c2 (Some a) session role (pr_state p) m = Some (res, c3)"
            "(if res < 0 then Some (res, c3) else reorder_drain env c3 a session role res) = Some (err, ctx')"
          using body Deliver Some t seq 3 c2(1) by (auto simp: Option.bind_eq_Some_conv)
        have d: "due_message env a ctx received m"
          using assms(1) r seq 3 m(1) Some unfolding due_message_def by fastforce
        note h = call_handled [OF assms(1,2) c2(2-4) s2 m(2)]
        show ?thesis
        proof (cases "res < 0")
          case True
          then show ?thesis using h m(3) by simp
        next
          case False
          then obtain q where q: "handled env session role a ctx m c3" "cx_ph c3 a = Some q"
            "pr_state q \<noteq> DTLS_STATE_WAIT_CLIENTHELLO" using h by auto
          then show ?thesis using reorder_drain_run [OF _ q(2,3)] m(3) False d by fastforce
        qed
      qed
    qed
  qed
qed

text \<open>Over a whole record only the state of the peer changes, and it does not become connected without a
  Finished.\<close>

lemma allowed_connected:
  assumes "allowed_step c t r s DTLS_STATE_CONNECTED" and "s \<noteq> DTLS_STATE_CONNECTED"
  shows "t = 20" and "s = DTLS_STATE_WAIT_FINISHED"
  using assms by (auto simp: allowed_step_def elim: to_connected)

lemma handled_moves:
  "handled env session role a ctx m ctx1 \<Longrightarrow> cx_ph ctx a = Some p \<Longrightarrow>
   \<exists>q. cx_ph ctx1 a = Some q \<and> frame ctx1 = move a (pr_state q) (frame ctx) \<and>
     (pr_state q = DTLS_STATE_CONNECTED \<longrightarrow> pr_state p \<noteq> DTLS_STATE_CONNECTED \<longrightarrow> m ! 0 = 20)"
proof -
  assume h: "handled env session role a ctx m ctx1" and p: "cx_ph ctx a = Some p"
  obtain st where st: "allowed_step (suite p) (m ! 0) role (pr_state p) st" "frame ctx1 = move a st (frame ctx)"
    using h p by (auto simp: handled_def)
  obtain q where q: "cx_ph ctx1 a = Some q" "pr_state q = st" using frame_moved [OF st(2) p] by blast
  have "m ! 0 = 20" if "st = DTLS_STATE_CONNECTED" "pr_state p \<noteq> DTLS_STATE_CONNECTED"
    using allowed_connected(1) [OF st(1) [unfolded that(1)] that(2)] .
  then show ?thesis using st q by blast
qed

lemma drained_moves:
  "drained env session role a ctx ms ctx' \<Longrightarrow> cx_ph ctx a = Some p \<Longrightarrow>
   \<exists>q. cx_ph ctx' a = Some q \<and> frame ctx' = move a (pr_state q) (frame ctx) \<and>
     (pr_state q = DTLS_STATE_CONNECTED \<longrightarrow> pr_state p \<noteq> DTLS_STATE_CONNECTED \<longrightarrow> (\<exists>m\<in>set ms. m ! 0 = 20))"
proof (induction arbitrary: p rule: drained.induct)
  case (no_more ctx' ctx)
  have m: "frame ctx' = move a (pr_state p) (frame ctx)"
    using no_more(1) move_same [OF no_more(2)] by simp
  then show ?case using frame_moved [OF m no_more(2)] by auto
next
  case (next_one ctx m ctx1 ms ctx')
  obtain q where q: "cx_ph ctx1 a = Some q" "frame ctx1 = move a (pr_state q) (frame ctx)"
    "pr_state q = DTLS_STATE_CONNECTED \<longrightarrow> pr_state p \<noteq> DTLS_STATE_CONNECTED \<longrightarrow> m ! 0 = 20"
    using handled_moves [OF next_one(2,5)] by blast
  then show ?case using next_one(4) [OF q(1)] by fastforce
qed

text \<open>C23: What a handshake record makes an existing peer do, handled in the peer's own state: nothing that can be
  seen from outside, or it holds or completes the message with the expected number, the switch accepts
  this message, and after it the messages stored in the reorder queue, each as the one expected
  then; every one of them takes the peer one step along the state machine of the suite negotiated at that
  moment, from the state the peer is in. All in all the state of the peer is the only change, and if the peer was
  not connected and is connected afterwards, one of the messages is a Finished. A record that is too short,
  incomplete, too early, too late or answered with an error belongs to the first case. The property is not
  about the ClientHello of an unknown client or a reconnection: these calls are made in the
  state DTLS_STATE_WAIT_CLIENTHELLO, which no stored peer is ever in.\<close>

theorem handshake_messages_run:
  assumes "cx_ph ctx a = Some p" and "pr_state p \<noteq> DTLS_STATE_WAIT_CLIENTHELLO"
    and "handle_handshake env ctx (Some a) session role (pr_state p) received = Some (err, ctx')"
  shows "frame ctx' = frame ctx \<or>
    (\<exists>m ctx1 ms q. due_message env a ctx received m \<and> handled env session role a ctx m ctx1 \<and>
      drained env session role a ctx1 ms ctx' \<and>
      cx_ph ctx' a = Some q \<and> frame ctx' = move a (pr_state q) (frame ctx) \<and>
      (pr_state q = DTLS_STATE_CONNECTED \<longrightarrow> pr_state p \<noteq> DTLS_STATE_CONNECTED \<longrightarrow>
        (\<exists>x\<in>set (m # ms). x ! 0 = 20)))"
proof (rule disjE [OF handle_handshake_run [OF assms]])
  assume "\<exists>m ctx1 ms. due_message env a ctx received m \<and> handled env session role a ctx m ctx1 \<and>
      drained env session role a ctx1 ms ctx'"
  then obtain m ctx1 ms where m: "due_message env a ctx received m" "handled env session role a ctx m ctx1"
    "drained env session role a ctx1 ms ctx'" by blast
  obtain q where q: "cx_ph ctx1 a = Some q" "frame ctx1 = move a (pr_state q) (frame ctx)"
    "pr_state q = DTLS_STATE_CONNECTED \<longrightarrow> pr_state p \<noteq> DTLS_STATE_CONNECTED \<longrightarrow> m ! 0 = 20"
    using handled_moves [OF m(2) assms(1)] by blast
  obtain q' where "cx_ph ctx' a = Some q'" "frame ctx' = move a (pr_state q') (frame ctx1)"
    "pr_state q' = DTLS_STATE_CONNECTED \<longrightarrow> pr_state q \<noteq> DTLS_STATE_CONNECTED \<longrightarrow> (\<exists>m\<in>set ms. m ! 0 = 20)"
    using drained_moves [OF m(3) q(1)] by blast
  then show ?thesis using m q by auto
qed simp

subsection \<open>Becoming connected\<close>

lemma check_finished_accepts:
  assumes "alloc_all env" and "cx_ph ctx a = Some p" and "pr_handshake p = Some h"
    and "sha_repr (hs_hash (hp_hs_state h)) msgs"
    and "check_finished env ctx (Some a) data = Some (err, ctx')" and "0 \<le> err"
  shows "take 12 (drop 12 data) = finished_value (hp_master_secret h)
    (if pr_role p = DTLS_CLIENT then prf_label_server else prf_label_client) msgs"
proof -
  have e: "HS_ERROR < 0" by (simp add: HS_ERROR_def alert_defs)
  have "24 \<le> length data"
  proof (rule ccontr)
    assume "\<not> 24 \<le> length data"
    then have "err = HS_ERROR" using assms(5) by (simp add: check_finished_def)
    then show False using e assms(6) by simp
  qed
  then show ?thesis
    using check_finished_value [OF assms(1-4)] assms(5,6) e by (simp split: if_splits)
qed

text \<open>C3: Nobody gets connected without the key: if handling a handshake message makes a peer connected that
  was not, then the peer was waiting for a Finished, the message is a Finished, and its contents are
  the verify data of the opposite role for the negotiated master secret and the messages exchanged.\<close>

theorem connected_only_by_finished:
  assumes "alloc_all env" and "cx_ph ctx a = Some p" and "pr_handshake p = Some h"
    and "sha_repr (hs_hash (hp_hs_state h)) msgs"
    and "pr_state p \<noteq> DTLS_STATE_CONNECTED" and "pr_state p \<noteq> DTLS_STATE_WAIT_CLIENTHELLO"
    and "handle_handshake_msg env ctx (Some a) session role (pr_state p) data = Some (err, ctx')"
    and "cx_ph ctx' a = Some q" and "pr_state q = DTLS_STATE_CONNECTED"
  shows "data ! 0 = 20 \<and> pr_state p = DTLS_STATE_WAIT_FINISHED \<and> 0 \<le> err \<and>
    take 12 (drop 12 data) = finished_value (hp_master_secret h)
      (if pr_role p = DTLS_CLIENT then prf_label_server else prf_label_client) msgs"
proof -
  note s = handle_msg_step [OF assms(2,6,7)]
  have ok: "\<not> err < 0"
  proof
    assume "err < 0"
    then have "frame ctx' = move a (pr_state p) (frame ctx)"
      using s move_same [OF assms(2)] by (simp add: stepped_def)
    then show False using frame_moved [OF _ assms(2)] assms(5,8,9) by fastforce
  qed
  obtain st where st: "allowed_step (suite p) (data ! 0) role (pr_state p) st" "frame ctx' = move a st (frame ctx)"
    using s ok by (auto simp: stepped_def)
  have "st = DTLS_STATE_CONNECTED" using frame_moved [OF st(2) assms(2)] assms(8,9) by simp
  then have t: "data ! 0 = 20" "pr_state p = DTLS_STATE_WAIT_FINISHED"
    using allowed_connected st(1) assms(5) by blast+
  obtain c r c' where c: "dtls_stop_retransmission ctx (Some a) = Some c"
      "on_finished env c (Some a) role DTLS_STATE_WAIT_FINISHED data = Some (r, c')"
      "(case r of Return err \<Rightarrow> Some (err, c')
        | Break err peer \<Rightarrow> map_option (\<lambda>ctx. (err, ctx)) (advance_mseq_r peer err c')) = Some (err, ctx')"
    using assms(7) t by (auto simp: handle_handshake_msg_def Option.bind_eq_Some_conv msg_case_def rd_def split: if_splits)
  have p: "cx_ph c a = Some p"
    using postD [OF keep_stop [where Q = "\<lambda>c. cx_ph c = cx_ph ctx", OF refl] c(1)] assms(2) by simp
  obtain e c2 where e: "check_finished env c (Some a) data = Some (e, c2)"
    using c(2) p assms(3) by (auto simp: on_finished_def unless_error_def Option.bind_eq_Some_conv)
  have "0 \<le> e" using c(2,3) p assms(3) e ok by (auto simp: on_finished_def unless_error_def split: if_splits)
  then show ?thesis
    using check_finished_accepts [OF assms(1) p assms(3,4) e] t ok by simp
qed

subsection \<open>Application data before the handshake\<close>

text \<open>C40: Unprotected data is delivered: while the current security parameters of a peer are the initial
  ones, that is in every state before its own ChangeCipherSpec, an unencrypted record of application
  data is handed to the application. Neither the state of the peer nor a MAC is looked at, and any 68
  bytes at its end are taken for the TESLA extension.\<close>

theorem unprotected_data_delivered:
  assumes "alloc_all env" and "dtls_get_peer (cx_ph ctx) session (cx_peers ctx) = Some (Some a)"
    and "cx_peers ctx = Some a" and "cx_ph ctx a = Some p" and "pr_security0 p = Some s"
    and "sp_epoch s = 0" and "sp_cipher s = TLS_NULL_WITH_NULL_NULL"
    and "dtls_stop_retransmission ctx (Some a) = Some c"
    and "length seq = 6" and "length ext = 68" and "length m + 36 \<le> length (ps_t_msg (pr_tesla_ps p))"
    and "length m + 68 < 2 ^ 16"
  shows "\<exists>ctx'. dtls_handle_message env ctx session
      (23 # [0xfe, 0xfd] @ [0, 0] @ seq @ be_bytes 2 (length m + 68) @ m @ ext) = Some (0, ctx') \<and>
    cx_read ctx' = cx_read ctx @ [(pr_session p, m)]"
proof -
  define msg where "msg = 23 # be_bytes 2 0xfefd @ [0, 0] @ seq @ be_bytes 2 (length (m @ ext)) @ (m @ ext)"
  have msg: "23 # [0xfe, 0xfd] @ [0, 0] @ seq @ be_bytes 2 (length m + 68) @ m @ ext = msg"
    using assms(10) by (simp add: msg_def version_bytes)
  have rec: "is_record msg = Some (13 + length (m @ ext))"
    using is_record_header [of 23 "[0, 0]" seq "m @ ext" "[]"] assms(9,10,12) by (simp add: msg_def)
  define hdr where "hdr = 23 # be_bytes 2 0xfefd @ [0, 0] @ seq @ be_bytes 2 (length (m @ ext))"
  have h: "msg = hdr @ (m @ ext)" "length hdr = 13" using assms(9) by (simp_all add: msg_def hdr_def)
  have len: "length msg = 13 + length (m @ ext)" "drop 13 msg = m @ ext" unfolding h(1) using h(2) by simp_all
  have "drop 3 msg = [0, 0] @ seq @ be_bytes 2 (length (m @ ext)) @ (m @ ext)"
    by (simp add: msg_def version_bytes)
  then have ep: "dtls_get_epoch msg = Some 0"
    by (simp add: dtls_get_epoch_def dtls_uint16_to_int_def rd_def)
  have d: "decrypt_verify (cx_cctx ctx) (Some p) msg = Some (int (length (m @ ext)), m @ ext, Some p)"
    using ep assms(5-7) len
    by (simp add: decrypt_verify_def dtls_security_params_epoch_def security_slot_def)
  have c: "cx_ph c = cx_ph ctx" "frame c = frame ctx"
    using postD [OF keep_stop [where Q = "\<lambda>c. cx_ph c = cx_ph ctx \<and> frame c = frame ctx", OF refl] assms(8)]
    by simp_all
  have same: "store_peer a p ctx = ctx" using assms(4) by (rule store_same)
  have p: "cx_ph c a = Some p" "cx_peers c = Some a" "cx_read c = cx_read ctx"
    using c assms(3,4) by (simp_all add: frame_def)
  obtain k where r: "tesla_receive env c (m @ ext) = Some (m, k)"
    using tesla_receive_value [OF assms(1) p(2,1), of "m @ ext" "length m"] assms(10,11) by auto
  obtain ch c2 where k: "k = (ch, c2)" by (cases k)
  have c2: "cx_read c2 = cx_read ctx" "\<exists>ps. cx_ph c2 a = Some (p\<lparr>pr_tesla_ps := ps\<rparr>)"
    using tesla_receive_value [OF assms(1) p(2,1), of "m @ ext" "length m"] assms(10,11) r p(3)
    unfolding k by (auto simp: bump_def store_peer_def)
  define c3 where "c3 = c2\<lparr>cx_read := cx_read c2 @ [(pr_session p, m)]\<rparr>"
  have app: "record_application env ctx (Some a) (m @ ext) = Some (Next (Some a), c3)"
    using assms(8) r c2(2) unfolding k c3_def by (auto simp: record_application_def)
  have t: "rd msg 0 = Some 23" by (simp add: msg_def rd_def)
  have n: "\<not> int (length (m @ ext)) < 0" by simp
  have hr: "handle_record env ctx (Some a) session msg (length msg) = Some (Next (Some a), c3)"
    unfolding handle_record_def option.case assms(4) Option.bind.bind_lunit take_all [OF order.refl] d prod.case
      if_not_P [OF n] same record_dispatch_def t nat_int app
    by simp
  have nil: "is_record [] = Some 0" by (simp add: is_record_def)
  have "message_loop env ctx (Some a) session msg = Some (0, c3)"
    using rec hr len(1) by (subst message_loop.simps) (simp add: message_loop.simps [of _ _ _ _ "[]"] nil)
  then show ?thesis
    unfolding msg using assms(2) c2(1) by (simp add: dtls_handle_message_def c3_def)
qed


subsection \<open>Concrete runs\<close>

text \<open>A peer with the handshake parameters \<open>h\<close> in the state \<open>st\<close>, and nothing queued.\<close>

definition hs_ctx :: "dtls_handshake_parameters_t \<Rightarrow> dtls_state_t \<Rightarrow> dtls_context_t" where
  "hs_ctx h st = (ctx_example [1 \<mapsto> peer_example 1\<lparr>pr_handshake := Some h, pr_state := st\<rparr>])\<lparr>cx_peers := Some 1\<rparr>"

lemma hs_ctx_fields:
  "cx_ph (hs_ctx h st) 1 = Some (peer_example 1\<lparr>pr_handshake := Some h, pr_state := st\<rparr>)"
  "cx_sendqueue (hs_ctx h st) = None" "cx_nh (hs_ctx h st) = Map.empty" "cx_peers (hs_ctx h st) = Some 1"
  by (simp_all add: hs_ctx_def ctx_example_def)

lemma stop_nothing:
  "cx_ph ctx a = Some p \<Longrightarrow> cx_sendqueue ctx = None \<Longrightarrow> dtls_stop_retransmission ctx (Some a) = Some ctx"
  by (simp add: dtls_stop_retransmission_def netq_head_def stop_loop.simps)

lemma hs_ctx_stop: "dtls_stop_retransmission (hs_ctx h st) (Some 1) = Some (hs_ctx h st)"
  by (rule stop_nothing [OF hs_ctx_fields(1,2)])

text \<open>The client accepts the Finished of the server and is connected, the handshake parameters are gone.\<close>

lemma finished_connects:
  assumes "alloc_all env" and "cx_ph ctx a = Some p" and "pr_handshake p = Some h"
    and "sha_repr (hs_hash (hp_hs_state h)) msgs" and "pr_role p = DTLS_CLIENT"
    and "cx_sendqueue ctx = None" and "hp_reorder_queue h = None" and "length hdr = 11"
  shows "\<exists>ctx' q. handle_handshake_msg env ctx (Some a) session DTLS_CLIENT DTLS_STATE_WAIT_FINISHED
      (20 # hdr @ finished_value (hp_master_secret h) prf_label_server msgs) = Some (0, ctx') \<and>
    cx_ph ctx' a = Some q \<and> pr_state q = DTLS_STATE_CONNECTED \<and> pr_handshake q = None"
proof -
  let ?d = "20 # hdr @ finished_value (hp_master_secret h) prf_label_server msgs"
  have l: "24 \<le> length ?d" using assms(8) length_finished_value by simp
  have v: "take 12 (drop 12 ?d) = finished_value (hp_master_secret h) prf_label_server msgs"
    using assms(8) length_finished_value by simp
  have c: "check_finished env ctx (Some a) ?d = Some (0, bump 2 ctx)"
    using check_finished_value [OF assms(1-4) l] assms(5) v by simp
  have f: "dtls_handshake_free nh (Some h) = Some nh" for nh
    using assms(7) by (simp add: dtls_handshake_free_def netq_delete_all_def netq_delete_loop.simps)
  show ?thesis
    using assms(2,3) c f
    by (simp add: handle_handshake_msg_def stop_nothing [OF assms(2,6)] rd_def msg_case_def on_finished_def unless_error_def
        Let_def set_state_def ticks_def bump_def store_peer_def)
qed

text \<open>The Finished of the server as a whole message with the number 0.\<close>

definition finished_header :: bytes where
  "finished_header = [0, 0, 12, 0, 0, 0, 0, 0, 0, 0, 12]"

definition finished_example :: bytes where
  "finished_example = 20 # finished_header @ finished_value (hp_master_secret hs_example) prf_label_server [1, 2, 3]"

lemma example_facts:
  "pr_handshake (peer_example 1\<lparr>pr_handshake := Some h, pr_state := st\<rparr>) = Some h"
  "pr_role (peer_example 1\<lparr>pr_handshake := h', pr_state := st\<rparr>) = DTLS_CLIENT"
  "hp_reorder_queue hs_example = None" "hs_mseq_r (hp_hs_state hs_example) = 0" "length finished_header = 11"
  "alloc_all env_example" "fresh_addresses env_example"
  "pr_next (peer_example 1\<lparr>pr_handshake := h', pr_state := st\<rparr>) = None"
  by (simp_all add: peer_example_def dtls_new_peer_def dtls_security_new_def hs_example_def set_hash_def
      dtls_handshake_new_def alloc_all_def env_example_def fresh_addresses_def finished_header_def)


text \<open>The same message in a record.\<close>

lemma finished_record:
  "\<exists>ctx' q. handle_handshake env_example (hs_ctx hs_example DTLS_STATE_WAIT_FINISHED) (Some 1)
      (pr_session (peer_example 1)) DTLS_CLIENT DTLS_STATE_WAIT_FINISHED finished_example = Some (0, ctx') \<and>
    cx_ph ctx' 1 = Some q \<and> pr_state q = DTLS_STATE_CONNECTED"
proof -
  let ?st = "DTLS_STATE_WAIT_FINISHED"
  let ?c = "hs_ctx hs_example ?st" and ?p = "peer_example 1\<lparr>pr_handshake := Some hs_example, pr_state := ?st\<rparr>"
  let ?h = "dtls_free_reassemble_buffer hs_example"
  define c0 where "c0 = snd (malloc_ok env_example (snd (malloc_ok env_example ?c)))"
  define c1 where "c1 = store_peer 1 (?p\<lparr>pr_handshake := Some hs_example\<rparr>) c0"
  define c2 where "c2 = store_peer 1 (?p\<lparr>pr_handshake := Some ?h\<rparr>) c1"
  have c0: "cx_ph c0 1 = Some ?p" "cx_sendqueue c0 = None" by (simp_all add: c0_def malloc_ok_def Let_def hs_ctx_fields del: One_nat_def)
  have c2: "cx_ph c2 1 = Some (?p\<lparr>pr_handshake := Some ?h\<rparr>)" "cx_sendqueue c2 = None"
    using c0 by (simp_all add: c2_def c1_def store_peer_def)
  have p: "put_hs 1 (Some hs_example) c0 = Some c1" "put_hs 1 (Some ?h) c1 = Some c2"
    using c0 by (simp_all add: put_hs_def c1_def c2_def store_peer_def)
  have role: "pr_role (?p\<lparr>pr_handshake := Some ?h\<rparr>) = DTLS_CLIENT"
    using example_facts(2) [where st = ?st] by simp
  have h: "hp_reorder_queue ?h = None" "sha_repr (hs_hash (hp_hs_state ?h)) [1, 2, 3]"
    "hp_master_secret ?h = hp_master_secret hs_example"
    using example_facts(3) hs_example_repr by (simp_all add: dtls_free_reassemble_buffer_def hp_master_secret_def)
  obtain ctx' q where m: "handle_handshake_msg env_example c2 (Some 1) (pr_session (peer_example 1)) DTLS_CLIENT
      ?st finished_example = Some (0, ctx')" "cx_ph ctx' 1 = Some q" "pr_state q = DTLS_STATE_CONNECTED" "pr_handshake q = None"
    using finished_connects [OF example_facts(6) c2(1) _ h(2) role c2(2) h(1) example_facts(5),
        where session = "pr_session (peer_example 1)"]
    unfolding finished_example_def h(3) by auto
  have d: "dtls_uint24_to_int (drop 1 finished_example) = Some 12" "dtls_uint24_to_int (drop 9 finished_example) = Some 12"
    "dtls_uint24_to_int (drop 6 finished_example) = Some 0" "dtls_uint16_to_int (drop 4 finished_example) = Some 0"
    "rd finished_example 0 = Some 20" "\<not> length finished_example < 12"
    by (simp_all add: finished_example_def finished_header_def dtls_uint24_to_int_def dtls_uint16_to_int_def rd_def)
  have r: "hs_reassemble ok1 ok2 (Some hs_example) finished_example = Some (Deliver finished_example, Some hs_example)"
    for ok1 ok2 by (simp add: hs_reassemble_def d del: One_nat_def)
  have drain: "reorder_drain env_example ctx' 1 s DTLS_CLIENT 0 = Some (0, ctx')" for s
    using m(2,4) by (subst reorder_drain.simps) simp
  show ?thesis
    using m(1-3) drain
    by (simp add: handle_handshake_def case_prod_unfold Let_def d r p hs_ctx_fields example_facts(4) hs_payload_def
        c0_def [symmetric] del: One_nat_def)
qed

lemma handshake_messages_run_witness:
  "\<exists>ctx' m ctx1 ms. handle_handshake env_example (hs_ctx hs_example DTLS_STATE_WAIT_FINISHED) (Some 1)
      (pr_session (peer_example 1)) DTLS_CLIENT DTLS_STATE_WAIT_FINISHED finished_example = Some (0, ctx') \<and>
    due_message env_example 1 (hs_ctx hs_example DTLS_STATE_WAIT_FINISHED) finished_example m \<and>
    handled env_example (pr_session (peer_example 1)) DTLS_CLIENT 1 (hs_ctx hs_example DTLS_STATE_WAIT_FINISHED) m ctx1 \<and>
    drained env_example (pr_session (peer_example 1)) DTLS_CLIENT 1 ctx1 ms ctx' \<and>
    (\<exists>x\<in>set (m # ms). x ! 0 = 20)"
proof -
  let ?st = "DTLS_STATE_WAIT_FINISHED"
  let ?c = "hs_ctx hs_example ?st" and ?p = "peer_example 1\<lparr>pr_handshake := Some hs_example, pr_state := ?st\<rparr>"
  obtain ctx' q where m: "handle_handshake env_example ?c (Some 1) (pr_session (peer_example 1)) DTLS_CLIENT
      (pr_state ?p) finished_example = Some (0, ctx')" "cx_ph ctx' 1 = Some q" "pr_state q = DTLS_STATE_CONNECTED"
    using finished_record by auto
  have "frame ctx' \<noteq> frame ?c"
  proof
    assume "frame ctx' = frame ?c"
    then have "frame ctx' = move 1 ?st (frame ?c)" using move_same [OF hs_ctx_fields(1)] by simp
    from frame_moved [OF this hs_ctx_fields(1)] m(2,3) show False by simp
  qed
  then show ?thesis
    using handshake_messages_run [OF hs_ctx_fields(1) _ m(1)] m by fastforce
qed

lemma connected_only_by_finished_witness:
  "\<exists>ctx' v. handle_handshake_msg env_example (hs_ctx hs_example DTLS_STATE_WAIT_FINISHED) (Some 1)
      (pr_session (peer_example 1)) DTLS_CLIENT DTLS_STATE_WAIT_FINISHED (20 # replicate 11 0 @ v) = Some (0, ctx') \<and>
    take 12 v = finished_value (hp_master_secret hs_example) prf_label_server [1, 2, 3]"
proof -
  let ?c = "hs_ctx hs_example DTLS_STATE_WAIT_FINISHED"
  let ?p = "peer_example 1\<lparr>pr_handshake := Some hs_example, pr_state := DTLS_STATE_WAIT_FINISHED\<rparr>"
  have p: "pr_handshake ?p = Some hs_example" "pr_role ?p = DTLS_CLIENT" "hp_reorder_queue hs_example = None"
    "length (replicate 11 0 :: bytes) = 11" "alloc_all env_example"
    "pr_state ?p \<noteq> DTLS_STATE_CONNECTED" "pr_state ?p \<noteq> DTLS_STATE_WAIT_CLIENTHELLO" "pr_state ?p = DTLS_STATE_WAIT_FINISHED"
    by (simp_all add: peer_example_def dtls_new_peer_def dtls_security_new_def hs_example_def set_hash_def
        dtls_handshake_new_def alloc_all_def env_example_def)
  obtain ctx' q where m: "handle_handshake_msg env_example ?c (Some 1) (pr_session (peer_example 1)) DTLS_CLIENT
      DTLS_STATE_WAIT_FINISHED (20 # replicate 11 0 @ finished_value (hp_master_secret hs_example) prf_label_server [1, 2, 3]) =
      Some (0, ctx')" "cx_ph ctx' 1 = Some q" "pr_state q = DTLS_STATE_CONNECTED"
    using finished_connects [OF p(5) hs_ctx_fields(1) p(1) hs_example_repr p(2) hs_ctx_fields(2) p(3,4)] by blast
  show ?thesis
    using connected_only_by_finished [OF p(5) hs_ctx_fields(1) p(1) hs_example_repr p(6,7) _ m(2,3)] m(1) p(2,8)
    by fastforce
qed

lemma unprotected_data_delivered_witness:
  "\<exists>ctx'. dtls_handle_message env_example (hs_ctx hs_example DTLS_STATE_WAIT_CLIENTKEYEXCHANGE)
      (pr_session (peer_example 1)) (23 # [0xfe, 0xfd] @ [0, 0] @ replicate 6 0 @ be_bytes 2 70 @ [104, 105] @ replicate 68 0) =
      Some (0, ctx') \<and>
    cx_read ctx' = [(pr_session (peer_example 1), [104, 105])]"
proof -
  let ?c = "hs_ctx hs_example DTLS_STATE_WAIT_CLIENTKEYEXCHANGE"
  let ?p = "peer_example 1\<lparr>pr_handshake := Some hs_example, pr_state := DTLS_STATE_WAIT_CLIENTKEYEXCHANGE\<rparr>"
  obtain s where s: "pr_security0 ?p = Some s" "sp_epoch s = 0" "sp_cipher s = TLS_NULL_WITH_NULL_NULL"
    by (simp add: peer_example_def dtls_new_peer_def dtls_security_new_def)
  have g: "dtls_get_peer (cx_ph ?c) (pr_session (peer_example 1)) (cx_peers ?c) = Some (Some 1)"
    by (simp add: hs_ctx_fields dtls_get_peer.simps dtls_session_equals_def peer_example_def dtls_new_peer_def dtls_security_new_def del: One_nat_def)
  have a: "alloc_all env_example" by (simp add: alloc_all_def env_example_def)
  have l: "length (replicate 6 (0 :: u8)) = 6" "length (replicate 68 (0 :: u8)) = 68"
    "length [104 :: u8, 105] + 36 \<le> length (ps_t_msg (pr_tesla_ps ?p))" "length [104 :: u8, 105] + 68 < 2 ^ 16"
    by (simp_all add: peer_example_def dtls_new_peer_def dtls_security_new_def)
  have r: "cx_read ?c = []" "pr_session ?p = pr_session (peer_example 1)" by (simp_all add: hs_ctx_def ctx_example_def)
  show ?thesis
    using unprotected_data_delivered [OF a g hs_ctx_fields(4,1) s hs_ctx_stop l] unfolding r by simp
qed

end
