(* ===== verification/Spec2Isabelle.thy ===== *)
theory Spec2Isabelle
  imports Prelude Numeric Linked Netq Sha3 Sha3_Correct Sha256 Sha256_Correct Hmac Crypto Peer Rijndael_Tables
    Rijndael Rijndael_Correct Ccm Ccm_Correct Aead RecordLayer Cookie Hello U256 Binomial_Table Binomial_Full Cff
    ChaCha ChaCha_Stream ChaCha_Wide Ksnmss Ksnmss_Tree Ksnmss_Schedule
    Ksnmss_Budget Ksnmss_Traversal Ksnmss_Verify Swifft Swifft_Lanes Swifft_Linear
    BigNum P256Field FieldInv EcPoint Ecdsa EcGuarantees EcKeys Engine Keys Frag Retransmit
    ServerFlight ClientFlight Ntp Tesla Dispatch Message
    Frame StateMachine
begin

text \<open>
  \<^bold>\<open>A verification library for tinyDTLS with TESLA and K2SN-MSS extensions\<close>

  The program is a small DTLS 1.2 library (\<open>dtls.c\<close>) with its cryptographic parts and a packet
  queue, extended by broadcast authentication. Its parts, from the bottom up, the theory that
  models each, and what its lemmas show:

  \<^item> \<open>dtls-numeric.h\<close> and the byte helpers of \<open>tinydtls.h\<close>: \<open>Numeric\<close>. Network byte order codecs on
    words of their width; every reader inverts its writer.
  \<^item> \<open>netq.c\<close>: \<open>Netq\<close>, on the linked lists of \<open>Linked\<close>. The heap of nodes is a map from addresses to
    \<open>netq_t\<close> records, the head a nullable address; the operations are total functions to \<open>option\<close>
    with \<open>None\<close> for a dangling access. They refine insertion, removal and popping of a list that is
    sorted by time. The list laws are the locales \<open>linked\<close> and \<open>unlinking\<close>, interpreted for queue
    nodes and for peers.
  \<^item> \<open>sha2/sha2.c\<close>: \<open>Sha256\<close> (the code, with its sixteen-word schedule ring and in-place padding)
    and \<open>Sha256_Correct\<close> (equal to FIPS 180-4 for every partition of the message).
  \<^item> \<open>sha3.c\<close>: \<open>Sha3\<close> and \<open>Sha3_Correct\<close> (the permutation, SHA-3 and SHAKE are those of FIPS 202).
  \<^item> \<open>dtls-hmac.c\<close>: \<open>Hmac\<close>, equal to FIPS 198. The locale \<open>incremental_hash\<close> holds what an
    init/update/finalize interface promises; it is interpreted for the hash and for the HMAC.
  \<^item> \<open>dtls-crypto.c\<close>: \<open>Crypto\<close> (PRF, plain-PSK secret, key octets), \<open>Aead\<close> (the CCM wrappers) and
    \<open>EcKeys\<close> (key generation, key agreement and signatures on byte strings).
  \<^item> \<open>ecc/ecc.c\<close>: \<open>BigNum\<close> (arrays of words as numbers), \<open>P256Field\<close> (arithmetic modulo the prime and the
    order of secp256r1), \<open>FieldInv\<close> (inversion, which may not end), \<open>EcPoint\<close> (doubling, addition and
    multiplication against the chord-and-tangent formulas), \<open>Ecdsa\<close> (signing and validation as equations
    modulo the order), \<open>EcGuarantees\<close> (what all this guarantees, and where the fast reduction is wrong).
  \<^item> \<open>k2sn/1cff.c\<close>: \<open>U256\<close> (numbers of five 64-bit words), \<open>Binomial_Table\<close> and \<open>Binomial_Full\<close> (the
    table of binomial coefficients), \<open>Cff\<close> (the selection of component keys is the combinatorial number
    system, so it is 1-cover-free).
  \<^item> \<open>k2sn/ChaCha20\<close>: \<open>ChaCha\<close> (key setup, the scalar loop of \<open>chacha.c\<close> and the vector loops of \<open>u8.h\<close>, \<open>u4.h\<close>
    and \<open>u1.h\<close> on lists of lanes), \<open>ChaCha_Stream\<close> and \<open>ChaCha_Wide\<close> (all of them produce one key stream).
  \<^item> \<open>k2sn/ksnmss.c\<close>: \<open>Ksnmss\<close> (key generation, signing with the tree traversal, verification, over a hash
    function given by \<open>mss_env\<close>), \<open>Ksnmss_Tree\<close> (the nodes of the tree and the stacks that compute them),
    \<open>Ksnmss_Schedule\<close> and \<open>Ksnmss_Budget\<close> (nine updates a signature complete every instance in time, by a
    potential argument), \<open>Ksnmss_Traversal\<close> (the authentication path after each signature), \<open>Ksnmss_Verify\<close>
    (signatures verify if the hash function is linear, the last instance cannot be used, verification
    compares sums only).
  \<^item> \<open>k2sn/swifft16\<close>: \<open>Swifft\<close> (both hash functions, on registers of sixteen lanes), \<open>Swifft_Lanes\<close> (packing and
    the reductions modulo 257 lane by lane), \<open>Swifft_Linear\<close> (both are one linear function, so the
    signature scheme works with them; the constants of the program as an instance).
  \<^item> \<open>aes/rijndael.c\<close>: \<open>Rijndael_Tables\<close>, \<open>Rijndael\<close>, and \<open>Rijndael_Correct\<close> (equal to the AES-128 of
    FIPS 197; the tables are checked entry by entry against the S-box and the field).
  \<^item> \<open>dtls-ccm.c\<close>: \<open>Ccm\<close> and \<open>Ccm_Correct\<close> (both directions against the RFC 3610 tag and counter
    mode). The locale \<open>keyed_ctx\<close> is a cipher context that was given a key.
  \<^item> \<open>dtls-peer.h\<close>, \<open>dtls-peer.c\<close>, \<open>dtls-state.h\<close>, \<open>posix/dtls-support.c\<close>: \<open>Peer\<close>. Sessions, security
    parameters, handshake parameters and peers as records; the list of peers and the two slots of
    security parameters.
  \<^item> \<open>dtls.c\<close>, record layer: \<open>RecordLayer\<close>. Headers, \<open>dtls_prepare_record\<close>, \<open>decrypt_verify\<close>.
  \<^item> \<open>dtls.c\<close>, cookies: \<open>Cookie\<close>; parsing of a ClientHello: \<open>Hello\<close>.
  \<^item> \<open>dtls.c\<close> and \<open>dtls.h\<close>, the engine: \<open>Engine\<close>. \<open>dtls_context_t\<close> holds the heaps of peers and queue
    nodes, and logs of the datagrams written, the data delivered and the events reported;
    \<open>dtls_env\<close> holds the callbacks, the clock, the random source and the allocators. Sending,
    closing, destroying peers and retransmitting are functions of both to an optional new context.
  \<^item> \<open>dtls.c\<close>, key block and Finished: \<open>Keys\<close>; fragmentation and reassembly: \<open>Frag\<close>;
    what the retransmission queue guarantees: \<open>Retransmit\<close> (a call of \<open>dtls_check_retransmit\<close> is a
    function on the list of queued messages, a step relation of polls empties it, and \<open>queue_history\<close> tells
    when each message was sent again).
  \<^item> \<open>dtls.c\<close>, the messages of the server: \<open>ServerFlight\<close>; of the client: \<open>ClientFlight\<close>. What one side
    sends in its hello is what the other side reads, signature elements survive the transport.
  \<^item> \<open>ntp.c\<close>, the integer time arithmetic: \<open>Ntp\<close>. \<open>tesla.h\<close> and the TESLA parts of \<open>dtls.c\<close>: \<open>Tesla\<close>
    (key chain, signed synchronisation record, delayed authentication of application data).
  \<^item> \<open>dtls.c\<close>, the state machine: \<open>Dispatch\<close> (\<open>handle_handshake_msg\<close> case by case, \<open>handle_handshake\<close> with
    the reorder queue, ChangeCipherSpec, alerts); the entry points: \<open>Message\<close> (\<open>dtls_connect\<close>,
    \<open>dtls_write\<close>, \<open>dtls_handle_message\<close>).
  \<^item> What the state machine guarantees: \<open>Frame\<close> (a small calculus of postconditions, and for every
    message function that it keeps the peers, their states and the delivered data) and \<open>StateMachine\<close>
    (the protocol as the step relation \<open>hs_step\<close>, and \<open>allowed_step\<close>, which adds the one deviation of the
    code, a ServerKeyExchange before a suite is negotiated; every call of \<open>handle_handshake_msg\<close> refines
    it, those for unknown and reconnecting clients by \<open>replaced\<close>; a record given to \<open>handle_handshake\<close> is one
    step for the message due and one for each stored message after it, \<open>handled\<close> and \<open>drained\<close>; only a good
    Finished connects a peer).

  Conventions. \<open>None\<close> as the outcome of a model function is a memory error of the C code (a null or
  dangling pointer, a write past a buffer); error returns of the code are negative numbers as in
  the code. Machine integers are words of their width; \<open>int\<close> results are integers, since the code
  keeps them far from overflow. Loops are recursive functions with a termination proof, or
  \<open>partial_function (option)\<close> where they follow pointers; the theorems about the latter state that
  they return.

  Not modelled: logging; the platform layer (locks, clock, allocators and sockets are parameters);
  SHA-384/512 and AES decryption, which the build leaves out; the test programs; generated build
  files; of \<open>k2sn\<close> the ChaCha20 loops for AVX-512, which the build leaves out, the benchmark and file
  output, and the header of the SWIFFT tables, which the repository lacks. That the addition of points is associative and
  commutative is not proved; \<open>ecdh_agreement\<close> has the equality of the two products as a hypothesis.
\<close>

end
